(* ===== verification/Go_Prelude.thy ===== *)
theory Go_Prelude
  imports Main "HOL-Library.Sublist" "HOL-Library.AList"
begin

text \<open>
  What the development takes from Go and its standard library, and the lemmas every
  component shares.

  \<^item> Strings are byte strings (\<open>string\<close>, one \<open>char\<close> per byte), as Go's are. The case
    mappings (\<open>strings.ToLower\<close>, \<open>ToUpper\<close>, \<open>EqualFold\<close>) and \<open>strings.TrimSpace\<close> act on
    the ASCII range: the names, labels, keys and header values of this program are ASCII
    text, and bytes above 127 are left alone.
  \<^item> Errors are values of \<open>gerr\<close>: a leaf, a package-level sentinel, \<open>fmt.Errorf\<close> with one
    \<open>%w\<close>, \<open>errors.Join\<close> and the scale-set package's \<open>permanentSessionError\<close>.
  \<^item> An \<open>int64\<close> is an \<open>int\<close>, with \<open>wrap64\<close> written out where a product or sum may leave
    the range.
  \<^item> A Go map is an association list with distinct keys; its order stands for the
    (unspecified) iteration order.
  \<^item> \<open>reach\<close> and the locale \<open>invariant_machine\<close> carry every state-machine argument;
    \<open>backoff_schedule\<close> is the contract shared by the two retry schedules.
\<close>

section \<open>Errors\<close>

datatype sentinel =
    ContextCanceled
  | DeadlineExceeded
  | ErrContentsForbidden         \<comment> \<open>\<open>github.ErrContentsForbidden\<close>\<close>
  | ErrRunnerNotFound            \<comment> \<open>\<open>github.ErrRunnerNotFound\<close>\<close>
  | SqlErrNoRows                 \<comment> \<open>\<open>sql.ErrNoRows\<close>\<close>
  | OsErrNotExist                \<comment> \<open>\<open>os.ErrNotExist\<close>\<close>
  | ErrNoParts                   \<comment> \<open>\<open>cache.errNoParts\<close>\<close>
  | ErrPartMismatch              \<comment> \<open>\<open>cache.errPartMismatch\<close>\<close>
  | UpstreamRunnerNotFound       \<comment> \<open>\<open>scaleset.RunnerNotFoundError\<close>\<close>
  | ErrInvalidGitHubConfigURL    \<comment> \<open>\<open>scaleset.ErrInvalidGitHubConfigURL\<close>\<close>

text \<open>\<open>Wrap p e s\<close> is \<open>fmt.Errorf(p + "%w" + s, e)\<close>; a sentinel carries its own text.\<close>

datatype gerr =
    Leaf string
  | Sent sentinel string
  | Wrap string gerr string
  | Join "gerr list"
  | Permanent gerr

definition newline :: string where
  "newline = [CHR 0x0A]"

fun sepBy :: "string \<Rightarrow> string list \<Rightarrow> string" where
  "sepBy sep [] = []"
| "sepBy sep [x] = x"
| "sepBy sep (x # y # xs) = x @ sep @ sepBy sep (y # xs)"

fun errMsg :: "gerr \<Rightarrow> string" where
  "errMsg (Leaf m) = m"
| "errMsg (Sent _ m) = m"
| "errMsg (Wrap p e s) = p @ errMsg e @ s"
| "errMsg (Join es) = sepBy newline (map errMsg es)"
| "errMsg (Permanent e) = errMsg e"

text \<open>
  \<open>errors.Is\<close> follows \<open>Unwrap\<close>. \<open>permanentSessionError\<close> embeds the \<open>error\<close> interface, which
  promotes \<open>Error\<close> only, so the search stops there.
\<close>

fun errIs :: "sentinel \<Rightarrow> gerr \<Rightarrow> bool" where
  "errIs s (Leaf m) = False"
| "errIs s (Sent s' m) = (s = s')"
| "errIs s (Wrap p e q) = errIs s e"
| "errIs s (Join es) = list_ex (errIs s) es"
| "errIs s (Permanent e) = False"

text \<open>\<open>errors.As\<close> with a \<open>permanentSessionError\<close> target.\<close>

fun errAsPermanent :: "gerr \<Rightarrow> bool" where
  "errAsPermanent (Leaf m) = False"
| "errAsPermanent (Sent s m) = False"
| "errAsPermanent (Wrap p e q) = errAsPermanent e"
| "errAsPermanent (Join es) = list_ex errAsPermanent es"
| "errAsPermanent (Permanent e) = True"

text \<open>\<open>errors.Join\<close> of the non-nil errors collected in a slice.\<close>

definition joinErrs :: "gerr list \<Rightarrow> gerr option" where
  "joinErrs es = (if es = [] then None else Some (Join es))"

lemma joinErrs_None [simp]: "joinErrs es = None \<longleftrightarrow> es = []"
  by (simp add: joinErrs_def)

abbreviation errorf :: "string \<Rightarrow> gerr \<Rightarrow> gerr" where
  "errorf p e \<equiv> Wrap p e []"

section \<open>Strings\<close>

abbreviation hasPrefix :: "string \<Rightarrow> string \<Rightarrow> bool" where
  "hasPrefix s p \<equiv> prefix p s"

abbreviation hasSuffix :: "string \<Rightarrow> string \<Rightarrow> bool" where
  "hasSuffix s p \<equiv> suffix p s"

abbreviation contains :: "string \<Rightarrow> string \<Rightarrow> bool" where
  "contains s t \<equiv> sublist t s"

definition containsAny :: "string \<Rightarrow> string \<Rightarrow> bool" where
  "containsAny s cs = list_ex (\<lambda>c. c \<in> set cs) s"

definition trimPrefix :: "string \<Rightarrow> string \<Rightarrow> string" where
  "trimPrefix s p = (if prefix p s then drop (length p) s else s)"

definition trimSuffix :: "string \<Rightarrow> string \<Rightarrow> string" where
  "trimSuffix s p = (if suffix p s then take (length s - length p) s else s)"

definition trimRight :: "string \<Rightarrow> string \<Rightarrow> string" where
  "trimRight s cs = rev (dropWhile (\<lambda>c. c \<in> set cs) (rev s))"

definition spaceChars :: string where
  "spaceChars = [CHR 0x09, CHR 0x0A, CHR 0x0B, CHR 0x0C, CHR 0x0D, CHR '' '']"

definition trimSpace :: "string \<Rightarrow> string" where
  "trimSpace s = trimRight (dropWhile (\<lambda>c. c \<in> set spaceChars) s) spaceChars"

text \<open>\<open>strings.Split\<close> with a one-byte separator: always at least one piece.\<close>

fun splitOn :: "char \<Rightarrow> string \<Rightarrow> string list" where
  "splitOn sep [] = [[]]"
| "splitOn sep (c # cs) =
     (if c = sep then [] # splitOn sep cs
      else (case splitOn sep cs of [] \<Rightarrow> [[c]] | w # ws \<Rightarrow> (c # w) # ws))"

definition dropEmpty :: "string list \<Rightarrow> string list" where
  "dropEmpty ws = filter (\<lambda>w. w \<noteq> []) ws"

text \<open>\<open>strings.Fields\<close>: the maximal runs of non-space bytes.\<close>

definition fieldsOf :: "string \<Rightarrow> string list" where
  "fieldsOf s = dropEmpty (splitOn (CHR '' '')
     (map (\<lambda>c. if c \<in> set spaceChars then CHR '' '' else c) s))"

text \<open>\<open>strings.IndexByte\<close> (\<open>None\<close> for -1) and \<open>strings.Cut\<close> with a one-byte separator.\<close>

fun indexByte :: "string \<Rightarrow> char \<Rightarrow> nat option" where
  "indexByte [] c = None"
| "indexByte (x # xs) c = (if x = c then Some 0 else map_option Suc (indexByte xs c))"

definition cutAt :: "string \<Rightarrow> char \<Rightarrow> string \<times> string \<times> bool" where
  "cutAt s c = (case indexByte s c of
     None \<Rightarrow> (s, [], False) | Some i \<Rightarrow> (take i s, drop (Suc i) s, True))"

definition lowerChar :: "char \<Rightarrow> char" where
  "lowerChar c = (let n = of_char c :: nat in if 65 \<le> n \<and> n \<le> 90 then char_of (n + 32) else c)"

definition upperChar :: "char \<Rightarrow> char" where
  "upperChar c = (let n = of_char c :: nat in if 97 \<le> n \<and> n \<le> 122 then char_of (n - 32) else c)"

definition toLower :: "string \<Rightarrow> string" where
  "toLower s = map lowerChar s"

definition toUpper :: "string \<Rightarrow> string" where
  "toUpper s = map upperChar s"

definition equalFold :: "string \<Rightarrow> string \<Rightarrow> bool" where
  "equalFold s t = (toLower s = toLower t)"

lemma equalFold_refl [simp]: "equalFold s s"
  by (simp add: equalFold_def)

lemma equalFold_sym: "equalFold s t \<Longrightarrow> equalFold t s"
  by (simp add: equalFold_def)

lemma equalFold_trans: "equalFold s t \<Longrightarrow> equalFold t u \<Longrightarrow> equalFold s u"
  by (simp add: equalFold_def)

lemma lowerChar_idem [simp]: "lowerChar (lowerChar c) = lowerChar c"
  by (auto simp: lowerChar_def Let_def)

lemma toLower_idem [simp]: "toLower (toLower s) = toLower s"
  by (simp add: toLower_def)

lemma equalFold_toLower [simp]: "equalFold (toLower s) t = equalFold s t"
  by (simp add: equalFold_def)

lemma length_toLower [simp]: "length (toLower s) = length s"
  by (simp add: toLower_def)

lemma toLower_append [simp]: "toLower (s @ t) = toLower s @ toLower t"
  by (simp add: toLower_def)

lemma toLower_Nil [simp]: "toLower [] = []"
  by (simp add: toLower_def)

lemma trimPrefix_append [simp]: "trimPrefix (p @ s) p = s"
  by (simp add: trimPrefix_def)

lemma trimSuffix_append [simp]: "trimSuffix (s @ p) p = s"
  by (simp add: trimSuffix_def suffix_def)

lemma splitOn_not_Nil [simp]: "splitOn c s \<noteq> []"
  by (induction s) (auto split: list.splits)

lemma splitOn_no_sep [simp]: "c \<notin> set s \<Longrightarrow> splitOn c s = [s]"
  by (induction s) auto

lemma splitOn_append:
  "c \<notin> set s \<Longrightarrow> splitOn c (s @ c # t) = s # splitOn c t"
  by (induction s) auto

lemma splitOn_pieces: "w \<in> set (splitOn c s) \<Longrightarrow> c \<notin> set w"
  by (induction s arbitrary: w) (auto split: if_splits list.splits)

lemma sepBy_splitOn [simp]: "sepBy [c] (splitOn c s) = s"
proof (induction s)
  case (Cons a s)
  obtain w ws where w: "splitOn c s = w # ws" by (cases "splitOn c s") auto
  show ?case using Cons w by (cases ws) auto
qed simp

lemma indexByte_None: "indexByte s c = None \<longleftrightarrow> c \<notin> set s"
  by (induction s) auto

lemma indexByte_Some:
  "indexByte s c = Some i \<Longrightarrow> i < length s \<and> s ! i = c \<and> c \<notin> set (take i s)"
  by (induction s arbitrary: i) (auto split: if_splits)

lemma indexByte_split: "indexByte s c = Some i \<Longrightarrow> s = take i s @ c # drop (Suc i) s"
  using indexByte_Some id_take_nth_drop by metis

lemma indexByte_append: "c \<notin> set s \<Longrightarrow> indexByte (s @ c # t) c = Some (length s)"
  by (induction s) auto

section \<open>Decimal and hexadecimal text\<close>

definition digitChar :: "nat \<Rightarrow> char" where
  "digitChar n = char_of (48 + n)"

definition isDigit :: "char \<Rightarrow> bool" where
  "isDigit c = (let n = of_char c :: nat in 48 \<le> n \<and> n \<le> 57)"

definition digitVal :: "char \<Rightarrow> nat" where
  "digitVal c = of_char c - 48"

fun natDigits :: "nat \<Rightarrow> string" where
  "natDigits n = (if n < 10 then [digitChar n] else natDigits (n div 10) @ [digitChar (n mod 10)])"

declare natDigits.simps [simp del]

text \<open>\<open>strconv.FormatInt(n, 10)\<close> and \<open>strconv.Itoa\<close>.\<close>

definition formatInt :: "int \<Rightarrow> string" where
  "formatInt n = (if n < 0 then CHR ''-'' # natDigits (nat (- n)) else natDigits (nat n))"

fun digitsVal :: "nat \<Rightarrow> string \<Rightarrow> nat" where
  "digitsVal acc [] = acc"
| "digitsVal acc (c # cs) = digitsVal (10 * acc + digitVal c) cs"

text \<open>\<open>strconv.ParseInt(s, 10, 64)\<close>: an optional sign, digits only, in range.\<close>

definition parseDigits :: "string \<Rightarrow> nat option" where
  "parseDigits s = (if s \<noteq> [] \<and> list_all isDigit s then Some (digitsVal 0 s) else None)"

definition parseInt64 :: "string \<Rightarrow> int option" where
  "parseInt64 s =
     (case s of
        [] \<Rightarrow> None
      | c # cs \<Rightarrow>
          (if c = CHR ''-'' then
             (case parseDigits cs of None \<Rightarrow> None
              | Some n \<Rightarrow> if n \<le> 2 ^ 63 then Some (- int n) else None)
           else
             (case parseDigits (if c = CHR ''+'' then cs else s) of None \<Rightarrow> None
              | Some n \<Rightarrow> if n < 2 ^ 63 then Some (int n) else None)))"

lemma of_char_digitChar [simp]: "n < 10 \<Longrightarrow> of_char (digitChar n) = (48 + n :: nat)"
  by (simp add: digitChar_def)

lemma isDigit_digitChar [simp]: "n < 10 \<Longrightarrow> isDigit (digitChar n)"
  by (simp add: isDigit_def)

lemma digitVal_digitChar [simp]: "n < 10 \<Longrightarrow> digitVal (digitChar n) = n"
  by (simp add: digitVal_def)

lemma natDigits_not_Nil [simp]: "natDigits n \<noteq> []"
  by (subst natDigits.simps) simp

lemma natDigits_isDigit: "list_all isDigit (natDigits n)"
proof (induction n rule: natDigits.induct)
  case (1 n)
  then show ?case by (subst natDigits.simps) simp
qed

lemma digitsVal_append: "digitsVal a (xs @ ys) = digitsVal (digitsVal a xs) ys"
  by (induction xs arbitrary: a) auto

lemma digitsVal_natDigits [simp]: "digitsVal 0 (natDigits n) = n"
proof (induction n rule: natDigits.induct)
  case (1 n)
  show ?case
  proof (cases "n < 10")
    case True
    then show ?thesis by (subst natDigits.simps) simp
  next
    case False
    then show ?thesis using "1.IH"[OF False]
      by (subst natDigits.simps) (simp add: digitsVal_append)
  qed
qed

lemma parseDigits_natDigits [simp]: "parseDigits (natDigits n) = Some n"
  by (simp add: parseDigits_def natDigits_isDigit)

lemma natDigits_inj [simp]: "natDigits m = natDigits n \<longleftrightarrow> m = n"
  by (metis digitsVal_natDigits)

lemma not_isDigit_signs [simp]:
  "\<not> isDigit (CHR ''-'')" "\<not> isDigit (CHR ''+'')" "\<not> isDigit (CHR ''.'')"
  by (simp_all add: isDigit_def)

lemma natDigits_Cons_isDigit: "natDigits n = c # cs \<Longrightarrow> isDigit c"
  using natDigits_isDigit[of n] by simp

theorem parseInt64_formatInt:
  assumes "- (2 ^ 63) \<le> n" and "n < 2 ^ 63"
  shows "parseInt64 (formatInt n) = Some n"
proof (cases "n < 0")
  case True
  then show ?thesis using assms by (simp add: formatInt_def parseInt64_def nat_le_iff)
next
  case False
  obtain c cs where c: "natDigits (nat n) = c # cs"
    by (cases "natDigits (nat n)") auto
  then have "isDigit c" by (rule natDigits_Cons_isDigit)
  then have "c \<noteq> CHR ''-''" "c \<noteq> CHR ''+''" by auto
  moreover have "parseDigits (c # cs) = Some (nat n)"
    by (metis c parseDigits_natDigits)
  ultimately show ?thesis
    using False assms c by (simp add: formatInt_def parseInt64_def nat_less_iff)
qed

lemma formatInt_no_dot: "CHR ''.'' \<notin> set (formatInt n)"
proof -
  have "list_all isDigit (natDigits m) \<Longrightarrow> CHR ''.'' \<notin> set (natDigits m)" for m
    by (auto simp: list_all_iff)
  then show ?thesis by (auto simp: formatInt_def natDigits_isDigit)
qed

lemma formatInt_no_newline: "CHR 0x0A \<notin> set (formatInt n)"
proof -
  have "list_all isDigit (natDigits m) \<Longrightarrow> CHR 0x0A \<notin> set (natDigits m)" for m
    by (auto simp: list_all_iff isDigit_def)
  then show ?thesis by (auto simp: formatInt_def natDigits_isDigit)
qed

text \<open>\<open>encoding/hex\<close>: lower-case digits out, either case in, \<open>None\<close> on a malformed string.\<close>

definition hexDigit :: "nat \<Rightarrow> char" where
  "hexDigit n = (if n < 10 then char_of (48 + n) else char_of (87 + n))"

definition hexVal :: "char \<Rightarrow> nat option" where
  "hexVal c = (let n = of_char c :: nat in
     if 48 \<le> n \<and> n \<le> 57 then Some (n - 48)
     else if 97 \<le> n \<and> n \<le> 102 then Some (n - 87)
     else if 65 \<le> n \<and> n \<le> 70 then Some (n - 55)
     else None)"

fun hexEncode :: "string \<Rightarrow> string" where
  "hexEncode [] = []"
| "hexEncode (c # cs) = hexDigit (of_char c div 16) # hexDigit (of_char c mod 16) # hexEncode cs"

fun hexDecode :: "string \<Rightarrow> string option" where
  "hexDecode [] = Some []"
| "hexDecode [c] = None"
| "hexDecode (a # b # cs) =
     (case (hexVal a, hexVal b, hexDecode cs) of
        (Some x, Some y, Some r) \<Rightarrow> Some (char_of (16 * x + y) # r)
      | _ \<Rightarrow> None)"

lemma hexVal_hexDigit [simp]: "n < 16 \<Longrightarrow> hexVal (hexDigit n) = Some n"
  by (auto simp: hexVal_def hexDigit_def Let_def)

lemma of_char_div16 [simp]: "(of_char c :: nat) div 16 < 16"
  using nat_of_char_less_256[of c] by (simp add: div_less_iff_less_mult)

lemma hexDecode_hexEncode [simp]: "hexDecode (hexEncode s) = Some s"
proof (induction s)
  case (Cons c s)
  have "(of_char c :: nat) div 16 < 16" "16 * (of_char c div 16) + of_char c mod 16 = (of_char c :: nat)"
    by simp_all
  then show ?case using Cons by simp
qed simp

lemma hexDigit_not_dot: "n < 16 \<Longrightarrow> hexDigit n \<noteq> CHR ''.''"
proof -
  assume "n < 16"
  then have "(of_char (hexDigit n) :: nat) \<noteq> 46"
    by (auto simp: hexDigit_def)
  then show ?thesis by auto
qed

lemma hexEncode_no_dot: "CHR ''.'' \<notin> set (hexEncode s)"
proof (induction s)
  case (Cons c s)
  have "hexDigit (of_char c div 16) \<noteq> CHR ''.''" "hexDigit (of_char c mod 16) \<noteq> CHR ''.''"
    by (auto intro!: hexDigit_not_dot)
  then show ?case using Cons by auto
qed simp

text \<open>The \<open>%q\<close> verb of \<open>fmt\<close> on ASCII text.\<close>

definition quoteChar :: "char \<Rightarrow> string" where
  "quoteChar c = (let n = of_char c :: nat in
     if c = CHR 0x22 then [CHR 0x5C, c]
     else if c = CHR 0x5C then [c, c]
     else if n = 7 then CHR 0x5C # ''a'' else if n = 8 then CHR 0x5C # ''b''
     else if n = 9 then CHR 0x5C # ''t'' else if n = 10 then CHR 0x5C # ''n''
     else if n = 11 then CHR 0x5C # ''v'' else if n = 12 then CHR 0x5C # ''f''
     else if n = 13 then CHR 0x5C # ''r''
     else if n < 32 \<or> n = 127 then CHR 0x5C # CHR ''x'' # hexEncode [c]
     else [c])"

definition goQuote :: "string \<Rightarrow> string" where
  "goQuote s = [CHR 0x22] @ concat (map quoteChar s) @ [CHR 0x22]"

section \<open>Machine integers\<close>

definition maxInt64 :: int where
  "maxInt64 = 2 ^ 63 - 1"

definition wrap64 :: "int \<Rightarrow> int" where
  "wrap64 n = (n + 2 ^ 63) mod 2 ^ 64 - 2 ^ 63"

lemma wrap64_id [simp]: "- (2 ^ 63) \<le> n \<Longrightarrow> n < 2 ^ 63 \<Longrightarrow> wrap64 n = n"
  by (simp add: wrap64_def)

lemma wrap64_range: "- (2 ^ 63) \<le> wrap64 n \<and> wrap64 n < 2 ^ 63"
proof -
  have "0 \<le> (n + 2 ^ 63) mod 2 ^ 64" "(n + 2 ^ 63) mod 2 ^ 64 < (2 ^ 64 :: int)"
    by (simp_all only: pos_mod_sign pos_mod_bound zero_less_power zero_less_numeral)
  then show ?thesis by (simp add: wrap64_def)
qed

section \<open>Reachable states\<close>

inductive reach :: "('s \<Rightarrow> bool) \<Rightarrow> ('s \<Rightarrow> 's \<Rightarrow> bool) \<Rightarrow> 's \<Rightarrow> bool"
  for init step where
  reach_init: "init s \<Longrightarrow> reach init step s"
| reach_step: "reach init step s \<Longrightarrow> step s t \<Longrightarrow> reach init step t"

locale invariant_machine =
  fixes init :: "'s \<Rightarrow> bool"
    and step :: "'s \<Rightarrow> 's \<Rightarrow> bool"
    and inv :: "'s \<Rightarrow> bool"
  assumes init_inv: "init s \<Longrightarrow> inv s"
    and step_inv: "step s t \<Longrightarrow> inv s \<Longrightarrow> inv t"
begin

lemma reach_inv: "reach init step s \<Longrightarrow> inv s"
  by (induction rule: reach.induct) (auto intro: init_inv step_inv)

lemma run_inv: "step\<^sup>*\<^sup>* s t \<Longrightarrow> inv s \<Longrightarrow> inv t"
  by (induction rule: rtranclp_induct) (auto intro: step_inv)

end

section \<open>Retry schedules\<close>

text \<open>
  A retry schedule gives the delay after the \<open>n\<close>-th consecutive failure. The contract of
  both schedules of the program: it starts at a positive delay, never decreases and never
  exceeds its cap.
\<close>

locale backoff_schedule =
  fixes delay :: "nat \<Rightarrow> int" and cap :: int
  assumes delay_pos: "0 < delay n"
    and delay_mono: "m \<le> n \<Longrightarrow> delay m \<le> delay n"
    and delay_cap: "delay n \<le> cap"
begin

lemma total_wait_le: "(\<Sum>k = 1..n. delay k) \<le> int n * cap"
proof (induction n)
  case (Suc n)
  then show ?case using delay_cap[of "Suc n"] by (simp add: algebra_simps)
qed simp

lemma total_wait_ge: "int n * delay 1 \<le> (\<Sum>k = 1..n. delay k)"
proof (induction n)
  case (Suc n)
  then show ?case using delay_mono[of 1 "Suc n"] by (simp add: algebra_simps)
qed simp

end

section \<open>Lists as Go slices and maps\<close>

text \<open>Counting the elements of an object heap that satisfy a predicate, under one update.\<close>

definition countOf :: "('a \<Rightarrow> bool) \<Rightarrow> 'a list \<Rightarrow> nat" where
  "countOf p xs = length (filter p xs)"

lemma countOf_Nil [simp]: "countOf p [] = 0"
  by (simp add: countOf_def)

lemma countOf_Cons [simp]: "countOf p (x # xs) = (if p x then 1 else 0) + countOf p xs"
  by (simp add: countOf_def)

lemma countOf_append [simp]: "countOf p (xs @ ys) = countOf p xs + countOf p ys"
  by (simp add: countOf_def)

lemma countOf_update:
  assumes "i < length xs"
  shows "countOf p (xs[i := y]) + (if p (xs ! i) then 1 else 0)
       = countOf p xs + (if p y then 1 else 0)"
  using assms
proof (induction xs arbitrary: i)
  case (Cons x xs)
  then show ?case by (cases i) auto
qed simp

lemma countOf_update_same:
  "i < length xs \<Longrightarrow> p y = p (xs ! i) \<Longrightarrow> countOf p (xs[i := y]) = countOf p xs"
  using countOf_update[of i xs p y] by (simp split: if_splits)

lemma countOf_mono: "(\<And>x. x \<in> set xs \<Longrightarrow> p x \<Longrightarrow> q x) \<Longrightarrow> countOf p xs \<le> countOf q xs"
  by (induction xs) auto

lemma countOf_le_length: "countOf p xs \<le> length xs"
  by (simp add: countOf_def)

lemma distinct_update_keys [simp]:
  "distinct (map fst xs) \<Longrightarrow> distinct (map fst (AList.update k v xs))"
  by (rule distinct_update)

lemma map_of_update [simp]: "map_of (AList.update k v xs) = (map_of xs)(k \<mapsto> v)"
  by (rule update_conv')

lemma map_of_delete [simp]: "map_of (AList.delete k xs) = (map_of xs)(k := None)"
  by (rule delete_conv')

text \<open>Deleting a key of an injective association list removes exactly its value.\<close>

lemma snd_delete:
  assumes "distinct (map fst xs)" and "distinct (map snd xs)" and "map_of xs k = Some v"
  shows "snd ` set (AList.delete k xs) = snd ` set xs - {v}"
  using assms
proof (induction xs)
  case (Cons x xs)
  obtain a b where x: "x = (a, b)" by (cases x)
  show ?case
  proof (cases "a = k")
    case True
    then have "k \<notin> fst ` set xs" "b = v" "v \<notin> snd ` set xs" using Cons.prems x by auto
    then show ?thesis using True x by (simp add: delete_idem)
  next
    case False
    then have "b \<noteq> v" using Cons.prems x
      by (auto dest!: map_of_SomeD) (metis image_eqI snd_conv)
    then show ?thesis using False Cons x by auto
  qed
qed simp

lemma distinct_snd_delete [simp]:
  "distinct (map snd xs) \<Longrightarrow> distinct (map snd (AList.delete k xs))"
  by (simp add: AList.delete_eq distinct_map_filter)

lemma update_fresh: "k \<notin> fst ` set xs \<Longrightarrow> AList.update k v xs = xs @ [(k, v)]"
  by (induction xs) auto

section \<open>First error\<close>

text \<open>A sequence of checks, each returning early with its error.\<close>

fun firstErr :: "gerr option list \<Rightarrow> gerr option" where
  "firstErr [] = None"
| "firstErr (None # es) = firstErr es"
| "firstErr (Some e # es) = Some e"

lemma firstErr_None [simp]: "firstErr es = None \<longleftrightarrow> (\<forall>e \<in> set es. e = None)"
  by (induction es rule: firstErr.induct) auto

abbreviation failIf :: "bool \<Rightarrow> gerr \<Rightarrow> gerr option" where
  "failIf b e \<equiv> if b then Some e else None"

end
