(* ===== verification/Net_IP.thy ===== *)
theory Net_IP
  imports Go_Prelude
begin

text \<open>
  \<open>net.ParseIP\<close> and \<open>net.IP.String\<close>, the part of Go's \<open>net\<close> package that the configuration
  and the container backends use: dotted IPv4 without leading zeros, IPv6 with one \<open>::\<close> and an
  optional embedded IPv4 tail, no zone. An address is the list of its eight 16-bit groups;
  \<open>parseIP\<close> answers with the canonical text.
\<close>

definition ipv4Octet :: "string \<Rightarrow> nat option" where
  "ipv4Octet s =
     (case parseDigits s of
        None \<Rightarrow> None
      | Some n \<Rightarrow> if n \<le> 255 \<and> (length s = 1 \<or> hd s \<noteq> CHR ''0'') then Some n else None)"

definition parseIPv4 :: "string \<Rightarrow> nat list option" where
  "parseIPv4 s =
     (case map ipv4Octet (splitOn (CHR ''.'') s) of
        [Some a, Some b, Some c, Some d] \<Rightarrow> Some [256 * a + b, 256 * c + d]
      | _ \<Rightarrow> None)"

fun hexWord :: "nat \<Rightarrow> string \<Rightarrow> nat option" where
  "hexWord acc [] = Some acc"
| "hexWord acc (c # cs) = (case hexVal c of None \<Rightarrow> None | Some v \<Rightarrow> hexWord (16 * acc + v) cs)"

definition ipv6Group :: "string \<Rightarrow> nat option" where
  "ipv6Group s = (if s = [] \<or> length s > 4 then None else hexWord 0 s)"

text \<open>The groups between colons; the last field may be an IPv4 address.\<close>

fun ipv6Groups :: "bool \<Rightarrow> string list \<Rightarrow> nat list option" where
  "ipv6Groups tail [] = Some []"
| "ipv6Groups tail [f] =
     (if tail \<and> CHR ''.'' \<in> set f then parseIPv4 f else map_option (\<lambda>g. [g]) (ipv6Group f))"
| "ipv6Groups tail (f # g # fs) =
     (case (ipv6Group f, ipv6Groups tail (g # fs)) of
        (Some a, Some r) \<Rightarrow> Some (a # r)
      | _ \<Rightarrow> None)"

fun cutDouble :: "string \<Rightarrow> (string \<times> string) option" where
  "cutDouble (a # b # s) =
     (if a = CHR '':'' \<and> b = CHR '':'' then Some ([], s)
      else map_option (\<lambda>(l, r). (a # l, r)) (cutDouble (b # s)))"
| "cutDouble s = None"

definition colonFields :: "string \<Rightarrow> string list" where
  "colonFields s = (if s = [] then [] else splitOn (CHR '':'') s)"

definition parseIPv6 :: "string \<Rightarrow> nat list option" where
  "parseIPv6 s =
     (case cutDouble s of
        None \<Rightarrow>
          (case ipv6Groups True (colonFields s) of
             None \<Rightarrow> None
           | Some gs \<Rightarrow> if length gs = 8 then Some gs else None)
      | Some (l, r) \<Rightarrow>
          (case (ipv6Groups False (colonFields l), ipv6Groups True (colonFields r)) of
             (Some a, Some b) \<Rightarrow>
               if length a + length b \<le> 7 then Some (a @ replicate (8 - length a - length b) 0 @ b) else None
           | _ \<Rightarrow> None))"

fun firstOf :: "string \<Rightarrow> char \<Rightarrow> char \<Rightarrow> char option" where
  "firstOf [] a b = None"
| "firstOf (c # cs) a b = (if c = a \<or> c = b then Some c else firstOf cs a b)"

definition parseGroups :: "string \<Rightarrow> nat list option" where
  "parseGroups s =
     (case firstOf s (CHR ''.'') (CHR '':'') of
        None \<Rightarrow> None
      | Some c \<Rightarrow>
          if c = CHR ''.'' then map_option (\<lambda>g. [0, 0, 0, 0, 0, 65535] @ g) (parseIPv4 s) else parseIPv6 s)"

section \<open>Canonical text\<close>

fun natHex :: "nat \<Rightarrow> string" where
  "natHex n = (if n < 16 then [hexDigit n] else natHex (n div 16) @ [hexDigit (n mod 16)])"

declare natHex.simps [simp del]

definition dotted :: "nat list \<Rightarrow> string" where
  "dotted gs = sepBy ''.'' (concat (map (\<lambda>g. [natDigits (g div 256), natDigits (g mod 256)]) gs))"

definition zeroRun :: "nat list \<Rightarrow> nat" where
  "zeroRun gs = length (takeWhile (\<lambda>g. g = 0) gs)"

text \<open>The first longest run of at least two zero groups: its start and length.\<close>

fun longestRun :: "nat list \<Rightarrow> nat \<Rightarrow> nat \<times> nat \<Rightarrow> nat \<times> nat" where
  "longestRun [] i best = best"
| "longestRun (g # gs) i best =
     longestRun gs (Suc i)
       (if zeroRun (g # gs) > 1 \<and> zeroRun (g # gs) > snd best then (i, zeroRun (g # gs)) else best)"

definition ipv6Text :: "nat list \<Rightarrow> string" where
  "ipv6Text gs =
     (let (i, n) = longestRun gs 0 (0, 0)
      in if n = 0 then sepBy '':'' (map natHex gs)
         else sepBy '':'' (map natHex (take i gs)) @ ''::'' @ sepBy '':'' (map natHex (drop (i + n) gs)))"

definition ipText :: "nat list \<Rightarrow> string" where
  "ipText gs =
     (if take 6 gs = [0, 0, 0, 0, 0, 65535] then dotted (drop 6 gs) else ipv6Text gs)"

definition parseIP :: "string \<Rightarrow> string option" where
  "parseIP s = map_option ipText (parseGroups s)"

section \<open>Canonical IPv4 text parses to itself\<close>

lemma natDigits_no_dot: "CHR ''.'' \<notin> set (natDigits n)"
  using natDigits_isDigit[of n] by (auto simp: list_all_iff)

lemma hd_natDigits: "n \<noteq> 0 \<Longrightarrow> hd (natDigits n) \<noteq> CHR ''0''"
proof (induction n rule: natDigits.induct)
  case (1 n)
  show ?case
  proof (cases "n < 10")
    case True
    then have "(of_char (digitChar n) :: nat) \<noteq> of_char (CHR ''0'')" using "1.prems" by simp
    then have "digitChar n \<noteq> CHR ''0''" by metis
    then show ?thesis using True by (subst natDigits.simps) simp
  next
    case False
    then show ?thesis using "1.IH"[OF False] by (subst natDigits.simps) simp
  qed
qed

lemma ipv4Octet_natDigits:
  assumes "n \<le> 255" shows "ipv4Octet (natDigits n) = Some n"
proof (cases "n = 0")
  case True
  then show ?thesis using parseDigits_natDigits[of 0] by (simp add: ipv4Octet_def) (simp add: natDigits.simps[of 0])
qed (use assms hd_natDigits[of n] in \<open>simp add: ipv4Octet_def\<close>)

lemma parseIPv4_dotted:
  assumes "a \<le> 65535" and "b \<le> 65535"
  shows "parseIPv4 (dotted [a, b]) = Some [a, b]"
proof -
  have le: "a div 256 \<le> 255" "b div 256 \<le> 255" "a mod 256 \<le> 255" "b mod 256 \<le> 255"
    using assms by (auto simp: less_Suc_eq_le[symmetric] div_less_iff_less_mult)
  have "splitOn (CHR ''.'') (dotted [a, b])
      = [natDigits (a div 256), natDigits (a mod 256), natDigits (b div 256), natDigits (b mod 256)]"
    by (simp add: dotted_def splitOn_append natDigits_no_dot)
  then show ?thesis using le by (simp add: parseIPv4_def ipv4Octet_natDigits)
qed

section \<open>URLs\<close>

text \<open>
  What the program uses of \<open>net/url\<close>: the host and port of an absolute URL, and the text with
  the host replaced. A URL is kept as its scheme, its user part (with the \<open>@\<close>), its host part
  (with the port) and the rest, which is taken to be in escaped form already, so that
  \<open>String\<close> gives it back unchanged. A text without scheme and \<open>//\<close> has no host.
\<close>

record url =
  ur_scheme :: string
  ur_user :: string
  ur_host :: string
  ur_rest :: string

definition isAlpha :: "char \<Rightarrow> bool" where
  "isAlpha c = (let n = of_char (lowerChar c) :: nat in 97 \<le> n \<and> n \<le> 122)"

definition schemeChar :: "char \<Rightarrow> bool" where
  "schemeChar c = (isAlpha c \<or> isDigit c \<or> c \<in> set ''+-.'')"

definition validScheme :: "string \<Rightarrow> bool" where
  "validScheme s = (case s of [] \<Rightarrow> False | c # cs \<Rightarrow> isAlpha c \<and> list_all schemeChar cs)"

text \<open>The bytes \<open>url.Parse\<close> accepts unescaped in a host.\<close>

definition hostChar :: "char \<Rightarrow> bool" where
  "hostChar c =
     (isAlpha c \<or> isDigit c \<or> c \<in> set ''-_.~!$&()*+,;=:[]<>'' \<or> c = CHR 0x27 \<or> c = CHR 0x22
      \<or> (of_char c :: nat) \<ge> 128)"

definition controlChar :: "char \<Rightarrow> bool" where
  "controlChar c = (let n = of_char c :: nat in n < 32 \<or> n = 127)"

definition lastIndexByte :: "string \<Rightarrow> char \<Rightarrow> nat option" where
  "lastIndexByte s c = map_option (\<lambda>i. length s - 1 - i) (indexByte (rev s) c)"

definition validOptionalPort :: "string \<Rightarrow> bool" where
  "validOptionalPort p = (case p of [] \<Rightarrow> True | c # ds \<Rightarrow> c = CHR '':'' \<and> list_all isDigit ds)"

text \<open>\<open>url.splitHostPort\<close>.\<close>

definition splitHostPort :: "string \<Rightarrow> string \<times> string" where
  "splitHostPort hp =
     (let (h, p) = (case lastIndexByte hp (CHR '':'') of
            None \<Rightarrow> (hp, [])
          | Some i \<Rightarrow> if validOptionalPort (drop i hp) then (take i hp, drop (Suc i) hp) else (hp, []))
      in (if prefix ''['' h \<and> suffix '']'' h then butlast (tl h) else h, p))"

text \<open>\<open>parseHost\<close>: a bracketed literal may be followed by a port only.\<close>

definition validHost :: "string \<Rightarrow> bool" where
  "validHost h =
     (list_all hostChar h
      \<and> (if prefix ''['' h
         then (case lastIndexByte h (CHR '']'') of None \<Rightarrow> False | Some i \<Rightarrow> validOptionalPort (drop (Suc i) h))
         else (case lastIndexByte h (CHR '':'') of None \<Rightarrow> True | Some i \<Rightarrow> validOptionalPort (drop i h))))"

definition splitAuthority :: "string \<Rightarrow> string \<times> string" where
  "splitAuthority a =
     (case lastIndexByte a (CHR ''@'') of None \<Rightarrow> ([], a) | Some i \<Rightarrow> (take (Suc i) a, drop (Suc i) a))"

definition parseURL :: "string \<Rightarrow> url option" where
  "parseURL s =
     (if list_ex controlChar s then None
      else
        (let (scheme, after, found) = cutAt s (CHR '':'')
         in if found \<and> validScheme scheme \<and> prefix ''//'' after
            then (let body = drop 2 after;
                      auth = takeWhile (\<lambda>c. c \<notin> set ''/?#'') body;
                      (user, host) = splitAuthority auth
                  in if validHost host
                     then Some \<lparr>ur_scheme = toLower scheme, ur_user = user, ur_host = host,
                                ur_rest = drop (length auth) body\<rparr>
                     else None)
            else Some \<lparr>ur_scheme = [], ur_user = [], ur_host = [], ur_rest = s\<rparr>))"

definition urlHostname :: "url \<Rightarrow> string" where
  "urlHostname u = fst (splitHostPort (ur_host u))"

definition urlPort :: "url \<Rightarrow> string" where
  "urlPort u = snd (splitHostPort (ur_host u))"

definition urlString :: "url \<Rightarrow> string" where
  "urlString u =
     (if ur_scheme u = [] then ur_rest u
      else ur_scheme u @ ''://'' @ ur_user u @ ur_host u @ ur_rest u)"

end
