(* ===== verification/Backend.thy ===== *)
theory Backend
  imports Net_IP "HOL-Library.List_Lexorder" "HOL-Library.Char_ord"
begin

text \<open>
  The runner backends (\<open>internal/backend\<close>): the launch request, the ownership labels that
  let a restarted process find its own containers, the Docker backend (\<open>docker.go\<close>) and the
  containerd backend (\<open>containerdwindows.go\<close>).

  The Docker engine client and the \<open>nerdctl\<close> command are not part of the repository: they
  are the records \<open>docker_cli\<close> and \<open>nerdctl\<close> of functions over an arbitrary daemon state
  \<open>'w\<close>.

  The locale \<open>runner_backend\<close> is the contract of \<open>Backend.Launch\<close> (\<open>backend.go\<close>, line 259):
  an error without a handle proves that no instance exists. Both backends are
  interpretations of it, and so is the VM backend of \<open>Vm_Backend\<close>.
\<close>

section \<open>Requests and ownership\<close>

record mount =
  mt_Source :: string
  mt_Target :: string
  mt_ReadOnly :: bool
  mt_Volume :: bool

record container_settings =
  cs_CPUCount :: int
  cs_MemoryBytes :: int
  cs_MemorySwapBytes :: int
  cs_DNS :: "string list"

record ownership =
  ow_Instance :: string
  ow_Target :: string
  ow_Pool :: string
  ow_ScaleSetID :: int
  ow_RunnerID :: int

record launch_request =
  lr_Name :: string
  lr_Image :: string
  lr_EncodedJITConfig :: string
  lr_WorkFolder :: string
  lr_Labels :: "string list"
  lr_Env :: "(string \<times> string) list"
  lr_Mounts :: "mount list"
  lr_Container :: container_settings
  lr_Index :: int
  lr_Ownership :: ownership

record owned_runner =
  or_ResourceID :: string
  or_Name :: string
  or_RunnerID :: int

definition zeroOwnership :: ownership where
  "zeroOwnership = \<lparr>ow_Instance = [], ow_Target = [], ow_Pool = [], ow_ScaleSetID = 0, ow_RunnerID = 0\<rparr>"

definition ownershipIsZero :: "ownership \<Rightarrow> bool" where
  "ownershipIsZero ow = (ow = zeroOwnership)"

definition ownershipValidate :: "ownership \<Rightarrow> gerr option" where
  "ownershipValidate ow =
     (if ownershipIsZero ow then None
      else if ow_Instance ow = [] \<or> ow_Target ow = [] \<or> ow_Pool ow = [] \<or> ow_ScaleSetID ow = 0
      then Some (Leaf ''complete runner ownership is required'')
      else None)"

text \<open>Reading a Go \<open>map[string]string\<close>: a missing key reads as the empty string.\<close>

definition mapGet :: "(string \<times> string) list \<Rightarrow> string \<Rightarrow> string" where
  "mapGet m k = (case map_of m k of None \<Rightarrow> [] | Some v \<Rightarrow> v)"

definition labelManaged :: string where "labelManaged = ''multirunner''"
definition labelName :: string where "labelName = ''multirunner.name''"
definition labelIndex :: string where "labelIndex = ''multirunner.index''"
definition labelInstance :: string where "labelInstance = ''multirunner.instance''"
definition labelTarget :: string where "labelTarget = ''multirunner.target''"
definition labelPool :: string where "labelPool = ''multirunner.pool''"
definition labelScaleSetID :: string where "labelScaleSetID = ''multirunner.scaleset-id''"
definition labelRunnerID :: string where "labelRunnerID = ''multirunner.runner-id''"

lemmas label_defs = labelManaged_def labelName_def labelIndex_def labelInstance_def
  labelTarget_def labelPool_def labelScaleSetID_def labelRunnerID_def

definition ownershipLabels :: "ownership \<Rightarrow> (string \<times> string) list" where
  "ownershipLabels ow =
     (if ownershipIsZero ow then []
      else [(labelManaged, ''true''),
            (labelInstance, ow_Instance ow),
            (labelTarget, ow_Target ow),
            (labelPool, ow_Pool ow),
            (labelScaleSetID, formatInt (ow_ScaleSetID ow)),
            (labelRunnerID, formatInt (ow_RunnerID ow))])"

definition reconciliationLabels :: "ownership \<Rightarrow> (string \<times> string) list" where
  "reconciliationLabels ow =
     AList.delete labelRunnerID (AList.delete labelScaleSetID (ownershipLabels ow))"

definition ownedRunner :: "string \<Rightarrow> (string \<times> string) list \<Rightarrow> owned_runner option" where
  "ownedRunner resourceID labels =
     (case parseInt64 (mapGet labels labelRunnerID) of
        None \<Rightarrow> None
      | Some rid \<Rightarrow>
          if rid = 0 then None
          else Some \<lparr>or_ResourceID = resourceID, or_Name = mapGet labels labelName, or_RunnerID = rid\<rparr>)"

definition labelsMatch :: "(string \<times> string) list \<Rightarrow> (string \<times> string) list \<Rightarrow> bool" where
  "labelsMatch actual expected = list_all (\<lambda>(k, v). mapGet actual k = v) expected"

text \<open>What \<open>Backend.Launch\<close> returns: a handle, or an error with the handle it may have left behind.\<close>

datatype launch_result = Launched string | LaunchFailed gerr "string option"

section \<open>Container settings\<close>

definition nanoCPUsPerCPU :: int where
  "nanoCPUsPerCPU = 1000000000"

definition validateContainerSettings ::
  "container_settings \<Rightarrow> gerr option" where
  "validateContainerSettings c =
     (if cs_CPUCount c < 0 then Some (Leaf ''cpu count must be >= 0'')
      else if cs_CPUCount c > maxInt64 div nanoCPUsPerCPU
        then Some (Leaf ''cpu count overflows Docker NanoCPUs'')
      else if cs_MemoryBytes c < 0 then Some (Leaf ''memory must be >= 0 bytes'')
      else if cs_MemorySwapBytes c < 0 then Some (Leaf ''memory swap must be >= 0 bytes'')
      else if cs_MemorySwapBytes c \<noteq> 0 \<and> cs_MemoryBytes c = 0
        then Some (Leaf ''memory swap requires a memory limit'')
      else if cs_MemorySwapBytes c \<noteq> 0 \<and> cs_MemorySwapBytes c < cs_MemoryBytes c
        then Some (Leaf ''memory swap must be greater than or equal to memory'')
      else (case find (\<lambda>s. parseIP s = None) (cs_DNS c) of
              Some s \<Rightarrow> Some (Leaf (''DNS server '' @ goQuote s @ '' must be an IP address''))
            | None \<Rightarrow> None))"

section \<open>The cache host\<close>

definition CacheHost :: "(string \<times> string) list \<Rightarrow> string" where
  "CacheHost env =
     (let u = mapGet env ''ACTIONS_RESULTS_URL''
      in if u = [] then []
         else case parseURL u of
                None \<Rightarrow> []
              | Some p \<Rightarrow> if parseIP (urlHostname p) \<noteq> None then [] else urlHostname p)"

definition rewriteURLHost :: "string \<Rightarrow> string \<Rightarrow> string" where
  "rewriteURLHost u host =
     (case parseURL u of
        None \<Rightarrow> u
      | Some p \<Rightarrow>
          if urlHostname p = [] \<or> parseIP (urlHostname p) \<noteq> None then u
          else urlString (p\<lparr>ur_host := host @ (if urlPort p = [] then [] else '':'' @ urlPort p)\<rparr>))"

definition RewriteCacheHost :: "(string \<times> string) list \<Rightarrow> string \<Rightarrow> (string \<times> string) list" where
  "RewriteCacheHost env host =
     fold (\<lambda>key out. case map_of out key of
             None \<Rightarrow> out
           | Some u \<Rightarrow> AList.update key (rewriteURLHost u host) out)
       [''ACTIONS_RESULTS_URL'', ''ACTIONS_CACHE_URL'', ''MR_GIT_BUNDLE_URL''] env"

section \<open>The Docker backend\<close>

record container_config =
  cc_Image :: string
  cc_Env :: "string list"
  cc_Labels :: "(string \<times> string) list"

record host_config =
  hc_AutoRemove :: bool
  hc_Mounts :: "(bool \<times> string \<times> string \<times> bool) list"
  hc_DNS :: "string list"
  hc_Memory :: int
  hc_MemorySwap :: int
  hc_CPUCount :: int
  hc_NanoCPUs :: int
  hc_Isolation :: string
  hc_ExtraHosts :: "string list"

record 'w docker_cli =
  dk_Create :: "'w \<Rightarrow> container_config \<Rightarrow> host_config \<Rightarrow> string \<Rightarrow> (gerr + string) \<times> 'w"
  dk_Start :: "'w \<Rightarrow> string \<Rightarrow> gerr option \<times> 'w"
  dk_Stop :: "'w \<Rightarrow> string \<Rightarrow> gerr option \<times> 'w"
  dk_Remove :: "'w \<Rightarrow> string \<Rightarrow> gerr option \<times> 'w"
  dk_List :: "'w \<Rightarrow> (string \<times> string) list \<Rightarrow> (gerr + (string \<times> (string \<times> string) list) list) \<times> 'w"
  dk_ImageInspect :: "'w \<Rightarrow> string \<Rightarrow> gerr option \<times> 'w"
  dk_ImagePull :: "'w \<Rightarrow> string \<Rightarrow> gerr option \<times> 'w"
  dk_Drain :: "'w \<Rightarrow> string \<Rightarrow> gerr option \<times> 'w"
  dk_IsNotFound :: "gerr \<Rightarrow> bool"

record docker_backend =
  db_name :: string
  db_isolation :: string
  db_autoPull :: bool

record docker_handle =
  dh_id :: string
  dh_preserve :: bool

text \<open>\<open>toDockerMounts\<close>: (is-volume, source, target, read-only) per mount.\<close>

definition toDockerMounts :: "mount list \<Rightarrow> (bool \<times> string \<times> string \<times> bool) list" where
  "toDockerMounts ms = map (\<lambda>m. (mt_Volume m, mt_Source m, mt_Target m, mt_ReadOnly m)) ms"

definition sortedEnv :: "(string \<times> string) list \<Rightarrow> string list" where
  "sortedEnv env = map (\<lambda>k. k @ ''='' @ mapGet env k) (sort (map fst env))"

definition updateAll :: "(string \<times> string) list \<Rightarrow> (string \<times> string) list \<Rightarrow> (string \<times> string) list" where
  "updateAll base upd = foldl (\<lambda>m kv. AList.update (fst kv) (snd kv) m) base upd"

definition launchConfigs ::
  "docker_backend \<Rightarrow> launch_request
   \<Rightarrow> gerr + (container_config \<times> host_config)" where
  "launchConfigs b req =
     (case validateContainerSettings (lr_Container req) of
        Some e \<Rightarrow> Inl (errorf (''container '' @ lr_Name req @ '' settings: '') e)
      | None \<Rightarrow>
         (let isWindows = (db_name b = ''docker-windows'') in
          if isWindows \<and> cs_MemorySwapBytes (lr_Container req) \<noteq> 0
          then Inl (Leaf (''container '' @ lr_Name req
                 @ '' settings: memory swap is unsupported by Docker on Windows''))
          else
            (let cfg = \<lparr>cc_Image = lr_Image req,
                        cc_Env = (''JIT_CONFIG='' @ lr_EncodedJITConfig req) # sortedEnv (lr_Env req),
                        cc_Labels = updateAll
                          [(labelManaged, ''true''), (labelName, lr_Name req),
                           (labelIndex, formatInt (lr_Index req))]
                          (ownershipLabels (lr_Ownership req))\<rparr>;
                 host = \<lparr>hc_AutoRemove = ownershipIsZero (lr_Ownership req),
                         hc_Mounts = toDockerMounts (lr_Mounts req),
                         hc_DNS = cs_DNS (lr_Container req),
                         hc_Memory = cs_MemoryBytes (lr_Container req),
                         hc_MemorySwap = cs_MemorySwapBytes (lr_Container req),
                         hc_CPUCount = (if isWindows then cs_CPUCount (lr_Container req) else 0),
                         hc_NanoCPUs = (if isWindows then 0
                            else wrap64 (cs_CPUCount (lr_Container req) * nanoCPUsPerCPU)),
                         hc_Isolation = db_isolation b,
                         hc_ExtraHosts = (if CacheHost (lr_Env req) \<noteq> []
                            then [CacheHost (lr_Env req) @ '':host-gateway''] else [])\<rparr>
             in Inr (cfg, host))))"

definition dockerLaunch ::
  "'w docker_cli \<Rightarrow> docker_backend
   \<Rightarrow> 'w \<Rightarrow> launch_request \<Rightarrow> (docker_handle option \<times> gerr option) \<times> 'w" where
  "dockerLaunch cli b w req =
     (case ownershipValidate (lr_Ownership req) of
        Some e \<Rightarrow> ((None, Some (errorf ''docker: '' e)), w)
      | None \<Rightarrow>
         (if \<not> ownershipIsZero (lr_Ownership req) \<and> ow_RunnerID (lr_Ownership req) = 0
          then ((None, Some (Leaf ''docker: runner ID is required for owned launches'')), w)
          else (case launchConfigs b req of
             Inl e \<Rightarrow> ((None, Some e), w)
           | Inr (cfg, host) \<Rightarrow>
              (let handle = \<lparr>dh_id = lr_Name req, dh_preserve = \<not> ownershipIsZero (lr_Ownership req)\<rparr>
               in case dk_Create cli w cfg host (lr_Name req) of
                    (Inl e, w1) \<Rightarrow>
                      ((Some handle, Some (errorf (''create container '' @ lr_Name req @ '': '') e)), w1)
                  | (Inr cid, w1) \<Rightarrow>
                      (case dk_Start cli w1 cid of
                         (Some e, w2) \<Rightarrow> ((Some (handle\<lparr>dh_id := cid\<rparr>),
                            Some (errorf (''start container '' @ lr_Name req @ '': '') e)), w2)
                       | (None, w2) \<Rightarrow> ((Some (handle\<lparr>dh_id := cid\<rparr>), None), w2))))))"

definition dockerKill :: "'w docker_cli \<Rightarrow> 'w \<Rightarrow> docker_handle \<Rightarrow> gerr option \<times> 'w" where
  "dockerKill cli w h =
     (let (e1, w1) = dk_Stop cli w (dh_id h);
          stopErr = (case e1 of Some e \<Rightarrow> if dk_IsNotFound cli e then None else Some e | None \<Rightarrow> None)
      in if dh_preserve h then (stopErr, w1)
         else (let (e2, w2) = dk_Remove cli w1 (dh_id h);
                   removeErr = (case e2 of Some e \<Rightarrow> if dk_IsNotFound cli e then None else Some e
                                | None \<Rightarrow> None)
               in (joinErrs (List.map_filter id [stopErr, removeErr]), w2)))"

definition dockerRemoveOwnedRunner :: "'w docker_cli \<Rightarrow> 'w \<Rightarrow> string \<Rightarrow> gerr option \<times> 'w" where
  "dockerRemoveOwnedRunner cli w rid =
     (let (e, w1) = dk_Remove cli w rid
      in (case e of Some x \<Rightarrow> if dk_IsNotFound cli x then (None, w1) else (Some x, w1)
          | None \<Rightarrow> (None, w1)))"

definition selectOwned ::
  "(string \<times> string) list \<Rightarrow> (string \<times> (string \<times> string) list) list \<Rightarrow> owned_runner list" where
  "selectOwned labels cs = List.map_filter
     (\<lambda>(i, ls). if labelsMatch ls labels then ownedRunner i ls else None) cs"

definition dockerListOwnedRunners ::
  "'w docker_cli \<Rightarrow> 'w \<Rightarrow> ownership \<Rightarrow> (gerr + owned_runner list) \<times> 'w" where
  "dockerListOwnedRunners cli w ow =
     (if ownershipValidate ow \<noteq> None \<or> ownershipIsZero ow
      then (Inl (Leaf ''docker: complete runner ownership is required''), w)
      else (case dk_List cli w (reconciliationLabels ow) of
              (Inl e, w1) \<Rightarrow> (Inl (errorf ''list owned containers: '' e), w1)
            | (Inr cs, w1) \<Rightarrow> (Inr (selectOwned (reconciliationLabels ow) cs), w1)))"

definition dockerEnsureImage :: "'w docker_cli \<Rightarrow> docker_backend \<Rightarrow> 'w \<Rightarrow> string \<Rightarrow> gerr option \<times> 'w" where
  "dockerEnsureImage cli b w img =
     (case dk_ImageInspect cli w img of
        (None, w1) \<Rightarrow> (None, w1)
      | (Some _, w1) \<Rightarrow>
          (if \<not> db_autoPull b
           then (Some (Leaf (''image '' @ img @ '' not present and auto-pull disabled'')), w1)
           else (case dk_ImagePull cli w1 img of
                   (Some e, w2) \<Rightarrow> (Some (errorf (''pull '' @ img @ '': '') e), w2)
                 | (None, w2) \<Rightarrow>
                     (case dk_Drain cli w2 img of
                        (Some e, w3) \<Rightarrow> (Some (errorf (''pull '' @ img @ '' (drain): '') e), w3)
                      | (None, w3) \<Rightarrow> (None, w3)))))"

section \<open>The containerd backend\<close>

text \<open>
  \<open>nr_run\<close> is one \<open>nerdctl\<close> invocation (its argument vector, then output or error);
  \<open>nr_gateway\<close> is \<open>hostGatewayIP\<close>'s reading of the host's interfaces,
  \<open>nr_labels\<close> the JSON decoding of an inspected label map.
\<close>

record 'w nerdctl =
  nr_run :: "'w \<Rightarrow> string list \<Rightarrow> (gerr + string) \<times> 'w"
  nr_gateway :: string
  nr_labels :: "string \<Rightarrow> (gerr + (string \<times> string) list)"

record containerd_handle =
  ch_name :: string
  ch_id :: string
  ch_preserve :: bool
  ch_failedLaunchLabels :: "(string \<times> string) list option"

definition launchArgs ::
  "string \<Rightarrow> launch_request \<Rightarrow> (string \<times> string) list \<Rightarrow> string list" where
  "launchArgs isolation req env =
     [''run'', ''-d'', ''--name'', lr_Name req, ''--isolation'', isolation]
     @ (if cs_CPUCount (lr_Container req) \<noteq> 0
        then [''--cpus'', formatInt (cs_CPUCount (lr_Container req))] else [])
     @ (if cs_MemoryBytes (lr_Container req) \<noteq> 0
        then [''--memory'', formatInt (cs_MemoryBytes (lr_Container req))] else [])
     @ [''-e'', ''JIT_CONFIG='' @ lr_EncodedJITConfig req]
     @ concat (map (\<lambda>kv. [''-e'', kv]) (sortedEnv env))
     @ concat (map (\<lambda>m. [''-v'', mt_Source m @ '':'' @ mt_Target m
          @ (if mt_ReadOnly m then '':ro'' else [])]) (lr_Mounts req))
     @ [''--label'', labelManaged @ ''=true'', ''--label'', labelName @ ''='' @ lr_Name req]
     @ concat (map (\<lambda>kv. [''--label'', kv]) (sortedEnv (ownershipLabels (lr_Ownership req))))
     @ [lr_Image req]"

definition isMissingContainerError :: "gerr option \<Rightarrow> bool" where
  "isMissingContainerError e =
     (case e of None \<Rightarrow> False | Some x \<Rightarrow> contains (toLower (errMsg x)) ''no such'')"

definition containerdLaunch ::
  "'w nerdctl \<Rightarrow> string
   \<Rightarrow> 'w \<Rightarrow> launch_request \<Rightarrow> (containerd_handle option \<times> gerr option) \<times> 'w" where
  "containerdLaunch nc isolation w req =
     (case ownershipValidate (lr_Ownership req) of
        Some e \<Rightarrow> ((None, Some (errorf ''containerd: '' e)), w)
      | None \<Rightarrow>
        (if \<not> ownershipIsZero (lr_Ownership req) \<and> ow_RunnerID (lr_Ownership req) = 0
         then ((None, Some (Leaf ''containerd: runner ID is required for owned launches'')), w)
         else (case validateContainerSettings (lr_Container req) of
            Some e \<Rightarrow> ((None, Some (errorf (''container '' @ lr_Name req @ '' settings: '') e)), w)
          | None \<Rightarrow>
            (if cs_MemorySwapBytes (lr_Container req) \<noteq> 0
             then ((None, Some (Leaf (''container '' @ lr_Name req
                    @ '' settings: memory swap is unsupported by nerdctl on Windows''))), w)
             else if cs_DNS (lr_Container req) \<noteq> []
             then ((None, Some (Leaf (''container '' @ lr_Name req
                    @ '' settings: DNS is unsupported by nerdctl on Windows''))), w)
             else
               (let env = (if CacheHost (lr_Env req) \<noteq> [] \<and> nr_gateway nc \<noteq> []
                           then RewriteCacheHost (lr_Env req) (nr_gateway nc) else lr_Env req);
                    preserve = (\<not> ownershipIsZero (lr_Ownership req))
                in case nr_run nc w (launchArgs isolation req env) of
                     (Inl e, w1) \<Rightarrow>
                       (let expected = AList.update labelName (lr_Name req)
                              (AList.update labelManaged ''true'' (ownershipLabels (lr_Ownership req)))
                        in ((Some \<lparr>ch_name = lr_Name req, ch_id = lr_Name req, ch_preserve = preserve,
                                   ch_failedLaunchLabels = Some expected\<rparr>,
                             Some (errorf (''run container '' @ lr_Name req @ '': '') e)), w1))
                   | (Inr out, w1) \<Rightarrow>
                       (let cid = (if trimSpace out = [] then lr_Name req else trimSpace out)
                        in ((Some \<lparr>ch_name = lr_Name req, ch_id = cid, ch_preserve = preserve,
                                   ch_failedLaunchLabels = None\<rparr>, None), w1)))))))"

definition containerdStop :: "'w nerdctl \<Rightarrow> 'w \<Rightarrow> containerd_handle \<Rightarrow> gerr option \<times> 'w" where
  "containerdStop nc w h =
     (let args = (if ch_preserve h then [''stop'', ch_name h] else [''rm'', ''-f'', ch_name h]);
          (r, w1) = nr_run nc w args;
          e = (case r of Inl x \<Rightarrow> Some x | Inr _ \<Rightarrow> None)
      in (if isMissingContainerError e then None else e, w1))"

definition containerdKill :: "'w nerdctl \<Rightarrow> 'w \<Rightarrow> containerd_handle \<Rightarrow> gerr option \<times> 'w" where
  "containerdKill nc w h =
     (case ch_failedLaunchLabels h of
        None \<Rightarrow> containerdStop nc w h
      | Some expected \<Rightarrow>
         (case nr_run nc w [''inspect'', ''--format'', ''{{json .Config.Labels}}'', ch_name h] of
            (Inl e, w1) \<Rightarrow>
              (if isMissingContainerError (Some e) then (None, w1)
               else (Some (errorf ''inspect failed container: '' e), w1))
          | (Inr raw, w1) \<Rightarrow>
              (case nr_labels nc (trimSpace raw) of
                 Inl e \<Rightarrow> (Some (errorf ''decode failed container labels: '' e), w1)
               | Inr actual \<Rightarrow>
                   (if \<not> labelsMatch actual expected
                    then (Some (Leaf ''refusing to remove container with mismatched ownership''), w1)
                    else containerdStop nc w1 h))))"

definition containerdRemoveOwnedRunner :: "'w nerdctl \<Rightarrow> 'w \<Rightarrow> string \<Rightarrow> gerr option \<times> 'w" where
  "containerdRemoveOwnedRunner nc w rid =
     (let (r, w1) = nr_run nc w [''rm'', ''-f'', rid];
          e = (case r of Inl x \<Rightarrow> Some x | Inr _ \<Rightarrow> None)
      in (if isMissingContainerError e then None else e, w1))"

text \<open>\<open>Wait\<close>: the exit code printed by \<open>nerdctl wait\<close>, after removing an unowned container.\<close>

definition containerdWait :: "'w nerdctl \<Rightarrow> 'w \<Rightarrow> containerd_handle \<Rightarrow> (int \<times> gerr option) \<times> 'w" where
  "containerdWait nc w h =
     (let (r, w1) = nr_run nc w [''wait'', ch_name h];
          err = (case r of Inl x \<Rightarrow> [x] | Inr _ \<Rightarrow> []);
          (err2, w2) =
            (if ch_preserve h then (err, w1)
             else (let (r2, w2) = nr_run nc w1 [''rm'', ''-f'', ch_name h];
                       ce = (case r2 of Inl x \<Rightarrow> Some x | Inr _ \<Rightarrow> None)
                   in (err @ (if isMissingContainerError ce then []
                              else (case ce of Some x \<Rightarrow> [x] | None \<Rightarrow> [])), w2)));
          out = trimSpace (case r of Inl _ \<Rightarrow> [] | Inr s \<Rightarrow> s)
      in case joinErrs err2 of
           Some e \<Rightarrow> ((-1, Some e), w2)
         | None \<Rightarrow> (case parseInt64 out of
                      None \<Rightarrow> ((-1, Some (errorf (''parse exit code '' @ goQuote out @ '': '')
                                 (Leaf ''strconv.Atoi: invalid syntax''))), w2)
                    | Some code \<Rightarrow> ((code, None), w2)))"

fun inspectOwned ::
  "'w nerdctl \<Rightarrow> 'w \<Rightarrow> (string \<times> string) list \<Rightarrow> string list \<Rightarrow> (gerr + owned_runner list) \<times> 'w" where
  "inspectOwned nc w labels [] = (Inr [], w)"
| "inspectOwned nc w labels (i # is) =
     (case nr_run nc w [''inspect'', ''--format'', ''{{json .Config.Labels}}'', i] of
        (Inl e, w1) \<Rightarrow> (Inl (errorf (''inspect owned container '' @ i @ '': '') e), w1)
      | (Inr raw, w1) \<Rightarrow>
          (case nr_labels nc (trimSpace raw) of
             Inl e \<Rightarrow> (Inl (errorf (''decode labels for owned container '' @ i @ '': '') e), w1)
           | Inr actual \<Rightarrow>
               (case inspectOwned nc w1 labels is of
                  (Inl e, w2) \<Rightarrow> (Inl e, w2)
                | (Inr rest, w2) \<Rightarrow>
                    (Inr ((if labelsMatch actual labels
                           then (case ownedRunner i actual of Some r \<Rightarrow> [r] | None \<Rightarrow> [])
                           else []) @ rest), w2))))"

definition containerdListOwnedRunners ::
  "'w nerdctl \<Rightarrow> 'w \<Rightarrow> ownership \<Rightarrow> (gerr + owned_runner list) \<times> 'w" where
  "containerdListOwnedRunners nc w ow =
     (if ownershipValidate ow \<noteq> None \<or> ownershipIsZero ow
      then (Inl (Leaf ''containerd: complete runner ownership is required''), w)
      else (let labels = reconciliationLabels ow;
                args = [''ps'', ''-a'']
                  @ concat (map (\<lambda>kv. [''--filter'', ''label='' @ kv]) (sortedEnv labels))
                  @ [''--no-trunc'', ''--format'', ''{{.ID}}'']
            in case nr_run nc w args of
                 (Inl e, w1) \<Rightarrow> (Inl (errorf ''list owned containers: '' e), w1)
               | (Inr out, w1) \<Rightarrow> inspectOwned nc w1 labels (fieldsOf out)))"

section \<open>The launch contract\<close>

text \<open>\<open>instances\<close> is the part of a backend's world that holds its live runners.\<close>

locale runner_backend =
  fixes launch :: "'w \<Rightarrow> launch_request \<Rightarrow> ('h option \<times> gerr option) \<times> 'w"
    and instances :: "'w \<Rightarrow> 'i"
  assumes no_handle_untouched: "launch w req = ((None, e), w') \<Longrightarrow> instances w' = instances w \<and> e \<noteq> None"
begin

lemma success_has_handle: "launch w req = ((h, None), w') \<Longrightarrow> h \<noteq> None"
  using no_handle_untouched by (cases h) auto

lemma effect_has_handle: "launch w req = ((h, e), w') \<Longrightarrow> instances w' \<noteq> instances w \<Longrightarrow> h \<noteq> None"
  using no_handle_untouched by (cases h) auto

end

interpretation docker: runner_backend "dockerLaunch cli b" "\<lambda>w. w"
  for cli :: "'w docker_cli" and b
  by unfold_locales
     (auto simp: dockerLaunch_def Let_def split: option.splits if_splits sum.splits prod.splits)

interpretation containerd: runner_backend "containerdLaunch nc isol" "\<lambda>w. w"
  for nc :: "'w nerdctl" and isol
  by unfold_locales
     (auto simp: containerdLaunch_def Let_def split: option.splits if_splits sum.splits prod.splits)

section \<open>Ownership labels\<close>

lemma mapGet_update [simp]: "mapGet (AList.update k v m) k' = (if k' = k then v else mapGet m k')"
  by (simp add: mapGet_def)

lemma reconciliationLabels_eq:
  "\<not> ownershipIsZero ow \<Longrightarrow> reconciliationLabels ow =
     [(labelManaged, ''true''), (labelInstance, ow_Instance ow),
      (labelTarget, ow_Target ow), (labelPool, ow_Pool ow)]"
  by (simp add: reconciliationLabels_def ownershipLabels_def label_defs)

lemma selectOwned_sound:
  "r \<in> set (selectOwned labels cs) \<Longrightarrow>
     \<exists>ls. (or_ResourceID r, ls) \<in> set cs \<and> labelsMatch ls labels \<and> or_RunnerID r \<noteq> 0"
  by (auto simp: selectOwned_def ownedRunner_def List.map_filter_def split: if_splits option.splits) blast

lemma labelsMatch_reconciliation:
  "\<not> ownershipIsZero ow \<Longrightarrow> labelsMatch ls (reconciliationLabels ow) \<longleftrightarrow>
     mapGet ls labelManaged = ''true'' \<and> mapGet ls labelInstance = ow_Instance ow \<and>
     mapGet ls labelTarget = ow_Target ow \<and> mapGet ls labelPool = ow_Pool ow"
  by (simp add: reconciliationLabels_eq labelsMatch_def)

lemma launch_labels_get:
  assumes "launchConfigs b req = Inr (cfg, host)"
    and "\<not> ownershipIsZero (lr_Ownership req)"
  shows "mapGet (cc_Labels cfg) labelManaged = ''true''"
    and "mapGet (cc_Labels cfg) labelName = lr_Name req"
    and "mapGet (cc_Labels cfg) labelInstance = ow_Instance (lr_Ownership req)"
    and "mapGet (cc_Labels cfg) labelTarget = ow_Target (lr_Ownership req)"
    and "mapGet (cc_Labels cfg) labelPool = ow_Pool (lr_Ownership req)"
    and "mapGet (cc_Labels cfg) labelRunnerID = formatInt (ow_RunnerID (lr_Ownership req))"
  using assms
  by (auto simp: launchConfigs_def Let_def updateAll_def ownershipLabels_def mapGet_def label_defs
      split: option.splits if_splits)

text \<open>
  The labels the Docker backend writes for an owned launch identify that launch again:
  the reconciliation filter of an ownership boundary matches them exactly when instance,
  target and pool agree, and the runner id and name read back are those of the launch.
\<close>

theorem ownership_labels_roundtrip:
  assumes "launchConfigs b req = Inr (cfg, host)"
    and "\<not> ownershipIsZero (lr_Ownership req)"
    and "ow_RunnerID (lr_Ownership req) \<noteq> 0"
    and "- (2 ^ 63) \<le> ow_RunnerID (lr_Ownership req)" and "ow_RunnerID (lr_Ownership req) < 2 ^ 63"
    and "\<not> ownershipIsZero ow"
  shows "(labelsMatch (cc_Labels cfg) (reconciliationLabels ow) \<longleftrightarrow>
            ow_Instance ow = ow_Instance (lr_Ownership req) \<and>
            ow_Target ow = ow_Target (lr_Ownership req) \<and>
            ow_Pool ow = ow_Pool (lr_Ownership req))
       \<and> ownedRunner cid (cc_Labels cfg) =
           Some \<lparr>or_ResourceID = cid, or_Name = lr_Name req,
                 or_RunnerID = ow_RunnerID (lr_Ownership req)\<rparr>"
  using assms launch_labels_get[OF assms(1,2)]
  by (auto simp: labelsMatch_reconciliation ownedRunner_def parseInt64_formatInt)

definition exampleRequest :: launch_request where
  "exampleRequest = \<lparr>lr_Name = ''mr-1'', lr_Image = ''img'', lr_EncodedJITConfig = ''abc'',
     lr_WorkFolder = ''_work'', lr_Labels = [''linux''], lr_Env = [(''B'', ''2''), (''A'', ''1'')],
     lr_Mounts = [], lr_Container = \<lparr>cs_CPUCount = 2, cs_MemoryBytes = 0, cs_MemorySwapBytes = 0, cs_DNS = []\<rparr>,
     lr_Index = 1, lr_Ownership = \<lparr>ow_Instance = ''host'', ow_Target = ''t'', ow_Pool = ''p'',
       ow_ScaleSetID = 7, ow_RunnerID = 42\<rparr>\<rparr>"

lemma exampleRequest_owned: "\<not> ownershipIsZero (lr_Ownership exampleRequest)"
  by (simp add: exampleRequest_def ownershipIsZero_def zeroOwnership_def)

theorem ownership_labels_roundtrip_witness:
  "\<exists>cfg host. launchConfigs \<lparr>db_name = ''docker-linux'', db_isolation = [], db_autoPull = True\<rparr>
       exampleRequest = Inr (cfg, host)
     \<and> ownedRunner ''c0'' (cc_Labels cfg) =
         Some \<lparr>or_ResourceID = ''c0'', or_Name = ''mr-1'', or_RunnerID = 42\<rparr>"
proof -
  let ?b = "\<lparr>db_name = ''docker-linux'', db_isolation = [], db_autoPull = True\<rparr>"
  obtain cfg host where c: "launchConfigs ?b exampleRequest = Inr (cfg, host)"
    by (simp add: launchConfigs_def validateContainerSettings_def exampleRequest_def Let_def
        maxInt64_def nanoCPUsPerCPU_def)
  have "ownedRunner ''c0'' (cc_Labels cfg) =
         Some \<lparr>or_ResourceID = ''c0'', or_Name = lr_Name exampleRequest,
               or_RunnerID = ow_RunnerID (lr_Ownership exampleRequest)\<rparr>"
    using ownership_labels_roundtrip[OF c exampleRequest_owned, of "lr_Ownership exampleRequest" "''c0''"]
      exampleRequest_owned by (simp add: exampleRequest_def)
  with c show ?thesis by (auto simp: exampleRequest_def)
qed

text \<open>
  A failed launch that returns no handle has not touched the daemon, for both
  container backends; so releasing the registration of such a launch cannot leave a live
  runner behind.
\<close>

theorem failed_launch_without_handle_is_inert:
  "(dockerLaunch cli b w req = ((None, e), w') \<longrightarrow> w' = w \<and> e \<noteq> None) \<and>
   (containerdLaunch nc isol v req = ((None, e), v') \<longrightarrow> v' = v \<and> e \<noteq> None)"
  using docker.no_handle_untouched[of cli b w req e w']
    containerd.no_handle_untouched[of nc isol v req e v'] by simp

definition exampleCli :: "nat docker_cli" where
  "exampleCli =
     \<lparr>dk_Create = (\<lambda>w c h n. (Inr ''c0'', Suc w)), dk_Start = (\<lambda>w i. (None, Suc w)),
      dk_Stop = (\<lambda>w i. (None, Suc w)), dk_Remove = (\<lambda>w i. (None, Suc w)),
      dk_List = (\<lambda>w ls. (Inr [], w)), dk_ImageInspect = (\<lambda>w i. (None, w)),
      dk_ImagePull = (\<lambda>w i. (None, w)), dk_Drain = (\<lambda>w i. (None, w)), dk_IsNotFound = (\<lambda>e. False)\<rparr>"

definition exampleNerdctl :: "nat nerdctl" where
  "exampleNerdctl = \<lparr>nr_run = (\<lambda>w as. (Inr ''c0'', Suc w)), nr_gateway = '''', nr_labels = (\<lambda>s. Inr [])\<rparr>"

definition anonymousRequest :: launch_request where
  "anonymousRequest = exampleRequest\<lparr>lr_Ownership := (lr_Ownership exampleRequest)\<lparr>ow_RunnerID := 0\<rparr>\<rparr>"

theorem failed_launch_without_handle_is_inert_witness:
  "snd (dockerLaunch exampleCli \<lparr>db_name = ''docker'', db_isolation = [], db_autoPull = True\<rparr> 3 anonymousRequest) = 3
   \<and> snd (containerdLaunch exampleNerdctl ''process'' 4 anonymousRequest) = 4"
proof -
  let ?d = "dockerLaunch exampleCli \<lparr>db_name = ''docker'', db_isolation = [], db_autoPull = True\<rparr> 3 anonymousRequest"
  let ?c = "containerdLaunch exampleNerdctl ''process'' 4 anonymousRequest"
  have "fst (fst ?d) = None" "fst (fst ?c) = None" by code_simp+
  then have d: "?d = ((None, snd (fst ?d)), snd ?d)" and c: "?c = ((None, snd (fst ?c)), snd ?c)"
    by (metis prod.collapse)+
  note inert = failed_launch_without_handle_is_inert
  show ?thesis
    using inert[THEN conjunct1, THEN mp, OF d] inert[THEN conjunct2, THEN mp, OF c] by simp
qed

end
