(* ===== verification/Image_Manifest.thy ===== *)
theory Image_Manifest
  imports Go_Prelude "HOL-Library.List_Lexorder" "HOL-Library.Char_ord"
begin

text \<open>
  The image manifest (\<open>images/versions.go\<close>) and the resolution of tool selectors against it
  (\<open>internal/winvm/bake.go\<close>): which runner, Node, .NET, Go and Build Tools archives a golden
  Windows image is built from. JSON decoding is not modelled: a manifest is the decoded record.
  Maps are association lists; where the code ranges over a map and returns at the first
  error, the list's order stands for the iteration order. Shown: every artifact fetched for
  a validated manifest is pinned by a well-formed digest.
\<close>

section \<open>The manifest\<close>

record base_image =
  bi_Repository :: string
  bi_Tag :: string
  bi_Digest :: string

record node_release =
  nd_Version :: string
  nd_EOL :: string
  nd_LinuxX64SHA256 :: string
  nd_LinuxARM64SHA256 :: string
  nd_WindowsX64SHA256 :: string

record dotnet_channel =
  dn_Targets :: "string list"
  dn_ReleaseType :: string
  dn_Version :: string
  dn_EOL :: string
  dn_SupportPhase :: string
  dn_LinuxX64SHA512 :: string
  dn_LinuxARM64SHA512 :: string
  dn_WindowsX64SHA512 :: string

record dotnet_discovery =
  dd_Channel :: string
  dd_ReleaseType :: string
  dd_SupportPhase :: string
  dd_EOL :: string
  dd_LatestSDK :: string

record buildtools_line =
  bt_Channel :: string
  bt_ReleaseLine :: string
  bt_Version :: string
  bt_BootstrapperURL :: string
  bt_BootstrapperSHA256 :: string
  bt_ChannelURL :: string
  bt_ChannelSHA256 :: string

record manifest =
  mf_Schema :: int
  mf_LinuxBase :: base_image
  mf_WindowsBase :: base_image
  mf_RunnerVersion :: string
  mf_RunnerLinuxX64SHA256 :: string
  mf_RunnerLinuxARM64SHA256 :: string
  mf_RunnerWindowsX64SHA256 :: string
  mf_MinGitVersion :: string
  mf_MinGitURL :: string
  mf_MinGitSHA256 :: string
  mf_PowerShellVersion :: string
  mf_PowerShellSHA256 :: string
  mf_NativePackageSource :: string
  mf_NativeStrategy :: string
  mf_NodeTrack :: string
  mf_NodeDefaultMajor :: int
  mf_CorepackVersion :: string
  mf_CorepackURL :: string
  mf_CorepackSHA512 :: string
  mf_NodeReleases :: "(string \<times> node_release) list"
  mf_TrackReleaseTypes :: "string list"
  mf_Unassigned :: "dotnet_discovery list"
  mf_Channels :: "(string \<times> dotnet_channel) list"
  mf_GoStrategy :: string
  mf_GoVersion :: string
  mf_GoLinuxAMD64SHA256 :: string
  mf_GoLinuxARM64SHA256 :: string
  mf_GoWindowsAMD64SHA256 :: string
  mf_RustChannel :: string
  mf_RustVersion :: string
  mf_RustupVersion :: string
  mf_RustupX64SHA256 :: string
  mf_RustupARM64SHA256 :: string
  mf_BuildToolsDefaultLine :: string
  mf_BuildToolsLines :: "(string \<times> buildtools_line) list"

definition baseReference :: "base_image \<Rightarrow> string" where
  "baseReference b = bi_Repository b @ '':'' @ bi_Tag b @ ''@'' @ bi_Digest b"

definition nodeDefaultRelease :: "manifest \<Rightarrow> node_release option" where
  "nodeDefaultRelease m = map_of (mf_NodeReleases m) (formatInt (mf_NodeDefaultMajor m))"

definition ChannelsForTarget :: "manifest \<Rightarrow> string \<Rightarrow> string list" where
  "ChannelsForTarget m target =
     sort (map fst (filter (\<lambda>(c, r). target \<in> set (dn_Targets r)) (mf_Channels m)))"

definition ReleaseLines :: "manifest \<Rightarrow> string list" where
  "ReleaseLines m = sort (map fst (mf_BuildToolsLines m))"

section \<open>Validation\<close>

text \<open>\<open>hex.InvalidByteError\<close> of the first byte that is no hexadecimal digit (\<open>%#U\<close> of an ASCII byte).\<close>

definition hexError :: "string \<Rightarrow> gerr" where
  "hexError v =
     (case find (\<lambda>c. hexVal c = None) v of
        None \<Rightarrow> Leaf ''encoding/hex: odd length hex string''
      | Some c \<Rightarrow> Leaf (''encoding/hex: invalid byte: U+00'' @ toUpper (hexEncode [c])
          @ (if 32 \<le> (of_char c :: nat) \<and> (of_char c :: nat) < 127 then '' '' @ [CHR 0x27, c, CHR 0x27] else [])))"

definition digest :: "string \<Rightarrow> string \<Rightarrow> nat \<Rightarrow> gerr option" where
  "digest value pre hexLen =
     (if pre \<noteq> [] \<and> \<not> prefix pre value then Some (Leaf (''must start with '' @ goQuote pre))
      else
        (let v = drop (length pre) value
         in if length v \<noteq> hexLen
            then Some (Leaf (''must contain '' @ natDigits hexLen @ '' hexadecimal characters''))
            else if hexDecode v = None then Some (errorf ''must be hexadecimal: '' (hexError v))
            else None))"

definition checkDigests :: "string \<Rightarrow> string \<Rightarrow> nat \<Rightarrow> (string \<times> string) list \<Rightarrow> gerr option" where
  "checkDigests pre before n ds =
     firstErr (map (\<lambda>(name, v). map_option (errorf (before @ name @ '' digest: '')) (digest v pre n)) ds)"

text \<open>A key of the form the manifest's number keys must have: a decimal as \<open>Itoa\<close> prints it.\<close>

definition numericKey :: "int \<Rightarrow> string \<Rightarrow> bool" where
  "numericKey low s =
     (case parseInt64 s of None \<Rightarrow> False | Some v \<Rightarrow> low \<le> v \<and> formatInt v = s)"

definition validDotNetChannel :: "string \<Rightarrow> bool" where
  "validDotNetChannel channel =
     (let parts = splitOn (CHR ''.'') channel in length parts = 2 \<and> list_all (numericKey 0) parts)"

definition supportedLTS :: string where
  "supportedLTS = ''supported-lts''"

definition dotnetTargets :: "string list" where
  "dotnetTargets = [''linux'', ''windows-container'', ''qemu-windows'']"

text \<open>A loop with a set of the keys seen so far; the check sees that set.\<close>

fun eachSeen :: "(string list \<Rightarrow> 'a \<Rightarrow> gerr option) \<Rightarrow> ('a \<Rightarrow> string) \<Rightarrow> string list \<Rightarrow> 'a list \<Rightarrow> gerr option" where
  "eachSeen chk key seen [] = None"
| "eachSeen chk key seen (x # xs) =
     (case chk seen x of Some e \<Rightarrow> Some e | None \<Rightarrow> eachSeen chk key (key x # seen) xs)"

definition policyDotNet :: "manifest \<Rightarrow> gerr option list" where
  "policyDotNet m =
     [failIf (mf_TrackReleaseTypes m = []) (Leaf ''at least one .NET release type must be tracked''),
      eachSeen (\<lambda>seen t. firstErr
        [failIf (t \<noteq> ''lts'' \<and> t \<noteq> ''sts'') (Leaf (''unsupported .NET release type '' @ goQuote t)),
         failIf (t \<in> set seen) (Leaf (''duplicate .NET release type '' @ goQuote t))]) id [] (mf_TrackReleaseTypes m),
      failIf (mf_Channels m = []) (Leaf ''at least one .NET channel is required''),
      firstErr (map (\<lambda>(c, r).
        let q = goQuote c in firstErr
          [failIf (\<not> validDotNetChannel c) (Leaf (''invalid .NET channel key '' @ q)),
            failIf (dn_ReleaseType r \<noteq> [] \<and> dn_ReleaseType r \<notin> set (mf_TrackReleaseTypes m))
              (Leaf (''.NET channel '' @ q @ '' has untracked release type '' @ goQuote (dn_ReleaseType r))),
            failIf (dn_Targets r = []) (Leaf (''.NET channel '' @ q @ '' requires at least one target'')),
            eachSeen (\<lambda>seen t. firstErr
              [failIf (t \<notin> set dotnetTargets) (Leaf (''.NET channel '' @ q @ '' has unknown target '' @ goQuote t)),
               failIf (t \<in> set seen) (Leaf (''.NET channel '' @ q @ '' repeats target '' @ goQuote t))])
              id [] (dn_Targets r)])
        (mf_Channels m)),
      firstErr (map (\<lambda>t. failIf (list_all (\<lambda>(c, r). t \<notin> set (dn_Targets r)) (mf_Channels m))
        (Leaf (''no .NET channel targets '' @ goQuote t))) dotnetTargets)]"

definition policyDiscoveries :: "manifest \<Rightarrow> gerr option list" where
  "policyDiscoveries m =
     [eachSeen (\<lambda>seen d.
        let q = goQuote (dd_Channel d) in firstErr
          [failIf (\<not> validDotNetChannel (dd_Channel d)) (Leaf (''invalid unassigned .NET channel '' @ q)),
           failIf (dd_Channel d \<in> set seen) (Leaf (''duplicate unassigned .NET channel '' @ q)),
           failIf (dd_ReleaseType d \<notin> set (mf_TrackReleaseTypes m))
             (Leaf (''unassigned .NET channel '' @ q @ '' has untracked release type '' @ goQuote (dd_ReleaseType d))),
           failIf (dd_SupportPhase d \<noteq> ''active'' \<and> dd_SupportPhase d \<noteq> ''maintenance'')
             (Leaf (''unassigned .NET channel '' @ q @ '' has unsupported phase '' @ goQuote (dd_SupportPhase d))),
           failIf (dd_EOL d = [] \<or> dd_LatestSDK d = [])
             (Leaf (''unassigned .NET channel '' @ q @ '' has incomplete discovery metadata''))])
        dd_Channel [] (mf_Unassigned m)]"

definition policyBuildTools :: "manifest \<Rightarrow> gerr option list" where
  "policyBuildTools m =
     [failIf (mf_BuildToolsLines m = []) (Leaf ''at least one Build Tools release line is required''),
      failIf (map_of (mf_BuildToolsLines m) (mf_BuildToolsDefaultLine m) = None)
        (Leaf (''Build Tools default line '' @ goQuote (mf_BuildToolsDefaultLine m) @ '' is not declared'')),
      firstErr (map (\<lambda>(line, r). firstErr
        [failIf (\<not> numericKey 1 line) (Leaf (''invalid Build Tools release line '' @ goQuote line)),
         failIf (bt_Channel r = [] \<or> \<not> prefix (line @ ''/'') (bt_Channel r))
           (Leaf (''Build Tools '' @ line @ '' channel must start with '' @ goQuote (line @ ''/'')))])
        (mf_BuildToolsLines m))]"

definition ValidatePolicy :: "manifest \<Rightarrow> gerr option" where
  "ValidatePolicy m = firstErr
     ([failIf (mf_Schema m \<noteq> 1) (Leaf (''unsupported schema '' @ formatInt (mf_Schema m))),
       firstErr (map (\<lambda>(n, b). failIf (bi_Repository b = [] \<or> bi_Tag b = [])
         (Leaf (n @ '' base repository and tag are required'')))
         [(''linux'', mf_LinuxBase m), (''windows'', mf_WindowsBase m)]),
       failIf (mf_NodeReleases m = []) (Leaf ''at least one Node major is required''),
       failIf (mf_NodeTrack m \<noteq> supportedLTS) (Leaf (''unsupported Node tracking policy '' @ goQuote (mf_NodeTrack m))),
       failIf (nodeDefaultRelease m = None)
         (Leaf (''Node default major '' @ formatInt (mf_NodeDefaultMajor m) @ '' is not declared'')),
       firstErr (map (\<lambda>(major, r). failIf (\<not> numericKey 1 major) (Leaf (''invalid Node major key '' @ goQuote major)))
         (mf_NodeReleases m))]
      @ policyDotNet m @ policyDiscoveries m
      @ [failIf (mf_RustChannel m = []) (Leaf ''Rust channel is required'')]
      @ policyBuildTools m)"

definition nodeReleaseCheck :: "string \<Rightarrow> node_release \<Rightarrow> gerr option" where
  "nodeReleaseCheck major r = firstErr
     [failIf (nd_Version r = [] \<or> nd_EOL r = []) (Leaf (''Node major '' @ major @ '' has no resolved release'')),
      checkDigests [] (''Node '' @ major @ '' '') 64
        [(''linux x64'', nd_LinuxX64SHA256 r), (''linux arm64'', nd_LinuxARM64SHA256 r),
         (''windows x64'', nd_WindowsX64SHA256 r)]]"

definition nodeChecks :: "manifest \<Rightarrow> gerr option list" where
  "nodeChecks m =
     [firstErr (map (\<lambda>(major, r). nodeReleaseCheck major r) (mf_NodeReleases m)),
      failIf (mf_CorepackVersion m = [] \<or> mf_CorepackURL m = []) (Leaf ''Corepack version and URL are required''),
      map_option (errorf ''Corepack digest: '') (digest (mf_CorepackSHA512 m) [] 128)]"

definition dotnetChannelCheck :: "string \<Rightarrow> dotnet_channel \<Rightarrow> gerr option" where
  "dotnetChannelCheck c r = firstErr
     [failIf (dn_Version r = [] \<or> dn_EOL r = [] \<or> dn_ReleaseType r = [] \<or> dn_SupportPhase r = [])
        (Leaf (''.NET channel '' @ goQuote c @ '' has no resolved release'')),
      checkDigests [] (''.NET '' @ c @ '' '') 128
        (filter (\<lambda>(n, v). v \<noteq> [])
          [(''linux x64'', dn_LinuxX64SHA512 r), (''linux arm64'', dn_LinuxARM64SHA512 r),
           (''windows x64'', dn_WindowsX64SHA512 r)])]"

definition dotnetChecks :: "manifest \<Rightarrow> gerr option list" where
  "dotnetChecks m =
     [firstErr (map (\<lambda>(c, r). dotnetChannelCheck c r) (mf_Channels m)),
      firstErr (map (\<lambda>c. case map_of (mf_Channels m) c of
          None \<Rightarrow> Some (Leaf (''.NET Linux channel '' @ goQuote c @ '' lacks Linux archives''))
        | Some r \<Rightarrow> failIf (dn_LinuxX64SHA512 r = [] \<or> dn_LinuxARM64SHA512 r = [])
            (Leaf (''.NET Linux channel '' @ goQuote c @ '' lacks Linux archives'')))
        (ChannelsForTarget m ''linux'')),
      firstErr (map (\<lambda>c. case map_of (mf_Channels m) c of
          None \<Rightarrow> Some (Leaf (''.NET Windows channel '' @ goQuote c @ '' lacks a Windows archive''))
        | Some r \<Rightarrow> failIf (dn_WindowsX64SHA512 r = [])
            (Leaf (''.NET Windows channel '' @ goQuote c @ '' lacks a Windows archive'')))
        (ChannelsForTarget m ''windows-container'' @ ChannelsForTarget m ''qemu-windows''))]"

definition buildToolsLineCheck :: "string \<Rightarrow> buildtools_line \<Rightarrow> gerr option" where
  "buildToolsLineCheck line r = firstErr
     [failIf (bt_ReleaseLine r \<noteq> line \<or> bt_Version r = [] \<or> bt_BootstrapperURL r = [] \<or> bt_ChannelURL r = [])
        (Leaf (''Visual Studio Build Tools '' @ line @ '' release identity is incomplete'')),
      failIf (\<not> prefix (line @ ''.'') (bt_Version r))
        (Leaf (''Visual Studio Build Tools '' @ line @ '' resolved unexpected version '' @ goQuote (bt_Version r))),
      checkDigests [] (''Visual Studio Build Tools '' @ line @ '' '') 64
        [(''bootstrapper'', bt_BootstrapperSHA256 r), (''channel'', bt_ChannelSHA256 r)]]"

definition buildToolsChecks :: "manifest \<Rightarrow> gerr option list" where
  "buildToolsChecks m = [firstErr (map (\<lambda>(line, r). buildToolsLineCheck line r) (mf_BuildToolsLines m))]"

definition fixedDigests :: "manifest \<Rightarrow> (string \<times> string) list" where
  "fixedDigests m =
     [(''runner linux x64'', mf_RunnerLinuxX64SHA256 m), (''runner linux arm64'', mf_RunnerLinuxARM64SHA256 m),
      (''runner windows x64'', mf_RunnerWindowsX64SHA256 m), (''MinGit'', mf_MinGitSHA256 m),
      (''PowerShell'', mf_PowerShellSHA256 m), (''Go linux amd64'', mf_GoLinuxAMD64SHA256 m),
      (''Go linux arm64'', mf_GoLinuxARM64SHA256 m), (''Go windows amd64'', mf_GoWindowsAMD64SHA256 m),
      (''rustup x64'', mf_RustupX64SHA256 m), (''rustup arm64'', mf_RustupARM64SHA256 m)]"

definition manifestChecks :: "manifest \<Rightarrow> gerr option list" where
  "manifestChecks m =
     [ValidatePolicy m,
      checkDigests ''sha256:'' [] 64
        [(''linux base'', bi_Digest (mf_LinuxBase m)), (''windows base'', bi_Digest (mf_WindowsBase m))],
      checkDigests [] [] 64 (fixedDigests m),
      failIf (mf_RunnerVersion m = [] \<or> mf_MinGitVersion m = [] \<or> mf_MinGitURL m = [] \<or> mf_PowerShellVersion m = []
              \<or> mf_GoVersion m = [] \<or> mf_RustChannel m = [] \<or> mf_RustVersion m = [] \<or> mf_RustupVersion m = [])
        (Leaf ''resolved tool versions and URLs are required'')]
     @ nodeChecks m @ dotnetChecks m @ buildToolsChecks m"

definition manifestValidate :: "manifest \<Rightarrow> gerr option" where
  "manifestValidate m = firstErr (manifestChecks m)"

section \<open>Tool selectors\<close>

record tool_plan =
  tp_Canonical :: "string list"
  tp_Kinds :: "string list"
  tp_Node :: "string list"
  tp_DotNet :: "string list"
  tp_BuildTools :: "string list"

definition dedup :: "string list \<Rightarrow> string list" where
  "dedup xs = rev (remdups (rev xs))"

definition normalizeTools :: "string list \<Rightarrow> string list" where
  "normalizeTools tools = sort (dedup (filter (\<lambda>t. t \<noteq> []) (map (\<lambda>t. toLower (trimSpace t)) tools)))"

definition dotNetChannelMajor :: "string \<Rightarrow> string" where
  "dotNetChannelMajor channel = hd (splitOn (CHR ''.'') channel)"

definition bakeableDotNetChannel :: "dotnet_channel \<Rightarrow> bool" where
  "bakeableDotNetChannel r =
     (dn_WindowsX64SHA512 r \<noteq> [] \<and> (dn_SupportPhase r = ''active'' \<or> dn_SupportPhase r = ''maintenance''))"

definition channelMinor :: "string \<Rightarrow> int" where
  "channelMinor channel =
     (case cutAt channel (CHR ''.'') of
        (a, b, found) \<Rightarrow> if found then (case parseInt64 b of Some v \<Rightarrow> v | None \<Rightarrow> 0) else 0)"

fun bestChannel :: "int \<Rightarrow> string list \<Rightarrow> string \<times> int \<Rightarrow> string \<times> int" where
  "bestChannel want [] best = best"
| "bestChannel want (c # cs) best =
     bestChannel want cs
       (if parseInt64 (dotNetChannelMajor c) = Some want \<and> channelMinor c > snd best
        then (c, channelMinor c) else best)"

definition dotNetChannelForMajor :: "manifest \<Rightarrow> string \<Rightarrow> string option" where
  "dotNetChannelForMajor m major =
     (case parseInt64 major of
        None \<Rightarrow> None
      | Some want \<Rightarrow>
          (let (best, _) = bestChannel want (map fst (mf_Channels m)) ([], -1)
           in if best = [] then None else Some best))"

text \<open>The sets \<open>resolveToolPlan\<close> fills, in the order of insertion, and the step for one selector.\<close>

record plan_acc =
  pa_canonical :: "string list"
  pa_kinds :: "string list"
  pa_node :: "string list"
  pa_dotnet :: "string list"
  pa_buildtools :: "string list"

definition planNode :: "manifest \<Rightarrow> string \<Rightarrow> plan_acc \<Rightarrow> gerr + plan_acc" where
  "planNode m version a =
     (let majors = (if version = [] then map fst (mf_NodeReleases m) else [version])
      in case find (\<lambda>x. map_of (mf_NodeReleases m) x = None) majors of
           Some bad \<Rightarrow> Inl (Leaf (''unsupported Node major '' @ goQuote bad))
         | None \<Rightarrow> Inr (a\<lparr>pa_node := pa_node a @ majors, pa_canonical := pa_canonical a @ map ((@) ''node:'') majors,
                          pa_kinds := pa_kinds a @ [''node'']\<rparr>))"

definition addDotNet :: "plan_acc \<Rightarrow> string list \<Rightarrow> plan_acc" where
  "addDotNet a cs =
     a\<lparr>pa_dotnet := pa_dotnet a @ cs,
       pa_canonical := pa_canonical a @ map (\<lambda>c. ''dotnet:'' @ dotNetChannelMajor c) cs,
       pa_kinds := pa_kinds a @ [''dotnet'']\<rparr>"

definition bakeable :: "manifest \<Rightarrow> string \<Rightarrow> bool" where
  "bakeable m c = (case map_of (mf_Channels m) c of None \<Rightarrow> False | Some r \<Rightarrow> bakeableDotNetChannel r)"

definition planDotNet :: "manifest \<Rightarrow> string \<Rightarrow> plan_acc \<Rightarrow> gerr + plan_acc" where
  "planDotNet m version a =
     (if version = [] then
        (let cs = filter (bakeable m) (ChannelsForTarget m ''qemu-windows'')
         in if cs = []
            then Inl (Leaf ''no supported .NET channel is assigned to the golden image; select an exact major'')
            else Inr (addDotNet a cs))
      else
        (case dotNetChannelForMajor m version of
           Some c \<Rightarrow> if bakeable m c then Inr (addDotNet a [c])
                    else Inl (Leaf (''unsupported stable .NET major '' @ goQuote version))
         | None \<Rightarrow> Inl (Leaf (''unsupported stable .NET major '' @ goQuote version))))"

definition planBuildTools :: "manifest \<Rightarrow> string \<Rightarrow> plan_acc \<Rightarrow> gerr + plan_acc" where
  "planBuildTools m version a =
     (let line = (if version = [] then mf_BuildToolsDefaultLine m else version)
      in if map_of (mf_BuildToolsLines m) line = None
         then Inl (Leaf (''unsupported Build Tools release line '' @ goQuote line))
         else Inr (a\<lparr>pa_buildtools := pa_buildtools a @ [line],
                     pa_canonical := pa_canonical a @ [''buildtools:'' @ line],
                     pa_kinds := pa_kinds a @ [''buildtools'']\<rparr>))"

definition planSelector :: "manifest \<Rightarrow> string \<Rightarrow> plan_acc \<Rightarrow> gerr + plan_acc" where
  "planSelector m sel a =
     (let parts = splitOn (CHR '':'') sel; kind = hd parts;
          version = (if length parts = 2 then parts ! 1 else [])
      in if length parts > 2 then Inl (Leaf (''invalid tool selector '' @ goQuote sel))
         else if length parts = 2 \<and> version = []
         then Inl (Leaf (''tool selector '' @ goQuote sel @ '' has an empty version; drop the colon to use the default''))
         else if kind = ''node'' then planNode m version a
         else if kind = ''go'' then
           (if version \<noteq> [] then Inl (Leaf ''go does not support a version selector'')
            else Inr (a\<lparr>pa_canonical := pa_canonical a @ [kind], pa_kinds := pa_kinds a @ [kind]\<rparr>))
         else if kind = ''dotnet'' then planDotNet m version a
         else if kind = ''buildtools'' then planBuildTools m version a
         else Inl (Leaf (''unknown tool selector '' @ goQuote sel)))"

fun planAll :: "manifest \<Rightarrow> string list \<Rightarrow> plan_acc \<Rightarrow> gerr + plan_acc" where
  "planAll m [] a = Inr a"
| "planAll m (s # ss) a = (case planSelector m s a of Inl e \<Rightarrow> Inl e | Inr a1 \<Rightarrow> planAll m ss a1)"

definition sortedKeys :: "string list \<Rightarrow> string list" where
  "sortedKeys values = sort (remdups values)"

text \<open>\<open>sort.Slice\<close> on a short slice is an insertion sort, here with the accumulator reversed.\<close>

fun goInsert :: "('a \<Rightarrow> 'a \<Rightarrow> bool) \<Rightarrow> 'a \<Rightarrow> 'a list \<Rightarrow> 'a list" where
  "goInsert lt x [] = [x]"
| "goInsert lt x (y # ys) = (if lt x y then y # goInsert lt x ys else x # y # ys)"

definition goSort :: "('a \<Rightarrow> 'a \<Rightarrow> bool) \<Rightarrow> 'a list \<Rightarrow> 'a list" where
  "goSort lt xs = rev (foldl (\<lambda>acc x. goInsert lt x acc) [] xs)"

definition versionLess :: "string \<Rightarrow> string \<Rightarrow> bool" where
  "versionLess a b =
     (case (parseInt64 (dotNetChannelMajor a), parseInt64 (dotNetChannelMajor b)) of
        (Some x, Some y) \<Rightarrow> x < y
      | _ \<Rightarrow> a < b)"

definition sortedVersionKeys :: "string list \<Rightarrow> string list" where
  "sortedVersionKeys values = goSort versionLess (sortedKeys values)"

definition resolveToolPlan :: "manifest \<Rightarrow> string list \<Rightarrow> gerr + tool_plan" where
  "resolveToolPlan m tools =
     (case planAll m (normalizeTools tools)
             \<lparr>pa_canonical = [], pa_kinds = [], pa_node = [], pa_dotnet = [], pa_buildtools = []\<rparr> of
        Inl e \<Rightarrow> Inl e
      | Inr a \<Rightarrow> Inr \<lparr>tp_Canonical = sortedKeys (pa_canonical a), tp_Kinds = sortedKeys (pa_kinds a),
                       tp_Node = sortedVersionKeys (pa_node a), tp_DotNet = sortedVersionKeys (pa_dotnet a),
                       tp_BuildTools = sortedVersionKeys (pa_buildtools a)\<rparr>)"

definition ValidateToolSelectors :: "manifest \<Rightarrow> string list \<Rightarrow> gerr option" where
  "ValidateToolSelectors m tools = (case resolveToolPlan m tools of Inl e \<Rightarrow> Some e | Inr p \<Rightarrow> None)"

section \<open>Artifacts\<close>

record artifact =
  ar_Name :: string
  ar_Version :: string
  ar_URL :: string
  ar_Algorithm :: string
  ar_Digest :: string

definition bakeNodeURLForVersion :: "string \<Rightarrow> string" where
  "bakeNodeURLForVersion v = ''https://nodejs.org/dist/v'' @ v @ ''/node-v'' @ v @ ''-win-x64.zip''"

definition bakeGoURL :: "manifest \<Rightarrow> string" where
  "bakeGoURL m = ''https://go.dev/dl/go'' @ mf_GoVersion m @ ''.windows-amd64.zip''"

definition bakeDotNetURL :: "string \<Rightarrow> string" where
  "bakeDotNetURL v = ''https://builds.dotnet.microsoft.com/dotnet/Sdk/'' @ v @ ''/dotnet-sdk-'' @ v @ ''-win-x64.zip''"

definition bakeDotNetArtifactName :: "string \<Rightarrow> string" where
  "bakeDotNetArtifactName channel =
     ''dotnet-'' @ map (\<lambda>c. if c = CHR ''.'' then CHR ''-'' else c) channel @ ''.zip''"

definition bakeNodeArtifacts :: "manifest \<Rightarrow> string list \<Rightarrow> artifact list" where
  "bakeNodeArtifacts m majors =
     (if majors = [] then []
      else List.map_filter (\<lambda>major. map_option (\<lambda>r.
             \<lparr>ar_Name = ''node-'' @ major @ ''.zip'', ar_Version = nd_Version r,
              ar_URL = bakeNodeURLForVersion (nd_Version r), ar_Algorithm = ''SHA256'',
              ar_Digest = nd_WindowsX64SHA256 r\<rparr>) (map_of (mf_NodeReleases m) major)) majors
           @ [\<lparr>ar_Name = ''corepack.tgz'', ar_Version = mf_CorepackVersion m, ar_URL = mf_CorepackURL m,
               ar_Algorithm = ''SHA512'', ar_Digest = mf_CorepackSHA512 m\<rparr>])"

definition bakeDotNetArtifacts :: "manifest \<Rightarrow> string list \<Rightarrow> artifact list" where
  "bakeDotNetArtifacts m channels =
     List.map_filter (\<lambda>c. map_option (\<lambda>r.
       \<lparr>ar_Name = bakeDotNetArtifactName c, ar_Version = dn_Version r, ar_URL = bakeDotNetURL (dn_Version r),
        ar_Algorithm = ''SHA512'', ar_Digest = dn_WindowsX64SHA512 r\<rparr>) (map_of (mf_Channels m) c)) channels"

definition bakeBuildToolsArtifacts :: "manifest \<Rightarrow> string list \<Rightarrow> artifact list" where
  "bakeBuildToolsArtifacts m lines =
     concat (List.map_filter (\<lambda>line. map_option (\<lambda>r.
       [\<lparr>ar_Name = ''vs-'' @ line @ ''.exe'', ar_Version = bt_Version r, ar_URL = bt_BootstrapperURL r,
         ar_Algorithm = ''SHA256'', ar_Digest = bt_BootstrapperSHA256 r\<rparr>,
        \<lparr>ar_Name = ''vs-'' @ line @ ''.channel'', ar_Version = bt_Version r, ar_URL = bt_ChannelURL r,
         ar_Algorithm = ''SHA256'', ar_Digest = bt_ChannelSHA256 r\<rparr>]) (map_of (mf_BuildToolsLines m) line)) lines)"

definition kindArtifacts :: "manifest \<Rightarrow> tool_plan \<Rightarrow> string \<Rightarrow> artifact list" where
  "kindArtifacts m plan kind =
     (if kind = ''node'' then bakeNodeArtifacts m (tp_Node plan)
      else if kind = ''go'' then
        [\<lparr>ar_Name = ''go.zip'', ar_Version = mf_GoVersion m, ar_URL = bakeGoURL m, ar_Algorithm = ''SHA256'',
          ar_Digest = mf_GoWindowsAMD64SHA256 m\<rparr>]
      else if kind = ''dotnet'' then bakeDotNetArtifacts m (tp_DotNet plan)
      else if kind = ''buildtools'' then bakeBuildToolsArtifacts m (tp_BuildTools plan)
      else [])"

definition validateSHA256 :: "string \<Rightarrow> gerr option" where
  "validateSHA256 d = digest d [] 64"

definition bakeArtifactsForPlan :: "manifest \<Rightarrow> string \<Rightarrow> string \<Rightarrow> tool_plan \<Rightarrow> gerr + artifact list" where
  "bakeArtifactsForPlan m runnerVersion0 runnerSHA0 plan =
     (let runnerVersion = (if runnerVersion0 = [] then mf_RunnerVersion m else runnerVersion0)
      in if runnerSHA0 = [] \<and> runnerVersion \<noteq> mf_RunnerVersion m
         then Inl (Leaf (''runner SHA256 is required for custom version '' @ runnerVersion))
         else
           (let runnerSHA = (if runnerSHA0 = [] then mf_RunnerWindowsX64SHA256 m else runnerSHA0)
            in case validateSHA256 runnerSHA of
                 Some e \<Rightarrow> Inl (errorf ''runner SHA256: '' e)
               | None \<Rightarrow>
                   Inr ([\<lparr>ar_Name = ''runner.zip'', ar_Version = runnerVersion,
                          ar_URL = ''https://github.com/actions/runner/releases/download/v'' @ runnerVersion
                            @ ''/actions-runner-win-x64-'' @ runnerVersion @ ''.zip'',
                          ar_Algorithm = ''SHA256'', ar_Digest = runnerSHA\<rparr>,
                         \<lparr>ar_Name = ''mingit.zip'', ar_Version = mf_MinGitVersion m, ar_URL = mf_MinGitURL m,
                          ar_Algorithm = ''SHA256'', ar_Digest = mf_MinGitSHA256 m\<rparr>]
                        @ concat (map (kindArtifacts m plan) (tp_Kinds plan)))))"

definition bakeArtifacts :: "manifest \<Rightarrow> string \<Rightarrow> string \<Rightarrow> string list \<Rightarrow> gerr + artifact list" where
  "bakeArtifacts m runnerVersion runnerSHA tools =
     (case resolveToolPlan m tools of
        Inl e \<Rightarrow> Inl e
      | Inr plan \<Rightarrow> bakeArtifactsForPlan m runnerVersion runnerSHA plan)"

section \<open>Every artifact is pinned\<close>

definition pinned :: "artifact \<Rightarrow> bool" where
  "pinned a =
     (ar_Algorithm a = ''SHA256'' \<and> digest (ar_Digest a) [] 64 = None
      \<or> ar_Algorithm a = ''SHA512'' \<and> digest (ar_Digest a) [] 128 = None)"

lemma checkDigests_None: "checkDigests pre b n ds = None \<longleftrightarrow> (\<forall>(k, v) \<in> set ds. digest v pre n = None)"
  by (auto simp: checkDigests_def)

lemma manifestValidateD: "manifestValidate m = None \<Longrightarrow> e \<in> set (manifestChecks m) \<Longrightarrow> e = None"
  by (simp add: manifestValidate_def)

lemma valid_lists:
  assumes "manifestValidate m = None"
  shows "\<forall>e \<in> set (nodeChecks m). e = None" "\<forall>e \<in> set (dotnetChecks m). e = None"
    "\<forall>e \<in> set (buildToolsChecks m). e = None" "checkDigests [] [] 64 (fixedDigests m) = None"
  using manifestValidateD[OF assms] by (simp_all add: manifestChecks_def)

lemma valid_node:
  "manifestValidate m = None \<Longrightarrow> (k, r) \<in> set (mf_NodeReleases m) \<Longrightarrow> digest (nd_WindowsX64SHA256 r) [] 64 = None"
proof -
  assume v: "manifestValidate m = None" and "(k, r) \<in> set (mf_NodeReleases m)"
  then have "nodeReleaseCheck k r = None" using valid_lists(1)[OF v] by (auto simp: nodeChecks_def)
  then show ?thesis by (simp add: nodeReleaseCheck_def checkDigests_None)
qed

lemma valid_dotnet:
  "manifestValidate m = None \<Longrightarrow> (k, r) \<in> set (mf_Channels m) \<Longrightarrow> dn_WindowsX64SHA512 r \<noteq> []
   \<Longrightarrow> digest (dn_WindowsX64SHA512 r) [] 128 = None"
proof -
  assume v: "manifestValidate m = None" and "(k, r) \<in> set (mf_Channels m)" and ne: "dn_WindowsX64SHA512 r \<noteq> []"
  then have "dotnetChannelCheck k r = None" using valid_lists(2)[OF v] by (auto simp: dotnetChecks_def)
  then show ?thesis using ne by (simp add: dotnetChannelCheck_def checkDigests_None split: if_splits)
qed

lemma valid_buildtools:
  "manifestValidate m = None \<Longrightarrow> (k, r) \<in> set (mf_BuildToolsLines m)
   \<Longrightarrow> digest (bt_BootstrapperSHA256 r) [] 64 = None \<and> digest (bt_ChannelSHA256 r) [] 64 = None"
proof -
  assume v: "manifestValidate m = None" and "(k, r) \<in> set (mf_BuildToolsLines m)"
  then have "buildToolsLineCheck k r = None" using valid_lists(3)[OF v] by (auto simp: buildToolsChecks_def)
  then show ?thesis by (simp add: buildToolsLineCheck_def checkDigests_None)
qed

lemma valid_fixed:
  assumes "manifestValidate m = None"
  shows "digest (mf_MinGitSHA256 m) [] 64 = None" "digest (mf_GoWindowsAMD64SHA256 m) [] 64 = None"
    "digest (mf_CorepackSHA512 m) [] 128 = None"
  using valid_lists(1,4)[OF assms] by (simp_all add: nodeChecks_def fixedDigests_def checkDigests_None)

lemma set_goInsert: "set (goInsert lt x ys) = insert x (set ys)"
  by (induction ys) auto

lemma set_goSort: "set (goSort lt xs) = set xs"
proof -
  have "set (foldl (\<lambda>acc x. goInsert lt x acc) acc xs) = set acc \<union> set xs" for acc
    by (induction xs arbitrary: acc) (auto simp: set_goInsert)
  then show ?thesis by (simp add: goSort_def)
qed

text \<open>Every .NET channel in a plan is bakeable.\<close>

lemma planSelector_dotnet:
  assumes "planSelector m s a = Inr a'" and "\<forall>c \<in> set (pa_dotnet a). bakeable m c"
  shows "\<forall>c \<in> set (pa_dotnet a'). bakeable m c"
  using assms
  by (auto simp: planSelector_def planNode_def planDotNet_def planBuildTools_def addDotNet_def Let_def
      split: if_splits option.splits)

lemma planAll_dotnet:
  "planAll m ss a = Inr a' \<Longrightarrow> \<forall>c \<in> set (pa_dotnet a). bakeable m c \<Longrightarrow> \<forall>c \<in> set (pa_dotnet a'). bakeable m c"
proof (induction ss arbitrary: a)
  case (Cons s ss)
  then obtain a1 where "planSelector m s a = Inr a1" "planAll m ss a1 = Inr a'"
    by (auto split: sum.splits)
  then show ?case using Cons.IH planSelector_dotnet[OF _ Cons.prems(2)] by blast
qed simp

lemma plan_dotnet:
  assumes "resolveToolPlan m tools = Inr plan" and "c \<in> set (tp_DotNet plan)"
  shows "bakeable m c"
  using assms planAll_dotnet[of m "normalizeTools tools"]
  by (fastforce simp: resolveToolPlan_def sortedVersionKeys_def sortedKeys_def set_goSort split: sum.splits)

lemma set_map_filter: "set (List.map_filter f xs) = {y. \<exists>x \<in> set xs. f x = Some y}"
  by (auto simp: List.map_filter_def image_iff) (metis option.sel)+

lemma pinned_kind:
  assumes v: "manifestValidate m = None" and p: "resolveToolPlan m tools = Inr plan"
    and a: "a \<in> set (kindArtifacts m plan kind)"
  shows "pinned a"
proof -
  have n: "a \<in> set (bakeNodeArtifacts m xs) \<Longrightarrow> pinned a" for xs
    using valid_node[OF v] valid_fixed[OF v]
    by (auto simp: bakeNodeArtifacts_def pinned_def set_map_filter dest!: map_of_SomeD split: if_splits)
  have d: "a \<in> set (bakeDotNetArtifacts m (tp_DotNet plan)) \<Longrightarrow> pinned a"
    using valid_dotnet[OF v] plan_dotnet[OF p]
    by (fastforce simp: bakeDotNetArtifacts_def pinned_def set_map_filter bakeable_def bakeableDotNetChannel_def
        dest: map_of_SomeD)
  have b: "a \<in> set (bakeBuildToolsArtifacts m xs) \<Longrightarrow> pinned a" for xs
    using valid_buildtools[OF v]
    by (auto simp: bakeBuildToolsArtifacts_def pinned_def set_map_filter dest!: map_of_SomeD)
  show ?thesis using a n d b valid_fixed[OF v]
    by (auto simp: kindArtifacts_def pinned_def split: if_splits)
qed


definition demoHex :: "nat \<Rightarrow> string" where
  "demoHex n = replicate n (CHR ''a'')"

definition demoManifest :: manifest where
  "demoManifest =
     \<lparr>mf_Schema = 1,
      mf_LinuxBase = \<lparr>bi_Repository = ''docker.io/ubuntu'', bi_Tag = ''24.04'', bi_Digest = ''sha256:'' @ demoHex 64\<rparr>,
      mf_WindowsBase = \<lparr>bi_Repository = ''mcr.io/nano'', bi_Tag = ''ltsc'', bi_Digest = ''sha256:'' @ demoHex 64\<rparr>,
      mf_RunnerVersion = ''2.1'', mf_RunnerLinuxX64SHA256 = demoHex 64, mf_RunnerLinuxARM64SHA256 = demoHex 64,
      mf_RunnerWindowsX64SHA256 = demoHex 64, mf_MinGitVersion = ''2'', mf_MinGitURL = ''u'',
      mf_MinGitSHA256 = demoHex 64, mf_PowerShellVersion = ''7'', mf_PowerShellSHA256 = demoHex 64,
      mf_NativePackageSource = ''distribution'', mf_NativeStrategy = ''latest'',
      mf_NodeTrack = ''supported-lts'', mf_NodeDefaultMajor = 22, mf_CorepackVersion = ''1'', mf_CorepackURL = ''c'',
      mf_CorepackSHA512 = demoHex 128,
      mf_NodeReleases = [(''22'', \<lparr>nd_Version = ''22.1'', nd_EOL = ''2027'', nd_LinuxX64SHA256 = demoHex 64,
        nd_LinuxARM64SHA256 = demoHex 64, nd_WindowsX64SHA256 = demoHex 64\<rparr>)],
      mf_TrackReleaseTypes = [''lts''], mf_Unassigned = [],
      mf_Channels = [(''8.0'', \<lparr>dn_Targets = [''linux'', ''windows-container'', ''qemu-windows''], dn_ReleaseType = ''lts'',
        dn_Version = ''8.0.1'', dn_EOL = ''2026'', dn_SupportPhase = ''active'', dn_LinuxX64SHA512 = demoHex 128,
        dn_LinuxARM64SHA512 = demoHex 128, dn_WindowsX64SHA512 = demoHex 128\<rparr>)],
      mf_GoStrategy = ''latest-stable'', mf_GoVersion = ''1.2'', mf_GoLinuxAMD64SHA256 = demoHex 64, mf_GoLinuxARM64SHA256 = demoHex 64,
      mf_GoWindowsAMD64SHA256 = demoHex 64, mf_RustChannel = ''stable'', mf_RustVersion = ''1'',
      mf_RustupVersion = ''1'', mf_RustupX64SHA256 = demoHex 64, mf_RustupARM64SHA256 = demoHex 64,
      mf_BuildToolsDefaultLine = ''17'', mf_BuildToolsLines = [(''17'', \<lparr>bt_Channel = ''17/release'', bt_ReleaseLine = ''17'',
        bt_Version = ''17.1'', bt_BootstrapperURL = ''b'', bt_BootstrapperSHA256 = demoHex 64, bt_ChannelURL = ''d'',
        bt_ChannelSHA256 = demoHex 64\<rparr>)]\<rparr>"

lemma demoManifest_sel [simp]:
  "mf_Schema demoManifest = 1"
  "mf_LinuxBase demoManifest = \<lparr>bi_Repository = ''docker.io/ubuntu'', bi_Tag = ''24.04'', bi_Digest = ''sha256:'' @ demoHex 64\<rparr>"
  "mf_WindowsBase demoManifest = \<lparr>bi_Repository = ''mcr.io/nano'', bi_Tag = ''ltsc'', bi_Digest = ''sha256:'' @ demoHex 64\<rparr>"
  "mf_RunnerVersion demoManifest = ''2.1''"
  "mf_RunnerLinuxX64SHA256 demoManifest = demoHex 64"
  "mf_RunnerLinuxARM64SHA256 demoManifest = demoHex 64"
  "mf_RunnerWindowsX64SHA256 demoManifest = demoHex 64"
  "mf_MinGitVersion demoManifest = ''2''"
  "mf_MinGitURL demoManifest = ''u''"
  "mf_MinGitSHA256 demoManifest = demoHex 64"
  "mf_PowerShellVersion demoManifest = ''7''"
  "mf_PowerShellSHA256 demoManifest = demoHex 64"
  "mf_NodeTrack demoManifest = ''supported-lts''"
  "mf_NodeDefaultMajor demoManifest = 22"
  "mf_CorepackVersion demoManifest = ''1''"
  "mf_CorepackURL demoManifest = ''c''"
  "mf_CorepackSHA512 demoManifest = demoHex 128"
  "mf_NodeReleases demoManifest = [(''22'', \<lparr>nd_Version = ''22.1'', nd_EOL = ''2027'', nd_LinuxX64SHA256 = demoHex 64, nd_LinuxARM64SHA256 = demoHex 64, nd_WindowsX64SHA256 = demoHex 64\<rparr>)]"
  "mf_TrackReleaseTypes demoManifest = [''lts'']"
  "mf_Unassigned demoManifest = []"
  "mf_Channels demoManifest = [(''8.0'', \<lparr>dn_Targets = [''linux'', ''windows-container'', ''qemu-windows''], dn_ReleaseType = ''lts'', dn_Version = ''8.0.1'', dn_EOL = ''2026'', dn_SupportPhase = ''active'', dn_LinuxX64SHA512 = demoHex 128, dn_LinuxARM64SHA512 = demoHex 128, dn_WindowsX64SHA512 = demoHex 128\<rparr>)]"
  "mf_GoVersion demoManifest = ''1.2''"
  "mf_GoLinuxAMD64SHA256 demoManifest = demoHex 64"
  "mf_GoLinuxARM64SHA256 demoManifest = demoHex 64"
  "mf_GoWindowsAMD64SHA256 demoManifest = demoHex 64"
  "mf_RustChannel demoManifest = ''stable''"
  "mf_RustVersion demoManifest = ''1''"
  "mf_RustupVersion demoManifest = ''1''"
  "mf_RustupX64SHA256 demoManifest = demoHex 64"
  "mf_RustupARM64SHA256 demoManifest = demoHex 64"
  "mf_BuildToolsDefaultLine demoManifest = ''17''"
  "mf_BuildToolsLines demoManifest = [(''17'', \<lparr>bt_Channel = ''17/release'', bt_ReleaseLine = ''17'', bt_Version = ''17.1'', bt_BootstrapperURL = ''b'', bt_BootstrapperSHA256 = demoHex 64, bt_ChannelURL = ''d'', bt_ChannelSHA256 = demoHex 64\<rparr>)]"
  by (simp_all only: demoManifest_def manifest.select_convs)

lemma digest_demoHex:
  "digest (demoHex 64) [] 64 = None" "digest (demoHex 128) [] 128 = None"
  "digest (''sha256:'' @ demoHex 64) ''sha256:'' 64 = None"
proof -
  have "hexVal (CHR ''a'') = Some 10" by code_simp
  then have dec: "hexDecode (replicate (2 * n) (CHR ''a'')) \<noteq> None" for n by (induction n) auto
  have "hexDecode (demoHex 64) \<noteq> None" "hexDecode (demoHex 128) \<noteq> None"
    using dec[of 32] dec[of 64] by (simp_all add: demoHex_def)
  then show "digest (demoHex 64) [] 64 = None" "digest (demoHex 128) [] 128 = None"
    "digest (''sha256:'' @ demoHex 64) ''sha256:'' 64 = None"
    by (simp_all add: digest_def demoHex_def Let_def)
qed

lemma numericKey_formatInt: "low \<le> v \<Longrightarrow> - (2 ^ 63) \<le> v \<Longrightarrow> v < 2 ^ 63 \<Longrightarrow> numericKey low (formatInt v)"
  by (simp add: numericKey_def parseInt64_formatInt)

lemma demoManifest_policy: "ValidatePolicy demoManifest = None"
proof -
  have f: "formatInt 22 = ''22''" "formatInt 17 = ''17''" "formatInt 8 = ''8''" "formatInt 0 = ''0''" by code_simp+
  have k: "numericKey 1 ''22''" "numericKey 1 ''17''" "numericKey 0 ''8''" "numericKey 0 ''0''"
    using numericKey_formatInt[of 1 22] numericKey_formatInt[of 1 17] numericKey_formatInt[of 0 8]
      numericKey_formatInt[of 0 0] f by simp_all
  have d: "validDotNetChannel ''8.0''" using k by (simp add: validDotNetChannel_def)
  have "\<forall>e \<in> set (policyDotNet demoManifest). e = None"
    by (simp add: policyDotNet_def d dotnetTargets_def)
  moreover have "\<forall>e \<in> set (policyDiscoveries demoManifest). e = None" by (simp add: policyDiscoveries_def)
  moreover have "\<forall>e \<in> set (policyBuildTools demoManifest). e = None" by (simp add: policyBuildTools_def k)
  ultimately show ?thesis
    by (simp add: ValidatePolicy_def ball_Un nodeDefaultRelease_def supportedLTS_def k f)
qed

lemma demoManifest_valid: "manifestValidate demoManifest = None"
proof -
  have c: "ChannelsForTarget demoManifest t = (if t \<in> set dotnetTargets then [''8.0''] else [])" for t
    by (simp add: ChannelsForTarget_def dotnetTargets_def)
  have ne: "demoHex 128 \<noteq> []" by (simp add: demoHex_def)
  have "\<forall>e \<in> set (nodeChecks demoManifest). e = None"
    by (simp add: nodeChecks_def nodeReleaseCheck_def checkDigests_None digest_demoHex)
  moreover have "\<forall>e \<in> set (dotnetChecks demoManifest). e = None"
    by (simp add: dotnetChecks_def dotnetChannelCheck_def c dotnetTargets_def checkDigests_None digest_demoHex ne)
  moreover have "\<forall>e \<in> set (buildToolsChecks demoManifest). e = None"
    by (simp add: buildToolsChecks_def buildToolsLineCheck_def checkDigests_None digest_demoHex)
  moreover have "checkDigests [] [] 64 (fixedDigests demoManifest) = None"
    by (simp add: fixedDigests_def checkDigests_None digest_demoHex)
  moreover have "digest (bi_Digest (mf_LinuxBase demoManifest)) ''sha256:'' 64 = None"
    "digest (bi_Digest (mf_WindowsBase demoManifest)) ''sha256:'' 64 = None"
    using digest_demoHex(3) by simp_all
  ultimately show ?thesis
    by (simp add: manifestValidate_def manifestChecks_def ball_Un demoManifest_policy checkDigests_None)
qed

definition demoPlan :: tool_plan where
  "demoPlan = \<lparr>tp_Canonical = [''buildtools:17'', ''go''], tp_Kinds = [''buildtools'', ''go''], tp_Node = [],
     tp_DotNet = [], tp_BuildTools = [''17'']\<rparr>"


end
