(* ===== verification/Config.thy ===== *)
theory Config
  imports Image_Manifest Net_IP
begin

text \<open>
  The configuration (\<open>internal/config/config.go\<close>, \<open>dotenv.go\<close>): the schema as records, secret
  references, the defaults, \<open>Validate\<close> with every rejection in the order of the code, image
  references, job authorisation and the \<open>.env\<close> file. YAML decoding is not modelled: a
  configuration is the decoded record. The embedded image manifest is the parameter \<open>m\<close>, the
  process environment an association list.
\<close>

section \<open>Schema\<close>

type_synonym scope = string

record github_config =
  gc_URL :: string
  gc_Scope :: scope
  gc_Owner :: string
  gc_Repo :: string
  gc_Repos :: "string list"

record auth_config =
  au_PAT :: string
  au_AppID :: int
  au_InstallationID :: int
  au_PrivateKeyPath :: string
  au_ClientID :: string
  au_TokenPath :: string

record cache_config =
  ca_Enabled :: bool
  ca_Mode :: string
  ca_Storage :: string
  ca_Path :: string
  ca_Listen :: string
  ca_AdvertiseURL :: string
  ca_ExternalURL :: string
  ca_AccessToken :: string
  ca_Upstream :: string
  ca_MaxAgeDays :: int
  ca_MaxSizeGB :: int
  ca_GCIntervalSec :: int

record git_cache_config =
  gt_Mode :: string
  gt_Path :: string
  gt_MaxAgeDays :: int

record webhook_config =
  wh_Listen :: string
  wh_Path :: string
  wh_Secret :: string
  wh_PollIntervalSec :: int

record container_config_yaml =
  cy_CPUs :: int
  cy_MemoryMB :: int
  cy_MemorySwapMB :: int
  cy_DNS :: "string list"

record docker_config =
  do_Host :: string
  do_CAFile :: string
  do_CertFile :: string
  do_KeyFile :: string
  do_EnableDinD :: bool
  do_ShareWorkspace :: bool
  do_Isolation :: string
  do_WindowsDinD :: string

record pool_config =
  pc_Name :: string
  pc_OS :: string
  pc_Backend :: string
  pc_Size :: int
  pc_ImageTier :: string
  pc_Image :: string
  pc_Container :: container_config_yaml
  pc_Golden :: string
  pc_Tools :: "string list"
  pc_RunnerGroupID :: int
  pc_Labels :: "string list"
  pc_Repository :: string
  pc_Workflows :: "string list"
  pc_WorkflowEvent :: string
  pc_WorkflowActor :: string
  pc_WorkflowRef :: string
  pc_WorkFolder :: string
  pc_NamePrefix :: string
  pc_Docker :: docker_config
  pc_MaxConsecutiveFailures :: int
  pc_ScaleSet :: string
  pc_RunnerGroup :: string

record config =
  cf_GitHub :: github_config
  cf_Auth :: auth_config
  cf_Provisioning :: string
  cf_Cache :: cache_config
  cf_GitCache :: git_cache_config
  cf_Webhook :: webhook_config
  cf_MetricsListen :: string
  cf_Pools :: "pool_config list"
  cf_LogLevel :: string
  cf_LogFormat :: string

definition IsAutoscale :: "string \<Rightarrow> bool" where
  "IsAutoscale p = (p = ''autoscale'' \<or> p = ''webhook'')"

definition IsScaleset :: "string \<Rightarrow> bool" where
  "IsScaleset p = (p = ''scaleset'')"

definition gitCacheEnabled :: "git_cache_config \<Rightarrow> bool" where
  "gitCacheEnabled g = ((gt_Mode g = ''mirror'' \<or> gt_Mode g = ''dotgit-cache'') \<and> gt_Path g \<noteq> [])"

definition DotGit :: "git_cache_config \<Rightarrow> bool" where
  "DotGit g = (gt_Mode g = ''dotgit-cache'' \<and> gt_Path g \<noteq> [])"

definition IsApp :: "auth_config \<Rightarrow> bool" where
  "IsApp a = (au_PAT a = [] \<and> au_AppID a \<noteq> 0)"

definition IsDeviceApp :: "auth_config \<Rightarrow> bool" where
  "IsDeviceApp a = (au_PAT a = [] \<and> au_AppID a = 0 \<and> au_TokenPath a \<noteq> [])"

section \<open>Repositories\<close>

record repo_ref =
  rr_Owner :: string
  rr_Repo :: string

definition ParseRepoRef :: "string \<Rightarrow> string \<Rightarrow> repo_ref" where
  "ParseRepoRef entry defaultOwner =
     (case indexByte entry (CHR ''/'') of
        Some i \<Rightarrow>
          if 0 < i \<and> i < length entry - 1 then \<lparr>rr_Owner = take i entry, rr_Repo = drop (Suc i) entry\<rparr>
          else \<lparr>rr_Owner = defaultOwner, rr_Repo = entry\<rparr>
      | None \<Rightarrow> \<lparr>rr_Owner = defaultOwner, rr_Repo = entry\<rparr>)"

definition ResolvedRepos :: "github_config \<Rightarrow> repo_ref list" where
  "ResolvedRepos gh = map (\<lambda>e. ParseRepoRef e (gc_Owner gh)) (gc_Repos gh)"

definition RepoTargets :: "github_config \<Rightarrow> repo_ref list" where
  "RepoTargets gh =
     (if gc_Scope gh = ''repo'' then [\<lparr>rr_Owner = gc_Owner gh, rr_Repo = gc_Repo gh\<rparr>]
      else if gc_Scope gh = ''repos'' then ResolvedRepos gh else [])"

definition repoPath :: "repo_ref \<Rightarrow> string" where
  "repoPath r = rr_Owner r @ ''/'' @ rr_Repo r"

section \<open>Authorising a job\<close>

definition CanServeRepository :: "pool_config \<Rightarrow> string \<Rightarrow> bool" where
  "CanServeRepository p target = (pc_Repository p = [] \<or> equalFold (pc_Repository p) target)"

definition CanServeJob :: "pool_config \<Rightarrow> string \<Rightarrow> string \<Rightarrow> string \<Rightarrow> string \<Rightarrow> string \<Rightarrow> bool" where
  "CanServeJob p target workflow event actor ref =
     (if \<not> CanServeRepository p target then False
      else if pc_Workflows p = [] then True
      else if \<not> equalFold (pc_WorkflowEvent p) event \<or> \<not> equalFold (pc_WorkflowActor p) actor
              \<or> \<not> equalFold (pc_WorkflowRef p) ref
      then False
      else list_ex (\<lambda>allowed. allowed = workflow) (pc_Workflows p))"

section \<open>Container limits\<close>

definition bytesPerMiB :: int where
  "bytesPerMiB = 1024 * 1024"

definition nanosPerCPU :: int where
  "nanosPerCPU = 1000000000"

definition maxMemoryMiB :: int where
  "maxMemoryMiB = maxInt64 div bytesPerMiB"

definition maxCPUCount :: int where
  "maxCPUCount = maxInt64 div nanosPerCPU"

definition NanoCPUs :: "container_config_yaml \<Rightarrow> int" where
  "NanoCPUs c = wrap64 (cy_CPUs c * nanosPerCPU)"

definition MemoryBytes :: "container_config_yaml \<Rightarrow> int" where
  "MemoryBytes c = wrap64 (cy_MemoryMB c * bytesPerMiB)"

definition MemorySwapBytes :: "container_config_yaml \<Rightarrow> int" where
  "MemorySwapBytes c = wrap64 (cy_MemorySwapMB c * bytesPerMiB)"

definition containerConfigured :: "container_config_yaml \<Rightarrow> bool" where
  "containerConfigured c = (cy_CPUs c \<noteq> 0 \<or> cy_MemoryMB c \<noteq> 0 \<or> cy_MemorySwapMB c \<noteq> 0 \<or> cy_DNS c \<noteq> [])"

definition poolErr :: "pool_config \<Rightarrow> string \<Rightarrow> gerr" where
  "poolErr p msg = Leaf (''pools['' @ goQuote (pc_Name p) @ '']'' @ msg)"

definition validateContainerConfig :: "pool_config \<Rightarrow> gerr option" where
  "validateContainerConfig p =
     (let cfg = pc_Container p
      in firstErr
        [failIf (cy_CPUs cfg < 0) (poolErr p ''.container.cpus must be >= 0''),
         failIf (cy_CPUs cfg > maxCPUCount) (poolErr p ''.container.cpus overflows the backend CPU representation''),
         failIf (cy_MemoryMB cfg < 0) (poolErr p ''.container.memory_mb must be >= 0''),
         failIf (cy_MemoryMB cfg > maxMemoryMiB) (poolErr p ''.container.memory_mb overflows bytes''),
         failIf (cy_MemorySwapMB cfg < 0) (poolErr p ''.container.memory_swap_mb must be >= 0''),
         failIf (cy_MemorySwapMB cfg > maxMemoryMiB) (poolErr p ''.container.memory_swap_mb overflows bytes''),
         failIf (cy_MemorySwapMB cfg \<noteq> 0 \<and> cy_MemoryMB cfg = 0) (poolErr p ''.container.memory_swap_mb requires memory_mb''),
         failIf (cy_MemorySwapMB cfg \<noteq> 0 \<and> cy_MemorySwapMB cfg < cy_MemoryMB cfg)
           (poolErr p ''.container.memory_swap_mb must be >= memory_mb''),
         failIf (pc_Backend p = ''qemu'' \<and> containerConfigured cfg)
           (poolErr p ''.container settings are unsupported for backend=qemu; use qemu.cpus and qemu.mem_mb''),
         failIf (pc_OS p = ''windows'' \<and> cy_MemorySwapMB cfg \<noteq> 0)
           (poolErr p ''.container.memory_swap_mb is unsupported for Windows containers''),
         failIf (pc_Backend p = ''containerd'' \<and> cy_DNS cfg \<noteq> []) (poolErr p ''.container.dns is unsupported by nerdctl on Windows''),
         firstErr (map (\<lambda>server. failIf (parseIP server = None)
           (poolErr p (''.container.dns entry '' @ goQuote server @ '' must be an IP address''))) (cy_DNS cfg))])"

section \<open>Images\<close>

definition publishedFlavors :: "manifest \<Rightarrow> string \<Rightarrow> (string \<times> string) list" where
  "publishedFlavors m os =
     (if os = ''linux''
      then [(''native-build'', ''native-build''), (''node'', ''node''), (''dotnet'', ''dotnet''), (''rust'', ''rust''), (''go'', ''go'')]
      else if os = ''windows''
      then [(''node'', ''node''), (''dotnet'', ''dotnet''), (''buildtools'', ''buildtools'')]
           @ map (\<lambda>line. (''buildtools:'' @ line, ''buildtools-'' @ line)) (ReleaseLines m)
      else [])"

definition flavorTag :: "manifest \<Rightarrow> string \<Rightarrow> string \<Rightarrow> string" where
  "flavorTag m os tier = (case map_of (publishedFlavors m os) tier of None \<Rightarrow> [] | Some t \<Rightarrow> t)"

definition validImageTiers :: "manifest \<Rightarrow> string \<Rightarrow> string list" where
  "validImageTiers m os = ''minimal'' # sort (map fst (publishedFlavors m os))"

definition ImageRef :: "manifest \<Rightarrow> pool_config \<Rightarrow> string" where
  "ImageRef m p =
     (if pc_Image p \<noteq> [] then pc_Image p
      else if pc_ImageTier p = [] \<or> pc_ImageTier p = ''minimal''
      then ''gerardsmit/multirunner-runner-'' @ pc_OS p @ '':latest''
      else if flavorTag m (pc_OS p) (pc_ImageTier p) \<noteq> []
      then ''gerardsmit/multirunner-runner-'' @ pc_OS p @ '':'' @ flavorTag m (pc_OS p) (pc_ImageTier p)
      else ''multirunner/runner-'' @ pc_OS p @ ''-'' @ pc_ImageTier p @ '':dev'')"

text \<open>
  The pattern \<open>^[a-z0-9]+(?:(?:[._]|__|-+)[a-z0-9]+)*$\<close> as its automaton: \<open>TStart\<close> before the
  first letter, \<open>TWord\<close> (accepting) inside a word, the others inside a separator.
\<close>

datatype tier_state = TStart | TWord | TDot | TUnder | TUnder2 | THyphen | TReject

definition tierChar :: "char \<Rightarrow> bool" where
  "tierChar c = (isDigit c \<or> (let n = of_char c :: nat in 97 \<le> n \<and> n \<le> 122))"

fun tierStep :: "tier_state \<Rightarrow> char \<Rightarrow> tier_state" where
  "tierStep TReject c = TReject"
| "tierStep TStart c = (if tierChar c then TWord else TReject)"
| "tierStep TWord c =
     (if tierChar c then TWord else if c = CHR ''.'' then TDot else if c = CHR ''_'' then TUnder
      else if c = CHR ''-'' then THyphen else TReject)"
| "tierStep TDot c = (if tierChar c then TWord else TReject)"
| "tierStep TUnder c = (if tierChar c then TWord else if c = CHR ''_'' then TUnder2 else TReject)"
| "tierStep TUnder2 c = (if tierChar c then TWord else TReject)"
| "tierStep THyphen c = (if tierChar c then TWord else if c = CHR ''-'' then THyphen else TReject)"

definition localTier :: "string \<Rightarrow> bool" where
  "localTier s = (foldl tierStep TStart s = TWord)"

definition maxLocalImageTierLength :: nat where
  "maxLocalImageTierLength = 64"

definition validateImageTier :: "manifest \<Rightarrow> pool_config \<Rightarrow> gerr option" where
  "validateImageTier m p =
     (if pc_Image p \<noteq> [] \<or> pc_Backend p = ''qemu'' then None
      else if pc_ImageTier p = [] \<or> pc_ImageTier p = ''minimal'' \<or> flavorTag m (pc_OS p) (pc_ImageTier p) \<noteq> [] then None
      else if length (pc_ImageTier p) \<le> maxLocalImageTierLength \<and> localTier (pc_ImageTier p) then None
      else Some (poolErr p (''.image_tier '' @ goQuote (pc_ImageTier p) @ '' is not published for os='' @ pc_OS p
        @ '' and cannot be built locally (a local tier must be lowercase letters and digits separated by ''
        @ [CHR 0x27, CHR ''.'', CHR 0x27] @ '', '' @ [CHR 0x27, CHR ''_'', CHR 0x27] @ '' or '' @ [CHR 0x27, CHR ''-'', CHR 0x27]
        @ '', at most '' @ natDigits maxLocalImageTierLength @ '' characters); valid tiers: ''
        @ sepBy '', '' (validImageTiers m (pc_OS p)))))"

definition ToolCachePath :: "pool_config \<Rightarrow> string" where
  "ToolCachePath p =
     (if pc_OS p = ''windows'' then ''C:'' @ [CHR 0x5C] @ ''hostedtoolcache'' @ [CHR 0x5C] @ ''windows'' else ''/opt/hostedtoolcache'')"

definition SharedWorkspacePath :: "pool_config \<Rightarrow> string" where
  "SharedWorkspacePath p = ''/home/runner/'' @ pc_WorkFolder p"

section \<open>Secrets and the environment file\<close>

definition expandEnvRef :: "(string \<times> string) list \<Rightarrow> string \<Rightarrow> string" where
  "expandEnvRef env v =
     (if \<not> prefix ''$'' v then v
      else
        (let name = trimSuffix (trimPrefix (trimPrefix v ''$'') ''{'') ''}''
         in case map_of env name of Some r \<Rightarrow> r | None \<Rightarrow> []))"

definition resolveSecrets :: "(string \<times> string) list \<Rightarrow> config \<Rightarrow> config" where
  "resolveSecrets env c =
     c\<lparr>cf_Auth := (cf_Auth c)\<lparr>au_PAT := expandEnvRef env (au_PAT (cf_Auth c)),
          au_PrivateKeyPath := expandEnvRef env (au_PrivateKeyPath (cf_Auth c)),
          au_TokenPath := expandEnvRef env (au_TokenPath (cf_Auth c))\<rparr>,
       cf_Webhook := (cf_Webhook c)\<lparr>wh_Secret := expandEnvRef env (wh_Secret (cf_Webhook c))\<rparr>,
       cf_Cache := (cf_Cache c)\<lparr>ca_AccessToken := expandEnvRef env (ca_AccessToken (cf_Cache c))\<rparr>\<rparr>"

definition unquote :: "string \<Rightarrow> string" where
  "unquote v =
     (if length v \<ge> 2 \<and> ((hd v = CHR 0x22 \<and> last v = CHR 0x22) \<or> (hd v = CHR 0x27 \<and> last v = CHR 0x27))
      then butlast (tl v) else v)"

definition parseDotEnvLine :: "string \<Rightarrow> (string \<times> string) option" where
  "parseDotEnvLine line =
     (let s0 = trimSpace line
      in if s0 = [] \<or> prefix ''#'' s0 then None
         else
           (let s = trimPrefix s0 ''export ''
            in case indexByte s (CHR ''='') of
                 None \<Rightarrow> None
               | Some eq \<Rightarrow>
                   if eq = 0 then None
                   else (let key = trimSpace (take eq s)
                         in if key = [] then None else Some (key, unquote (trimSpace (drop (Suc eq) s))))))"

text \<open>One file: \<open>seen\<close> are the keys of this and earlier files, \<open>env\<close> the process environment.\<close>

fun applyDotEnv ::
  "string list \<Rightarrow> string list \<times> (string \<times> string) list \<Rightarrow> string list \<times> (string \<times> string) list" where
  "applyDotEnv [] (seen, env) = (seen, env)"
| "applyDotEnv (line # ls) (seen, env) =
     applyDotEnv ls
       (case parseDotEnvLine line of
          None \<Rightarrow> (seen, env)
        | Some (key, val) \<Rightarrow>
            if key \<in> set seen then (seen, env)
            else (key # seen, if map_of env key \<noteq> None then env else AList.update key val env))"

definition loadDotEnv :: "string list list \<Rightarrow> (string \<times> string) list \<Rightarrow> (string \<times> string) list" where
  "loadDotEnv files env = snd (fold applyDotEnv files ([], env))"

section \<open>Defaults\<close>

abbreviation orElse :: "string \<Rightarrow> string \<Rightarrow> string" where
  "orElse v d \<equiv> if v = [] then d else v"

abbreviation orInt :: "int \<Rightarrow> int \<Rightarrow> int" where
  "orInt v d \<equiv> if v = 0 then d else v"

definition defaultGitHub :: "github_config \<Rightarrow> github_config" where
  "defaultGitHub g =
     g\<lparr>gc_Owner := trimSpace (gc_Owner g), gc_Repos := map trimSpace (gc_Repos g),
       gc_URL := orElse (gc_URL g) ''https://github.com''\<rparr>"

definition defaultProvisioning :: "config \<Rightarrow> string" where
  "defaultProvisioning c =
     orElse (cf_Provisioning c) (if gc_Scope (cf_GitHub c) = ''repos'' then ''pool'' else ''scaleset'')"

definition defaultWebhook :: "string \<Rightarrow> webhook_config \<Rightarrow> webhook_config" where
  "defaultWebhook prov w =
     (if IsAutoscale prov
      then w\<lparr>wh_Path := orElse (wh_Path w) ''/webhook'', wh_PollIntervalSec := orInt (wh_PollIntervalSec w) 300\<rparr>
      else w)"

definition defaultCache :: "cache_config \<Rightarrow> cache_config" where
  "defaultCache c =
     (if ca_Enabled c
      then c\<lparr>ca_Mode := orElse (ca_Mode c) ''local-server'', ca_Storage := orElse (ca_Storage c) ''filesystem'',
             ca_Listen := orElse (ca_Listen c) ''0.0.0.0:3000'',
             ca_Upstream := orElse (ca_Upstream c) ''https://results-receiver.actions.githubusercontent.com'',
             ca_MaxAgeDays := orInt (ca_MaxAgeDays c) 7, ca_GCIntervalSec := orInt (ca_GCIntervalSec c) 3600\<rparr>
      else c)"

definition defaultGitCache :: "git_cache_config \<Rightarrow> git_cache_config" where
  "defaultGitCache g =
     (if gitCacheEnabled g \<and> gt_MaxAgeDays g = 0 then g\<lparr>gt_MaxAgeDays := 30\<rparr> else g)"

definition defaultDNS :: "string \<Rightarrow> string" where
  "defaultDNS server = (case parseIP server of Some ip \<Rightarrow> ip | None \<Rightarrow> server)"

definition defaultPool :: "string \<Rightarrow> pool_config \<Rightarrow> pool_config" where
  "defaultPool prov p =
     p\<lparr>pc_ScaleSet := (if IsScaleset prov then orElse (pc_ScaleSet p) (pc_Name p) else pc_ScaleSet p),
       pc_Size := orInt (pc_Size p) 1, pc_WorkFolder := orElse (pc_WorkFolder p) ''_work'',
       pc_NamePrefix := orElse (pc_NamePrefix p) ''multirunner'', pc_RunnerGroupID := orInt (pc_RunnerGroupID p) 1,
       pc_ImageTier := orElse (pc_ImageTier p) ''minimal'',
       pc_MaxConsecutiveFailures := orInt (pc_MaxConsecutiveFailures p) 5,
       pc_Container := (pc_Container p)\<lparr>cy_DNS := map defaultDNS (cy_DNS (pc_Container p))\<rparr>\<rparr>"

definition applyDefaults :: "config \<Rightarrow> config" where
  "applyDefaults c =
     (let prov = defaultProvisioning c
      in c\<lparr>cf_GitHub := defaultGitHub (cf_GitHub c), cf_Provisioning := prov,
           cf_Webhook := defaultWebhook prov (cf_Webhook c),
           cf_LogLevel := orElse (cf_LogLevel c) ''info'', cf_LogFormat := orElse (cf_LogFormat c) ''text'',
           cf_Cache := defaultCache (cf_Cache c), cf_GitCache := defaultGitCache (cf_GitCache c),
           cf_Pools := map (defaultPool prov) (cf_Pools c)\<rparr>)"

definition Warnings :: "config \<Rightarrow> string list" where
  "Warnings c =
     (if gc_Scope (cf_GitHub c) = ''repos'' \<and> gc_Repo (cf_GitHub c) \<noteq> []
      then [''github.repo is ignored when scope=repos; use github.repos instead''] else [])
     @ map (\<lambda>p. ''pool '' @ goQuote (pc_Name p) @ '': backend=qemu ignores image/image_tier (it boots the baked golden image); ''
              @ ''bake toolchains into the golden instead (multirunner bake --tools ...)'')
         (filter (\<lambda>p. pc_Backend p = ''qemu''
            \<and> (pc_Image p \<noteq> [] \<or> (pc_ImageTier p \<noteq> [] \<and> pc_ImageTier p \<noteq> ''minimal''))) (cf_Pools c))"

section \<open>Validation\<close>

definition whitespace :: string where
  "whitespace = [CHR '' '', CHR 0x09, CHR 0x0D, CHR 0x0A]"

text \<open>The loop over \<open>github.repos\<close>: the keys seen and, for App auth, the account of the first entry.\<close>

definition repoEntryErr :: "config \<Rightarrow> string list \<Rightarrow> string \<Rightarrow> string \<Rightarrow> gerr option" where
  "repoEntryErr c seen appOwner entry =
     (let parts = splitOn (CHR ''/'') entry; ref = ParseRepoRef entry (gc_Owner (cf_GitHub c)); q = goQuote entry
      in firstErr
        [failIf (length parts > 2 \<or> entry = []) (Leaf (''invalid github.repos entry '' @ q @ '': expected repo or owner/repo'')),
         failIf (list_ex (\<lambda>part. part = [] \<or> trimSpace part \<noteq> part \<or> containsAny part whitespace) parts)
           (Leaf (''invalid github.repos entry '' @ q @ '': owner and repo must be non-empty and contain no whitespace'')),
         failIf (rr_Owner ref = [] \<or> rr_Repo ref = [])
           (Leaf (''github.owner is required (or use owner/repo format) for repos entry '' @ q)),
         failIf (toLower (repoPath ref) \<in> set seen) (Leaf (''duplicate github.repos entry '' @ q)),
         failIf (IsApp (cf_Auth c) \<and> appOwner \<noteq> [] \<and> \<not> equalFold appOwner (rr_Owner ref))
           (Leaf (''scope=repos with GitHub App auth requires every repo to belong to one installation account; ''
              @ goQuote appOwner @ '' and '' @ goQuote (rr_Owner ref) @ '' differ''))])"

fun validateRepos :: "config \<Rightarrow> string list \<Rightarrow> string \<Rightarrow> string list \<Rightarrow> gerr option" where
  "validateRepos c seen appOwner [] = None"
| "validateRepos c seen appOwner (entry # es) =
     (case repoEntryErr c seen appOwner entry of
        Some e \<Rightarrow> Some e
      | None \<Rightarrow>
          (let ref = ParseRepoRef entry (gc_Owner (cf_GitHub c))
           in validateRepos c (toLower (repoPath ref) # seen)
                (if IsApp (cf_Auth c) \<and> appOwner = [] then rr_Owner ref else appOwner) es))"

definition validateScope :: "config \<Rightarrow> gerr option" where
  "validateScope c =
     (let g = cf_GitHub c; sc = gc_Scope g
      in if sc = ''repo'' then
           failIf (gc_Owner g = [] \<or> gc_Repo g = []) (Leaf ''github.owner and github.repo are required for scope=repo'')
         else if sc = ''repos'' then
           (if gc_Repos g = [] then Some (Leaf ''github.repos must list at least one repo for scope=repos'')
            else validateRepos c [] [] (gc_Repos g))
         else if sc = ''org'' \<or> sc = ''enterprise'' then
           failIf (gc_Owner g = []) (Leaf (''github.owner is required for scope='' @ sc))
         else Some (Leaf (''github.scope must be one of repo|repos|org|enterprise, got '' @ goQuote sc)))"

definition validateAuth :: "config \<Rightarrow> gerr option list" where
  "validateAuth c =
     (let a = cf_Auth c; sc = gc_Scope (cf_GitHub c); prov = cf_Provisioning c
      in [failIf (au_PAT a = [] \<and> \<not> IsDeviceApp a \<and> (au_AppID a = 0 \<or> au_InstallationID a = 0 \<or> au_PrivateKeyPath a = []))
            (Leaf ''auth requires one of: pat, (app_id + installation_id + private_key_path), or token_path (device-flow user token)''),
          failIf (IsScaleset prov \<and> sc = ''repos'')
            (Leaf ''provisioning: scaleset cannot serve scope=repos; use scope=repo, org or enterprise, or provisioning: pool''),
          failIf (sc = ''enterprise'' \<and> (IsApp a \<or> IsDeviceApp a))
            (Leaf (''scope=enterprise cannot use GitHub App authentication; ''
              @ ''GitHub does not accept App installation or device-flow user tokens for enterprise runner endpoints. ''
              @ ''Use auth.pat with a classic PAT carrying the manage_runners:enterprise scope'')),
          failIf (sc = ''repos'' \<and> IsDeviceApp a)
            (Leaf ''device authentication supports a single repo or org target; scope=repos requires a PAT or installation App credentials''),
          failIf (prov \<noteq> ''pool'' \<and> \<not> IsAutoscale prov \<and> \<not> IsScaleset prov)
            (Leaf (''provisioning must be pool|autoscale|webhook|scaleset, got '' @ goQuote prov))])"

definition tlsConfigured :: "docker_config \<Rightarrow> bool" where
  "tlsConfigured d = (do_CAFile d \<noteq> [] \<or> do_CertFile d \<noteq> [] \<or> do_KeyFile d \<noteq> [])"

definition dockerBackendPool :: "pool_config \<Rightarrow> bool" where
  "dockerBackendPool p = (pc_Backend p = [] \<or> pc_Backend p = ''docker'')"

definition poolDockerErr :: "manifest \<Rightarrow> pool_config \<Rightarrow> gerr option list" where
  "poolDockerErr m p =
     (let d = pc_Docker p; tls = tlsConfigured d; sw = do_ShareWorkspace d; wf = pc_WorkFolder p
      in [failIf (pc_Backend p = ''qemu'' \<and> pc_Golden p = []) (poolErr p ''.qemu.golden is required for backend: qemu''),
          (if pc_Backend p = ''qemu''
           then map_option (errorf (''pools['' @ goQuote (pc_Name p) @ ''].qemu.tools: '')) (ValidateToolSelectors m (pc_Tools p))
           else None),
          failIf (pc_Backend p \<noteq> ''qemu'' \<and> do_Host d = []) (poolErr p ''.docker.host is required''),
          failIf (tls \<and> \<not> dockerBackendPool p) (poolErr p ''.docker.tls requires the Docker backend''),
          failIf (tls \<and> (do_CAFile d = [] \<or> do_CertFile d = [] \<or> do_KeyFile d = [])) (poolErr p ''.docker.tls requires ca, cert, and key''),
          failIf (tls \<and> \<not> prefix ''tcp://'' (toLower (do_Host d))) (poolErr p ''.docker.tls requires a tcp:// docker.host''),
          failIf (sw \<and> \<not> do_EnableDinD d) (poolErr p ''.docker.share_workspace requires enable_dind''),
          failIf (sw \<and> (pc_OS p \<noteq> ''linux'' \<or> \<not> dockerBackendPool p)) (poolErr p ''.docker.share_workspace requires the Linux Docker backend''),
          failIf (sw \<and> (wf = ''.'' \<or> wf = ''..'' \<or> trimSpace wf \<noteq> wf \<or> containsAny wf [CHR ''/'', CHR 0x5C]))
            (poolErr p ''.work_folder must be one relative directory name when docker.share_workspace is enabled''),
          failIf (sw \<and> pc_Size p \<noteq> 1) (poolErr p ''.docker.share_workspace requires size: 1'')])"

definition poolRepositoryErr :: "config \<Rightarrow> pool_config \<Rightarrow> gerr option list" where
  "poolRepositoryErr c p =
     (if pc_Repository p = [] then []
      else
        (let repo = pc_Repository p; parts = splitOn (CHR ''/'') repo; targets = RepoTargets (cf_GitHub c)
         in [failIf (length parts \<noteq> 2 \<or> parts ! 0 = [] \<or> parts ! 1 = [] \<or> trimSpace repo \<noteq> repo \<or> containsAny repo whitespace)
               (poolErr p ''.repository must be owner/repo without whitespace''),
             failIf (\<not> IsAutoscale (cf_Provisioning c)) (poolErr p ''.repository requires provisioning: autoscale''),
             failIf (targets \<noteq> [] \<and> \<not> list_ex (\<lambda>r. equalFold repo (repoPath r)) targets)
               (poolErr p (''.repository '' @ goQuote repo @ '' is not managed by github scope'')),
             failIf (targets = [] \<and> gc_Scope (cf_GitHub c) = ''org'' \<and> \<not> equalFold (parts ! 0) (gc_Owner (cf_GitHub c)))
               (poolErr p (''.repository '' @ goQuote repo @ '' is outside github organization '' @ goQuote (gc_Owner (cf_GitHub c))))]))"

definition validWorkflowPath :: "string \<Rightarrow> bool" where
  "validWorkflowPath w =
     (prefix ''.github/workflows/'' w \<and> (suffix ''.yml'' w \<or> suffix ''.yaml'' w)
      \<and> \<not> contains w ''..'' \<and> \<not> containsAny w (whitespace @ ''@''))"

definition workflowErr :: "pool_config \<Rightarrow> string list \<Rightarrow> string \<Rightarrow> gerr option" where
  "workflowErr p seen w = firstErr
     [failIf (\<not> validWorkflowPath w) (poolErr p (''.workflows contains invalid workflow path '' @ goQuote w)),
      failIf (w \<in> set seen) (poolErr p (''.workflows repeats '' @ goQuote w))]"

definition poolWorkflowErr :: "pool_config \<Rightarrow> gerr option list" where
  "poolWorkflowErr p =
     (if pc_Workflows p = [] \<and> pc_WorkflowEvent p = [] \<and> pc_WorkflowActor p = [] \<and> pc_WorkflowRef p = [] then []
      else
        [failIf (pc_Repository p = []) (poolErr p ''.workflows requires repository''),
         failIf (pc_Workflows p = [] \<or> pc_WorkflowEvent p = [] \<or> pc_WorkflowActor p = [] \<or> pc_WorkflowRef p = [])
           (poolErr p '' workflow authorization requires workflows, workflow_event, workflow_actor, and workflow_ref''),
         eachSeen (workflowErr p) id [] (pc_Workflows p),
         failIf (containsAny (pc_WorkflowEvent p) whitespace) (poolErr p ''.workflow_event must not contain whitespace''),
         failIf (containsAny (pc_WorkflowActor p) (whitespace @ ''/'')) (poolErr p ''.workflow_actor must be one GitHub login''),
         failIf (containsAny (pc_WorkflowRef p) whitespace) (poolErr p ''.workflow_ref must not contain whitespace'')])"

definition validatePool :: "manifest \<Rightarrow> config \<Rightarrow> string list \<Rightarrow> nat \<Rightarrow> pool_config \<Rightarrow> gerr option" where
  "validatePool m c seen i p = firstErr
     ([failIf (pc_Name p = []) (Leaf (''pools['' @ natDigits i @ ''].name is required'')),
       failIf (pc_Name p \<in> set seen) (Leaf (''duplicate pool name '' @ goQuote (pc_Name p))),
       failIf (pc_OS p \<noteq> ''linux'' \<and> pc_OS p \<noteq> ''windows'') (poolErr p (''.os must be linux|windows, got '' @ goQuote (pc_OS p)))]
      @ poolDockerErr m p
      @ [failIf (pc_Size p < 1) (poolErr p ''.size must be >= 1'')]
      @ poolRepositoryErr c p @ poolWorkflowErr p
      @ [validateContainerConfig p,
         failIf (IsScaleset (cf_Provisioning c) \<and> pc_ScaleSet p = []) (poolErr p ''.scale_set is required for provisioning: scaleset''),
         validateImageTier m p])"

fun validatePools :: "manifest \<Rightarrow> config \<Rightarrow> string list \<Rightarrow> nat \<Rightarrow> pool_config list \<Rightarrow> gerr option" where
  "validatePools m c seen i [] = None"
| "validatePools m c seen i (p # ps) =
     (case validatePool m c seen i p of
        Some e \<Rightarrow> Some e
      | None \<Rightarrow> validatePools m c (pc_Name p # seen) (Suc i) ps)"

text \<open>Two pools must not share a key: the previous pool under the key is named in the error.\<close>

fun sharedKey :: "(pool_config \<Rightarrow> string) \<Rightarrow> (string \<Rightarrow> pool_config \<Rightarrow> gerr) \<Rightarrow> (string \<times> string) list \<Rightarrow> pool_config list \<Rightarrow> gerr option" where
  "sharedKey key msg prev [] = None"
| "sharedKey key msg prev (p # ps) =
     (case map_of prev (key p) of
        Some q \<Rightarrow> Some (msg q p)
      | None \<Rightarrow> sharedKey key msg ((key p, pc_Name p) # prev) ps)"

definition workspaceKey :: "pool_config \<Rightarrow> string" where
  "workspaceKey p = toLower (do_Host (pc_Docker p)) @ [CHR 0x00] @ toLower (pc_WorkFolder p)"

definition bothPools :: "string \<Rightarrow> pool_config \<Rightarrow> string" where
  "bothPools q p = ''pools['' @ goQuote q @ ''] and pools['' @ goQuote (pc_Name p) @ ''] share ''"

definition ExamplePoolYAML :: string where
  "ExamplePoolYAML =
     ''pools:'' @ newline @ ''  - name: linux-pool'' @ newline @ ''    os: linux'' @ newline @ ''    size: 2'' @ newline
     @ ''    labels: [self-hosted, linux, x64]'' @ newline @ ''    docker:'' @ newline
     @ ''      host: '' @ goQuote ''tcp://127.0.0.1:2375'' @ newline"

definition Validate :: "manifest \<Rightarrow> config \<Rightarrow> gerr option" where
  "Validate m c = firstErr
     ([validateScope c] @ validateAuth c
      @ [failIf (cf_Pools c = [])
           (Leaf (''at least one pool is required; `connect` writes credentials only. Add one, for example:''
              @ newline @ newline @ ExamplePoolYAML)),
         validatePools m c [] 0 (cf_Pools c),
         sharedKey workspaceKey
           (\<lambda>q p. Leaf (bothPools q p @ ''docker.host '' @ goQuote (do_Host (pc_Docker p)) @ '' and work_folder ''
              @ goQuote (pc_WorkFolder p) @ '' with docker.share_workspace enabled''))
           [] (filter (\<lambda>p. do_ShareWorkspace (pc_Docker p)) (cf_Pools c)),
         (if IsScaleset (cf_Provisioning c)
          then sharedKey pc_ScaleSet
            (\<lambda>q p. Leaf (bothPools q p @ ''scale_set '' @ goQuote (pc_ScaleSet p) @ ''; each pool needs its own'')) [] (cf_Pools c)
          else None)])"

text \<open>\<open>Load\<close> after decoding.\<close>

definition Load :: "manifest \<Rightarrow> (string \<times> string) list \<Rightarrow> config \<Rightarrow> gerr + config" where
  "Load m env c =
     (let c1 = applyDefaults (resolveSecrets env c)
      in case Validate m c1 of Some e \<Rightarrow> Inl e | None \<Rightarrow> Inr c1)"

section \<open>What a loaded configuration guarantees\<close>

lemma validatePools_each:
  "validatePools m c seen i ps = None \<Longrightarrow> p \<in> set ps \<Longrightarrow> \<exists>seen' j. validatePool m c seen' j p = None"
  by (induction ps arbitrary: seen i) (auto split: option.splits)

lemma validatePools_distinct:
  "validatePools m c seen i ps = None \<Longrightarrow> distinct (map pc_Name ps) \<and> set (map pc_Name ps) \<inter> set seen = {}"
proof (induction ps arbitrary: seen i)
  case (Cons p ps)
  then have 1: "validatePool m c seen i p = None" and 2: "validatePools m c (pc_Name p # seen) (Suc i) ps = None"
    by (auto split: option.splits)
  have "pc_Name p \<notin> set seen" using 1 by (auto simp: validatePool_def split: if_splits)
  then show ?case using Cons.IH[OF 2] by auto
qed simp

lemma sharedKey_distinct:
  "sharedKey key msg prev ps = None \<Longrightarrow> distinct (map key ps) \<and> key ` set ps \<inter> fst ` set prev = {}"
proof (induction ps arbitrary: prev)
  case (Cons p ps)
  then have n: "map_of prev (key p) = None" and "sharedKey key msg ((key p, pc_Name p) # prev) ps = None"
    by (auto split: option.splits)
  from Cons.IH[OF this(2)] show ?case using n by (auto simp: map_of_eq_None_iff)
qed simp

lemma ValidateD:
  assumes "Validate m c = None"
  shows "validateScope c = None" "\<forall>e \<in> set (validateAuth c). e = None" "cf_Pools c \<noteq> []"
    "validatePools m c [] 0 (cf_Pools c) = None"
    "distinct (map workspaceKey (filter (\<lambda>p. do_ShareWorkspace (pc_Docker p)) (cf_Pools c)))"
    "IsScaleset (cf_Provisioning c) \<Longrightarrow> distinct (map pc_ScaleSet (cf_Pools c))"
  using assms by (auto simp: Validate_def ball_Un dest: sharedKey_distinct split: if_splits)

lemma validatePoolD:
  assumes "validatePool m c seen i p = None"
  shows "pc_Name p \<noteq> []" "1 \<le> pc_Size p" "\<forall>e \<in> set (poolDockerErr m p). e = None"
    "\<forall>e \<in> set (poolRepositoryErr c p). e = None" "\<forall>e \<in> set (poolWorkflowErr p). e = None"
    "validateContainerConfig p = None" "validateImageTier m p = None"
    "IsScaleset (cf_Provisioning c) \<Longrightarrow> pc_ScaleSet p \<noteq> []"
  using assms by (auto simp: validatePool_def ball_Un split: if_splits)

lemma LoadD: "Load m env c = Inr c' \<Longrightarrow> Validate m c' = None"
  by (auto simp: Load_def Let_def split: option.splits)

lemma loaded_pool:
  assumes "Load m env c = Inr c'" and "p \<in> set (cf_Pools c')"
  shows "\<exists>seen i. validatePool m c' seen i p = None"
  using validatePools_each[OF ValidateD(4)[OF LoadD[OF assms(1)]] assms(2)] .

text \<open>C36: Identity. In a loaded configuration there is a pool, the pool names are distinct and none is
  empty, every pool has room for a runner, pools that share their workspace with a daemon do
  not share it with each other, and under scale-set provisioning every pool has a scale set
  of its own and the scope is one a scale set can serve.\<close>

theorem loaded_pools_are_distinct:
  assumes "Load m env c = Inr c'"
  shows "cf_Pools c' \<noteq> [] \<and> distinct (map pc_Name (cf_Pools c'))
    \<and> (\<forall>p \<in> set (cf_Pools c'). pc_Name p \<noteq> [] \<and> 1 \<le> pc_Size p)
    \<and> distinct (map workspaceKey (filter (\<lambda>p. do_ShareWorkspace (pc_Docker p)) (cf_Pools c')))
    \<and> (IsScaleset (cf_Provisioning c') \<longrightarrow> gc_Scope (cf_GitHub c') \<noteq> ''repos''
        \<and> distinct (map pc_ScaleSet (cf_Pools c')) \<and> (\<forall>p \<in> set (cf_Pools c'). pc_ScaleSet p \<noteq> []))"
proof -
  note v = LoadD[OF assms] and each = loaded_pool[OF assms]
  have "\<forall>p \<in> set (cf_Pools c'). pc_Name p \<noteq> [] \<and> 1 \<le> pc_Size p
      \<and> (IsScaleset (cf_Provisioning c') \<longrightarrow> pc_ScaleSet p \<noteq> [])"
    using each validatePoolD(1,2,8) by blast
  moreover have "IsScaleset (cf_Provisioning c') \<Longrightarrow> gc_Scope (cf_GitHub c') \<noteq> ''repos''"
    using ValidateD(2)[OF v] by (auto simp: validateAuth_def Let_def split: if_splits)
  ultimately show ?thesis
    using ValidateD(3,5,6)[OF v] validatePools_distinct[OF ValidateD(4)[OF v]] by simp
qed

text \<open>C37: Limits. The container limits of a loaded configuration reach the backend unchanged: the
  64-bit products of CPUs and nanoseconds and of MiB and bytes do not wrap around.\<close>

theorem loaded_limits_do_not_overflow:
  assumes "Load m env c = Inr c'" and "p \<in> set (cf_Pools c')"
  shows "NanoCPUs (pc_Container p) = cy_CPUs (pc_Container p) * 1000000000
    \<and> MemoryBytes (pc_Container p) = cy_MemoryMB (pc_Container p) * 1048576
    \<and> MemorySwapBytes (pc_Container p) = cy_MemorySwapMB (pc_Container p) * 1048576
    \<and> 0 \<le> MemoryBytes (pc_Container p)
    \<and> (MemorySwapBytes (pc_Container p) \<noteq> 0 \<longrightarrow> MemoryBytes (pc_Container p) \<le> MemorySwapBytes (pc_Container p))"
proof -
  obtain seen i where "validatePool m c' seen i p = None" using loaded_pool[OF assms] by blast
  then have "validateContainerConfig p = None" by (rule validatePoolD)
  then have b: "0 \<le> cy_CPUs (pc_Container p)" "cy_CPUs (pc_Container p) \<le> maxCPUCount"
    "0 \<le> cy_MemoryMB (pc_Container p)" "cy_MemoryMB (pc_Container p) \<le> maxMemoryMiB"
    "0 \<le> cy_MemorySwapMB (pc_Container p)" "cy_MemorySwapMB (pc_Container p) \<le> maxMemoryMiB"
    "cy_MemorySwapMB (pc_Container p) \<noteq> 0 \<Longrightarrow> cy_MemoryMB (pc_Container p) \<le> cy_MemorySwapMB (pc_Container p)"
    by (auto simp: validateContainerConfig_def Let_def split: if_splits)
  have "wrap64 (x * k) = x * k" if "0 \<le> x" "x \<le> maxInt64 div k" "0 < k" for x k :: int
  proof -
    have "x * k \<le> maxInt64 div k * k" using that by (intro mult_right_mono) auto
    also have "\<dots> \<le> maxInt64" using div_mult_mod_eq[of maxInt64 k] pos_mod_sign[OF that(3), of maxInt64] by linarith
    finally have "x * k < 2 ^ 63" by (simp add: maxInt64_def)
    moreover have "0 \<le> x * k" using that by simp
    ultimately show ?thesis by (intro wrap64_id) simp_all
  qed
  then show ?thesis using b
    by (simp add: NanoCPUs_def MemoryBytes_def MemorySwapBytes_def maxCPUCount_def maxMemoryMiB_def
        nanosPerCPU_def bytesPerMiB_def)
qed

lemma eachSeen_None:
  "eachSeen chk key seen xs = None \<Longrightarrow> x \<in> set xs \<Longrightarrow> \<exists>seen'. chk seen' x = None"
  by (induction xs arbitrary: seen) (auto split: option.splits)


section \<open>The tier pattern\<close>

definition tierWord :: "string \<Rightarrow> bool" where
  "tierWord w = (w \<noteq> [] \<and> list_all tierChar w)"

definition tierSep :: "string \<Rightarrow> bool" where
  "tierSep s = (s = ''.'' \<or> s = ''_'' \<or> s = ''__'' \<or> (s \<noteq> [] \<and> list_all (\<lambda>c. c = CHR ''-'') s))"

definition tierTail :: "string \<Rightarrow> bool" where
  "tierTail s = (\<exists>rest. list_all (\<lambda>(sep, v). tierSep sep \<and> tierWord v) rest \<and> s = concat (map (\<lambda>(sep, v). sep @ v) rest))"

text \<open>The language each state still accepts.\<close>

fun tierAccepts :: "tier_state \<Rightarrow> string \<Rightarrow> bool" where
  "tierAccepts TReject s = False"
| "tierAccepts TStart s = (\<exists>w t. tierWord w \<and> tierTail t \<and> s = w @ t)"
| "tierAccepts TWord s = (\<exists>w t. list_all tierChar w \<and> tierTail t \<and> s = w @ t)"
| "tierAccepts TDot s = (\<exists>w t. tierWord w \<and> tierTail t \<and> s = w @ t)"
| "tierAccepts TUnder s = (\<exists>u w t. u \<in> {[], ''_''} \<and> tierWord w \<and> tierTail t \<and> s = u @ w @ t)"
| "tierAccepts TUnder2 s = (\<exists>w t. tierWord w \<and> tierTail t \<and> s = w @ t)"
| "tierAccepts THyphen s = (\<exists>u w t. list_all (\<lambda>c. c = CHR ''-'') u \<and> tierWord w \<and> tierTail t \<and> s = u @ w @ t)"

declare tierAccepts.simps [simp del]

lemma tierChar_seps [simp]:
  "\<not> tierChar (CHR ''.'')" "\<not> tierChar (CHR ''_'')" "\<not> tierChar (CHR ''-'')"
  by (simp_all add: tierChar_def isDigit_def)

lemma tierTail_cases:
  "tierTail s \<longleftrightarrow> s = [] \<or> (\<exists>sep v t. tierSep sep \<and> tierWord v \<and> tierTail t \<and> s = sep @ v @ t)"
proof
  assume "tierTail s"
  then obtain rest where r: "list_all (\<lambda>(sep, v). tierSep sep \<and> tierWord v) rest" "s = concat (map (\<lambda>(sep, v). sep @ v) rest)"
    unfolding tierTail_def by blast
  show "s = [] \<or> (\<exists>sep v t. tierSep sep \<and> tierWord v \<and> tierTail t \<and> s = sep @ v @ t)"
  proof (cases rest)
    case (Cons x xs)
    then show ?thesis using r unfolding tierTail_def by (cases x) auto
  qed (use r in simp)
next
  assume "s = [] \<or> (\<exists>sep v t. tierSep sep \<and> tierWord v \<and> tierTail t \<and> s = sep @ v @ t)"
  then show "tierTail s"
  proof
    assume "s = []" then show ?thesis unfolding tierTail_def by (intro exI[of _ "[]"]) simp
  next
    assume "\<exists>sep v t. tierSep sep \<and> tierWord v \<and> tierTail t \<and> s = sep @ v @ t"
    then obtain sep v rest where "tierSep sep" "tierWord v" "list_all (\<lambda>(sep, v). tierSep sep \<and> tierWord v) rest"
      "s = sep @ v @ concat (map (\<lambda>(sep, v). sep @ v) rest)" unfolding tierTail_def by blast
    then show ?thesis unfolding tierTail_def by (intro exI[of _ "(sep, v) # rest"]) simp
  qed
qed

lemma word_Cons:
  "(\<exists>w t. tierWord w \<and> tierTail t \<and> c # s = w @ t) \<longleftrightarrow> tierChar c \<and> tierAccepts TWord s"
proof
  assume "\<exists>w t. tierWord w \<and> tierTail t \<and> c # s = w @ t"
  then obtain w t where w: "tierWord w" "tierTail t" "c # s = w @ t" by blast
  then obtain w' where "w = c # w'" "s = w' @ t" by (cases w) (auto simp: tierWord_def)
  then show "tierChar c \<and> tierAccepts TWord s" using w unfolding tierAccepts.simps tierWord_def by auto
next
  assume "tierChar c \<and> tierAccepts TWord s"
  then obtain w t where "tierChar c" "list_all tierChar w" "tierTail t" "s = w @ t" unfolding tierAccepts.simps by blast
  then have "tierWord (c # w)" "tierTail t" "c # s = (c # w) @ t" by (simp_all add: tierWord_def)
  then show "\<exists>w t. tierWord w \<and> tierTail t \<and> c # s = w @ t" by blast
qed

text \<open>What a separator starting with \<open>c\<close> may be.\<close>

lemma tierSep_Cons:
  "tierSep (c # u) \<longleftrightarrow> (c = CHR ''.'' \<and> u = []) \<or> (c = CHR ''_'' \<and> u \<in> {[], ''_''})
     \<or> (c = CHR ''-'' \<and> list_all (\<lambda>x. x = CHR ''-'') u)"
  by (auto simp: tierSep_def)

lemma tail_Cons:
  "tierTail (c # s) \<longleftrightarrow> (c = CHR ''.'' \<and> tierAccepts TDot s) \<or> (c = CHR ''_'' \<and> tierAccepts TUnder s)
     \<or> (c = CHR ''-'' \<and> tierAccepts THyphen s)"
proof -
  have "tierTail (c # s) \<longleftrightarrow> (\<exists>u v t. tierSep (c # u) \<and> tierWord v \<and> tierTail t \<and> s = u @ v @ t)" (is "_ \<longleftrightarrow> ?R")
  proof
    assume "tierTail (c # s)"
    then obtain sep v t where sep: "tierSep sep" "tierWord v" "tierTail t" "c # s = sep @ v @ t"
      using tierTail_cases[of "c # s"] by blast
    then obtain u where "sep = c # u" "s = u @ v @ t" by (cases sep) (auto simp: tierSep_def)
    then show ?R using sep by blast
  next
    assume ?R
    then obtain u v t where "tierSep (c # u)" "tierWord v" "tierTail t" "c # s = (c # u) @ v @ t" by auto
    then show "tierTail (c # s)" using tierTail_cases[of "c # s"] by blast
  qed
  then show ?thesis unfolding tierSep_Cons tierAccepts.simps by (metis append_Nil)
qed

lemma under_Cons:
  "tierAccepts TUnder (c # s) \<longleftrightarrow> (tierChar c \<and> tierAccepts TWord s) \<or> (c = CHR ''_'' \<and> tierAccepts TUnder2 s)"
proof -
  have "tierAccepts TUnder (c # s) \<longleftrightarrow> (\<exists>w t. tierWord w \<and> tierTail t \<and> c # s = w @ t)
      \<or> (\<exists>w t. tierWord w \<and> tierTail t \<and> c # s = ''_'' @ w @ t)"
    unfolding tierAccepts.simps by (metis append_Nil insert_iff singletonD)
  also have "\<dots> \<longleftrightarrow> (tierChar c \<and> tierAccepts TWord s) \<or> (c = CHR ''_'' \<and> tierAccepts TUnder2 s)"
    unfolding word_Cons unfolding tierAccepts.simps by auto
  finally show ?thesis .
qed

lemma hyphen_Cons:
  "tierAccepts THyphen (c # s) \<longleftrightarrow> (tierChar c \<and> tierAccepts TWord s) \<or> (c = CHR ''-'' \<and> tierAccepts THyphen s)"
proof
  assume "tierAccepts THyphen (c # s)"
  then obtain u w t where u: "list_all (\<lambda>c. c = CHR ''-'') u" "tierWord w" "tierTail t" "c # s = u @ w @ t"
    unfolding tierAccepts.simps by blast
  show "(tierChar c \<and> tierAccepts TWord s) \<or> (c = CHR ''-'' \<and> tierAccepts THyphen s)"
  proof (cases u)
    case Nil then show ?thesis using u word_Cons[of c s] by auto
  next
    case (Cons x u') then show ?thesis using u unfolding tierAccepts.simps by auto
  qed
next
  assume "(tierChar c \<and> tierAccepts TWord s) \<or> (c = CHR ''-'' \<and> tierAccepts THyphen s)"
  then show "tierAccepts THyphen (c # s)"
  proof
    assume "tierChar c \<and> tierAccepts TWord s"
    then obtain w t where "tierWord w" "tierTail t" "c # s = [] @ w @ t" using word_Cons[of c s] by auto
    then show ?thesis unfolding tierAccepts.simps by (metis list.pred_inject(1))
  next
    assume "c = CHR ''-'' \<and> tierAccepts THyphen s"
    then obtain u w t where "list_all (\<lambda>c. c = CHR ''-'') (c # u)" "tierWord w" "tierTail t" "c # s = (c # u) @ w @ t"
      unfolding tierAccepts.simps by auto
    then show ?thesis unfolding tierAccepts.simps by blast
  qed
qed

lemma word_state_Cons:
  "tierAccepts TWord (c # s) \<longleftrightarrow> (tierChar c \<and> tierAccepts TWord s) \<or> tierTail (c # s)"
proof
  assume "tierAccepts TWord (c # s)"
  then obtain w t where "list_all tierChar w" "tierTail t" "c # s = w @ t" unfolding tierAccepts.simps by blast
  then show "(tierChar c \<and> tierAccepts TWord s) \<or> tierTail (c # s)"
    by (cases w) (auto simp: tierAccepts.simps(3))
next
  assume "(tierChar c \<and> tierAccepts TWord s) \<or> tierTail (c # s)"
  then show "tierAccepts TWord (c # s)"
  proof
    assume "tierChar c \<and> tierAccepts TWord s"
    then obtain w t where "list_all tierChar (c # w)" "tierTail t" "c # s = (c # w) @ t"
      unfolding tierAccepts.simps by auto
    then show ?thesis unfolding tierAccepts.simps by blast
  next
    assume "tierTail (c # s)"
    then have "list_all tierChar []" "tierTail (c # s)" "c # s = [] @ (c # s)" by simp_all
    then show ?thesis unfolding tierAccepts.simps by blast
  qed
qed

lemma tierAccepts_Cons: "tierAccepts q (c # s) = tierAccepts (tierStep q c) s"
proof -
  have r: "\<not> tierAccepts TReject s" for s by (simp add: tierAccepts.simps(1))
  have w: "tierAccepts TStart (c # s) = (tierChar c \<and> tierAccepts TWord s)"
    "tierAccepts TDot (c # s) = (tierChar c \<and> tierAccepts TWord s)"
    "tierAccepts TUnder2 (c # s) = (tierChar c \<and> tierAccepts TWord s)"
    using word_Cons[of c s] unfolding tierAccepts.simps by blast+
  show ?thesis
    using r w word_state_Cons[of c s] tail_Cons[of c s] under_Cons[of c s] hyphen_Cons[of c s]
    by (cases q) auto
qed

lemma tierAccepts_Nil: "tierAccepts q [] \<longleftrightarrow> q = TWord"
proof -
  have "tierTail []" using tierTail_cases[of "[]"] by simp
  then show ?thesis by (cases q) (auto simp: tierWord_def tierAccepts.simps)
qed

lemma foldl_tierStep: "foldl tierStep q s = TWord \<longleftrightarrow> tierAccepts q s"
  by (induction s arbitrary: q) (simp_all add: tierAccepts_Cons tierAccepts_Nil)


section \<open>The environment file\<close>

lemma applyDotEnv_keeps:
  "map_of env k = Some v \<Longrightarrow> map_of (snd (applyDotEnv ls (seen, env))) k = Some v"
proof (induction ls arbitrary: seen env)
  case (Cons line ls)
  obtain seen' env' where step: "(case parseDotEnvLine line of None \<Rightarrow> (seen, env)
      | Some (key, val) \<Rightarrow> if key \<in> set seen then (seen, env)
          else (key # seen, if map_of env key \<noteq> None then env else AList.update key val env)) = (seen', env')"
    by fastforce
  then have "map_of env' k = Some v" using Cons.prems by (auto split: option.splits if_splits)
  then show ?case using Cons.IH step by simp
qed simp

text \<open>A variable the user exported is never overridden by an environment file.\<close>

theorem exported_variables_win:
  assumes "map_of env k = Some v"
  shows "map_of (loadDotEnv files env) k = Some v"
proof -
  have "map_of (snd p) k = Some v \<Longrightarrow> map_of (snd (fold applyDotEnv files p)) k = Some v" for p
  proof (induction files arbitrary: p)
    case (Cons f fs)
    then show ?case using applyDotEnv_keeps[of "snd p" k v f "fst p"] by simp
  qed simp
  then show ?thesis using assms by (simp add: loadDotEnv_def)
qed

section \<open>A concrete configuration\<close>

definition demoPool :: "string \<Rightarrow> pool_config" where
  "demoPool name =
     \<lparr>pc_Name = name, pc_OS = ''linux'', pc_Backend = [], pc_Size = 2, pc_ImageTier = [], pc_Image = [],
      pc_Container = \<lparr>cy_CPUs = 2, cy_MemoryMB = 512, cy_MemorySwapMB = 1024, cy_DNS = []\<rparr>,
      pc_Golden = [], pc_Tools = [], pc_RunnerGroupID = 0, pc_Labels = [''linux''], pc_Repository = ''acme/app'',
      pc_Workflows = [''.github/workflows/ci.yml''], pc_WorkflowEvent = ''push'', pc_WorkflowActor = ''bob'',
      pc_WorkflowRef = ''main'', pc_WorkFolder = [], pc_NamePrefix = [],
      pc_Docker = \<lparr>do_Host = ''unix:///d'', do_CAFile = [], do_CertFile = [], do_KeyFile = [], do_EnableDinD = False,
        do_ShareWorkspace = False, do_Isolation = [], do_WindowsDinD = []\<rparr>,
      pc_MaxConsecutiveFailures = 0, pc_ScaleSet = [], pc_RunnerGroup = []\<rparr>"

definition demoConfig :: config where
  "demoConfig =
     \<lparr>cf_GitHub = \<lparr>gc_URL = [], gc_Scope = ''repo'', gc_Owner = ''acme'', gc_Repo = ''app'', gc_Repos = []\<rparr>,
      cf_Auth = \<lparr>au_PAT = ''${TOKEN}'', au_AppID = 0, au_InstallationID = 0, au_PrivateKeyPath = [], au_ClientID = [], au_TokenPath = []\<rparr>,
      cf_Provisioning = ''autoscale'',
      cf_Cache = \<lparr>ca_Enabled = True, ca_Mode = [], ca_Storage = [], ca_Path = [], ca_Listen = [], ca_AdvertiseURL = [],
        ca_ExternalURL = [], ca_AccessToken = [], ca_Upstream = [], ca_MaxAgeDays = 0, ca_MaxSizeGB = 0, ca_GCIntervalSec = 0\<rparr>,
      cf_GitCache = \<lparr>gt_Mode = [], gt_Path = [], gt_MaxAgeDays = 0\<rparr>,
      cf_Webhook = \<lparr>wh_Listen = [], wh_Path = [], wh_Secret = [], wh_PollIntervalSec = 0\<rparr>, cf_MetricsListen = [],
      cf_Pools = [demoPool ''a'', demoPool ''b''], cf_LogLevel = [], cf_LogFormat = []\<rparr>"

definition demoLoaded :: config where
  "demoLoaded = applyDefaults (resolveSecrets [(''TOKEN'', ''ghp'')] demoConfig)"

lemma demo_Load: "Load demoManifest [(''TOKEN'', ''ghp'')] demoConfig = Inr demoLoaded"
proof -
  have "validateScope demoLoaded = None" "list_all (\<lambda>e. e = None) (validateAuth demoLoaded)" "cf_Pools demoLoaded \<noteq> []"
    "\<not> IsScaleset (cf_Provisioning demoLoaded)"
    "filter (\<lambda>p. do_ShareWorkspace (pc_Docker p)) (cf_Pools demoLoaded) = []" by code_simp+
  moreover have "validatePools demoManifest demoLoaded [] 0 (cf_Pools demoLoaded) = None"
    by code_simp
  ultimately have "Validate demoManifest demoLoaded = None"
    by (simp add: Validate_def list_all_iff ball_Un)
  then show ?thesis by (simp add: Load_def demoLoaded_def)
qed

definition demoLoadedPool :: pool_config where
  "demoLoadedPool = defaultPool ''autoscale'' (demoPool ''a'')"

lemma demoLoadedPool_mem: "demoLoadedPool \<in> set (cf_Pools demoLoaded)"
  by (simp add: demoLoadedPool_def demoLoaded_def applyDefaults_def resolveSecrets_def demoConfig_def
      defaultProvisioning_def Let_def)

theorem loaded_pools_are_distinct_witness:
  "distinct (map pc_Name (cf_Pools demoLoaded)) \<and> map pc_Name (cf_Pools demoLoaded) = [''a'', ''b'']"
proof -
  have "map pc_Name (cf_Pools demoLoaded) = [''a'', ''b'']" by code_simp
  then show ?thesis using loaded_pools_are_distinct[OF demo_Load] by blast
qed

theorem loaded_limits_do_not_overflow_witness:
  "MemoryBytes (pc_Container demoLoadedPool) = 536870912"
proof -
  have "cy_MemoryMB (pc_Container demoLoadedPool) = 512" by (simp add: demoLoadedPool_def defaultPool_def demoPool_def)
  then show ?thesis using loaded_limits_do_not_overflow[OF demo_Load demoLoadedPool_mem] by simp
qed


theorem exported_variables_win_witness:
  "map_of (loadDotEnv [[''export TOKEN=other'']] [(''TOKEN'', ''ghp'')]) ''TOKEN'' = Some ''ghp''"
  using exported_variables_win[of "[(''TOKEN'', ''ghp'')]" "''TOKEN''" "''ghp''" "[[''export TOKEN=other'']]"] by simp

end
