(* ===== verification/Github.thy ===== *)
theory Github
  imports Config "HOL-Library.Signed_Division" "HOL-Library.Multiset"
begin

text \<open>
  The GitHub client (\<open>internal/github/client.go\<close>, \<open>provider.go\<close>): which host may receive the
  credentials, the REST paths, registration and deregistration of runners, the paginated search
  for queued jobs, and the two client providers (one client, or one client per repository).

  The \<open>go-github\<close> package is the record \<open>gh\<close>: each field is one of its calls, threading the state
  \<open>'w\<close> of the outside world. A reply carries the HTTP status when a response was received. The
  transports are modelled at the request they put on the wire: scheme, host and the
  \<open>Authorization\<close> header. A pagination loop runs as long as the server names a next page, so it
  takes fuel; \<open>None\<close> means the fuel ran out.
\<close>

section \<open>Credentials and origins\<close>

record request =
  rq_scheme :: string
  rq_host :: string
  rq_auth :: "string option"

definition isDotCom :: "string \<Rightarrow> bool" where
  "isDotCom rawURL =
     (if rawURL = [] then True
      else case parseURL rawURL of
             None \<Rightarrow> False
           | Some u \<Rightarrow>
               (let host = toLower (ur_host u)
                in host = ''github.com'' \<or> host = ''www.github.com'' \<or> host = []))"

definition apiOrigin :: "string \<Rightarrow> gerr + string" where
  "apiOrigin ghURL =
     (if isDotCom ghURL then Inr ''https://api.github.com''
      else
        (let bad = Inl (Leaf (''github.url '' @ goQuote ghURL @ '' is not a valid URL''))
         in case parseURL (trimRight ghURL ''/'') of
              None \<Rightarrow> bad
            | Some u \<Rightarrow>
                if ur_scheme u = [] \<or> ur_host u = [] then bad
                else Inr (toLower (ur_scheme u @ ''://'' @ ur_host u))))"

definition sameOrigin :: "request \<Rightarrow> string \<Rightarrow> bool" where
  "sameOrigin req origin = equalFold (rq_scheme req @ ''://'' @ rq_host req) origin"

text \<open>
  The three transports. \<open>InstallationTransport\<close> is \<open>originTransport\<close> around \<open>ghinstallation\<close>, which
  attaches a token to every request it is given; its first component is that package's API base.
\<close>

datatype transport =
    PatTransport string string
  | DeviceTransport string
  | InstallationTransport string string

datatype wire = OverDefault request | OverInstallation request

definition patRoundTrip :: "string \<Rightarrow> string \<Rightarrow> request \<Rightarrow> wire" where
  "patRoundTrip token origin req =
     (if \<not> sameOrigin req origin then OverDefault (req\<lparr>rq_auth := None\<rparr>)
      else OverDefault (req\<lparr>rq_auth := Some (''Bearer '' @ token)\<rparr>))"

definition deviceRoundTrip :: "(gerr + string) \<Rightarrow> string \<Rightarrow> request \<Rightarrow> gerr + wire" where
  "deviceRoundTrip access origin req =
     (if \<not> sameOrigin req origin then Inr (OverDefault (req\<lparr>rq_auth := None\<rparr>))
      else case access of
             Inl e \<Rightarrow> Inl e
           | Inr token \<Rightarrow> Inr (OverDefault (req\<lparr>rq_auth := Some (''Bearer '' @ token)\<rparr>)))"

definition originRoundTrip :: "string \<Rightarrow> request \<Rightarrow> wire" where
  "originRoundTrip origin req =
     (if sameOrigin req origin then OverInstallation req else OverDefault (req\<lparr>rq_auth := None\<rparr>))"

fun roundTrip :: "(gerr + string) \<Rightarrow> transport \<Rightarrow> request \<Rightarrow> gerr + wire" where
  "roundTrip access (PatTransport token origin) req = Inr (patRoundTrip token origin req)"
| "roundTrip access (DeviceTransport origin) req = deviceRoundTrip access origin req"
| "roundTrip access (InstallationTransport base origin) req = Inr (originRoundTrip origin req)"

text \<open>
  \<open>authHTTPClient\<close>: \<open>refresher\<close> is the outcome of \<open>ghapp.NewTokenRefresher\<close>, \<open>keyFile\<close> that of
  reading the App's private key.
\<close>

definition authHTTPClient ::
  "gerr option \<Rightarrow> gerr option \<Rightarrow> github_config \<Rightarrow> auth_config \<Rightarrow> gerr + transport" where
  "authHTTPClient refresher keyFile gh auth =
     (case apiOrigin (gc_URL gh) of
        Inl e \<Rightarrow> Inl e
      | Inr origin \<Rightarrow>
          if au_PAT auth \<noteq> [] then Inr (PatTransport (au_PAT auth) origin)
          else if IsDeviceApp auth then
            (case refresher of Some e \<Rightarrow> Inl e | None \<Rightarrow> Inr (DeviceTransport origin))
          else
            (case keyFile of
               Some e \<Rightarrow> Inl (errorf ''github app key: '' e)
             | None \<Rightarrow>
                 Inr (InstallationTransport
                   (trimRight (if isDotCom (gc_URL gh) then ''https://api.github.com/''
                      else trimRight (gc_URL gh) ''/'' @ ''/api/v3/'') ''/'') origin)))"

section \<open>Clients and REST paths\<close>

record client =
  cn_scope :: scope
  cn_owner :: string
  cn_repo :: string

definition newClient ::
  "gerr option \<Rightarrow> gerr option \<Rightarrow> gerr option \<Rightarrow> github_config \<Rightarrow> auth_config \<Rightarrow> gerr + client \<times> transport" where
  "newClient refresher keyFile enterpriseURLs gh auth =
     (case authHTTPClient refresher keyFile gh auth of
        Inl e \<Rightarrow> Inl e
      | Inr tr \<Rightarrow>
          (case (if isDotCom (gc_URL gh) then None else enterpriseURLs) of
             Some e \<Rightarrow> Inl (errorf ''enterprise urls: '' e)
           | None \<Rightarrow> Inr (\<lparr>cn_scope = gc_Scope gh, cn_owner = gc_Owner gh, cn_repo = gc_Repo gh\<rparr>, tr)))"

definition Target :: "client \<Rightarrow> string" where
  "Target c = (if cn_repo c \<noteq> [] then cn_owner c @ ''/'' @ cn_repo c else cn_owner c)"

text \<open>\<open>url.PathEscape\<close>: what may stand unescaped in one path segment.\<close>

definition segmentChar :: "char \<Rightarrow> bool" where
  "segmentChar c = (isAlpha c \<or> isDigit c \<or> c \<in> set ''-_.~$&+=:@'')"

definition escapeByte :: "char \<Rightarrow> string" where
  "escapeByte c =
     (if segmentChar c then [c]
      else [CHR 0x25, upperChar (hexDigit (of_char c div 16)), upperChar (hexDigit (of_char c mod 16))])"

definition pathEscape :: "string \<Rightarrow> string" where
  "pathEscape s = concat (map escapeByte s)"

definition runnersBasePath :: "client \<Rightarrow> gerr + string" where
  "runnersBasePath c =
     (if cn_scope c = ''repo''
      then Inr (''repos/'' @ pathEscape (cn_owner c) @ ''/'' @ pathEscape (cn_repo c) @ ''/actions/runners'')
      else if cn_scope c = ''org'' then Inr (''orgs/'' @ pathEscape (cn_owner c) @ ''/actions/runners'')
      else if cn_scope c = ''enterprise''
      then Inr (''enterprises/'' @ pathEscape (cn_owner c) @ ''/actions/runners'')
      else Inl (Leaf (''unsupported scope '' @ goQuote (cn_scope c))))"

definition runnersPath :: "client \<Rightarrow> string \<Rightarrow> gerr + string" where
  "runnersPath c action =
     (case runnersBasePath c of Inl e \<Rightarrow> Inl e | Inr base \<Rightarrow> Inr (base @ ''/'' @ action))"

section \<open>Runner registrations\<close>

record jit_request =
  jr_Name :: string
  jr_RunnerGroupID :: int
  jr_Labels :: "string list"
  jr_WorkFolder :: string

record jit_reply =
  jy_EncodedJITConfig :: string
  jy_RunnerID :: int
  jy_RunnerName :: string

text \<open>The JSON body of a request; the work folder is present only when it was set.\<close>

datatype body =
    NoBody
  | JitBody string int "string list" "string option"

text \<open>What the program reads of a decoded response.\<close>

record decoded =
  dc_jit :: jit_reply
  dc_token :: string
  dc_busy :: bool

text \<open>\<open>Client.Do\<close>: the decoded response with its status, or an error with the status if there was one.\<close>

datatype reply = Reply int decoded | Failure "int option" gerr

record workflow_run =
  wr_ID :: int
  wr_Path :: string
  wr_Event :: string
  wr_TriggeringActor :: "string option"
  wr_HeadBranch :: string
  wr_Status :: string

record workflow_job =
  wj_Status :: string
  wj_Labels :: "string list"

record tree_entry =
  te_Type :: string
  te_Path :: string

record 'w gh =
  gh_NewRequest :: "string \<Rightarrow> string \<Rightarrow> body \<Rightarrow> gerr option"
  gh_Do :: "'w \<Rightarrow> string \<Rightarrow> string \<Rightarrow> body \<Rightarrow> reply \<times> 'w"
  gh_ListRuns :: "'w \<Rightarrow> string \<Rightarrow> string \<Rightarrow> string \<Rightarrow> int \<Rightarrow> (gerr + workflow_run option list \<times> int) \<times> 'w"
  gh_ListJobs :: "'w \<Rightarrow> string \<Rightarrow> string \<Rightarrow> int \<Rightarrow> int \<Rightarrow> (gerr + workflow_job list \<times> int) \<times> 'w"
  gh_GetRun :: "'w \<Rightarrow> string \<Rightarrow> string \<Rightarrow> int \<Rightarrow> (gerr + workflow_run option) \<times> 'w"
  gh_DefaultBranch :: "'w \<Rightarrow> string \<Rightarrow> string \<Rightarrow> (gerr + string) \<times> 'w"
  gh_Tree :: "'w \<Rightarrow> string \<Rightarrow> string \<Rightarrow> string \<Rightarrow> ((int option \<times> gerr) + bool \<times> tree_entry list) \<times> 'w"
  gh_ActionsPermissions :: "'w \<Rightarrow> string \<Rightarrow> string \<Rightarrow> (gerr + bool) \<times> 'w"

definition jitBody :: "jit_request \<Rightarrow> body" where
  "jitBody inp =
     JitBody (jr_Name inp) (jr_RunnerGroupID inp) (jr_Labels inp)
       (if jr_WorkFolder inp \<noteq> [] then Some (jr_WorkFolder inp) else None)"

definition GenerateJITConfig :: "'w gh \<Rightarrow> client \<Rightarrow> 'w \<Rightarrow> jit_request \<Rightarrow> (gerr + jit_reply) \<times> 'w" where
  "GenerateJITConfig g c w inp =
     (case runnersPath c ''generate-jitconfig'' of
        Inl e \<Rightarrow> (Inl e, w)
      | Inr path \<Rightarrow>
          (case gh_NewRequest g ''POST'' path (jitBody inp) of
             Some e \<Rightarrow> (Inl (errorf ''build jitconfig request: '' e), w)
           | None \<Rightarrow>
               (case gh_Do g w ''POST'' path (jitBody inp) of
                  (Failure st e, w1) \<Rightarrow> (Inl (errorf (''generate-jitconfig ('' @ cn_scope c @ ''): '') e), w1)
                | (Reply st d, w1) \<Rightarrow>
                    if jy_EncodedJITConfig (dc_jit d) = []
                    then (Inl (Leaf (''generate-jitconfig returned empty config (status '' @ formatInt st @ '')'')), w1)
                    else (Inr (dc_jit d), w1))))"

definition CreateRegistrationToken :: "'w gh \<Rightarrow> client \<Rightarrow> 'w \<Rightarrow> (gerr + string) \<times> 'w" where
  "CreateRegistrationToken g c w =
     (case runnersPath c ''registration-token'' of
        Inl e \<Rightarrow> (Inl e, w)
      | Inr path \<Rightarrow>
          (case gh_NewRequest g ''POST'' path NoBody of
             Some e \<Rightarrow> (Inl (errorf ''build registration-token request: '' e), w)
           | None \<Rightarrow>
               (case gh_Do g w ''POST'' path NoBody of
                  (Failure st e, w1) \<Rightarrow> (Inl (errorf (''registration-token ('' @ cn_scope c @ ''): '') e), w1)
                | (Reply st d, w1) \<Rightarrow> (Inr (dc_token d), w1))))"

abbreviation runnerNotFound :: "string \<Rightarrow> gerr" where
  "runnerNotFound p \<equiv> errorf p (Sent ErrRunnerNotFound ''runner registration not found'')"

definition DeleteRunner :: "'w gh \<Rightarrow> client \<Rightarrow> 'w \<Rightarrow> int \<Rightarrow> gerr option \<times> 'w" where
  "DeleteRunner g c w rid =
     (case runnersPath c (formatInt rid) of
        Inl e \<Rightarrow> (Some e, w)
      | Inr path \<Rightarrow>
          (case gh_NewRequest g ''DELETE'' path NoBody of
             Some e \<Rightarrow> (Some (errorf ''build delete-runner request: '' e), w)
           | None \<Rightarrow>
               (case gh_Do g w ''DELETE'' path NoBody of
                  (Reply st d, w1) \<Rightarrow> (None, w1)
                | (Failure st e, w1) \<Rightarrow>
                    if st = Some 404
                    then (Some (runnerNotFound (''delete-runner '' @ formatInt rid @ '': '')), w1)
                    else (Some (errorf (''delete-runner '' @ formatInt rid @ '' ('' @ cn_scope c @ ''): '') e), w1))))"

definition RunnerBusy :: "'w gh \<Rightarrow> client \<Rightarrow> 'w \<Rightarrow> int \<Rightarrow> (gerr + bool) \<times> 'w" where
  "RunnerBusy g c w rid =
     (case runnersPath c (formatInt rid) of
        Inl e \<Rightarrow> (Inl e, w)
      | Inr path \<Rightarrow>
          (case gh_NewRequest g ''GET'' path NoBody of
             Some e \<Rightarrow> (Inl (errorf ''build get-runner request: '' e), w)
           | None \<Rightarrow>
               (case gh_Do g w ''GET'' path NoBody of
                  (Reply st d, w1) \<Rightarrow> (Inr (dc_busy d), w1)
                | (Failure st e, w1) \<Rightarrow>
                    if st = Some 404
                    then (Inl (runnerNotFound (''get-runner '' @ formatInt rid @ '': '')), w1)
                    else (Inl (errorf (''get-runner '' @ formatInt rid @ '' ('' @ cn_scope c @ ''): '') e), w1))))"

definition CheckRunnerAccess :: "'w gh \<Rightarrow> client \<Rightarrow> 'w \<Rightarrow> gerr option \<times> 'w" where
  "CheckRunnerAccess g c w =
     (case runnersBasePath c of
        Inl e \<Rightarrow> (Some e, w)
      | Inr base \<Rightarrow>
          (let path = base @ ''?per_page=1''
           in case gh_NewRequest g ''GET'' path NoBody of
                Some e \<Rightarrow> (Some (errorf ''build list-runners request: '' e), w)
              | None \<Rightarrow>
                  (case gh_Do g w ''GET'' path NoBody of
                     (Reply st d, w1) \<Rightarrow> (None, w1)
                   | (Failure st e, w1) \<Rightarrow>
                       (Some (if st = Some 401 \<or> st = Some 403
                          then errorf (''credentials cannot manage '' @ cn_scope c @ '' runners for '' @ goQuote (cn_owner c) @ '': '') e
                          else if st = Some 404
                          then errorf (''no '' @ cn_scope c @ '' '' @ goQuote (cn_owner c) @ '' visible to these credentials: '') e
                          else errorf (''list-runners ('' @ cn_scope c @ ''): '') e), w1))))"

definition ActionsEnabled :: "'w gh \<Rightarrow> client \<Rightarrow> 'w \<Rightarrow> (gerr + bool) \<times> 'w" where
  "ActionsEnabled g c w =
     (if cn_repo c = [] then (Inl (Leaf ''ActionsEnabled requires a repo-scoped client''), w)
      else case gh_ActionsPermissions g w (cn_owner c) (cn_repo c) of
             (Inl e, w1) \<Rightarrow>
               (Inl (errorf (''get actions permissions '' @ cn_owner c @ ''/'' @ cn_repo c @ '': '') e), w1)
           | (Inr enabled, w1) \<Rightarrow> (Inr enabled, w1))"

definition RepoFilePaths :: "'w gh \<Rightarrow> client \<Rightarrow> 'w \<Rightarrow> (gerr + string list) \<times> 'w" where
  "RepoFilePaths g c w =
     (if cn_repo c = [] then (Inl (Leaf ''RepoFilePaths requires a repo-scoped client''), w)
      else case gh_DefaultBranch g w (cn_owner c) (cn_repo c) of
             (Inl e, w1) \<Rightarrow> (Inl (errorf (''get repo '' @ cn_owner c @ ''/'' @ cn_repo c @ '': '') e), w1)
           | (Inr branch, w1) \<Rightarrow>
               (case gh_Tree g w1 (cn_owner c) (cn_repo c) branch of
                  (Inl (st, e), w2) \<Rightarrow>
                    (Inl (errorf (''get tree ('' @ branch @ ''): '')
                       (if st = Some 403 then Join [Sent ErrContentsForbidden ''contents permission missing'', e] else e)), w2)
                | (Inr (truncated, entries), w2) \<Rightarrow>
                    if truncated
                    then (Inl (Leaf (''get tree ('' @ branch @ ''): recursive result was truncated'')), w2)
                    else (Inr (map te_Path (filter (\<lambda>t. te_Type t = ''blob'') entries)), w2)))"

section \<open>Queued jobs\<close>

record queued_job =
  qj_Client :: "client option"
  qj_Repository :: string
  qj_Labels :: "string list"
  qj_WorkflowPath :: string
  qj_Event :: string
  qj_Actor :: string
  qj_Ref :: string
  qj_Status :: string

definition queuedJobMetadata :: "workflow_run \<Rightarrow> queued_job" where
  "queuedJobMetadata r =
     \<lparr>qj_Client = None, qj_Repository = [], qj_Labels = [], qj_WorkflowPath = wr_Path r,
      qj_Event = wr_Event r, qj_Actor = (case wr_TriggeringActor r of None \<Rightarrow> [] | Some a \<Rightarrow> a),
      qj_Ref = wr_HeadBranch r, qj_Status = wr_Status r\<rparr>"

text \<open>\<open>run.GetID()\<close> of a possibly nil run.\<close>

definition runID :: "workflow_run option \<Rightarrow> int" where
  "runID r = (case r of None \<Rightarrow> 0 | Some x \<Rightarrow> wr_ID x)"

definition jobsOfPage :: "workflow_run \<Rightarrow> workflow_job list \<Rightarrow> queued_job list" where
  "jobsOfPage r js =
     map (\<lambda>j. (queuedJobMetadata r)\<lparr>qj_Labels := wj_Labels j\<rparr>) (filter (\<lambda>j. wj_Status j = ''queued'') js)"

fun jobPages ::
  "nat \<Rightarrow> 'w gh \<Rightarrow> client \<Rightarrow> workflow_run \<Rightarrow> int \<Rightarrow> 'w \<Rightarrow> ((gerr + queued_job list) \<times> 'w) option" where
  "jobPages 0 g c r page w = None"
| "jobPages (Suc n) g c r page w =
     (case gh_ListJobs g w (cn_owner c) (cn_repo c) (wr_ID r) page of
        (Inl e, w1) \<Rightarrow> Some (Inl (errorf (''list workflow jobs for run '' @ formatInt (wr_ID r) @ '': '') e), w1)
      | (Inr (js, nextPage), w1) \<Rightarrow>
          if nextPage = 0 then Some (Inr (jobsOfPage r js), w1)
          else (case jobPages n g c r nextPage w1 of
                  None \<Rightarrow> None
                | Some (Inl e, w2) \<Rightarrow> Some (Inl e, w2)
                | Some (Inr rest, w2) \<Rightarrow> Some (Inr (jobsOfPage r js @ rest), w2)))"

definition queuedJobsForRun ::
  "nat \<Rightarrow> 'w gh \<Rightarrow> client \<Rightarrow> workflow_run option \<Rightarrow> 'w \<Rightarrow> ((gerr + queued_job list) \<times> 'w) option" where
  "queuedJobsForRun n g c r w =
     (case r of
        None \<Rightarrow> Some (Inl (Leaf ''queued workflow run is nil''), w)
      | Some x \<Rightarrow> jobPages n g c x 0 w)"

text \<open>The runs seen so far, in order of first appearance (\<open>runIDs\<close> and \<open>runsByID\<close>).\<close>

definition addRun :: "workflow_run option \<Rightarrow> (int \<times> workflow_run option) list \<Rightarrow> (int \<times> workflow_run option) list" where
  "addRun r seen = (if runID r \<in> fst ` set seen then seen else seen @ [(runID r, r)])"

fun runPages ::
  "nat \<Rightarrow> 'w gh \<Rightarrow> client \<Rightarrow> string \<Rightarrow> int \<Rightarrow> (int \<times> workflow_run option) list \<Rightarrow> 'w
   \<Rightarrow> ((gerr + (int \<times> workflow_run option) list) \<times> 'w) option" where
  "runPages 0 g c status page seen w = None"
| "runPages (Suc n) g c status page seen w =
     (case gh_ListRuns g w (cn_owner c) (cn_repo c) status page of
        (Inl e, w1) \<Rightarrow> Some (Inl (errorf (''list '' @ status @ '' workflow runs: '') e), w1)
      | (Inr (rs, nextPage), w1) \<Rightarrow>
          (let seen1 = fold addRun rs seen
           in if nextPage = 0 then Some (Inr seen1, w1) else runPages n g c status nextPage seen1 w1))"

fun runsByStatus ::
  "nat \<Rightarrow> 'w gh \<Rightarrow> client \<Rightarrow> string list \<Rightarrow> (int \<times> workflow_run option) list \<Rightarrow> 'w
   \<Rightarrow> ((gerr + (int \<times> workflow_run option) list) \<times> 'w) option" where
  "runsByStatus n g c [] seen w = Some (Inr seen, w)"
| "runsByStatus n g c (s # ss) seen w =
     (case runPages n g c s 0 seen w of
        None \<Rightarrow> None
      | Some (Inl e, w1) \<Rightarrow> Some (Inl e, w1)
      | Some (Inr seen1, w1) \<Rightarrow> runsByStatus n g c ss seen1 w1)"

fun jobsOfRuns ::
  "nat \<Rightarrow> 'w gh \<Rightarrow> client \<Rightarrow> workflow_run option list \<Rightarrow> 'w \<Rightarrow> ((gerr + queued_job list) \<times> 'w) option" where
  "jobsOfRuns n g c [] w = Some (Inr [], w)"
| "jobsOfRuns n g c (r # rs) w =
     (case queuedJobsForRun n g c r w of
        None \<Rightarrow> None
      | Some (Inl e, w1) \<Rightarrow> Some (Inl e, w1)
      | Some (Inr js, w1) \<Rightarrow>
          (case jobsOfRuns n g c rs w1 of
             None \<Rightarrow> None
           | Some (Inl e, w2) \<Rightarrow> Some (Inl e, w2)
           | Some (Inr rest, w2) \<Rightarrow> Some (Inr (js @ rest), w2)))"

definition pollStatuses :: "string list" where
  "pollStatuses = [''queued'', ''in_progress'', ''pending'']"

definition QueuedWorkflowJobs ::
  "nat \<Rightarrow> 'w gh \<Rightarrow> client \<Rightarrow> 'w \<Rightarrow> ((gerr + queued_job list) \<times> 'w) option" where
  "QueuedWorkflowJobs n g c w =
     (if cn_scope c \<noteq> ''repo'' then Some (Inr [], w)
      else case runsByStatus n g c pollStatuses [] w of
             None \<Rightarrow> None
           | Some (Inl e, w1) \<Rightarrow> Some (Inl e, w1)
           | Some (Inr seen, w1) \<Rightarrow> jobsOfRuns n g c (map snd seen) w1)"

definition QueuedJobLabels ::
  "nat \<Rightarrow> 'w gh \<Rightarrow> client \<Rightarrow> 'w \<Rightarrow> ((gerr + string list list) \<times> 'w) option" where
  "QueuedJobLabels n g c w =
     (case QueuedWorkflowJobs n g c w of
        None \<Rightarrow> None
      | Some (Inl e, w1) \<Rightarrow> Some (Inl e, w1)
      | Some (Inr js, w1) \<Rightarrow> Some (Inr (map qj_Labels js), w1))"

definition ResolveQueuedJob ::
  "'w gh \<Rightarrow> client \<Rightarrow> 'w \<Rightarrow> string \<Rightarrow> int \<Rightarrow> string list \<Rightarrow> (gerr + queued_job) \<times> 'w" where
  "ResolveQueuedJob g c w repository rid labels =
     (if rid \<le> 0 then (Inl (Leaf ''workflow run id must be positive''), w)
      else
        (let (owner, repo, ok) = cutAt repository (CHR ''/''); n = formatInt rid
         in if \<not> ok \<or> owner = [] \<or> repo = [] then (Inl (Leaf ''repository must be owner/repo''), w)
            else case gh_GetRun g w owner repo rid of
                   (Inl e, w1) \<Rightarrow> (Inl (errorf (''get workflow run '' @ n @ '': '') e), w1)
                 | (Inr None, w1) \<Rightarrow> (Inl (Leaf (''get workflow run '' @ n @ '' returned no run'')), w1)
                 | (Inr (Some r), w1) \<Rightarrow>
                     (let job = queuedJobMetadata r
                      in if qj_Actor job = []
                         then (Inl (Leaf (''workflow run '' @ n @ '' has no triggering actor'')), w1)
                         else if qj_Status job \<noteq> ''queued'' \<and> qj_Status job \<noteq> ''in_progress''
                         then (Inl (Leaf (''workflow run '' @ n @ '' is not active: status '' @ goQuote (qj_Status job))), w1)
                         else (Inr (job\<lparr>qj_Client := Some c, qj_Repository := repository, qj_Labels := labels\<rparr>), w1))))"

section \<open>Client providers\<close>

definition clientClientForSlot :: "client \<Rightarrow> int \<Rightarrow> client option" where
  "clientClientForSlot c slot = Some c"

definition clientClientFor :: "client \<Rightarrow> string \<Rightarrow> client option" where
  "clientClientFor c repo =
     (if cn_scope c = ''repo'' \<and> \<not> equalFold (Target c) repo then None else Some c)"

definition pairWith :: "client \<Rightarrow> queued_job list \<Rightarrow> queued_job list" where
  "pairWith c jobs = map (\<lambda>job.
     (let job1 = job\<lparr>qj_Client := Some c\<rparr>
      in if qj_Repository job1 = [] \<and> cn_scope c = ''repo'' then job1\<lparr>qj_Repository := Target c\<rparr> else job1)) jobs"

definition clientQueuedJobs ::
  "nat \<Rightarrow> 'w gh \<Rightarrow> client \<Rightarrow> 'w \<Rightarrow> ((gerr + queued_job list) \<times> 'w) option" where
  "clientQueuedJobs n g c w =
     (case QueuedWorkflowJobs n g c w of
        None \<Rightarrow> None
      | Some (Inl e, w1) \<Rightarrow> Some (Inl e, w1)
      | Some (Inr jobs, w1) \<Rightarrow> Some (Inr (pairWith c jobs), w1))"

text \<open>
  A \<open>RepoSet\<close>. \<open>sl_poll\<close> is the \<open>uint64\<close> counter, as a number below \<open>2 ^ 64\<close>. An index outside a
  slice panics; \<open>indexed\<close> is \<open>None\<close> there.
\<close>

record repo_set =
  sl_clients :: "client list"
  sl_repos :: "string list"
  sl_poll :: nat

definition NewRepoSet :: "client list \<Rightarrow> string list \<Rightarrow> repo_set" where
  "NewRepoSet clients repos = \<lparr>sl_clients = clients, sl_repos = repos, sl_poll = 0\<rparr>"

definition indexed :: "'a list \<Rightarrow> int \<Rightarrow> 'a option" where
  "indexed xs i = (if 0 \<le> i \<and> i < int (length xs) then Some (xs ! nat i) else None)"

definition setClientForSlot :: "repo_set \<Rightarrow> int \<Rightarrow> client option" where
  "setClientForSlot rs slot =
     (if sl_clients rs = [] \<or> slot < 0 then None
      else indexed (sl_clients rs) (slot smod int (length (sl_clients rs))))"

fun firstFold :: "string \<Rightarrow> string list \<Rightarrow> nat \<Rightarrow> nat option" where
  "firstFold repo [] i = None"
| "firstFold repo (r # rs) i = (if equalFold r repo then Some i else firstFold repo rs (Suc i))"

definition setClientFor :: "repo_set \<Rightarrow> string \<Rightarrow> client option" where
  "setClientFor rs repo =
     (case firstFold repo (sl_repos rs) 0 of
        None \<Rightarrow> None
      | Some i \<Rightarrow> indexed (sl_clients rs) (int i))"

record poll_error =
  pe_Failures :: "(string \<times> gerr) list"
  pe_Total :: nat

definition AllFailed :: "poll_error \<Rightarrow> bool" where
  "AllFailed e = (pe_Total e > 0 \<and> length (pe_Failures e) = pe_Total e)"

definition pollErrorText :: "poll_error \<Rightarrow> string" where
  "pollErrorText e =
     ''queued-job polling failed for '' @ natDigits (length (pe_Failures e)) @ '' of '' @ natDigits (pe_Total e)
     @ '' repos: ''
     @ sepBy ''; '' (map (\<lambda>name. name @ '': '' @ (case map_of (pe_Failures e) name of None \<Rightarrow> [] | Some x \<Rightarrow> errMsg x))
         (sort (map fst (pe_Failures e))))"

text \<open>
  The loop of \<open>QueuedJobs\<close> from offset \<open>k\<close>. The outer \<open>None\<close> is a pagination out of fuel;
  \<open>PollPanic\<close> is an index out of range.
\<close>

datatype poll_result = PollPanic | Polled "queued_job list" "poll_error option"

definition pollIndex :: "repo_set \<Rightarrow> nat \<Rightarrow> int" where
  "pollIndex rs k =
     (let n = int (length (sl_clients rs)); start = wrap64 (int (sl_poll rs)) smod n
      in (start + int k) smod n)"

fun pollRepos ::
  "nat \<Rightarrow> 'w gh \<Rightarrow> repo_set \<Rightarrow> nat list \<Rightarrow> (string \<times> gerr) list \<Rightarrow> 'w
   \<Rightarrow> ((queued_job list \<times> (string \<times> gerr) list) option \<times> 'w) option" where
  "pollRepos n g rs [] fs w = Some (Some ([], fs), w)"
| "pollRepos n g rs (k # ks) fs w =
     (case indexed (sl_clients rs) (pollIndex rs k) of
        None \<Rightarrow> Some (None, w)
      | Some c \<Rightarrow>
          (case QueuedWorkflowJobs n g c w of
             None \<Rightarrow> None
           | Some (Inl e, w1) \<Rightarrow>
               (case indexed (sl_repos rs) (pollIndex rs k) of
                  None \<Rightarrow> Some (None, w1)
                | Some name \<Rightarrow> pollRepos n g rs ks (AList.update name e fs) w1)
           | Some (Inr jobs, w1) \<Rightarrow>
               (case pollRepos n g rs ks fs w1 of
                  None \<Rightarrow> None
                | Some (None, w2) \<Rightarrow> Some (None, w2)
                | Some (Some (rest, fs1), w2) \<Rightarrow> Some (Some (pairWith c jobs @ rest, fs1), w2))))"

definition setQueuedJobs :: "nat \<Rightarrow> 'w gh \<Rightarrow> repo_set \<Rightarrow> 'w \<Rightarrow> (poll_result \<times> repo_set \<times> 'w) option" where
  "setQueuedJobs n g rs w =
     (if sl_clients rs = [] then Some (Polled [] (Some \<lparr>pe_Failures = [], pe_Total = 0\<rparr>), rs, w)
      else
        (let rs1 = rs\<lparr>sl_poll := (sl_poll rs + 1) mod 2 ^ 64\<rparr>
         in case pollRepos n g rs [0..<length (sl_clients rs)] [] w of
              None \<Rightarrow> None
            | Some (None, w1) \<Rightarrow> Some (PollPanic, rs1, w1)
            | Some (Some (jobs, fs), w1) \<Rightarrow>
                Some (Polled jobs (if fs = [] then None
                  else Some \<lparr>pe_Failures = fs, pe_Total = length (sl_clients rs)\<rparr>), rs1, w1)))"

text \<open>
  The provider built at start-up: one client per listed repository for \<open>scope: repos\<close>. \<open>mk\<close> is
  \<open>newClient\<close> with what it reads of the outside world supplied.
\<close>

definition repoGitHub :: "github_config \<Rightarrow> repo_ref \<Rightarrow> github_config" where
  "repoGitHub gh ref = gh\<lparr>gc_Scope := ''repo'', gc_Owner := rr_Owner ref, gc_Repo := rr_Repo ref\<rparr>"

fun repoClients ::
  "(github_config \<Rightarrow> gerr + client \<times> transport) \<Rightarrow> github_config \<Rightarrow> repo_ref list \<Rightarrow> gerr + client list" where
  "repoClients mk gh [] = Inr []"
| "repoClients mk gh (ref # refs) =
     (case mk (repoGitHub gh ref) of
        Inl e \<Rightarrow> Inl (errorf (''github client for '' @ repoPath ref @ '': '') e)
      | Inr (c, tr) \<Rightarrow>
          (case repoClients mk gh refs of Inl e \<Rightarrow> Inl e | Inr cs \<Rightarrow> Inr (c # cs)))"

datatype provider = SingleClient client | Repos repo_set

definition newProvider ::
  "(github_config \<Rightarrow> gerr + client \<times> transport) \<Rightarrow> github_config \<Rightarrow> gerr + provider" where
  "newProvider mk gh =
     (if gc_Scope gh = ''repos'' then
        (case repoClients mk gh (ResolvedRepos gh) of
           Inl e \<Rightarrow> Inl e
         | Inr cs \<Rightarrow> Inr (Repos (NewRepoSet cs (map repoPath (ResolvedRepos gh)))))
      else
        (case mk gh of
           Inl e \<Rightarrow> Inl (errorf ''github client: '' e)
         | Inr (c, tr) \<Rightarrow> Inr (SingleClient c)))"

section \<open>Credentials go to one origin\<close>


definition demoGitHub :: github_config where
  "demoGitHub = \<lparr>gc_URL = ''https://ghes.example/'', gc_Scope = ''repos'', gc_Owner = ''acme'', gc_Repo = [],
     gc_Repos = [''api'', ''tools/cli'']\<rparr>"

definition demoAuth :: auth_config where
  "demoAuth = \<lparr>au_PAT = ''secret'', au_AppID = 0, au_InstallationID = 0, au_PrivateKeyPath = [],
     au_ClientID = [], au_TokenPath = []\<rparr>"


section \<open>Paths cannot be confused\<close>

fun pathUnescape :: "string \<Rightarrow> string" where
  "pathUnescape (c # a # b # s) =
     (if c = CHR 0x25
      then (case (hexVal a, hexVal b) of (Some x, Some y) \<Rightarrow> char_of (16 * x + y) # pathUnescape s | _ \<Rightarrow> [])
      else c # pathUnescape (a # b # s))"
| "pathUnescape (c # s) = c # pathUnescape s"
| "pathUnescape [] = []"

lemma hexVal_upper: "n < 16 \<Longrightarrow> hexVal (upperChar (hexDigit n)) = Some n"
  by (auto simp: hexVal_def upperChar_def hexDigit_def Let_def)

lemma upper_not_slash: "n < 16 \<Longrightarrow> upperChar (hexDigit n) \<noteq> CHR ''/''"
proof -
  assume "n < 16"
  then have "(of_char (upperChar (hexDigit n)) :: nat) \<noteq> 47"
    by (auto simp: upperChar_def hexDigit_def Let_def)
  then show ?thesis by auto
qed

lemma segmentChar_ne [simp]: "\<not> segmentChar (CHR 0x25)" "\<not> segmentChar (CHR ''/'')"
  by code_simp+

lemma pathUnescape_plain: "c \<noteq> CHR 0x25 \<Longrightarrow> pathUnescape (c # s) = c # pathUnescape s"
  by (cases s rule: pathUnescape.cases) auto

lemma pathUnescape_pathEscape [simp]: "pathUnescape (pathEscape s) = s"
proof (induction s)
  case (Cons c s)
  have IH: "pathUnescape (concat (map escapeByte s)) = s" using Cons by (simp add: pathEscape_def)
  show ?case
  proof (cases "segmentChar c")
    case True
    then have "c \<noteq> CHR 0x25" by auto
    then show ?thesis using True IH by (simp add: pathEscape_def escapeByte_def pathUnescape_plain)
  next
    case False
    have "16 * (of_char c div 16) + of_char c mod 16 = (of_char c :: nat)" by simp
    then show ?thesis using False IH
      by (simp add: pathEscape_def escapeByte_def hexVal_upper)
  qed
qed (simp add: pathEscape_def)

lemma pathEscape_inj [simp]: "pathEscape s = pathEscape t \<longleftrightarrow> s = t"
  by (metis pathUnescape_pathEscape)

lemma pathEscape_no_slash [simp]: "CHR ''/'' \<notin> set (pathEscape s)"
  by (induction s) (auto simp: pathEscape_def escapeByte_def upper_not_slash upper_not_slash[symmetric])

definition pathSegments :: "client \<Rightarrow> string \<Rightarrow> string list" where
  "pathSegments c action =
     (if cn_scope c = ''repo'' then [''repos'', pathEscape (cn_owner c), pathEscape (cn_repo c)]
      else [cn_scope c @ ''s'', pathEscape (cn_owner c)]) @ [''actions'', ''runners'', action]"

lemma splitOn_slash_literals [simp]:
  "splitOn (CHR ''/'') (''repos/'' @ s) = ''repos'' # splitOn (CHR ''/'') s"
  "splitOn (CHR ''/'') (''orgs/'' @ s) = ''orgs'' # splitOn (CHR ''/'') s"
  "splitOn (CHR ''/'') (''enterprises/'' @ s) = ''enterprises'' # splitOn (CHR ''/'') s"
  "splitOn (CHR ''/'') (''actions/runners/'' @ s) = ''actions'' # ''runners'' # splitOn (CHR ''/'') s"
  by (simp_all split: list.splits)

lemma splitOn_runnersPath:
  assumes "runnersPath c action = Inr p" and "CHR ''/'' \<notin> set action"
  shows "splitOn (CHR ''/'') p = pathSegments c action
    \<and> cn_scope c \<in> {''repo'', ''org'', ''enterprise''}"
proof -
  have a: "splitOn (CHR ''/'') (pathEscape x @ ''/'' @ s) = pathEscape x # splitOn (CHR ''/'') s" for x s
    using splitOn_append[OF pathEscape_no_slash, of x s] by simp
  have b: "splitOn (CHR ''/'') (pathEscape x @ ''/actions/runners/'' @ action)
      = pathEscape x # ''actions'' # ''runners'' # [action]" for x
    using splitOn_append[OF pathEscape_no_slash, of x "''actions/runners/'' @ action"] assms(2) by simp
  consider (r) "cn_scope c = ''repo''" | (g) "cn_scope c = ''org''" | (e) "cn_scope c = ''enterprise''"
    using assms(1) by (simp add: runnersPath_def runnersBasePath_def split: if_splits)
  then show ?thesis
  proof cases
    case r
    then have "p = ''repos/'' @ pathEscape (cn_owner c) @ ''/'' @ pathEscape (cn_repo c) @ ''/actions/runners/'' @ action"
      using assms(1) by (simp add: runnersPath_def runnersBasePath_def)
    then show ?thesis using r by (simp only: splitOn_slash_literals a b) (simp add: pathSegments_def)
  next
    case g
    then have "p = ''orgs/'' @ pathEscape (cn_owner c) @ ''/actions/runners/'' @ action"
      using assms(1) by (simp add: runnersPath_def runnersBasePath_def)
    then show ?thesis using g by (simp only: splitOn_slash_literals b) (simp add: pathSegments_def)
  next
    case e
    then have "p = ''enterprises/'' @ pathEscape (cn_owner c) @ ''/actions/runners/'' @ action"
      using assms(1) by (simp add: runnersPath_def runnersBasePath_def)
    then show ?thesis using e by (simp only: splitOn_slash_literals b) (simp add: pathSegments_def)
  qed
qed

lemma pathSegments_inj:
  assumes "pathSegments c action = pathSegments c' action'"
    and "cn_scope c \<in> {''repo'', ''org'', ''enterprise''}" and "cn_scope c' \<in> {''repo'', ''org'', ''enterprise''}"
  shows "cn_scope c = cn_scope c' \<and> cn_owner c = cn_owner c' \<and> action = action'
    \<and> (cn_scope c = ''repo'' \<longrightarrow> cn_repo c = cn_repo c')"
proof (cases "cn_scope c = ''repo''")
  case True
  then show ?thesis using assms(1) by (cases "cn_scope c' = ''repo''") (simp_all add: pathSegments_def)
next
  case False
  then show ?thesis using assms(1) by (cases "cn_scope c' = ''repo''") (simp_all add: pathSegments_def)
qed

text \<open>
  No owner, repository or runner name can reach another target's endpoint: two requests under
  the runners API have the same path only when they are for the same scope, the same owner, the
  same repository (in repository scope) and the same action. Owner and repository are escaped, so
  a slash, a question mark or an escape sequence in a name cannot end its segment.
\<close>

theorem runners_path_injective:
  assumes "runnersPath c action = Inr p" and "runnersPath c' action' = Inr p"
    and "CHR ''/'' \<notin> set action" and "CHR ''/'' \<notin> set action'"
  shows "cn_scope c = cn_scope c' \<and> cn_owner c = cn_owner c' \<and> action = action'
    \<and> (cn_scope c = ''repo'' \<longrightarrow> cn_repo c = cn_repo c')"
  using splitOn_runnersPath[OF assms(1,3)] splitOn_runnersPath[OF assms(2,4)]
  by (intro pathSegments_inj) simp_all

definition oddClient :: client where
  "oddClient = \<lparr>cn_scope = ''repo'', cn_owner = ''a/b'', cn_repo = ''c?d''\<rparr>"

theorem runners_path_injective_witness:
  "runnersPath oddClient ''7'' = Inr ''repos/a%2Fb/c%3Fd/actions/runners/7''
   \<and> cn_owner oddClient = ''a/b''"
proof -
  have p: "runnersPath oddClient ''7'' = Inr ''repos/a%2Fb/c%3Fd/actions/runners/7''" by code_simp
  have "cn_owner oddClient = cn_owner (oddClient\<lparr>cn_owner := ''a/b''\<rparr>)"
    using runners_path_injective[OF p, of "oddClient\<lparr>cn_owner := ''a/b''\<rparr>" "''7''"] p
    by (simp add: oddClient_def)
  then show ?thesis using p by simp
qed

section \<open>The search for queued jobs is complete\<close>

text \<open>
  A server that holds the list \<open>ps\<close> of pages: page 0 stands for the first, and every page but the
  last names its successor.
\<close>

definition pageNo :: "int \<Rightarrow> nat" where
  "pageNo p = (if p = 0 then 0 else nat p - 1)"

definition paged :: "'a list list \<Rightarrow> int \<Rightarrow> 'a list \<times> int" where
  "paged ps p =
     (if pageNo p < length ps then ps ! pageNo p else [],
      if Suc (pageNo p) < length ps then int (pageNo p) + 2 else 0)"

definition serves ::
  "'w gh \<Rightarrow> client \<Rightarrow> (string \<Rightarrow> workflow_run list list) \<Rightarrow> (int \<Rightarrow> workflow_job list list) \<Rightarrow> bool" where
  "serves g c runs jobs =
     ((\<forall>w st p. fst (gh_ListRuns g w (cn_owner c) (cn_repo c) st p)
        = Inr (case paged (runs st) p of (rs, q) \<Rightarrow> (map Some rs, q)))
      \<and> (\<forall>w i p. fst (gh_ListJobs g w (cn_owner c) (cn_repo c) i p) = Inr (paged (jobs i) p)))"

lemma pageNo_next [simp]: "pageNo (int i + 2) = Suc i"
  by (simp add: pageNo_def nat_add_distrib)

lemma concat_drop_page:
  "concat (drop i ps) = (if i < length ps then ps ! i else []) @ concat (drop (Suc i) ps)"
  by (cases "i < length ps") (simp_all add: Cons_nth_drop_Suc[symmetric])

lemma jobPages_complete:
  assumes "serves g c runs jobs"
  shows "length (jobs (wr_ID r)) \<le> pageNo p + n \<Longrightarrow> 0 < n
    \<Longrightarrow> \<exists>w'. jobPages n g c r p w = Some (Inr (jobsOfPage r (concat (drop (pageNo p) (jobs (wr_ID r))))), w')"
proof (induction n arbitrary: p w)
  case (Suc n)
  obtain w1 where l: "gh_ListJobs g w (cn_owner c) (cn_repo c) (wr_ID r) p = (Inr (paged (jobs (wr_ID r)) p), w1)"
    using assms by (metis serves_def prod.collapse)
  show ?case
  proof (cases "Suc (pageNo p) < length (jobs (wr_ID r))")
    case True
    then obtain w2 where "jobPages n g c r (int (pageNo p) + 2) w1
        = Some (Inr (jobsOfPage r (concat (drop (Suc (pageNo p)) (jobs (wr_ID r))))), w2)"
      using Suc.IH[of "int (pageNo p) + 2" w1] Suc.prems by auto
    then show ?thesis using l True
      by (subst concat_drop_page) (simp add: paged_def jobsOfPage_def)
  next
    case False
    then show ?thesis using l by (subst concat_drop_page) (simp add: paged_def)
  qed
qed simp

lemma runPages_complete:
  assumes "serves g c runs jobs"
  shows "length (runs s) \<le> pageNo p + n \<Longrightarrow> 0 < n
    \<Longrightarrow> \<exists>w'. runPages n g c s p seen w
          = Some (Inr (fold addRun (map Some (concat (drop (pageNo p) (runs s)))) seen), w')"
proof (induction n arbitrary: p seen w)
  case (Suc n)
  obtain w1 where l: "gh_ListRuns g w (cn_owner c) (cn_repo c) s p
      = (Inr (case paged (runs s) p of (rs, q) \<Rightarrow> (map Some rs, q)), w1)"
    using assms by (metis serves_def prod.collapse)
  show ?case
  proof (cases "Suc (pageNo p) < length (runs s)")
    case True
    then obtain w2 where "runPages n g c s (int (pageNo p) + 2) (fold addRun (map Some (runs s ! pageNo p)) seen) w1
        = Some (Inr (fold addRun (map Some (concat (drop (Suc (pageNo p)) (runs s))))
            (fold addRun (map Some (runs s ! pageNo p)) seen)), w2)"
      using Suc.IH[of "int (pageNo p) + 2"] Suc.prems by auto
    then show ?thesis using l True
      by (subst concat_drop_page) (simp add: paged_def)
  next
    case False
    then show ?thesis using l by (subst concat_drop_page) (simp add: paged_def)
  qed
qed simp

lemma runsByStatus_complete:
  assumes "serves g c runs jobs" and "0 < n"
  shows "\<forall>s \<in> set ss. length (runs s) \<le> n
    \<Longrightarrow> \<exists>w'. runsByStatus n g c ss seen w
          = Some (Inr (fold addRun (map Some (concat (map (concat \<circ> runs) ss))) seen), w')"
proof (induction ss arbitrary: seen w)
  case (Cons s ss)
  obtain w1 where "runPages n g c s 0 seen w
      = Some (Inr (fold addRun (map Some (concat (runs s))) seen), w1)"
    using runPages_complete[OF assms(1), of s 0 n seen w] assms(2) Cons.prems by (auto simp: pageNo_def)
  moreover obtain w2 where "runsByStatus n g c ss (fold addRun (map Some (concat (runs s))) seen) w1
      = Some (Inr (fold addRun (map Some (concat (map (concat \<circ> runs) ss)))
          (fold addRun (map Some (concat (runs s))) seen)), w2)"
    using Cons.IH Cons.prems by (metis list.set_intros(2))
  ultimately show ?case by (simp add: comp_def)
qed simp

lemma jobsOfRuns_complete:
  assumes "serves g c runs jobs" and "0 < n"
  shows "\<forall>r \<in> set rs. length (jobs (wr_ID r)) \<le> n
    \<Longrightarrow> \<exists>w'. jobsOfRuns n g c (map Some rs) w
          = Some (Inr (concat (map (\<lambda>r. jobsOfPage r (concat (jobs (wr_ID r)))) rs)), w')"
proof (induction rs arbitrary: w)
  case (Cons r rs)
  obtain w1 where "jobPages n g c r 0 w = Some (Inr (jobsOfPage r (concat (jobs (wr_ID r)))), w1)"
    using jobPages_complete[OF assms(1), of r 0 n w] assms(2) Cons.prems by (auto simp: pageNo_def)
  moreover obtain w2 where "jobsOfRuns n g c (map Some rs) w1
      = Some (Inr (concat (map (\<lambda>r. jobsOfPage r (concat (jobs (wr_ID r)))) rs)), w2)"
    using Cons.IH Cons.prems by (metis list.set_intros(2))
  ultimately show ?case by (simp add: queuedJobsForRun_def)
qed simp

text \<open>The runs kept: one per identifier, each of them listed, and no identifier lost.\<close>

lemma fold_addRun:
  assumes "seen = map (\<lambda>r. (wr_ID r, Some r)) ks" and "distinct (map wr_ID ks)"
  shows "\<exists>ks'. fold addRun (map Some rs) seen = map (\<lambda>r. (wr_ID r, Some r)) ks'
    \<and> distinct (map wr_ID ks') \<and> set ks' \<subseteq> set ks \<union> set rs
    \<and> wr_ID ` set ks' = wr_ID ` (set ks \<union> set rs)"
  using assms
proof (induction rs arbitrary: seen ks)
  case (Cons r rs)
  define ks1 where "ks1 = (if wr_ID r \<in> wr_ID ` set ks then ks else ks @ [r])"
  have add: "addRun (Some r) seen = map (\<lambda>r. (wr_ID r, Some r)) ks1"
    using Cons.prems(1) by (auto simp: addRun_def runID_def ks1_def image_image)
  have d: "distinct (map wr_ID ks1)" using Cons.prems(2) by (auto simp: ks1_def)
  have i: "wr_ID ` set ks1 = wr_ID ` (set ks \<union> {r})" and sub: "set ks1 \<subseteq> set ks \<union> {r}"
    by (auto simp: ks1_def)
  obtain ks' where k: "fold addRun (map Some rs) (addRun (Some r) seen) = map (\<lambda>r. (wr_ID r, Some r)) ks'"
    "distinct (map wr_ID ks')" "set ks' \<subseteq> set ks1 \<union> set rs"
    "wr_ID ` set ks' = wr_ID ` (set ks1 \<union> set rs)"
    using Cons.IH[OF add d] by blast
  have "wr_ID ` set ks' = wr_ID ` (set ks \<union> set (r # rs))" using k(4) i by (simp add: image_Un)
  moreover have "set ks' \<subseteq> set ks \<union> set (r # rs)" using k(3) sub by auto
  ultimately show ?case using k(1,2) by auto
qed auto

lemma queued_jobs_returns:
  assumes "serves g c runs jobs" and "cn_scope c = ''repo''" and "0 < n"
    and "\<forall>s \<in> set pollStatuses. length (runs s) \<le> n" and "\<forall>i. length (jobs i) \<le> n"
  shows "\<exists>rs w'. QueuedWorkflowJobs n g c w
        = Some (Inr (concat (map (\<lambda>r. jobsOfPage r (concat (jobs (wr_ID r)))) rs)), w')
    \<and> distinct (map wr_ID rs) \<and> set rs \<subseteq> set (concat (map (concat \<circ> runs) pollStatuses))
    \<and> wr_ID ` set rs = wr_ID ` set (concat (map (concat \<circ> runs) pollStatuses))"
proof -
  let ?all = "concat (map (concat \<circ> runs) pollStatuses)"
  obtain ks where ks: "fold addRun (map Some ?all) [] = map (\<lambda>r. (wr_ID r, Some r)) ks"
    "distinct (map wr_ID ks)" "set ks \<subseteq> set ?all" "wr_ID ` set ks = wr_ID ` set ?all"
    using fold_addRun[of "[]" "[]" ?all] by auto
  obtain w1 where r: "runsByStatus n g c pollStatuses [] w = Some (Inr (map (\<lambda>r. (wr_ID r, Some r)) ks), w1)"
    using runsByStatus_complete[OF assms(1,3,4), of "[]" w] ks(1) by auto
  have m: "map snd (map (\<lambda>r. (wr_ID r, Some r)) ks) = map Some ks" by simp
  obtain w2 where "jobsOfRuns n g c (map Some ks) w1
      = Some (Inr (concat (map (\<lambda>r. jobsOfPage r (concat (jobs (wr_ID r)))) ks)), w2)"
    using jobsOfRuns_complete[OF assms(1,3), of ks w1] assms(5) by auto
  then show ?thesis using r ks assms(2) m by (auto simp: QueuedWorkflowJobs_def comp_def)
qed

text \<open>
  The poll of a repository is complete. Against a server that lists its queued, in-progress and
  pending runs and the jobs of each run in pages, with fuel for the longest listing, the search
  returns; it considers every listed run identifier exactly once, whatever the page and status it
  appears under; and its result is exactly the queued jobs of those runs, with the labels of the
  job and the workflow, event, actor and ref of its run.
\<close>

theorem queued_jobs_complete:
  assumes "serves g c runs jobs" and "cn_scope c = ''repo''" and "0 < n"
    and "\<forall>s \<in> set pollStatuses. length (runs s) \<le> n" and "\<forall>i. length (jobs i) \<le> n"
  shows "\<exists>rs w'. QueuedWorkflowJobs n g c w
        = Some (Inr (concat (map (\<lambda>r. jobsOfPage r (concat (jobs (wr_ID r)))) rs)), w')
    \<and> distinct (map wr_ID rs) \<and> set rs \<subseteq> set (concat (map (concat \<circ> runs) pollStatuses))
    \<and> wr_ID ` set rs = wr_ID ` set (concat (map (concat \<circ> runs) pollStatuses))"
  using queued_jobs_returns[OF assms] .

definition demoRun :: "int \<Rightarrow> string \<Rightarrow> workflow_run" where
  "demoRun i st = \<lparr>wr_ID = i, wr_Path = ''.github/workflows/ci.yml'', wr_Event = ''push'',
     wr_TriggeringActor = Some ''octo'', wr_HeadBranch = ''main'', wr_Status = st\<rparr>"

definition demoRuns :: "string \<Rightarrow> workflow_run list list" where
  "demoRuns st =
     (if st = ''queued'' then [[demoRun 1 st], [demoRun 2 st]]
      else if st = ''in_progress'' then [[demoRun 1 st, demoRun 3 st]] else [])"

definition demoJobs :: "int \<Rightarrow> workflow_job list list" where
  "demoJobs i = [[\<lparr>wj_Status = ''queued'', wj_Labels = [''linux'']\<rparr>], [\<lparr>wj_Status = ''completed'', wj_Labels = []\<rparr>]]"

definition demoServer :: "unit gh" where
  "demoServer =
     \<lparr>gh_NewRequest = (\<lambda>m p b. None),
      gh_Do = (\<lambda>w m p b. (Failure (Some 404) (Leaf ''404''), w)),
      gh_ListRuns = (\<lambda>w ow rp st p. (Inr (case paged (demoRuns st) p of (rs, q) \<Rightarrow> (map Some rs, q)), w)),
      gh_ListJobs = (\<lambda>w ow rp i p. (Inr (paged (demoJobs i) p), w)),
      gh_GetRun = (\<lambda>w ow rp i. (Inr (Some (demoRun i ''queued'')), w)),
      gh_DefaultBranch = (\<lambda>w ow rp. (Inr ''main'', w)),
      gh_Tree = (\<lambda>w ow rp b. (Inr (False, []), w)),
      gh_ActionsPermissions = (\<lambda>w ow rp. (Inr True, w))\<rparr>"

definition demoClient :: client where
  "demoClient = \<lparr>cn_scope = ''repo'', cn_owner = ''acme'', cn_repo = ''api''\<rparr>"

lemma demoServer_serves: "serves demoServer c demoRuns demoJobs"
  by (simp add: serves_def demoServer_def)

theorem queued_jobs_complete_witness:
  "\<exists>rs w'. QueuedWorkflowJobs 2 demoServer demoClient ()
        = Some (Inr (concat (map (\<lambda>r. jobsOfPage r (concat (demoJobs (wr_ID r)))) rs)), w')
    \<and> distinct (map wr_ID rs) \<and> wr_ID ` set rs = {1, 2, 3}"
proof -
  have 1: "cn_scope demoClient = ''repo''" by (simp add: demoClient_def)
  have 2: "\<forall>s \<in> set pollStatuses. length (demoRuns s) \<le> 2" by (simp add: pollStatuses_def demoRuns_def)
  have 3: "\<forall>i. length (demoJobs i) \<le> 2" by (simp add: demoJobs_def)
  have 4: "wr_ID ` set (concat (map (concat \<circ> demoRuns) pollStatuses)) = {1, 2, 3}"
    by (auto simp: pollStatuses_def demoRuns_def demoRun_def)
  show ?thesis using queued_jobs_complete[OF demoServer_serves 1 _ 2 3, of "()"] 4 by auto
qed

section \<open>Providers share one contract\<close>

text \<open>
  What a pool may rely on: every slot gets a managed client, the same one on every retry, the
  slots of any window as long as the client list reach every client, and the client for a
  repository does not depend on the spelling of its name.
\<close>

locale client_provider =
  fixes slotClient :: "int \<Rightarrow> 'c option"
    and repoClient :: "string \<Rightarrow> 'c option"
    and managed :: "'c list"
  assumes slot_managed: "slotClient s = Some c \<Longrightarrow> c \<in> set managed"
    and slot_periodic: "0 \<le> s \<Longrightarrow> slotClient (s + int (length managed)) = slotClient s"
    and slot_first: "i < length managed \<Longrightarrow> slotClient (int i) = Some (managed ! i)"
    and repo_managed: "repoClient r = Some c \<Longrightarrow> c \<in> set managed"
    and repo_fold: "equalFold r r' \<Longrightarrow> repoClient r = repoClient r'"
begin

lemma slot_mod:
  assumes "managed \<noteq> []"
  shows "slotClient (int k) = Some (managed ! (k mod length managed))"
proof (induction k rule: less_induct)
  case (less k)
  show ?case
  proof (cases "k < length managed")
    case True
    then show ?thesis by (simp add: slot_first)
  next
    case False
    then have "slotClient (int (k - length managed) + int (length managed)) = slotClient (int (k - length managed))"
      by (intro slot_periodic) simp
    moreover have "k - length managed < k" using False assms by (cases managed) auto
    ultimately show ?thesis using False less[of "k - length managed"]
      by (simp add: of_nat_diff le_mod_geq)
  qed
qed

lemma slots_cover:
  assumes "c \<in> set managed"
  shows "\<exists>k < length managed. slotClient (int (s + k)) = Some c"
proof -
  let ?n = "length managed"
  obtain i where i: "i < ?n" "managed ! i = c" using assms by (auto simp: in_set_conv_nth)
  define k where "k = (i + (?n - s mod ?n)) mod ?n"
  have "(s + k) mod ?n = i"
  proof -
    have "(s + k) mod ?n = (s mod ?n + (i + (?n - s mod ?n))) mod ?n"
      by (simp add: k_def mod_simps)
    also have "s mod ?n + (i + (?n - s mod ?n)) = i + ?n"
      using mod_less_divisor[of ?n s] i(1) by linarith
    finally show ?thesis using i(1) by simp
  qed
  moreover have "k < ?n" using i(1) unfolding k_def by (intro mod_less_divisor) linarith
  ultimately show ?thesis using i slot_mod[of "s + k"] by (metis length_0_conv not_less_zero)
qed

end

interpretation single: client_provider "clientClientForSlot c" "clientClientFor c" "[c]" for c
  by unfold_locales (auto simp: clientClientForSlot_def clientClientFor_def equalFold_def split: if_splits)

lemma smod_nonneg: "0 \<le> a \<Longrightarrow> 0 < b \<Longrightarrow> a smod b = a mod (b :: int)"
  by (simp add: signed_modulo_int_def signed_divide_int_def minus_div_mult_eq_mod sgn_if)

lemma indexed_nth [simp]: "i < length xs \<Longrightarrow> indexed xs (int i) = Some (xs ! i)"
  by (simp add: indexed_def)

lemma indexed_in: "indexed xs i = Some x \<Longrightarrow> x \<in> set xs"
  by (auto simp: indexed_def nat_less_iff split: if_splits)

lemma firstFold_fold: "equalFold r r' \<Longrightarrow> firstFold r rs i = firstFold r' rs i"
  by (induction rs arbitrary: i) (auto simp: equalFold_def)

interpretation repos: client_provider "setClientForSlot rs" "setClientFor rs" "sl_clients rs" for rs
proof unfold_locales
  fix s c assume "setClientForSlot rs s = Some c"
  then show "c \<in> set (sl_clients rs)"
    by (auto simp: setClientForSlot_def dest: indexed_in split: if_splits)
next
  fix s :: int assume "0 \<le> s"
  then show "setClientForSlot rs (s + int (length (sl_clients rs))) = setClientForSlot rs s"
    by (simp add: setClientForSlot_def smod_nonneg)
next
  fix i assume "i < length (sl_clients rs)"
  then show "setClientForSlot rs (int i) = Some (sl_clients rs ! i)"
    by (auto simp: setClientForSlot_def smod_nonneg)
next
  fix r c assume "setClientFor rs r = Some c"
  then show "c \<in> set (sl_clients rs)" by (auto simp: setClientFor_def dest: indexed_in split: option.splits)
next
  fix r r' assume "equalFold r r'"
  then show "setClientFor rs r = setClientFor rs r'" by (simp add: setClientFor_def firstFold_fold)
qed

text \<open>
  A warm pool over several repositories serves all of them: for a set of \<open>n\<close> repositories, any
  \<open>n\<close> consecutive slots of a pool register with every repository, and slot \<open>k\<close> always registers
  with repository \<open>k mod n\<close>, on every retry and whatever other pools do.
\<close>

theorem slots_reach_every_repository:
  assumes "c \<in> set (sl_clients rs)"
  shows "(\<exists>k < length (sl_clients rs). setClientForSlot rs (int (s + k)) = Some c)
    \<and> setClientForSlot rs (int s) = Some (sl_clients rs ! (s mod length (sl_clients rs)))"
proof -
  have "sl_clients rs \<noteq> []" using assms by auto
  then show ?thesis using repos.slots_cover[OF assms, of s] repos.slot_mod[of rs s] by simp
qed

definition demoSet :: repo_set where
  "demoSet = NewRepoSet [demoClient, demoClient\<lparr>cn_owner := ''tools'', cn_repo := ''cli''\<rparr>] [''acme/api'', ''tools/cli'']"

theorem slots_reach_every_repository_witness:
  "(\<exists>k < length (sl_clients demoSet). setClientForSlot demoSet (int (5 + k)) = Some demoClient)
   \<and> setClientForSlot demoSet (int 5) = Some (demoClient\<lparr>cn_owner := ''tools'', cn_repo := ''cli''\<rparr>)"
proof -
  have cs: "sl_clients demoSet = [demoClient, demoClient\<lparr>cn_owner := ''tools'', cn_repo := ''cli''\<rparr>]"
    by (simp add: demoSet_def NewRepoSet_def)
  have two: "length (sl_clients demoSet) = 2" by (simp add: cs)
  have five: "5 mod length (sl_clients demoSet) = 1" unfolding two by simp
  have "demoClient \<in> set (sl_clients demoSet)" by (simp add: cs)
  then show ?thesis using slots_reach_every_repository[of demoClient demoSet 5]
    unfolding five by (simp only: cs nth_Cons_Suc nth_Cons_0 One_nat_def)
qed

section \<open>A poll asks every repository\<close>

lemma pollIndex_mod:
  assumes "sl_poll rs < 2 ^ 63" and "sl_clients rs \<noteq> []"
  shows "pollIndex rs k = int ((sl_poll rs + k) mod length (sl_clients rs))"
proof -
  have "int (sl_poll rs) < 2 ^ 63" using assms(1) by (simp add: nat_less_iff flip: of_nat_less_iff)
  then have "wrap64 (int (sl_poll rs)) = int (sl_poll rs)" by (intro wrap64_id) auto
  then show ?thesis using assms(2) by (simp add: pollIndex_def smod_nonneg mod_simps zmod_int)
qed

definition okJobs :: "(client \<Rightarrow> gerr + queued_job list) \<Rightarrow> client \<Rightarrow> queued_job list" where
  "okJobs ans c = (case ans c of Inl e \<Rightarrow> [] | Inr js \<Rightarrow> pairWith c js)"

definition answers :: "nat \<Rightarrow> 'w gh \<Rightarrow> client list \<Rightarrow> (client \<Rightarrow> gerr + queued_job list) \<Rightarrow> bool" where
  "answers n g cs ans = (\<forall>c \<in> set cs. \<forall>w. \<exists>w'. QueuedWorkflowJobs n g c w = Some (ans c, w'))"

lemma pollRepos_ok:
  assumes "answers n g (sl_clients rs) ans" and "length (sl_repos rs) = length (sl_clients rs)"
    and "\<And>k. pollIndex rs k = int (f k) \<and> f k < length (sl_clients rs)"
    and "distinct (map fst fs)"
  shows "\<exists>fs' w'. pollRepos n g rs ks fs w
        = Some (Some (concat (map (\<lambda>k. okJobs ans (sl_clients rs ! f k)) ks), fs'), w')
    \<and> distinct (map fst fs')
    \<and> fst ` set fs' = fst ` set fs \<union> {sl_repos rs ! f k | k. k \<in> set ks \<and> isl (ans (sl_clients rs ! f k))}"
  using assms(4)
proof (induction ks arbitrary: fs w)
  case (Cons k ks)
  let ?c = "sl_clients rs ! f k"
  have f: "pollIndex rs k = int (f k)" "f k < length (sl_clients rs)" using assms(3) by auto
  obtain w1 where q: "QueuedWorkflowJobs n g ?c w = Some (ans ?c, w1)"
    using assms(1) f(2) by (meson answers_def nth_mem)
  show ?case
  proof (cases "ans ?c")
    case (Inl e)
    obtain fs' w' where IH: "pollRepos n g rs ks (AList.update (sl_repos rs ! f k) e fs) w1
        = Some (Some (concat (map (\<lambda>k. okJobs ans (sl_clients rs ! f k)) ks), fs'), w')"
      "distinct (map fst fs')"
      "fst ` set fs' = fst ` set (AList.update (sl_repos rs ! f k) e fs)
         \<union> {sl_repos rs ! f k | k. k \<in> set ks \<and> isl (ans (sl_clients rs ! f k))}"
      using Cons.IH[of "AList.update (sl_repos rs ! f k) e fs" w1] Cons.prems by auto
    show ?thesis using IH q f assms(2) Inl by (auto simp: okJobs_def dom_update)
  next
    case (Inr js)
    obtain fs' w' where IH: "pollRepos n g rs ks fs w1
        = Some (Some (concat (map (\<lambda>k. okJobs ans (sl_clients rs ! f k)) ks), fs'), w')"
      "distinct (map fst fs')"
      "fst ` set fs' = fst ` set fs \<union> {sl_repos rs ! f k | k. k \<in> set ks \<and> isl (ans (sl_clients rs ! f k))}"
      using Cons.IH[of fs w1] Cons.prems by auto
    show ?thesis using IH q f Inr by (auto simp: okJobs_def)
  qed
qed auto

lemma rotation_mset:
  "0 < n \<Longrightarrow> mset (map (\<lambda>k. (p + k) mod n) [0..<n]) = mset [0..<n]"
proof -
  assume "0 < n"
  then have "map (\<lambda>k. (p + k) mod n) [0..<n] = rotate p [0..<n]"
    by (intro nth_equalityI) (auto simp: nth_rotate)
  moreover have "mset (rotate p xs) = mset xs" for xs :: "nat list"
    by (metis mset_append append_take_drop_id rotate_drop_take union_commute)
  ultimately show ?thesis by simp
qed

lemma rotation_concat:
  "0 < length cs \<Longrightarrow> mset (concat (map (\<lambda>k. h (cs ! ((p + k) mod length cs))) [0..<length cs])) = mset (concat (map h cs))"
proof -
  assume a: "0 < length cs"
  have "mset (map (h \<circ> (!) cs) (map (\<lambda>k. (p + k) mod length cs) [0..<length cs]))
      = mset (map (h \<circ> (!) cs) [0..<length cs])"
    using rotation_mset[OF a] by (metis mset_map)
  also have "map (h \<circ> (!) cs) [0..<length cs] = map h cs"
    by (metis map_map map_nth)
  finally have m: "mset (map (\<lambda>k. h (cs ! ((p + k) mod length cs))) [0..<length cs]) = mset (map h cs)"
    by (simp only: map_map comp_def)
  have "mset (concat xs) = sum_mset (image_mset mset (mset xs))" for xs :: "'b list list"
    by (induction xs) auto
  then show ?thesis using m by simp
qed

lemma rotation_onto:
  fixes n :: nat
  assumes "i < n"
  shows "\<exists>k \<in> set [0..<n]. (p + k) mod n = i"
proof -
  have "i \<in> set (map (\<lambda>k. (p + k) mod n) [0..<n])"
    using rotation_mset[of n p] assms mset_eq_setD by fastforce
  then show ?thesis by auto
qed

text \<open>The names at the positions a predicate selects: all of them, or none.\<close>

lemma selected_all:
  assumes "distinct xs" and "length xs = length ys"
  shows "card {xs ! i | i. i < length ys \<and> P (ys ! i)} = length ys \<longleftrightarrow> (\<forall>y \<in> set ys. P y)"
proof -
  have "{xs ! i | i. i < length ys \<and> P (ys ! i)} = (!) xs ` {i. i < length ys \<and> P (ys ! i)}" by auto
  moreover have "inj_on ((!) xs) {i. i < length ys \<and> P (ys ! i)}"
    using assms by (auto simp: inj_on_def nth_eq_iff_index_eq)
  ultimately have c: "card {xs ! i | i. i < length ys \<and> P (ys ! i)} = card {i. i < length ys \<and> P (ys ! i)}"
    by (simp add: card_image)
  have "{i. i < length ys \<and> P (ys ! i)} \<subseteq> {..<length ys}" by auto
  then have "card {i. i < length ys \<and> P (ys ! i)} = length ys \<longleftrightarrow> {i. i < length ys \<and> P (ys ! i)} = {..<length ys}"
    by (metis card_lessThan card_subset_eq finite_lessThan)
  also have "\<dots> \<longleftrightarrow> (\<forall>y \<in> set ys. P y)" unfolding all_set_conv_all_nth by auto
  finally show ?thesis using c by simp
qed

lemma selected_none:
  "{xs ! i | i. i < length ys \<and> P (ys ! i)} = {} \<longleftrightarrow> (\<forall>y \<in> set ys. \<not> P y)"
  unfolding all_set_conv_all_nth by auto

text \<open>
  One poll of a set of repositories (any of the first \<open>2 ^ 63\<close> polls of the process) does not
  panic and asks every repository exactly once, whatever the rotation: the jobs returned are those
  of all the repositories that answered, each carrying the client of the repository that queued
  it; an error is reported exactly when some repository failed, it names exactly the failing
  repositories, and it counts as a total failure exactly when none answered.
\<close>

theorem poll_asks_every_repository:
  assumes ans: "answers n g (sl_clients rs) ans" and len: "length (sl_repos rs) = length (sl_clients rs)"
    and d: "distinct (sl_repos rs)" and ne: "sl_clients rs \<noteq> []" and p: "sl_poll rs < 2 ^ 63"
  shows "\<exists>jobs err w'. setQueuedJobs n g rs w = Some (Polled jobs err, rs\<lparr>sl_poll := sl_poll rs + 1\<rparr>, w')
    \<and> mset jobs = mset (concat (map (okJobs ans) (sl_clients rs)))
    \<and> (\<forall>e. err = Some e \<longrightarrow> set (map fst (pe_Failures e))
          = {sl_repos rs ! i | i. i < length (sl_clients rs) \<and> isl (ans (sl_clients rs ! i))}
        \<and> (AllFailed e \<longleftrightarrow> (\<forall>c \<in> set (sl_clients rs). isl (ans c))))
    \<and> (err = None \<longleftrightarrow> (\<forall>c \<in> set (sl_clients rs). \<not> isl (ans c)))"
proof -
  let ?n = "length (sl_clients rs)"
  let ?f = "\<lambda>k. (sl_poll rs + k) mod ?n"
  let ?bad = "{sl_repos rs ! i | i. i < ?n \<and> isl (ans (sl_clients rs ! i))}"
  have n: "0 < ?n" using ne by simp
  have f: "pollIndex rs k = int (?f k) \<and> ?f k < ?n" for k using pollIndex_mod[OF p ne, of k] n by simp
  obtain fs w' where r: "pollRepos n g rs [0..<?n] [] w
        = Some (Some (concat (map (\<lambda>k. okJobs ans (sl_clients rs ! ?f k)) [0..<?n]), fs), w')"
      and dfs: "distinct (map fst fs)"
      and fs: "fst ` set fs = {sl_repos rs ! ?f k | k. k \<in> set [0..<?n] \<and> isl (ans (sl_clients rs ! ?f k))}"
    using pollRepos_ok[OF ans len f, of "[]" "[0..<?n]" w] by auto
  have keys: "fst ` set fs = ?bad"
  proof
    show "fst ` set fs \<subseteq> ?bad" using fs n by auto
    show "?bad \<subseteq> fst ` set fs" using fs rotation_onto[of _ ?n "sl_poll rs"] by fastforce
  qed
  have lenfs: "length fs = card ?bad" using keys dfs by (metis distinct_card length_map set_map)
  have all: "length fs = ?n \<longleftrightarrow> (\<forall>c \<in> set (sl_clients rs). isl (ans c))"
    using selected_all[OF d len, of "\<lambda>c. isl (ans c)"] lenfs by simp
  have none: "fs = [] \<longleftrightarrow> (\<forall>c \<in> set (sl_clients rs). \<not> isl (ans c))"
    using selected_none[of "sl_repos rs" "sl_clients rs" "\<lambda>c. isl (ans c)"] keys
    by (metis image_is_empty set_empty)
  have poll: "(sl_poll rs + 1) mod 2 ^ 64 = sl_poll rs + 1" using p by simp
  have m: "mset (concat (map (\<lambda>k. okJobs ans (sl_clients rs ! ?f k)) [0..<?n]))
      = mset (concat (map (okJobs ans) (sl_clients rs)))"
    using rotation_concat[of "sl_clients rs" "okJobs ans" "sl_poll rs"] n by simp
  show ?thesis using r m all none keys ne poll n
    by (auto simp: setQueuedJobs_def AllFailed_def)
qed

definition demoAnswer :: "client \<Rightarrow> gerr + queued_job list" where
  "demoAnswer c = (case QueuedWorkflowJobs 2 demoServer c () of Some (a, w) \<Rightarrow> a | None \<Rightarrow> Inr [])"

lemma demoServer_answers: "answers 2 demoServer (sl_clients demoSet) demoAnswer"
proof -
  have "\<exists>w'. QueuedWorkflowJobs 2 demoServer c () = Some (demoAnswer c, w')" if sc: "cn_scope c = ''repo''" for c
  proof -
    have "\<forall>s \<in> set pollStatuses. length (demoRuns s) \<le> 2" "\<forall>i. length (demoJobs i) \<le> 2"
      by (simp_all add: pollStatuses_def demoRuns_def demoJobs_def)
    then obtain js where "QueuedWorkflowJobs 2 demoServer c () = Some (Inr js, ())"
      using queued_jobs_returns[OF demoServer_serves sc, of 2 "()"] by auto
    then show ?thesis by (simp add: demoAnswer_def)
  qed
  then show ?thesis by (auto simp: answers_def demoSet_def NewRepoSet_def demoClient_def)
qed

theorem poll_asks_every_repository_witness:
  "\<exists>jobs err w'. setQueuedJobs 2 demoServer demoSet () = Some (Polled jobs err, demoSet\<lparr>sl_poll := 1\<rparr>, w')
    \<and> mset jobs = mset (concat (map (okJobs demoAnswer) (sl_clients demoSet)))"
proof -
  have 1: "length (sl_repos demoSet) = length (sl_clients demoSet)" "distinct (sl_repos demoSet)"
      "sl_clients demoSet \<noteq> []" "sl_poll demoSet < 2 ^ 63" "sl_poll demoSet = 0"
    by (simp_all add: demoSet_def NewRepoSet_def)
  show ?thesis using poll_asks_every_repository[OF demoServer_answers 1(1-4), of "()"] 1(5) by auto
qed

end
