(* ===== verification/Scaleset_Supervisor.thy ===== *)
theory Scaleset_Supervisor
  imports Go_Prelude
begin

text \<open>
  The scale-set session supervisor (\<open>internal/scaleset/supervisor.go\<close>): which errors end a
  session for good, the retry schedule, the restart loop of one session and the run of all
  sessions side by side.

  A session's \<open>Run\<close> function, the clock, the sleep and the context are the record
  \<open>sup_env\<close> of functions over an arbitrary world \<open>'w\<close>. The restart loop has no bound of its
  own: \<open>superviseSession n\<close> is the loop after at most \<open>n\<close> iterations, whose result is
  \<open>StillRunning\<close> with the failure count when it has not returned by then.
\<close>

section \<open>Permanent errors\<close>

definition isHTTPStatusMessage :: "string \<Rightarrow> string \<Rightarrow> bool" where
  "isHTTPStatusMessage message status =
     (contains message (''status='' @ [CHR 0x22] @ status @ '' '') \<or>
      contains message (''status code: '' @ status) \<or>
      contains message (''status code '' @ status))"

definition isHTTPStatus :: "gerr option \<Rightarrow> string \<Rightarrow> bool" where
  "isHTTPStatus err status =
     (case err of None \<Rightarrow> False | Some e \<Rightarrow> isHTTPStatusMessage (errMsg e) status)"

definition isPermanentSessionError :: "gerr option \<Rightarrow> bool" where
  "isPermanentSessionError err =
     (case err of
        None \<Rightarrow> False
      | Some e \<Rightarrow>
          errAsPermanent e \<or> errIs ErrInvalidGitHubConfigURL e \<or>
          list_ex (isHTTPStatusMessage (errMsg e)) [''400'', ''422''])"

definition classifySessionError :: "gerr \<Rightarrow> gerr" where
  "classifySessionError e = (if isPermanentSessionError (Some e) then Permanent e else e)"

text \<open>Messages only grow under wrapping, so a permanent error stays permanent.\<close>

lemma sublist_grow: "sublist t s \<Longrightarrow> sublist t (p @ s @ q)"
  by (meson sublist_append_leftI sublist_append_rightI sublist_order.order_trans)

lemma isHTTPStatusMessage_grow:
  "isHTTPStatusMessage m st \<Longrightarrow> isHTTPStatusMessage (p @ m @ q) st"
  by (auto simp: isHTTPStatusMessage_def intro: sublist_grow)

lemma isPermanent_Wrap:
  "isPermanentSessionError (Some e) \<Longrightarrow> isPermanentSessionError (Some (Wrap p e q))"
  by (auto simp: isPermanentSessionError_def intro: isHTTPStatusMessage_grow)

lemma isPermanent_Permanent [simp]: "isPermanentSessionError (Some (Permanent e))"
  by (simp add: isPermanentSessionError_def)

lemma classify_preserves:
  "isPermanentSessionError (Some (classifySessionError e)) = isPermanentSessionError (Some e)"
  by (simp add: classifySessionError_def)

section \<open>The retry schedule\<close>

text \<open>Durations are in nanoseconds. \<open>supervisorLoop k\<close> is the loop with \<open>k\<close> doublings left.\<close>

fun supervisorLoop :: "nat \<Rightarrow> int \<Rightarrow> int \<Rightarrow> int" where
  "supervisorLoop 0 delay maximum = (if delay > maximum then maximum else delay)"
| "supervisorLoop (Suc k) delay maximum =
     (if delay < maximum then
        (if delay > maximum div 2 then maximum else supervisorLoop k (delay * 2) maximum)
      else if delay > maximum then maximum else delay)"

definition supervisorBackoff :: "nat \<Rightarrow> int \<Rightarrow> int \<Rightarrow> int" where
  "supervisorBackoff failures initial maximum = supervisorLoop (failures - 1) initial maximum"

lemma supervisorLoop_closed:
  "0 < d \<Longrightarrow> supervisorLoop k d m = min m (d * 2 ^ k)"
proof (induction k arbitrary: d)
  case (Suc k)
  show ?case
  proof (cases "d < m")
    case True
    show ?thesis
    proof (cases "d > m div 2")
      case True
      then have "m \<le> d * 2" by linarith
      moreover have "d * 2 \<le> d * 2 ^ Suc k"
        using Suc.prems by (intro mult_left_mono) auto
      ultimately have "m \<le> d * 2 ^ Suc k" by linarith
      then show ?thesis using True \<open>d < m\<close> by (simp add: min_absorb1)
    next
      case False
      then show ?thesis using True Suc by (simp add: mult.assoc)
    qed
  next
    case False
    have "d * 1 \<le> d * 2 ^ Suc k"
      using Suc.prems one_le_power[of "2::int" "Suc k"] by (intro mult_left_mono) simp_all
    then show ?thesis using False by (auto simp: min_def)
  qed
qed (auto simp: min_def)

theorem supervisorBackoff_closed:
  "0 < initial \<Longrightarrow> supervisorBackoff n initial maximum = min maximum (initial * 2 ^ (n - 1))"
  by (simp add: supervisorBackoff_def supervisorLoop_closed)

section \<open>Supervising one session\<close>

datatype availability = SessionBackingOff | SessionAvailable | SessionPermanentlyUnavailable

record supervisor_config =
  sc_initialBackoff :: int
  sc_maxBackoff :: int
  sc_healthyAfter :: int

definition second :: int where
  "second = 1000000000"

definition defaultSupervisorConfig :: supervisor_config where
  "defaultSupervisorConfig =
     \<lparr>sc_initialBackoff = 2 * second, sc_maxBackoff = 60 * second, sc_healthyAfter = 60 * second\<rparr>"

interpretation sched: backoff_schedule
  "\<lambda>n. supervisorBackoff n (sc_initialBackoff defaultSupervisorConfig)
        (sc_maxBackoff defaultSupervisorConfig)"
  "sc_maxBackoff defaultSupervisorConfig"
proof unfold_locales
  fix m n :: nat
  assume "m \<le> n"
  then have "(2::int) ^ (m - 1) \<le> 2 ^ (n - 1)" by (intro power_increasing) auto
  then show "supervisorBackoff m (sc_initialBackoff defaultSupervisorConfig)
        (sc_maxBackoff defaultSupervisorConfig)
      \<le> supervisorBackoff n (sc_initialBackoff defaultSupervisorConfig)
        (sc_maxBackoff defaultSupervisorConfig)"
    by (simp add: supervisorBackoff_closed defaultSupervisorConfig_def second_def min_le_iff_disj)
qed (auto simp: supervisorBackoff_closed defaultSupervisorConfig_def second_def)

text \<open>
  \<open>se_run\<close> says whether the session called its \<open>available\<close> callback (reported at most once,
  through \<open>sync.Once\<close>) and how it ended; \<open>se_sleep\<close> is false when the context ended first.
\<close>

record 'w sup_env =
  se_ctxErr :: "'w \<Rightarrow> bool"
  se_now :: "'w \<Rightarrow> int"
  se_run :: "'w \<Rightarrow> (bool \<times> gerr option) \<times> 'w"
  se_sleep :: "'w \<Rightarrow> int \<Rightarrow> bool \<times> 'w"

datatype sup_event = Report availability | Sleep int

datatype session_result = StillRunning nat | Stopped "gerr option"

fun superviseLoop ::
  "nat \<Rightarrow> 'w sup_env \<Rightarrow> supervisor_config \<Rightarrow> string \<Rightarrow> nat \<Rightarrow> 'w
   \<Rightarrow> session_result \<times> sup_event list \<times> 'w" where
  "superviseLoop 0 env cfg name failures w = (StillRunning failures, [], w)"
| "superviseLoop (Suc n) env cfg name failures w =
     (if se_ctxErr env w then (Stopped None, [], w)
      else
        (let started = se_now env w;
             ((avail, err), w1) = se_run env w;
             evs = (if avail then [Report SessionAvailable] else [])
         in
         if isPermanentSessionError err then
           (Stopped (map_option (errorf (''scale set '' @ goQuote name @ '' failed permanently: '')) err),
            evs @ [Report SessionPermanentlyUnavailable], w1)
         else if se_ctxErr env w1 then (Stopped None, evs, w1)
         else
           (let failures1 = Suc (if se_now env w1 - started \<ge> sc_healthyAfter cfg then 0 else failures);
                delay = supervisorBackoff failures1 (sc_initialBackoff cfg) (sc_maxBackoff cfg);
                (awake, w2) = se_sleep env w1 delay;
                evs2 = evs @ [Report SessionBackingOff, Sleep delay]
            in if \<not> awake then (Stopped None, evs2, w2)
               else (let (r, evs3, w3) = superviseLoop n env cfg name failures1 w2
                     in (r, evs2 @ evs3, w3)))))"

definition superviseSession ::
  "nat \<Rightarrow> 'w sup_env \<Rightarrow> supervisor_config \<Rightarrow> string \<Rightarrow> 'w
   \<Rightarrow> session_result \<times> sup_event list \<times> 'w" where
  "superviseSession n env cfg name w =
     (let (r, evs, w1) = superviseLoop n env cfg name 0 w
      in (r, Report SessionBackingOff # evs, w1))"

section \<open>Running all sessions\<close>

text \<open>
  Every session has its own goroutine and its own world; the errors are collected by index
  and joined. \<open>None\<close> for the \<open>Run\<close> function is a nil function.
\<close>

record 'w supervised_session =
  ss_Name :: string
  ss_Run :: "'w sup_env option"
  ss_World :: 'w

fun checkSessions :: "'w supervised_session list \<Rightarrow> gerr option" where
  "checkSessions [] = None"
| "checkSessions (s # ss) =
     (if ss_Name s = [] then Some (Leaf ''scale set session name is required'')
      else if ss_Run s = None
      then Some (Leaf (''scale set '' @ goQuote (ss_Name s) @ '' session function is required''))
      else checkSessions ss)"

definition sessionError :: "session_result \<Rightarrow> gerr option" where
  "sessionError r = (case r of Stopped (Some e) \<Rightarrow> Some e | _ \<Rightarrow> None)"

definition runSession ::
  "nat \<Rightarrow> supervisor_config \<Rightarrow> 'w supervised_session \<Rightarrow> session_result \<times> sup_event list" where
  "runSession n cfg s =
     (case ss_Run s of
        None \<Rightarrow> (Stopped None, [])
      | Some env \<Rightarrow> (let (r, evs, _) = superviseSession n env cfg (ss_Name s) (ss_World s) in (r, evs)))"

definition runSupervised ::
  "nat \<Rightarrow> supervisor_config \<Rightarrow> 'w supervised_session list
   \<Rightarrow> gerr option \<times> (session_result \<times> sup_event list) list" where
  "runSupervised n cfg sessions =
     (case checkSessions sessions of
        Some e \<Rightarrow> (Some e, [])
      | None \<Rightarrow>
          (let rs = map (runSession n cfg) sessions
           in (joinErrs (List.map_filter (\<lambda>r. sessionError (fst r)) rs), rs)))"

section \<open>Properties of the restart loop\<close>

lemma superviseLoop_error_permanent:
  "superviseLoop n env cfg name k w = (Stopped (Some e), evs, w') \<Longrightarrow>
     isPermanentSessionError (Some e) \<and> last evs = Report SessionPermanentlyUnavailable \<and> evs \<noteq> []"
proof (induction n arbitrary: k w evs w')
  case (Suc n)
  show ?case
  proof (cases "se_ctxErr env w")
    case False
    obtain avail err w1 where run: "se_run env w = ((avail, err), w1)"
      by (metis prod.exhaust)
    show ?thesis
    proof (cases "isPermanentSessionError err")
      case True
      with Suc.prems False run show ?thesis
        by (cases err) (auto simp: Let_def intro: isPermanent_Wrap)
    next
      case nperm: False
      obtain awake w2 where sl: "se_sleep env w1
          (supervisorBackoff (Suc (if se_now env w1 - se_now env w \<ge> sc_healthyAfter cfg then 0 else k))
            (sc_initialBackoff cfg) (sc_maxBackoff cfg)) = (awake, w2)"
        by (metis prod.exhaust)
      show ?thesis
        using Suc.prems False run nperm sl Suc.IH
        by (auto simp: Let_def split: if_splits prod.splits)
    qed
  qed (use Suc.prems in auto)
qed simp

lemma superviseSession_error_permanent:
  assumes "superviseSession n env cfg name w = (Stopped (Some e), evs, w')"
  shows "isPermanentSessionError (Some e) \<and> last evs = Report SessionPermanentlyUnavailable"
  using assms superviseLoop_error_permanent[of n env cfg name 0 w e]
  by (auto simp: superviseSession_def split: prod.splits)

text \<open>
  a session ends with an error exactly for a permanent failure. The returned error is
  permanent, the last state reported before it is \<open>SessionPermanentlyUnavailable\<close>, and no
  retry follows it.
\<close>

theorem supervised_session_error_is_permanent:
  assumes "superviseSession n env cfg name w = (Stopped (Some e), evs, w')"
  shows "isPermanentSessionError (Some e) \<and> last evs = Report SessionPermanentlyUnavailable"
  using superviseSession_error_permanent[OF assms] .

text \<open>The delays slept by a session.\<close>

definition sleeps :: "sup_event list \<Rightarrow> int list" where
  "sleeps evs = List.map_filter (\<lambda>e. case e of Sleep d \<Rightarrow> Some d | Report _ \<Rightarrow> None) evs"

lemma sleeps_simps [simp]:
  "sleeps [] = []" "sleeps (Report a # evs) = sleeps evs"
  "sleeps (Sleep d # evs) = d # sleeps evs" "sleeps (xs @ ys) = sleeps xs @ sleeps ys"
  by (simp_all add: sleeps_def List.map_filter_def)

text \<open>
  A context that never ends, a sleep that always wakes and a session that only fails
  recoverably: the hypotheses of the liveness theorem.
\<close>

definition persistent_failures :: "'w sup_env \<Rightarrow> bool" where
  "persistent_failures env \<longleftrightarrow>
     (\<forall>w. \<not> se_ctxErr env w) \<and> (\<forall>w d. fst (se_sleep env w d)) \<and>
     (\<forall>w. \<not> isPermanentSessionError (snd (fst (se_run env w))))"

lemma superviseLoop_persistent:
  assumes "persistent_failures env"
  shows "\<exists>f evs w'. superviseLoop n env cfg name k w = (StillRunning f, evs, w')
     \<and> length (sleeps evs) = n
     \<and> (\<forall>d \<in> set (sleeps evs). \<exists>j. d = supervisorBackoff (Suc j) (sc_initialBackoff cfg) (sc_maxBackoff cfg))"
proof (induction n arbitrary: k w)
  case (Suc n)
  obtain avail err w1 where run: "se_run env w = ((avail, err), w1)"
    by (metis prod.exhaust)
  let ?j = "if se_now env w1 - se_now env w \<ge> sc_healthyAfter cfg then 0 else k"
  let ?d = "supervisorBackoff (Suc ?j) (sc_initialBackoff cfg) (sc_maxBackoff cfg)"
  obtain awake w2 where sl: "se_sleep env w1 ?d = (awake, w2)"
    by (metis prod.exhaust)
  have facts: "\<not> se_ctxErr env w" "\<not> se_ctxErr env w1" "awake" "\<not> isPermanentSessionError err"
    using assms run sl unfolding persistent_failures_def by (metis fst_conv snd_conv)+
  obtain f evs w' where rec: "superviseLoop n env cfg name (Suc ?j) w2 = (StillRunning f, evs, w')"
    and len: "length (sleeps evs) = n"
    and each: "\<forall>d \<in> set (sleeps evs). \<exists>j. d = supervisorBackoff (Suc j) (sc_initialBackoff cfg) (sc_maxBackoff cfg)"
    using Suc.IH by blast
  show ?case
    using facts run sl rec len each by (auto simp: Let_def)
qed simp

text \<open>
  C33: a required session is never given up. While the context lives and failures are
  recoverable, the loop is still running after any number \<open>n\<close> of iterations, has slept
  exactly once per failure, and every delay lies between the initial and the maximal
  backoff.
\<close>

theorem supervised_session_never_gives_up:
  assumes "persistent_failures env"
  shows "\<exists>f evs w'. superviseSession n env defaultSupervisorConfig name w = (StillRunning f, evs, w')
     \<and> length (sleeps evs) = n
     \<and> (\<forall>d \<in> set (sleeps evs). 2 * second \<le> d \<and> d \<le> 60 * second)"
proof -
  obtain f evs w' where
    r: "superviseLoop n env defaultSupervisorConfig name 0 w = (StillRunning f, evs, w')"
    and len: "length (sleeps evs) = n"
    and each: "\<forall>d \<in> set (sleeps evs). \<exists>j. d = supervisorBackoff (Suc j)
        (sc_initialBackoff defaultSupervisorConfig) (sc_maxBackoff defaultSupervisorConfig)"
    using superviseLoop_persistent[OF assms] by blast
  have "2 * second \<le> d \<and> d \<le> 60 * second" if "d \<in> set (sleeps evs)" for d
  proof -
    from that each obtain j where "d = supervisorBackoff (Suc j)
        (sc_initialBackoff defaultSupervisorConfig) (sc_maxBackoff defaultSupervisorConfig)"
      by blast
    moreover have "(1::int) \<le> 2 ^ j" by simp
    ultimately show ?thesis
      by (simp add: supervisorBackoff_closed defaultSupervisorConfig_def second_def)
  qed
  with r len show ?thesis by (simp add: superviseSession_def)
qed

text \<open>
  Sessions are independent and their permanent failures all surface. The combined error
  of \<open>runSupervised\<close> is nil exactly when every session function is present and no session
  failed permanently.
\<close>

theorem runSupervised_error_iff:
  "fst (runSupervised n cfg sessions) = None \<longleftrightarrow>
     (\<forall>s \<in> set sessions. ss_Name s \<noteq> [] \<and> ss_Run s \<noteq> None \<and>
        sessionError (fst (runSession n cfg s)) = None)"
proof -
  have chk: "checkSessions ss = None \<longleftrightarrow> (\<forall>s \<in> set ss. ss_Name s \<noteq> [] \<and> ss_Run s \<noteq> None)"
    for ss :: "'a supervised_session list"
    by (induction ss) auto
  have mf: "List.map_filter f xs = [] \<longleftrightarrow> (\<forall>x \<in> set xs. f x = None)"
    for f :: "session_result \<times> sup_event list \<Rightarrow> gerr option" and xs
    by (induction xs) (auto simp: List.map_filter_def)
  show ?thesis
  proof (cases "checkSessions sessions")
    case None
    then show ?thesis using chk[of sessions]
      by (auto simp: runSupervised_def Let_def mf)
  next
    case (Some e)
    then show ?thesis using chk[of sessions] by (auto simp: runSupervised_def)
  qed
qed

section \<open>Concrete sessions\<close>

text \<open>A session that always fails with the given error, one tick of the clock after it started.\<close>

definition failingSession :: "gerr \<Rightarrow> nat sup_env" where
  "failingSession e =
     \<lparr>se_ctxErr = (\<lambda>w. False), se_now = (\<lambda>w. int w), se_run = (\<lambda>w. ((False, Some e), Suc w)),
      se_sleep = (\<lambda>w d. (True, w))\<rparr>"

theorem supervised_session_error_is_permanent_witness:
  "last (fst (snd (superviseSession 3 (failingSession (Permanent (Leaf ''bad''))) defaultSupervisorConfig ''linux'' 0)))
     = Report SessionPermanentlyUnavailable"
proof -
  let ?r = "superviseSession 3 (failingSession (Permanent (Leaf ''bad''))) defaultSupervisorConfig ''linux'' 0"
  let ?e = "errorf (''scale set '' @ goQuote ''linux'' @ '' failed permanently: '') (Permanent (Leaf ''bad''))"
  have "fst ?r = Stopped (Some ?e)" by code_simp
  then have "?r = (Stopped (Some ?e), fst (snd ?r), snd (snd ?r))" by (metis prod.collapse)
  from supervised_session_error_is_permanent[OF this] show ?thesis by simp
qed

theorem supervised_session_never_gives_up_witness:
  "\<exists>f evs w'. superviseSession 100 (failingSession (Leaf ''timeout'')) defaultSupervisorConfig ''linux'' 0
     = (StillRunning f, evs, w') \<and> length (sleeps evs) = 100"
proof -
  have "\<not> isPermanentSessionError (Some (Leaf ''timeout''))" by code_simp
  then have "persistent_failures (failingSession (Leaf ''timeout''))"
    by (simp add: persistent_failures_def failingSession_def)
  from supervised_session_never_gives_up[OF this, of 100 "''linux''" 0] show ?thesis by blast
qed

definition demoSession :: "string \<Rightarrow> gerr \<Rightarrow> nat supervised_session" where
  "demoSession name e = \<lparr>ss_Name = name, ss_Run = Some (failingSession e), ss_World = 0\<rparr>"

theorem runSupervised_error_iff_witness:
  "fst (runSupervised 2 defaultSupervisorConfig [demoSession ''a'' (Leaf ''t''), demoSession ''b'' (Leaf ''t'')]) = None
   \<and> fst (runSupervised 2 defaultSupervisorConfig
          [demoSession ''a'' (Leaf ''t''), demoSession ''b'' (Permanent (Leaf ''p''))]) \<noteq> None"
proof -
  have "sessionError (fst (runSession 2 defaultSupervisorConfig (demoSession n (Leaf ''t'')))) = None"
    if "n \<in> {''a'', ''b''}" for n using that by (elim insertE) (simp_all, code_simp+)
  moreover have "sessionError (fst (runSession 2 defaultSupervisorConfig (demoSession ''b'' (Permanent (Leaf ''p''))))) \<noteq> None"
    by code_simp
  ultimately show ?thesis
    by (auto simp: runSupervised_error_iff demoSession_def)
qed

end
