(* ===== verification/Scaleset_Launcher.thy ===== *)
theory Scaleset_Launcher
  imports Backend Scaleset_Supervisor
begin

text \<open>
  The scale-set launcher (\<open>internal/scaleset/launcher.go\<close>, \<open>launcher_cleanup.go\<close>): the
  component that turns the runner count GitHub asks for into backend launches, and cleans up
  after every runner.

  The Go code shares \<open>*runnerState\<close> objects between the \<open>running\<close> map and the goroutines that
  wait for or clean up a runner. Here they live in a heap (\<open>la_heap\<close>); a pointer is an index,
  \<open>la_running\<close> maps names to pointers, and \<open>current == state\<close> is equality of indices.
  The hook calls (\<open>OnStart\<close>, \<open>OnStop\<close>) and the goroutines started are recorded in the state.
  The JIT client, the backend and the clock's deadlines are the record \<open>api\<close> over an
  arbitrary world \<open>'w\<close>; a launch answers with a handle, or with an error and perhaps a handle
  (the backends never answer with neither: \<open>runner_backend\<close> in \<^verbatim>\<open>Backend.thy\<close>). Time-outs are
  part of the answers. The mutexes make each section below atomic.

  First come the operations as the code composes them, then the step relation \<open>lstep\<close> whose
  steps are the mutex-protected sections, in any order the goroutines may run them, with its
  invariant. \<^verbatim>\<open>Scaleset_Refinement.thy\<close> shows that every operation is a run of \<open>lstep\<close>.
\<close>

section \<open>State\<close>

record runner_state =
  rs_handle :: string
  rs_runnerID :: int
  rs_busy :: bool
  rs_completionAccounted :: bool
  rs_occupiesCapacity :: bool
  rs_cleanupStarted :: bool
  rs_needsDeregistration :: bool
  rs_registrationRemoved :: bool
  rs_terminated :: bool
  rs_cleaned :: bool
  rs_stopReported :: bool
  rs_exitCode :: int
  rs_waitErr :: "gerr option"

record options =
  op_ScaleSetID :: int
  op_Image :: string
  op_WorkFolder :: string
  op_Labels :: "string list"
  op_Env :: "(string \<times> string) list"
  op_Mounts :: "mount list"
  op_Container :: container_settings
  op_MaxRunners :: int
  op_Ownership :: ownership
  op_hasOnStart :: bool
  op_hasOnStop :: bool

datatype hook = OnStart | OnStop int "gerr option"

datatype goroutine = AwaitExit string nat | PartialCleanup string nat

record launcher =
  la_opts :: options
  la_running :: "(string \<times> nat) list"
  la_heap :: "runner_state list"
  la_pendingRegistrations :: "(int \<times> string) list"
  la_pendingExits :: "(string \<times> int) list"
  la_completions :: "string list"
  la_seq :: int
  la_desired :: int
  la_stopped :: bool
  la_hooks :: "hook list"
  la_spawned :: "goroutine list"

record jit_config =
  jc_EncodedJITConfig :: string
  jc_Runner :: "int option"

record 'w owned_store =
  os_list :: "'w \<Rightarrow> ownership \<Rightarrow> (gerr + owned_runner list) \<times> 'w"
  os_remove :: "'w \<Rightarrow> string \<Rightarrow> gerr option \<times> 'w"

record 'w api =
  ap_shortID :: "'w \<Rightarrow> (gerr + string) \<times> 'w"
  ap_jit :: "'w \<Rightarrow> string \<Rightarrow> string \<Rightarrow> int \<Rightarrow> (gerr + jit_config option) \<times> 'w"
  ap_launch :: "'w \<Rightarrow> launch_request \<Rightarrow> launch_result \<times> 'w"
  ap_kill :: "'w \<Rightarrow> string \<Rightarrow> gerr option \<times> 'w"
  ap_removeRunner :: "'w \<Rightarrow> int \<Rightarrow> gerr option \<times> 'w"
  ap_backendName :: string
  ap_store :: "'w owned_store option"
  ap_ctxErr :: "'w \<Rightarrow> bool"
  ap_callErr :: "'w \<Rightarrow> bool"

definition newLauncher :: "options \<Rightarrow> launcher" where
  "newLauncher opts =
     \<lparr>la_opts = (if ow_ScaleSetID (op_Ownership opts) = 0
        then opts\<lparr>op_Ownership := (op_Ownership opts)\<lparr>ow_ScaleSetID := op_ScaleSetID opts\<rparr>\<rparr> else opts),
      la_running = [], la_heap = [], la_pendingRegistrations = [], la_pendingExits = [],
      la_completions = [], la_seq = 0, la_desired = 0, la_stopped = False,
      la_hooks = [], la_spawned = []\<rparr>"

definition emitStart :: "launcher \<Rightarrow> launcher" where
  "emitStart l = (if op_hasOnStart (la_opts l) then l\<lparr>la_hooks := la_hooks l @ [OnStart]\<rparr> else l)"

definition emitStop :: "launcher \<Rightarrow> int \<Rightarrow> gerr option \<Rightarrow> launcher" where
  "emitStop l code err =
     (if op_hasOnStop (la_opts l) then l\<lparr>la_hooks := la_hooks l @ [OnStop code err]\<rparr> else l)"

definition setState :: "launcher \<Rightarrow> nat \<Rightarrow> (runner_state \<Rightarrow> runner_state) \<Rightarrow> launcher" where
  "setState l r f = l\<lparr>la_heap := (la_heap l)[r := f (la_heap l ! r)]\<rparr>"

section \<open>Capacity\<close>

definition occupies :: "launcher \<Rightarrow> nat \<Rightarrow> bool" where
  "occupies l r = rs_occupiesCapacity (la_heap l ! r)"

definition runningLocked :: "launcher \<Rightarrow> int" where
  "runningLocked l = int (length (filter (\<lambda>(n, r). occupies l r) (la_running l)))"

definition allowedLocked :: "launcher \<Rightarrow> int \<Rightarrow> int" where
  "allowedLocked l want0 =
     (let want = want0 - int (length (la_pendingExits l));
          have = runningLocked l
      in if want \<le> have then 0
         else (let start = want - have
               in if op_MaxRunners (la_opts l) > 0 then
                    (let free = op_MaxRunners (la_opts l) - have
                     in if free \<le> 0 then 0 else if start > free then free else start)
                  else start))"

section \<open>Removing registrations\<close>

definition removeRunner :: "'w api \<Rightarrow> 'w \<Rightarrow> int \<Rightarrow> gerr option \<times> 'w" where
  "removeRunner api w rid =
     (if rid = 0 then (None, w)
      else (let (err, w1) = ap_removeRunner api w rid
            in case err of
                 None \<Rightarrow> (None, w1)
               | Some e \<Rightarrow>
                   if errIs UpstreamRunnerNotFound e \<or> isHTTPStatus (Some e) ''404''
                   then (None, w1) else (Some e, w1)))"

fun retryRegistrations ::
  "'w api \<Rightarrow> (int \<times> string) list \<Rightarrow> launcher \<Rightarrow> 'w \<Rightarrow> gerr list \<times> launcher \<times> 'w" where
  "retryRegistrations api [] l w = ([], l, w)"
| "retryRegistrations api ((rid, name) # ps) l w =
     (case removeRunner api w rid of
        (Some e, w1) \<Rightarrow>
          (let (es, l2, w2) = retryRegistrations api ps l w1
           in (errorf (''remove unused runner '' @ name @ '': '') e # es, l2, w2))
      | (None, w1) \<Rightarrow>
          retryRegistrations api ps
            (l\<lparr>la_pendingRegistrations := AList.delete rid (la_pendingRegistrations l)\<rparr>) w1)"

definition retryPendingRegistrations ::
  "'w api \<Rightarrow> launcher \<Rightarrow> 'w \<Rightarrow> gerr option \<times> launcher \<times> 'w" where
  "retryPendingRegistrations api l w =
     (let (es, l1, w1) = retryRegistrations api (la_pendingRegistrations l) l w
      in (joinErrs es, l1, w1))"

section \<open>Launching\<close>

definition runnerName :: "launcher \<Rightarrow> string \<Rightarrow> string" where
  "runnerName l sid = ''mr-scaleset-'' @ formatInt (op_ScaleSetID (la_opts l)) @ ''-'' @ sid"

definition freshState :: "string \<Rightarrow> int \<Rightarrow> bool \<Rightarrow> runner_state" where
  "freshState hid rid stopReported =
     \<lparr>rs_handle = hid, rs_runnerID = rid, rs_busy = False, rs_completionAccounted = False,
      rs_occupiesCapacity = True, rs_cleanupStarted = False, rs_needsDeregistration = False,
      rs_registrationRemoved = False, rs_terminated = False, rs_cleaned = False,
      rs_stopReported = stopReported, rs_exitCode = 0, rs_waitErr = None\<rparr>"

definition addRunner :: "launcher \<Rightarrow> string \<Rightarrow> runner_state \<Rightarrow> launcher" where
  "addRunner l name s =
     l\<lparr>la_heap := la_heap l @ [s],
       la_running := AList.update name (length (la_heap l)) (la_running l)\<rparr>"

definition spawn :: "launcher \<Rightarrow> goroutine \<Rightarrow> launcher" where
  "spawn l g = l\<lparr>la_spawned := la_spawned l @ [g]\<rparr>"

definition launchRequest :: "launcher \<Rightarrow> string \<Rightarrow> string \<Rightarrow> int \<Rightarrow> launch_request" where
  "launchRequest l name encoded rid =
     \<lparr>lr_Name = name, lr_Image = op_Image (la_opts l), lr_EncodedJITConfig = encoded,
      lr_WorkFolder = op_WorkFolder (la_opts l), lr_Labels = op_Labels (la_opts l),
      lr_Env = op_Env (la_opts l), lr_Mounts = op_Mounts (la_opts l),
      lr_Container = op_Container (la_opts l), lr_Index = la_seq l,
      lr_Ownership = (op_Ownership (la_opts l))\<lparr>ow_RunnerID := rid\<rparr>\<rparr>"

definition launchBackend ::
  "'w api \<Rightarrow> launcher \<Rightarrow> 'w \<Rightarrow> string \<Rightarrow> string \<Rightarrow> int \<Rightarrow> gerr option \<times> launcher \<times> 'w" where
  "launchBackend api l w name encoded rid =
     (case ap_launch api w (launchRequest l name encoded rid) of
        (Launched hid, w1) \<Rightarrow>
          (None, spawn (addRunner l name (freshState hid rid False))
                   (AwaitExit name (length (la_heap l))), w1)
      | (LaunchFailed e h, w1) \<Rightarrow>
          (let launchErr = errorf (''scaleset: launch '' @ name @ '': '') e
           in case h of
                Some hid \<Rightarrow>
                  (Some launchErr, spawn (addRunner l name (freshState hid rid True))
                     (PartialCleanup name (length (la_heap l))), w1)
              | None \<Rightarrow>
                  (case removeRunner api w1 rid of
                     (Some re, w2) \<Rightarrow>
                       (Some (Join [launchErr,
                          errorf (''scaleset: remove unused runner '' @ name @ '': '') re]),
                        l\<lparr>la_pendingRegistrations :=
                            AList.update rid name (la_pendingRegistrations l)\<rparr>, w2)
                   | (None, w2) \<Rightarrow> (Some launchErr, l, w2))))"

definition launchBody :: "'w api \<Rightarrow> launcher \<Rightarrow> 'w \<Rightarrow> gerr option \<times> launcher \<times> 'w" where
  "launchBody api l w =
     (case ap_shortID api w of
        (Inl e, w1) \<Rightarrow> (Some (errorf ''scaleset: generate runner name: '' e), l, w1)
      | (Inr sid, w1) \<Rightarrow>
          (let name = runnerName l sid
           in case ap_jit api w1 name (op_WorkFolder (la_opts l)) (op_ScaleSetID (la_opts l)) of
                (Inl e, w2) \<Rightarrow>
                  (Some (errorf (''scaleset: generate JIT config for '' @ name @ '': '') e), l, w2)
              | (Inr None, w2) \<Rightarrow>
                  (Some (Leaf (''scaleset: generate JIT config for '' @ name @ '' returned nil'')), l, w2)
              | (Inr (Some jit), w2) \<Rightarrow>
                  (case jc_Runner jit of
                     Some rid \<Rightarrow>
                       (if rid = 0
                        then (Some (Leaf (''scaleset: generate JIT config for '' @ name
                                @ '' returned no runner identity'')), l, w2)
                        else launchBackend api l w2 name (jc_EncodedJITConfig jit) rid)
                   | None \<Rightarrow> (Some (Leaf (''scaleset: generate JIT config for '' @ name
                                @ '' returned no runner identity'')), l, w2))))"

definition launchLocked :: "'w api \<Rightarrow> launcher \<Rightarrow> 'w \<Rightarrow> gerr option \<times> launcher \<times> 'w" where
  "launchLocked api l w =
     (let l0 = emitStart l;
          (err, l1, w1) = launchBody api (l0\<lparr>la_seq := la_seq l0 + 1\<rparr>) w
      in case err of None \<Rightarrow> (None, l1, w1) | Some e \<Rightarrow> (Some e, emitStop l1 (-1) (Some e), w1))"

fun launchN :: "nat \<Rightarrow> 'w api \<Rightarrow> launcher \<Rightarrow> 'w \<Rightarrow> gerr option \<times> launcher \<times> 'w" where
  "launchN 0 api l w = (None, l, w)"
| "launchN (Suc n) api l w =
     (case launchLocked api l w of
        (Some e, l1, w1) \<Rightarrow> (Some e, l1, w1)
      | (None, l1, w1) \<Rightarrow> launchN n api l1 w1)"

section \<open>Cleaning up one runner\<close>

text \<open>The four sections of \<open>finishRunner\<close> that write shared state.\<close>

definition frEnter :: "launcher \<Rightarrow> nat \<Rightarrow> int \<Rightarrow> gerr option \<Rightarrow> bool \<Rightarrow> launcher" where
  "frEnter l r code waitErr terminate = setState l r (\<lambda>s.
     if \<not> rs_cleanupStarted s then
       s\<lparr>rs_cleanupStarted := True, rs_exitCode := code, rs_waitErr := waitErr,
         rs_needsDeregistration := (terminate \<or> \<not> rs_busy s)\<rparr>
     else if \<not> terminate then s\<lparr>rs_exitCode := code, rs_waitErr := waitErr\<rparr>
     else s)"

definition frTerminated :: "launcher \<Rightarrow> nat \<Rightarrow> launcher" where
  "frTerminated l r =
     (let s = la_heap l ! r;
          l1 = setState l r (\<lambda>s. s\<lparr>rs_terminated := True, rs_occupiesCapacity := False,
                                   rs_stopReported := True\<rparr>)
      in if rs_stopReported s then l1 else emitStop l1 (rs_exitCode s) (rs_waitErr s))"

definition frDeregistered :: "launcher \<Rightarrow> nat \<Rightarrow> launcher" where
  "frDeregistered l r = setState l r (\<lambda>s. s\<lparr>rs_registrationRemoved := True\<rparr>)"

definition frCleaned :: "launcher \<Rightarrow> string \<Rightarrow> nat \<Rightarrow> launcher" where
  "frCleaned l name r =
     (let l1 = setState l r (\<lambda>s. s\<lparr>rs_cleaned := True\<rparr>)
      in if map_of (la_running l1) name = Some r
         then l1\<lparr>la_running := AList.delete name (la_running l1)\<rparr> else l1)"

definition needsRemoval :: "runner_state \<Rightarrow> bool" where
  "needsRemoval s = (rs_runnerID s \<noteq> 0 \<and> rs_needsDeregistration s \<and> \<not> rs_registrationRemoved s)"

text \<open>The part after a confirmed termination: deregister, then drop the backend record.\<close>

definition frRelease ::
  "'w api \<Rightarrow> launcher \<Rightarrow> 'w \<Rightarrow> string \<Rightarrow> nat \<Rightarrow> gerr option \<times> launcher \<times> 'w" where
  "frRelease api l w name r =
     (case ap_store api of
        None \<Rightarrow> (Some (Leaf (''backend '' @ goQuote (ap_backendName api)
                    @ '' does not support scale-set ownership cleanup'')), l, w)
      | Some store \<Rightarrow>
          (case os_remove store w (rs_handle (la_heap l ! r)) of
             (Some e, w1) \<Rightarrow> (Some (errorf (''remove backend runner '' @ name @ '': '') e), l, w1)
           | (None, w1) \<Rightarrow> (rs_waitErr (la_heap l ! r), frCleaned l name r, w1)))"

definition frDeregister ::
  "'w api \<Rightarrow> launcher \<Rightarrow> 'w \<Rightarrow> string \<Rightarrow> nat \<Rightarrow> gerr option \<times> launcher \<times> 'w" where
  "frDeregister api l w name r =
     (if needsRemoval (la_heap l ! r) then
        (case removeRunner api w (rs_runnerID (la_heap l ! r)) of
           (Some e, w1) \<Rightarrow> (Some (errorf (''remove runner '' @ name @ '': '') e), l, w1)
         | (None, w1) \<Rightarrow> frRelease api (frDeregistered l r) w1 name r)
      else frRelease api l w name r)"

definition finishRunner ::
  "'w api \<Rightarrow> launcher \<Rightarrow> 'w \<Rightarrow> string \<Rightarrow> nat \<Rightarrow> int \<Rightarrow> gerr option \<Rightarrow> bool
   \<Rightarrow> gerr option \<times> launcher \<times> 'w" where
  "finishRunner api l w name r code waitErr terminate =
     (if rs_cleaned (la_heap l ! r) then (None, l, w)
      else
        (let l1 = frEnter l r code waitErr terminate
         in if rs_terminated (la_heap l1 ! r) then frDeregister api l1 w name r
            else if terminate then
              (case ap_kill api w (rs_handle (la_heap l1 ! r)) of
                 (Some e, w1) \<Rightarrow> (Some (errorf (''kill '' @ name @ '': '') e), l1, w1)
               | (None, w1) \<Rightarrow> frDeregister api (frTerminated l1 r) w1 name r)
            else frDeregister api (frTerminated l1 r) w name r))"

fun retryCleanup ::
  "'w api \<Rightarrow> (string \<times> nat) list \<Rightarrow> launcher \<Rightarrow> 'w \<Rightarrow> gerr list \<times> launcher \<times> 'w" where
  "retryCleanup api [] l w = ([], l, w)"
| "retryCleanup api ((name, r) # ps) l w =
     (let s = la_heap l ! r;
          (err, l1, w1) = finishRunner api l w name r (rs_exitCode s) (rs_waitErr s) True;
          es = (case err of Some e \<Rightarrow> [e] | None \<Rightarrow> [])
      in if ap_callErr api w1 then (es, l1, w1)
         else (let (es2, l2, w2) = retryCleanup api ps l1 w1 in (es @ es2, l2, w2)))"

definition retryPendingCleanup ::
  "'w api \<Rightarrow> launcher \<Rightarrow> 'w \<Rightarrow> gerr option \<times> launcher \<times> 'w" where
  "retryPendingCleanup api l w =
     (let (es, l1, w1) =
        retryCleanup api (filter (\<lambda>(n, r). rs_cleanupStarted (la_heap l ! r)) (la_running l)) l w
      in (joinErrs es, l1, w1))"

section \<open>The listener's callbacks\<close>

fun accountCompletions :: "string list \<Rightarrow> launcher \<Rightarrow> launcher" where
  "accountCompletions [] l = l"
| "accountCompletions (name # ns) l =
     (let l1 = l\<lparr>la_pendingExits := AList.delete name (la_pendingExits l)\<rparr>
      in accountCompletions ns
           (case map_of (la_running l1) name of
              None \<Rightarrow> l1
            | Some r \<Rightarrow> setState l1 r (\<lambda>s. s\<lparr>rs_completionAccounted := True\<rparr>)))"

definition commitDesired :: "launcher \<Rightarrow> int \<Rightarrow> launcher" where
  "commitDesired l count =
     (let l1 = (accountCompletions (la_completions l) l)\<lparr>la_completions := []\<rparr>;
          l2 = (if count = 0 then l1\<lparr>la_pendingExits := []\<rparr> else l1)
      in l2\<lparr>la_desired := count\<rparr>)"

definition HandleDesiredRunnerCount ::
  "'w api \<Rightarrow> launcher \<Rightarrow> 'w \<Rightarrow> int \<Rightarrow> (int \<times> gerr option) \<times> launcher \<times> 'w" where
  "HandleDesiredRunnerCount api l w count =
     (if la_stopped l then ((runningLocked l, None), l, w)
      else
        (let (e1, l1, w1) = retryPendingRegistrations api (commitDesired l count) w
         in if isPermanentSessionError e1 then ((runningLocked l1, e1), l1, w1)
            else
              (let (e2, l2, w2) = retryPendingCleanup api l1 w1
               in if isPermanentSessionError e2 then ((runningLocked l2, e2), l2, w2)
                  else if la_stopped l2 then ((runningLocked l2, None), l2, w2)
                  else
                    (let (e3, l3, w3) = launchN (nat (allowedLocked l2 count)) api l2 w2
                     in if isPermanentSessionError e3 then ((runningLocked l3, e3), l3, w3)
                        else ((runningLocked l3, None), l3, w3)))))"

record job_event =
  je_RunnerID :: int
  je_RunnerName :: string

definition eventMatches :: "job_event \<Rightarrow> string \<Rightarrow> int \<Rightarrow> bool" where
  "eventMatches job name rid =
     ((je_RunnerID job \<noteq> 0 \<and> rid = je_RunnerID job) \<or> (je_RunnerName job \<noteq> [] \<and> name = je_RunnerName job))"

definition HandleJobStarted :: "launcher \<Rightarrow> job_event option \<Rightarrow> launcher" where
  "HandleJobStarted l job =
     (case job of
        None \<Rightarrow> l
      | Some j \<Rightarrow>
          (case find (\<lambda>(n, r). eventMatches j n (rs_runnerID (la_heap l ! r))) (la_running l) of
             None \<Rightarrow> l
           | Some (n, r) \<Rightarrow> setState l r (\<lambda>s. s\<lparr>rs_busy := True\<rparr>)))"

definition addCompletion :: "launcher \<Rightarrow> string \<Rightarrow> launcher" where
  "addCompletion l name = l\<lparr>la_completions := List.insert name (la_completions l)\<rparr>"

definition HandleJobCompleted :: "launcher \<Rightarrow> job_event option \<Rightarrow> launcher" where
  "HandleJobCompleted l job =
     (case job of
        None \<Rightarrow> l
      | Some j \<Rightarrow>
          (case find (\<lambda>(n, r). eventMatches j n (rs_runnerID (la_heap l ! r))) (la_running l) of
             Some (n, r) \<Rightarrow> addCompletion l n
           | None \<Rightarrow>
               (case find (\<lambda>(n, rid). eventMatches j n rid) (la_pendingExits l) of
                  Some (n, rid) \<Rightarrow> addCompletion l n
                | None \<Rightarrow> l)))"

section \<open>Exit, refill and shutdown\<close>

definition refill :: "'w api \<Rightarrow> launcher \<Rightarrow> 'w \<Rightarrow> launcher \<times> 'w" where
  "refill api l w =
     (if la_stopped l \<or> ap_ctxErr api w then (l, w)
      else (let (_, l1, w1) = launchN (nat (allowedLocked l (la_desired l))) api l w in (l1, w1)))"

definition noteExit :: "launcher \<Rightarrow> string \<Rightarrow> nat \<Rightarrow> launcher" where
  "noteExit l name r =
     (if \<not> rs_completionAccounted (la_heap l ! r) \<and> la_desired l > 0
      then l\<lparr>la_pendingExits := AList.update name (rs_runnerID (la_heap l ! r)) (la_pendingExits l)\<rparr>
      else l)"

text \<open>\<open>awaitExit\<close> after \<open>handle.Wait\<close> returned \<open>(code, err)\<close>.\<close>

definition awaitExit ::
  "'w api \<Rightarrow> launcher \<Rightarrow> 'w \<Rightarrow> string \<Rightarrow> nat \<Rightarrow> int \<Rightarrow> gerr option \<Rightarrow> launcher \<times> 'w" where
  "awaitExit api l w name r code err =
     (let l1 = (if err = None \<and> code = 0 then noteExit l name r else l);
          (_, l2, w2) = finishRunner api l1 w name r code err (err \<noteq> None)
      in if err = None \<and> code = 0 then refill api l2 w2 else (l2, w2))"

fun finishAll ::
  "'w api \<Rightarrow> (string \<times> nat) list \<Rightarrow> launcher \<Rightarrow> 'w \<Rightarrow> gerr list \<times> launcher \<times> 'w" where
  "finishAll api [] l w = ([], l, w)"
| "finishAll api ((name, r) # ps) l w =
     (let (err, l1, w1) = finishRunner api l w name r (-1) None True;
          (es, l2, w2) = finishAll api ps l1 w1
      in ((case err of Some e \<Rightarrow> [e] | None \<Rightarrow> []) @ es, l2, w2))"

text \<open>\<open>Shutdown\<close>, with its cleanup goroutines in the order of the snapshot.\<close>

definition Shutdown :: "'w api \<Rightarrow> launcher \<Rightarrow> 'w \<Rightarrow> gerr option \<times> launcher \<times> 'w" where
  "Shutdown api l w =
     (let l0 = l\<lparr>la_stopped := True\<rparr>;
          (es, l1, w1) = finishAll api (la_running l0) l0 w;
          (e, l2, w2) = retryPendingRegistrations api l1 w1
      in (joinErrs (es @ (case e of Some x \<Rightarrow> [x] | None \<Rightarrow> [])), l2, w2))"

section \<open>Reconciliation\<close>

fun reconcileOwned ::
  "'w api \<Rightarrow> 'w owned_store \<Rightarrow> string list \<Rightarrow> owned_runner list \<Rightarrow> 'w \<Rightarrow> nat \<times> gerr list \<times> 'w" where
  "reconcileOwned api store active [] w = (0, [], w)"
| "reconcileOwned api store active (o1 # os) w =
     (if or_ResourceID o1 \<in> set active then reconcileOwned api store active os w
      else
        (case removeRunner api w (or_RunnerID o1) of
           (Some e, w1) \<Rightarrow>
             (let (n, es, w2) = reconcileOwned api store active os w1
              in (n, errorf (''remove registration for '' @ or_Name o1 @ '': '') e # es, w2))
         | (None, w1) \<Rightarrow>
             (case os_remove store w1 (or_ResourceID o1) of
                (Some e, w2) \<Rightarrow>
                  (let (n, es, w3) = reconcileOwned api store active os w2
                   in (n, errorf (''remove backend runner '' @ or_Name o1 @ '': '') e # es, w3))
              | (None, w2) \<Rightarrow>
                  (let (n, es, w3) = reconcileOwned api store active os w2 in (Suc n, es, w3)))))"

definition activeResources :: "launcher \<Rightarrow> string list" where
  "activeResources l = map (\<lambda>(n, r). rs_handle (la_heap l ! r)) (la_running l)"

definition reconcile :: "'w api \<Rightarrow> launcher \<Rightarrow> 'w \<Rightarrow> (nat \<times> gerr option) \<times> 'w" where
  "reconcile api l w =
     (case ap_store api of
        None \<Rightarrow> ((0, Some (Leaf (''backend '' @ goQuote (ap_backendName api)
                     @ '' does not support scale-set ownership reconciliation''))), w)
      | Some store \<Rightarrow>
          (case os_list store w (op_Ownership (la_opts l)) of
             (Inl e, w1) \<Rightarrow> ((0, Some (errorf ''list owned runners: '' e)), w1)
           | (Inr owned, w1) \<Rightarrow>
               (let (n, es, w2) = reconcileOwned api store (activeResources l) owned w1
                in ((n, joinErrs es), w2))))"


section \<open>The launcher as a state machine\<close>

text \<open>
  One step per critical section. The guards are the conditions under which the code reaches
  the section; \<open>ls_launch\<close> also asks that the random identifier in the runner's name is not
  the one of a runner still tracked (\<open>shortID\<close> draws it from \<open>crypto/rand\<close>).
\<close>

definition freshName :: "'w api \<Rightarrow> launcher \<Rightarrow> 'w \<Rightarrow> bool" where
  "freshName api l w =
     (case ap_shortID api w of
        (Inl e, w1) \<Rightarrow> True
      | (Inr sid, w1) \<Rightarrow> runnerName l sid \<notin> fst ` set (la_running l))"

inductive lstep :: "'w api \<Rightarrow> launcher \<Rightarrow> launcher \<Rightarrow> bool" for api :: "'w api" where
  ls_commit: "\<not> la_stopped l \<Longrightarrow> lstep api l (commitDesired l count)"
| ls_forget: "lstep api l (l\<lparr>la_pendingRegistrations := AList.delete rid (la_pendingRegistrations l)\<rparr>)"
| ls_launch: "\<not> la_stopped l \<Longrightarrow> 0 < allowedLocked l want \<Longrightarrow> freshName api l w
    \<Longrightarrow> launchLocked api l w = (e, l', w') \<Longrightarrow> lstep api l l'"
| ls_enter: "r < length (la_heap l) \<Longrightarrow> \<not> rs_cleaned (la_heap l ! r)
    \<Longrightarrow> lstep api l (frEnter l r code werr terminate)"
| ls_terminated: "r < length (la_heap l) \<Longrightarrow> rs_cleanupStarted (la_heap l ! r)
    \<Longrightarrow> \<not> rs_terminated (la_heap l ! r) \<Longrightarrow> lstep api l (frTerminated l r)"
| ls_deregistered: "r < length (la_heap l) \<Longrightarrow> rs_terminated (la_heap l ! r)
    \<Longrightarrow> needsRemoval (la_heap l ! r) \<Longrightarrow> lstep api l (frDeregistered l r)"
| ls_cleaned: "map_of (la_running l) name = Some r \<Longrightarrow> rs_terminated (la_heap l ! r)
    \<Longrightarrow> \<not> needsRemoval (la_heap l ! r) \<Longrightarrow> lstep api l (frCleaned l name r)"
| ls_exit: "lstep api l (noteExit l name r)"
| ls_started: "lstep api l (HandleJobStarted l job)"
| ls_completed: "lstep api l (HandleJobCompleted l job)"
| ls_stop: "lstep api l (l\<lparr>la_stopped := True\<rparr>)"

subsection \<open>The invariant\<close>

definition stateOk :: "runner_state \<Rightarrow> bool" where
  "stateOk s =
     ((rs_occupiesCapacity s \<longleftrightarrow> \<not> rs_terminated s)
      \<and> (rs_terminated s \<longrightarrow> rs_cleanupStarted s \<and> rs_stopReported s)
      \<and> (rs_cleaned s \<longrightarrow> rs_terminated s \<and> \<not> needsRemoval s))"

definition tracked :: "launcher \<Rightarrow> bool" where
  "tracked l =
     (distinct (map fst (la_running l)) \<and> distinct (map snd (la_running l))
      \<and> snd ` set (la_running l) = {r. r < length (la_heap l) \<and> \<not> rs_cleaned (la_heap l ! r)})"

definition withinCapacity :: "launcher \<Rightarrow> bool" where
  "withinCapacity l =
     (0 < op_MaxRunners (la_opts l)
      \<longrightarrow> int (countOf rs_occupiesCapacity (la_heap l)) \<le> op_MaxRunners (la_opts l))"

fun isOnStart :: "hook \<Rightarrow> bool" where
  "isOnStart OnStart = True"
| "isOnStart (OnStop c e) = False"

definition hooksBalanced :: "launcher \<Rightarrow> bool" where
  "hooksBalanced l =
     (op_hasOnStart (la_opts l) \<and> op_hasOnStop (la_opts l)
      \<longrightarrow> countOf isOnStart (la_hooks l)
          = countOf (\<lambda>h. \<not> isOnStart h) (la_hooks l)
            + countOf (\<lambda>s. \<not> rs_stopReported s) (la_heap l))"

definition launcherInv :: "launcher \<Rightarrow> bool" where
  "launcherInv l =
     (tracked l \<and> (\<forall>s \<in> set (la_heap l). stateOk s) \<and> withinCapacity l \<and> hooksBalanced l)"

lemmas launcherInv_defs = launcherInv_def tracked_def withinCapacity_def hooksBalanced_def

lemma launcherInvD_running:
  assumes "launcherInv l" and "(name, r) \<in> set (la_running l)"
  shows "r < length (la_heap l)" "\<not> rs_cleaned (la_heap l ! r)" "map_of (la_running l) name = Some r"
proof -
  have "r \<in> snd ` set (la_running l)" using assms(2) by force
  then show "r < length (la_heap l)" "\<not> rs_cleaned (la_heap l ! r)"
    using assms(1) by (auto simp: launcherInv_defs)
  show "map_of (la_running l) name = Some r"
    using assms by (auto simp: launcherInv_defs)
qed

text \<open>\<open>runningLocked\<close> counts exactly the live runners: none is lost from the map.\<close>

lemma runningLocked_count:
  assumes "launcherInv l"
  shows "runningLocked l = int (countOf rs_occupiesCapacity (la_heap l))"
proof -
  let ?R = "filter (\<lambda>(n, r). occupies l r) (la_running l)"
  have d: "distinct (map snd ?R)"
    using assms by (auto simp: launcherInv_defs distinct_map_filter)
  have "rs_occupiesCapacity s \<Longrightarrow> \<not> rs_cleaned s" if "s \<in> set (la_heap l)" for s
    using assms that by (auto simp: launcherInv_def stateOk_def)
  then have occ: "\<not> rs_cleaned (la_heap l ! i)"
    if "i < length (la_heap l)" "rs_occupiesCapacity (la_heap l ! i)" for i using that by simp
  have "snd ` set ?R = {i \<in> snd ` set (la_running l). rs_occupiesCapacity (la_heap l ! i)}"
    by (auto simp: occupies_def image_iff)
  also have "\<dots> = {i. i < length (la_heap l) \<and> rs_occupiesCapacity (la_heap l ! i)}"
    using assms occ by (auto simp: launcherInv_defs)
  finally have "length ?R = card {i. i < length (la_heap l) \<and> rs_occupiesCapacity (la_heap l ! i)}"
    using distinct_card[OF d] by simp
  then show ?thesis by (simp add: runningLocked_def countOf_def length_filter_conv_card)
qed

lemma allowed_pos_room:
  assumes "0 < allowedLocked l want" and "0 < op_MaxRunners (la_opts l)"
  shows "runningLocked l < op_MaxRunners (la_opts l)"
  using assms by (auto simp: allowedLocked_def Let_def split: if_splits)

lemma allowed_le: "allowedLocked l want \<le> max 0 (want - int (length (la_pendingExits l)) - runningLocked l)"
  by (auto simp: allowedLocked_def Let_def)

subsection \<open>Preservation\<close>

text \<open>Writing one runner's state, then fields the invariant does not read.\<close>

lemma nth_setState: "r < length (la_heap l) \<Longrightarrow> la_heap (setState l r f) ! r = f (la_heap l ! r)"
  by (simp add: setState_def)

lemma setState_sel [simp]:
  "la_running (setState l r f) = la_running l" "la_opts (setState l r f) = la_opts l"
  "la_hooks (setState l r f) = la_hooks l" "la_stopped (setState l r f) = la_stopped l"
  "length (la_heap (setState l r f)) = length (la_heap l)"
  "la_pendingExits (setState l r f) = la_pendingExits l" "la_desired (setState l r f) = la_desired l"
  "la_completions (setState l r f) = la_completions l"
  "la_pendingRegistrations (setState l r f) = la_pendingRegistrations l"
  "la_spawned (setState l r f) = la_spawned l"
  by (simp_all add: setState_def)

lemma inv_setState:
  assumes "launcherInv l" and "r < length (la_heap l)"
    and "stateOk (la_heap l ! r) \<Longrightarrow> stateOk (f (la_heap l ! r))"
    and "rs_cleaned (f (la_heap l ! r)) = rs_cleaned (la_heap l ! r)"
    and "rs_occupiesCapacity (f (la_heap l ! r)) = rs_occupiesCapacity (la_heap l ! r)"
    and "rs_stopReported (f (la_heap l ! r)) = rs_stopReported (la_heap l ! r)"
  shows "launcherInv (setState l r f)"
proof -
  have ok: "stateOk (la_heap l ! r)" using assms(1,2) by (auto simp: launcherInv_def)
  have "s \<in> set (la_heap (setState l r f)) \<Longrightarrow> stateOk s" for s
    using assms(1) assms(3)[OF ok] set_update_subset_insert[of "la_heap l" r "f (la_heap l ! r)"]
    by (auto simp: setState_def launcherInv_def)
  moreover have "rs_cleaned ((la_heap l)[r := f (la_heap l ! r)] ! i) = rs_cleaned (la_heap l ! i)"
    if "i < length (la_heap l)" for i using assms(4) that by (cases "i = r") simp_all
  ultimately show ?thesis using assms(1,2,5,6)
    by (simp add: launcherInv_defs setState_def countOf_update_same cong: conj_cong)
qed

lemma inv_cong:
  assumes "launcherInv l" and "la_running l' = la_running l" and "la_heap l' = la_heap l"
    and "la_opts l' = la_opts l" and "la_hooks l' = la_hooks l"
  shows "launcherInv l'"
  using assms by (simp add: launcherInv_defs)

lemma inv_frEnter:
  assumes "launcherInv l" and "r < length (la_heap l)" and "\<not> rs_cleaned (la_heap l ! r)"
  shows "launcherInv (frEnter l r code werr terminate)"
  unfolding frEnter_def
  by (rule inv_setState) (use assms in \<open>auto simp: stateOk_def\<close>)

lemma inv_frDeregistered:
  assumes "launcherInv l" and "r < length (la_heap l)"
  shows "launcherInv (frDeregistered l r)"
  unfolding frDeregistered_def
  by (rule inv_setState) (use assms in \<open>auto simp: stateOk_def needsRemoval_def\<close>)

lemma countOf_drop_one:
  assumes "i < length xs" and "p (xs ! i)" and "\<not> p y"
  shows "Suc (countOf p (xs[i := y])) = countOf p xs"
  using countOf_update[of i xs p y] assms by simp

lemma inv_frTerminated:
  assumes inv: "launcherInv l" and r: "r < length (la_heap l)"
    and "rs_cleanupStarted (la_heap l ! r)" and nt: "\<not> rs_terminated (la_heap l ! r)"
  shows "launcherInv (frTerminated l r)"
proof -
  let ?s = "(la_heap l ! r)\<lparr>rs_terminated := True, rs_occupiesCapacity := False, rs_stopReported := True\<rparr>"
  let ?h = "(la_heap l)[r := ?s]"
  have ok: "stateOk (la_heap l ! r)" using inv r by (auto simp: launcherInv_def)
  then have occ: "rs_occupiesCapacity (la_heap l ! r)" and nc: "\<not> rs_cleaned (la_heap l ! r)"
    using nt by (auto simp: stateOk_def)
  have "stateOk ?s" using assms(3) nc by (simp add: stateOk_def)
  then have all: "\<forall>s \<in> set ?h. stateOk s"
    using inv set_update_subset_insert[of "la_heap l" r ?s] by (auto simp: launcherInv_def)
  have cl: "rs_cleaned (?h ! i) = rs_cleaned (la_heap l ! i)" if "i < length (la_heap l)" for i
    using that nc by (cases "i = r") simp_all
  have "Suc (countOf rs_occupiesCapacity ?h) = countOf rs_occupiesCapacity (la_heap l)"
    by (rule countOf_drop_one) (use r occ in auto)
  moreover have "countOf (\<lambda>s. \<not> rs_stopReported s) ?h + (if rs_stopReported (la_heap l ! r) then 0 else 1)
      = countOf (\<lambda>s. \<not> rs_stopReported s) (la_heap l)"
    using countOf_update[OF r, of "\<lambda>s. \<not> rs_stopReported s" ?s] by (simp split: if_splits)
  ultimately show ?thesis using inv all cl
    by (auto simp: launcherInv_defs frTerminated_def emitStop_def setState_def Let_def)
qed

lemma inv_frCleaned:
  assumes inv: "launcherInv l" and n: "map_of (la_running l) name = Some r"
    and t: "rs_terminated (la_heap l ! r)" and nr: "\<not> needsRemoval (la_heap l ! r)"
  shows "launcherInv (frCleaned l name r)"
proof -
  let ?s = "(la_heap l ! r)\<lparr>rs_cleaned := True\<rparr>"
  let ?h = "(la_heap l)[r := ?s]"
  have mem: "(name, r) \<in> set (la_running l)" using n by (rule map_of_SomeD)
  have r: "r < length (la_heap l)" using launcherInvD_running(1)[OF inv mem] .
  have ok: "stateOk (la_heap l ! r)" using inv r by (auto simp: launcherInv_def)
  have "stateOk ?s" using ok t nr by (simp add: stateOk_def needsRemoval_def)
  then have all: "\<forall>s \<in> set ?h. stateOk s"
    using inv set_update_subset_insert[of "la_heap l" r ?s] by (auto simp: launcherInv_def)
  have d: "distinct (map fst (la_running l))" "distinct (map snd (la_running l))"
    and im: "snd ` set (la_running l) = {r. r < length (la_heap l) \<and> \<not> rs_cleaned (la_heap l ! r)}"
    using inv by (auto simp: launcherInv_defs)
  have "snd ` set (AList.delete name (la_running l)) = snd ` set (la_running l) - {r}"
    using d n by (rule snd_delete)
  also have "\<dots> = {i. i < length ?h \<and> \<not> rs_cleaned (?h ! i)}"
    using im r by (auto simp: nth_list_update)
  finally have "snd ` set (AList.delete name (la_running l)) = {i. i < length ?h \<and> \<not> rs_cleaned (?h ! i)}" .
  moreover have "countOf rs_occupiesCapacity ?h = countOf rs_occupiesCapacity (la_heap l)"
    "countOf (\<lambda>s. \<not> rs_stopReported s) ?h = countOf (\<lambda>s. \<not> rs_stopReported s) (la_heap l)"
    using r by (simp_all add: countOf_update_same)
  moreover have "distinct (map snd (AList.delete name (la_running l)))"
    using d(2) by simp
  ultimately show ?thesis using inv all n d(1)
    by (simp add: launcherInv_defs frCleaned_def setState_def Let_def distinct_delete)
qed

text \<open>A launch changes nothing but what it says, and has three outcomes for the tracked
  runners: one more running, one more whose launch failed with a handle, or none.\<close>

lemma launchBody_sel:
  assumes "launchBody api l w = (e, l', w')"
  shows "la_opts l' = la_opts l" "la_stopped l' = la_stopped l" "la_desired l' = la_desired l"
    "la_pendingExits l' = la_pendingExits l" "la_completions l' = la_completions l"
    "la_hooks l' = la_hooks l" "la_seq l' = la_seq l"
  using assms
  by (auto simp: launchBody_def launchBackend_def spawn_def addRunner_def Let_def
      split: prod.splits sum.splits option.splits launch_result.splits if_splits)

lemma launchBody_cases:
  assumes "launchBody api l w = (e, l', w')"
  obtains (added) sid w1 hid rid where "ap_shortID api w = (Inr sid, w1)" "rid \<noteq> 0"
      "la_heap l' = la_heap l @ [freshState hid rid (e \<noteq> None)]"
      "la_running l' = AList.update (runnerName l sid) (length (la_heap l)) (la_running l)"
      "la_spawned l' = la_spawned l @ [(if e = None then AwaitExit else PartialCleanup)
         (runnerName l sid) (length (la_heap l))]"
    | (failed) x where "e = Some x" "la_heap l' = la_heap l" "la_running l' = la_running l"
      "la_spawned l' = la_spawned l"
  using assms
  by (auto simp: launchBody_def launchBackend_def spawn_def addRunner_def Let_def
      split: prod.splits sum.splits option.splits launch_result.splits if_splits)

lemma emit_sel [simp]:
  "la_opts (emitStart l) = la_opts l" "la_opts (emitStop l c e) = la_opts l"
  "la_heap (emitStart l) = la_heap l" "la_heap (emitStop l c e) = la_heap l"
  "la_running (emitStart l) = la_running l" "la_running (emitStop l c e) = la_running l"
  "la_stopped (emitStart l) = la_stopped l" "la_stopped (emitStop l c e) = la_stopped l"
  "la_desired (emitStart l) = la_desired l" "la_desired (emitStop l c e) = la_desired l"
  "la_pendingExits (emitStart l) = la_pendingExits l" "la_pendingExits (emitStop l c e) = la_pendingExits l"
  "la_completions (emitStart l) = la_completions l" "la_completions (emitStop l c e) = la_completions l"
  "la_pendingRegistrations (emitStop l c e) = la_pendingRegistrations l"
  "la_spawned (emitStart l) = la_spawned l" "la_spawned (emitStop l c e) = la_spawned l"
  by (simp_all add: emitStart_def emitStop_def)

text \<open>The hook calls of one launch: \<open>OnStart\<close>, and \<open>OnStop(-1, err)\<close> when it fails.\<close>

definition launchHooks :: "options \<Rightarrow> gerr option \<Rightarrow> hook list" where
  "launchHooks opts e =
     (if op_hasOnStart opts then [OnStart] else [])
     @ (if e \<noteq> None \<and> op_hasOnStop opts then [OnStop (-1) e] else [])"

lemma launchLocked_sel:
  assumes "launchLocked api l w = (e, l', w')"
  shows "la_opts l' = la_opts l" "la_stopped l' = la_stopped l" "la_desired l' = la_desired l"
    "la_pendingExits l' = la_pendingExits l" "la_completions l' = la_completions l"
    "la_hooks l' = la_hooks l @ launchHooks (la_opts l) e"
proof -
  obtain e1 l1 w1 where b: "launchBody api ((emitStart l)\<lparr>la_seq := la_seq (emitStart l) + 1\<rparr>) w = (e1, l1, w1)"
    by (metis prod_cases3)
  note sel = launchBody_sel[OF b]
  show "la_opts l' = la_opts l" "la_stopped l' = la_stopped l" "la_desired l' = la_desired l"
    "la_pendingExits l' = la_pendingExits l" "la_completions l' = la_completions l"
    using assms b sel by (auto simp: launchLocked_def Let_def split: option.splits)
  show "la_hooks l' = la_hooks l @ launchHooks (la_opts l) e"
    using assms b sel by (auto simp: launchLocked_def Let_def launchHooks_def emitStart_def emitStop_def
        split: option.splits if_splits)
qed

lemma launchLocked_cases:
  assumes "launchLocked api l w = (e, l', w')"
  obtains (added) sid w1 hid rid where "ap_shortID api w = (Inr sid, w1)" "rid \<noteq> 0"
      "la_heap l' = la_heap l @ [freshState hid rid (e \<noteq> None)]"
      "la_running l' = AList.update (runnerName l sid) (length (la_heap l)) (la_running l)"
      "la_spawned l' = la_spawned l @ [(if e = None then AwaitExit else PartialCleanup)
         (runnerName l sid) (length (la_heap l))]"
    | (failed) x where "e = Some x" "la_heap l' = la_heap l" "la_running l' = la_running l"
      "la_spawned l' = la_spawned l"
proof -
  let ?l = "(emitStart l)\<lparr>la_seq := la_seq (emitStart l) + 1\<rparr>"
  obtain e1 l1 w1 where b: "launchBody api ?l w = (e1, l1, w1)" by (metis prod_cases3)
  have h: "e = e1" "la_heap l' = la_heap l1" "la_running l' = la_running l1"
    "la_spawned l' = la_spawned l1"
    using assms b by (auto simp: launchLocked_def Let_def split: option.splits)
  have n: "runnerName ?l sid = runnerName l sid" for sid by (simp add: runnerName_def)
  show thesis using b
  proof (cases rule: launchBody_cases)
    case added then show ?thesis using that(1) h n by simp
  next
    case failed then show ?thesis using that(2) h by simp
  qed
qed

lemma tracked_add:
  assumes "tracked l" and "name \<notin> fst ` set (la_running l)" and "\<not> rs_cleaned s"
    and "la_heap l' = la_heap l @ [s]"
    and "la_running l' = AList.update name (length (la_heap l)) (la_running l)"
  shows "tracked l'"
  using assms by (auto simp: tracked_def update_fresh nth_append less_Suc_eq)

lemma inv_launchLocked:
  assumes inv: "launcherInv l" and room: "0 < allowedLocked l want" and fresh: "freshName api l w"
    and launch: "launchLocked api l w = (e, l', w')"
  shows "launcherInv l'"
  using launch
proof (cases rule: launchLocked_cases)
  case (added sid w1 hid rid)
  note sel = launchLocked_sel[OF launch]
  have new: "runnerName l sid \<notin> fst ` set (la_running l)"
    using fresh added(1) by (simp add: freshName_def)
  have "tracked l'"
    by (rule tracked_add[OF _ new _ added(3,4)]) (use inv in \<open>simp_all add: launcherInv_def freshState_def\<close>)
  moreover have "\<forall>s \<in> set (la_heap l'). stateOk s"
    using inv added by (auto simp: launcherInv_def freshState_def stateOk_def)
  moreover have "withinCapacity l'"
    using allowed_pos_room[OF room] inv added sel runningLocked_count[OF inv]
    by (auto simp: withinCapacity_def freshState_def)
  moreover have "hooksBalanced l'"
    using inv added sel by (auto simp: launcherInv_def hooksBalanced_def launchHooks_def freshState_def)
  ultimately show ?thesis by (simp add: launcherInv_def)
next
  case (failed x)
  then show ?thesis
    using inv launchLocked_sel[OF launch] by (auto simp: launcherInv_defs launchHooks_def)
qed

text \<open>The remaining sections.\<close>

lemma inv_accountCompletions:
  "launcherInv l \<Longrightarrow> launcherInv (accountCompletions ns l)"
proof (induction ns arbitrary: l)
  case (Cons n ns)
  let ?l1 = "l\<lparr>la_pendingExits := AList.delete n (la_pendingExits l)\<rparr>"
  have i1: "launcherInv ?l1" by (rule inv_cong[OF Cons.prems]) simp_all
  have "launcherInv (setState ?l1 r (\<lambda>s. s\<lparr>rs_completionAccounted := True\<rparr>))"
    if "map_of (la_running l) n = Some r" for r
    by (rule inv_setState[OF i1])
      (use launcherInvD_running(1)[OF Cons.prems map_of_SomeD[OF that]] in
        \<open>auto simp: stateOk_def needsRemoval_def\<close>)
  then show ?case using Cons.IH i1 by (auto simp: Let_def split: option.splits)
qed simp

lemma inv_commitDesired: "launcherInv l \<Longrightarrow> launcherInv (commitDesired l count)"
  by (rule inv_cong[OF inv_accountCompletions[of l "la_completions l"]])
    (simp_all add: commitDesired_def Let_def)

lemma find_SomeD: "find p xs = Some x \<Longrightarrow> x \<in> set xs \<and> p x"
  by (auto simp: find_Some_iff)

lemma inv_HandleJobStarted:
  assumes "launcherInv l" shows "launcherInv (HandleJobStarted l job)"
proof -
  have "launcherInv (setState l r (\<lambda>s. s\<lparr>rs_busy := True\<rparr>))" if "(n, r) \<in> set (la_running l)" for n r
    by (rule inv_setState[OF assms])
      (use launcherInvD_running(1)[OF assms that] in \<open>auto simp: stateOk_def needsRemoval_def\<close>)
  then show ?thesis using assms
    by (auto simp: HandleJobStarted_def split: option.splits dest!: find_SomeD)
qed

lemma inv_HandleJobCompleted: "launcherInv l \<Longrightarrow> launcherInv (HandleJobCompleted l job)"
  by (rule inv_cong[of l]) (auto simp: HandleJobCompleted_def addCompletion_def split: option.splits)

lemma inv_noteExit: "launcherInv l \<Longrightarrow> launcherInv (noteExit l name r)"
  by (rule inv_cong[of l]) (auto simp: noteExit_def)

lemma lstep_inv: "lstep api l l' \<Longrightarrow> launcherInv l \<Longrightarrow> launcherInv l'"
proof (induction rule: lstep.induct)
  case (ls_forget l rid) then show ?case by (rule inv_cong) simp_all
next
  case (ls_stop l) then show ?case by (rule inv_cong) simp_all
qed (auto intro: inv_commitDesired inv_launchLocked inv_frEnter inv_frTerminated
    inv_frDeregistered inv_frCleaned inv_noteExit inv_HandleJobStarted inv_HandleJobCompleted
    simp: needsRemoval_def)

lemma newLauncher_inv: "launcherInv (newLauncher opts)"
  by (simp add: launcherInv_defs newLauncher_def)

interpretation launcher_machine: invariant_machine "\<lambda>l. \<exists>opts. l = newLauncher opts" "lstep api" launcherInv
  for api
  by unfold_locales (auto intro: newLauncher_inv lstep_inv)

end
