(* ===== verification/Scaleset_Refinement.thy ===== *)
theory Scaleset_Refinement
  imports Scaleset_Launcher
begin

text \<open>
  The launcher's operations refine its state machine: every operation, run as the code
  composes it, is a sequence of \<open>lstep\<close> steps, so every state the program reaches satisfies
  the launcher's invariant. The hypothesis is that \<open>shortID\<close> (eight random bytes) does not
  draw an identifier twice: \<open>issued w\<close> is the set of identifiers drawn before world \<open>w\<close>.
  On top of it: what a scale request, a cleanup, a shutdown and a reconciliation achieve.
\<close>

section \<open>Fresh identifiers\<close>

definition freshIDs :: "'w api \<Rightarrow> ('w \<Rightarrow> string set) \<Rightarrow> bool" where
  "freshIDs api issued =
     ((\<forall>w e w1. ap_shortID api w = (Inl e, w1) \<longrightarrow> issued w \<subseteq> issued w1)
      \<and> (\<forall>w sid w1. ap_shortID api w = (Inr sid, w1)
           \<longrightarrow> sid \<notin> issued w \<and> insert sid (issued w) \<subseteq> issued w1)
      \<and> (\<forall>w n f i. issued w \<subseteq> issued (snd (ap_jit api w n f i)))
      \<and> (\<forall>w q. issued w \<subseteq> issued (snd (ap_launch api w q)))
      \<and> (\<forall>w h. issued w \<subseteq> issued (snd (ap_kill api w h)))
      \<and> (\<forall>w i. issued w \<subseteq> issued (snd (ap_removeRunner api w i)))
      \<and> (\<forall>st w h. ap_store api = Some st \<longrightarrow> issued w \<subseteq> issued (snd (os_remove st w h))))"

definition namesIssued :: "('w \<Rightarrow> string set) \<Rightarrow> launcher \<Rightarrow> 'w \<Rightarrow> bool" where
  "namesIssued issued l w = (fst ` set (la_running l) \<subseteq> runnerName l ` issued w)"

lemma runnerName_inj: "runnerName l a = runnerName l b \<longleftrightarrow> a = b"
  by (simp add: runnerName_def)

lemma runnerName_cong: "la_opts l' = la_opts l \<Longrightarrow> runnerName l' = runnerName l"
  by (rule ext) (simp add: runnerName_def)

lemma freshIDs_shortID:
  assumes "freshIDs api issued"
  shows "ap_shortID api w = (Inl e, w1) \<Longrightarrow> issued w \<subseteq> issued w1"
    and "ap_shortID api w = (Inr sid, w1) \<Longrightarrow> sid \<notin> issued w \<and> insert sid (issued w) \<subseteq> issued w1"
  using assms by (simp_all add: freshIDs_def)

lemma freshIDs_freshName:
  assumes "freshIDs api issued" and "namesIssued issued l w"
  shows "freshName api l w"
proof -
  have "runnerName l sid \<notin> fst ` set (la_running l)" if "ap_shortID api w = (Inr sid, w1)" for sid w1
    using freshIDs_shortID(2)[OF assms(1) that] assms(2)
    by (auto simp: namesIssued_def runnerName_inj)
  then show ?thesis by (auto simp: freshName_def split: prod.splits sum.splits)
qed

lemma namesIssued_mono:
  assumes "namesIssued issued l w" and "issued w \<subseteq> issued w'"
    and "fst ` set (la_running l') \<subseteq> fst ` set (la_running l)" and "la_opts l' = la_opts l"
  shows "namesIssued issued l' w'"
  using assms(1-3) image_mono[OF assms(2), of "runnerName l"] runnerName_cong[OF assms(4)]
  by (simp add: namesIssued_def)

lemma removeRunner_issued:
  assumes "freshIDs api issued" and "removeRunner api w rid = (e, w')"
  shows "issued w \<subseteq> issued w'"
proof -
  have "issued w \<subseteq> issued (snd (ap_removeRunner api w rid))"
    using assms(1) unfolding freshIDs_def by blast
  then show ?thesis using assms(2)
    by (auto simp: removeRunner_def Let_def split: if_splits prod.splits option.splits)
qed

lemma launchBackend_issued:
  assumes f: "freshIDs api issued" and b: "launchBackend api l w name enc rid = (e, l', w')"
  shows "issued w \<subseteq> issued w'"
proof -
  obtain res w1 where la: "ap_launch api w (launchRequest l name enc rid) = (res, w1)" by fastforce
  have "issued w \<subseteq> issued (snd (ap_launch api w (launchRequest l name enc rid)))"
    using f unfolding freshIDs_def by blast
  then have 1: "issued w \<subseteq> issued w1" using la by simp
  obtain e2 w2 where rm: "removeRunner api w1 rid = (e2, w2)" by fastforce
  have 2: "issued w1 \<subseteq> issued w2" using removeRunner_issued[OF f rm] .
  have "w' = w1 \<or> w' = w2"
    using b la rm by (auto simp: launchBackend_def Let_def split: launch_result.splits option.splits)
  then show ?thesis using 1 2 by auto
qed

lemma launchBody_issued:
  assumes f: "freshIDs api issued" and b: "launchBody api l w = (e, l', w')"
  shows "issued w \<subseteq> issued w' \<and> (\<forall>sid w1. ap_shortID api w = (Inr sid, w1) \<longrightarrow> sid \<in> issued w')"
proof (cases "ap_shortID api w")
  case (Pair r w1)
  show ?thesis
  proof (cases r)
    case (Inl x)
    then show ?thesis using Pair freshIDs_shortID(1)[OF f, of w] b by (simp add: launchBody_def)
  next
    case (Inr sid)
    let ?call = "ap_jit api w1 (runnerName l sid) (op_WorkFolder (la_opts l)) (op_ScaleSetID (la_opts l))"
    have j: "issued w1 \<subseteq> issued (snd ?call)" using f unfolding freshIDs_def by blast
    have "issued (snd ?call) \<subseteq> issued w'"
      using b Pair Inr launchBackend_issued[OF f]
      by (auto simp: launchBody_def Let_def split: prod.splits sum.splits option.splits if_splits)
    then show ?thesis using Pair Inr freshIDs_shortID(2)[OF f, of w] j by auto
  qed
qed

lemma launchLocked_issued:
  assumes f: "freshIDs api issued" and n: "namesIssued issued l w"
    and launch: "launchLocked api l w = (e, l', w')"
  shows "namesIssued issued l' w'"
proof -
  let ?l = "(emitStart l)\<lparr>la_seq := la_seq (emitStart l) + 1\<rparr>"
  obtain e1 l1 w1 where b: "launchBody api ?l w = (e1, l1, w1)" by (metis prod_cases3)
  then have w: "w' = w1" using launch by (auto simp: launchLocked_def Let_def split: option.splits)
  note grow = launchBody_issued[OF f b]
  then have sub: "issued w \<subseteq> issued w'" using w by simp
  note opts = launchLocked_sel(1)[OF launch]
  show ?thesis using launch
  proof (cases rule: launchLocked_cases)
    case (added sid w2 hid rid)
    then have "sid \<in> issued w'" using grow w by auto
    then show ?thesis
      using n image_mono[OF sub, of "runnerName l"] runnerName_cong[OF opts] added(4)
      by (auto simp: namesIssued_def dom_update simp flip: dom_map_of_conv_image_fst)
  next
    case (failed x)
    then show ?thesis using namesIssued_mono[OF n sub] opts by simp
  qed
qed

section \<open>Simulation\<close>

text \<open>From a state satisfying the invariant, the result is reached by steps of the machine.\<close>

definition simulates :: "'w api \<Rightarrow> ('w \<Rightarrow> string set) \<Rightarrow> launcher \<Rightarrow> 'w \<Rightarrow> launcher \<Rightarrow> 'w \<Rightarrow> bool" where
  "simulates api issued l w l' w' =
     (launcherInv l \<and> namesIssued issued l w
      \<longrightarrow> (lstep api)\<^sup>*\<^sup>* l l' \<and> namesIssued issued l' w')"

lemma simulates_refl: "simulates api issued l w l w"
  by (simp add: simulates_def)

lemma simulates_trans [trans]:
  assumes "simulates api issued l w l1 w1" and "simulates api issued l1 w1 l2 w2"
  shows "simulates api issued l w l2 w2"
  using assms launcher_machine.run_inv[of api l l1] unfolding simulates_def
  by (meson rtranclp_trans)

lemma simulates_step:
  assumes "launcherInv l \<Longrightarrow> namesIssued issued l w \<Longrightarrow> lstep api l l'"
    and "fst ` set (la_running l') \<subseteq> fst ` set (la_running l)" and "la_opts l' = la_opts l"
    and "issued w \<subseteq> issued w'"
  shows "simulates api issued l w l' w'"
  using assms(1) namesIssued_mono[of issued l w w' l'] assms(2-4) by (auto simp: simulates_def)

lemma simulates_world: "issued w \<subseteq> issued w' \<Longrightarrow> simulates api issued l w l w'"
  by (auto simp: simulates_def intro: namesIssued_mono)

lemma simulatesI:
  assumes "launcherInv l \<Longrightarrow> namesIssued issued l w \<Longrightarrow> simulates api issued l w l' w'"
  shows "simulates api issued l w l' w'"
  using assms by (auto simp: simulates_def)

text \<open>A name and pointer held by a goroutine stay valid: the entry is there until it is cleaned.\<close>

definition refOk :: "launcher \<Rightarrow> string \<Rightarrow> nat \<Rightarrow> bool" where
  "refOk l name r =
     (r < length (la_heap l) \<and> (rs_cleaned (la_heap l ! r) \<or> map_of (la_running l) name = Some r))"

lemma refOk_setState:
  "refOk l n r \<Longrightarrow> (\<And>s. rs_cleaned (f s) = rs_cleaned s) \<Longrightarrow> refOk (setState l i f) n r"
  by (cases "r = i") (auto simp: refOk_def setState_def)

lemma refOk_emitStop [simp]: "refOk (emitStop l c e) n r = refOk l n r"
  by (simp add: refOk_def)

lemma refOk_accountCompletions: "refOk l n r \<Longrightarrow> refOk (accountCompletions ns l) n r"
proof (induction ns arbitrary: l)
  case (Cons x ns)
  have "refOk (l\<lparr>la_pendingExits := AList.delete x (la_pendingExits l)\<rparr>) n r"
    using Cons.prems by (simp add: refOk_def)
  then show ?case by (auto simp: Let_def intro!: Cons.IH refOk_setState split: option.splits)
qed simp

lemma lstep_refOk: "lstep api l l' \<Longrightarrow> refOk l n r \<Longrightarrow> refOk l' n r"
proof (induction rule: lstep.induct)
  case (ls_commit l count)
  then show ?case using refOk_accountCompletions[of l n r "la_completions l"]
    by (simp add: commitDesired_def refOk_def Let_def)
next
  case (ls_launch l want w e l' w')
  show ?case using ls_launch(4)
  proof (cases rule: launchLocked_cases)
    case (added sid w1 hid rid)
    then have "map_of (la_running l) (runnerName l sid) = None"
      using ls_launch(3) by (simp add: freshName_def map_of_eq_None_iff)
    then show ?thesis using ls_launch(5) added by (auto simp: refOk_def nth_append)
  qed (use ls_launch(5) in \<open>simp add: refOk_def\<close>)
next
  case (ls_cleaned l name r')
  then show ?case by (cases "r = r'") (auto simp: refOk_def frCleaned_def setState_def Let_def)
next
  case (ls_started l job)
  then show ?case by (auto simp: HandleJobStarted_def intro!: refOk_setState split: option.splits)
next
  case (ls_terminated r' l)
  then show ?case
    by (auto simp: frTerminated_def Let_def intro!: refOk_setState)
qed (auto simp: frEnter_def frDeregistered_def refOk_def noteExit_def HandleJobCompleted_def
    addCompletion_def setState_def nth_list_update split: option.splits)

lemma steps_refOk: "(lstep api)\<^sup>*\<^sup>* l l' \<Longrightarrow> refOk l n r \<Longrightarrow> refOk l' n r"
  by (induction rule: rtranclp_induct) (auto intro: lstep_refOk)

subsection \<open>Cleaning up\<close>

lemma refOk_running:
  "launcherInv l \<Longrightarrow> (n, r) \<in> set (la_running l) \<Longrightarrow> refOk l n r"
  using launcherInvD_running[of l n r] by (simp add: refOk_def)

lemma fr_sel [simp]:
  "la_running (frEnter l r c e t) = la_running l" "la_opts (frEnter l r c e t) = la_opts l"
  "la_running (frTerminated l r) = la_running l" "la_opts (frTerminated l r) = la_opts l"
  "la_running (frDeregistered l r) = la_running l" "la_opts (frDeregistered l r) = la_opts l"
  "la_opts (frCleaned l n r) = la_opts l"
  "length (la_heap (frEnter l r c e t)) = length (la_heap l)"
  "length (la_heap (frTerminated l r)) = length (la_heap l)"
  "length (la_heap (frDeregistered l r)) = length (la_heap l)"
  by (auto simp: frEnter_def frTerminated_def frDeregistered_def frCleaned_def Let_def)

lemma fr_nth:
  assumes "r < length (la_heap l)"
  shows "rs_cleanupStarted (la_heap (frEnter l r c e t) ! r)"
    "rs_cleaned (la_heap (frEnter l r c e t) ! r) = rs_cleaned (la_heap l ! r)"
    "rs_terminated (la_heap (frEnter l r c e t) ! r) = rs_terminated (la_heap l ! r)"
    "rs_runnerID (la_heap (frEnter l r c e t) ! r) = rs_runnerID (la_heap l ! r)"
    "rs_handle (la_heap (frEnter l r c e t) ! r) = rs_handle (la_heap l ! r)"
    "la_heap (frTerminated l r) ! r = (la_heap l ! r)\<lparr>rs_terminated := True,
       rs_occupiesCapacity := False, rs_stopReported := True\<rparr>"
    "la_heap (frDeregistered l r) ! r = (la_heap l ! r)\<lparr>rs_registrationRemoved := True\<rparr>"
  using assms by (auto simp: frEnter_def frTerminated_def frDeregistered_def nth_setState Let_def)

lemma sim_frRelease:
  assumes f: "freshIDs api issued" and c: "frRelease api l w n r = (e, l', w')"
    and "map_of (la_running l) n = Some r" and "rs_terminated (la_heap l ! r)"
    and "\<not> needsRemoval (la_heap l ! r)"
  shows "simulates api issued l w l' w'"
proof (cases "ap_store api")
  case None
  then show ?thesis using c by (simp add: frRelease_def simulates_refl)
next
  case (Some st)
  obtain e1 w1 where rm: "os_remove st w (rs_handle (la_heap l ! r)) = (e1, w1)" by fastforce
  have "issued w \<subseteq> issued (snd (os_remove st w (rs_handle (la_heap l ! r))))"
    using f Some by (simp add: freshIDs_def)
  then have w1: "issued w \<subseteq> issued w1" using rm by simp
  have "w' = w1" "l' = l \<or> l' = frCleaned l n r"
    using c Some rm by (auto simp: frRelease_def split: option.splits)
  moreover have "simulates api issued l w l w1"
    using w1 by (rule simulates_world)
  moreover have "lstep api l (frCleaned l n r)" using assms by (auto intro: ls_cleaned)
  then have "simulates api issued l w (frCleaned l n r) w1"
    by (rule simulates_step) (use w1 in \<open>auto simp: frCleaned_def Let_def AList.delete_eq\<close>)
  ultimately show ?thesis by auto
qed

lemma sim_frDeregister:
  assumes f: "freshIDs api issued" and c: "frDeregister api l w n r = (e, l', w')"
    and m: "map_of (la_running l) n = Some r" and t: "rs_terminated (la_heap l ! r)"
    and r: "r < length (la_heap l)"
  shows "simulates api issued l w l' w'"
proof (cases "needsRemoval (la_heap l ! r)")
  case False
  then show ?thesis using c sim_frRelease[OF f _ m t] by (simp add: frDeregister_def)
next
  case True
  obtain e1 w1 where rm: "removeRunner api w (rs_runnerID (la_heap l ! r)) = (e1, w1)" by fastforce
  note w1 = removeRunner_issued[OF f rm]
  show ?thesis
  proof (cases e1)
    case (Some x)
    then show ?thesis using c True rm w1
      by (auto simp: frDeregister_def intro: simulates_world)
  next
    case None
    have "simulates api issued l w (frDeregistered l r) w1"
      by (rule simulates_step) (use True t r w1 in \<open>auto intro: ls_deregistered\<close>)
    also have "simulates api issued (frDeregistered l r) w1 l' w'"
      by (rule sim_frRelease[OF f, where n = n and r = r and e = e])
        (use c True rm None m t r in \<open>simp_all add: frDeregister_def fr_nth needsRemoval_def\<close>)
    finally show ?thesis .
  qed
qed

lemma sim_finishRunner:
  assumes f: "freshIDs api issued" and c: "finishRunner api l w n r code err t = (e, l', w')"
    and ref: "refOk l n r"
  shows "simulates api issued l w l' w'"
proof (cases "rs_cleaned (la_heap l ! r)")
  case True
  then show ?thesis using c by (simp add: finishRunner_def simulates_refl)
next
  case False
  let ?l1 = "frEnter l r code err t"
  have r: "r < length (la_heap l)" and m: "map_of (la_running l) n = Some r"
    using ref False by (auto simp: refOk_def)
  have enter: "simulates api issued l w ?l1 w"
    by (rule simulates_step) (use r False in \<open>auto intro: ls_enter\<close>)
  have dereg: "simulates api issued l2 w2 l' w'"
    if "frDeregister api l2 w2 n r = (e, l', w')" "la_running l2 = la_running l"
      "rs_terminated (la_heap l2 ! r)" "length (la_heap l2) = length (la_heap l)" for l2 w2
    using sim_frDeregister[OF f that(1)] that m r by simp
  have trm: "simulates api issued ?l1 w (frTerminated ?l1 r) w1"
    if "\<not> rs_terminated (la_heap ?l1 ! r)" "issued w \<subseteq> issued w1" for w1
    by (rule simulates_step) (use r that in \<open>auto intro!: ls_terminated simp: fr_nth\<close>)
  have kill: "issued w \<subseteq> issued (snd (ap_kill api w h))" for h
    using f by (simp add: freshIDs_def)
  obtain ek wk where k: "ap_kill api w (rs_handle (la_heap ?l1 ! r)) = (ek, wk)" by fastforce
  have wk: "issued w \<subseteq> issued wk" using kill[of "rs_handle (la_heap ?l1 ! r)"] k by simp
  consider (gone) "rs_terminated (la_heap ?l1 ! r)" "frDeregister api ?l1 w n r = (e, l', w')"
    | (stuck) "l' = ?l1" "w' = wk"
    | (killed) "\<not> rs_terminated (la_heap ?l1 ! r)" "frDeregister api (frTerminated ?l1 r) wk n r = (e, l', w')"
    | (exited) "\<not> rs_terminated (la_heap ?l1 ! r)" "frDeregister api (frTerminated ?l1 r) w n r = (e, l', w')"
    using c False k by (auto simp: finishRunner_def Let_def split: if_splits option.splits)
  then have "simulates api issued ?l1 w l' w'"
  proof cases
    case gone then show ?thesis using dereg by simp
  next
    case stuck then show ?thesis using wk by (simp add: simulates_world)
  next
    case killed
    then show ?thesis
      using simulates_trans[OF trm[OF killed(1) wk] dereg] r by (simp add: fr_nth)
  next
    case exited
    then show ?thesis
      using simulates_trans[OF trm[OF exited(1) order_refl] dereg] r by (simp add: fr_nth)
  qed
  with enter show ?thesis by (rule simulates_trans)
qed

text \<open>A snapshot of the running map stays valid while its runners are finished one by one.\<close>

lemma simulates_refOk:
  assumes "simulates api issued l w l' w'" and "launcherInv l" and "namesIssued issued l w"
    and "\<forall>(n, r) \<in> set ps. refOk l n r"
  shows "launcherInv l'" "namesIssued issued l' w'" "\<forall>(n, r) \<in> set ps. refOk l' n r"
  using assms launcher_machine.run_inv[of api l l'] steps_refOk[of api l l']
  by (auto simp: simulates_def)

lemma sim_retryCleanup:
  assumes f: "freshIDs api issued"
  shows "retryCleanup api ps l w = (es, l', w') \<Longrightarrow> \<forall>(n, r) \<in> set ps. refOk l n r
    \<Longrightarrow> simulates api issued l w l' w'"
proof (induction ps arbitrary: l w es l' w')
  case (Cons p ps)
  obtain n r where p: "p = (n, r)" by (cases p)
  obtain e l1 w1 where fin:
    "finishRunner api l w n r (rs_exitCode (la_heap l ! r)) (rs_waitErr (la_heap l ! r)) True = (e, l1, w1)"
    by (metis prod_cases3)
  have 1: "simulates api issued l w l1 w1"
    using sim_finishRunner[OF f fin] Cons.prems(2) p by simp
  show ?case
  proof (cases "ap_callErr api w1")
    case True
    then show ?thesis using Cons.prems(1) p fin 1 by (simp add: Let_def)
  next
    case False
    obtain es2 l2 w2 where rest: "retryCleanup api ps l1 w1 = (es2, l2, w2)" by (metis prod_cases3)
    have eq: "l' = l2" "w' = w2" using Cons.prems(1) p fin False rest by (simp_all add: Let_def)
    show ?thesis
    proof (rule simulatesI)
      assume i: "launcherInv l" "namesIssued issued l w"
      have "\<forall>(n, r) \<in> set ps. refOk l1 n r"
        by (rule simulates_refOk(3)[OF 1 i]) (use Cons.prems(2) in auto)
      then show "simulates api issued l w l' w'"
        using simulates_trans[OF 1 Cons.IH[OF rest]] eq by simp
    qed
  qed
qed (simp add: simulates_refl)

lemma sim_finishAll:
  assumes f: "freshIDs api issued"
  shows "finishAll api ps l w = (es, l', w') \<Longrightarrow> \<forall>(n, r) \<in> set ps. refOk l n r
    \<Longrightarrow> simulates api issued l w l' w'"
proof (induction ps arbitrary: l w es l' w')
  case (Cons p ps)
  obtain n r where p: "p = (n, r)" by (cases p)
  obtain e l1 w1 where fin: "finishRunner api l w n r (-1) None True = (e, l1, w1)"
    by (metis prod_cases3)
  have 1: "simulates api issued l w l1 w1"
    using sim_finishRunner[OF f fin] Cons.prems(2) p by simp
  obtain es2 l2 w2 where rest: "finishAll api ps l1 w1 = (es2, l2, w2)" by (metis prod_cases3)
  have eq: "l' = l2" "w' = w2" using Cons.prems(1) p fin rest by (simp_all add: Let_def)
  show ?case
  proof (rule simulatesI)
    assume i: "launcherInv l" "namesIssued issued l w"
    have "\<forall>(n, r) \<in> set ps. refOk l1 n r"
      by (rule simulates_refOk(3)[OF 1 i]) (use Cons.prems(2) in auto)
    then show "simulates api issued l w l' w'"
      using simulates_trans[OF 1 Cons.IH[OF rest]] eq by simp
  qed
qed (simp add: simulates_refl)

lemma sim_retryRegistrations:
  assumes f: "freshIDs api issued"
  shows "retryRegistrations api ps l w = (es, l', w') \<Longrightarrow> simulates api issued l w l' w'"
proof (induction ps arbitrary: l w es)
  case (Cons p ps)
  obtain rid n where p: "p = (rid, n)" by (cases p)
  obtain e w1 where rm: "removeRunner api w rid = (e, w1)" by fastforce
  note w1 = removeRunner_issued[OF f rm]
  let ?l1 = "if e = None then l\<lparr>la_pendingRegistrations := AList.delete rid (la_pendingRegistrations l)\<rparr> else l"
  have "simulates api issued l w ?l1 w1"
  proof (cases e)
    case None
    then show ?thesis using w1 by (auto intro!: simulates_step ls_forget)
  qed (use w1 in \<open>simp add: simulates_world\<close>)
  moreover have "\<exists>es. retryRegistrations api ps ?l1 w1 = (es, l', w')"
    using Cons.prems p rm by (auto split: option.splits prod.splits)
  ultimately show ?case using Cons.IH simulates_trans by metis
qed (simp add: simulates_refl)

subsection \<open>Launching\<close>

text \<open>One successful launch takes one from the number still allowed.\<close>

lemma allowed_after_launch:
  assumes inv: "launcherInv l" "launcherInv l'" and pos: "0 < allowedLocked l want"
    and launch: "launchLocked api l w = (None, l', w')"
  shows "runningLocked l' = runningLocked l + 1" "allowedLocked l' want = allowedLocked l want - 1"
proof -
  have "countOf rs_occupiesCapacity (la_heap l') = Suc (countOf rs_occupiesCapacity (la_heap l))"
    using launch by (cases rule: launchLocked_cases) (auto simp: freshState_def)
  then show run: "runningLocked l' = runningLocked l + 1"
    using runningLocked_count inv by simp
  show "allowedLocked l' want = allowedLocked l want - 1"
    using pos run launchLocked_sel[OF launch] by (auto simp: allowedLocked_def Let_def split: if_splits)
qed

lemma sim_launchN:
  assumes f: "freshIDs api issued"
  shows "launchN n api l w = (e, l', w') \<Longrightarrow> int n \<le> allowedLocked l want \<Longrightarrow> \<not> la_stopped l
    \<Longrightarrow> simulates api issued l w l' w'"
proof (induction n arbitrary: l w)
  case (Suc n)
  obtain e1 l1 w1 where launch: "launchLocked api l w = (e1, l1, w1)" by (metis prod_cases3)
  have pos: "0 < allowedLocked l want" using Suc.prems(2) by simp
  show ?case
  proof (rule simulatesI)
    assume i: "launcherInv l" and nm: "namesIssued issued l w"
    have step: "lstep api l l1"
      using ls_launch[OF Suc.prems(3) pos freshIDs_freshName[OF f nm] launch] .
    then have 1: "simulates api issued l w l1 w1"
      using launchLocked_issued[OF f nm launch] by (auto simp: simulates_def)
    have i1: "launcherInv l1" using lstep_inv[OF step i] .
    show "simulates api issued l w l' w'"
    proof (cases e1)
      case (Some x)
      then show ?thesis using Suc.prems(1) launch 1 by simp
    next
      case None
      have "int n \<le> allowedLocked l1 want"
        using allowed_after_launch(2)[OF i i1 pos, of api w w1] launch None Suc.prems(2) by simp
      then have "simulates api issued l1 w1 l' w'"
        using Suc.IH Suc.prems launch None launchLocked_sel(2)[OF launch] by simp
      with 1 show ?thesis by (rule simulates_trans)
    qed
  qed
qed (simp add: simulates_refl)

subsection \<open>The operations\<close>

lemma snapshot_refOk:
  "launcherInv l \<Longrightarrow> \<forall>(n, r) \<in> set (filter p (la_running l)). refOk l n r"
  using refOk_running by auto

lemma sim_retryPendingRegistrations:
  assumes "freshIDs api issued" and "retryPendingRegistrations api l w = (e, l', w')"
  shows "simulates api issued l w l' w'"
  using assms sim_retryRegistrations[OF assms(1)]
  by (auto simp: retryPendingRegistrations_def split: prod.splits)

lemma sim_retryPendingCleanup:
  assumes "freshIDs api issued" and "retryPendingCleanup api l w = (e, l', w')"
  shows "simulates api issued l w l' w'"
proof (rule simulatesI)
  assume i: "launcherInv l"
  obtain es where "retryCleanup api (filter (\<lambda>(n, r). rs_cleanupStarted (la_heap l ! r)) (la_running l)) l w
      = (es, l', w')" using assms(2) by (auto simp: retryPendingCleanup_def split: prod.splits)
  then show "simulates api issued l w l' w'"
    using sim_retryCleanup[OF assms(1)] snapshot_refOk[OF i] by blast
qed

lemma accountCompletions_sel [simp]:
  "la_running (accountCompletions ns l) = la_running l"
  "la_opts (accountCompletions ns l) = la_opts l"
  "la_stopped (accountCompletions ns l) = la_stopped l"
  "la_spawned (accountCompletions ns l) = la_spawned l"
  "la_desired (accountCompletions ns l) = la_desired l"
  "length (la_heap (accountCompletions ns l)) = length (la_heap l)"
  by (induction ns arbitrary: l) (auto simp: Let_def split: option.splits)

lemma commitDesired_sel [simp]:
  "la_running (commitDesired l c) = la_running l" "la_opts (commitDesired l c) = la_opts l"
  "la_stopped (commitDesired l c) = la_stopped l" "la_spawned (commitDesired l c) = la_spawned l"
  "la_desired (commitDesired l c) = c"
  "length (la_heap (commitDesired l c)) = length (la_heap l)"
  by (simp_all add: commitDesired_def Let_def)

lemma sim_HandleDesiredRunnerCount:
  assumes f: "freshIDs api issued" and h: "HandleDesiredRunnerCount api l w count = (res, l', w')"
  shows "simulates api issued l w l' w'"
proof (cases "la_stopped l")
  case True
  then show ?thesis using h by (simp add: HandleDesiredRunnerCount_def simulates_refl)
next
  case False
  obtain e1 l1 w1 where 1: "retryPendingRegistrations api (commitDesired l count) w = (e1, l1, w1)"
    by (metis prod_cases3)
  obtain e2 l2 w2 where 2: "retryPendingCleanup api l1 w1 = (e2, l2, w2)" by (metis prod_cases3)
  obtain e3 l3 w3 where 3: "launchN (nat (allowedLocked l2 count)) api l2 w2 = (e3, l3, w3)"
    by (metis prod_cases3)
  have s0: "simulates api issued l w (commitDesired l count) w"
    using False by (auto intro!: simulates_step ls_commit)
  have s1: "simulates api issued l w l1 w1"
    using simulates_trans[OF s0 sim_retryPendingRegistrations[OF f 1]] .
  have s2: "simulates api issued l w l2 w2"
    using simulates_trans[OF s1 sim_retryPendingCleanup[OF f 2]] .
  have s3: "simulates api issued l w l3 w3" if "\<not> la_stopped l2"
  proof (cases "0 < allowedLocked l2 count")
    case True
    then show ?thesis using simulates_trans[OF s2 sim_launchN[OF f 3, of count]] that by simp
  qed (use 3 s2 in simp)
  have "(l', w') = (l1, w1) \<or> (l', w') = (l2, w2) \<or> (\<not> la_stopped l2 \<and> (l', w') = (l3, w3))"
    using h False 1 2 3 by (auto simp: HandleDesiredRunnerCount_def Let_def split: if_splits)
  then show ?thesis using s1 s2 s3 by auto
qed

lemma sim_refill:
  assumes f: "freshIDs api issued" and h: "refill api l w = (l', w')"
  shows "simulates api issued l w l' w'"
proof (cases "la_stopped l \<or> ap_ctxErr api w \<or> allowedLocked l (la_desired l) \<le> 0")
  case True
  then show ?thesis using h by (auto simp: refill_def simulates_refl split: if_splits)
next
  case False
  then obtain e where "launchN (nat (allowedLocked l (la_desired l))) api l w = (e, l', w')"
    using h by (auto simp: refill_def split: prod.splits)
  then show ?thesis using sim_launchN[OF f, of _ l w e l' w' "la_desired l"] False by simp
qed

lemma sim_awaitExit:
  assumes f: "freshIDs api issued" and h: "awaitExit api l w n r code err = (l', w')" and ref: "refOk l n r"
  shows "simulates api issued l w l' w'"
proof -
  let ?l1 = "if err = None \<and> code = 0 then noteExit l n r else l"
  obtain e l2 w2 where fin: "finishRunner api ?l1 w n r code err (err \<noteq> None) = (e, l2, w2)"
    by (metis prod_cases3)
  have s1: "simulates api issued l w ?l1 w"
    using simulates_step[of l issued w api "noteExit l n r" w] ls_exit[of api l n r]
    by (simp add: simulates_refl noteExit_def)
  have ref1: "refOk ?l1 n r" using ref by (simp add: refOk_def noteExit_def)
  have s2: "simulates api issued l w l2 w2"
    using simulates_trans[OF s1 sim_finishRunner[OF f fin ref1]] .
  have "(l', w') = (l2, w2) \<or> refill api l2 w2 = (l', w')"
    using h fin by (auto simp: awaitExit_def Let_def split: if_splits)
  then show ?thesis using s2 simulates_trans[OF s2 sim_refill[OF f]] by auto
qed

lemma sim_Shutdown:
  assumes f: "freshIDs api issued" and h: "Shutdown api l w = (e, l', w')"
  shows "simulates api issued l w l' w'"
proof (rule simulatesI)
  assume i: "launcherInv l"
  let ?l0 = "l\<lparr>la_stopped := True\<rparr>"
  obtain es l1 w1 where fin: "finishAll api (la_running l) ?l0 w = (es, l1, w1)" by (metis prod_cases3)
  obtain e2 where reg: "retryPendingRegistrations api l1 w1 = (e2, l', w')"
    using h fin by (auto simp: Shutdown_def Let_def split: prod.splits)
  have "refOk ?l0 n r" if "(n, r) \<in> set (la_running l)" for n r
    using refOk_running[OF i that] by (simp add: refOk_def)
  then have "simulates api issued ?l0 w l1 w1"
    using sim_finishAll[OF f fin] by blast
  then have "simulates api issued ?l0 w l' w'"
    by (rule simulates_trans) (rule sim_retryPendingRegistrations[OF f reg])
  moreover have "simulates api issued l w ?l0 w" by (auto intro!: simulates_step ls_stop)
  ultimately show "simulates api issued l w l' w'" by (rule simulates_trans[rotated])
qed

section \<open>Executions\<close>

text \<open>
  The listener's calls, the exits of the runners the launcher waits for, the cleanups it
  started and its shutdown, in any order.
\<close>

inductive exec :: "'w api \<Rightarrow> launcher \<times> 'w \<Rightarrow> launcher \<times> 'w \<Rightarrow> bool" for api :: "'w api" where
  ex_desired: "HandleDesiredRunnerCount api l w count = (res, l', w') \<Longrightarrow> exec api (l, w) (l', w')"
| ex_started: "exec api (l, w) (HandleJobStarted l job, w)"
| ex_completed: "exec api (l, w) (HandleJobCompleted l job, w)"
| ex_exit: "AwaitExit n r \<in> set (la_spawned l) \<Longrightarrow> awaitExit api l w n r code err = (l', w')
    \<Longrightarrow> exec api (l, w) (l', w')"
| ex_partial: "PartialCleanup n r \<in> set (la_spawned l)
    \<Longrightarrow> finishRunner api l w n r (-1) None True = (e, l', w') \<Longrightarrow> exec api (l, w) (l', w')"
| ex_shutdown: "Shutdown api l w = (e, l', w') \<Longrightarrow> exec api (l, w) (l', w')"

fun goroutineRef :: "goroutine \<Rightarrow> string \<times> nat" where
  "goroutineRef (AwaitExit n r) = (n, r)"
| "goroutineRef (PartialCleanup n r) = (n, r)"

definition spawnedOk :: "launcher \<Rightarrow> bool" where
  "spawnedOk l = (\<forall>g \<in> set (la_spawned l). refOk l (fst (goroutineRef g)) (snd (goroutineRef g)))"

lemma lstep_spawnedOk: "lstep api l l' \<Longrightarrow> spawnedOk l \<Longrightarrow> spawnedOk l'"
proof -
  assume step: "lstep api l l'" and ok: "spawnedOk l"
  have old: "refOk l' (fst (goroutineRef g)) (snd (goroutineRef g))" if "g \<in> set (la_spawned l)" for g
    using lstep_refOk[OF step] ok that by (auto simp: spawnedOk_def)
  from step have "la_spawned l' = la_spawned l
      \<or> (\<exists>g. la_spawned l' = la_spawned l @ [g] \<and> refOk l' (fst (goroutineRef g)) (snd (goroutineRef g)))"
  proof cases
    case (ls_launch want w e w')
    from ls_launch(4) show ?thesis
      by (cases rule: launchLocked_cases) (auto simp: refOk_def)
  qed (auto simp: frEnter_def frTerminated_def frDeregistered_def frCleaned_def noteExit_def Let_def
      HandleJobStarted_def HandleJobCompleted_def addCompletion_def split: option.splits)
  then show ?thesis using old by (auto simp: spawnedOk_def)
qed

lemma steps_spawnedOk: "(lstep api)\<^sup>*\<^sup>* l l' \<Longrightarrow> spawnedOk l \<Longrightarrow> spawnedOk l'"
  by (induction rule: rtranclp_induct) (auto intro: lstep_spawnedOk)

lemma job_events_sel [simp]:
  "la_running (HandleJobStarted l job) = la_running l" "la_opts (HandleJobStarted l job) = la_opts l"
  "la_running (HandleJobCompleted l job) = la_running l" "la_opts (HandleJobCompleted l job) = la_opts l"
  by (auto simp: HandleJobStarted_def HandleJobCompleted_def addCompletion_def split: option.splits)

lemma sim_exec:
  assumes f: "freshIDs api issued" and x: "exec api (l, w) (l', w')" and ok: "spawnedOk l"
  shows "simulates api issued l w l' w'"
  using x
proof cases
  case (ex_started job)
  then show ?thesis by (auto intro!: simulates_step lstep.ls_started)
next
  case (ex_completed job)
  then show ?thesis by (auto intro!: simulates_step lstep.ls_completed)
next
  case (ex_exit n r code err)
  then show ?thesis using ok sim_awaitExit[OF f ex_exit(2)] by (force simp: spawnedOk_def)
next
  case (ex_partial n r e)
  then show ?thesis using ok sim_finishRunner[OF f ex_partial(2)] by (force simp: spawnedOk_def)
qed (auto intro: sim_HandleDesiredRunnerCount[OF f] sim_Shutdown[OF f])

lemma exec_steps:
  assumes f: "freshIDs api issued"
  shows "(exec api)\<^sup>*\<^sup>* (newLauncher opts, w0) (l, w)
    \<Longrightarrow> (lstep api)\<^sup>*\<^sup>* (newLauncher opts) l \<and> namesIssued issued l w"
proof (induction "(l, w)" arbitrary: l w rule: rtranclp_induct)
  case base
  then show ?case by (simp add: namesIssued_def newLauncher_def)
next
  case (step p l' w')
  obtain l w where p: "p = (l, w)" by (cases p)
  have ih: "(lstep api)\<^sup>*\<^sup>* (newLauncher opts) l" "namesIssued issued l w" using step(3) p by auto
  have "spawnedOk l" using steps_spawnedOk[OF ih(1)] by (simp add: spawnedOk_def newLauncher_def)
  then have "simulates api issued l w l' w'" using sim_exec[OF f] step(2) p by simp
  moreover have "launcherInv l" using launcher_machine.run_inv[OF ih(1) newLauncher_inv] .
  ultimately show ?case using ih by (auto simp: simulates_def)
qed

section \<open>What holds in every reachable state\<close>

lemma lstep_opts: "lstep api l l' \<Longrightarrow> la_opts l' = la_opts l"
proof (induction rule: lstep.induct)
  case (ls_launch l want w e l' w')
  show ?case by (rule launchLocked_sel(1)[OF ls_launch(4)])
qed (auto simp: frEnter_def frTerminated_def frDeregistered_def frCleaned_def noteExit_def Let_def)

lemma reach_launcher:
  assumes "reach (\<lambda>l. l = newLauncher opts) (lstep api) l"
  shows "launcherInv l" and "la_opts l = la_opts (newLauncher opts)"
  using assms
  by (induction rule: reach.induct) (auto intro: newLauncher_inv lstep_inv simp: lstep_opts)

lemma newLauncher_opts [simp]:
  "op_MaxRunners (la_opts (newLauncher opts)) = op_MaxRunners opts"
  "op_hasOnStart (la_opts (newLauncher opts)) = op_hasOnStart opts"
  "op_hasOnStop (la_opts (newLauncher opts)) = op_hasOnStop opts"
  by (simp_all add: newLauncher_def)

text \<open>A world that hands out the identifiers 0, 1, 2, ... and in which every call succeeds.\<close>

definition counterApi :: "nat api" where
  "counterApi =
     \<lparr>ap_shortID = (\<lambda>w. (Inr (natDigits w), Suc w)),
      ap_jit = (\<lambda>w n f i. (Inr (Some \<lparr>jc_EncodedJITConfig = ''jit'', jc_Runner = Some (int (Suc w))\<rparr>), w)),
      ap_launch = (\<lambda>w q. (Launched (''ctr-'' @ lr_Name q), w)),
      ap_kill = (\<lambda>w h. (None, w)),
      ap_removeRunner = (\<lambda>w i. (None, w)),
      ap_backendName = ''docker'',
      ap_store = Some \<lparr>os_list = (\<lambda>w ow. (Inr [], w)), os_remove = (\<lambda>w h. (None, w))\<rparr>,
      ap_ctxErr = (\<lambda>w. False), ap_callErr = (\<lambda>w. False)\<rparr>"

definition counterIssued :: "nat \<Rightarrow> string set" where
  "counterIssued w = natDigits ` {..<w}"

lemma counterApi_freshIDs: "freshIDs counterApi counterIssued"
  by (auto simp: freshIDs_def counterApi_def counterIssued_def)

definition demoOptions :: options where
  "demoOptions =
     \<lparr>op_ScaleSetID = 7, op_Image = ''img'', op_WorkFolder = ''_work'', op_Labels = [''self''],
      op_Env = [], op_Mounts = [], op_Container =
        \<lparr>cs_CPUCount = 0, cs_MemoryBytes = 0, cs_MemorySwapBytes = 0, cs_DNS = []\<rparr>,
      op_MaxRunners = 2, op_Ownership = zeroOwnership, op_hasOnStart = True, op_hasOnStop = True\<rparr>"

definition demoRun :: "(int \<times> gerr option) \<times> launcher \<times> nat" where
  "demoRun = HandleDesiredRunnerCount counterApi (newLauncher demoOptions) 0 3"

lemma demoRun_exec: "exec counterApi (newLauncher demoOptions, 0) (snd demoRun)"
proof -
  obtain res l' w' where "demoRun = (res, l', w')" by (metis prod_cases3)
  then show ?thesis using ex_desired[of counterApi "newLauncher demoOptions" 0 3] by (simp add: demoRun_def)
qed

lemma demoRun_eval:
  "fst demoRun = (2, None)" "map fst (la_running (fst (snd demoRun))) = [''mr-scaleset-7-0'', ''mr-scaleset-7-1'']"
  "la_hooks (fst (snd demoRun)) = [OnStart, OnStart]"
  by code_simp+

text \<open>C1: Refinement. Whatever the listener, the exiting runners and the shutdown do, the launcher
  is in a state its machine of critical sections reaches from the new launcher.\<close>

theorem launcher_refines_machine:
  assumes "freshIDs api issued" and "(exec api)\<^sup>*\<^sup>* (newLauncher opts, w0) (l, w)"
  shows "reach (\<lambda>l. l = newLauncher opts) (lstep api) l"
proof -
  have "(lstep api)\<^sup>*\<^sup>* (newLauncher opts) l" using exec_steps[OF assms] by simp
  then show ?thesis by (induction rule: rtranclp_induct) (auto intro: reach.intros)
qed

theorem launcher_refines_machine_witness:
  "reach (\<lambda>l. l = newLauncher demoOptions) (lstep counterApi) (fst (snd demoRun))"
  using launcher_refines_machine[OF counterApi_freshIDs, of demoOptions 0 "fst (snd demoRun)" "snd (snd demoRun)"]
    demoRun_exec by auto

lemma demo_reach: "reach (\<lambda>l. l = newLauncher demoOptions) (lstep counterApi) (fst (snd demoRun))"
proof -
  have "(lstep counterApi)\<^sup>*\<^sup>* (newLauncher demoOptions) (fst (snd demoRun))"
    using exec_steps[OF counterApi_freshIDs, of demoOptions 0 "fst (snd demoRun)" "snd (snd demoRun)"]
      demoRun_exec by auto
  then show ?thesis by (induction rule: rtranclp_induct) (auto intro: reach.intros)
qed

text \<open>C2: Capacity. In every interleaving of the critical sections the number the launcher reports
  to GitHub counts exactly the runners not confirmed terminated, and never exceeds the
  configured maximum.\<close>

theorem launcher_capacity:
  assumes "reach (\<lambda>l. l = newLauncher opts) (lstep api) l"
  shows "runningLocked l = int (countOf (\<lambda>s. \<not> rs_terminated s) (la_heap l))
    \<and> (0 < op_MaxRunners opts \<longrightarrow> runningLocked l \<le> op_MaxRunners opts)"
proof -
  note inv = reach_launcher(1)[OF assms] and opts = reach_launcher(2)[OF assms]
  have "filter rs_occupiesCapacity (la_heap l) = filter (\<lambda>s. \<not> rs_terminated s) (la_heap l)"
    using inv by (intro filter_cong) (auto simp: launcherInv_def stateOk_def)
  then have "countOf rs_occupiesCapacity (la_heap l) = countOf (\<lambda>s. \<not> rs_terminated s) (la_heap l)"
    by (simp add: countOf_def)
  then show ?thesis using inv runningLocked_count[OF inv] opts
    by (simp add: launcherInv_def withinCapacity_def)
qed

theorem launcher_capacity_witness:
  "runningLocked (fst (snd demoRun)) = 2 \<and> runningLocked (fst (snd demoRun)) \<le> op_MaxRunners demoOptions"
proof -
  have "runningLocked (fst (snd demoRun)) = 2" by code_simp
  moreover have "0 < op_MaxRunners demoOptions" by code_simp
  ultimately show ?thesis using launcher_capacity[OF demo_reach] by simp
qed

text \<open>C3: No runner is forgotten. In every interleaving a runner the backend handed over stays in the
  running map, under one name only, until it is cleaned up; and a cleaned-up runner was
  terminated first and its registration removed if it needed removing.\<close>

theorem launcher_keeps_every_runner:
  assumes "reach (\<lambda>l. l = newLauncher opts) (lstep api) l" and "r < length (la_heap l)"
  shows "(\<not> rs_cleaned (la_heap l ! r) \<longrightarrow> (\<exists>!name. map_of (la_running l) name = Some r))
    \<and> (rs_cleaned (la_heap l ! r) \<longrightarrow> r \<notin> snd ` set (la_running l)
        \<and> rs_terminated (la_heap l ! r) \<and> \<not> needsRemoval (la_heap l ! r))"
proof -
  note inv = reach_launcher(1)[OF assms(1)]
  have d: "distinct (map fst (la_running l))" "distinct (map snd (la_running l))"
    and im: "snd ` set (la_running l) = {r. r < length (la_heap l) \<and> \<not> rs_cleaned (la_heap l ! r)}"
    using inv by (auto simp: launcherInv_defs)
  have "\<exists>!name. map_of (la_running l) name = Some r" if "\<not> rs_cleaned (la_heap l ! r)"
  proof -
    have "r \<in> snd ` set (la_running l)" using im assms(2) that by simp
    then obtain n where n: "(n, r) \<in> set (la_running l)" by auto
    then have "map_of (la_running l) n = Some r" using d by simp
    moreover have "n' = n" if "map_of (la_running l) n' = Some r" for n'
      using inj_onD[of snd "set (la_running l)" "(n', r)" "(n, r)"] map_of_SomeD[OF that] n d(2)
      by (simp add: distinct_map)
    ultimately show ?thesis by blast
  qed
  then show ?thesis using im inv assms(2) by (auto simp: launcherInv_def stateOk_def)
qed

theorem launcher_keeps_every_runner_witness:
  "\<exists>!name. map_of (la_running (fst (snd demoRun))) name = Some 1"
proof -
  have "1 < length (la_heap (fst (snd demoRun)))" "\<not> rs_cleaned (la_heap (fst (snd demoRun)) ! 1)"
    by code_simp+
  then show ?thesis using launcher_keeps_every_runner[OF demo_reach, of 1] by blast
qed

text \<open>Metrics balance. In every interleaving each \<open>OnStart\<close> is matched by exactly one \<open>OnStop\<close>,
  except for the runners whose stop has not been reported yet.\<close>

theorem launcher_hooks_balance:
  assumes "reach (\<lambda>l. l = newLauncher opts) (lstep api) l"
    and "op_hasOnStart opts" and "op_hasOnStop opts"
  shows "countOf isOnStart (la_hooks l)
    = countOf (\<lambda>h. \<not> isOnStart h) (la_hooks l) + countOf (\<lambda>s. \<not> rs_stopReported s) (la_heap l)"
  using reach_launcher[OF assms(1)] assms(2,3) by (simp add: launcherInv_def hooksBalanced_def)

theorem launcher_hooks_balance_witness:
  "countOf isOnStart (la_hooks (fst (snd demoRun))) = 2
   \<and> countOf (\<lambda>h. \<not> isOnStart h) (la_hooks (fst (snd demoRun)))
     + countOf (\<lambda>s. \<not> rs_stopReported s) (la_heap (fst (snd demoRun))) = 2"
proof -
  have "op_hasOnStart demoOptions" "op_hasOnStop demoOptions" by code_simp+
  note launcher_hooks_balance[OF demo_reach this]
  then show ?thesis by (simp add: demoRun_eval)
qed

section \<open>Shutdown\<close>

lemma lstep_stopped:
  "lstep api l l' \<Longrightarrow> la_stopped l
   \<Longrightarrow> la_stopped l' \<and> length (la_heap l') = length (la_heap l) \<and> la_spawned l' = la_spawned l"
  by (induction rule: lstep.induct)
    (auto simp: frEnter_def frTerminated_def frDeregistered_def frCleaned_def noteExit_def Let_def
      HandleJobStarted_def HandleJobCompleted_def addCompletion_def split: option.splits)

lemma no_launch_stopped_run:
  "(lstep api)\<^sup>*\<^sup>* l l' \<Longrightarrow> la_stopped l
   \<Longrightarrow> la_stopped l' \<and> length (la_heap l') = length (la_heap l) \<and> la_spawned l' = la_spawned l"
proof (induction rule: rtranclp_induct)
  case (step l1 l2)
  then show ?case using lstep_stopped[OF step(2)] by auto
qed simp

text \<open>After shutdown began, nothing is launched any more: whatever runs concurrently with it, no
  runner is added and no goroutine is started.\<close>

theorem no_launch_after_shutdown:
  assumes "(lstep api)\<^sup>*\<^sup>* l l'" and "la_stopped l"
  shows "la_stopped l' \<and> length (la_heap l') = length (la_heap l) \<and> la_spawned l' = la_spawned l"
  using no_launch_stopped_run[OF assms] .

definition demoStopped :: launcher where
  "demoStopped = (fst (snd demoRun))\<lparr>la_stopped := True\<rparr>"

theorem no_launch_after_shutdown_witness:
  "length (la_heap (noteExit demoStopped ''mr-scaleset-7-0'' 0)) = 2"
proof -
  have s: "la_stopped demoStopped" by code_simp
  have n: "length (la_heap demoStopped) = 2" by code_simp
  have "(lstep counterApi)\<^sup>*\<^sup>* demoStopped (noteExit demoStopped ''mr-scaleset-7-0'' 0)"
    by (rule r_into_rtranclp) (rule ls_exit)
  from no_launch_after_shutdown[OF this s] n show ?thesis by simp
qed

text \<open>A backend and a GitHub that carry out every cleanup call they get.\<close>

definition cleanupWorks :: "'w api \<Rightarrow> bool" where
  "cleanupWorks api =
     ((\<forall>w h. fst (ap_kill api w h) = None) \<and> (\<forall>w i. fst (ap_removeRunner api w i) = None)
      \<and> (\<exists>st. ap_store api = Some st \<and> (\<forall>w h. fst (os_remove st w h) = None)))"

lemma cleanupWorksD:
  assumes "cleanupWorks api"
  shows "\<exists>w'. ap_kill api w h = (None, w')" "\<exists>w'. removeRunner api w i = (None, w')"
    "\<exists>w'. frRelease api l w n r = (rs_waitErr (la_heap l ! r), frCleaned l n r, w')"
proof -
  obtain st where st: "ap_store api = Some st" "\<And>w h. fst (os_remove st w h) = None"
    using assms by (auto simp: cleanupWorks_def)
  show "\<exists>w'. ap_kill api w h = (None, w')"
    using assms by (metis cleanupWorks_def prod.collapse)
  have "\<exists>w'. ap_removeRunner api w i = (None, w')"
    using assms by (metis cleanupWorks_def prod.collapse)
  then show "\<exists>w'. removeRunner api w i = (None, w')" by (auto simp: removeRunner_def)
  have "\<exists>w'. os_remove st w (rs_handle (la_heap l ! r)) = (None, w')"
    using st(2) by (metis prod.collapse)
  then show "\<exists>w'. frRelease api l w n r = (rs_waitErr (la_heap l ! r), frCleaned l n r, w')"
    using st(1) by (auto simp: frRelease_def)
qed

lemma frDeregister_works:
  assumes "cleanupWorks api" and "r < length (la_heap l)"
  shows "\<exists>w' b. frDeregister api l w n r
    = (rs_waitErr (la_heap l ! r), frCleaned (if b then frDeregistered l r else l) n r, w')"
proof (cases "needsRemoval (la_heap l ! r)")
  case True
  obtain w1 where "removeRunner api w (rs_runnerID (la_heap l ! r)) = (None, w1)"
    using cleanupWorksD(2)[OF assms(1)] by blast
  then show ?thesis
    using cleanupWorksD(3)[OF assms(1), of "frDeregistered l r" w1 n r] True assms(2)
    by (auto simp: frDeregister_def fr_nth intro!: exI[of _ True])
next
  case False
  then show ?thesis using cleanupWorksD(3)[OF assms(1), of l w n r]
    by (auto simp: frDeregister_def intro!: exI[of _ False])
qed

text \<open>A cleanup whose calls succeed takes exactly its runner out of the map.\<close>

lemma finishRunner_works:
  assumes works: "cleanupWorks api" and ref: "refOk l n r"
    and c: "finishRunner api l w n r code err t = (e, l', w')"
  shows "rs_cleaned (la_heap l' ! r)" and "length (la_heap l') = length (la_heap l)"
    and "la_running l' = (if rs_cleaned (la_heap l ! r) then la_running l else AList.delete n (la_running l))"
proof -
  have r: "r < length (la_heap l)" using ref by (simp add: refOk_def)
  have "l' = l \<and> rs_cleaned (la_heap l ! r)
      \<or> (\<not> rs_cleaned (la_heap l ! r) \<and> (\<exists>l2. la_running l2 = la_running l \<and> length (la_heap l2) = length (la_heap l)
            \<and> l' = frCleaned l2 n r))"
  proof (cases "rs_cleaned (la_heap l ! r)")
    case True
    then show ?thesis using c by (simp add: finishRunner_def)
  next
    case False
    let ?l1 = "frEnter l r code err t"
    have r1: "r < length (la_heap ?l1)" "r < length (la_heap (frTerminated ?l1 r))" using r by simp_all
    obtain wk where k: "ap_kill api w (rs_handle (la_heap ?l1 ! r)) = (None, wk)"
      using cleanupWorksD(1)[OF works] by blast
    have "\<exists>l2 \<in> {?l1, frTerminated ?l1 r}. \<exists>w2. frDeregister api l2 w2 n r = (e, l', w')"
      using c False k by (auto simp: finishRunner_def Let_def split: if_splits)
    then obtain l2 w2 where "l2 \<in> {?l1, frTerminated ?l1 r}" and d: "frDeregister api l2 w2 n r = (e, l', w')"
      by blast
    then have l2: "la_running l2 = la_running l" "length (la_heap l2) = length (la_heap l)" by auto
    obtain b where "l' = frCleaned (if b then frDeregistered l2 r else l2) n r"
      using frDeregister_works[OF works, of r l2 w2 n] l2(2) d r by auto
    then show ?thesis using False l2 by (auto intro!: exI[of _ "if b then frDeregistered l2 r else l2"])
  qed
  then show "rs_cleaned (la_heap l' ! r)" "length (la_heap l') = length (la_heap l)"
    "la_running l' = (if rs_cleaned (la_heap l ! r) then la_running l else AList.delete n (la_running l))"
    using ref by (auto simp: frCleaned_def setState_def refOk_def Let_def)
qed

lemma lstep_cleaned:
  assumes "lstep api l l'" and "r < length (la_heap l)" and "rs_cleaned (la_heap l ! r)"
  shows "r < length (la_heap l') \<and> rs_cleaned (la_heap l' ! r)"
proof -

  have "refOk l n r" for n using assms by (simp add: refOk_def)
  then have ref: "refOk l' n r" for n using lstep_refOk[OF assms(1)] by blast
  obtain n where "n \<notin> fst ` set (la_running l')"
    using ex_new_if_finite[of "fst ` set (la_running l')"] infinite_UNIV_listI by auto
  then have "map_of (la_running l') n = None" by (simp add: map_of_eq_None_iff)
  then show ?thesis using ref[of n] by (simp add: refOk_def)
qed

lemma steps_cleaned:
  "(lstep api)\<^sup>*\<^sup>* l l' \<Longrightarrow> r < length (la_heap l) \<Longrightarrow> rs_cleaned (la_heap l ! r)
   \<Longrightarrow> r < length (la_heap l') \<and> rs_cleaned (la_heap l' ! r)"
  by (induction rule: rtranclp_induct) (auto dest: lstep_cleaned)

lemma finishAll_works:
  assumes f: "freshIDs api issued" and works: "cleanupWorks api"
  shows "finishAll api ps l w = (es, l', w') \<Longrightarrow> \<forall>(n, r) \<in> set ps. refOk l n r
    \<Longrightarrow> launcherInv l \<Longrightarrow> namesIssued issued l w
    \<Longrightarrow> \<forall>(n, r) \<in> set ps. rs_cleaned (la_heap l' ! r)"
proof (induction ps arbitrary: l w es l' w')
  case (Cons p ps)
  obtain n r where p: "p = (n, r)" by (cases p)
  have ref: "refOk l n r" "r < length (la_heap l)" using Cons.prems(2) p by (auto simp: refOk_def)
  obtain e l1 w1 where fin: "finishRunner api l w n r (-1) None True = (e, l1, w1)"
    by (metis prod_cases3)
  obtain es2 where rest: "finishAll api ps l1 w1 = (es2, l', w')"
    using Cons.prems(1) p fin by (auto simp: Let_def split: prod.splits)
  have sim: "simulates api issued l w l1 w1" using sim_finishRunner[OF f fin ref(1)] .
  have 1: "launcherInv l1" "namesIssued issued l1 w1" "\<forall>(n, r) \<in> set ps. refOk l1 n r"
    by (rule simulates_refOk[OF sim Cons.prems(3,4)]; use Cons.prems(2) in auto)+
  have "(lstep api)\<^sup>*\<^sup>* l1 l'"
    using sim_finishAll[OF f rest 1(3)] 1 by (simp add: simulates_def)
  then have "rs_cleaned (la_heap l' ! r)"
    using steps_cleaned finishRunner_works(1,2)[OF works ref(1) fin] ref(2) by metis
  then show ?case using Cons.IH[OF rest 1(3) 1(1,2)] p by auto
qed simp

lemma retryRegistrations_works:
  assumes works: "cleanupWorks api"
  shows "retryRegistrations api ps l w = (es, l', w')
    \<Longrightarrow> la_heap l' = la_heap l \<and> la_running l' = la_running l \<and> es = []
      \<and> la_pendingRegistrations l' = filter (\<lambda>p. fst p \<notin> fst ` set ps) (la_pendingRegistrations l)"
proof (induction ps arbitrary: l w)
  case (Cons p ps)
  obtain rid n where p: "p = (rid, n)" by (cases p)
  obtain w1 where "removeRunner api w rid = (None, w1)" using cleanupWorksD(2)[OF works] by blast
  then have "retryRegistrations api ps
      (l\<lparr>la_pendingRegistrations := AList.delete rid (la_pendingRegistrations l)\<rparr>) w1 = (es, l', w')"
    using Cons.prems p by simp
  from Cons.IH[OF this] show ?case using p
    by (auto simp: AList.delete_eq case_prod_beta intro: filter_cong)
qed simp

lemma inv_all_cleaned:
  assumes "launcherInv l" and "\<And>r. r < length (la_heap l) \<Longrightarrow> rs_cleaned (la_heap l ! r)"
  shows "la_running l = []
    \<and> (\<forall>r < length (la_heap l). rs_cleaned (la_heap l ! r) \<and> rs_terminated (la_heap l ! r))"
proof -
  have "snd ` set (la_running l) = {}" using assms by (auto simp: launcherInv_def tracked_def)
  moreover have "stateOk (la_heap l ! r)" if "r < length (la_heap l)" for r
    using assms(1) that by (simp add: launcherInv_def)
  ultimately show ?thesis using assms(2) by (auto simp: stateOk_def)
qed

text \<open>C5: A shutdown whose cleanup calls succeed leaves nothing behind: from every state the program
  reaches, all runners ever started are terminated and cleaned up, the running map and the
  list of registrations awaiting removal are empty.\<close>

theorem shutdown_drains:
  assumes f: "freshIDs api issued" and x: "(exec api)\<^sup>*\<^sup>* (newLauncher opts, w0) (l, w)"
    and works: "cleanupWorks api" and s: "Shutdown api l w = (e, l', w')"
  shows "la_running l' = [] \<and> (\<forall>r < length (la_heap l'). rs_cleaned (la_heap l' ! r) \<and> rs_terminated (la_heap l' ! r))
    \<and> la_pendingRegistrations l' = [] \<and> la_stopped l'"
proof -
  let ?l0 = "l\<lparr>la_stopped := True\<rparr>"
  have i: "launcherInv l" and nm: "namesIssued issued l w"
    using exec_steps[OF f x] launcher_machine.run_inv[OF _ newLauncher_inv] by auto
  then have i0: "launcherInv ?l0" and n0: "namesIssued issued ?l0 w"
    by (auto intro: inv_cong simp: namesIssued_def runnerName_cong[of "l\<lparr>la_stopped := True\<rparr>" l])
  obtain es l1 w1 where fin: "finishAll api (la_running l) ?l0 w = (es, l1, w1)" by (metis prod_cases3)
  obtain es2 where reg: "retryRegistrations api (la_pendingRegistrations l1) l1 w1 = (es2, l', w')"
    using s fin by (auto simp: Shutdown_def retryPendingRegistrations_def Let_def split: prod.splits)
  have ref: "\<forall>(n, r) \<in> set (la_running l). refOk ?l0 n r"
    using refOk_running[OF i0] by auto
  have run: "(lstep api)\<^sup>*\<^sup>* ?l0 l1" "(lstep api)\<^sup>*\<^sup>* ?l0 l'" and i1: "launcherInv l1"
  proof -
    have s1: "simulates api issued ?l0 w l1 w1" using sim_finishAll[OF f fin ref] .
    have s2: "simulates api issued ?l0 w l' w'"
      using simulates_trans[OF s1 sim_retryRegistrations[OF f reg]] .
    show "(lstep api)\<^sup>*\<^sup>* ?l0 l1" "(lstep api)\<^sup>*\<^sup>* ?l0 l'" using s1 s2 i0 n0 by (auto simp: simulates_def)
    then show "launcherInv l1" using launcher_machine.run_inv i0 by blast
  qed
  have len: "length (la_heap l1) = length (la_heap l)" "la_stopped l'"
    using no_launch_stopped_run[OF run(1)] no_launch_stopped_run[OF run(2)] by auto
  have "rs_cleaned (la_heap l1 ! r)" if "r < length (la_heap l1)" for r
  proof (cases "rs_cleaned (la_heap l ! r)")
    case True
    then show ?thesis using steps_cleaned[OF run(1), of r] that len by simp
  next
    case False
    then have "r \<in> snd ` set (la_running l)" using i that len by (auto simp: launcherInv_defs)
    then show ?thesis using finishAll_works[OF f works fin ref i0 n0] by auto
  qed
  then show ?thesis
    using inv_all_cleaned[OF i1] retryRegistrations_works[OF works reg] len(2) by auto
qed

theorem shutdown_drains_witness:
  "la_running (fst (snd (Shutdown counterApi (fst (snd demoRun)) (snd (snd demoRun))))) = []"
proof -
  have "cleanupWorks counterApi" by (simp add: cleanupWorks_def counterApi_def)
  moreover have "(exec counterApi)\<^sup>*\<^sup>* (newLauncher demoOptions, 0) (fst (snd demoRun), snd (snd demoRun))"
    using demoRun_exec by auto
  ultimately show ?thesis
    using shutdown_drains[OF counterApi_freshIDs] by (metis prod.collapse)
qed

section \<open>Scaling\<close>

text \<open>GitHub and the backend carry out every launch.\<close>

definition launchesWork :: "'w api \<Rightarrow> bool" where
  "launchesWork api =
     ((\<forall>w. \<exists>sid w'. ap_shortID api w = (Inr sid, w'))
      \<and> (\<forall>w n f i. \<exists>j rid w'. ap_jit api w n f i = (Inr (Some j), w') \<and> jc_Runner j = Some rid \<and> rid \<noteq> 0)
      \<and> (\<forall>w q. \<exists>hid w'. ap_launch api w q = (Launched hid, w')))"

lemma launchLocked_works:
  assumes "launchesWork api"
  shows "\<exists>l' w'. launchLocked api l w = (None, l', w')"
proof -
  have "\<exists>l' w'. launchBody api l w = (None, l', w')" for l w
  proof -
    obtain sid w1 where 1: "ap_shortID api w = (Inr sid, w1)"
      using assms unfolding launchesWork_def by blast
    obtain j rid w2 where 2: "ap_jit api w1 (runnerName l sid) (op_WorkFolder (la_opts l))
        (op_ScaleSetID (la_opts l)) = (Inr (Some j), w2)" "jc_Runner j = Some rid" "rid \<noteq> 0"
      using assms unfolding launchesWork_def by blast
    obtain hid w3 where 3: "ap_launch api w2 (launchRequest l (runnerName l sid) (jc_EncodedJITConfig j) rid)
        = (Launched hid, w3)"
      using assms unfolding launchesWork_def by blast
    show ?thesis using 1 2 3 by (simp add: launchBody_def launchBackend_def Let_def)
  qed
  then obtain l' w' where
    "launchBody api ((emitStart l)\<lparr>la_seq := la_seq (emitStart l) + 1\<rparr>) w = (None, l', w')" by blast
  then show ?thesis by (simp add: launchLocked_def Let_def)
qed

text \<open>\<open>n\<close> launches that succeed use up \<open>n\<close> of the allowance.\<close>

lemma launchN_works:
  assumes f: "freshIDs api issued" and works: "launchesWork api"
  shows "launcherInv l \<Longrightarrow> namesIssued issued l w \<Longrightarrow> \<not> la_stopped l \<Longrightarrow> int n \<le> allowedLocked l want
    \<Longrightarrow> launchN n api l w = (e, l', w')
    \<Longrightarrow> e = None \<and> allowedLocked l' want = allowedLocked l want - int n"
proof (induction n arbitrary: l w)
  case (Suc n)
  obtain l1 w1 where launch: "launchLocked api l w = (None, l1, w1)"
    using launchLocked_works[OF works] by blast
  have pos: "0 < allowedLocked l want" using Suc.prems(4) by simp
  have i1: "launcherInv l1"
    using inv_launchLocked[OF Suc.prems(1) pos freshIDs_freshName[OF f Suc.prems(2)] launch] .
  have n1: "namesIssued issued l1 w1" using launchLocked_issued[OF f Suc.prems(2) launch] .
  have a1: "allowedLocked l1 want = allowedLocked l want - 1"
    using allowed_after_launch(2)[OF Suc.prems(1) i1 pos launch] .
  show ?case
    using Suc.IH[OF i1 n1] a1 Suc.prems(3-5) launch launchLocked_sel(2)[OF launch] by simp
qed simp

lemma allowed_nonneg: "0 \<le> allowedLocked l want"
  by (auto simp: allowedLocked_def Let_def)

lemma fr_stopped [simp]:
  "la_stopped (frEnter l r c e t) = la_stopped l" "la_stopped (frTerminated l r) = la_stopped l"
  "la_stopped (frDeregistered l r) = la_stopped l" "la_stopped (frCleaned l n r) = la_stopped l"
  by (auto simp: frEnter_def frTerminated_def frDeregistered_def frCleaned_def Let_def)

lemma finishRunner_stopped:
  assumes "finishRunner api l w n r c err t = (e, l', w')" shows "la_stopped l' = la_stopped l"
proof -
  have rel: "la_stopped l' = la_stopped l" if "frRelease api l w n r = (e, l', w')" for l w
    using that by (auto simp: frRelease_def split: option.splits prod.splits)
  have "la_stopped l' = la_stopped l" if "frDeregister api l w n r = (e, l', w')" for l w
    using that rel by (fastforce simp: frDeregister_def split: option.splits prod.splits if_splits)
  then show ?thesis
    using assms by (fastforce simp: finishRunner_def Let_def split: option.splits prod.splits if_splits)
qed

lemma retryCleanup_stopped:
  "retryCleanup api ps l w = (es, l', w') \<Longrightarrow> la_stopped l' = la_stopped l"
proof (induction ps arbitrary: l w es)
  case (Cons p ps)
  obtain n r where "p = (n, r)" by (cases p)
  then show ?case using Cons.prems
    by (auto simp: Let_def split: prod.splits if_splits dest!: finishRunner_stopped Cons.IH)
qed simp

lemma retryRegistrations_stopped:
  "retryRegistrations api ps l w = (es, l', w') \<Longrightarrow> la_stopped l' = la_stopped l"
proof (induction ps arbitrary: l w es)
  case (Cons p ps)
  obtain n r where "p = (n, r)" by (cases p)
  then show ?case using Cons.prems
    by (auto simp: Let_def split: prod.splits option.splits dest!: Cons.IH)
qed simp

lemma retryPending_stopped:
  "retryPendingRegistrations api l w = (e, l', w') \<Longrightarrow> la_stopped l' = la_stopped l"
  "retryPendingCleanup api l w = (e, l', w') \<Longrightarrow> la_stopped l' = la_stopped l"
  by (auto simp: retryPendingRegistrations_def retryPendingCleanup_def split: prod.splits
      dest: retryCleanup_stopped retryRegistrations_stopped)

lemma steps_opts: "(lstep api)\<^sup>*\<^sup>* l l' \<Longrightarrow> la_opts l' = la_opts l"
  by (induction rule: rtranclp_induct) (auto simp: lstep_opts)

lemma capacity_reached:
  assumes "allowedLocked l want = 0" and "launcherInv l"
  shows "want - int (length (la_pendingExits l)) \<le> runningLocked l
    \<or> (0 < op_MaxRunners (la_opts l) \<and> runningLocked l = op_MaxRunners (la_opts l))"
  using assms runningLocked_count[OF assms(2)]
  by (auto simp: allowedLocked_def Let_def launcherInv_def withinCapacity_def split: if_splits)

lemma HandleDesired_report:
  "HandleDesiredRunnerCount api l w count = ((n, e), l', w') \<Longrightarrow> n = runningLocked l'"
  by (auto simp: HandleDesiredRunnerCount_def Let_def split: prod.splits if_splits)

text \<open>Scaling meets the demand. When launches succeed, a scale request that is not refused and not
  stopped ends with no more runners to start: the demand less the exits GitHub has not
  accounted for is met, or the configured maximum is reached. The number answered is the
  number running.\<close>

theorem desired_count_is_met:
  assumes f: "freshIDs api issued" and x: "(exec api)\<^sup>*\<^sup>* (newLauncher opts, w0) (l, w)"
    and works: "launchesWork api" and h: "HandleDesiredRunnerCount api l w count = ((n, e), l', w')"
    and "\<not> la_stopped l" and "\<not> isPermanentSessionError e"
  shows "n = runningLocked l' \<and> e = None \<and>
    (count - int (length (la_pendingExits l')) \<le> n \<or> (0 < op_MaxRunners opts \<and> n = op_MaxRunners opts))"
proof -
  have i: "launcherInv l" "namesIssued issued l w" and opts: "la_opts l = la_opts (newLauncher opts)"
    using exec_steps[OF f x] launcher_machine.run_inv[OF _ newLauncher_inv] steps_opts by auto
  obtain e1 l1 w1 where 1: "retryPendingRegistrations api (commitDesired l count) w = (e1, l1, w1)"
    by (metis prod_cases3)
  obtain e2 l2 w2 where 2: "retryPendingCleanup api l1 w1 = (e2, l2, w2)" by (metis prod_cases3)
  have s0: "simulates api issued l w (commitDesired l count) w"
    using assms(5) by (auto intro!: simulates_step ls_commit)
  have "simulates api issued l w l2 w2"
    using simulates_trans[OF simulates_trans[OF s0 sim_retryPendingRegistrations[OF f 1]]
        sim_retryPendingCleanup[OF f 2]] .
  then have run: "(lstep api)\<^sup>*\<^sup>* l l2" and n2: "namesIssued issued l2 w2"
    using i by (auto simp: simulates_def)
  have i2: "launcherInv l2" using launcher_machine.run_inv[OF run i(1)] .
  have st: "\<not> la_stopped l2"
    using retryPending_stopped(1)[OF 1] retryPending_stopped(2)[OF 2] assms(5) by simp
  have "\<not> isPermanentSessionError e1" "\<not> isPermanentSessionError e2"
    using h 1 2 assms(5,6) by (auto simp: HandleDesiredRunnerCount_def Let_def split: if_splits)
  then obtain e3 where e: "e = None" and la: "launchN (nat (allowedLocked l2 count)) api l2 w2 = (e3, l', w')"
    using h 1 2 st assms(5,6)
    by (auto simp: HandleDesiredRunnerCount_def Let_def split: if_splits prod.splits)
  have a: "int (nat (allowedLocked l2 count)) = allowedLocked l2 count" using allowed_nonneg[of l2 count] by simp
  have run': "(lstep api)\<^sup>*\<^sup>* l2 l'" using sim_launchN[OF f la, of count] st a i2 n2 by (simp add: simulates_def)
  have "allowedLocked l' count = 0" using launchN_works[OF f works i2 n2 st _ la, of count] a by simp
  then show ?thesis
    using HandleDesired_report[OF h] capacity_reached[of l' count] e opts steps_opts[OF run] steps_opts[OF run']
      launcher_machine.run_inv[OF run' i2] by simp
qed

theorem desired_count_is_met_witness:
  "fst demoRun = (2, None) \<and> 2 = op_MaxRunners demoOptions"
proof -
  have "launchesWork counterApi" by (simp add: launchesWork_def counterApi_def)
  moreover have "HandleDesiredRunnerCount counterApi (newLauncher demoOptions) 0 3
      = ((2, None), fst (snd demoRun), snd (snd demoRun))"
    using demoRun_eval(1) by (metis demoRun_def prod.collapse)
  moreover have "\<not> la_stopped (newLauncher demoOptions)" by code_simp
  moreover have "\<not> isPermanentSessionError None" by code_simp
  moreover have "\<not> 3 - int (length (la_pendingExits (fst (snd demoRun)))) \<le> 2" by code_simp
  ultimately show ?thesis
    using desired_count_is_met[OF counterApi_freshIDs rtranclp.rtrancl_refl, of demoOptions 0 3 2 None
        "fst (snd demoRun)" "snd (snd demoRun)"] demoRun_eval(1) by auto
qed

lemma launchN_bound:
  assumes f: "freshIDs api issued"
  shows "launcherInv l \<Longrightarrow> namesIssued issued l w \<Longrightarrow> \<not> la_stopped l \<Longrightarrow> int n \<le> allowedLocked l want
    \<Longrightarrow> launchN n api l w = (e, l', w') \<Longrightarrow> runningLocked l' \<le> runningLocked l + int n"
proof (induction n arbitrary: l w)
  case (Suc n)
  obtain e1 l1 w1 where launch: "launchLocked api l w = (e1, l1, w1)" by (metis prod_cases3)
  have pos: "0 < allowedLocked l want" using Suc.prems(4) by simp
  have i1: "launcherInv l1"
    using inv_launchLocked[OF Suc.prems(1) pos freshIDs_freshName[OF f Suc.prems(2)] launch] .
  have n1: "namesIssued issued l1 w1" using launchLocked_issued[OF f Suc.prems(2) launch] .
  have "countOf rs_occupiesCapacity (la_heap l1) \<le> Suc (countOf rs_occupiesCapacity (la_heap l))"
    using launch by (cases rule: launchLocked_cases) (auto simp: freshState_def)
  then have r1: "runningLocked l1 \<le> runningLocked l + 1"
    using runningLocked_count[OF i1] runningLocked_count[OF Suc.prems(1)] by simp
  show ?case
  proof (cases e1)
    case None
    then have "allowedLocked l1 want = allowedLocked l want - 1"
      using allowed_after_launch(2)[OF Suc.prems(1) i1 pos] launch by simp
    then show ?thesis
      using Suc.IH[OF i1 n1] r1 Suc.prems(3-5) launch None launchLocked_sel(2)[OF launch] by simp
  qed (use Suc.prems(5) launch r1 in simp)
qed simp

text \<open>A refill after a runner's exit never starts more than GitHub last asked for: the runners
  afterwards number at most the last demand less the exits it does not yet know of, unless
  that many were running before, in which case none is started.\<close>

theorem refill_within_demand:
  assumes f: "freshIDs api issued" and x: "(exec api)\<^sup>*\<^sup>* (newLauncher opts, w0) (l, w)"
    and h: "refill api l w = (l', w')"
  shows "runningLocked l' \<le> max (runningLocked l) (la_desired l - int (length (la_pendingExits l)))"
proof -
  have i: "launcherInv l" "namesIssued issued l w"
    using exec_steps[OF f x] launcher_machine.run_inv[OF _ newLauncher_inv] by auto
  have "runningLocked l' \<le> runningLocked l + allowedLocked l (la_desired l)"
  proof (cases "la_stopped l \<or> ap_ctxErr api w")
    case True
    then show ?thesis using h allowed_nonneg[of l "la_desired l"] by (simp add: refill_def)
  next
    case False
    then obtain e where "launchN (nat (allowedLocked l (la_desired l))) api l w = (e, l', w')"
      using h by (auto simp: refill_def split: prod.splits)
    from launchN_bound[OF f i _ _ this, of "la_desired l"] False allowed_nonneg[of l "la_desired l"]
    show ?thesis by simp
  qed
  then show ?thesis using allowed_le[of l "la_desired l"] by linarith
qed

theorem refill_within_demand_witness:
  "runningLocked (fst (refill counterApi (fst (snd demoRun)) (snd (snd demoRun)))) \<le> 3"
proof -
  have x: "(exec counterApi)\<^sup>*\<^sup>* (newLauncher demoOptions, 0) (fst (snd demoRun), snd (snd demoRun))"
    using demoRun_exec by auto
  have "runningLocked (fst (snd demoRun)) = 2" "la_desired (fst (snd demoRun)) = 3" by code_simp+
  then show ?thesis
    using refill_within_demand[OF counterApi_freshIDs x, of
        "fst (refill counterApi (fst (snd demoRun)) (snd (snd demoRun)))"
        "snd (refill counterApi (fst (snd demoRun)) (snd (snd demoRun)))"] by simp
qed

end
