(* ===== verification/Scaleset_Calls.thy ===== *)
theory Scaleset_Calls
  imports Scaleset_Refinement
begin

text \<open>
  The calls the launcher makes to the backend and to GitHub when it cleans up, in their order.
  \<open>logged api\<close> answers as \<open>api\<close> does and records each destructive call with its answer. Shown:
  a runner is killed before it is deregistered and deregistered before its backend record is
  dropped, and no step is taken after one that failed; reconciliation after a restart never
  touches a runner the launcher tracks.
\<close>

datatype call =
    Kill string "gerr option"
  | Deregister int "gerr option"
  | RemoveOwned string "gerr option"

text \<open>An answer the launcher takes as done: \<open>removeRunner\<close> accepts "no such runner".\<close>

fun callOk :: "call \<Rightarrow> bool" where
  "callOk (Kill h e) = (e = None)"
| "callOk (Deregister rid e) =
     (case e of None \<Rightarrow> True | Some x \<Rightarrow> errIs UpstreamRunnerNotFound x \<or> isHTTPStatus (Some x) ''404'')"
| "callOk (RemoveOwned h e) = (e = None)"

fun callRank :: "call \<Rightarrow> nat" where
  "callRank (Kill h e) = 0"
| "callRank (Deregister rid e) = 1"
| "callRank (RemoveOwned h e) = 2"

definition logKill :: "'w api \<Rightarrow> 'w \<times> call list \<Rightarrow> string \<Rightarrow> gerr option \<times> 'w \<times> call list" where
  "logKill api p h = (let (w, log) = p; (e, w1) = ap_kill api w h in (e, w1, log @ [Kill h e]))"

definition logRemove :: "'w api \<Rightarrow> 'w \<times> call list \<Rightarrow> int \<Rightarrow> gerr option \<times> 'w \<times> call list" where
  "logRemove api p rid =
     (let (w, log) = p; (e, w1) = ap_removeRunner api w rid in (e, w1, log @ [Deregister rid e]))"

definition logStore :: "'w owned_store \<Rightarrow> ('w \<times> call list) owned_store" where
  "logStore st =
     \<lparr>os_list = (\<lambda>(w, log) ow. let (r, w1) = os_list st w ow in (r, w1, log)),
      os_remove = (\<lambda>(w, log) h. let (e, w1) = os_remove st w h in (e, w1, log @ [RemoveOwned h e]))\<rparr>"

definition logged :: "'w api \<Rightarrow> ('w \<times> call list) api" where
  "logged api =
     \<lparr>ap_shortID = (\<lambda>(w, log). let (r, w1) = ap_shortID api w in (r, w1, log)),
      ap_jit = (\<lambda>(w, log) n f i. let (r, w1) = ap_jit api w n f i in (r, w1, log)),
      ap_launch = (\<lambda>(w, log) q. let (r, w1) = ap_launch api w q in (r, w1, log)),
      ap_kill = logKill api, ap_removeRunner = logRemove api,
      ap_backendName = ap_backendName api, ap_store = map_option logStore (ap_store api),
      ap_ctxErr = (\<lambda>(w, log). ap_ctxErr api w), ap_callErr = (\<lambda>(w, log). ap_callErr api w)\<rparr>"

lemma logged_sel [simp]:
  "ap_kill (logged api) = logKill api" "ap_removeRunner (logged api) = logRemove api"
  "ap_store (logged api) = map_option logStore (ap_store api)"
  "ap_backendName (logged api) = ap_backendName api"
  by (simp_all add: logged_def)

lemma removeRunner_logged:
  "removeRunner (logged api) (w, log) rid = (e, w', log') \<Longrightarrow>
     (rid = 0 \<and> e = None \<and> log' = log)
     \<or> (rid \<noteq> 0 \<and> (\<exists>d. log' = log @ [Deregister rid d] \<and> (e = None \<longleftrightarrow> callOk (Deregister rid d))))"
  by (auto simp: removeRunner_def logRemove_def Let_def split: prod.splits option.splits if_splits)

section \<open>Order of a cleanup\<close>

definition inOrder :: "call list \<Rightarrow> bool" where
  "inOrder log = sorted_wrt (\<lambda>a b. callOk a \<and> callRank a < callRank b) log"

lemma frRelease_logged:
  "frRelease (logged api) l (w, log) n r = (e, l', w', log') \<Longrightarrow>
     (log' = log \<and> l' = l)
     \<or> (\<exists>d. log' = log @ [RemoveOwned (rs_handle (la_heap l ! r)) d]
          \<and> l' = (if d = None then frCleaned l n r else l))"
  by (auto simp: frRelease_def logStore_def Let_def split: option.splits prod.splits)

lemma frDeregister_logged:
  assumes "frDeregister (logged api) l (w, log) n r = (e, l', w', log')"
    and r: "r < length (la_heap l)"
  shows "\<exists>tail l2. log' = log @ tail \<and> inOrder tail \<and> (\<forall>c \<in> set tail. 0 < callRank c)
     \<and> length (la_heap l2) = length (la_heap l) \<and> rs_cleaned (la_heap l2 ! r) = rs_cleaned (la_heap l ! r)
     \<and> (l' = l2 \<or> l' = frCleaned l2 n r \<and> tail \<noteq> [] \<and> last tail = RemoveOwned (rs_handle (la_heap l ! r)) None)"
proof (cases "needsRemoval (la_heap l ! r)")
  case False
  then have "frRelease (logged api) l (w, log) n r = (e, l', w', log')"
    using assms(1) by (simp add: frDeregister_def)
  from frRelease_logged[OF this] show ?thesis
    by (elim disjE exE) (force simp: inOrder_def intro: exI[of _ l])+
next
  case True
  obtain e1 w1 log1 where rm: "removeRunner (logged api) (w, log) (rs_runnerID (la_heap l ! r)) = (e1, w1, log1)"
    by (metis prod_cases3)
  obtain d where d: "log1 = log @ [Deregister (rs_runnerID (la_heap l ! r)) d]"
    "e1 = None \<longleftrightarrow> callOk (Deregister (rs_runnerID (la_heap l ! r)) d)"
    using removeRunner_logged[OF rm] True by (auto simp: needsRemoval_def)
  show ?thesis
  proof (cases e1)
    case (Some x)
    then have "l' = l" "log' = log1" using assms(1) True rm by (simp_all add: frDeregister_def)
    then show ?thesis using d by (force simp: inOrder_def)
  next
    case None
    let ?l1 = "frDeregistered l r"
    have "frRelease (logged api) ?l1 (w1, log1) n r = (e, l', w', log')"
      using assms(1) True rm None by (simp add: frDeregister_def)
    from frRelease_logged[OF this] show ?thesis
    proof (elim disjE exE conjE)
      assume "log' = log1" "l' = ?l1"
      then show ?thesis using d r by (intro exI[of _ "[Deregister (rs_runnerID (la_heap l ! r)) d]"] exI[of _ ?l1])
          (simp add: inOrder_def fr_nth)
    next
      fix x assume "log' = log1 @ [RemoveOwned (rs_handle (la_heap ?l1 ! r)) x]"
        "l' = (if x = None then frCleaned ?l1 n r else ?l1)"
      then show ?thesis using d None r
        by (intro exI[of _ "[Deregister (rs_runnerID (la_heap l ! r)) d, RemoveOwned (rs_handle (la_heap l ! r)) x]"]
            exI[of _ ?l1]) (auto simp: inOrder_def fr_nth)
    qed
  qed
qed

lemma inOrder_Kill:
  "inOrder tail \<Longrightarrow> \<forall>c \<in> set tail. 0 < callRank c \<Longrightarrow> inOrder (Kill h None # tail)"
  by (auto simp: inOrder_def)

text \<open>C4: Cleanup order. The calls of one cleanup are a kill, then a deregistration, then the removal
  of the backend record, each at most once and none after one that failed; a runner that is
  to be terminated and has not been is killed first; and a runner is marked clean only when
  the last call was the successful removal of its own backend record.\<close>

theorem cleanup_call_order:
  assumes c: "finishRunner (logged api) l (w, []) n r code err t = (e, l', w', log)"
    and r: "r < length (la_heap l)" and nc: "\<not> rs_cleaned (la_heap l ! r)"
  shows "inOrder log
    \<and> (t \<and> \<not> rs_terminated (la_heap l ! r) \<longrightarrow> (\<exists>ke. log \<noteq> [] \<and> hd log = Kill (rs_handle (la_heap l ! r)) ke))
    \<and> (rs_cleaned (la_heap l' ! r) \<longrightarrow> log \<noteq> [] \<and> last log = RemoveOwned (rs_handle (la_heap l ! r)) None)"
proof -
  let ?l1 = "frEnter l r code err t" and ?h = "rs_handle (la_heap l ! r)"
  have dereg: "\<exists>tail. log = pre @ tail \<and> inOrder tail \<and> (\<forall>c \<in> set tail. 0 < callRank c)
      \<and> (rs_cleaned (la_heap l' ! r) \<longrightarrow> tail \<noteq> [] \<and> last tail = RemoveOwned ?h None)"
    if "frDeregister (logged api) l2 (w2, pre) n r = (e, l', w', log)" "l2 = ?l1 \<or> l2 = frTerminated ?l1 r" for l2 w2 pre
  proof -
    have l2: "r < length (la_heap l2)" "\<not> rs_cleaned (la_heap l2 ! r)" "rs_handle (la_heap l2 ! r) = ?h"
      using that(2) r nc by (auto simp: fr_nth)
    from frDeregister_logged[OF that(1) l2(1)] show ?thesis using l2 by auto
  qed
  obtain ke wk where k: "ap_kill api w ?h = (ke, wk)" by fastforce
  consider (again) "rs_terminated (la_heap l ! r)" "frDeregister (logged api) ?l1 (w, []) n r = (e, l', w', log)"
    | (stuck) "t" "log = [Kill ?h ke]" "l' = ?l1"
    | (killed) "t" "ke = None" "frDeregister (logged api) (frTerminated ?l1 r) (wk, [Kill ?h None]) n r = (e, l', w', log)"
    | (exited) "\<not> t" "frDeregister (logged api) (frTerminated ?l1 r) (w, []) n r = (e, l', w', log)"
    using c nc r k by (auto simp: finishRunner_def Let_def logKill_def fr_nth split: if_splits option.splits)
  then show ?thesis
  proof cases
    case again then show ?thesis using dereg[of ?l1 w "[]"] by auto
  next
    case stuck then show ?thesis using r nc by (auto simp: inOrder_def fr_nth)
  next
    case killed
    then show ?thesis using dereg[of "frTerminated ?l1 r" wk "[Kill ?h None]"] inOrder_Kill by auto
  next
    case exited then show ?thesis using dereg[of "frTerminated ?l1 r" w "[]"] by auto
  qed
qed

theorem cleanup_call_order_witness:
  "snd (snd (snd (finishRunner (logged counterApi) (fst (snd demoRun)) (5, []) ''mr-scaleset-7-1'' 1 (-1) None True)))
     = [Kill ''ctr-mr-scaleset-7-1'' None, Deregister 3 None, RemoveOwned ''ctr-mr-scaleset-7-1'' None]
   \<and> inOrder [Kill ''ctr-mr-scaleset-7-1'' None, Deregister 3 None, RemoveOwned ''ctr-mr-scaleset-7-1'' None]"
proof -
  let ?c = "finishRunner (logged counterApi) (fst (snd demoRun)) (5, []) ''mr-scaleset-7-1'' 1 (-1) None True"
  have log: "snd (snd (snd ?c)) = [Kill ''ctr-mr-scaleset-7-1'' None, Deregister 3 None, RemoveOwned ''ctr-mr-scaleset-7-1'' None]"
    by code_simp
  have "1 < length (la_heap (fst (snd demoRun)))" "\<not> rs_cleaned (la_heap (fst (snd demoRun)) ! 1)" by code_simp+
  with cleanup_call_order[of counterApi "fst (snd demoRun)" 5 "''mr-scaleset-7-1''" 1 "-1" None True
      "fst ?c" "fst (snd ?c)" "fst (snd (snd ?c))" "snd (snd (snd ?c))"] log show ?thesis by simp
qed

section \<open>Reconciliation after a restart\<close>

text \<open>What the calls for one orphan look like.\<close>

definition orphanCalls :: "owned_runner \<Rightarrow> call list \<Rightarrow> bool" where
  "orphanCalls o1 cs =
     ((\<exists>d. or_RunnerID o1 \<noteq> 0 \<and> cs = [Deregister (or_RunnerID o1) d] \<and> \<not> callOk (Deregister (or_RunnerID o1) d))
      \<or> (\<exists>d x. or_RunnerID o1 \<noteq> 0 \<and> cs = [Deregister (or_RunnerID o1) d, RemoveOwned (or_ResourceID o1) x]
            \<and> callOk (Deregister (or_RunnerID o1) d))
      \<or> (\<exists>x. or_RunnerID o1 = 0 \<and> cs = [RemoveOwned (or_ResourceID o1) x]))"

fun isRemoved :: "call \<Rightarrow> bool" where
  "isRemoved (RemoveOwned h x) = (x = None)"
| "isRemoved _ = False"

lemma orphanCalls_failed:
  "or_RunnerID o1 \<noteq> 0 \<Longrightarrow> \<not> callOk (Deregister (or_RunnerID o1) d)
   \<Longrightarrow> orphanCalls o1 [Deregister (or_RunnerID o1) d]"
  by (auto simp: orphanCalls_def)

lemma reconcileOwned_step:
  assumes "or_ResourceID o1 \<notin> set active"
    and "reconcileOwned (logged api) (logStore st) active (o1 # os) (w, log) = (n, es, w', log')"
  shows "\<exists>cs w1 m es1. orphanCalls o1 cs
    \<and> reconcileOwned (logged api) (logStore st) active os (w1, log @ cs) = (m, es1, w', log')
    \<and> n = m + countOf isRemoved cs"
proof -
  obtain e1 w1 log1 where rm: "removeRunner (logged api) (w, log) (or_RunnerID o1) = (e1, w1, log1)"
    by (metis prod_cases3)
  obtain x w2 where st: "os_remove st w1 (or_ResourceID o1) = (x, w2)" by fastforce
  have st': "os_remove (logStore st) (w1, log1) (or_ResourceID o1) = (x, w2, log1 @ [RemoveOwned (or_ResourceID o1) x])"
    using st by (simp add: logStore_def)
  let ?D = "\<lambda>d. Deregister (or_RunnerID o1) d" and ?R = "RemoveOwned (or_ResourceID o1) x"
  from removeRunner_logged[OF rm] show ?thesis
  proof (elim disjE conjE exE)
    assume a: "or_RunnerID o1 = 0" "e1 = None" "log1 = log"
    have "orphanCalls o1 [?R]" using a by (simp add: orphanCalls_def)
    moreover have "\<exists>m es1. reconcileOwned (logged api) (logStore st) active os (w2, log @ [?R]) = (m, es1, w', log')
        \<and> n = m + countOf isRemoved [?R]"
      using assms rm st' a by (auto split: option.splits prod.splits)
    ultimately show ?thesis by blast
  next
    fix d assume a: "or_RunnerID o1 \<noteq> 0" "log1 = log @ [?D d]" "(e1 = None) = callOk (?D d)"
    show ?thesis
    proof (cases e1)
      case (Some y)
      then have "orphanCalls o1 [?D d]" using a by (intro orphanCalls_failed) auto
      moreover have "\<exists>m es1. reconcileOwned (logged api) (logStore st) active os (w1, log @ [?D d]) = (m, es1, w', log')
          \<and> n = m + countOf isRemoved [?D d]"
        using assms rm a Some by (auto split: prod.splits)
      ultimately show ?thesis by blast
    next
      case None
      then have "orphanCalls o1 [?D d, ?R]" using a by (simp add: orphanCalls_def)
      moreover have "\<exists>m es1. reconcileOwned (logged api) (logStore st) active os (w2, log @ [?D d, ?R]) = (m, es1, w', log')
          \<and> n = m + countOf isRemoved [?D d, ?R]"
        using assms rm st' a None by (auto split: option.splits prod.splits)
      ultimately show ?thesis by blast
    qed
  qed
qed

lemma reconcileOwned_logged:
  "reconcileOwned (logged api) (logStore st) active os (w, log) = (n, es, w', log')
   \<Longrightarrow> \<exists>css. log' = log @ concat css \<and> n = countOf isRemoved (concat css)
     \<and> list_all2 orphanCalls (filter (\<lambda>o1. or_ResourceID o1 \<notin> set active) os) css"
proof (induction os arbitrary: w log n es)
  case (Cons o1 os)
  show ?case
  proof (cases "or_ResourceID o1 \<in> set active")
    case True
    then show ?thesis using Cons.IH[of w log n es] Cons.prems by simp
  next
    case False
    obtain cs w1 m es1 where 1: "orphanCalls o1 cs"
      "reconcileOwned (logged api) (logStore st) active os (w1, log @ cs) = (m, es1, w', log')"
      "n = m + countOf isRemoved cs"
      using reconcileOwned_step[OF False Cons.prems] by blast
    from Cons.IH[OF 1(2)] obtain css where "log' = (log @ cs) @ concat css" "m = countOf isRemoved (concat css)"
      "list_all2 orphanCalls (filter (\<lambda>o1. or_ResourceID o1 \<notin> set active) os) css" by blast
    then show ?thesis using 1 False by (intro exI[of _ "cs # css"]) simp
  qed
qed simp

text \<open>C32: Reconciliation. The calls it makes are, for each listed runner the launcher does not track
  and for no other, the removal of its registration and, only if that succeeded, of its
  backend record; the count it reports is the number of records removed.\<close>

theorem reconcile_only_orphans:
  assumes "ap_store api = Some st" and "os_list st w (op_Ownership (la_opts l)) = (Inr owned, w1)"
    and "reconcile (logged api) l (w, []) = ((n, e), w', log)"
  shows "\<exists>css. log = concat css \<and> n = countOf isRemoved log
    \<and> list_all2 orphanCalls (filter (\<lambda>o1. or_ResourceID o1 \<notin> set (activeResources l)) owned) css"
proof -
  obtain es where "reconcileOwned (logged api) (logStore st) (activeResources l) owned (w1, []) = (n, es, w', log)"
    using assms by (auto simp: reconcile_def logStore_def split: prod.splits)
  from reconcileOwned_logged[OF this] show ?thesis by auto
qed

definition orphanApi :: "nat api" where
  "orphanApi = counterApi\<lparr>ap_store := Some
     \<lparr>os_list = (\<lambda>w ow. (Inr [\<lparr>or_ResourceID = ''ctr-mr-scaleset-7-0'', or_Name = ''a'', or_RunnerID = 1\<rparr>,
                              \<lparr>or_ResourceID = ''old'', or_Name = ''b'', or_RunnerID = 9\<rparr>], w)),
      os_remove = (\<lambda>w h. (None, w))\<rparr>\<rparr>"

theorem reconcile_only_orphans_witness:
  "\<exists>css. [Deregister 9 None, RemoveOwned ''old'' None] = concat css \<and> length css = 1"
proof -
  let ?l = "fst (snd demoRun)" and ?r = "reconcile (logged orphanApi) (fst (snd demoRun)) (0, [])"
  let ?st = "the (ap_store orphanApi)"
  have log: "snd (snd ?r) = [Deregister 9 None, RemoveOwned ''old'' None]" by code_simp
  have owned: "map or_ResourceID (filter (\<lambda>o1. or_ResourceID o1 \<notin> set (activeResources ?l))
      (projr (fst (os_list ?st 0 (op_Ownership (la_opts ?l)))))) = [''old'']" by code_simp
  have st: "ap_store orphanApi = Some ?st" by (simp add: orphanApi_def)
  have li: "os_list ?st 0 (op_Ownership (la_opts ?l)) = (Inr (projr (fst (os_list ?st 0 (op_Ownership (la_opts ?l))))), 0)"
    by (simp add: orphanApi_def)
  have eq: "?r = ((fst (fst ?r), snd (fst ?r)), fst (snd ?r), [Deregister 9 None, RemoveOwned ''old'' None])"
    by (simp flip: log)
  from reconcile_only_orphans[OF st li eq] obtain css where css: "[Deregister 9 None, RemoveOwned ''old'' None] = concat css"
    "list_all2 orphanCalls (filter (\<lambda>o1. or_ResourceID o1 \<notin> set (activeResources ?l))
      (projr (fst (os_list ?st 0 (op_Ownership (la_opts ?l)))))) css" by blast
  then have "length css = 1" using list_all2_lengthD[OF css(2)] arg_cong[OF owned, of length] by simp
  then show ?thesis using css(1) by blast
qed

end
