(* ===== verification/Scaleset_Session.thy ===== *)
theory Scaleset_Session
  imports Scaleset_Refinement "HOL-Library.Multiset"
begin

text \<open>
  One scale-set session (\<open>internal/scaleset/session.go\<close>, \<open>client.go\<close>, \<open>device.go\<close>): resolving
  the runner group, reusing, updating or creating the scale set, waiting out the conflict a
  restart leaves behind, and the session run as a whole around the launcher.

  The upstream scale-set client, the listener and the clock are the record \<open>ss_client\<close> over a
  world \<open>'w\<close>. \<open>openSession\<close> has no bound of its own: \<open>openLoop n\<close> is the loop with at most \<open>n\<close>
  attempts, \<open>None\<close> when it has not returned by then; under the clock law \<open>clockRuns\<close> twenty
  attempts are always enough.
\<close>

section \<open>Scale sets\<close>

record label =
  lb_Name :: string
  lb_Type :: string

record scale_set =
  st_ID :: int
  st_Name :: string
  st_RunnerGroupID :: int
  st_Labels :: "label list"
  st_DisableUpdate :: bool

record session_options =
  so_Name :: string
  so_RunnerGroup :: string
  so_Labels :: "string list"
  so_Target :: string
  so_Pool :: string
  so_Instance :: string
  so_Launch :: options


record 'w ss_client =
  cl_DefaultRunnerGroup :: string
  cl_GetRunnerGroupByName :: "'w \<Rightarrow> string \<Rightarrow> (gerr + int) \<times> 'w"
  cl_GetRunnerScaleSet :: "'w \<Rightarrow> int \<Rightarrow> string \<Rightarrow> (gerr + scale_set option) \<times> 'w"
  cl_CreateRunnerScaleSet :: "'w \<Rightarrow> scale_set \<Rightarrow> (gerr + scale_set) \<times> 'w"
  cl_UpdateRunnerScaleSet :: "'w \<Rightarrow> int \<Rightarrow> scale_set \<Rightarrow> (gerr + scale_set) \<times> 'w"
  cl_MessageSessionClient :: "'w \<Rightarrow> int \<Rightarrow> string \<Rightarrow> (gerr + string) \<times> 'w"
  cl_Close :: "'w \<Rightarrow> string \<Rightarrow> 'w"
  cl_newListener :: "'w \<Rightarrow> int \<Rightarrow> int \<Rightarrow> gerr option \<times> 'w"
  cl_listen :: "launcher \<times> 'w \<Rightarrow> gerr option \<times> launcher \<times> 'w"
  cl_ctxErr :: "'w \<Rightarrow> bool"
  cl_now :: "'w \<Rightarrow> int"
  cl_wait :: "'w \<Rightarrow> int \<Rightarrow> gerr option \<times> 'w"

definition runnerGroupID :: "'w ss_client \<Rightarrow> 'w \<Rightarrow> string \<Rightarrow> (gerr + int) \<times> 'w" where
  "runnerGroupID cl w name =
     (if name = '''' \<or> name = cl_DefaultRunnerGroup cl then (Inr 1, w)
      else case cl_GetRunnerGroupByName cl w name of
             (Inl e, w1) \<Rightarrow> (Inl (errorf (''resolve runner group '' @ goQuote name @ '': '') e), w1)
           | (Inr gid, w1) \<Rightarrow> (Inr gid, w1))"

definition desiredScaleSet :: "session_options \<Rightarrow> int \<Rightarrow> scale_set" where
  "desiredScaleSet opts groupID =
     (let labels = map (\<lambda>name. \<lparr>lb_Name = name, lb_Type = ''System''\<rparr>) (so_Labels opts)
      in \<lparr>st_ID = 0, st_Name = so_Name opts, st_RunnerGroupID = groupID,
          st_Labels = (if labels = [] then [\<lparr>lb_Name = so_Name opts, lb_Type = ''System''\<rparr>] else labels),
          st_DisableUpdate = True\<rparr>)"

text \<open>The counting map of \<open>scaleSetMatches\<close>, as an association list.\<close>

definition bump :: "int \<Rightarrow> (string \<times> int) list \<Rightarrow> string \<Rightarrow> (string \<times> int) list" where
  "bump d m name = AList.update name (d + (case map_of m name of None \<Rightarrow> 0 | Some c \<Rightarrow> c)) m"

definition labelCounts :: "label list \<Rightarrow> label list \<Rightarrow> (string \<times> int) list" where
  "labelCounts existing desired =
     foldl (bump (-1)) (foldl (bump 1) [] (map lb_Name existing)) (map lb_Name desired)"

definition scaleSetMatches :: "scale_set \<Rightarrow> scale_set \<Rightarrow> bool" where
  "scaleSetMatches existing desired =
     (if st_Name existing \<noteq> st_Name desired \<or> st_RunnerGroupID existing \<noteq> st_RunnerGroupID desired
         \<or> st_DisableUpdate existing \<noteq> st_DisableUpdate desired
         \<or> length (st_Labels existing) \<noteq> length (st_Labels desired)
      then False
      else list_all (\<lambda>(n, c). c = 0) (labelCounts (st_Labels existing) (st_Labels desired)))"

definition ensureScaleSet ::
  "'w ss_client \<Rightarrow> 'w \<Rightarrow> session_options \<Rightarrow> int \<Rightarrow> (gerr + scale_set) \<times> 'w" where
  "ensureScaleSet cl w opts groupID =
     (let q = goQuote (so_Name opts); desired = desiredScaleSet opts groupID
      in case cl_GetRunnerScaleSet cl w groupID (so_Name opts) of
           (Inl e, w1) \<Rightarrow> (Inl (errorf (''lookup scale set '' @ q @ '': '') e), w1)
         | (Inr (Some existing), w1) \<Rightarrow>
             (if scaleSetMatches existing desired then (Inr existing, w1)
              else case cl_UpdateRunnerScaleSet cl w1 (st_ID existing) desired of
                     (Inl e, w2) \<Rightarrow> (Inl (errorf (''update scale set '' @ q @ '': '') e), w2)
                   | (Inr updated, w2) \<Rightarrow> (Inr updated, w2))
         | (Inr None, w1) \<Rightarrow>
             (case cl_CreateRunnerScaleSet cl w1 desired of
                (Inl e, w2) \<Rightarrow> (Inl (errorf (''create scale set '' @ q @ '': '') e), w2)
              | (Inr created, w2) \<Rightarrow> (Inr created, w2)))"

section \<open>Opening the message session\<close>

definition sessionConflictWait :: int where
  "sessionConflictWait = 180 * second"

definition sessionRetryInterval :: int where
  "sessionRetryInterval = 10 * second"

definition isSessionConflict :: "gerr \<Rightarrow> bool" where
  "isSessionConflict e =
     (contains (errMsg e) ''409 Conflict'' \<and> contains (errMsg e) ''RunnerScaleSetSessionConflictException'')"

definition conflictError :: "string \<Rightarrow> gerr \<Rightarrow> gerr" where
  "conflictError name e =
     errorf (''scale set '' @ goQuote name @ '' still has an active session after 3m0s; ''
       @ ''another multirunner process is running against it, or a previous one has not been released yet: '') e"

fun openLoop ::
  "nat \<Rightarrow> 'w ss_client \<Rightarrow> int \<Rightarrow> int \<Rightarrow> string \<Rightarrow> string \<Rightarrow> 'w \<Rightarrow> ((gerr + string) \<times> 'w) option" where
  "openLoop 0 cl deadline setID owner name w = None"
| "openLoop (Suc n) cl deadline setID owner name w =
     (case cl_MessageSessionClient cl w setID owner of
        (Inr session, w1) \<Rightarrow> Some (Inr session, w1)
      | (Inl e, w1) \<Rightarrow>
          (if \<not> isSessionConflict e
           then Some (Inl (errorf (''open message session for '' @ goQuote name @ '': '') e), w1)
           else if cl_now cl w1 > deadline then Some (Inl (conflictError name e), w1)
           else case cl_wait cl w1 sessionRetryInterval of
                  (Some ctxErr, w2) \<Rightarrow> Some (Inl ctxErr, w2)
                | (None, w2) \<Rightarrow> openLoop n cl deadline setID owner name w2))"

definition openSession ::
  "nat \<Rightarrow> 'w ss_client \<Rightarrow> int \<Rightarrow> string \<Rightarrow> string \<Rightarrow> 'w \<Rightarrow> ((gerr + string) \<times> 'w) option" where
  "openSession n cl setID owner name w =
     openLoop n cl (cl_now cl w + sessionConflictWait) setID owner name w"

section \<open>The session as a whole\<close>

text \<open>
  \<open>Run\<close> up to the supervised loop: the launcher it builds, or the error it returns. \<open>hostname\<close> is
  what \<open>os.Hostname\<close> answers (\<open>None\<close> for an error).
\<close>

record 'w session_env =
  sn_client :: "'w ss_client"
  sn_api :: "'w api"
  sn_EnsureImage :: "'w \<Rightarrow> string \<Rightarrow> gerr option \<times> 'w"
  sn_hostname :: "string option"

definition sessionInstance :: "session_options \<Rightarrow> string option \<Rightarrow> string" where
  "sessionInstance opts hostname =
     (if so_Instance opts \<noteq> '''' then so_Instance opts
      else case hostname of None \<Rightarrow> ''multirunner'' | Some h \<Rightarrow> if h = '''' then ''multirunner'' else h)"

definition sessionLaunchOptions :: "session_options \<Rightarrow> string option \<Rightarrow> int \<Rightarrow> options" where
  "sessionLaunchOptions opts hostname setID =
     (so_Launch opts)\<lparr>op_ScaleSetID := setID,
        op_Ownership := \<lparr>ow_Instance = sessionInstance opts hostname, ow_Target = so_Target opts,
          ow_Pool = (if so_Pool opts = '''' then so_Name opts else so_Pool opts),
          ow_ScaleSetID = setID, ow_RunnerID = 0\<rparr>\<rparr>"

definition sessionOwner :: "session_options \<Rightarrow> string option \<Rightarrow> string" where
  "sessionOwner opts hostname = sessionInstance opts hostname @ ''-'' @ so_Name opts"

definition prepareSession ::
  "'w session_env \<Rightarrow> session_options \<Rightarrow> 'w \<Rightarrow> (gerr + int) \<times> 'w" where
  "prepareSession env opts w =
     (if ap_store (sn_api env) = None
      then (Inl (Permanent (Leaf (''backend '' @ goQuote (ap_backendName (sn_api env))
              @ '' does not support scale-set ownership reconciliation''))), w)
      else
        (case sn_EnsureImage env w (op_Image (so_Launch opts)) of
           (Some e, w1) \<Rightarrow> (Inl (errorf (''ensure image for '' @ goQuote (so_Name opts) @ '': '') e), w1)
         | (None, w1) \<Rightarrow>
             (case runnerGroupID (sn_client env) w1 (so_RunnerGroup opts) of
                (Inl e, w2) \<Rightarrow> (Inl (classifySessionError e), w2)
              | (Inr gid, w2) \<Rightarrow>
                  (case ensureScaleSet (sn_client env) w2 opts gid of
                     (Inl e, w3) \<Rightarrow> (Inl (classifySessionError e), w3)
                   | (Inr sset, w3) \<Rightarrow> (Inr (st_ID sset), w3)))))"

text \<open>
  \<open>listenerSession.run\<close>: whether it called \<open>available\<close>, and its error. The listener's own run
  (\<open>cl_listen\<close>) drives the launcher through its callbacks. The session is closed on every path
  after it was opened. \<open>openAttempts\<close> bounds the attempts to open it; \<open>openSession_returns\<close> below
  shows the bound is never reached.
\<close>

definition openAttempts :: nat where
  "openAttempts = 20"

definition stoppedError :: "string \<Rightarrow> gerr \<Rightarrow> gerr option" where
  "stoppedError name e =
     (if errIs ContextCanceled e then None
      else Some (classifySessionError (errorf (''listener for '' @ goQuote name @ '' stopped: '') e)))"

definition listenerRun ::
  "'w ss_client \<Rightarrow> session_options \<Rightarrow> int \<Rightarrow> string \<Rightarrow> launcher \<times> 'w
   \<Rightarrow> ((bool \<times> gerr option) \<times> launcher \<times> 'w) option" where
  "listenerRun cl opts setID owner p =
     (let (l, w) = p; q = goQuote (so_Name opts)
      in case openSession openAttempts cl setID owner (so_Name opts) w of
           None \<Rightarrow> None
         | Some (Inl e, w1) \<Rightarrow>
             Some ((False, Some (classifySessionError (errorf (''open message session for '' @ q @ '': '') e))), l, w1)
         | Some (Inr session, w1) \<Rightarrow>
             (case cl_newListener cl w1 setID (op_MaxRunners (so_Launch opts)) of
                (Some e, w2) \<Rightarrow>
                  Some ((False, Some (classifySessionError (errorf (''create listener for '' @ q @ '': '') e))),
                        l, cl_Close cl w2 session)
              | (None, w2) \<Rightarrow>
                  (let (err, l1, w3) = cl_listen cl (l, w2)
                   in Some ((True, Option.bind err (stoppedError (so_Name opts))), l1, cl_Close cl w3 session))))"

definition sessionSup ::
  "'w ss_client \<Rightarrow> session_options \<Rightarrow> int \<Rightarrow> string \<Rightarrow> (launcher \<times> 'w) sup_env" where
  "sessionSup cl opts setID owner =
     \<lparr>se_ctxErr = (\<lambda>(l, w). cl_ctxErr cl w), se_now = (\<lambda>(l, w). cl_now cl w),
      se_run = (\<lambda>p. case listenerRun cl opts setID owner p of Some r \<Rightarrow> r | None \<Rightarrow> ((False, None), p)),
      se_sleep = (\<lambda>(l, w) d. let (e, w1) = cl_wait cl w d in (e = None, l, w1))\<rparr>"

definition sessionStart ::
  "'w session_env \<Rightarrow> session_options \<Rightarrow> 'w \<Rightarrow> (gerr + launcher) \<times> 'w" where
  "sessionStart env opts w =
     (case prepareSession env opts w of
        (Inl e, w1) \<Rightarrow> (Inl e, w1)
      | (Inr setID, w1) \<Rightarrow>
          (let l = newLauncher (sessionLaunchOptions opts (sn_hostname env) setID);
               ((n, err), w2) = reconcile (sn_api env) l w1
           in case err of
                None \<Rightarrow> (Inr l, w2)
              | Some e \<Rightarrow>
                  (Inl (classifySessionError
                     (errorf (''reconcile scale set '' @ goQuote (so_Name opts) @ '': '') e)),
                   snd (snd (Shutdown (sn_api env) l w2)))))"

text \<open>The whole of \<open>Run\<close>, watched for \<open>n\<close> iterations of the supervised loop.\<close>

definition sessionRun ::
  "nat \<Rightarrow> 'w session_env \<Rightarrow> session_options \<Rightarrow> 'w
   \<Rightarrow> session_result \<times> sup_event list \<times> launcher option \<times> 'w" where
  "sessionRun n env opts w =
     (case sessionStart env opts w of
        (Inl e, w1) \<Rightarrow> (Stopped (Some e), [], None, w1)
      | (Inr l, w1) \<Rightarrow>
          (let setID = op_ScaleSetID (la_opts l);
               (r, evs, l1, w2) = superviseSession n
                 (sessionSup (sn_client env) opts setID (sessionOwner opts (sn_hostname env)))
                 defaultSupervisorConfig (so_Name opts) (l, w1)
           in case r of
                StillRunning f \<Rightarrow> (r, evs, Some l1, w2)
              | Stopped err \<Rightarrow>
                  (let (e2, l2, w3) = Shutdown (sn_api env) l1 w2 in (r, evs, Some l2, w3))))"

section \<open>Client selection\<close>

definition TargetURL :: "string \<Rightarrow> string \<Rightarrow> string \<Rightarrow> string \<Rightarrow> gerr + string" where
  "TargetURL baseURL scope owner repo =
     (let trimmed = trimSuffix baseURL ''/'';
          base = (if trimmed = '''' then ''https://github.com'' else trimmed)
      in if scope = ''repo'' then
           (if owner = '''' \<or> repo = '''' then Inl (Leaf ''scope=repo needs github.owner and github.repo'')
            else Inr (base @ ''/'' @ owner @ ''/'' @ repo))
         else if scope = ''org'' then
           (if owner = '''' then Inl (Leaf ''scope=org needs github.owner'') else Inr (base @ ''/'' @ owner))
         else if scope = ''enterprise'' then
           (if owner = '''' then Inl (Leaf ''scope=enterprise needs github.owner'')
            else Inr (base @ ''/enterprises/'' @ owner))
         else Inl (Leaf (''provisioning: scaleset supports scope repo|org|enterprise, got '' @ goQuote scope)))"

record client_options =
  co_TargetURL :: string
  co_PAT :: string
  co_AppID :: int
  co_InstallationID :: int
  co_PrivateKeyPath :: string
  co_ClientID :: string
  co_TokenPath :: string

datatype client_kind =
    DeviceClient string string
  | AppClient string string int string
  | PATClient string string

definition NewClient :: "(string \<Rightarrow> gerr + string) \<Rightarrow> client_options \<Rightarrow> gerr + client_kind" where
  "NewClient readFile opts =
     (if co_PAT opts = '''' \<and> co_AppID opts = 0 \<and> co_TokenPath opts = ''''
      then Inl (Leaf ''provisioning: scaleset needs auth.pat, GitHub App credentials, or a device-flow token_path'')
      else if co_PAT opts = '''' \<and> co_AppID opts = 0
      then Inr (DeviceClient (co_ClientID opts) (co_TokenPath opts))
      else if co_PAT opts = '''' then
        (if co_PrivateKeyPath opts = ''''
         then Inl (Leaf ''provisioning: scaleset with a GitHub App needs auth.private_key_path'')
         else case readFile (co_PrivateKeyPath opts) of
                Inl e \<Rightarrow> Inl (errorf ''read GitHub App private key: '' e)
              | Inr pem \<Rightarrow> Inr (AppClient (co_TargetURL opts) (formatInt (co_AppID opts)) (co_InstallationID opts) pem))
      else Inr (PATClient (co_TargetURL opts) (co_PAT opts)))"

text \<open>
  The request hook of the device client: only a request that still carries the pinned token
  gets a fresh one; a failed refresh leaves the header as it is.
\<close>

definition deviceRequestHook :: "string \<Rightarrow> (unit \<Rightarrow> gerr + string) \<Rightarrow> string \<Rightarrow> string" where
  "deviceRequestHook sentinel accessToken authorization =
     (if authorization \<noteq> sentinel then authorization
      else case accessToken () of Inl e \<Rightarrow> authorization | Inr access \<Rightarrow> ''Bearer '' @ access)"

section \<open>Reusing a scale set\<close>

lemma map_of_bump:
  "(case map_of (bump d m a) n of None \<Rightarrow> 0 | Some c \<Rightarrow> c)
   = (case map_of m n of None \<Rightarrow> 0 | Some c \<Rightarrow> c) + (if n = a then d else 0)"
  by (simp add: bump_def)

lemma map_of_bumps:
  "(case map_of (foldl (bump d) m xs) n of None \<Rightarrow> 0 | Some c \<Rightarrow> c)
   = (case map_of m n of None \<Rightarrow> 0 | Some c \<Rightarrow> c) + d * int (count (mset xs) n)"
proof (induction xs arbitrary: m)
  case (Cons x xs)
  then show ?case using map_of_bump[of d m x n] by (auto simp: algebra_simps)
qed simp

lemma dom_bumps: "fst ` set (foldl (bump d) m xs) = fst ` set m \<union> set xs"
  by (induction xs arbitrary: m) (auto simp: bump_def dom_update simp flip: dom_map_of_conv_image_fst)

lemma distinct_bumps: "distinct (map fst m) \<Longrightarrow> distinct (map fst (foldl (bump d) m xs))"
  by (induction xs arbitrary: m) (auto simp: bump_def)

text \<open>The counting loop of \<open>scaleSetMatches\<close> is equality of multisets of names.\<close>

lemma labelCounts_zero:
  "list_all (\<lambda>(n, c). c = 0) (labelCounts a b) \<longleftrightarrow> mset (map lb_Name a) = mset (map lb_Name b)"
proof -
  let ?m = "labelCounts a b"
  have d: "distinct (map fst ?m)" unfolding labelCounts_def by (intro distinct_bumps) simp
  have val: "(case map_of ?m n of None \<Rightarrow> 0 | Some c \<Rightarrow> c)
      = int (count (mset (map lb_Name a)) n) - int (count (mset (map lb_Name b)) n)" for n
    unfolding labelCounts_def by (simp add: map_of_bumps)
  have "list_all (\<lambda>(n, c). c = 0) ?m \<longleftrightarrow> (\<forall>n c. map_of ?m n = Some c \<longrightarrow> c = 0)"
    using d by (auto simp: list_all_iff)
  also have "\<dots> \<longleftrightarrow> (\<forall>n. (case map_of ?m n of None \<Rightarrow> 0 | Some c \<Rightarrow> c) = 0)"
    by (auto split: option.splits)
  also have "\<dots> \<longleftrightarrow> mset (map lb_Name a) = mset (map lb_Name b)"
    by (auto simp: val multiset_eq_iff)
  finally show ?thesis .
qed

text \<open>An existing scale set is taken as matching exactly when name, group, update setting and the
  labels agree, the labels as a multiset of names: order and type do not matter.\<close>

theorem scaleSetMatches_iff:
  "scaleSetMatches existing desired \<longleftrightarrow>
     st_Name existing = st_Name desired \<and> st_RunnerGroupID existing = st_RunnerGroupID desired
     \<and> st_DisableUpdate existing = st_DisableUpdate desired
     \<and> mset (map lb_Name (st_Labels existing)) = mset (map lb_Name (st_Labels desired))"
proof -
  have len: "mset (map lb_Name (st_Labels existing)) = mset (map lb_Name (st_Labels desired))
      \<Longrightarrow> length (st_Labels existing) = length (st_Labels desired)"
    by (metis length_map size_mset)
  show ?thesis unfolding scaleSetMatches_def labelCounts_zero if_bool_eq_conj using len by blast
qed

section \<open>Opening terminates\<close>

text \<open>The clock never runs backwards, and a wait that is not cut short lasts its duration.\<close>

definition clockRuns :: "'w ss_client \<Rightarrow> bool" where
  "clockRuns cl =
     ((\<forall>w i ow. cl_now cl w \<le> cl_now cl (snd (cl_MessageSessionClient cl w i ow)))
      \<and> (\<forall>w d w'. cl_wait cl w d = (None, w') \<longrightarrow> cl_now cl w + d \<le> cl_now cl w'))"

text \<open>How \<open>openSession\<close> may end.\<close>

definition openOutcome :: "'w ss_client \<Rightarrow> int \<Rightarrow> string \<Rightarrow> gerr + string \<Rightarrow> 'w \<Rightarrow> bool" where
  "openOutcome cl deadline name r w' =
     (case r of
        Inr session \<Rightarrow> True
      | Inl x \<Rightarrow>
          (\<exists>e. x = errorf (''open message session for '' @ goQuote name @ '': '') e \<and> \<not> isSessionConflict e)
          \<or> (\<exists>e. x = conflictError name e \<and> isSessionConflict e \<and> cl_now cl w' > deadline)
          \<or> (\<exists>w. cl_wait cl w sessionRetryInterval = (Some x, w')))"

lemma openLoop_returns:
  assumes clock: "clockRuns cl"
  shows "deadline < cl_now cl w + int n * sessionRetryInterval
    \<Longrightarrow> \<exists>r w'. openLoop (Suc n) cl deadline setID owner name w = Some (r, w') \<and> openOutcome cl deadline name r w'"
proof (induction n arbitrary: w)
  case 0
  obtain r w1 where c: "cl_MessageSessionClient cl w setID owner = (r, w1)" by fastforce
  have "cl_now cl w \<le> cl_now cl w1" using clock c unfolding clockRuns_def by (metis snd_conv)
  then show ?case using 0 c by (cases r) (auto simp: openOutcome_def)
next
  case (Suc n)
  obtain r w1 where c: "cl_MessageSessionClient cl w setID owner = (r, w1)" by fastforce
  have m: "cl_now cl w \<le> cl_now cl w1" using clock c unfolding clockRuns_def by (metis snd_conv)
  obtain x w2 where s: "cl_wait cl w1 sessionRetryInterval = (x, w2)" by fastforce
  show ?case
  proof (cases "\<exists>e. r = Inl e \<and> isSessionConflict e \<and> \<not> cl_now cl w1 > deadline \<and> x = None")
    case True
    then have "cl_now cl w1 + sessionRetryInterval \<le> cl_now cl w2"
      using clock s unfolding clockRuns_def by blast
    then have "deadline < cl_now cl w2 + int n * sessionRetryInterval"
      using Suc.prems m by (simp add: algebra_simps)
    from Suc.IH[OF this] show ?thesis using c s True by auto
  next
    case False
    then show ?thesis using c s by (cases r; cases x) (auto simp: openOutcome_def)
  qed
qed

text \<open>Opening a session always returns, after at most twenty attempts: with a session, at once with
  an error that is not a conflict, with the context's error, or with the conflict, and then
  only after the full three minutes.\<close>

theorem openSession_returns:
  assumes "clockRuns cl"
  shows "\<exists>r w'. openSession openAttempts cl setID owner name w = Some (r, w')
    \<and> openOutcome cl (cl_now cl w + sessionConflictWait) name r w'"
  using openLoop_returns[OF assms, of "cl_now cl w + sessionConflictWait" w 19]
  by (simp add: openSession_def openAttempts_def sessionConflictWait_def sessionRetryInterval_def second_def
      del: openLoop.simps)

text \<open>A server that always answers with the conflict.\<close>

definition conflictClient :: "nat ss_client" where
  "conflictClient =
     \<lparr>cl_DefaultRunnerGroup = ''default'',
      cl_GetRunnerGroupByName = (\<lambda>w n. (Inr 1, w)), cl_GetRunnerScaleSet = (\<lambda>w g n. (Inr None, w)),
      cl_CreateRunnerScaleSet = (\<lambda>w s. (Inr (s\<lparr>st_ID := 5\<rparr>), w)),
      cl_UpdateRunnerScaleSet = (\<lambda>w i s. (Inr s, w)),
      cl_MessageSessionClient = (\<lambda>w i ow. (Inl (Leaf ''409 Conflict: RunnerScaleSetSessionConflictException''), w)),
      cl_Close = (\<lambda>w s. w), cl_newListener = (\<lambda>w i m. (None, w)), cl_listen = (\<lambda>(l, w). (None, l, w)),
      cl_ctxErr = (\<lambda>w. False), cl_now = (\<lambda>w. int w), cl_wait = (\<lambda>w d. (None, w + nat d))\<rparr>"

theorem openSession_returns_witness:
  "\<exists>r w'. openSession openAttempts conflictClient 5 ''host'' ''linux'' 0 = Some (r, w')
     \<and> openOutcome conflictClient sessionConflictWait ''linux'' r w'"
proof -
  have "clockRuns conflictClient" by (simp add: clockRuns_def conflictClient_def)
  from openSession_returns[OF this, of 5 "''host''" "''linux''" 0]
  show ?thesis by (simp add: conflictClient_def)
qed

section \<open>The session's errors\<close>

text \<open>Once its launcher runs, a session gives up only on a permanent error: an error \<open>Run\<close> returns
  is one of its set-up or permanent, and the launcher has been shut down.\<close>

theorem sessionRun_error:
  assumes "sessionRun n env opts w = (Stopped (Some e), evs, Some l, w')"
  shows "isPermanentSessionError (Some e)
    \<and> (\<exists>l1 w1 e2. Shutdown (sn_api env) l1 w1 = (e2, l, w'))"
proof -
  obtain l0 w1 where s: "sessionStart env opts w = (Inr l0, w1)"
    using assms by (auto simp: sessionRun_def split: prod.splits sum.splits)
  obtain r evs1 l1 w2 where sup: "superviseSession n (sessionSup (sn_client env) opts (op_ScaleSetID (la_opts l0))
      (sessionOwner opts (sn_hostname env))) defaultSupervisorConfig (so_Name opts) (l0, w1) = (r, evs1, l1, w2)"
    by (metis prod_cases4)
  have r: "r = Stopped (Some e)" and sd: "\<exists>e2. Shutdown (sn_api env) l1 w2 = (e2, l, w')"
    using assms s sup by (auto simp: sessionRun_def Let_def split: session_result.splits prod.splits)
  have "isPermanentSessionError (Some e)"
    by (rule conjunct1[OF superviseSession_error_permanent[OF sup[unfolded r]]])
  with sd show ?thesis by blast
qed

text \<open>A server that rejects the session with status 400.\<close>

definition rejectedEnv :: "nat session_env" where
  "rejectedEnv =
     \<lparr>sn_client = conflictClient\<lparr>cl_MessageSessionClient := (\<lambda>w i ow. (Inl (Leaf ''status code: 400''), w))\<rparr>,
      sn_api = counterApi, sn_EnsureImage = (\<lambda>w i. (None, w)), sn_hostname = Some ''host''\<rparr>"

definition demoSessionOptions :: session_options where
  "demoSessionOptions =
     \<lparr>so_Name = ''linux'', so_RunnerGroup = '''', so_Labels = [''linux''], so_Target = ''https://github.com/o'',
      so_Pool = ''p'', so_Instance = '''', so_Launch = demoOptions\<rparr>"

theorem sessionRun_error_witness:
  "\<exists>e. fst (sessionRun 1 rejectedEnv demoSessionOptions 0) = Stopped (Some e) \<and> isPermanentSessionError (Some e)"
proof -
  let ?r = "sessionRun 1 rejectedEnv demoSessionOptions 0"
  have "(case fst ?r of Stopped (Some e) \<Rightarrow> True | _ \<Rightarrow> False)" by code_simp
  then obtain e where e: "fst ?r = Stopped (Some e)" by (auto split: session_result.splits option.splits)
  have "fst (snd (snd ?r)) \<noteq> None" by code_simp
  then obtain l where "fst (snd (snd ?r)) = Some l" by auto
  with e have "?r = (Stopped (Some e), fst (snd ?r), Some l, snd (snd (snd ?r)))" by (metis prod.collapse)
  from sessionRun_error[OF this] e show ?thesis by blast
qed

end
