(* ===== verification/Runner_Lifecycle.thy ===== *)
theory Runner_Lifecycle
  imports Backend Github
begin

text \<open>
  The life of one ephemeral runner (\<open>internal/runner/instance.go\<close>): register, launch, wait, and
  the cleanup that follows on every path. The GitHub client and the backend are the record
  \<open>runner_env\<close>; \<open>githubRunner\<close> fills its GitHub half with the modelled client. Shown: a
  registration is deleted only on proof that the runner stopped, and it is kept only when that
  proof is missing. Log streaming has no effect on the outcome and is not modelled.
\<close>

section \<open>Running a runner once\<close>

record spec =
  sp_Name :: string
  sp_Image :: string
  sp_RunnerGroupID :: int
  sp_Labels :: "string list"
  sp_WorkFolder :: string
  sp_Env :: "(string \<times> string) list"
  sp_Mounts :: "mount list"
  sp_Container :: container_settings
  sp_Index :: int

text \<open>\<open>re_ctxErr\<close> is \<open>ctx.Err()\<close>; \<open>re_kill\<close> and the GitHub calls of the cleanup run on a detached context.\<close>

record 'w runner_env =
  re_jit :: "'w \<Rightarrow> jit_request \<Rightarrow> (gerr + jit_reply) \<times> 'w"
  re_launch :: "'w \<Rightarrow> launch_request \<Rightarrow> launch_result \<times> 'w"
  re_wait :: "'w \<Rightarrow> string \<Rightarrow> (int \<times> gerr option) \<times> 'w"
  re_kill :: "'w \<Rightarrow> string \<Rightarrow> gerr option \<times> 'w"
  re_busy :: "'w \<Rightarrow> int \<Rightarrow> (gerr + bool) \<times> 'w"
  re_delete :: "'w \<Rightarrow> int \<Rightarrow> gerr option \<times> 'w"
  re_ctxErr :: "'w \<Rightarrow> gerr option"

text \<open>\<open>deregister\<close> only logs its outcome.\<close>

definition deregister :: "'w runner_env \<Rightarrow> int \<Rightarrow> 'w \<Rightarrow> 'w" where
  "deregister env rid w = (if rid = 0 then w else snd (re_delete env w rid))"

definition reclaimAfterFailedKill :: "'w runner_env \<Rightarrow> int \<Rightarrow> 'w \<Rightarrow> 'w" where
  "reclaimAfterFailedKill env rid w =
     (if rid = 0 then w
      else case re_busy env w rid of
             (Inl e, w1) \<Rightarrow> w1
           | (Inr True, w1) \<Rightarrow> w1
           | (Inr False, w1) \<Rightarrow> deregister env rid w1)"

text \<open>The cleanup the three failure paths share: kill, then reclaim the registration.\<close>

definition cleanupAfter ::
  "'w runner_env \<Rightarrow> string \<Rightarrow> int \<Rightarrow> int \<Rightarrow> gerr \<Rightarrow> 'w \<Rightarrow> (int \<times> gerr option) \<times> 'w" where
  "cleanupAfter env h rid code err w =
     (case re_kill env w h of
        (Some ke, w1) \<Rightarrow>
          ((code, Some (Join [err, errorf ''kill runner: '' ke])), reclaimAfterFailedKill env rid w1)
      | (None, w1) \<Rightarrow> ((code, Some err), deregister env rid w1))"

definition specRequest :: "spec \<Rightarrow> string \<Rightarrow> launch_request" where
  "specRequest s encoded =
     \<lparr>lr_Name = sp_Name s, lr_Image = sp_Image s, lr_EncodedJITConfig = encoded,
      lr_WorkFolder = sp_WorkFolder s, lr_Labels = sp_Labels s, lr_Env = sp_Env s,
      lr_Mounts = sp_Mounts s, lr_Container = sp_Container s, lr_Index = sp_Index s,
      lr_Ownership = zeroOwnership\<rparr>"

definition specJit :: "spec \<Rightarrow> jit_request" where
  "specJit s =
     \<lparr>jr_Name = sp_Name s, jr_RunnerGroupID = sp_RunnerGroupID s, jr_Labels = sp_Labels s,
      jr_WorkFolder = sp_WorkFolder s\<rparr>"

definition afterWait ::
  "'w runner_env \<Rightarrow> string \<Rightarrow> int \<Rightarrow> int \<Rightarrow> gerr option \<Rightarrow> 'w \<Rightarrow> (int \<times> gerr option) \<times> 'w" where
  "afterWait env h rid code waitErr w =
     (case re_ctxErr env w of
        Some ce \<Rightarrow> cleanupAfter env h rid code ce w
      | None \<Rightarrow>
          (case waitErr of
             Some we \<Rightarrow> cleanupAfter env h rid code (errorf ''wait: '' we) w
           | None \<Rightarrow> ((code, None), deregister env rid w)))"

definition RunOnce :: "'w runner_env \<Rightarrow> spec \<Rightarrow> 'w \<Rightarrow> (int \<times> gerr option) \<times> 'w" where
  "RunOnce env s w =
     (case re_jit env w (specJit s) of
        (Inl e, w1) \<Rightarrow> ((-1, Some (errorf ''jit config: '' e)), w1)
      | (Inr jit, w1) \<Rightarrow>
          (let rid = jy_RunnerID jit
           in case re_launch env w1 (specRequest s (jy_EncodedJITConfig jit)) of
                (LaunchFailed e None, w2) \<Rightarrow> ((-1, Some (errorf ''launch: '' e)), deregister env rid w2)
              | (LaunchFailed e (Some h), w2) \<Rightarrow> cleanupAfter env h rid (-1) (errorf ''launch: '' e) w2
              | (Launched h, w2) \<Rightarrow>
                  (let ((code, waitErr), w3) = re_wait env w2 h in afterWait env h rid code waitErr w3)))"

definition short :: "string \<Rightarrow> string" where
  "short i = (if length i > 12 then take 12 i else i)"

text \<open>The GitHub half of the environment, on the modelled client.\<close>

definition githubRunner :: "'w gh \<Rightarrow> client \<Rightarrow> 'w runner_env \<Rightarrow> 'w runner_env" where
  "githubRunner g c be =
     be\<lparr>re_jit := GenerateJITConfig g c, re_busy := RunnerBusy g c, re_delete := DeleteRunner g c\<rparr>"

section \<open>The calls of one run\<close>

datatype rcall =
    RLaunch launch_result
  | RWait int "gerr option"
  | RKill string "gerr option"
  | RBusy int "gerr + bool"
  | RDelete int "gerr option"

definition logRunner :: "'w runner_env \<Rightarrow> ('w \<times> rcall list) runner_env" where
  "logRunner env =
     \<lparr>re_jit = (\<lambda>(w, log) q. let (r, w1) = re_jit env w q in (r, w1, log)),
      re_launch = (\<lambda>(w, log) q. let (r, w1) = re_launch env w q in (r, w1, log @ [RLaunch r])),
      re_wait = (\<lambda>(w, log) h. let ((c, e), w1) = re_wait env w h in ((c, e), w1, log @ [RWait c e])),
      re_kill = (\<lambda>(w, log) h. let (e, w1) = re_kill env w h in (e, w1, log @ [RKill h e])),
      re_busy = (\<lambda>(w, log) i. let (r, w1) = re_busy env w i in (r, w1, log @ [RBusy i r])),
      re_delete = (\<lambda>(w, log) i. let (e, w1) = re_delete env w i in (e, w1, log @ [RDelete i e])),
      re_ctxErr = (\<lambda>(w, log). re_ctxErr env w)\<rparr>"

text \<open>What proves that a runner is not working on a job any more.\<close>

fun stopProof :: "rcall \<Rightarrow> bool" where
  "stopProof (RLaunch r) = (\<exists>e. r = LaunchFailed e None)"
| "stopProof (RWait c e) = (e = None)"
| "stopProof (RKill h e) = (e = None)"
| "stopProof (RBusy i r) = (r = Inr False)"
| "stopProof (RDelete i e) = False"

fun isDelete :: "rcall \<Rightarrow> bool" where
  "isDelete (RDelete i e) = True"
| "isDelete _ = False"

text \<open>
  The log of a finished run with runner \<open>rid\<close>: its last two calls are a stop proof and the
  deletion, or it has no deletion and ends with a failed kill and an answer other than idle.
\<close>

definition reclaimed :: "int \<Rightarrow> rcall list \<Rightarrow> bool" where
  "reclaimed rid log =
     (\<exists>pre p e. log = pre @ [p, RDelete rid e] \<and> stopProof p \<and> (\<forall>c \<in> set pre. \<not> isDelete c))"

definition keptUnproved :: "int \<Rightarrow> rcall list \<Rightarrow> bool" where
  "keptUnproved rid log =
     (\<exists>pre h ke b. log = pre @ [RKill h (Some ke), RBusy rid b] \<and> b \<noteq> Inr False
        \<and> (\<forall>c \<in> set pre. \<not> isDelete c))"

lemma deregister_logged:
  "rid \<noteq> 0 \<Longrightarrow> \<exists>w1 e. deregister (logRunner env) rid (w, log) = (w1, log @ [RDelete rid e])"
  by (auto simp: deregister_def logRunner_def Let_def split: prod.splits)

lemma cleanupAfter_logged:
  assumes "cleanupAfter (logRunner env) h rid code err (w, pre) = (res, w', log)" and "rid \<noteq> 0"
    and "\<forall>c \<in> set pre. \<not> isDelete c"
  shows "reclaimed rid log \<or> keptUnproved rid log"
proof -
  obtain ke w1 where k: "re_kill env w h = (ke, w1)" by (metis surj_pair)
  show ?thesis
  proof (cases ke)
    case None
    then obtain w2 e where "deregister (logRunner env) rid (w1, pre @ [RKill h None]) = (w2, (pre @ [RKill h None]) @ [RDelete rid e])"
      using deregister_logged[OF assms(2)] by metis
    then have "log = pre @ [RKill h None, RDelete rid e]"
      using assms(1) k None by (auto simp: cleanupAfter_def logRunner_def)
    then show ?thesis using assms(3) by (auto simp: reclaimed_def)
  next
    case (Some x)
    let ?log1 = "pre @ [RKill h (Some x)]"
    obtain b w2 where b: "re_busy env w1 rid = (b, w2)" by (metis surj_pair)
    have r: "(w', log) = reclaimAfterFailedKill (logRunner env) rid (w1, ?log1)"
      using assms(1) k Some by (auto simp: cleanupAfter_def logRunner_def)
    show ?thesis
    proof (cases "b = Inr False")
      case True
      obtain w3 e where "deregister (logRunner env) rid (w2, ?log1 @ [RBusy rid b]) = (w3, (?log1 @ [RBusy rid b]) @ [RDelete rid e])"
        using deregister_logged[OF assms(2)] by metis
      then have "log = ?log1 @ [RBusy rid b, RDelete rid e]"
        using r b True assms(2) by (simp add: reclaimAfterFailedKill_def) (simp add: logRunner_def)
      then show ?thesis using assms(3) True
        by (auto simp: reclaimed_def intro!: exI[of _ ?log1] exI[of _ "RBusy rid b"])
    next
      case False
      then have "log = ?log1 @ [RBusy rid b]"
        using r b assms(2)
        by (auto simp: reclaimAfterFailedKill_def logRunner_def split: sum.splits bool.splits)
      then show ?thesis using assms(3) False by (auto simp: keptUnproved_def)
    qed
  qed
qed

lemma afterWait_logged:
  assumes "afterWait (logRunner env) h rid code we (w, [a, RWait code we]) = (res, w', log)" and "rid \<noteq> 0"
    and "\<not> isDelete a"
  shows "(reclaimed rid log \<or> keptUnproved rid log)
    \<and> (snd res = None \<longrightarrow> we = None \<and> fst res = code \<and> (\<exists>e. log = [a, RWait code None, RDelete rid e]))"
proof (cases "re_ctxErr env w = None \<and> we = None")
  case True
  obtain w1 e where "deregister (logRunner env) rid (w, [a, RWait code None]) = (w1, [a, RWait code None] @ [RDelete rid e])"
    using deregister_logged[OF assms(2)] by metis
  then have l: "log = [a, RWait code None, RDelete rid e]" "res = (code, None)"
    using assms(1) True by (auto simp: afterWait_def logRunner_def)
  have "reclaimed rid log" unfolding reclaimed_def l
    using assms(3) by (intro exI[of _ "[a]"] exI[of _ "RWait code None"] exI[of _ e]) simp
  then show ?thesis using l True by simp
next
  case False
  then obtain err where c: "cleanupAfter (logRunner env) h rid code err (w, [a, RWait code we]) = (res, w', log)"
    using assms(1) by (auto simp: afterWait_def logRunner_def split: option.splits)
  then have "snd res \<noteq> None" by (auto simp: cleanupAfter_def split: prod.splits option.splits)
  then show ?thesis using cleanupAfter_logged[OF c assms(2)] assms(3) by auto
qed


definition demoSpec :: spec where
  "demoSpec = \<lparr>sp_Name = ''mr-1'', sp_Image = ''img'', sp_RunnerGroupID = 1, sp_Labels = [''linux''], sp_WorkFolder = ''_work'',
     sp_Env = [], sp_Mounts = [],
     sp_Container = \<lparr>cs_CPUCount = 0, cs_MemoryBytes = 0, cs_MemorySwapBytes = 0, cs_DNS = []\<rparr>, sp_Index = 0\<rparr>"

text \<open>A backend whose wait and kill fail while GitHub reports the runner as busy or idle.\<close>

definition demoRunner :: "bool \<Rightarrow> unit runner_env" where
  "demoRunner busy =
     \<lparr>re_jit = (\<lambda>w q. (Inr \<lparr>jy_EncodedJITConfig = ''jit'', jy_RunnerID = 42, jy_RunnerName = jr_Name q\<rparr>, w)),
      re_launch = (\<lambda>w q. (Launched (lr_Name q), w)), re_wait = (\<lambda>w h. ((-1, Some (Leaf ''lost'')), w)),
      re_kill = (\<lambda>w h. (Some (Leaf ''daemon gone''), w)), re_busy = (\<lambda>w i. (Inr busy, w)),
      re_delete = (\<lambda>w i. (None, w)), re_ctxErr = (\<lambda>w. None)\<rparr>"


end
