(* ===== verification/Pool.thy ===== *)
theory Pool
  imports Runner_Lifecycle Scaleset_Supervisor
begin

text \<open>
  Fixed pools (\<open>internal/pool/pool.go\<close>, \<open>launcher.go\<close>): the pool launcher shared with the
  autoscaler, its authorisation check and metrics hooks, the retry schedule, the slot loop, and
  the manager that runs all pools. Shown: only authorised jobs reach GitHub or the backend and each
  start hook has its stop hook; a slot never gives up and waits between two seconds and a minute
  after a failure.
\<close>

section \<open>The pool launcher\<close>

record pool_launcher =
  pl_cfg :: pool_config
  pl_image :: string
  pl_env :: "(string \<times> string) list"
  pl_mounts :: "mount list"
  pl_container :: container_settings
  pl_hasOnStart :: bool
  pl_hasOnStop :: bool

definition NewLauncher ::
  "pool_config \<Rightarrow> string \<Rightarrow> (string \<times> string) list \<Rightarrow> mount list \<Rightarrow> bool \<Rightarrow> bool \<Rightarrow> pool_launcher" where
  "NewLauncher cfg img env mounts onStart onStop =
     \<lparr>pl_cfg = cfg, pl_image = img, pl_env = env, pl_mounts = mounts,
      pl_container = \<lparr>cs_CPUCount = cy_CPUs (pc_Container cfg), cs_MemoryBytes = MemoryBytes (pc_Container cfg),
        cs_MemorySwapBytes = MemorySwapBytes (pc_Container cfg), cs_DNS = cy_DNS (pc_Container cfg)\<rparr>,
      pl_hasOnStart = onStart, pl_hasOnStop = onStop\<rparr>"

abbreviation poolName :: "pool_launcher \<Rightarrow> string" where
  "poolName l \<equiv> pc_Name (pl_cfg l)"

abbreviation poolMax :: "pool_launcher \<Rightarrow> int" where
  "poolMax l \<equiv> pc_Size (pl_cfg l)"

abbreviation poolLabels :: "pool_launcher \<Rightarrow> string list" where
  "poolLabels l \<equiv> pc_Labels (pl_cfg l)"

definition Allows :: "pool_launcher \<Rightarrow> queued_job \<Rightarrow> bool" where
  "Allows l job =
     (case qj_Client job of
        None \<Rightarrow> False
      | Some c \<Rightarrow>
          CanServeJob (pl_cfg l) (if qj_Repository job = [] then Target c else qj_Repository job)
            (qj_WorkflowPath job) (qj_Event job) (qj_Actor job) (qj_Ref job))"

definition RequiresWorkflowMetadata :: "pool_launcher \<Rightarrow> bool" where
  "RequiresWorkflowMetadata l = (pc_Workflows (pl_cfg l) \<noteq> [])"

text \<open>
  What the launcher reaches outside: \<open>po_runner c\<close> is the runner environment with client \<open>c\<close>,
  \<open>po_shortID\<close> the random suffix of a runner name, \<open>po_slotClient\<close> the provider's placement.
\<close>

record 'w pool_env =
  po_runner :: "client \<Rightarrow> 'w runner_env"
  po_shortID :: "'w \<Rightarrow> string \<times> 'w"
  po_slotClient :: "int \<Rightarrow> client option"
  po_ensureImage :: "'w \<Rightarrow> string \<Rightarrow> gerr option \<times> 'w"
  po_ctxErr :: "'w \<Rightarrow> bool"
  po_sleep :: "'w \<Rightarrow> int \<Rightarrow> bool \<times> 'w"

definition EnsureImage :: "'w pool_env \<Rightarrow> pool_launcher \<Rightarrow> 'w \<Rightarrow> gerr option \<times> 'w" where
  "EnsureImage env l w =
     (case po_ensureImage env w (pl_image l) of
        (Some e, w1) \<Rightarrow> (Some (errorf (''pool '' @ poolName l @ '': '') e), w1)
      | (None, w1) \<Rightarrow> (None, w1))"

datatype pool_hook = PoolStart string | PoolStop string int "gerr option"

definition poolRunnerName :: "pool_launcher \<Rightarrow> string \<Rightarrow> string" where
  "poolRunnerName l sid = pc_NamePrefix (pl_cfg l) @ ''-'' @ pc_OS (pl_cfg l) @ ''-'' @ sid"

definition poolSpec :: "pool_launcher \<Rightarrow> string \<Rightarrow> spec" where
  "poolSpec l sid =
     \<lparr>sp_Name = poolRunnerName l sid, sp_Image = pl_image l, sp_RunnerGroupID = pc_RunnerGroupID (pl_cfg l),
      sp_Labels = pc_Labels (pl_cfg l), sp_WorkFolder = pc_WorkFolder (pl_cfg l), sp_Env = pl_env l,
      sp_Mounts = pl_mounts l, sp_Container = pl_container l, sp_Index = 0\<rparr>"

definition RunJob ::
  "'w pool_env \<Rightarrow> pool_launcher \<Rightarrow> queued_job \<Rightarrow> 'w \<Rightarrow> (int \<times> gerr option) \<times> pool_hook list \<times> 'w" where
  "RunJob env l job w =
     (case qj_Client job of
        None \<Rightarrow> ((0, Some (Leaf (''pool '' @ poolName l @ '': no github client available to register a runner''))), [], w)
      | Some c \<Rightarrow>
          if \<not> Allows l job
          then ((0, Some (Leaf (''pool '' @ poolName l @ '': job from repository ''
                  @ (if qj_Repository job = [] then Target c else qj_Repository job)
                  @ '' workflow '' @ goQuote (qj_WorkflowPath job) @ '' event '' @ goQuote (qj_Event job)
                  @ '' actor '' @ goQuote (qj_Actor job) @ '' is not allowed''))), [], w)
          else
            (let (sid, w1) = po_shortID env w;
                 ((code, err), w2) = RunOnce (po_runner env c) (poolSpec l sid) w1
             in ((code, err),
                 (if pl_hasOnStart l then [PoolStart (poolName l)] else [])
                 @ (if pl_hasOnStop l then [PoolStop (poolName l) code err] else []), w2)))"

definition clientJob :: "client option \<Rightarrow> queued_job" where
  "clientJob c =
     \<lparr>qj_Client = c, qj_Repository = [], qj_Labels = [], qj_WorkflowPath = [], qj_Event = [],
      qj_Actor = [], qj_Ref = [], qj_Status = []\<rparr>"

definition RunOneOn ::
  "'w pool_env \<Rightarrow> pool_launcher \<Rightarrow> client option \<Rightarrow> 'w \<Rightarrow> (int \<times> gerr option) \<times> pool_hook list \<times> 'w" where
  "RunOneOn env l c w = RunJob env l (clientJob c) w"

definition RunOneForSlot ::
  "'w pool_env \<Rightarrow> pool_launcher \<Rightarrow> int \<Rightarrow> 'w \<Rightarrow> (int \<times> gerr option) \<times> pool_hook list \<times> 'w" where
  "RunOneForSlot env l slot w = RunOneOn env l (po_slotClient env slot) w"

section \<open>The retry schedule\<close>

definition backoffBase :: int where
  "backoffBase = 2 * second"

definition backoffMax :: int where
  "backoffMax = 60 * second"

fun backoffLoop :: "nat \<Rightarrow> int \<Rightarrow> int" where
  "backoffLoop 0 d = (if d > backoffMax then backoffMax else d)"
| "backoffLoop (Suc n) d = (if d * 2 \<ge> backoffMax then backoffMax else backoffLoop n (d * 2))"

definition backoff :: "nat \<Rightarrow> int" where
  "backoff failures = backoffLoop (failures - 1) backoffBase"

section \<open>Slots, pools and the manager\<close>

datatype slot_event = SlotRan "gerr option" | SlotSlept int

text \<open>\<open>runSlot\<close> for \<open>n\<close> rounds: whether it returned, and what it did.\<close>

fun runSlot ::
  "nat \<Rightarrow> 'w pool_env \<Rightarrow> pool_launcher \<Rightarrow> int \<Rightarrow> nat \<Rightarrow> 'w \<Rightarrow> bool \<times> slot_event list \<times> pool_hook list \<times> 'w" where
  "runSlot 0 env l index failures w = (False, [], [], w)"
| "runSlot (Suc n) env l index failures w =
     (if po_ctxErr env w then (True, [], [], w)
      else
        (let ((code, err), hooks, w1) = RunOneForSlot env l index w
         in if po_ctxErr env w1 then (True, [SlotRan err], hooks, w1)
            else case err of
                   None \<Rightarrow>
                     (let (r, evs, hs, w2) = runSlot n env l index 0 w1
                      in (r, SlotRan None # evs, hooks @ hs, w2))
                 | Some e \<Rightarrow>
                     (let delay = backoff (Suc failures);
                          (slept, w2) = po_sleep env w1 delay
                      in if \<not> slept then (True, [SlotRan err, SlotSlept delay], hooks, w2)
                         else (let (r, evs, hs, w3) = runSlot n env l index (Suc failures) w2
                               in (r, SlotRan err # SlotSlept delay # evs, hooks @ hs, w3)))))"

text \<open>
  The manager sees its pools return and its context end, in some order: an error of a pool counts
  only while the run context lives, and the first one cancels it. \<open>pickCtx\<close> resolves the
  \<open>select\<close> when an error is pending and the context has ended too.
\<close>

datatype manager_event = PoolReturned string "gerr option" | ContextDone

record manager =
  mg_ctxDone :: bool
  mg_cancelled :: bool
  mg_errs :: "gerr list"

fun managerStep :: "manager_event \<Rightarrow> manager \<Rightarrow> manager" where
  "managerStep (PoolReturned name err) m =
     (case err of
        None \<Rightarrow> m
      | Some e \<Rightarrow>
          if mg_cancelled m then m
          else m\<lparr>mg_errs := mg_errs m @ [errorf (''pool '' @ name @ '': '') e], mg_cancelled := True\<rparr>)"
| "managerStep ContextDone m = m\<lparr>mg_ctxDone := True, mg_cancelled := True\<rparr>"

definition managerRun :: "bool \<Rightarrow> manager_event list \<Rightarrow> gerr option" where
  "managerRun pickCtx evs =
     (let m = fold managerStep evs \<lparr>mg_ctxDone = False, mg_cancelled = False, mg_errs = []\<rparr>
      in case mg_errs m of
           [] \<Rightarrow> None
         | e # es \<Rightarrow> if mg_ctxDone m \<and> pickCtx then None else Some e)"

section \<open>Only authorised jobs run\<close>

text \<open>
  A pool touches nothing for a job it may not serve, and its metrics stay balanced. A job
  without a client or outside the pool's repository and workflow restrictions is refused with an
  error before any hook, registration or launch. For an authorised job the start hook comes first
  and the stop hook last, once each, and the stop hook carries the exit code and error that are
  returned.
\<close>

theorem pool_runs_only_authorised_jobs:
  assumes "RunJob env l job w = ((code, err), hooks, w')"
  shows "(Allows l job \<longrightarrow> hooks = (if pl_hasOnStart l then [PoolStart (poolName l)] else [])
           @ (if pl_hasOnStop l then [PoolStop (poolName l) code err] else []))
       \<and> (\<not> Allows l job \<longrightarrow> w' = w \<and> hooks = [] \<and> code = 0 \<and> err \<noteq> None)"
  using assms by (auto simp: RunJob_def Allows_def split: option.splits prod.splits if_splits)

definition demoPoolLauncher :: pool_launcher where
  "demoPoolLauncher =
     NewLauncher ((demoPool ''ci'')\<lparr>pc_Repository := ''acme/api'', pc_Workflows := [''.github/workflows/ci.yml''],
        pc_WorkflowEvent := ''push'', pc_WorkflowActor := ''octo'', pc_WorkflowRef := ''main''\<rparr>) ''img'' [] [] True True"

definition demoJob :: queued_job where
  "demoJob = \<lparr>qj_Client = Some demoClient, qj_Repository = ''Acme/API'', qj_Labels = [''linux''],
     qj_WorkflowPath = ''.github/workflows/ci.yml'', qj_Event = ''push'', qj_Actor = ''octo'', qj_Ref = ''main'',
     qj_Status = ''queued''\<rparr>"

definition demoPoolEnv :: "unit pool_env" where
  "demoPoolEnv =
     \<lparr>po_runner = (\<lambda>c. demoRunner False), po_shortID = (\<lambda>w. (''00ff'', w)), po_slotClient = (\<lambda>s. Some demoClient),
      po_ensureImage = (\<lambda>w i. (None, w)), po_ctxErr = (\<lambda>w. False), po_sleep = (\<lambda>w d. (True, w))\<rparr>"

lemma demoJob_allowed:
  "Allows demoPoolLauncher demoJob" "\<not> Allows demoPoolLauncher (demoJob\<lparr>qj_Actor := ''mallory''\<rparr>)"
  by code_simp+

theorem pool_runs_only_authorised_jobs_witness:
  "fst (snd (RunJob demoPoolEnv demoPoolLauncher (demoJob\<lparr>qj_Actor := ''mallory''\<rparr>) ())) = []
   \<and> length (fst (snd (RunJob demoPoolEnv demoPoolLauncher demoJob ()))) = 2"
proof -
  obtain c e h w c' e' h' w' where
    1: "RunJob demoPoolEnv demoPoolLauncher (demoJob\<lparr>qj_Actor := ''mallory''\<rparr>) () = ((c, e), h, w)" and
    2: "RunJob demoPoolEnv demoPoolLauncher demoJob () = ((c', e'), h', w')"
    by (metis surj_pair)
  have "pl_hasOnStart demoPoolLauncher" "pl_hasOnStop demoPoolLauncher"
    by (simp_all add: demoPoolLauncher_def NewLauncher_def)
  then show ?thesis
    using pool_runs_only_authorised_jobs[OF 1] pool_runs_only_authorised_jobs[OF 2] demoJob_allowed 1 2 by simp
qed

section \<open>A slot never gives up\<close>

lemma backoffLoop_closed:
  "0 < d \<Longrightarrow> d \<le> backoffMax \<Longrightarrow> backoffLoop n d = min backoffMax (d * 2 ^ n)"
proof (induction n arbitrary: d)
  case (Suc n)
  show ?case
  proof (cases "d * 2 \<ge> backoffMax")
    case True
    have "d * 2 * 1 \<le> d * 2 * 2 ^ n" using Suc.prems by (intro mult_left_mono) auto
    then show ?thesis using True by (simp add: mult.assoc)
  next
    case False
    then show ?thesis using Suc by (simp add: mult.assoc)
  qed
qed auto

lemma backoff_closed: "backoff n = min (60 * second) (2 * second * 2 ^ (n - 1))"
  by (simp add: backoff_def backoffLoop_closed backoffBase_def backoffMax_def second_def)

interpretation slot: backoff_schedule backoff "60 * second"
proof
  fix m n :: nat assume "m \<le> n"
  then have "(2::int) ^ (m - 1) \<le> 2 ^ (n - 1)" by (intro power_increasing) auto
  then show "backoff m \<le> backoff n" by (simp add: backoff_closed second_def min_le_iff_disj)
qed (auto simp: backoff_closed second_def)

text \<open>The delays a slot sleeps for a sequence of outcomes, after \<open>k\<close> failures in a row.\<close>

fun slotTrace :: "nat \<Rightarrow> gerr option list \<Rightarrow> slot_event list" where
  "slotTrace k [] = []"
| "slotTrace k (None # rest) = SlotRan None # slotTrace 0 rest"
| "slotTrace k (Some e # rest) = SlotRan (Some e) # SlotSlept (backoff (Suc k)) # slotTrace (Suc k) rest"

definition runsForever :: "'w pool_env \<Rightarrow> bool" where
  "runsForever env = ((\<forall>w. \<not> po_ctxErr env w) \<and> (\<forall>w d. fst (po_sleep env w d)))"

lemma runSlot_trace:
  assumes "runsForever env"
  shows "\<exists>outcomes hs w'. length outcomes = n
    \<and> runSlot n env l index k w = (False, slotTrace k outcomes, hs, w')"
proof (induction n arbitrary: k w)
  case (Suc n)
  obtain code err h w1 where r: "RunOneForSlot env l index w = ((code, err), h, w1)" by (metis surj_pair)
  have c: "\<not> po_ctxErr env x" for x using assms by (simp add: runsForever_def)
  show ?case
  proof (cases err)
    case None
    obtain os1 hs w2 where "length os1 = n" "runSlot n env l index 0 w1 = (False, slotTrace 0 os1, hs, w2)"
      using Suc by blast
    then show ?thesis using r c None by (intro exI[of _ "None # os1"]) auto
  next
    case (Some e)
    obtain w2 where s: "po_sleep env w1 (backoff (Suc k)) = (True, w2)"
      using assms by (metis (full_types) runsForever_def prod.collapse)
    obtain os1 hs w3 where "length os1 = n" "runSlot n env l index (Suc k) w2 = (False, slotTrace (Suc k) os1, hs, w3)"
      using Suc by blast
    then show ?thesis using r c Some s by (intro exI[of _ "Some e # os1"]) auto
  qed
qed simp

lemma slotTrace_delays:
  "SlotSlept d \<in> set (slotTrace k outcomes) \<Longrightarrow> 2 * second \<le> d \<and> d \<le> 60 * second"
proof (induction k outcomes rule: slotTrace.induct)
  case (3 k e rest)
  have "backoff 1 \<le> backoff (Suc k)" by (rule slot.delay_mono) simp
  moreover have "backoff 1 = 2 * second" by (simp add: backoff_closed second_def)
  ultimately show ?case using 3 slot.delay_cap[of "Suc k"] by auto
qed auto

text \<open>
  A slot of a pool never gives up. While the context lives, every round runs a runner; after a
  failure the slot waits the delay of its number of consecutive failures, between two seconds and
  one minute, and a success starts the count again. Reaching \<open>max_consecutive_failures\<close> changes
  nothing but a log line.
\<close>

theorem slot_never_gives_up:
  assumes "runsForever env"
  shows "\<exists>outcomes hs w'. length outcomes = n
    \<and> runSlot n env l index 0 w = (False, slotTrace 0 outcomes, hs, w')
    \<and> (\<forall>d. SlotSlept d \<in> set (slotTrace 0 outcomes) \<longrightarrow> 2 * second \<le> d \<and> d \<le> 60 * second)"
  using runSlot_trace[OF assms, of n l index 0 w] slotTrace_delays by blast

theorem slot_never_gives_up_witness:
  "\<exists>outcomes hs w'. length outcomes = 3
    \<and> runSlot 3 demoPoolEnv demoPoolLauncher 0 0 () = (False, slotTrace 0 outcomes, hs, w')"
proof -
  have "runsForever demoPoolEnv" by (simp add: runsForever_def demoPoolEnv_def)
  from slot_never_gives_up[OF this, of 3 demoPoolLauncher 0 "()"] show ?thesis by blast
qed

section \<open>The manager\<close>

definition firstFailure :: "manager_event list \<Rightarrow> gerr option" where
  "firstFailure evs =
     List.find (\<lambda>_. True) (List.map_filter (\<lambda>ev. case ev of PoolReturned n (Some e) \<Rightarrow> Some (errorf (''pool '' @ n @ '': '') e) | _ \<Rightarrow> None) evs)"

lemma managerStep_cancelled:
  "mg_cancelled m \<Longrightarrow> mg_errs (fold managerStep evs m) = mg_errs m \<and> mg_cancelled (fold managerStep evs m)"
proof (induction evs arbitrary: m)
  case (Cons ev evs)
  then show ?case by (cases ev) (auto split: option.splits)
qed simp

text \<open>Without a cancellation from outside, the manager returns the error of the first pool that failed.\<close>

lemma managerRun_first:
  assumes "ContextDone \<notin> set evs"
  shows "managerRun pickCtx evs = firstFailure evs"
proof -
  have "\<not> mg_cancelled m \<Longrightarrow> mg_errs m = [] \<Longrightarrow>
      mg_errs (fold managerStep evs m) = (case firstFailure evs of None \<Rightarrow> [] | Some e \<Rightarrow> [e])
      \<and> mg_ctxDone (fold managerStep evs m) = mg_ctxDone m" for m
    using assms
  proof (induction evs arbitrary: m)
    case (Cons ev evs)
    have nodone: "ContextDone \<notin> set evs \<Longrightarrow> mg_ctxDone (fold managerStep evs m) = mg_ctxDone m" for m evs
    proof (induction evs arbitrary: m)
      case (Cons ev evs)
      then show ?case by (cases ev) (auto split: option.splits)
    qed simp
    obtain name err where ev: "ev = PoolReturned name err" using Cons.prems by (cases ev) auto
    show ?case
    proof (cases err)
      case None
      then show ?thesis using Cons ev by (simp add: firstFailure_def)
    next
      case (Some e)
      let ?m = "m\<lparr>mg_errs := [errorf (''pool '' @ name @ '': '') e], mg_cancelled := True\<rparr>"
      have "managerStep ev m = ?m" using Cons.prems ev Some by simp
      then show ?thesis using managerStep_cancelled[of ?m evs] nodone[of evs ?m] Cons.prems ev Some
        by (simp add: firstFailure_def)
    qed
  qed (simp add: firstFailure_def)
  from this[of "\<lparr>mg_ctxDone = False, mg_cancelled = False, mg_errs = []\<rparr>"]
  show ?thesis by (simp add: managerRun_def split: option.splits)
qed

end
