(* ===== verification/Autoscale.thy ===== *)
theory Autoscale
  imports Pool
begin

text \<open>
  The autoscaler (\<open>internal/autoscale/autoscale.go\<close>): label matching, the per-pool semaphores, the
  choice of a pool for a queued job, the webhook entry point and the poll. The goroutines in
  flight are part of the state: \<open>as_flight\<close> holds a runner per entry (its pool and job), and
  \<open>as_pending\<close> the webhook jobs whose workflow metadata is being resolved. Every interleaving of
  webhooks, resolutions, polled jobs and runner exits is a run of the step relation \<open>astep\<close>.
\<close>

section \<open>Choosing a pool\<close>

definition jobLabelsMatch :: "string list \<Rightarrow> string list \<Rightarrow> bool" where
  "jobLabelsMatch poolLs jobLs = list_all (\<lambda>jl. list_ex (\<lambda>pl. equalFold pl jl) poolLs) jobLs"

record pending_job =
  pj_Client :: client
  pj_Repository :: string
  pj_RunID :: int
  pj_Labels :: "string list"

record scaler =
  as_pools :: "pool_launcher list"
  as_sem :: "nat list"
  as_flight :: "(nat \<times> queued_job) list"
  as_pending :: "pending_job list"

definition newScaler :: "pool_launcher list \<Rightarrow> scaler" where
  "newScaler ls = \<lparr>as_pools = ls, as_sem = replicate (length ls) 0, as_flight = [], as_pending = []\<rparr>"

definition semCap :: "scaler \<Rightarrow> nat \<Rightarrow> nat" where
  "semCap s i = nat (poolMax (as_pools s ! i))"

definition tryLaunch :: "scaler \<Rightarrow> nat \<Rightarrow> queued_job \<Rightarrow> scaler option" where
  "tryLaunch s i job =
     (if as_sem s ! i < semCap s i
      then Some (s\<lparr>as_sem := (as_sem s)[i := Suc (as_sem s ! i)], as_flight := as_flight s @ [(i, job)]\<rparr>)
      else None)"

definition servable :: "scaler \<Rightarrow> queued_job \<Rightarrow> nat \<Rightarrow> bool" where
  "servable s job i =
     (Allows (as_pools s ! i) job \<and> jobLabelsMatch (poolLabels (as_pools s ! i)) (qj_Labels job))"

fun launchFrom :: "scaler \<Rightarrow> queued_job \<Rightarrow> nat list \<Rightarrow> scaler" where
  "launchFrom s job [] = s"
| "launchFrom s job (i # rest) =
     (if servable s job i
      then (case tryLaunch s i job of Some s1 \<Rightarrow> s1 | None \<Rightarrow> launchFrom s job rest)
      else launchFrom s job rest)"

definition launchFor :: "scaler \<Rightarrow> queued_job \<Rightarrow> scaler" where
  "launchFor s job = launchFrom s job [0..<length (as_pools s)]"

text \<open>A runner goroutine ends: it leaves its semaphore.\<close>

definition runnerDone :: "scaler \<Rightarrow> nat \<Rightarrow> scaler" where
  "runnerDone s k =
     (let i = fst (as_flight s ! k)
      in s\<lparr>as_sem := (as_sem s)[i := as_sem s ! i - 1],
           as_flight := take k (as_flight s) @ drop (Suc k) (as_flight s)\<rparr>)"

section \<open>Webhook events and polls\<close>

text \<open>\<open>forRepo\<close> is the provider's \<open>ClientFor\<close>.\<close>

definition queuedEvent :: "client \<Rightarrow> string \<Rightarrow> string list \<Rightarrow> queued_job" where
  "queuedEvent c repo labels = (clientJob (Some c))\<lparr>qj_Repository := repo, qj_Labels := labels\<rparr>"

definition OnQueued :: "(string \<Rightarrow> client option) \<Rightarrow> scaler \<Rightarrow> string \<Rightarrow> int \<Rightarrow> string list \<Rightarrow> scaler" where
  "OnQueued forRepo s repo rid labels =
     (case forRepo repo of
        None \<Rightarrow> s
      | Some c \<Rightarrow>
          if \<not> list_ex (\<lambda>l. jobLabelsMatch (poolLabels l) labels \<and> RequiresWorkflowMetadata l) (as_pools s)
          then launchFor s (queuedEvent c repo labels)
          else s\<lparr>as_pending := as_pending s
                 @ [\<lparr>pj_Client = c, pj_Repository = repo, pj_RunID = rid, pj_Labels = labels\<rparr>]\<rparr>)"

text \<open>The goroutine of \<open>OnQueued\<close>: the job is launched only as GitHub describes it.\<close>

definition resolvePending :: "'w gh \<Rightarrow> scaler \<Rightarrow> nat \<Rightarrow> 'w \<Rightarrow> scaler \<times> 'w" where
  "resolvePending g s k w =
     (let p = as_pending s ! k; s1 = s\<lparr>as_pending := take k (as_pending s) @ drop (Suc k) (as_pending s)\<rparr>
      in case ResolveQueuedJob g (pj_Client p) w (pj_Repository p) (pj_RunID p) (pj_Labels p) of
           (Inl e, w1) \<Rightarrow> (s1, w1)
         | (Inr job, w1) \<Rightarrow> (launchFor s1 job, w1))"

datatype jobs_result = JobsPanic | Jobs "queued_job list" "(gerr + poll_error) option"

fun providerQueuedJobs ::
  "nat \<Rightarrow> 'w gh \<Rightarrow> provider \<Rightarrow> 'w \<Rightarrow> (jobs_result \<times> provider \<times> 'w) option" where
  "providerQueuedJobs n g (SingleClient c) w =
     (case clientQueuedJobs n g c w of
        None \<Rightarrow> None
      | Some (Inl e, w1) \<Rightarrow> Some (Jobs [] (Some (Inl e)), SingleClient c, w1)
      | Some (Inr js, w1) \<Rightarrow> Some (Jobs js None, SingleClient c, w1))"
| "providerQueuedJobs n g (Repos rs) w =
     (case setQueuedJobs n g rs w of
        None \<Rightarrow> None
      | Some (PollPanic, rs1, w1) \<Rightarrow> Some (JobsPanic, Repos rs1, w1)
      | Some (Polled js err, rs1, w1) \<Rightarrow> Some (Jobs js (map_option Inr err), Repos rs1, w1))"

fun providerClientFor :: "provider \<Rightarrow> string \<Rightarrow> client option" where
  "providerClientFor (SingleClient c) repo = clientClientFor c repo"
| "providerClientFor (Repos rs) repo = setClientFor rs repo"

definition totalFailure :: "(gerr + poll_error) option \<Rightarrow> bool" where
  "totalFailure err = (case err of Some (Inr e) \<Rightarrow> AllFailed e | _ \<Rightarrow> False)"

definition scalerReconcile :: "scope \<Rightarrow> scaler \<Rightarrow> jobs_result \<Rightarrow> scaler" where
  "scalerReconcile sc s r =
     (if sc \<noteq> ''repo'' \<and> sc \<noteq> ''repos'' then s
      else case r of
             JobsPanic \<Rightarrow> s
           | Jobs js err \<Rightarrow> if totalFailure err then s else foldl launchFor s js)"

section \<open>Choosing is first fit\<close>

definition full :: "scaler \<Rightarrow> nat \<Rightarrow> bool" where
  "full s i = (semCap s i \<le> as_sem s ! i)"

definition taken :: "scaler \<Rightarrow> nat \<Rightarrow> queued_job \<Rightarrow> scaler" where
  "taken s i job = s\<lparr>as_sem := (as_sem s)[i := Suc (as_sem s ! i)], as_flight := as_flight s @ [(i, job)]\<rparr>"

lemma tryLaunch_alt: "tryLaunch s i job = (if full s i then None else Some (taken s i job))"
  by (auto simp: tryLaunch_def full_def taken_def)

lemma launchFrom_cases:
  "(launchFrom s job js = s \<and> (\<forall>i \<in> set js. servable s job i \<longrightarrow> full s i))
   \<or> (\<exists>i \<in> set js. servable s job i \<and> \<not> full s i \<and> launchFrom s job js = taken s i job
        \<and> (\<forall>j \<in> set (takeWhile (\<lambda>k. k \<noteq> i) js). servable s job j \<longrightarrow> full s j))"
  by (induction js) (auto simp: tryLaunch_alt)

lemma takeWhile_upt: "i < n \<Longrightarrow> set (takeWhile (\<lambda>k. k \<noteq> i) [0..<n]) = {0..<i}"
proof -
  assume "i < n"
  then obtain k where "n = i + Suc k" using less_iff_Suc_add by auto
  then have "[0..<n] = [0..<i] @ i # [Suc i..<n]" using upt_add_eq_append[of 0 i "Suc k"] by (simp add: upt_conv_Cons)
  moreover have "takeWhile (\<lambda>k. k \<noteq> i) ([0..<i] @ i # [Suc i..<n]) = [0..<i]"
    by (subst takeWhile_append2) auto
  ultimately show ?thesis by simp
qed

lemma launchFor_first_fit:
  obtains (none) "launchFor s job = s" "\<And>i. i < length (as_pools s) \<Longrightarrow> servable s job i \<Longrightarrow> full s i"
  | (pool) i where "i < length (as_pools s)" "servable s job i" "\<not> full s i" "launchFor s job = taken s i job"
      "\<And>j. j < i \<Longrightarrow> servable s job j \<Longrightarrow> full s j"
proof -
  show thesis using launchFrom_cases[of s job "[0..<length (as_pools s)]"] none pool
    by (auto simp: launchFor_def takeWhile_upt)
qed

section \<open>The autoscaler as a state machine\<close>

text \<open>A run record GitHub returned, and a job described as such a record.\<close>

definition reported :: "'w gh \<Rightarrow> workflow_run \<Rightarrow> bool" where
  "reported g r =
     ((\<exists>w ow rp i. fst (gh_GetRun g w ow rp i) = Inr (Some r))
      \<or> (\<exists>w ow rp st p rs q. fst (gh_ListRuns g w ow rp st p) = Inr (rs, q) \<and> Some r \<in> set rs))"

definition authentic :: "'w gh \<Rightarrow> queued_job \<Rightarrow> bool" where
  "authentic g job =
     (\<exists>r. reported g r \<and> qj_WorkflowPath job = wr_Path r \<and> qj_Event job = wr_Event r
        \<and> qj_Actor job = (case wr_TriggeringActor r of None \<Rightarrow> [] | Some a \<Rightarrow> a)
        \<and> qj_Ref job = wr_HeadBranch r \<and> qj_Status job = wr_Status r)"

inductive astep :: "'w gh \<Rightarrow> provider \<Rightarrow> scaler \<Rightarrow> scaler \<Rightarrow> bool" for g :: "'w gh" and prov :: provider where
  as_queued: "astep g prov s (OnQueued (providerClientFor prov) s repo rid labels)"
| as_resolved: "k < length (as_pending s) \<Longrightarrow> resolvePending g s k w = (s', w') \<Longrightarrow> astep g prov s s'"
| as_polled: "providerQueuedJobs n g prov' w = Some (Jobs js err, prov'', w') \<Longrightarrow> job \<in> set js
    \<Longrightarrow> astep g prov s (launchFor s job)"
| as_done: "k < length (as_flight s) \<Longrightarrow> astep g prov s (runnerDone s k)"

definition semOk :: "scaler \<Rightarrow> bool" where
  "semOk s =
     (length (as_sem s) = length (as_pools s)
      \<and> (\<forall>(i, job) \<in> set (as_flight s). i < length (as_pools s))
      \<and> (\<forall>i < length (as_pools s). as_sem s ! i = countOf (\<lambda>(j, job). j = i) (as_flight s) \<and> as_sem s ! i \<le> semCap s i))"

definition flightOk :: "'w gh \<Rightarrow> scaler \<Rightarrow> bool" where
  "flightOk g s =
     (\<forall>(i, job) \<in> set (as_flight s). servable s job i
        \<and> (RequiresWorkflowMetadata (as_pools s ! i) \<longrightarrow> authentic g job))"

definition scalerInv :: "'w gh \<Rightarrow> scaler \<Rightarrow> bool" where
  "scalerInv g s = (semOk s \<and> flightOk g s)"

lemma taken_sel [simp]:
  "as_pools (taken s i job) = as_pools s" "as_pending (taken s i job) = as_pending s"
  "as_flight (taken s i job) = as_flight s @ [(i, job)]" "semCap (taken s i job) = semCap s"
  "servable (taken s i job) = servable s"
  by (simp_all add: taken_def semCap_def servable_def fun_eq_iff)

lemma taken_semOk:
  assumes "semOk s" and "i < length (as_pools s)" and "\<not> full s i"
  shows "semOk (taken s i job)"
  using assms by (auto simp: semOk_def full_def taken_def semCap_def nth_list_update)

lemma launchFor_inv:
  assumes "scalerInv g s"
    and "\<And>i. i < length (as_pools s) \<Longrightarrow> servable s job i \<Longrightarrow> RequiresWorkflowMetadata (as_pools s ! i) \<Longrightarrow> authentic g job"
  shows "scalerInv g (launchFor s job)"
  using assms(1)
proof (cases rule: launchFor_first_fit[of s job])
  case (pool i)
  then show ?thesis using assms taken_semOk[of s i job] by (auto simp: scalerInv_def flightOk_def)
qed simp

lemma countOf_remove:
  "k < length xs \<Longrightarrow> countOf p (take k xs @ drop (Suc k) xs) + (if p (xs ! k) then 1 else 0) = countOf p xs"
  by (subst (3) id_take_nth_drop[of k xs]) (simp_all del: append_take_drop_id)

lemma runnerDone_inv:
  assumes "scalerInv g s" and k: "k < length (as_flight s)"
  shows "scalerInv g (runnerDone s k)"
proof -
  let ?i = "fst (as_flight s ! k)" and ?fl = "take k (as_flight s) @ drop (Suc k) (as_flight s)"
  have sub: "set ?fl \<subseteq> set (as_flight s)" by (auto dest: in_set_takeD in_set_dropD)
  have ok: "semOk s" using assms(1) by (simp add: scalerInv_def)
  have cnt: "countOf (\<lambda>(j, job). j = i) ?fl + (if ?i = i then 1 else 0) = countOf (\<lambda>(j, job). j = i) (as_flight s)" for i
    using countOf_remove[OF k, of "\<lambda>(j, job). j = i"] by (cases "as_flight s ! k") simp
  have ik: "?i < length (as_sem s)" using ok nth_mem[OF k] by (auto simp: semOk_def case_prod_beta)
  have "(as_sem s)[?i := as_sem s ! ?i - 1] ! i = countOf (\<lambda>(j, job). j = i) ?fl
      \<and> (as_sem s)[?i := as_sem s ! ?i - 1] ! i \<le> semCap s i" if i: "i < length (as_pools s)" for i
  proof -
    have "as_sem s ! i = countOf (\<lambda>(j, job). j = i) (as_flight s)" "as_sem s ! i \<le> semCap s i"
      using ok i unfolding semOk_def by blast+
    then show ?thesis using cnt[of i] ik by (cases "?i = i") auto
  qed
  then have "\<forall>i < length (as_pools s). (as_sem s)[?i := as_sem s ! ?i - 1] ! i = countOf (\<lambda>(j, job). j = i) ?fl
      \<and> countOf (\<lambda>(j, job). j = i) ?fl \<le> semCap s i" by metis
  moreover have "\<forall>x \<in> set ?fl. case x of (i, job) \<Rightarrow> i < length (as_pools s)"
    using ok sub unfolding semOk_def by blast
  moreover have "length ((as_sem s)[?i := as_sem s ! ?i - 1]) = length (as_pools s)"
    using ok by (simp add: semOk_def)
  ultimately have "semOk (runnerDone s k)"
    unfolding semOk_def runnerDone_def Let_def semCap_def by simp
  moreover have "flightOk g (runnerDone s k)"
    using assms(1) sub by (auto simp: scalerInv_def flightOk_def runnerDone_def servable_def Let_def)
  ultimately show ?thesis by (simp add: scalerInv_def)
qed

section \<open>Jobs of a poll are described by GitHub\<close>

lemma metadata_authentic: "reported g r \<Longrightarrow> authentic g ((queuedJobMetadata r)\<lparr>qj_Labels := ls\<rparr>)"
  by (auto simp: authentic_def queuedJobMetadata_def split: option.splits)

lemma jobPages_authentic:
  assumes "reported g r"
  shows "jobPages n g c r p w = Some (Inr js, w') \<Longrightarrow> \<forall>j \<in> set js. authentic g j"
proof (induction n arbitrary: p w js)
  case (Suc n)
  then show ?case using metadata_authentic[OF assms]
    by (auto simp: jobsOfPage_def split: prod.splits sum.splits if_splits option.splits)
qed simp

lemma fold_addRun_set: "(k, r) \<in> set (fold addRun rs seen) \<Longrightarrow> (k, r) \<in> set seen \<or> r \<in> set rs"
proof (induction rs arbitrary: seen)
  case (Cons x rs)
  from Cons.IH[of "addRun x seen"] Cons.prems show ?case by (auto simp: addRun_def split: if_splits)
qed simp

abbreviation seenOk :: "'w gh \<Rightarrow> (int \<times> workflow_run option) list \<Rightarrow> bool" where
  "seenOk g seen \<equiv> \<forall>k r. (k, Some r) \<in> set seen \<longrightarrow> reported g r"

lemma runPages_reported:
  "runPages n g c st p seen w = Some (Inr seen', w') \<Longrightarrow> seenOk g seen \<Longrightarrow> seenOk g seen'"
proof (induction n arbitrary: p seen w)
  case (Suc n)
  obtain rs q w1 where l: "gh_ListRuns g w (cn_owner c) (cn_repo c) st p = (Inr (rs, q), w1)"
    using Suc.prems(1) by (auto split: prod.splits sum.splits)
  have "\<forall>r. Some r \<in> set rs \<longrightarrow> reported g r" unfolding reported_def using l by (metis fst_conv)
  then have ok: "seenOk g (fold addRun rs seen)" using Suc.prems(2) by (blast dest: fold_addRun_set)
  show ?case
  proof (cases "q = 0")
    case True
    then show ?thesis using Suc.prems(1) l ok by simp
  next
    case False
    then show ?thesis using Suc.IH[OF _ ok] Suc.prems(1) l by simp
  qed
qed simp

lemma runsByStatus_reported:
  "runsByStatus n g c ss seen w = Some (Inr seen', w') \<Longrightarrow> seenOk g seen \<Longrightarrow> seenOk g seen'"
proof (induction ss arbitrary: seen w)
  case (Cons s ss)
  obtain seen1 w1 where 1: "runPages n g c s 0 seen w = Some (Inr seen1, w1)"
    and 2: "runsByStatus n g c ss seen1 w1 = Some (Inr seen', w')"
    using Cons.prems(1) by (auto split: option.splits prod.splits sum.splits)
  show ?case by (rule Cons.IH[OF 2 runPages_reported[OF 1 Cons.prems(2)]])
qed simp

lemma jobsOfRuns_authentic:
  "jobsOfRuns n g c rs w = Some (Inr js, w') \<Longrightarrow> \<forall>r. Some r \<in> set rs \<longrightarrow> reported g r \<Longrightarrow> \<forall>j \<in> set js. authentic g j"
proof (induction rs arbitrary: w js)
  case (Cons r rs)
  obtain js1 w1 js2 where 1: "queuedJobsForRun n g c r w = Some (Inr js1, w1)"
    and 2: "jobsOfRuns n g c rs w1 = Some (Inr js2, w')" and js: "js = js1 @ js2"
    using Cons.prems(1) by (auto split: option.splits prod.splits sum.splits)
  obtain x where x: "r = Some x" "jobPages n g c x 0 w = Some (Inr js1, w1)"
    using 1 by (auto simp: queuedJobsForRun_def split: option.splits)
  then have "\<forall>j \<in> set js1. authentic g j"
    using jobPages_authentic[of g x n c 0 w js1 w1] Cons.prems(2) by simp
  then show ?case using Cons.IH[OF 2] Cons.prems(2) js by auto
qed simp

lemma QueuedWorkflowJobs_authentic:
  assumes "QueuedWorkflowJobs n g c w = Some (Inr js, w')"
  shows "\<forall>j \<in> set js. authentic g j"
proof (cases "cn_scope c = ''repo''")
  case True
  then obtain seen w1 where r: "runsByStatus n g c pollStatuses [] w = Some (Inr seen, w1)"
    and j: "jobsOfRuns n g c (map snd seen) w1 = Some (Inr js, w')"
    using assms by (auto simp: QueuedWorkflowJobs_def split: option.splits prod.splits sum.splits)
  have "seenOk g seen" using runsByStatus_reported[OF r] by simp
  then have "\<forall>x. Some x \<in> set (map snd seen) \<longrightarrow> reported g x" by auto
  then show ?thesis by (rule jobsOfRuns_authentic[OF j])
qed (use assms in \<open>simp add: QueuedWorkflowJobs_def\<close>)

lemma pairWith_authentic: "\<forall>j \<in> set js. authentic g j \<Longrightarrow> \<forall>j \<in> set (pairWith c js). authentic g j"
  by (auto simp: pairWith_def authentic_def Let_def)

lemma pollRepos_authentic:
  "pollRepos n g rs ks fs w = Some (Some (js, fs'), w') \<Longrightarrow> \<forall>j \<in> set js. authentic g j"
proof (induction ks arbitrary: fs w js)
  case (Cons k ks)
  obtain c where c: "indexed (sl_clients rs) (pollIndex rs k) = Some c"
    using Cons.prems by (auto split: option.splits)
  obtain a w1 where q: "QueuedWorkflowJobs n g c w = Some (a, w1)"
    using Cons.prems c by (auto split: option.splits)
  show ?case
  proof (cases a)
    case (Inl e)
    then obtain name where "pollRepos n g rs ks (AList.update name e fs) w1 = Some (Some (js, fs'), w')"
      using Cons.prems c q by (auto split: option.splits)
    then show ?thesis by (rule Cons.IH)
  next
    case (Inr jobs)
    then obtain rest where r: "pollRepos n g rs ks fs w1 = Some (Some (rest, fs'), w')" and js: "js = pairWith c jobs @ rest"
      using Cons.prems c q by (auto split: option.splits prod.splits)
    have "\<forall>j \<in> set (pairWith c jobs). authentic g j"
      by (rule pairWith_authentic[OF QueuedWorkflowJobs_authentic[OF q[unfolded Inr]]])
    then show ?thesis using Cons.IH[OF r] js by auto
  qed
qed simp

lemma polled_authentic:
  assumes "providerQueuedJobs n g prov w = Some (Jobs js err, prov', w')"
  shows "\<forall>j \<in> set js. authentic g j"
proof (cases prov)
  case (SingleClient c)
  then obtain a w1 where q: "QueuedWorkflowJobs n g c w = Some (a, w1)"
    using assms by (auto simp: clientQueuedJobs_def split: option.splits)
  show ?thesis
  proof (cases a)
    case (Inl e)
    then show ?thesis using assms SingleClient q by (simp add: clientQueuedJobs_def)
  next
    case (Inr jobs)
    then have "js = pairWith c jobs" using assms SingleClient q by (simp add: clientQueuedJobs_def)
    then show ?thesis using pairWith_authentic[OF QueuedWorkflowJobs_authentic[OF q[unfolded Inr]]] by simp
  qed
next
  case (Repos rs)
  then obtain perr rs1 where s: "setQueuedJobs n g rs w = Some (Polled js perr, rs1, w')"
    using assms by (auto split: option.splits poll_result.splits)
  then have "js = [] \<or> (\<exists>fs w1. pollRepos n g rs [0..<length (sl_clients rs)] [] w = Some (Some (js, fs), w1))"
    by (auto simp: setQueuedJobs_def Let_def split: option.splits if_splits)
  then show ?thesis using pollRepos_authentic by fastforce
qed

section \<open>Capacity and authorisation in every interleaving\<close>

lemma resolved_authentic:
  assumes "ResolveQueuedJob g c w repo rid labels = (Inr job, w')"
  shows "authentic g job"
proof -
  obtain ow rp r where "gh_GetRun g w ow rp rid = (Inr (Some r), w')"
    and job: "job = (queuedJobMetadata r)\<lparr>qj_Client := Some c, qj_Repository := repo, qj_Labels := labels\<rparr>"
    using assms by (auto simp: ResolveQueuedJob_def Let_def split: if_splits prod.splits sum.splits option.splits)
  then have "reported g r" unfolding reported_def by (metis fst_conv)
  then show ?thesis using job by (auto simp: authentic_def queuedJobMetadata_def split: option.splits)
qed

lemma scalerInv_pending [simp]: "scalerInv g (s\<lparr>as_pending := p\<rparr>) = scalerInv g s"
  by (simp add: scalerInv_def semOk_def flightOk_def semCap_def servable_def)

lemma OnQueued_inv:
  assumes "scalerInv g s"
  shows "scalerInv g (OnQueued forRepo s repo rid labels)"
proof (cases "forRepo repo")
  case (Some c)
  let ?meta = "list_ex (\<lambda>l. jobLabelsMatch (poolLabels l) labels \<and> RequiresWorkflowMetadata l) (as_pools s)"
  show ?thesis
  proof (cases ?meta)
    case True
    then show ?thesis using Some assms by (simp add: OnQueued_def)
  next
    case False
    have "scalerInv g (launchFor s (queuedEvent c repo labels))"
    proof (rule launchFor_inv[OF assms])
      fix i assume "i < length (as_pools s)" "servable s (queuedEvent c repo labels) i" "RequiresWorkflowMetadata (as_pools s ! i)"
      then have ?meta by (auto simp: servable_def queuedEvent_def list_ex_iff intro!: bexI[of _ "as_pools s ! i"])
      then show "authentic g (queuedEvent c repo labels)" using False by simp
    qed
    then show ?thesis using Some False by (simp add: OnQueued_def)
  qed
qed (simp add: OnQueued_def assms)

lemma astep_inv:
  assumes "astep g prov s t" and "scalerInv g s"
  shows "scalerInv g t"
  using assms(1)
proof cases
  case (as_queued repo rid labels)
  then show ?thesis using OnQueued_inv[OF assms(2)] by simp
next
  case (as_resolved k w w')
  let ?p = "as_pending s ! k" and ?s1 = "s\<lparr>as_pending := take k (as_pending s) @ drop (Suc k) (as_pending s)\<rparr>"
  have inv: "scalerInv g ?s1" using assms(2) by simp
  obtain r w1 where r: "ResolveQueuedJob g (pj_Client ?p) w (pj_Repository ?p) (pj_RunID ?p) (pj_Labels ?p) = (r, w1)"
    by (metis surj_pair)
  show ?thesis
  proof (cases r)
    case (Inl e)
    then show ?thesis using as_resolved r inv by (simp add: resolvePending_def)
  next
    case (Inr job)
    then have "t = launchFor ?s1 job" using as_resolved r by (simp add: resolvePending_def)
    moreover have "authentic g job" using resolved_authentic r Inr by metis
    ultimately show ?thesis using launchFor_inv[OF inv] by simp
  qed
next
  case (as_polled n prov' w js err prov'' w' job)
  then have "authentic g job" using polled_authentic by metis
  then show ?thesis using launchFor_inv[OF assms(2), of job] as_polled by simp
next
  case (as_done k)
  then show ?thesis using runnerDone_inv[OF assms(2)] by simp
qed

lemma newScaler_inv: "scalerInv g (newScaler ls)"
  by (simp add: scalerInv_def semOk_def flightOk_def newScaler_def)

interpretation autoscaler: invariant_machine "\<lambda>s. s = newScaler ls" "astep g prov" "scalerInv g" for g prov ls
  by unfold_locales (auto simp: newScaler_inv astep_inv)

lemma astep_pools: "astep g prov s t \<Longrightarrow> as_pools t = as_pools s"
proof -
  have l: "as_pools (launchFor s job) = as_pools s" for s job
    by (cases rule: launchFor_first_fit[of s job]) auto
  show "astep g prov s t \<Longrightarrow> as_pools t = as_pools s"
    by (induction rule: astep.cases)
      (auto simp: OnQueued_def resolvePending_def runnerDone_def Let_def l split: option.splits prod.splits sum.splits)
qed

lemma reach_pools: "reach (\<lambda>s. s = newScaler ls) (astep g prov) s \<Longrightarrow> as_pools s = ls"
  by (induction rule: reach.induct) (auto simp: newScaler_def dest: astep_pools)

text \<open>
  C13: The autoscaler keeps to the pool sizes. In every interleaving of webhook events, resolved
  events, polled jobs and runner exits, the runners in flight for a pool are exactly its taken
  semaphore slots and never more than the pool's size.
\<close>

theorem autoscale_capacity:
  assumes "reach (\<lambda>s. s = newScaler ls) (astep g prov) s" and "i < length ls"
  shows "as_sem s ! i = countOf (\<lambda>(j, job). j = i) (as_flight s)
    \<and> int (countOf (\<lambda>(j, job). j = i) (as_flight s)) \<le> max 0 (poolMax (ls ! i))"
proof -
  have "semOk s" using autoscaler.reach_inv[OF assms(1)] by (simp add: scalerInv_def)
  moreover have "as_pools s = ls" using reach_pools[OF assms(1)] .
  ultimately have "as_sem s ! i = countOf (\<lambda>(j, job). j = i) (as_flight s)" "as_sem s ! i \<le> semCap s i"
    using assms(2) unfolding semOk_def by blast+
  then show ?thesis using \<open>as_pools s = ls\<close> by (simp add: semCap_def)
qed


section \<open>A poll leaves no servable job behind\<close>

lemma full_taken:
  "semOk s \<Longrightarrow> i < length (as_pools s) \<Longrightarrow> full s j \<Longrightarrow> full (taken s i job) j"
  by (cases "i = j") (auto simp: full_def taken_def semCap_def semOk_def)

lemma launchAll:
  assumes "semOk s"
  shows "\<exists>new. as_flight (foldl launchFor s js) = as_flight s @ new \<and> subseq (map snd new) js
    \<and> as_pools (foldl launchFor s js) = as_pools s
    \<and> (\<forall>i. full s i \<longrightarrow> full (foldl launchFor s js) i)
    \<and> (\<forall>job \<in> set js. job \<in> snd ` set new
        \<or> (\<forall>i < length (as_pools s). servable s job i \<longrightarrow> full (foldl launchFor s js) i))"
  using assms
proof (induction js arbitrary: s)
  case (Cons job js)
  show ?case
  proof (cases rule: launchFor_first_fit[of s job])
    case none
    obtain new where "as_flight (foldl launchFor s js) = as_flight s @ new" "subseq (map snd new) js"
      "as_pools (foldl launchFor s js) = as_pools s" "\<forall>i. full s i \<longrightarrow> full (foldl launchFor s js) i"
      "\<forall>job \<in> set js. job \<in> snd ` set new \<or> (\<forall>i < length (as_pools s). servable s job i \<longrightarrow> full (foldl launchFor s js) i)"
      using Cons by meson
    then show ?thesis using none by (intro exI[of _ new]) auto
  next
    case (pool i)
    let ?t = "taken s i job"
    have ok: "semOk ?t" using taken_semOk[OF Cons.prems pool(1,3)] .
    obtain new where "as_flight (foldl launchFor ?t js) = as_flight ?t @ new" "subseq (map snd new) js"
      "as_pools (foldl launchFor ?t js) = as_pools ?t" "\<forall>i. full ?t i \<longrightarrow> full (foldl launchFor ?t js) i"
      "\<forall>job \<in> set js. job \<in> snd ` set new \<or> (\<forall>i < length (as_pools ?t). servable ?t job i \<longrightarrow> full (foldl launchFor ?t js) i)"
      using Cons.IH[OF ok] by meson
    then show ?thesis using pool full_taken[OF Cons.prems pool(1)]
      by (intro exI[of _ "(i, job) # new"]) auto
  qed
qed simp

text \<open>
  A poll tops the pools up. From every state the autoscaler reaches, the jobs of a poll that did
  not fail entirely are launched in order, each at most once, and afterwards a job was left out
  only if every pool that may serve it and carries its labels is at its size.
\<close>

theorem poll_leaves_no_servable_job:
  assumes "reach (\<lambda>s. s = newScaler ls) (astep g prov) s" and "sc = ''repo'' \<or> sc = ''repos''"
    and "\<not> totalFailure err"
  shows "\<exists>new. as_flight (scalerReconcile sc s (Jobs js err)) = as_flight s @ new \<and> subseq (map snd new) js
    \<and> (\<forall>job \<in> set js. job \<in> snd ` set new
        \<or> (\<forall>i < length ls. servable s job i \<longrightarrow> int (as_sem (scalerReconcile sc s (Jobs js err)) ! i) \<ge> poolMax (ls ! i)))"
proof -
  have ok: "semOk s" and pools: "as_pools s = ls"
    using autoscaler.reach_inv[OF assms(1)] reach_pools[OF assms(1)] by (simp_all add: scalerInv_def)
  have r: "scalerReconcile sc s (Jobs js err) = foldl launchFor s js"
    using assms(2,3) by (auto simp: scalerReconcile_def)
  obtain new where n: "as_flight (foldl launchFor s js) = as_flight s @ new" "subseq (map snd new) js"
    "as_pools (foldl launchFor s js) = as_pools s"
    "\<forall>job \<in> set js. job \<in> snd ` set new \<or> (\<forall>i < length (as_pools s). servable s job i \<longrightarrow> full (foldl launchFor s js) i)"
    using launchAll[OF ok] by meson
  have "full (foldl launchFor s js) i \<Longrightarrow> int (as_sem (foldl launchFor s js) ! i) \<ge> poolMax (ls ! i)" for i
    using n(3) pools by (simp add: full_def semCap_def nat_le_iff)
  then show ?thesis using n pools r by auto
qed

text \<open>The poll as the code runs it is a run of the machine.\<close>

lemma reconcile_is_run:
  assumes "providerQueuedJobs n g prov' w = Some (r, prov'', w')"
  shows "(astep g prov)\<^sup>*\<^sup>* s (scalerReconcile sc s r)"
proof (cases r)
  case (Jobs js err)
  have "set ks \<subseteq> set js \<Longrightarrow> (astep g prov)\<^sup>*\<^sup>* s (foldl launchFor s ks)" for ks s
  proof (induction ks arbitrary: s)
    case (Cons k ks)
    then have "astep g prov s (launchFor s k)" using as_polled[OF assms[unfolded Jobs], of k prov s] by simp
    then show ?case using Cons.IH[of "launchFor s k"] Cons.prems by (simp add: converse_rtranclp_into_rtranclp)
  qed simp
  then show ?thesis using Jobs by (simp add: scalerReconcile_def)
qed (simp add: scalerReconcile_def)

section \<open>A run with one pool\<close>

definition demoQueued :: "string \<Rightarrow> queued_job" where
  "demoQueued st =
     \<lparr>qj_Client = Some demoClient, qj_Repository = ''acme/api'', qj_Labels = [''linux''],
      qj_WorkflowPath = ''.github/workflows/ci.yml'', qj_Event = ''push'', qj_Actor = ''octo'', qj_Ref = ''main'', qj_Status = st\<rparr>"

definition demoScaler :: scaler where
  "demoScaler =
     \<lparr>as_pools = [demoPoolLauncher], as_sem = [1], as_flight = [(0, demoQueued ''queued'')], as_pending = []\<rparr>"

lemma demoPoll:
  "providerQueuedJobs 2 demoServer (SingleClient demoClient) ()
     = Some (Jobs [demoQueued ''queued'', demoQueued ''queued'', demoQueued ''in_progress''] None, SingleClient demoClient, ())"
  by code_simp

lemma demoScaler_reach:
  "reach (\<lambda>s. s = newScaler [demoPoolLauncher]) (astep demoServer (SingleClient demoClient)) demoScaler"
proof -
  have "astep demoServer (SingleClient demoClient) (newScaler [demoPoolLauncher])
      (launchFor (newScaler [demoPoolLauncher]) (demoQueued ''queued''))"
    by (rule as_polled[OF demoPoll]) simp
  moreover have "launchFor (newScaler [demoPoolLauncher]) (demoQueued ''queued'') = demoScaler" by code_simp
  ultimately show ?thesis by (auto intro: reach.intros)
qed

theorem autoscale_capacity_witness:
  "as_sem demoScaler ! 0 = countOf (\<lambda>(j, job). j = 0) (as_flight demoScaler)
   \<and> int (countOf (\<lambda>(j, job). j = 0) (as_flight demoScaler)) \<le> max 0 (poolMax demoPoolLauncher)"
  using autoscale_capacity[OF demoScaler_reach, of 0] by simp


theorem poll_leaves_no_servable_job_witness:
  "\<exists>new. as_flight (scalerReconcile ''repo'' demoScaler (Jobs [demoQueued ''queued'', demoQueued ''in_progress''] None))
      = as_flight demoScaler @ new \<and> subseq (map snd new) [demoQueued ''queued'', demoQueued ''in_progress'']"
  using poll_leaves_no_servable_job[OF demoScaler_reach, of "''repo''" None "[demoQueued ''queued'', demoQueued ''in_progress'']"]
  by (auto simp: totalFailure_def)

end
