(* ===== verification/Cache_Store.thy ===== *)
theory Cache_Store
  imports Go_Prelude "HOL-Library.Multiset" "HOL-Library.Sublist"
begin

text \<open>
  The store of the cache server (\<open>internal/cache/store.go\<close>): the \<open>uploads\<close> and \<open>cache_entries\<close>
  tables as lists of rows, the blob folders as an association from folder name to the parts in
  it, and every query as the list operation it denotes. A row order that SQL leaves open (ties of
  an \<open>ORDER BY\<close>) is the order of the list. Random identifiers and the clock are arguments. Faults
  of the database and the disk are not modelled; an upload that is cut off while its body is
  copied is.
\<close>

section \<open>Tables and blobs\<close>

record upload =
  up_id :: int
  up_key :: string
  up_version :: string
  up_scope :: string
  up_repo :: string
  up_started :: nat
  up_finished :: nat

record entry =
  en_id :: string
  en_key :: string
  en_version :: string
  en_scope :: string
  en_repo :: string
  en_parts :: nat
  en_updated :: int
  en_used :: int

record store =
  st_uploads :: "upload list"
  st_entries :: "entry list"
  st_blobs :: "(string \<times> (nat \<times> string) list) list"

record slot =
  sk_key :: string
  sk_version :: string
  sk_scope :: string
  sk_repo :: string

definition uploadSlot :: "upload \<Rightarrow> slot" where
  "uploadSlot u = \<lparr>sk_key = up_key u, sk_version = up_version u, sk_scope = up_scope u, sk_repo = up_repo u\<rparr>"

definition entrySlot :: "entry \<Rightarrow> slot" where
  "entrySlot e = \<lparr>sk_key = en_key e, sk_version = en_version e, sk_scope = en_scope e, sk_repo = en_repo e\<rparr>"

definition partsOf :: "store \<Rightarrow> string \<Rightarrow> (nat \<times> string) list" where
  "partsOf st folder = (case map_of (st_blobs st) folder of None \<Rightarrow> [] | Some ps \<Rightarrow> ps)"

section \<open>Uploading\<close>

text \<open>\<open>createUpload\<close> with the outcome \<open>rid\<close> of \<open>randomID\<close>: \<open>Inr None\<close> when the slot is taken.\<close>

definition createUpload :: "store \<Rightarrow> (gerr + int) \<Rightarrow> slot \<Rightarrow> (gerr + int option) \<times> store" where
  "createUpload st rid sl =
     (if list_ex (\<lambda>u. uploadSlot u = sl) (st_uploads st) then (Inr None, st)
      else case rid of
             Inl e \<Rightarrow> (Inl e, st)
           | Inr i \<Rightarrow>
               if list_ex (\<lambda>u. up_id u = i) (st_uploads st)
               then (Inl (Leaf ''UNIQUE constraint failed: uploads.id''), st)
               else (Inr (Some i),
                     st\<lparr>st_uploads := st_uploads st
                        @ [\<lparr>up_id = i, up_key = sk_key sl, up_version = sk_version sl, up_scope = sk_scope sl,
                             up_repo = sk_repo sl, up_started = 0, up_finished = 0\<rparr>]\<rparr>))"

definition mapUpload :: "int \<Rightarrow> (upload \<Rightarrow> upload) \<Rightarrow> store \<Rightarrow> store" where
  "mapUpload i f st = st\<lparr>st_uploads := map (\<lambda>u. if up_id u = i then f u else u) (st_uploads st)\<rparr>"

definition folderName :: "int \<Rightarrow> string" where
  "folderName i = formatInt i"

text \<open>The three sections of \<open>uploadPart\<close>: count the start, write the file, count the finish.\<close>

definition partBegin :: "int \<Rightarrow> store \<Rightarrow> store" where
  "partBegin i st = mapUpload i (\<lambda>u. u\<lparr>up_started := up_started u + 1\<rparr>) st"

definition partWrite :: "int \<Rightarrow> nat \<Rightarrow> string \<Rightarrow> store \<Rightarrow> store" where
  "partWrite i idx data st =
     st\<lparr>st_blobs := AList.update (folderName i) (AList.update idx data (partsOf st (folderName i))) (st_blobs st)\<rparr>"

definition partFinish :: "int \<Rightarrow> store \<Rightarrow> store" where
  "partFinish i st = mapUpload i (\<lambda>u. u\<lparr>up_finished := up_finished u + 1\<rparr>) st"

text \<open>A body is the bytes received and the error that cut it off, if any.\<close>

definition uploadPart :: "store \<Rightarrow> int \<Rightarrow> nat \<Rightarrow> string \<times> gerr option \<Rightarrow> gerr option \<times> store" where
  "uploadPart st i idx b =
     (if \<not> list_ex (\<lambda>u. up_id u = i) (st_uploads st) then (None, st)
      else
        (let st1 = partWrite i idx (fst b) (partBegin i st)
         in case snd b of Some e \<Rightarrow> (Some e, st1) | None \<Rightarrow> (None, partFinish i st1)))"

definition dropUpload :: "int \<Rightarrow> store \<Rightarrow> store" where
  "dropUpload i st = st\<lparr>st_uploads := filter (\<lambda>u. up_id u \<noteq> i) (st_uploads st)\<rparr>"

definition removeFolder :: "string \<Rightarrow> store \<Rightarrow> store" where
  "removeFolder f st = st\<lparr>st_blobs := AList.delete f (st_blobs st)\<rparr>"

definition countParts :: "store \<Rightarrow> string \<Rightarrow> nat" where
  "countParts st f = length (partsOf st f)"

definition errNoParts :: gerr where
  "errNoParts = Sent ErrNoParts ''no parts uploaded''"

definition errPartMismatch :: "string \<Rightarrow> gerr" where
  "errPartMismatch s = Wrap [] (Sent ErrPartMismatch ''uploaded part count mismatch'') s"

definition requireContiguousParts :: "store \<Rightarrow> string \<Rightarrow> nat \<Rightarrow> gerr option" where
  "requireContiguousParts st f cnt =
     (case List.find (\<lambda>i. map_of (partsOf st f) i = None) [0..<cnt] of
        None \<Rightarrow> None
      | Some i \<Rightarrow> Some (errPartMismatch ('': missing part '' @ natDigits i)))"

definition checkParts :: "store \<Rightarrow> upload \<Rightarrow> gerr option" where
  "checkParts st u =
     (let folder = folderName (up_id u); fin = up_finished u; actual = countParts st folder
      in if fin = 0 then Some errNoParts
         else if up_started u \<noteq> fin
         then Some (errPartMismatch ('': '' @ natDigits fin @ '' of '' @ natDigits (up_started u)))
         else if actual \<noteq> fin
         then Some (errPartMismatch ('': expected '' @ natDigits fin @ '' found '' @ natDigits actual))
         else requireContiguousParts st folder fin)"

text \<open>Promote: repoint the slot's entry, dropping the folder it pointed to, or insert a new one.\<close>

definition repoint :: "slot \<Rightarrow> string \<Rightarrow> nat \<Rightarrow> int \<Rightarrow> entry \<Rightarrow> entry" where
  "repoint sl folder actual now e =
     (if entrySlot e = sl then e\<lparr>en_id := folder, en_parts := actual, en_updated := now, en_used := now\<rparr> else e)"

definition promote :: "store \<Rightarrow> int \<Rightarrow> slot \<Rightarrow> string \<Rightarrow> nat \<Rightarrow> gerr + store" where
  "promote st now sl folder actual =
     (if list_ex (\<lambda>e. en_id e = folder \<and> entrySlot e \<noteq> sl) (st_entries st)
         \<or> length (filter (\<lambda>e. entrySlot e = sl) (st_entries st)) > 1
      then Inl (Leaf ''UNIQUE constraint failed: cache_entries.id'')
      else
        (case List.find (\<lambda>e. entrySlot e = sl) (st_entries st) of
           Some old \<Rightarrow>
             (let st1 = st\<lparr>st_entries := map (repoint sl folder actual now) (st_entries st)\<rparr>
              in Inr (if en_id old \<noteq> [] \<and> en_id old \<noteq> folder then removeFolder (en_id old) st1 else st1))
         | None \<Rightarrow>
             Inr (st\<lparr>st_entries := st_entries st
                @ [\<lparr>en_id = folder, en_key = sk_key sl, en_version = sk_version sl, en_scope = sk_scope sl,
                     en_repo = sk_repo sl, en_parts = actual, en_updated = now, en_used = now\<rparr>]\<rparr>)))"

definition completeUpload :: "store \<Rightarrow> int \<Rightarrow> slot \<Rightarrow> (gerr + string) \<times> store" where
  "completeUpload st now sl =
     (case List.find (\<lambda>u. uploadSlot u = sl) (st_uploads st) of
        None \<Rightarrow> (Inl (Sent SqlErrNoRows ''sql: no rows in result set''), st)
      | Some u \<Rightarrow>
          (case checkParts st u of
             Some e \<Rightarrow> (Inl e, dropUpload (up_id u) st)
           | None \<Rightarrow>
               (let folder = folderName (up_id u)
                in case promote st now sl folder (countParts st folder) of
                     Inl e \<Rightarrow> (Inl e, st)
                   | Inr st1 \<Rightarrow> (Inr folder, dropUpload (up_id u) st1))))"

section \<open>Looking up\<close>

text \<open>\<open>ORDER BY updated_at DESC LIMIT 1\<close>.\<close>

fun newest :: "entry list \<Rightarrow> entry option" where
  "newest [] = None"
| "newest (e # es) =
     (case newest es of None \<Rightarrow> Some e | Some b \<Rightarrow> if en_updated b > en_updated e then Some b else Some e)"

text \<open>
  \<open>LIKE\<close> of SQLite with \<open>ESCAPE '\'\<close>: \<open>%\<close> matches any text, \<open>_\<close> one character, a backslash
  takes the next character literally, and ASCII letters match in either case.
\<close>

fun sqlLike :: "string \<Rightarrow> string \<Rightarrow> bool" where
  "sqlLike [] s = (s = [])"
| "sqlLike (p # ps) s =
     (if p = CHR 0x5C then
        (case ps of
           [] \<Rightarrow> False
         | q # qs \<Rightarrow> (case s of [] \<Rightarrow> False | c # cs \<Rightarrow> lowerChar q = lowerChar c \<and> sqlLike qs cs))
      else if p = CHR 0x25 then (\<exists>k \<in> {0..length s}. sqlLike ps (drop k s))
      else (case s of
              [] \<Rightarrow> False
            | c # cs \<Rightarrow> (p = CHR 0x5F \<or> lowerChar p = lowerChar c) \<and> sqlLike ps cs))"

definition escapeLike :: "string \<Rightarrow> string" where
  "escapeLike v = concat (map (\<lambda>c. if c = CHR 0x5C \<or> c = CHR 0x25 \<or> c = CHR 0x5F then [CHR 0x5C, c] else [c]) v)"

definition queryExact :: "store \<Rightarrow> string \<Rightarrow> string \<Rightarrow> string \<Rightarrow> string \<Rightarrow> entry option" where
  "queryExact st key version sc repo =
     newest (filter (\<lambda>e. en_key e = key \<and> en_version e = version \<and> en_scope e = sc \<and> en_repo e = repo) (st_entries st))"

definition queryPrefix :: "store \<Rightarrow> string \<Rightarrow> string \<Rightarrow> string \<Rightarrow> string \<Rightarrow> entry option" where
  "queryPrefix st key version sc repo =
     newest (filter (\<lambda>e. sqlLike (escapeLike key @ ''%'') (en_key e) \<and> en_version e = version \<and> en_scope e = sc
        \<and> en_repo e = repo) (st_entries st))"

fun firstKey :: "store \<Rightarrow> string list \<Rightarrow> string \<Rightarrow> string \<Rightarrow> string \<Rightarrow> entry option" where
  "firstKey st [] version sc repo = None"
| "firstKey st (k # ks) version sc repo =
     (case queryExact st k version sc repo of
        Some e \<Rightarrow> Some e
      | None \<Rightarrow>
          (case queryPrefix st k version sc repo of
             Some e \<Rightarrow> Some e
           | None \<Rightarrow> firstKey st ks version sc repo))"

fun firstScope :: "store \<Rightarrow> string list \<Rightarrow> string \<Rightarrow> string list \<Rightarrow> string \<Rightarrow> entry option" where
  "firstScope st keys version [] repo = None"
| "firstScope st keys version (sc # scs) repo =
     (case firstKey st keys version sc repo of Some e \<Rightarrow> Some e | None \<Rightarrow> firstScope st keys version scs repo)"

definition touch :: "string \<Rightarrow> int \<Rightarrow> entry \<Rightarrow> entry" where
  "touch i now e = (if en_id e = i then e\<lparr>en_used := now\<rparr> else e)"

definition touchEntry :: "string \<Rightarrow> int \<Rightarrow> store \<Rightarrow> store" where
  "touchEntry i now st = st\<lparr>st_entries := map (touch i now) (st_entries st)\<rparr>"

definition matchEntry :: "store \<Rightarrow> int \<Rightarrow> string list \<Rightarrow> string \<Rightarrow> string list \<Rightarrow> string \<Rightarrow> entry option \<times> store" where
  "matchEntry st now keys version scopes repo =
     (if keys = [] then (None, st)
      else case firstScope st keys version scopes repo of
             None \<Rightarrow> (None, st)
           | Some e \<Rightarrow> (Some e, touchEntry (en_id e) now st))"

section \<open>Downloading\<close>

definition getEntry :: "store \<Rightarrow> string \<Rightarrow> entry option" where
  "getEntry st i = List.find (\<lambda>e. en_id e = i) (st_entries st)"

text \<open>
  \<open>partsReader\<close>: \<open>pr_cur\<close> is what is left of the open part. A read of a file at its end is EOF;
  otherwise it gives at most the size of the buffer.
\<close>

record parts_reader =
  pr_folder :: string
  pr_count :: nat
  pr_idx :: nat
  pr_cur :: "string option"

definition openDownload :: "store \<Rightarrow> string \<Rightarrow> gerr + parts_reader" where
  "openDownload st i =
     (case getEntry st i of
        None \<Rightarrow> Inl (Sent OsErrNotExist ''file does not exist'')
      | Some e \<Rightarrow> Inr \<lparr>pr_folder = i, pr_count = en_parts e, pr_idx = 0, pr_cur = None\<rparr>)"

datatype read_result = ReadBytes string | ReadEOF | ReadErr gerr

function partsRead :: "store \<Rightarrow> nat \<Rightarrow> parts_reader \<Rightarrow> read_result \<times> parts_reader" where
  "partsRead st buf p =
     (case pr_cur p of
        None \<Rightarrow>
          if pr_idx p \<ge> pr_count p then (ReadEOF, p)
          else (case map_of (partsOf st (pr_folder p)) (pr_idx p) of
                  None \<Rightarrow> (ReadErr (Sent OsErrNotExist ''file does not exist''), p)
                | Some data \<Rightarrow>
                    if data = [] then partsRead st buf (p\<lparr>pr_cur := None, pr_idx := pr_idx p + 1\<rparr>)
                    else (ReadBytes (take buf data), p\<lparr>pr_cur := Some (drop buf data)\<rparr>))
      | Some data \<Rightarrow>
          if data = [] then partsRead st buf (p\<lparr>pr_cur := None, pr_idx := pr_idx p + 1\<rparr>)
          else (ReadBytes (take buf data), p\<lparr>pr_cur := Some (drop buf data)\<rparr>))"
  by pat_completeness auto
termination
  by (relation "measures [\<lambda>(st, buf, p). pr_count p - pr_idx p, \<lambda>(st, buf, p). if pr_cur p = None then 0 else 1]") auto

declare partsRead.simps [simp del]

text \<open>\<open>io.Copy\<close>: read until the end or an error.\<close>

fun copyAll :: "nat \<Rightarrow> store \<Rightarrow> nat \<Rightarrow> parts_reader \<Rightarrow> (string \<times> gerr option) option" where
  "copyAll 0 st buf p = None"
| "copyAll (Suc n) st buf p =
     (case partsRead st buf p of
        (ReadEOF, p1) \<Rightarrow> Some ([], None)
      | (ReadErr e, p1) \<Rightarrow> Some ([], Some e)
      | (ReadBytes b, p1) \<Rightarrow>
          (case copyAll n st buf p1 of None \<Rightarrow> None | Some (rest, e) \<Rightarrow> Some (b @ rest, e)))"

section \<open>Eviction\<close>

definition folderBytes :: "(nat \<times> string) list \<Rightarrow> int" where
  "folderBytes ps = (\<Sum>(i, d) \<leftarrow> ps. int (length d))"

definition folderSize :: "store \<Rightarrow> string \<Rightarrow> int" where
  "folderSize st f = folderBytes (partsOf st f)"

definition totalBlobSize :: "store \<Rightarrow> int" where
  "totalBlobSize st = (\<Sum>(f, ps) \<leftarrow> st_blobs st. folderBytes ps)"

definition deleteEntry :: "string \<Rightarrow> store \<Rightarrow> store" where
  "deleteEntry i st = removeFolder i (st\<lparr>st_entries := filter (\<lambda>e. en_id e \<noteq> i) (st_entries st)\<rparr>)"

fun evictUntil :: "int \<Rightarrow> string list \<Rightarrow> int \<Rightarrow> store \<Rightarrow> nat \<times> store" where
  "evictUntil maxBytes [] tot st = (0, st)"
| "evictUntil maxBytes (i # is) tot st =
     (if tot \<le> maxBytes then (0, st)
      else (let (n, st1) = evictUntil maxBytes is (tot - folderSize st i) (deleteEntry i st) in (Suc n, st1)))"

definition evictAge :: "store \<Rightarrow> int \<Rightarrow> nat \<times> store" where
  "evictAge st olderThan =
     (if olderThan > 0
      then (let ids = map en_id (filter (\<lambda>e. en_used e < olderThan) (st_entries st))
            in (length ids, fold deleteEntry ids st))
      else (0, st))"

definition evict :: "store \<Rightarrow> int \<Rightarrow> int \<Rightarrow> nat \<times> store" where
  "evict st olderThan maxBytes =
     (let (n, st1) = evictAge st olderThan
      in if maxBytes > 0 \<and> totalBlobSize st1 > maxBytes
         then (let (k, st2) = evictUntil maxBytes (map en_id (sort_key en_used (st_entries st1))) (totalBlobSize st1) st1
               in (n + k, st2))
         else (n, st1))"

section \<open>Lookup\<close>

lemma sqlLike_percent [simp]: "sqlLike [CHR 0x25] s"
  by (simp add: bexI[of _ "length s"])

text \<open>The escaped key followed by a wildcard is a prefix test that ignores ASCII case.\<close>

lemma like_escaped_prefix:
  "sqlLike (escapeLike k @ [CHR 0x25]) t \<longleftrightarrow> prefix (toLower k) (toLower t)"
proof (induction k arbitrary: t)
  case Nil
  show ?case by (simp add: escapeLike_def del: sqlLike.simps)
next
  case (Cons c k)
  have e: "escapeLike (c # k) = (if c = CHR 0x5C \<or> c = CHR 0x25 \<or> c = CHR 0x5F then [CHR 0x5C, c] else [c]) @ escapeLike k"
    by (simp add: escapeLike_def)
  show ?case
    by (cases t) (auto simp: e Cons.IH toLower_def)
qed

lemma newest_None [simp]: "newest es = None \<longleftrightarrow> es = []"
  by (cases es) (auto split: option.splits)

lemma newest_Some:
  "newest es = Some e \<Longrightarrow> e \<in> set es \<and> (\<forall>x \<in> set es. en_updated x \<le> en_updated e)"
  by (induction es arbitrary: e) (fastforce split: option.splits if_splits)+

lemmas query_defs = queryExact_def queryPrefix_def

lemma queryExact_None:
  "queryExact st k v sc r = None \<longleftrightarrow>
     (\<forall>e \<in> set (st_entries st). \<not> (en_key e = k \<and> en_version e = v \<and> en_scope e = sc \<and> en_repo e = r))"
  by (auto simp: queryExact_def filter_empty_conv)

lemma queryPrefix_None:
  "queryPrefix st k v sc r = None \<longleftrightarrow>
     (\<forall>e \<in> set (st_entries st). \<not> (prefix (toLower k) (toLower (en_key e)) \<and> en_version e = v \<and> en_scope e = sc \<and> en_repo e = r))"
  by (auto simp: queryPrefix_def filter_empty_conv like_escaped_prefix)

definition keyServes :: "string \<Rightarrow> entry \<Rightarrow> bool" where
  "keyServes k e \<longleftrightarrow> prefix (toLower k) (toLower (en_key e))"

lemma queryExact_Some:
  "queryExact st k v sc r = Some e \<Longrightarrow>
     e \<in> set (st_entries st) \<and> en_key e = k \<and> en_version e = v \<and> en_scope e = sc \<and> en_repo e = r"
  by (auto simp: queryExact_def dest!: newest_Some)

lemma queryPrefix_Some:
  "queryPrefix st k v sc r = Some e \<Longrightarrow>
     e \<in> set (st_entries st) \<and> keyServes k e \<and> en_version e = v \<and> en_scope e = sc \<and> en_repo e = r
     \<and> (\<forall>x \<in> set (st_entries st). keyServes k x \<and> en_version x = v \<and> en_scope x = sc \<and> en_repo x = r
          \<longrightarrow> en_updated x \<le> en_updated e)"
  by (auto simp: queryPrefix_def like_escaped_prefix keyServes_def dest!: newest_Some)

lemma keyServes_exact [simp]: "en_key e = k \<Longrightarrow> keyServes k e"
  by (simp add: keyServes_def)

lemma firstKey_Some:
  "firstKey st ks v sc r = Some e \<Longrightarrow>
     e \<in> set (st_entries st) \<and> en_version e = v \<and> en_scope e = sc \<and> en_repo e = r
     \<and> (\<exists>pre k post. ks = pre @ k # post \<and> keyServes k e
          \<and> (\<forall>k' \<in> set pre. \<forall>x \<in> set (st_entries st).
               en_version x = v \<and> en_scope x = sc \<and> en_repo x = r \<longrightarrow> \<not> keyServes k' x)
          \<and> (en_key e = k \<or> queryExact st k v sc r = None))"
proof (induction ks)
  case (Cons k ks)
  show ?case
  proof (cases "queryExact st k v sc r")
    case (Some x)
    then show ?thesis using Cons.prems queryExact_Some[OF Some]
      by (intro conjI exI[of _ "[]"] exI[of _ k] exI[of _ ks]) auto
  next
    case None
    show ?thesis
    proof (cases "queryPrefix st k v sc r")
      case (Some x)
      then show ?thesis using Cons.prems None queryPrefix_Some[OF Some]
        by (intro conjI exI[of _ "[]"] exI[of _ k] exI[of _ ks]) auto
    next
      case prefixNone: None
      then have "firstKey st ks v sc r = Some e" using Cons.prems None by simp
      from Cons.IH[OF this] obtain pre k' post where
        base: "e \<in> set (st_entries st)" "en_version e = v" "en_scope e = sc" "en_repo e = r"
        and ks: "ks = pre @ k' # post" "keyServes k' e"
        and pre: "\<forall>q \<in> set pre. \<forall>x \<in> set (st_entries st).
               en_version x = v \<and> en_scope x = sc \<and> en_repo x = r \<longrightarrow> \<not> keyServes q x"
        and last: "en_key e = k' \<or> queryExact st k' v sc r = None"
        by blast
      have "\<forall>q \<in> set (k # pre). \<forall>x \<in> set (st_entries st).
               en_version x = v \<and> en_scope x = sc \<and> en_repo x = r \<longrightarrow> \<not> keyServes q x"
        using pre prefixNone by (auto simp: queryPrefix_None keyServes_def)
      then show ?thesis using base ks last
        by (intro conjI exI[of _ "k # pre"] exI[of _ k'] exI[of _ post]) auto
    qed
  qed
qed simp

lemma firstKey_None:
  "firstKey st ks v sc r = None \<longleftrightarrow>
     (\<forall>k \<in> set ks. \<forall>x \<in> set (st_entries st). en_version x = v \<and> en_scope x = sc \<and> en_repo x = r \<longrightarrow> \<not> keyServes k x)"
proof (induction ks)
  case (Cons k ks)
  have "queryExact st k v sc r \<noteq> None \<Longrightarrow> queryPrefix st k v sc r \<noteq> None"
    unfolding queryExact_None queryPrefix_None by fastforce
  then have "firstKey st (k # ks) v sc r = None \<longleftrightarrow> queryPrefix st k v sc r = None \<and> firstKey st ks v sc r = None"
    by (auto split: option.splits)
  then show ?case using Cons.IH unfolding queryPrefix_None keyServes_def by auto
qed simp

lemma firstScope_Some:
  "firstScope st ks v scs r = Some e \<Longrightarrow>
     \<exists>pre sc post. scs = pre @ sc # post \<and> firstKey st ks v sc r = Some e
       \<and> (\<forall>s \<in> set pre. firstKey st ks v s r = None)"
proof (induction scs)
  case (Cons sc scs)
  show ?case
  proof (cases "firstKey st ks v sc r")
    case (Some x)
    then show ?thesis using Cons.prems by (intro exI[of _ "[]"] exI[of _ sc] exI[of _ scs]) auto
  next
    case None
    then obtain pre s post where "scs = pre @ s # post" "firstKey st ks v s r = Some e"
      "\<forall>s \<in> set pre. firstKey st ks v s r = None" using Cons by auto
    then show ?thesis using None by (intro exI[of _ "sc # pre"] exI[of _ s] exI[of _ post]) auto
  qed
qed simp

lemma firstScope_None:
  "firstScope st ks v scs r = None \<longleftrightarrow> (\<forall>s \<in> set scs. firstKey st ks v s r = None)"
  by (induction scs) (auto split: option.splits)

text \<open>
  a lookup that hits returns an entry of exactly the requested version and repository, in one
  of the token's scopes, whose key extends one of the requested keys (ASCII case ignored); no
  earlier scope has any candidate, and in its scope no earlier key has one. A lookup misses only
  when no entry of the version and repository in any of the scopes extends any of the keys. The
  hit is marked as used now and nothing else of the store changes.
\<close>

theorem match_isolated:
  assumes "matchEntry st now keys v scopes r = (res, st')"
  shows "case res of
      Some e \<Rightarrow>
        e \<in> set (st_entries st) \<and> en_version e = v \<and> en_repo e = r
        \<and> (\<exists>pre post. scopes = pre @ en_scope e # post
            \<and> (\<forall>k \<in> set keys. \<forall>x \<in> set (st_entries st).
                 en_version x = v \<and> en_scope x \<in> set pre \<and> en_repo x = r \<longrightarrow> \<not> keyServes k x))
        \<and> (\<exists>pre k post. keys = pre @ k # post \<and> keyServes k e
            \<and> (\<forall>k' \<in> set pre. \<forall>x \<in> set (st_entries st).
                 en_version x = v \<and> en_scope x = en_scope e \<and> en_repo x = r \<longrightarrow> \<not> keyServes k' x))
        \<and> st' = touchEntry (en_id e) now st
    | None \<Rightarrow>
        st' = st \<and> (\<forall>k \<in> set keys. \<forall>x \<in> set (st_entries st).
          en_version x = v \<and> en_scope x \<in> set scopes \<and> en_repo x = r \<longrightarrow> \<not> keyServes k x)"
proof (cases "firstScope st keys v scopes r")
  case None
  then have "res = None" "st' = st" using assms by (auto simp: matchEntry_def split: if_splits)
  moreover have "\<forall>s \<in> set scopes. firstKey st keys v s r = None" using None by (simp add: firstScope_None)
  ultimately show ?thesis by (auto simp: firstKey_None)
next
  case (Some e)
  have "keys \<noteq> []"
  proof
    assume "keys = []"
    then have "firstScope st keys v scopes r = None" by (simp add: firstScope_None)
    with Some show False by simp
  qed
  then have res: "res = Some e" "st' = touchEntry (en_id e) now st"
    using assms Some by (auto simp: matchEntry_def)
  obtain pre sc post where sc: "scopes = pre @ sc # post" "firstKey st keys v sc r = Some e"
    "\<forall>s \<in> set pre. firstKey st keys v s r = None" using firstScope_Some[OF Some] by blast
  note k = firstKey_Some[OF sc(2)]
  have "\<exists>pre post. scopes = pre @ en_scope e # post
      \<and> (\<forall>k \<in> set keys. \<forall>x \<in> set (st_entries st).
           en_version x = v \<and> en_scope x \<in> set pre \<and> en_repo x = r \<longrightarrow> \<not> keyServes k x)"
    using sc k by (intro exI[of _ pre] exI[of _ post]) (auto simp: firstKey_None)
  then show ?thesis using res k by auto
qed

definition sampleStore :: store where
  "sampleStore = \<lparr>st_uploads = [],
     st_entries = [\<lparr>en_id = ''7'', en_key = ''npm-abc'', en_version = ''v1'', en_scope = ''refs/heads/main'',
                     en_repo = ''42'', en_parts = 1, en_updated = 5, en_used = 5\<rparr>],
     st_blobs = [(''7'', [(0, ''data'')])]\<rparr>"

theorem match_isolated_witness:
  "\<exists>e st'. matchEntry sampleStore 9 [''npm-xyz'', ''npm-''] ''v1'' [''refs/heads/x'', ''refs/heads/main''] ''42'' = (Some e, st')
     \<and> en_version e = ''v1'' \<and> en_repo e = ''42'' \<and> st' = touchEntry (en_id e) 9 sampleStore"
proof -
  obtain res st' where m: "matchEntry sampleStore 9 [''npm-xyz'', ''npm-''] ''v1'' [''refs/heads/x'', ''refs/heads/main''] ''42'' = (res, st')"
    by (rule prod.exhaust)
  have "\<not> (\<forall>k \<in> set [''npm-xyz'', ''npm-'']. \<forall>x \<in> set (st_entries sampleStore).
      en_version x = ''v1'' \<and> en_scope x \<in> set [''refs/heads/x'', ''refs/heads/main''] \<and> en_repo x = ''42'' \<longrightarrow> \<not> keyServes k x)"
    by (simp add: sampleStore_def keyServes_def toLower_def)
  with match_isolated[OF m] obtain e where e: "res = Some e" by (cases res) (simp_all only: option.case, blast)
  show ?thesis using match_isolated[OF m] m by (simp only: e option.case) blast
qed

section \<open>Reading an entry back\<close>

definition partBytes :: "store \<Rightarrow> string \<Rightarrow> nat list \<Rightarrow> string" where
  "partBytes st f is = concat (map (\<lambda>i. case map_of (partsOf st f) i of None \<Rightarrow> [] | Some d \<Rightarrow> d) is)"

definition unread :: "store \<Rightarrow> parts_reader \<Rightarrow> string" where
  "unread st p =
     (case pr_cur p of
        None \<Rightarrow> partBytes st (pr_folder p) [pr_idx p..<pr_count p]
      | Some d \<Rightarrow> d @ partBytes st (pr_folder p) [Suc (pr_idx p)..<pr_count p])"

definition readable :: "store \<Rightarrow> parts_reader \<Rightarrow> bool" where
  "readable st p \<longleftrightarrow> (\<forall>i < pr_count p. map_of (partsOf st (pr_folder p)) i \<noteq> None)"

lemma partBytes_Nil [simp]: "partBytes st f [] = []"
  by (simp add: partBytes_def)

lemma partBytes_upt:
  "i < n \<Longrightarrow> map_of (partsOf st f) i = Some d \<Longrightarrow> partBytes st f [i..<n] = d @ partBytes st f [Suc i..<n]"
  by (simp add: partBytes_def upt_conv_Cons)

lemma unread_next: "unread st (p\<lparr>pr_cur := None, pr_idx := pr_idx p + 1\<rparr>) = partBytes st (pr_folder p) [Suc (pr_idx p)..<pr_count p]"
  by (simp add: unread_def)

text \<open>One \<open>Read\<close>: the end only when nothing is left, otherwise a non-empty next piece.\<close>

lemma partsRead_spec:
  assumes "0 < buf" "readable st p"
  shows "case partsRead st buf p of
      (ReadEOF, q) \<Rightarrow> unread st p = []
    | (ReadErr e, q) \<Rightarrow> False
    | (ReadBytes b, q) \<Rightarrow> b \<noteq> [] \<and> unread st p = b @ unread st q \<and> readable st q"
  using assms
proof (induction st buf p rule: partsRead.induct)
  case (1 st buf p)
  let ?q = "p\<lparr>pr_cur := None, pr_idx := pr_idx p + 1\<rparr>"
  have rq: "readable st ?q" using "1.prems" by (simp add: readable_def)
  show ?case
  proof (cases "pr_cur p")
    case (Some d)
    show ?thesis
    proof (cases "d = []")
      case True
      have u: "unread st p = unread st ?q" using Some True by (simp add: unread_def)
      have "partsRead st buf p = partsRead st buf ?q"
        using Some True by (subst partsRead.simps) simp
      then show ?thesis using "1.IH"(2)[OF Some True "1.prems"(1) rq] by (simp only: u)
    next
      case False
      then show ?thesis using Some "1.prems"
        by (subst partsRead.simps) (simp add: unread_def readable_def)
    qed
  next
    case None
    show ?thesis
    proof (cases "pr_idx p \<ge> pr_count p")
      case True
      then show ?thesis using None by (subst partsRead.simps) (simp add: unread_def)
    next
      case False
      then have "map_of (partsOf st (pr_folder p)) (pr_idx p) \<noteq> None"
        using "1.prems"(2) unfolding readable_def by simp
      then obtain d where d: "map_of (partsOf st (pr_folder p)) (pr_idx p) = Some d" by blast
      have u: "unread st p = d @ unread st ?q"
        using None False d by (simp add: unread_next) (simp add: unread_def partBytes_upt)
      show ?thesis
      proof (cases "d = []")
        case True
        have "partsRead st buf p = partsRead st buf ?q"
          using None False d True by (subst partsRead.simps) simp
        moreover have "unread st p = unread st ?q" using u True by simp
        ultimately show ?thesis using "1.IH"(1)[OF None False d True "1.prems"(1) rq] by (simp only:)
      next
        case dd: False
        have "unread st (p\<lparr>pr_cur := Some (drop buf d)\<rparr>) = drop buf d @ unread st ?q"
          by (simp add: unread_def)
        then show ?thesis using None False d dd u "1.prems"
          by (subst partsRead.simps) (simp add: readable_def)
      qed
    qed
  qed
qed

text \<open>\<open>io.Copy\<close> ends: more rounds than bytes are enough.\<close>

lemma copyAll_complete:
  "0 < buf \<Longrightarrow> readable st p \<Longrightarrow> length (unread st p) < fuel \<Longrightarrow>
     copyAll fuel st buf p = Some (unread st p, None)"
proof (induction fuel arbitrary: p)
  case (Suc n)
  note r = partsRead_spec[OF Suc.prems(1,2)]
  show ?case
  proof (cases "partsRead st buf p")
    case (Pair res q)
    show ?thesis
    proof (cases res)
      case (ReadBytes b)
      then have b: "b \<noteq> []" "unread st p = b @ unread st q" "readable st q" using r Pair by simp_all
      then have "length (unread st q) < n" using Suc.prems(3) by (cases b) auto
      then show ?thesis using Suc.IH[OF Suc.prems(1) b(3)] Pair ReadBytes b by simp
    qed (use r Pair in simp_all)
  qed
qed simp

end
