(* ===== verification/Cache_Lifecycle.thy ===== *)
theory Cache_Lifecycle
  imports Cache_Store
begin

text \<open>
  The life of a cache entry: the invariant every operation of the store keeps, the round trip from
  the blocks of an upload to the bytes of a download, and what eviction removes. The operations
  are taken one after the other; the server runs them from concurrent requests, each statement of
  which the single database connection serialises.
\<close>

section \<open>The invariant\<close>

definition entryReadable :: "store \<Rightarrow> entry \<Rightarrow> bool" where
  "entryReadable st e \<longleftrightarrow> 0 < en_parts e \<and> (\<forall>i < en_parts e. map_of (partsOf st (en_id e)) i \<noteq> None)"

definition storeOk :: "store \<Rightarrow> bool" where
  "storeOk st \<longleftrightarrow>
     distinct (map up_id (st_uploads st)) \<and> distinct (map uploadSlot (st_uploads st))
     \<and> distinct (map en_id (st_entries st)) \<and> distinct (map entrySlot (st_entries st))
     \<and> (\<forall>u \<in> set (st_uploads st). folderName (up_id u) \<notin> en_id ` set (st_entries st))
     \<and> (\<forall>e \<in> set (st_entries st). entryReadable st e)"

lemma formatInt_inj [simp]: "formatInt a = formatInt b \<longleftrightarrow> a = b"
proof
  assume eq: "formatInt a = formatInt b"
  have minus: "natDigits n \<noteq> CHR ''-'' # cs" for n cs
    using natDigits_Cons_isDigit[of n "CHR ''-''" cs] by auto
  show "a = b"
    using eq minus minus[symmetric] by (auto simp: formatInt_def split: if_splits)
qed simp

lemma folderName_inj [simp]: "folderName a = folderName b \<longleftrightarrow> a = b"
  by (simp add: folderName_def)

lemma partsOf_partWrite [simp]:
  "partsOf (partWrite i idx d st) f = (if f = folderName i then AList.update idx d (partsOf st f) else partsOf st f)"
  by (simp add: partWrite_def partsOf_def)

lemma partsOf_removeFolder [simp]:
  "partsOf (removeFolder g st) f = (if f = g then [] else partsOf st f)"
  by (simp add: removeFolder_def partsOf_def)

lemma partsOf_tables [simp]:
  "partsOf (st\<lparr>st_uploads := us\<rparr>) f = partsOf st f" "partsOf (st\<lparr>st_entries := es\<rparr>) f = partsOf st f"
  "partsOf (mapUpload i g st) f = partsOf st f" "partsOf (dropUpload i st) f = partsOf st f"
  by (simp_all add: partsOf_def mapUpload_def dropUpload_def)

lemma storeOk_apart:
  "storeOk st \<Longrightarrow> u \<in> set (st_uploads st) \<Longrightarrow> e \<in> set (st_entries st) \<Longrightarrow> en_id e \<noteq> folderName (up_id u)"
  unfolding storeOk_def by (metis imageI)

lemma sel_mapUpload [simp]:
  "st_entries (mapUpload i f st) = st_entries st" "st_blobs (mapUpload i f st) = st_blobs st"
  "st_uploads (mapUpload i f st) = map (\<lambda>u. if up_id u = i then f u else u) (st_uploads st)"
  by (simp_all add: mapUpload_def)

lemma sel_partWrite [simp]:
  "st_entries (partWrite i idx d st) = st_entries st" "st_uploads (partWrite i idx d st) = st_uploads st"
  by (simp_all add: partWrite_def)

lemma sel_removeFolder [simp]:
  "st_entries (removeFolder f st) = st_entries st" "st_uploads (removeFolder f st) = st_uploads st"
  by (simp_all add: removeFolder_def)

lemma sel_dropUpload [simp]:
  "st_entries (dropUpload i st) = st_entries st" "st_blobs (dropUpload i st) = st_blobs st"
  "st_uploads (dropUpload i st) = filter (\<lambda>u. up_id u \<noteq> i) (st_uploads st)"
  by (simp_all add: dropUpload_def)

lemma sel_deleteEntry [simp]:
  "st_entries (deleteEntry i st) = filter (\<lambda>e. en_id e \<noteq> i) (st_entries st)"
  "st_uploads (deleteEntry i st) = st_uploads st"
  "partsOf (deleteEntry i st) f = (if f = i then [] else partsOf st f)"
  by (simp_all add: deleteEntry_def)

text \<open>Counting parts changes neither the identifiers nor the slots of the uploads.\<close>

lemma map_up_id_mapUpload:
  "(\<And>u. up_id (f u) = up_id u) \<Longrightarrow> map up_id (st_uploads (mapUpload i f st)) = map up_id (st_uploads st)"
  by simp

lemma map_slot_mapUpload:
  "(\<And>u. uploadSlot (f u) = uploadSlot u) \<Longrightarrow> map uploadSlot (st_uploads (mapUpload i f st)) = map uploadSlot (st_uploads st)"
  by simp

lemma mapUpload_ok:
  assumes "storeOk st" "\<And>u. up_id (f u) = up_id u" "\<And>u. uploadSlot (f u) = uploadSlot u"
  shows "storeOk (mapUpload i f st)"
proof -
  have "map up_id (st_uploads (mapUpload i f st)) = map up_id (st_uploads st)"
    "map uploadSlot (st_uploads (mapUpload i f st)) = map uploadSlot (st_uploads st)"
    using assms(2,3) by simp_all
  moreover have "\<forall>u \<in> set (st_uploads (mapUpload i f st)). folderName (up_id u) \<notin> en_id ` set (st_entries st)"
    using assms(1,2) by (auto simp: storeOk_def)
  ultimately show ?thesis
    using assms(1) unfolding storeOk_def entryReadable_def by (simp only: sel_mapUpload partsOf_tables) blast
qed

lemma uploadSlot_counts [simp]:
  "uploadSlot (u\<lparr>up_started := n\<rparr>) = uploadSlot u" "uploadSlot (u\<lparr>up_finished := n\<rparr>) = uploadSlot u"
  by (simp_all add: uploadSlot_def)

lemma partWrite_ok:
  assumes "storeOk st" "i \<in> up_id ` set (st_uploads st)"
  shows "storeOk (partWrite i idx d st)"
proof -
  have "\<forall>e \<in> set (st_entries st). en_id e \<noteq> folderName i" using assms storeOk_apart by blast
  then show ?thesis using assms(1) by (simp add: storeOk_def entryReadable_def)
qed

lemma uploadPart_ok:
  assumes "storeOk st"
  shows "storeOk (snd (uploadPart st i idx b))"
proof (cases "list_ex (\<lambda>u. up_id u = i) (st_uploads st)")
  case True
  have b: "storeOk (partBegin i st)" unfolding partBegin_def by (rule mapUpload_ok[OF assms]) simp_all
  have "i \<in> up_id ` set (st_uploads (partBegin i st))"
  proof -
    have "set (map up_id (st_uploads (partBegin i st))) = set (map up_id (st_uploads st))"
      unfolding partBegin_def by (subst map_up_id_mapUpload) simp_all
    then show ?thesis using True by (auto simp: list_ex_iff)
  qed
  from partWrite_ok[OF b this] have w: "storeOk (partWrite i idx d (partBegin i st))" for d .
  have "storeOk (partFinish i (partWrite i idx d (partBegin i st)))" for d
    unfolding partFinish_def by (rule mapUpload_ok[OF w]) simp_all
  with w True show ?thesis by (simp add: uploadPart_def Let_def split: option.splits)
qed (simp add: uploadPart_def assms)

text \<open>An identifier is fresh when no upload, entry or folder carries it.\<close>

definition freshId :: "store \<Rightarrow> int \<Rightarrow> bool" where
  "freshId st i \<longleftrightarrow> i \<notin> up_id ` set (st_uploads st) \<and> folderName i \<notin> en_id ` set (st_entries st)
     \<and> folderName i \<notin> fst ` set (st_blobs st)"

lemma createUpload_ok:
  assumes "storeOk st" "case rid of Inl e \<Rightarrow> True | Inr i \<Rightarrow> freshId st i"
  shows "storeOk (snd (createUpload st rid sl))"
  using assms
  by (auto simp: storeOk_def createUpload_def freshId_def entryReadable_def list_ex_iff uploadSlot_def
      split: sum.splits)

lemma dropUpload_ok: "storeOk st \<Longrightarrow> storeOk (dropUpload i st)"
  by (auto simp: storeOk_def entryReadable_def distinct_map_filter)

lemma checkParts_None:
  assumes "checkParts st u = None"
  shows "0 < countParts st (folderName (up_id u)) \<and> up_finished u = countParts st (folderName (up_id u))
    \<and> (\<forall>i < countParts st (folderName (up_id u)). map_of (partsOf st (folderName (up_id u))) i \<noteq> None)"
  using assms
  by (auto simp: checkParts_def requireContiguousParts_def Let_def find_None_iff split: if_splits option.splits)

lemma find_Some_mem: "List.find P xs = Some x \<Longrightarrow> x \<in> set xs \<and> P x"
  by (auto simp: find_Some_iff)

text \<open>The row of a slot is replaced or added: the slots stay distinct and only it changes.\<close>

definition promoted :: "store \<Rightarrow> int \<Rightarrow> slot \<Rightarrow> string \<Rightarrow> nat \<Rightarrow> store \<Rightarrow> bool" where
  "promoted st now sl folder n st1 \<longleftrightarrow>
     st_uploads st1 = st_uploads st \<and> partsOf st1 folder = partsOf st folder
     \<and> (\<exists>e \<in> set (st_entries st1). entrySlot e = sl \<and> en_id e = folder \<and> en_parts e = n \<and> en_updated e = now)
     \<and> (\<forall>e \<in> set (st_entries st1). entrySlot e = sl \<longrightarrow> en_id e = folder \<and> en_parts e = n)
     \<and> (\<forall>e \<in> set (st_entries st1). entrySlot e \<noteq> sl \<longrightarrow>
          e \<in> set (st_entries st) \<and> partsOf st1 (en_id e) = partsOf st (en_id e))
     \<and> distinct (map entrySlot (st_entries st1)) \<and> distinct (map en_id (st_entries st1))"

lemma entrySlot_row [simp]:
  "entrySlot \<lparr>en_id = f, en_key = sk_key sl, en_version = sk_version sl, en_scope = sk_scope sl,
     en_repo = sk_repo sl, en_parts = n, en_updated = t, en_used = t'\<rparr> = sl"
  by (simp add: entrySlot_def)

lemma repoint_sel [simp]:
  "entrySlot (repoint sl f n t e) = entrySlot e"
  "en_id (repoint sl f n t e) = (if entrySlot e = sl then f else en_id e)"
  "en_parts (repoint sl f n t e) = (if entrySlot e = sl then n else en_parts e)"
  "en_updated (repoint sl f n t e) = (if entrySlot e = sl then t else en_updated e)"
  by (simp_all add: repoint_def entrySlot_def)

lemma repoint_other [simp]: "entrySlot e \<noteq> sl \<Longrightarrow> repoint sl f n t e = e"
  by (simp add: repoint_def)

lemma map_entrySlot_repoint [simp]: "entrySlot \<circ> repoint sl f n t = entrySlot"
  by (rule ext) simp

lemma distinct_replace_id:
  assumes "distinct (map entrySlot es)" "distinct (map en_id es)" "f \<notin> en_id ` set es"
  shows "distinct (map en_id (map (repoint sl f n t) es))"
  using assms
proof (induction es)
  case (Cons e es)
  have *: "entrySlot e = sl \<Longrightarrow> x \<in> set es \<Longrightarrow> entrySlot x \<noteq> sl" for x
    using Cons.prems(1) by (metis distinct.simps(2) image_eqI list.set_map list.simps(9))
  have "distinct (map en_id (map (repoint sl f n t) es))" using Cons by auto
  moreover have "\<forall>x \<in> set es. f \<noteq> en_id x \<and> en_id e \<noteq> en_id x" using Cons.prems(2,3) by auto
  moreover have "en_id e \<noteq> f" using Cons.prems(3) by auto
  ultimately show ?case using * by (auto split: if_splits)
qed simp

lemma promotedI:
  assumes "distinct (map entrySlot es)" "distinct (map en_id es)"
    "\<exists>e \<in> set es. entrySlot e = sl \<and> en_id e = folder \<and> en_parts e = n \<and> en_updated e = now"
    "\<forall>e \<in> set es. entrySlot e = sl \<longrightarrow> en_id e = folder \<and> en_parts e = n"
    "\<forall>e \<in> set es. entrySlot e \<noteq> sl \<longrightarrow> e \<in> set (st_entries st) \<and> en_id e \<noteq> old"
    "old \<noteq> folder"
  shows "promoted st now sl folder n (removeFolder old (st\<lparr>st_entries := es\<rparr>))"
    and "promoted st now sl folder n (st\<lparr>st_entries := es\<rparr>)"
  using assms by (simp_all add: promoted_def)

lemma promote_spec:
  assumes "distinct (map entrySlot (st_entries st))" "distinct (map en_id (st_entries st))"
    "folder \<notin> en_id ` set (st_entries st)"
  shows "\<exists>st1. promote st now sl folder n = Inr st1 \<and> promoted st now sl folder n st1"
proof -
  have "\<not> list_ex (\<lambda>e. en_id e = folder \<and> entrySlot e \<noteq> sl) (st_entries st)"
    using assms(3) by (auto simp: list_ex_iff)
  moreover have "length (filter (\<lambda>e. entrySlot e = sl) (st_entries st)) \<le> 1"
  proof -
    have "distinct (map entrySlot (filter (\<lambda>e. entrySlot e = sl) (st_entries st)))"
      using assms(1) by (rule distinct_map_filter)
    moreover have "set (map entrySlot (filter (\<lambda>e. entrySlot e = sl) (st_entries st))) \<subseteq> {sl}" by auto
    ultimately show ?thesis
      by (metis card_mono card.empty card_insert_disjoint distinct_card empty_iff finite.emptyI finite.insertI length_map One_nat_def)
  qed
  ultimately have unique: "\<not> (list_ex (\<lambda>e. en_id e = folder \<and> entrySlot e \<noteq> sl) (st_entries st)
      \<or> length (filter (\<lambda>e. entrySlot e = sl) (st_entries st)) > 1)" by simp
  show ?thesis
  proof (cases "List.find (\<lambda>e. entrySlot e = sl) (st_entries st)")
    case None
    then have "sl \<notin> entrySlot ` set (st_entries st)" by (auto simp: find_None_iff)
    then show ?thesis using unique None assms
      by (auto simp: promote_def promoted_def)
  next
    case (Some old)
    then have old: "old \<in> set (st_entries st)" "entrySlot old = sl" using find_Some_mem[OF Some] by auto
    let ?es = "map (repoint sl folder n now) (st_entries st)"
    let ?st = "st\<lparr>st_entries := ?es\<rparr>"
    have others: "en_id e \<noteq> en_id old" if "e \<in> set (st_entries st)" "entrySlot e \<noteq> sl" for e
      using assms(2) that old by (metis distinct_map inj_onD)
    have p: "promote st now sl folder n = Inr (if en_id old \<noteq> [] \<and> en_id old \<noteq> folder then removeFolder (en_id old) ?st else ?st)"
      using unique Some by (simp only: promote_def if_False option.case Let_def)
    have "distinct (map entrySlot ?es)" using assms(1) by simp
    moreover have "distinct (map en_id ?es)" using assms by (rule distinct_replace_id)
    moreover have "\<exists>e \<in> set ?es. entrySlot e = sl \<and> en_id e = folder \<and> en_parts e = n \<and> en_updated e = now"
      using old by (simp add: bexI[of _ old])
    moreover have "\<forall>e \<in> set ?es. entrySlot e = sl \<longrightarrow> en_id e = folder \<and> en_parts e = n" by auto
    moreover have "\<forall>e \<in> set ?es. entrySlot e \<noteq> sl \<longrightarrow> e \<in> set (st_entries st) \<and> en_id e \<noteq> en_id old"
      using others by (auto split: if_splits)
    moreover have "en_id old \<noteq> folder" using assms(3) old by auto
    ultimately have "promoted st now sl folder n (removeFolder (en_id old) ?st)" "promoted st now sl folder n ?st"
      by (rule promotedI)+
    then show ?thesis using p by auto
  qed
qed

lemma promoted_ok:
  assumes ok: "storeOk st" and u: "u \<in> set (st_uploads st)" and chk: "checkParts st u = None"
    and p: "promoted st now sl (folderName (up_id u)) (countParts st (folderName (up_id u))) st1"
  shows "storeOk (dropUpload (up_id u) st1)"
proof -
  let ?f = "folderName (up_id u)"
  note p' = p[unfolded promoted_def]
  have "entryReadable (dropUpload (up_id u) st1) e" if "e \<in> set (st_entries st1)" for e
  proof (cases "entrySlot e = sl")
    case True
    then have "en_id e = ?f" "en_parts e = countParts st ?f" using p' that by blast+
    then show ?thesis using checkParts_None[OF chk] p' by (simp add: entryReadable_def)
  next
    case False
    then have "e \<in> set (st_entries st)" "partsOf st1 (en_id e) = partsOf st (en_id e)" using p' that by blast+
    then show ?thesis using ok by (simp add: storeOk_def entryReadable_def)
  qed
  moreover have "folderName (up_id w) \<noteq> en_id e"
    if "w \<in> set (st_uploads st)" "up_id w \<noteq> up_id u" "e \<in> set (st_entries st1)" for w e
  proof (cases "entrySlot e = sl")
    case True
    then have "en_id e = ?f" using p' that by blast
    then show ?thesis using that by simp
  next
    case False
    then have "e \<in> set (st_entries st)" using p' that by blast
    then show ?thesis using storeOk_apart[OF ok] that by metis
  qed
  moreover have "st_uploads st1 = st_uploads st" "distinct (map entrySlot (st_entries st1))"
    "distinct (map en_id (st_entries st1))" using p' by blast+
  ultimately show ?thesis using ok by (auto simp: storeOk_def distinct_map_filter)
qed

lemma completeUpload_cases:
  assumes ok: "storeOk st" and "completeUpload st now sl = (res, st')"
  shows "(\<exists>u st1. u \<in> set (st_uploads st) \<and> uploadSlot u = sl \<and> checkParts st u = None \<and> res = Inr (folderName (up_id u))
        \<and> st' = dropUpload (up_id u) st1
        \<and> promoted st now sl (folderName (up_id u)) (countParts st (folderName (up_id u))) st1)
    \<or> (\<exists>u e. u \<in> set (st_uploads st) \<and> uploadSlot u = sl \<and> checkParts st u = Some e \<and> res = Inl e
        \<and> st' = dropUpload (up_id u) st)
    \<or> (sl \<notin> uploadSlot ` set (st_uploads st) \<and> st' = st \<and> (\<exists>m. res = Inl (Sent SqlErrNoRows m)))"
proof (cases "List.find (\<lambda>u. uploadSlot u = sl) (st_uploads st)")
  case None
  then have "sl \<notin> uploadSlot ` set (st_uploads st)" by (auto simp: find_None_iff)
  then show ?thesis using assms(2) by (auto simp: completeUpload_def None)
next
  case (Some u)
  then have u: "u \<in> set (st_uploads st)" "uploadSlot u = sl" using find_Some_mem[OF Some] by auto
  show ?thesis
  proof (cases "checkParts st u")
    case chk: (Some e)
    then have "res = Inl e \<and> st' = dropUpload (up_id u) st" using assms(2) Some by (simp add: completeUpload_def)
    then show ?thesis using u chk by blast
  next
    case None
    have "folderName (up_id u) \<notin> en_id ` set (st_entries st)" using ok u by (auto simp: storeOk_def)
    moreover have "distinct (map entrySlot (st_entries st))" "distinct (map en_id (st_entries st))"
      using ok by (auto simp: storeOk_def)
    ultimately obtain st1 where st1:
      "promote st now sl (folderName (up_id u)) (countParts st (folderName (up_id u))) = Inr st1"
      "promoted st now sl (folderName (up_id u)) (countParts st (folderName (up_id u))) st1"
      using promote_spec by blast
    have "res = Inr (folderName (up_id u)) \<and> st' = dropUpload (up_id u) st1"
      using assms(2) Some None st1(1) by (simp add: completeUpload_def)
    then show ?thesis using u None st1(2) by blast
  qed
qed

lemma completeUpload_ok: "storeOk st \<Longrightarrow> storeOk (snd (completeUpload st now sl))"
proof -
  assume ok: "storeOk st"
  obtain res st' where c: "completeUpload st now sl = (res, st')" by (rule prod.exhaust)
  from completeUpload_cases[OF ok c] show ?thesis
  proof (elim disjE exE conjE)
    fix u st1
    assume "u \<in> set (st_uploads st)" "checkParts st u = None" "st' = dropUpload (up_id u) st1"
      "promoted st now sl (folderName (up_id u)) (countParts st (folderName (up_id u))) st1"
    then show ?thesis using promoted_ok[OF ok] c by simp
  next
    fix u assume "st' = dropUpload (up_id u) st"
    then show ?thesis using dropUpload_ok[OF ok] c by simp
  next
    assume "st' = st"
    then show ?thesis using ok c by simp
  qed
qed

lemma touch_sel [simp]:
  "en_id (touch i now e) = en_id e" "entrySlot (touch i now e) = entrySlot e" "en_parts (touch i now e) = en_parts e"
  by (simp_all add: touch_def entrySlot_def)

lemma touch_comp [simp]: "en_id \<circ> touch i now = en_id" "entrySlot \<circ> touch i now = entrySlot"
  by (rule ext, simp)+

lemma sel_touchEntry [simp]:
  "st_uploads (touchEntry i now st) = st_uploads st" "partsOf (touchEntry i now st) f = partsOf st f"
  "st_entries (touchEntry i now st) = map (touch i now) (st_entries st)"
  by (simp_all add: touchEntry_def)

lemma touchEntry_ok: "storeOk st \<Longrightarrow> storeOk (touchEntry i now st)"
  by (simp add: storeOk_def entryReadable_def image_image)

lemma matchEntry_ok: "storeOk st \<Longrightarrow> storeOk (snd (matchEntry st now keys v scs r))"
  by (auto simp: matchEntry_def touchEntry_ok split: option.splits)

lemma deleteEntry_ok: "storeOk st \<Longrightarrow> storeOk (deleteEntry i st)"
  by (auto simp: storeOk_def entryReadable_def distinct_map_filter)

lemma fold_deleteEntry_ok: "storeOk st \<Longrightarrow> storeOk (fold deleteEntry is st)"
  by (induction "is" arbitrary: st) (auto simp: deleteEntry_ok)

lemma evictAge_ok: "storeOk st \<Longrightarrow> storeOk (snd (evictAge st t))"
  by (simp add: evictAge_def Let_def fold_deleteEntry_ok)

lemma evictUntil_ok: "storeOk st \<Longrightarrow> storeOk (snd (evictUntil m is tot st))"
  by (induction m "is" tot st rule: evictUntil.induct) (auto simp: deleteEntry_ok Let_def split: prod.splits)

lemma evict_ok: "storeOk st \<Longrightarrow> storeOk (snd (evict st t m))"
  using evictAge_ok[of st t] evictUntil_ok
  by (auto simp: evict_def Let_def split: prod.splits) (metis snd_conv)

section \<open>Every entry can be read\<close>

definition emptyStore :: store where
  "emptyStore = \<lparr>st_uploads = [], st_entries = [], st_blobs = []\<rparr>"

text \<open>
  One request or sweep at a time, at any clock, with any body (a cut-off one included) and any
  identifier from \<open>randomID\<close> that is not in use.
\<close>

inductive store_step :: "store \<Rightarrow> store \<Rightarrow> bool" where
  create: "(case rid of Inl e \<Rightarrow> True | Inr i \<Rightarrow> freshId st i) \<Longrightarrow> store_step st (snd (createUpload st rid sl))"
| put: "store_step st (snd (uploadPart st i idx body))"
| finalize: "store_step st (snd (completeUpload st now sl))"
| lookup: "store_step st (snd (matchEntry st now keys v scopes r))"
| sweep: "store_step st (snd (evict st olderThan maxBytes))"

interpretation cache: invariant_machine "\<lambda>st. st = emptyStore" store_step storeOk
proof
  show "storeOk st" if "st = emptyStore" for st
    using that by (simp add: emptyStore_def storeOk_def)
  show "storeOk t" if "store_step s t" "storeOk s" for s t
    using that
    by (cases rule: store_step.cases)
      (auto intro: createUpload_ok uploadPart_ok completeUpload_ok matchEntry_ok evict_ok)
qed

lemma getEntry_Some: "getEntry st i = Some e \<Longrightarrow> e \<in> set (st_entries st) \<and> en_id e = i"
  by (auto simp: getEntry_def dest: find_Some_mem)

lemma find_unique:
  "distinct (map f xs) \<Longrightarrow> x \<in> set xs \<Longrightarrow> List.find (\<lambda>y. f y = f x) xs = Some x"
  by (induction xs) auto

lemma getEntry_mem: "storeOk st \<Longrightarrow> e \<in> set (st_entries st) \<Longrightarrow> getEntry st (en_id e) = Some e"
  by (simp add: storeOk_def getEntry_def find_unique)

lemma matchEntry_Some:
  "matchEntry st now keys v scopes r = (Some e, st') \<Longrightarrow> e \<in> set (st_entries st) \<and> st' = touchEntry (en_id e) now st"
  by (auto simp: matchEntry_def split: if_splits option.splits dest!: firstScope_Some firstKey_Some)

lemma download_complete:
  assumes "storeOk st" "getEntry st i = Some e" "0 < buf"
    and "length (partBytes st i [0..<en_parts e]) < fuel"
  shows "\<exists>p. openDownload st i = Inr p \<and> copyAll fuel st buf p = Some (partBytes st i [0..<en_parts e], None)"
proof -
  let ?p = "\<lparr>pr_folder = i, pr_count = en_parts e, pr_idx = 0, pr_cur = None\<rparr>"
  have "readable st ?p"
    using assms(1) getEntry_Some[OF assms(2)] by (auto simp: storeOk_def entryReadable_def readable_def)
  moreover have "unread st ?p = partBytes st i [0..<en_parts e]" by (simp add: unread_def)
  ultimately have "copyAll fuel st buf ?p = Some (partBytes st i [0..<en_parts e], None)"
    using copyAll_complete[OF assms(3)] assms(4) by metis
  then show ?thesis using assms(2) by (simp add: openDownload_def)
qed

text \<open>
  C8: whatever sequence of reservations, block uploads (cut-off ones included), finalisations,
  lookups and eviction sweeps ran before, every entry a lookup returns can be downloaded: the copy
  ends without an error and delivers the entry's parts in order.
\<close>

theorem hits_are_downloadable:
  assumes "reach (\<lambda>st. st = emptyStore) store_step st"
    and "matchEntry st now keys v scopes r = (Some e, st')"
    and "0 < buf"
  shows "\<exists>p. openDownload st' (en_id e) = Inr p
    \<and> (\<forall>fuel > length (partBytes st (en_id e) [0..<en_parts e]).
        copyAll fuel st' buf p = Some (partBytes st (en_id e) [0..<en_parts e], None))"
proof -
  have ok: "storeOk st" using assms(1) by (rule cache.reach_inv)
  have ok': "storeOk st'" using matchEntry_ok[OF ok, of now keys v scopes r] assms(2) by simp
  have e: "e \<in> set (st_entries st)" and st': "st' = touchEntry (en_id e) now st"
    using matchEntry_Some[OF assms(2)] by blast+
  let ?e' = "touch (en_id e) now e"
  have "?e' \<in> set (st_entries st')" using e st' by simp
  from getEntry_mem[OF ok' this] have g: "getEntry st' (en_id e) = Some ?e'" by simp
  moreover have "partBytes st' (en_id e) is = partBytes st (en_id e) is" for "is"
    using st' by (simp add: partBytes_def)
  ultimately show ?thesis
    using download_complete[OF ok' g assms(3)] by (auto simp: openDownload_def)
qed

section \<open>The round trip\<close>

definition uploadAll :: "int \<Rightarrow> (nat \<times> string) list \<Rightarrow> store \<Rightarrow> store" where
  "uploadAll i ps st = fold (\<lambda>(idx, d) s. snd (uploadPart s i idx (d, None))) ps st"

lemma uploadAll_Nil [simp]: "uploadAll i [] st = st"
  by (simp add: uploadAll_def)

lemma uploadAll_Cons [simp]:
  "uploadAll i ((idx, d) # ps) st = uploadAll i ps (snd (uploadPart st i idx (d, None)))"
  by (simp add: uploadAll_def)

lemma uploadAll_ok: "storeOk st \<Longrightarrow> storeOk (uploadAll i ps st)"
  by (induction ps arbitrary: st) (auto simp: uploadPart_ok)

lemma uploadPart_row:
  assumes "u \<in> set (st_uploads st)"
  shows "u\<lparr>up_started := up_started u + 1, up_finished := up_finished u + 1\<rparr>
      \<in> set (st_uploads (snd (uploadPart st (up_id u) idx (d, None))))"
    and "partsOf (snd (uploadPart st (up_id u) idx (d, None))) (folderName (up_id u))
      = AList.update idx d (partsOf st (folderName (up_id u)))"
proof -
  have "list_ex (\<lambda>w. up_id w = up_id u) (st_uploads st)" using assms by (auto simp: list_ex_iff)
  then have s: "snd (uploadPart st (up_id u) idx (d, None)) = partFinish (up_id u) (partWrite (up_id u) idx d (partBegin (up_id u) st))"
    by (simp add: uploadPart_def)
  show "u\<lparr>up_started := up_started u + 1, up_finished := up_finished u + 1\<rparr>
      \<in> set (st_uploads (snd (uploadPart st (up_id u) idx (d, None))))"
    unfolding s partFinish_def partBegin_def sel_mapUpload sel_partWrite map_map set_map
    by (rule image_eqI[OF _ assms]) simp
  show "partsOf (snd (uploadPart st (up_id u) idx (d, None))) (folderName (up_id u))
      = AList.update idx d (partsOf st (folderName (up_id u)))"
    unfolding s partFinish_def partBegin_def by simp
qed

text \<open>After the blocks, the row has counted them all and the folder holds exactly them.\<close>

lemma uploadAll_spec:
  assumes "u \<in> set (st_uploads st)"
    and "distinct (map fst (partsOf st (folderName (up_id u)) @ ps))"
  shows "u\<lparr>up_started := up_started u + length ps, up_finished := up_finished u + length ps\<rparr>
      \<in> set (st_uploads (uploadAll (up_id u) ps st))
    \<and> partsOf (uploadAll (up_id u) ps st) (folderName (up_id u)) = partsOf st (folderName (up_id u)) @ ps"
  using assms
proof (induction ps arbitrary: st u)
  case (Cons a ps)
  obtain idx d where a: "a = (idx, d)" by (cases a)
  let ?st = "snd (uploadPart st (up_id u) idx (d, None))"
  let ?u = "u\<lparr>up_started := up_started u + 1, up_finished := up_finished u + 1\<rparr>"
  have mem: "?u \<in> set (st_uploads ?st)" using uploadPart_row(1)[OF Cons.prems(1)] .
  have parts: "partsOf ?st (folderName (up_id u)) = partsOf st (folderName (up_id u)) @ [(idx, d)]"
    using uploadPart_row(2)[OF Cons.prems(1)] Cons.prems(2) a by (simp add: update_fresh)
  have "distinct (map fst (partsOf ?st (folderName (up_id ?u)) @ ps))"
    using Cons.prems(2) a parts by simp
  from Cons.IH[OF mem this] show ?case using parts a by simp
qed simp

lemma createUpload_new:
  assumes "sl \<notin> uploadSlot ` set (st_uploads st)" "freshId st i"
  shows "fst (createUpload st (Inr i) sl) = Inr (Some i)"
    and "\<lparr>up_id = i, up_key = sk_key sl, up_version = sk_version sl, up_scope = sk_scope sl, up_repo = sk_repo sl,
           up_started = 0, up_finished = 0\<rparr> \<in> set (st_uploads (snd (createUpload st (Inr i) sl)))"
    and "partsOf (snd (createUpload st (Inr i) sl)) f = partsOf st f"
proof -
  have "\<not> list_ex (\<lambda>u. uploadSlot u = sl) (st_uploads st)" "\<not> list_ex (\<lambda>u. up_id u = i) (st_uploads st)"
    using assms by (auto simp: list_ex_iff freshId_def)
  then show "fst (createUpload st (Inr i) sl) = Inr (Some i)"
    "\<lparr>up_id = i, up_key = sk_key sl, up_version = sk_version sl, up_scope = sk_scope sl, up_repo = sk_repo sl,
       up_started = 0, up_finished = 0\<rparr> \<in> set (st_uploads (snd (createUpload st (Inr i) sl)))"
    "partsOf (snd (createUpload st (Inr i) sl)) f = partsOf st f"
    by (simp_all add: createUpload_def)
qed

lemma freshId_empty: "freshId st i \<Longrightarrow> partsOf st (folderName i) = []"
  by (simp add: freshId_def partsOf_def map_of_eq_None_iff[THEN iffD2])

lemma checkParts_full:
  assumes "up_started u = n" "up_finished u = n" "0 < n" "partsOf st (folderName (up_id u)) = ps"
    "mset (map fst ps) = mset [0..<n]"
  shows "checkParts st u = None" and "countParts st (folderName (up_id u)) = n"
proof -
  have len: "length ps = n" using arg_cong[OF assms(5), of size] by simp
  have keys: "fst ` set ps = {0..<n}" using arg_cong[OF assms(5), of set_mset] by simp
  then have "\<forall>k < n. map_of ps k \<noteq> None" by (simp add: map_of_eq_None_iff)
  then have "List.find (\<lambda>k. map_of ps k = None) [0..<n] = None" by (simp add: find_None_iff)
  then show "checkParts st u = None" "countParts st (folderName (up_id u)) = n"
    using assms len by (simp_all add: checkParts_def countParts_def requireContiguousParts_def)
qed

lemma exact_lookup:
  assumes ok: "storeOk st" and e: "e \<in> set (st_entries st)"
  shows "fst (matchEntry st now [en_key e] (en_version e) [en_scope e] (en_repo e)) = Some e"
proof -
  let ?q = "queryExact st (en_key e) (en_version e) (en_scope e) (en_repo e)"
  have "?q \<noteq> None" using e by (auto simp: queryExact_None)
  then obtain x where x: "?q = Some x" by blast
  have "entrySlot x = entrySlot e" "x \<in> set (st_entries st)"
    using queryExact_Some[OF x] by (auto simp: entrySlot_def)
  then have "x = e" using ok e by (auto simp: storeOk_def distinct_map dest: inj_onD)
  then show ?thesis using x by (simp add: matchEntry_def)
qed

lemma finalize_full:
  assumes ok: "storeOk st" and u: "u \<in> set (st_uploads st)" and chk: "checkParts st u = None"
  shows "\<exists>st3 e. completeUpload st now (uploadSlot u) = (Inr (folderName (up_id u)), st3) \<and> storeOk st3
    \<and> partsOf st3 (folderName (up_id u)) = partsOf st (folderName (up_id u))
    \<and> e \<in> set (st_entries st3) \<and> entrySlot e = uploadSlot u \<and> en_id e = folderName (up_id u)
    \<and> en_parts e = countParts st (folderName (up_id u))"
proof -
  obtain res st3 where c: "completeUpload st now (uploadSlot u) = (res, st3)" by (rule prod.exhaust)
  have ok3: "storeOk st3" using completeUpload_ok[OF ok, of now "uploadSlot u"] c by simp
  have uniq: "w = u" if "w \<in> set (st_uploads st)" "uploadSlot w = uploadSlot u" for w
    using ok u that by (auto simp: storeOk_def distinct_map dest: inj_onD)
  from completeUpload_cases[OF ok c] show ?thesis
  proof (elim disjE exE conjE)
    fix w st1
    assume w: "w \<in> set (st_uploads st)" "uploadSlot w = uploadSlot u" "res = Inr (folderName (up_id w))"
      "st3 = dropUpload (up_id w) st1"
      "promoted st now (uploadSlot u) (folderName (up_id w)) (countParts st (folderName (up_id w))) st1"
    have "w = u" using uniq w by blast
    with w have p: "promoted st now (uploadSlot u) (folderName (up_id u)) (countParts st (folderName (up_id u))) st1"
      and st3: "st3 = dropUpload (up_id u) st1" and res: "res = Inr (folderName (up_id u))" by simp_all
    from p obtain e where "e \<in> set (st_entries st1)" "entrySlot e = uploadSlot u" "en_id e = folderName (up_id u)"
      "en_parts e = countParts st (folderName (up_id u))" unfolding promoted_def by blast
    moreover have "partsOf st3 (folderName (up_id u)) = partsOf st (folderName (up_id u))"
      using p st3 by (simp add: promoted_def)
    ultimately show ?thesis using c ok3 st3 res by auto
  next
    fix w e assume "w \<in> set (st_uploads st)" "uploadSlot w = uploadSlot u" "checkParts st w = Some e"
    then show ?thesis using uniq chk by fastforce
  next
    assume "uploadSlot u \<notin> uploadSlot ` set (st_uploads st)"
    then show ?thesis using u by blast
  qed
qed

definition blocksInOrder :: "(nat \<times> string) list \<Rightarrow> nat \<Rightarrow> string" where
  "blocksInOrder ps n = concat (map (\<lambda>k. the (map_of ps k)) [0..<n])"

lemma partBytes_blocks:
  assumes "partsOf st f = ps" "mset (map fst ps) = mset [0..<n]"
  shows "partBytes st f [0..<n] = blocksInOrder ps n"
proof -
  have "fst ` set ps = {0..<n}" using arg_cong[OF assms(2), of set_mset] by simp
  then have "\<forall>k < n. map_of ps k \<noteq> None" by (simp add: map_of_eq_None_iff)
  then show ?thesis
    unfolding partBytes_def blocksInOrder_def assms(1)
    by (intro arg_cong[where f = concat] map_cong) (auto split: option.splits)
qed

text \<open>
  C6: reserve a free slot, upload the blocks 0 to n - 1 once each in any order, finalise: the
  finalisation succeeds, a lookup of the exact key finds the new entry (also when it replaces an
  older one), and downloading it ends and gives the concatenation of the blocks in index order.
\<close>

theorem upload_round_trip:
  fixes now t :: int
  assumes "reach (\<lambda>st. st = emptyStore) store_step st"
    and "sl \<notin> uploadSlot ` set (st_uploads st)" and "freshId st i"
    and "0 < n" and "mset (map fst ps) = mset [0..<n]" and "0 < buf"
  shows "\<exists>st3 e p. fst (createUpload st (Inr i) sl) = Inr (Some i)
    \<and> completeUpload (uploadAll i ps (snd (createUpload st (Inr i) sl))) now sl = (Inr (folderName i), st3)
    \<and> fst (matchEntry st3 t [sk_key sl] (sk_version sl) [sk_scope sl] (sk_repo sl)) = Some e
    \<and> openDownload st3 (en_id e) = Inr p
    \<and> (\<forall>fuel > length (blocksInOrder ps n). copyAll fuel st3 buf p = Some (blocksInOrder ps n, None))"
proof -
  have ok: "storeOk st" using assms(1) by (rule cache.reach_inv)
  define st1 where "st1 = snd (createUpload st (Inr i) sl)"
  define st2 where "st2 = uploadAll i ps st1"
  define u where "u = \<lparr>up_id = i, up_key = sk_key sl, up_version = sk_version sl, up_scope = sk_scope sl,
    up_repo = sk_repo sl, up_started = 0, up_finished = 0\<rparr>"
  let ?u = "u\<lparr>up_started := length ps, up_finished := length ps\<rparr>"
  note new = createUpload_new[OF assms(2,3)]
  have len: "length ps = n" using arg_cong[OF assms(5), of size] by simp
  have ok2: "storeOk st2" unfolding st2_def st1_def
    using uploadAll_ok createUpload_ok[OF ok] assms(3) by simp
  have mem: "u \<in> set (st_uploads st1)" using new(2) by (simp add: u_def st1_def)
  have none: "partsOf st1 (folderName (up_id u)) = []" using new(3) freshId_empty[OF assms(3)] by (simp add: st1_def u_def)
  have "distinct (map fst (partsOf st1 (folderName (up_id u)) @ ps))"
    using none mset_eq_imp_distinct_iff[OF assms(5)] by simp
  from uploadAll_spec[OF mem this] have row: "?u \<in> set (st_uploads st2)" and parts: "partsOf st2 (folderName i) = ps"
    using none by (simp_all add: st2_def u_def)
  have sl: "uploadSlot ?u = sl" by (simp add: u_def uploadSlot_def)
  have chk: "checkParts st2 ?u = None" and cnt: "countParts st2 (folderName i) = n"
    using checkParts_full[of ?u n st2 ps] parts assms(4,5) len by (simp_all add: u_def)
  obtain st3 e where f: "completeUpload st2 now sl = (Inr (folderName i), st3)" "storeOk st3"
    "partsOf st3 (folderName i) = ps" "e \<in> set (st_entries st3)" "entrySlot e = sl" "en_id e = folderName i" "en_parts e = n"
    using finalize_full[OF ok2 row chk, of now] sl parts cnt by (auto simp: u_def)
  have "fst (matchEntry st3 t [sk_key sl] (sk_version sl) [sk_scope sl] (sk_repo sl)) = Some e"
    using exact_lookup[OF f(2,4)] f(5) by (auto simp: entrySlot_def)
  moreover have g: "getEntry st3 (folderName i) = Some e" using getEntry_mem[OF f(2,4)] f(6) by simp
  ultimately show ?thesis
    using new(1) f(1,6) download_complete[OF f(2) g assms(6)] partBytes_blocks[OF f(3) assms(5)] f(7)
    by (auto simp: st2_def st1_def openDownload_def)
qed

definition sampleSlot :: slot where
  "sampleSlot = \<lparr>sk_key = ''npm-abc'', sk_version = ''v1'', sk_scope = ''refs/heads/main'', sk_repo = ''42''\<rparr>"

lemma reach_emptyStore: "reach (\<lambda>st. st = emptyStore) store_step emptyStore"
  by (rule reach_init) simp

theorem upload_round_trip_witness:
  "\<exists>st3 e p. completeUpload (uploadAll 7 [(1, ''lo''), (0, ''hel'')] (snd (createUpload emptyStore (Inr 7) sampleSlot))) 5 sampleSlot
      = (Inr (folderName 7), st3)
    \<and> fst (matchEntry st3 6 [''npm-abc''] ''v1'' [''refs/heads/main''] ''42'') = Some e
    \<and> openDownload st3 (en_id e) = Inr p \<and> copyAll 6 st3 2 p = Some (''hello'', None)"
proof -
  have "freshId emptyStore 7" "sampleSlot \<notin> uploadSlot ` set (st_uploads emptyStore)"
    by (simp_all add: freshId_def emptyStore_def)
  moreover have "mset (map fst [(1, ''lo''), (0::nat, ''hel'')]) = mset [0..<2]" by (simp add: upt_rec)
  moreover have "blocksInOrder [(1, ''lo''), (0, ''hel'')] 2 = ''hello''" by (simp add: blocksInOrder_def upt_rec)
  ultimately show ?thesis
    using upload_round_trip[OF reach_emptyStore, of sampleSlot 7 2 "[(1, ''lo''), (0, ''hel'')]" 2 5 6]
    by (auto simp: sampleSlot_def)
qed

text \<open>A store with one entry, reached by one upload.\<close>

lemma sampleStore_reached: "reach (\<lambda>st. st = emptyStore) store_step sampleStore"
proof -
  let ?s1 = "snd (createUpload emptyStore (Inr 7) sampleSlot)"
  let ?s2 = "snd (uploadPart ?s1 7 0 (''data'', None))"
  have "store_step emptyStore ?s1" by (rule store_step.create) (simp add: freshId_def emptyStore_def)
  moreover have "store_step ?s1 ?s2" by (rule store_step.put)
  moreover have "store_step ?s2 (snd (completeUpload ?s2 5 sampleSlot))" by (rule store_step.finalize)
  moreover have "snd (completeUpload ?s2 5 sampleSlot) = sampleStore" by code_simp
  ultimately show ?thesis by (metis reach_step reach_emptyStore)
qed

theorem hits_are_downloadable_witness:
  "\<exists>e st' p. matchEntry sampleStore 9 [''npm-''] ''v1'' [''refs/heads/main''] ''42'' = (Some e, st')
     \<and> openDownload st' (en_id e) = Inr p \<and> copyAll 5 st' 3 p = Some (''data'', None)"
proof -
  let ?m = "matchEntry sampleStore 9 [''npm-''] ''v1'' [''refs/heads/main''] ''42''"
  let ?e = "hd (st_entries sampleStore)"
  have m: "?m = (Some ?e, touchEntry ''7'' 9 sampleStore)" by code_simp
  have "partBytes sampleStore (en_id ?e) [0..<en_parts ?e] = ''data''" by code_simp
  then show ?thesis using hits_are_downloadable[OF sampleStore_reached m, of 3] m by auto
qed

section \<open>Eviction\<close>

definition blobsOk :: "store \<Rightarrow> bool" where
  "blobsOk st \<longleftrightarrow> distinct (map fst (st_blobs st))"

lemma blobs_deleteEntry [simp]: "st_blobs (deleteEntry i st) = AList.delete i (st_blobs st)"
  by (simp add: deleteEntry_def removeFolder_def)

lemma deleteEntry_blobsOk [simp]: "blobsOk st \<Longrightarrow> blobsOk (deleteEntry i st)"
  by (simp add: blobsOk_def distinct_delete)

lemma fold_deleteEntry_blobsOk: "blobsOk st \<Longrightarrow> blobsOk (fold deleteEntry is st)"
  by (induction "is" arbitrary: st) auto

lemma entries_fold_deleteEntry:
  "st_entries (fold deleteEntry is st) = filter (\<lambda>e. en_id e \<notin> set is) (st_entries st)"
  by (induction "is" arbitrary: st) (auto intro: filter_cong)

lemma uploads_fold_deleteEntry: "st_uploads (fold deleteEntry is st) = st_uploads st"
  by (induction "is" arbitrary: st) auto

lemma sum_delete_key:
  assumes "distinct (map fst bs)"
  shows "(\<Sum>(f, ps) \<leftarrow> AList.delete i bs. folderBytes ps)
    = (\<Sum>(f, ps) \<leftarrow> bs. folderBytes ps) - (case map_of bs i of None \<Rightarrow> 0 | Some ps \<Rightarrow> folderBytes ps)"
  using assms
proof (induction bs)
  case (Cons b bs)
  obtain f ps where b: "b = (f, ps)" by (cases b)
  show ?case
  proof (cases "f = i")
    case True
    then have "i \<notin> fst ` set bs" using Cons.prems b by auto
    then show ?thesis using b True by (simp add: delete_idem)
  next
    case False
    then show ?thesis using Cons b by simp
  qed
qed simp

lemma folderBytes_Nil [simp]: "folderBytes [] = 0"
  by (simp add: folderBytes_def)

lemma totalBlobSize_delete:
  "blobsOk st \<Longrightarrow> totalBlobSize (deleteEntry i st) = totalBlobSize st - folderSize st i"
  by (simp add: blobsOk_def totalBlobSize_def folderSize_def partsOf_def sum_delete_key split: option.splits)

text \<open>The running total is the size on disk, and the sweep stops at the first prefix that fits.\<close>

lemma evictUntil_spec:
  "blobsOk st \<Longrightarrow> \<exists>k \<le> length is. evictUntil m is (totalBlobSize st) st = (k, fold deleteEntry (take k is) st)
     \<and> (totalBlobSize (fold deleteEntry (take k is) st) \<le> m \<or> k = length is)
     \<and> (\<forall>j < k. m < totalBlobSize (fold deleteEntry (take j is) st))"
proof (induction "is" arbitrary: st)
  case (Cons i "is")
  show ?case
  proof (cases "totalBlobSize st \<le> m")
    case True
    then show ?thesis by (auto intro!: exI[of _ 0])
  next
    case False
    have "blobsOk (deleteEntry i st)" using Cons.prems by simp
    from Cons.IH[OF this] obtain k where k: "k \<le> length is"
      "evictUntil m is (totalBlobSize (deleteEntry i st)) (deleteEntry i st) = (k, fold deleteEntry (take k is) (deleteEntry i st))"
      "totalBlobSize (fold deleteEntry (take k is) (deleteEntry i st)) \<le> m \<or> k = length is"
      "\<forall>j < k. m < totalBlobSize (fold deleteEntry (take j is) (deleteEntry i st))" by blast
    have "m < totalBlobSize (fold deleteEntry (take j (i # is)) st)" if "j < Suc k" for j
      using that k(4) False by (cases j) auto
    then show ?thesis using k False by (intro exI[of _ "Suc k"]) (simp add: totalBlobSize_delete[OF Cons.prems])
  qed
qed simp

lemma sorted_prefix_oldest:
  assumes "x \<in> set (drop k (sort_key f es))" "y \<in> set (take k (sort_key f es))"
  shows "f y \<le> (f x :: int)"
proof -
  have "sorted (map f (take k (sort_key f es)) @ map f (drop k (sort_key f es)))"
    by (metis append_take_drop_id map_append sorted_sort_key)
  then show ?thesis using assms by (auto simp: sorted_append)
qed

text \<open>Removing the first \<open>k\<close> of the entries in order of use keeps the most recently used ones.\<close>

lemma drop_oldest:
  assumes "distinct (map en_id es)" "srt = sort_key en_used es"
    and "x \<in> set es" "en_id x \<notin> set (take k (map en_id srt))"
    and "y \<in> set es" "en_id y \<in> set (take k (map en_id srt))"
  shows "en_used y \<le> en_used x"
proof -
  have same: "a = b" if "a \<in> set es" "b \<in> set es" "en_id a = en_id b" for a b
    using assms(1) that by (auto simp: distinct_map dest: inj_onD)
  have x: "x \<in> set (drop k srt)"
    using assms(2,3,4) append_take_drop_id[of k srt] by (metis Un_iff image_eqI set_append set_map set_sort take_map)
  obtain z where z: "z \<in> set (take k srt)" "en_id z = en_id y" using assms(6) by (auto simp: take_map)
  then have "z \<in> set es" using assms(2) by (metis in_set_takeD set_sort)
  then have "z = y" using same z assms(5) by blast
  then show ?thesis using sorted_prefix_oldest[of x k en_used es y] x z assms(2) by simp
qed

lemma blobs_dropUpload [simp]: "blobsOk (dropUpload i st) = blobsOk st"
  by (simp add: blobsOk_def)

lemma promote_blobsOk: "blobsOk st \<Longrightarrow> promote st now sl f n = Inr st1 \<Longrightarrow> blobsOk st1"
  by (auto simp: promote_def blobsOk_def Let_def removeFolder_def distinct_delete split: if_splits option.splits)

lemma evictAge_blobsOk: "blobsOk st \<Longrightarrow> blobsOk (snd (evictAge st t))"
  by (simp add: evictAge_def Let_def fold_deleteEntry_blobsOk)

lemma evict_blobsOk:
  assumes "blobsOk st"
  shows "blobsOk (snd (evict st t m))"
proof -
  obtain n st1 where a: "evictAge st t = (n, st1)" by (rule prod.exhaust)
  then have "blobsOk st1" using evictAge_blobsOk[OF assms, of t] by simp
  then show ?thesis
    using evictUntil_spec[of st1 "map en_id (sort_key en_used (st_entries st1))" m] fold_deleteEntry_blobsOk[of st1] a
    by (auto simp: evict_def split: prod.splits)
qed

interpretation blobs: invariant_machine "\<lambda>st. st = emptyStore" store_step blobsOk
proof
  show "blobsOk st" if "st = emptyStore" for st
    using that by (simp add: emptyStore_def blobsOk_def)
  show "blobsOk t" if "store_step s t" "blobsOk s" for s t
    using that
  proof (cases rule: store_step.cases)
    case (create rid sl)
    then show ?thesis using that(2) by (auto simp: createUpload_def blobsOk_def split: sum.splits)
  next
    case (put i idx body)
    then show ?thesis using that(2)
      by (auto simp: uploadPart_def blobsOk_def partBegin_def partFinish_def partWrite_def Let_def split: option.splits)
  next
    case (finalize now sl)
    then show ?thesis using that(2) promote_blobsOk
      by (auto simp: completeUpload_def Let_def split: option.splits sum.splits)
  next
    case (lookup now keys v scopes r)
    then show ?thesis using that(2)
      by (auto simp: matchEntry_def touchEntry_def blobsOk_def split: option.splits)
  qed (use evict_blobsOk in auto)
qed

lemma evictAge_entries:
  assumes "distinct (map en_id (st_entries st))"
  shows "st_entries (snd (evictAge st t)) = filter (\<lambda>e. \<not> (0 < t \<and> en_used e < t)) (st_entries st)"
proof -
  have "en_id e \<in> en_id ` {x \<in> set (st_entries st). en_used x < t} \<longleftrightarrow> en_used e < t" if "e \<in> set (st_entries st)" for e
    using assms that by (auto simp: distinct_map dest: inj_onD)
  then show ?thesis by (auto simp: evictAge_def Let_def entries_fold_deleteEntry intro!: filter_cong)
qed

lemma evict_result:
  assumes "blobsOk st" "evict st t m = (n, st')"
  shows "\<exists>k. st' = fold deleteEntry (take k (map en_id (sort_key en_used (st_entries (snd (evictAge st t)))))) (snd (evictAge st t))
    \<and> (0 < m \<longrightarrow> totalBlobSize st' \<le> m \<or> length (st_entries (snd (evictAge st t))) \<le> k)
    \<and> (0 < k \<longrightarrow> 0 < m \<and> m < totalBlobSize (snd (evictAge st t)))"
proof -
  obtain a st1 where e: "evictAge st t = (a, st1)" by (rule prod.exhaust)
  have "blobsOk st1" using evictAge_blobsOk[OF assms(1), of t] e by simp
  note u = evictUntil_spec[OF this, of "map en_id (sort_key en_used (st_entries st1))" m]
  show ?thesis
  proof (cases "0 < m \<and> m < totalBlobSize st1")
    case True
    obtain k where k: "evictUntil m (map en_id (sort_key en_used (st_entries st1))) (totalBlobSize st1) st1
        = (k, fold deleteEntry (take k (map en_id (sort_key en_used (st_entries st1)))) st1)"
      "totalBlobSize (fold deleteEntry (take k (map en_id (sort_key en_used (st_entries st1)))) st1) \<le> m
        \<or> k = length (st_entries st1)" using u by (auto simp del: take_map)
    then have "st' = fold deleteEntry (take k (map en_id (sort_key en_used (st_entries st1)))) st1"
      using assms(2) e True by (simp add: evict_def)
    then show ?thesis using k(2) True e by (intro exI[of _ k]) auto
  next
    case False
    then have "st' = st1" using assms(2) e by (auto simp: evict_def)
    then show ?thesis using False e by (intro exI[of _ 0]) auto
  qed
qed



text \<open>
  The folder of an upload whose finalisation failed is never removed but counts towards the size
  limit: a sweep then removes every entry and the store still exceeds its limit.
\<close>

definition orphanSlot :: slot where
  "orphanSlot = sampleSlot\<lparr>sk_key := ''huge''\<rparr>"

lemma orphan_blobs_evict_every_entry:
  "\<exists>st. store_step\<^sup>*\<^sup>* sampleStore st \<and> st_uploads st = [] \<and> st_entries st = st_entries sampleStore
     \<and> st_entries (snd (evict st 0 5)) = [] \<and> 5 < totalBlobSize (snd (evict st 0 5))"
proof -
  let ?s1 = "snd (createUpload sampleStore (Inr 8) orphanSlot)"
  let ?s2 = "snd (uploadPart ?s1 8 0 (''0123456789'', Some (Leaf ''unexpected EOF'')))"
  let ?s3 = "snd (completeUpload ?s2 9 orphanSlot)"
  have "freshId sampleStore 8" by code_simp
  then have "store_step sampleStore ?s1" by (intro store_step.create) simp
  moreover have "store_step ?s1 ?s2" by (rule store_step.put)
  moreover have "store_step ?s2 ?s3" by (rule store_step.finalize)
  ultimately have "store_step\<^sup>*\<^sup>* sampleStore ?s3" by (meson rtranclp.rtrancl_into_rtrancl rtranclp.rtrancl_refl)
  moreover have "st_uploads ?s3 = [] \<and> st_entries ?s3 = st_entries sampleStore
     \<and> st_entries (snd (evict ?s3 0 5)) = [] \<and> 5 < totalBlobSize (snd (evict ?s3 0 5))" by code_simp
  ultimately show ?thesis by blast
qed

end
