(* ===== verification/Cache_Blockid.thy ===== *)
theory Cache_Blockid
  imports Go_Prelude
begin

text \<open>
  The block identifiers of the upload protocol (\<open>internal/cache/blockid.go\<close>): the four base64
  variants of \<open>encoding/base64\<close>, the chunk index inside a block identifier, and the round trip
  with the identifiers of the Azure client, whose encoder is the reference here.
\<close>

section \<open>Base64\<close>

text \<open>The value of a digit in the standard and in the URL alphabet.\<close>

definition b64Val :: "char \<Rightarrow> char \<Rightarrow> char \<Rightarrow> nat option" where
  "b64Val c62 c63 c = (let n = of_char c :: nat in
     if 65 \<le> n \<and> n \<le> 90 then Some (n - 65)
     else if 97 \<le> n \<and> n \<le> 122 then Some (n - 71)
     else if 48 \<le> n \<and> n \<le> 57 then Some (n + 4)
     else if c = c62 then Some 62
     else if c = c63 then Some 63
     else None)"

abbreviation stdVal :: "char \<Rightarrow> nat option" where
  "stdVal \<equiv> b64Val (CHR ''+'') (CHR ''/'')"

abbreviation urlVal :: "char \<Rightarrow> nat option" where
  "urlVal \<equiv> b64Val (CHR ''-'') (CHR ''_'')"

definition bytesOf4 :: "nat \<Rightarrow> nat \<Rightarrow> nat \<Rightarrow> nat \<Rightarrow> string" where
  "bytesOf4 a b c d = (let n = ((a * 64 + b) * 64 + c) * 64 + d
     in [char_of (n div 65536), char_of (n div 256 mod 256), char_of (n mod 256)])"

definition bytesOf3 :: "nat \<Rightarrow> nat \<Rightarrow> nat \<Rightarrow> string" where
  "bytesOf3 a b c = (let n = (a * 64 + b) * 64 + c in [char_of (n div 1024), char_of (n div 4 mod 256)])"

definition bytesOf2 :: "nat \<Rightarrow> nat \<Rightarrow> string" where
  "bytesOf2 a b = [char_of ((a * 64 + b) div 16)]"

text \<open>
  \<open>decodeQuantum\<close> over the text without its line breaks: padding must complete the last group and
  nothing may follow it; without padding the last group may be short; a single digit is an error.
\<close>

fun b64Groups :: "(char \<Rightarrow> nat option) \<Rightarrow> bool \<Rightarrow> string \<Rightarrow> string option" where
  "b64Groups val pad [] = Some []"
| "b64Groups val pad [a] = None"
| "b64Groups val pad [a, b] =
     (if pad then None
      else case (val a, val b) of (Some x, Some y) \<Rightarrow> Some (bytesOf2 x y) | _ \<Rightarrow> None)"
| "b64Groups val pad [a, b, c] =
     (if pad then None
      else case (val a, val b, val c) of (Some x, Some y, Some z) \<Rightarrow> Some (bytesOf3 x y z) | _ \<Rightarrow> None)"
| "b64Groups val pad (a # b # c # d # rest) =
     (if pad \<and> c = CHR ''='' then
        (if d = CHR ''='' \<and> rest = []
         then (case (val a, val b) of (Some x, Some y) \<Rightarrow> Some (bytesOf2 x y) | _ \<Rightarrow> None)
         else None)
      else if pad \<and> d = CHR ''='' then
        (if rest = []
         then (case (val a, val b, val c) of (Some x, Some y, Some z) \<Rightarrow> Some (bytesOf3 x y z) | _ \<Rightarrow> None)
         else None)
      else (case (val a, val b, val c, val d) of
              (Some x, Some y, Some z, Some w) \<Rightarrow> map_option (\<lambda>r. bytesOf4 x y z w @ r) (b64Groups val pad rest)
            | _ \<Rightarrow> None))"

definition b64Decode :: "(char \<Rightarrow> nat option) \<Rightarrow> bool \<Rightarrow> string \<Rightarrow> string option" where
  "b64Decode val pad s = b64Groups val pad (filter (\<lambda>c. c \<noteq> CHR 0x0A \<and> c \<noteq> CHR 0x0D) s)"

abbreviation rawURLDecode :: "string \<Rightarrow> string option" where
  "rawURLDecode \<equiv> b64Decode urlVal False"

section \<open>Block identifiers\<close>

fun firstSome :: "'a option list \<Rightarrow> 'a option" where
  "firstSome [] = None"
| "firstSome (Some x # xs) = Some x"
| "firstSome (None # xs) = firstSome xs"

definition decodeBase64 :: "string \<Rightarrow> string" where
  "decodeBase64 s =
     (case firstSome [b64Decode stdVal True s, b64Decode stdVal False s, b64Decode urlVal True s, b64Decode urlVal False s] of
        Some b \<Rightarrow> b | None \<Rightarrow> [])"

definition parseLeadingInt :: "string \<Rightarrow> nat option" where
  "parseLeadingInt s =
     (let ds = takeWhile isDigit s in if ds = [] then None else Some (digitsVal 0 ds))"

definition bigEndian :: "string \<Rightarrow> nat" where
  "bigEndian bs = foldl (\<lambda>n c. 256 * n + of_char c) 0 bs"

definition chunkIndexFromBlockID :: "string \<Rightarrow> nat option" where
  "chunkIndexFromBlockID bid =
     (let decoded = decodeBase64 bid
      in if length decoded = 64 then Some (bigEndian (take 4 (drop 16 decoded)))
         else if length decoded = 48 then parseLeadingInt (drop 36 decoded)
         else None)"

section \<open>Bounds\<close>

lemma bigEndian_bound: "bigEndian bs < 256 ^ length bs"
proof (induction bs rule: rev_induct)
  case (snoc c bs)
  have "(of_char c :: nat) < 256" by (rule nat_of_char_less_256)
  moreover have "bigEndian (bs @ [c]) = 256 * bigEndian bs + of_char c" by (simp add: bigEndian_def)
  moreover have "256 * bigEndian bs + 256 \<le> 256 * 256 ^ length bs" using snoc by linarith
  ultimately have "bigEndian (bs @ [c]) < 256 * 256 ^ length bs" by linarith
  then show ?case by simp
qed (simp add: bigEndian_def)

lemma digitsVal_bound: "list_all isDigit ds \<Longrightarrow> digitsVal a ds < (a + 1) * 10 ^ length ds"
proof (induction ds arbitrary: a)
  case (Cons c ds)
  have "digitVal c \<le> 9" using Cons.prems by (auto simp: digitVal_def isDigit_def Let_def)
  then have "(10 * a + digitVal c + 1) * 10 ^ length ds \<le> (10 * a + 10) * 10 ^ length ds"
    by (intro mult_right_mono) simp_all
  moreover have "digitsVal (10 * a + digitVal c) ds < (10 * a + digitVal c + 1) * 10 ^ length ds"
    using Cons.IH Cons.prems by simp
  moreover have "(10 * a + 10) * 10 ^ length ds = (a + 1) * 10 ^ length (c # ds)" by (simp add: algebra_simps)
  ultimately have "digitsVal (10 * a + digitVal c) ds < (a + 1) * 10 ^ length (c # ds)" by linarith
  then show ?case by simp
qed simp

lemma list_all_takeWhile: "list_all p (takeWhile p xs)"
  by (induction xs) auto

lemma chunkIndex_bound: "chunkIndexFromBlockID bid = Some n \<Longrightarrow> n < 10 ^ 12"
proof -
  assume n: "chunkIndexFromBlockID bid = Some n"
  let ?d = "decodeBase64 bid"
  show ?thesis
  proof (cases "length ?d = 64")
    case True
    then show ?thesis using n bigEndian_bound[of "take 4 (drop 16 ?d)"]
      by (simp add: chunkIndexFromBlockID_def Let_def)
  next
    case False
    then have l: "length ?d = 48" and p: "parseLeadingInt (drop 36 ?d) = Some n"
      using n by (auto simp: chunkIndexFromBlockID_def Let_def split: if_splits)
    let ?ds = "takeWhile isDigit (drop 36 ?d)"
    have "length ?ds \<le> 12" using length_takeWhile_le[of isDigit "drop 36 ?d"] l by simp
    then have "(10::nat) ^ length ?ds \<le> 10 ^ 12" by (intro power_increasing) simp_all
    moreover have "n < 10 ^ length ?ds"
      using p digitsVal_bound[of ?ds 0] list_all_takeWhile[of isDigit "drop 36 ?d"]
      by (auto simp: parseLeadingInt_def Let_def split: if_splits)
    ultimately show ?thesis by (rule less_le_trans[rotated])
  qed
qed

section \<open>The encoder of the client\<close>

definition b64Char :: "nat \<Rightarrow> char" where
  "b64Char n =
     (if n < 26 then char_of (n + 65) else if n < 52 then char_of (n + 71)
      else if n < 62 then char_of (n - 4) else if n = 62 then CHR ''+'' else CHR ''/'')"

fun b64Encode :: "string \<Rightarrow> string" where
  "b64Encode (a # b # c # rest) =
     (let n = (of_char a * 256 + of_char b) * 256 + of_char c
      in [b64Char (n div 262144), b64Char (n div 4096 mod 64), b64Char (n div 64 mod 64), b64Char (n mod 64)]) @ b64Encode rest"
| "b64Encode _ = []"

text \<open>\<open>generateBlockID\<close>: a 36 character prefix and the index padded with zeros to 12 digits.\<close>

definition azureBlockID :: "string \<Rightarrow> nat \<Rightarrow> string" where
  "azureBlockID uuid idx = b64Encode (uuid @ replicate (12 - length (natDigits idx)) (CHR ''0'') @ natDigits idx)"

lemma stdVal_b64Char: "n < 64 \<Longrightarrow> stdVal (b64Char n) = Some n"
  by (auto simp: b64Val_def b64Char_def Let_def)

lemma stdVal_char_bounds: "stdVal c = Some n \<Longrightarrow> c \<noteq> CHR ''='' \<and> c \<noteq> CHR 0x0A \<and> c \<noteq> CHR 0x0D"
  by (auto simp: b64Val_def)

lemma b64Char_plain [simp]:
  "n < 64 \<Longrightarrow> b64Char n \<noteq> CHR ''=''" "n < 64 \<Longrightarrow> b64Char n \<noteq> CHR 0x0A" "n < 64 \<Longrightarrow> b64Char n \<noteq> CHR 0x0D"
  using stdVal_char_bounds[OF stdVal_b64Char] by blast+

lemma base64_digits:
  fixes n :: nat
  shows "((n div 262144 * 64 + n div 4096 mod 64) * 64 + n div 64 mod 64) * 64 + n mod 64 = n"
proof -
  have q: "n div 4096 = n div 64 div 64" "n div 262144 = n div 64 div 64 div 64"
    by (simp_all add: div_mult2_eq[symmetric])
  show ?thesis unfolding q by (simp only: div_mult_mod_eq)
qed

lemma last_byte: "c < 256 \<Longrightarrow> (x * 256 + c) div 256 = x \<and> (x * 256 + c) mod 256 = (c :: nat)"
  by simp

lemma three_bytes_bound: "a < 256 \<Longrightarrow> b < 256 \<Longrightarrow> c < 256 \<Longrightarrow> (a * 256 + b) * 256 + c < (64 * 262144 :: nat)"
proof -
  assume h: "a < 256" "b < 256" "c < 256"
  have "Suc (a * 256 + b) \<le> 65536" using h by simp
  then have "Suc (a * 256 + b) * 256 \<le> 65536 * 256" by (rule mult_le_mono1)
  then show ?thesis using h(3) by simp
qed

lemma bytesOf4_encode:
  fixes a b c :: char
  defines "n \<equiv> ((of_char a * 256 + of_char b) * 256 + of_char c :: nat)"
  shows "bytesOf4 (n div 262144) (n div 4096 mod 64) (n div 64 mod 64) (n mod 64) = [a, b, c]"
    and "n div 262144 < 64"
proof -
  have a: "(of_char a :: nat) < 256" and b: "(of_char b :: nat) < 256" and c: "(of_char c :: nat) < 256"
    by (rule nat_of_char_less_256)+
  have q: "n div 256 = of_char a * 256 + of_char b" "n mod 256 = of_char c" unfolding n_def using last_byte[OF c] by blast+
  moreover have "n div 65536 = n div 256 div 256" by (simp add: div_mult2_eq[symmetric])
  ultimately have "n div 65536 = of_char a" "n div 256 mod 256 = of_char b" "n mod 256 = of_char c"
    using last_byte[OF b] by (simp_all only: simp_thms)
  then show "bytesOf4 (n div 262144) (n div 4096 mod 64) (n div 64 mod 64) (n mod 64) = [a, b, c]"
    unfolding bytesOf4_def base64_digits by (simp only: Let_def char_of_char)
  have "n < 64 * 262144" unfolding n_def by (rule three_bytes_bound[OF a b c])
  then show "n div 262144 < 64" by (simp add: div_less_iff_less_mult)
qed

lemma b64Groups_encode:
  "length s mod 3 = 0 \<Longrightarrow> b64Groups stdVal True (b64Encode s) = Some s"
proof (induction s rule: b64Encode.induct)
  case (1 a b c rest)
  let ?n = "(of_char a * 256 + of_char b) * 256 + of_char c :: nat"
  have "b64Groups stdVal True (b64Encode rest) = Some rest" using 1 by simp
  moreover note bytesOf4_encode[of a b c]
  ultimately show ?case by (simp add: Let_def stdVal_b64Char)
qed auto

lemma b64Encode_plain: "c \<in> set (b64Encode s) \<Longrightarrow> c \<noteq> CHR 0x0A \<and> c \<noteq> CHR 0x0D"
proof (induction s rule: b64Encode.induct)
  case (1 a b d rest)
  then show ?case using bytesOf4_encode(2)[of a b d] by (auto simp: Let_def)
qed auto

lemma decodeBase64_encode: "length s mod 3 = 0 \<Longrightarrow> decodeBase64 (b64Encode s) = s"
proof -
  assume "length s mod 3 = 0"
  moreover have "filter (\<lambda>c. c \<noteq> CHR 0x0A \<and> c \<noteq> CHR 0x0D) (b64Encode s) = b64Encode s"
    using b64Encode_plain by (auto simp: filter_id_conv)
  ultimately show ?thesis by (simp add: decodeBase64_def b64Decode_def b64Groups_encode)
qed

lemma digitsVal_zeros [simp]: "digitsVal 0 (replicate k (CHR ''0'') @ s) = digitsVal 0 s"
  by (induction k) (simp_all add: digitVal_def)

lemma length_natDigits: "n < 10 ^ Suc k \<Longrightarrow> length (natDigits n) \<le> Suc k"
proof (induction k arbitrary: n)
  case 0
  then show ?case by (subst natDigits.simps) simp
next
  case (Suc k)
  then have "n div 10 < 10 ^ Suc k" by (simp add: div_less_iff_less_mult)
  from Suc.IH[OF this] show ?case by (subst natDigits.simps) simp
qed

text \<open>
  The block identifier the Azure client sends for index \<open>idx\<close> (a 36 character prefix and the
  zero-padded decimal index, in base64) is read back as exactly that index; and no identifier,
  whatever its bytes, gives an index outside twelve decimal digits, so the index never leaves the
  range of an \<open>int\<close>.
\<close>

theorem block_index_roundtrip:
  assumes "length uuid = 36" and "idx < 10 ^ 12"
  shows "chunkIndexFromBlockID (azureBlockID uuid idx) = Some idx
    \<and> (\<forall>bid n. chunkIndexFromBlockID bid = Some n \<longrightarrow> n < 10 ^ 12)"
proof -
  let ?tail = "replicate (12 - length (natDigits idx)) (CHR ''0'') @ natDigits idx"
  have "length (natDigits idx) \<le> 12" using length_natDigits[of idx 11] assms(2) by simp
  then have len: "length (uuid @ ?tail) = 48" using assms(1) by simp
  then have d: "decodeBase64 (azureBlockID uuid idx) = uuid @ ?tail"
    unfolding azureBlockID_def by (intro decodeBase64_encode) simp
  have "isDigit (CHR ''0'')" by (simp add: isDigit_def)
  then have "\<forall>c \<in> set ?tail. isDigit c" using natDigits_isDigit[of idx] by (auto simp: list_all_iff)
  then have "takeWhile isDigit ?tail = ?tail" by (simp only: takeWhile_eq_all_conv)
  then have "parseLeadingInt ?tail = Some idx" by (simp add: parseLeadingInt_def Let_def del: takeWhile_eq_all_conv)
  then show ?thesis using d len assms(1) chunkIndex_bound by (simp add: chunkIndexFromBlockID_def)
qed

theorem block_index_roundtrip_witness:
  "chunkIndexFromBlockID (azureBlockID ''0b1c2d3e-1111-4222-8333-444455556666'' 17) = Some 17"
  using block_index_roundtrip[of "''0b1c2d3e-1111-4222-8333-444455556666''" 17] by simp

end
