(* ===== verification/Cache_Server.thy ===== *)
theory Cache_Server
  imports Cache_Lifecycle Cache_Blockid Github
begin

text \<open>
  The cache server (\<open>internal/cache/server.go\<close>, \<open>env.go\<close>): construction, URLs, routing, the
  bearer check, the scopes of a token, the CacheService handlers and the signed upload and
  download URLs, over the store of \<open>Cache_Store\<close>. A request carries its path as the segments of
  the cleaned path and its JSON body decoded. Parameters are HMAC-SHA256 (\<open>mac key message\<close>), the
  JSON decoders of the token payload and the reply of the upstream results service. The git bundle
  and the reverse proxy are named in the response, not run.
\<close>

section \<open>Server\<close>

record cache_server =
  cs_advertiseURL :: string
  cs_accessToken :: string
  cs_upstream :: "url option"
  cs_gitRepo :: string
  cs_gitBundler :: bool
  cs_gcInterval :: int
  cs_gcMaxAge :: int
  cs_gcMaxBytes :: int

definition isLoopbackHost :: "string \<Rightarrow> bool" where
  "isLoopbackHost host =
     (if equalFold host ''localhost'' then True
      else case parseGroups host of
             None \<Rightarrow> False
           | Some gs \<Rightarrow>
               if take 6 gs = [0, 0, 0, 0, 0, 65535] then gs ! 6 div 256 = 127
               else gs = [0, 0, 0, 0, 0, 0, 0, 1])"

text \<open>The upstream must be https, except for a loopback endpoint; no upstream is \<open>Inr None\<close>.\<close>

definition checkUpstream :: "string \<Rightarrow> gerr + url option" where
  "checkUpstream s =
     (if s = [] then Inr None
      else case parseURL s of
             None \<Rightarrow> Inl (errorf ''cache upstream url: '' (Leaf (''parse '' @ goQuote s)))
           | Some up \<Rightarrow>
               if ur_host up = [] \<or> (ur_scheme up \<noteq> ''https'' \<and> \<not> (ur_scheme up = ''http'' \<and> isLoopbackHost (urlHostname up)))
               then Inl (Leaf ''cache upstream must use https, except for loopback test endpoints'')
               else Inr (Some up))"

text \<open>The path token: the configured one if it is safe in a path, else the outcome of \<open>randomToken\<close>.\<close>

definition chooseToken :: "string \<Rightarrow> (gerr + string) \<Rightarrow> gerr + string" where
  "chooseToken configured rnd =
     (if configured = []
      then (case rnd of Inl e \<Rightarrow> Inl (errorf ''cache access token: '' e) | Inr t \<Rightarrow> Inr t)
      else if containsAny configured ''/?#'' \<or> pathEscape configured \<noteq> configured
      then Inl (Leaf ''cache access token must be URL path safe'')
      else Inr configured)"

definition newCacheServer :: "cache_config \<Rightarrow> (gerr + string) \<Rightarrow> gerr + cache_server" where
  "newCacheServer cfg rnd =
     (if ca_Storage cfg \<noteq> [] \<and> ca_Storage cfg \<noteq> ''filesystem''
      then Inl (Leaf (''cache storage '' @ goQuote (ca_Storage cfg) @ '' not implemented (filesystem only)''))
      else case chooseToken (ca_AccessToken cfg) rnd of
             Inl e \<Rightarrow> Inl e
           | Inr tok \<Rightarrow>
               (case checkUpstream (ca_Upstream cfg) of
                  Inl e \<Rightarrow> Inl e
                | Inr up \<Rightarrow>
                    Inr \<lparr>cs_advertiseURL = trimRight (ca_AdvertiseURL cfg) ''/'', cs_accessToken = tok, cs_upstream = up,
                         cs_gitRepo = [], cs_gitBundler = False,
                         cs_gcInterval = (if ca_GCIntervalSec cfg > 0 then wrap64 (ca_GCIntervalSec cfg * 1000000000) else 0),
                         cs_gcMaxAge = (if ca_MaxAgeDays cfg > 0 then wrap64 (ca_MaxAgeDays cfg * 24 * 3600000000000) else 0),
                         cs_gcMaxBytes = (if ca_MaxSizeGB cfg > 0 then wrap64 (ca_MaxSizeGB cfg * 2 ^ 30) else 0)\<rparr>))"

definition SetGitBundler :: "cache_server \<Rightarrow> string \<Rightarrow> cache_server" where
  "SetGitBundler s slug = s\<lparr>cs_gitRepo := trimSuffix slug ''.git'', cs_gitBundler := True\<rparr>"

definition accessPrefix :: "cache_server \<Rightarrow> string" where
  "accessPrefix s = (if cs_accessToken s = [] then [] else ''/_mr/'' @ cs_accessToken s)"

definition AdvertiseURL :: "cache_server \<Rightarrow> string" where
  "AdvertiseURL s = (if cs_advertiseURL s = [] then [] else cs_advertiseURL s @ accessPrefix s)"

definition RedactedAdvertiseURL :: "cache_server \<Rightarrow> string" where
  "RedactedAdvertiseURL s = (if cs_advertiseURL s = [] then [] else cs_advertiseURL s @ ''/_mr/<redacted>'')"

definition redactPath :: "cache_server \<Rightarrow> string \<Rightarrow> string" where
  "redactPath s path =
     (if prefix (accessPrefix s) path then ''/_mr/<redacted>'' @ trimPrefix path (accessPrefix s) else path)"

definition RunnerEnv :: "string \<Rightarrow> (string \<times> string) list" where
  "RunnerEnv advertise =
     (let base = trimRight advertise ''/'' @ ''/''
      in [(''ACTIONS_RESULTS_URL'', base), (''ACTIONS_CACHE_URL'', base), (''ACTIONS_CACHE_SERVICE_V2'', ''true'')])"

text \<open>One tick of \<open>runGC\<close> at \<open>now\<close> nanoseconds.\<close>

definition gcEnabled :: "cache_server \<Rightarrow> bool" where
  "gcEnabled s = (\<not> (cs_gcInterval s = 0 \<or> (cs_gcMaxAge s = 0 \<and> cs_gcMaxBytes s = 0)))"

definition gcTick :: "cache_server \<Rightarrow> int \<Rightarrow> store \<Rightarrow> nat \<times> store" where
  "gcTick s now st =
     evict st (if cs_gcMaxAge s > 0 then (now - cs_gcMaxAge s) div 1000000 else 0) (cs_gcMaxBytes s)"

section \<open>Signed identifiers\<close>

definition signedMessage :: "string \<Rightarrow> string \<Rightarrow> string \<Rightarrow> string" where
  "signedMessage kind i ex = kind @ newline @ i @ newline @ ex"

definition signID :: "(string \<Rightarrow> string \<Rightarrow> string) \<Rightarrow> string \<Rightarrow> int \<Rightarrow> string \<Rightarrow> string \<Rightarrow> string" where
  "signID mac tok now kind i =
     (let ex = formatInt (now + 7200)
      in i @ ''.'' @ ex @ ''.'' @ hexEncode (mac tok (signedMessage kind i ex)))"

definition verifySignedID :: "(string \<Rightarrow> string \<Rightarrow> string) \<Rightarrow> string \<Rightarrow> int \<Rightarrow> string \<Rightarrow> string \<Rightarrow> string option" where
  "verifySignedID mac tok now kind signed =
     (case splitOn (CHR ''.'') signed of
        [i, ex, gotHex] \<Rightarrow>
          (case parseInt64 ex of
             None \<Rightarrow> None
           | Some until \<Rightarrow>
               if now > until then None
               else (case hexDecode gotHex of
                       None \<Rightarrow> None
                     | Some got \<Rightarrow> if got = mac tok (signedMessage kind i ex) then Some i else None))
      | _ \<Rightarrow> None)"

section \<open>Tokens and scopes\<close>

record scope_entry =
  se_Scope :: string
  se_Permission :: int

record scope_info =
  si_scopes :: "scope_entry list"
  si_repoID :: string

text \<open>
  The decoders of the token: the \<open>ac\<close> and \<open>repository_id\<close> claims of a payload, the scope list in
  \<open>ac\<close> (whose decoding error is ignored, so the decoder gives what it filled in) and \<open>scp\<close>.
\<close>

record jwt_json =
  jw_claims :: "string \<Rightarrow> (string \<times> string) option"
  jw_scopes :: "string \<Rightarrow> scope_entry list"
  jw_scp :: "string \<Rightarrow> string option"

definition jwtPayload :: "string \<Rightarrow> string option" where
  "jwtPayload token =
     (let parts = splitOn (CHR ''.'') token
      in if length parts < 2 then None else rawURLDecode (parts ! 1))"

definition parseScopes :: "jwt_json \<Rightarrow> string \<Rightarrow> scope_info" where
  "parseScopes j token =
     (let none = \<lparr>si_scopes = [], si_repoID = []\<rparr>
      in if token = [] then none
         else case jwtPayload token of
                None \<Rightarrow> none
              | Some payload \<Rightarrow>
                  (case jw_claims j payload of
                     None \<Rightarrow> none
                   | Some (ac, repo) \<Rightarrow>
                       \<lparr>si_scopes = (if ac \<noteq> [] then jw_scopes j ac else []), si_repoID = repo\<rparr>))"

fun firstResultsScope :: "string list \<Rightarrow> (string \<times> string) option" where
  "firstResultsScope [] = None"
| "firstResultsScope (sc # rest) =
     (case splitOn (CHR '':'') sc of
        [a, b, c] \<Rightarrow> if a = ''Actions.Results'' \<and> b \<noteq> [] \<and> c \<noteq> [] then Some (b, c) else firstResultsScope rest
      | _ \<Rightarrow> firstResultsScope rest)"

definition parseResultsBackendIDs :: "jwt_json \<Rightarrow> string \<Rightarrow> (string \<times> string) option" where
  "parseResultsBackendIDs j token =
     (case jwtPayload token of
        None \<Rightarrow> None
      | Some payload \<Rightarrow>
          (case jw_scp j payload of None \<Rightarrow> None | Some scp \<Rightarrow> firstResultsScope (fieldsOf scp)))"

fun writeScope :: "scope_entry list \<Rightarrow> string" where
  "writeScope [] = []"
| "writeScope (sc # rest) = (if se_Permission sc \<ge> 2 then se_Scope sc else writeScope rest)"

text \<open>\<open>sort.SliceStable\<close> by descending permission.\<close>

definition scopeStringsByPermission :: "scope_entry list \<Rightarrow> string list" where
  "scopeStringsByPermission scopes = map se_Scope (sort_key (\<lambda>sc. - se_Permission sc) scopes)"

text \<open>
  The upstream's answer to \<open>ListArtifacts\<close> for the run and job of the token, sent with the token:
  a transport error, or a status and the media type of a well-formed \<open>Content-Type\<close>.
\<close>

datatype upstream_reply = UpstreamError gerr | UpstreamReply nat "string option"

type_synonym upstream_call = "url \<Rightarrow> string \<times> string \<Rightarrow> string \<Rightarrow> upstream_reply"

definition validateRuntimeToken :: "jwt_json \<Rightarrow> upstream_call \<Rightarrow> cache_server \<Rightarrow> string \<Rightarrow> bool" where
  "validateRuntimeToken j up s token =
     (case cs_upstream s of
        None \<Rightarrow> False
      | Some u \<Rightarrow>
          (case parseResultsBackendIDs j token of
             None \<Rightarrow> False
           | Some ids \<Rightarrow>
               (case up u ids token of
                  UpstreamError e \<Rightarrow> False
                | UpstreamReply status media \<Rightarrow> status = 200 \<and> media = Some ''application/protobuf'')))"

section \<open>Requests and responses\<close>

record cache_body =
  cb_Key :: string
  cb_Version :: string
  cb_RestoreKeys :: "string list"

record cache_request =
  rq_method :: string
  rq_path :: "string list"
  rq_auth :: string
  rq_host :: string
  rq_tls :: bool
  rq_proto :: string
  rq_comp :: string
  rq_blockid :: string
  rq_json :: "gerr + cache_body"
  rq_data :: "string \<times> gerr option"

text \<open>What one request sees of the clock (seconds and milliseconds) and of \<open>randomID\<close>.\<close>

record moment =
  mo_sec :: int
  mo_ms :: int
  mo_id :: "gerr + int"

datatype response =
    Text nat string
  | NotOK
  | UploadURL string
  | DownloadURL string string
  | Finalized string
  | PartCreated
  | Content "(string \<times> gerr option) option"
  | Bundle string
  | Proxied "string list"
  | RedirectSlash

definition internalError :: response where
  "internalError = Text 500 ''internal error''"

definition notFound :: response where
  "notFound = Text 404 ''404 page not found''"

definition requireCacheBearer :: "jwt_json \<Rightarrow> upstream_call \<Rightarrow> cache_server \<Rightarrow> string \<Rightarrow> response + scope_info" where
  "requireCacheBearer j up s auth =
     (let token = trimPrefix auth ''Bearer ''; info = parseScopes j token
      in if token = [] \<or> token = auth \<or> si_scopes info = [] \<or> si_repoID info = []
         then Inl (Text 401 ''missing or invalid cache token'')
         else if \<not> validateRuntimeToken j up s token
         then Inl (Text 401 ''cache token authentication failed'')
         else Inr info)"

definition baseURL :: "cache_server \<Rightarrow> cache_request \<Rightarrow> string" where
  "baseURL s r =
     (if rq_host r = [] then AdvertiseURL s
      else (let scheme = (if rq_proto r \<noteq> [] then rq_proto r else if rq_tls r then ''https'' else ''http'')
            in scheme @ ''://'' @ rq_host r @ accessPrefix s))"

section \<open>Handlers\<close>

definition handleCreateCacheEntry ::
  "(string \<Rightarrow> string \<Rightarrow> string) \<Rightarrow> cache_server \<Rightarrow> cache_request \<Rightarrow> moment \<Rightarrow> scope_info \<Rightarrow> store \<Rightarrow> response \<times> store" where
  "handleCreateCacheEntry mac s r t sc st =
     (case rq_json r of
        Inl e \<Rightarrow> (Text 400 (''invalid body: '' @ errMsg e), st)
      | Inr body \<Rightarrow>
          (let write = writeScope (si_scopes sc)
           in if write = [] then (Text 403 ''no scope with write permission'', st)
              else case createUpload st (mo_id t)
                     \<lparr>sk_key = cb_Key body, sk_version = cb_Version body, sk_scope = write, sk_repo = si_repoID sc\<rparr> of
                     (Inl e, st1) \<Rightarrow> (internalError, st1)
                   | (Inr None, st1) \<Rightarrow> (NotOK, st1)
                   | (Inr (Some i), st1) \<Rightarrow>
                       (UploadURL (baseURL s r @ ''/devstoreaccount1/upload/''
                          @ signID mac (cs_accessToken s) (mo_sec t) ''upload'' (formatInt i)), st1)))"

definition handleGetDownloadURL ::
  "(string \<Rightarrow> string \<Rightarrow> string) \<Rightarrow> cache_server \<Rightarrow> cache_request \<Rightarrow> moment \<Rightarrow> scope_info \<Rightarrow> store \<Rightarrow> response \<times> store" where
  "handleGetDownloadURL mac s r t sc st =
     (case rq_json r of
        Inl e \<Rightarrow> (Text 400 (''invalid body: '' @ errMsg e), st)
      | Inr body \<Rightarrow>
          (case matchEntry st (mo_ms t) (cb_Key body # cb_RestoreKeys body) (cb_Version body)
                  (scopeStringsByPermission (si_scopes sc)) (si_repoID sc) of
             (None, st1) \<Rightarrow> (NotOK, st1)
           | (Some e, st1) \<Rightarrow>
               (DownloadURL (baseURL s r @ ''/download/'' @ signID mac (cs_accessToken s) (mo_sec t) ''download'' (en_id e))
                  (en_key e), st1)))"

definition handleFinalize :: "cache_request \<Rightarrow> moment \<Rightarrow> scope_info \<Rightarrow> store \<Rightarrow> response \<times> store" where
  "handleFinalize r t sc st =
     (case rq_json r of
        Inl e \<Rightarrow> (Text 400 (''invalid body: '' @ errMsg e), st)
      | Inr body \<Rightarrow>
          (let write = writeScope (si_scopes sc)
           in if write = [] then (Text 403 ''no scope with write permission'', st)
              else case completeUpload st (mo_ms t)
                     \<lparr>sk_key = cb_Key body, sk_version = cb_Version body, sk_scope = write, sk_repo = si_repoID sc\<rparr> of
                     (Inr i, st1) \<Rightarrow> (Finalized i, st1)
                   | (Inl e, st1) \<Rightarrow>
                       (if errIs ErrNoParts e \<or> errIs ErrPartMismatch e then Text 400 (errMsg e)
                        else if errIs SqlErrNoRows e then Text 404 ''upload not found''
                        else internalError, st1)))"

definition handleUploadPut ::
  "(string \<Rightarrow> string \<Rightarrow> string) \<Rightarrow> cache_server \<Rightarrow> cache_request \<Rightarrow> moment \<Rightarrow> string \<Rightarrow> store \<Rightarrow> response \<times> store" where
  "handleUploadPut mac s r t signed st =
     (case verifySignedID mac (cs_accessToken s) (mo_sec t) ''upload'' signed of
        None \<Rightarrow> (Text 403 ''invalid upload signature'', st)
      | Some idStr \<Rightarrow>
          (case parseInt64 idStr of
             None \<Rightarrow> (Text 400 ''invalid upload id'', st)
           | Some i \<Rightarrow>
               if rq_comp r = ''blocklist'' then (PartCreated, st)
               else case (if rq_blockid r \<noteq> [] then chunkIndexFromBlockID (rq_blockid r) else Some 0) of
                      None \<Rightarrow> (Text 400 ''invalid block id'', st)
                    | Some idx \<Rightarrow>
                        (case uploadPart st i idx (rq_data r) of
                           (Some e, st1) \<Rightarrow> (internalError, st1)
                         | (None, st1) \<Rightarrow> (PartCreated, st1))))"

text \<open>The body is copied with one round more than there are bytes left to read.\<close>

definition handleDownload ::
  "(string \<Rightarrow> string \<Rightarrow> string) \<Rightarrow> cache_server \<Rightarrow> moment \<Rightarrow> string \<Rightarrow> store \<Rightarrow> response" where
  "handleDownload mac s t signed st =
     (case verifySignedID mac (cs_accessToken s) (mo_sec t) ''download'' signed of
        None \<Rightarrow> Text 403 ''invalid download signature''
      | Some i \<Rightarrow>
          (case openDownload st i of
             Inl e \<Rightarrow> if errIs OsErrNotExist e then Text 404 ''cache entry not found'' else internalError
           | Inr p \<Rightarrow> Content (copyAll (Suc (length (unread st p))) st 32768 p)))"

definition handleGitBundle :: "cache_server \<Rightarrow> string \<Rightarrow> string \<Rightarrow> response" where
  "handleGitBundle s owner repo =
     (if \<not> cs_gitBundler s then Text 404 ''git cache not enabled''
      else (let slug = owner @ ''/'' @ trimSuffix repo ''.git''
            in if slug \<noteq> cs_gitRepo s then notFound else Bundle slug))"

text \<open>The access prefix is removed before a request is proxied.\<close>

definition handleCatchAll :: "cache_server \<Rightarrow> cache_request \<Rightarrow> response" where
  "handleCatchAll s r =
     (case cs_upstream s of
        None \<Rightarrow> Text 404 ''not found''
      | Some u \<Rightarrow>
          (case rq_path r of
             a # b # rest \<Rightarrow>
               if cs_accessToken s \<noteq> [] \<and> a = ''_mr'' \<and> b = cs_accessToken s \<and> rest \<noteq> [] then Proxied rest else Proxied (rq_path r)
           | _ \<Rightarrow> Proxied (rq_path r)))"

section \<open>Routes\<close>

datatype handler =
    HCreate | HGetURL | HFinalize | HUnsupported
  | HUpload string | HDownload string | HGitMirror string string
  | HCatchAll | HHealth | HNotFound | HRedirect

definition cacheService :: string where
  "cacheService = ''github.actions.results.api.v1.CacheService''"

definition svcRoute :: "string \<Rightarrow> string list \<Rightarrow> handler" where
  "svcRoute m ops =
     (if ops = [] then HRedirect
      else if m = ''POST'' \<and> ops = [''CreateCacheEntry''] then HCreate
      else if m = ''POST'' \<and> ops = [''GetCacheEntryDownloadURL''] then HGetURL
      else if m = ''POST'' \<and> ops = [''FinalizeCacheEntryUpload''] then HFinalize
      else HUnsupported)"

definition isGet :: "string \<Rightarrow> bool" where
  "isGet m = (m = ''GET'' \<or> m = ''HEAD'')"

text \<open>The routes below \<open>/_mr/{token}\<close>; a wildcard does not match an empty segment.\<close>

definition protectedRoute :: "string \<Rightarrow> string list \<Rightarrow> handler" where
  "protectedRoute m segs =
     (case segs of
        [] \<Rightarrow> HRedirect
      | a # rest \<Rightarrow>
          if a = ''twirp'' \<and> rest \<noteq> [] \<and> hd rest = cacheService then svcRoute m (tl rest)
          else if m = ''PUT'' \<and> a = ''devstoreaccount1'' \<and> length rest = 2 \<and> hd rest = ''upload'' \<and> rest ! 1 \<noteq> []
          then HUpload (rest ! 1)
          else if m = ''PUT'' \<and> a = ''upload'' \<and> length rest = 1 \<and> hd rest \<noteq> [] then HUpload (hd rest)
          else if isGet m \<and> a = ''download'' \<and> length rest = 1 \<and> hd rest \<noteq> [] then HDownload (hd rest)
          else if isGet m \<and> a = ''gitmirror'' \<and> length rest = 2 \<and> hd rest \<noteq> [] \<and> rest ! 1 \<noteq> []
          then HGitMirror (hd rest) (rest ! 1)
          else HCatchAll)"

definition routes :: "string \<Rightarrow> string list \<Rightarrow> string option \<times> handler" where
  "routes m segs =
     (case segs of
        [] \<Rightarrow> (None, HNotFound)
      | a # rest \<Rightarrow>
          if a = ''_mr'' \<and> rest \<noteq> [] \<and> hd rest \<noteq> [] then (Some (hd rest), protectedRoute m (tl rest))
          else if a = ''twirp''
          then (None, if rest = [] then HRedirect
                      else if hd rest = cacheService then svcRoute m (tl rest) else HCatchAll)
          else if isGet m \<and> a = ''health'' \<and> rest = [] then (None, HHealth)
          else (None, HNotFound))"

definition bearerHandler :: "handler \<Rightarrow> bool" where
  "bearerHandler h = (h = HCreate \<or> h = HGetURL \<or> h = HFinalize \<or> h = HUnsupported)"

definition bearerHandle ::
  "(string \<Rightarrow> string \<Rightarrow> string) \<Rightarrow> cache_server \<Rightarrow> cache_request \<Rightarrow> moment \<Rightarrow> scope_info \<Rightarrow> handler \<Rightarrow> store \<Rightarrow> response \<times> store" where
  "bearerHandle mac s r t sc h st =
     (case h of
        HCreate \<Rightarrow> handleCreateCacheEntry mac s r t sc st
      | HGetURL \<Rightarrow> handleGetDownloadURL mac s r t sc st
      | HFinalize \<Rightarrow> handleFinalize r t sc st
      | _ \<Rightarrow> (Text 404 ''unsupported cache operation'', st))"

definition handle ::
  "(string \<Rightarrow> string \<Rightarrow> string) \<Rightarrow> jwt_json \<Rightarrow> upstream_call \<Rightarrow> cache_server \<Rightarrow> cache_request \<Rightarrow> moment
     \<Rightarrow> handler \<Rightarrow> store \<Rightarrow> response \<times> store" where
  "handle mac j up s r t h st =
     (if bearerHandler h
      then (case requireCacheBearer j up s (rq_auth r) of
              Inl e \<Rightarrow> (e, st)
            | Inr sc \<Rightarrow> bearerHandle mac s r t sc h st)
      else case h of
             HUpload i \<Rightarrow> handleUploadPut mac s r t i st
           | HDownload i \<Rightarrow> (handleDownload mac s t i st, st)
           | HGitMirror owner repo \<Rightarrow> (handleGitBundle s owner repo, st)
           | HCatchAll \<Rightarrow> (handleCatchAll s r, st)
           | HHealth \<Rightarrow> (Text 200 ''ok'', st)
           | HRedirect \<Rightarrow> (RedirectSlash, st)
           | _ \<Rightarrow> (notFound, st))"

text \<open>\<open>protect\<close> in front of the routes with a path token, which a redirect does not reach.\<close>

definition serve ::
  "(string \<Rightarrow> string \<Rightarrow> string) \<Rightarrow> jwt_json \<Rightarrow> upstream_call \<Rightarrow> cache_server \<Rightarrow> cache_request \<Rightarrow> moment
     \<Rightarrow> store \<Rightarrow> response \<times> store" where
  "serve mac j up s r t st =
     (case routes (rq_method r) (rq_path r) of
        (None, h) \<Rightarrow> handle mac j up s r t h st
      | (Some tok, h) \<Rightarrow>
          if h \<noteq> HRedirect \<and> tok \<noteq> cs_accessToken s then (notFound, st)
          else handle mac j up s r t h st)"

section \<open>Signatures\<close>

lemma splitOn_three:
  assumes "c \<notin> set a" "c \<notin> set b" "c \<notin> set d"
  shows "splitOn c (a @ [c] @ b @ [c] @ d) = [a, b, d]"
  using assms by (simp add: splitOn_append)

lemma splitOn_signed:
  "CHR ''.'' \<notin> set i \<Longrightarrow> splitOn (CHR ''.'') (signID mac tok now kind i)
     = [i, formatInt (now + 7200), hexEncode (mac tok (signedMessage kind i (formatInt (now + 7200))))]"
  unfolding signID_def Let_def using splitOn_three[OF _ formatInt_no_dot hexEncode_no_dot] by simp

lemma verify_signed:
  assumes "CHR ''.'' \<notin> set i" "- (2 ^ 63) \<le> t + 7200" "t + 7200 < 2 ^ 63"
  shows "verifySignedID mac tok now kind' (signID mac tok t kind i)
    = (if now \<le> t + 7200 \<and> mac tok (signedMessage kind i (formatInt (t + 7200))) = mac tok (signedMessage kind' i (formatInt (t + 7200)))
       then Some i else None)"
  by (simp add: verifySignedID_def splitOn_signed[OF assms(1)] parseInt64_formatInt[OF assms(2,3)])

lemma verifySignedID_Some:
  assumes "verifySignedID mac tok now kind signed = Some i"
  shows "\<exists>ex tag until. signed = i @ ''.'' @ ex @ ''.'' @ tag \<and> parseInt64 ex = Some until \<and> now \<le> until
    \<and> hexDecode tag = Some (mac tok (signedMessage kind i ex))"
proof -
  obtain a b c where s: "splitOn (CHR ''.'') signed = [a, b, c]"
    using assms by (auto simp: verifySignedID_def split: list.splits)
  then have "signed = a @ ''.'' @ b @ ''.'' @ c" using sepBy_splitOn[of "CHR ''.''" signed] by simp
  moreover have "a = i \<and> (\<exists>until. parseInt64 b = Some until \<and> now \<le> until \<and> hexDecode c = Some (mac tok (signedMessage kind i b)))"
    using assms s by (auto simp: verifySignedID_def split: option.splits if_splits)
  ultimately show ?thesis by blast
qed

lemma signedMessage_kind [simp]: "signedMessage k i ex = signedMessage k' i ex \<longleftrightarrow> k = k'"
  by (simp add: signedMessage_def)

text \<open>
  C31: a signed identifier is accepted for its own purpose exactly until two hours after it was
  issued, and gives back the identifier. It is accepted for another purpose only if two different
  messages have the same authentication code under the server's token. Whatever is accepted
  carries the code of its own purpose, identifier and expiry, and has not expired.
\<close>

theorem signed_ids_are_bound:
  assumes "CHR ''.'' \<notin> set i" and "- (2 ^ 63) \<le> t + 7200" and "t + 7200 < 2 ^ 63"
  shows "verifySignedID mac tok now kind (signID mac tok t kind i) = (if now \<le> t + 7200 then Some i else None)
    \<and> (\<forall>kind' x. verifySignedID mac tok now kind' (signID mac tok t kind i) = Some x \<longrightarrow>
         x = i \<and> (kind' = kind \<or> (\<exists>m m'. m \<noteq> m' \<and> mac tok m = mac tok m')))
    \<and> (\<forall>kind' signed x. verifySignedID mac tok now kind' signed = Some x \<longrightarrow>
         (\<exists>ex tag until. signed = x @ ''.'' @ ex @ ''.'' @ tag \<and> parseInt64 ex = Some until \<and> now \<le> until
            \<and> hexDecode tag = Some (mac tok (signedMessage kind' x ex))))"
proof (intro conjI allI impI)
  show "verifySignedID mac tok now kind (signID mac tok t kind i) = (if now \<le> t + 7200 then Some i else None)"
    by (simp add: verify_signed[OF assms])
next
  fix kind' x assume v: "verifySignedID mac tok now kind' (signID mac tok t kind i) = Some x"
  then show "x = i" by (simp add: verify_signed[OF assms] split: if_splits)
  show "kind' = kind \<or> (\<exists>m m'. m \<noteq> m' \<and> mac tok m = mac tok m')"
    using v by (simp add: verify_signed[OF assms] split: if_splits) (metis signedMessage_kind)
next
  fix kind' signed x assume "verifySignedID mac tok now kind' signed = Some x"
  then show "\<exists>ex tag until. signed = x @ ''.'' @ ex @ ''.'' @ tag \<and> parseInt64 ex = Some until \<and> now \<le> until
            \<and> hexDecode tag = Some (mac tok (signedMessage kind' x ex))"
    by (rule verifySignedID_Some)
qed

theorem signed_ids_are_bound_witness:
  "verifySignedID (\<lambda>k m. k @ m) ''tok'' 1000 ''upload'' (signID (\<lambda>k m. k @ m) ''tok'' 900 ''upload'' ''77'') = Some ''77''"
  using signed_ids_are_bound[of "''77''" 900 "\<lambda>k m. k @ m" "''tok''" 1000 "''upload''"] by simp

section \<open>Isolation of repositories\<close>

text \<open>Nothing of another repository changed: its rows, in order, and the blobs of its entries.\<close>

definition othersKept :: "string \<Rightarrow> store \<Rightarrow> store \<Rightarrow> bool" where
  "othersKept r st st' \<longleftrightarrow>
     filter (\<lambda>u. up_repo u \<noteq> r) (st_uploads st') = filter (\<lambda>u. up_repo u \<noteq> r) (st_uploads st)
     \<and> filter (\<lambda>e. en_repo e \<noteq> r) (st_entries st') = filter (\<lambda>e. en_repo e \<noteq> r) (st_entries st)
     \<and> (\<forall>e \<in> set (st_entries st). en_repo e \<noteq> r \<longrightarrow> partsOf st' (en_id e) = partsOf st (en_id e))"

lemma othersKept_refl [simp]: "othersKept r st st"
  by (simp add: othersKept_def)

lemma filter_map_fixed:
  "(\<And>x. P (f x) = P x) \<Longrightarrow> (\<And>x. x \<in> set xs \<Longrightarrow> P x \<Longrightarrow> f x = x) \<Longrightarrow> filter P (map f xs) = filter P xs"
  by (induction xs) auto

lemma createUpload_others: "othersKept (sk_repo sl) st (snd (createUpload st rid sl))"
  by (auto simp: createUpload_def othersKept_def split: sum.splits)

lemma touch_repo [simp]: "en_repo (touch i now e) = en_repo e"
  by (simp add: touch_def)

lemma touchEntry_others:
  assumes "storeOk st" "e \<in> set (st_entries st)"
  shows "othersKept (en_repo e) st (touchEntry (en_id e) now st)"
proof -
  have "touch (en_id e) now x = x" if "x \<in> set (st_entries st)" "en_repo x \<noteq> en_repo e" for x
    using assms that by (auto simp: touch_def storeOk_def distinct_map dest: inj_onD)
  then have "filter (\<lambda>x. en_repo x \<noteq> en_repo e) (map (touch (en_id e) now) (st_entries st))
      = filter (\<lambda>x. en_repo x \<noteq> en_repo e) (st_entries st)"
    by (intro filter_map_fixed) simp_all
  then show ?thesis by (simp add: othersKept_def)
qed

lemma matchEntry_others:
  assumes "storeOk st" "matchEntry st now keys v scopes r = (res, st')"
  shows "othersKept r st st'"
proof (cases res)
  case None
  then show ?thesis using assms(2) by (auto simp: matchEntry_def split: if_splits option.splits)
next
  case (Some e)
  have "en_repo e = r" using assms(2) Some
    by (auto simp: matchEntry_def split: if_splits option.splits dest!: firstScope_Some firstKey_Some)
  then show ?thesis using matchEntry_Some[OF assms(2)[unfolded Some]] touchEntry_others[OF assms(1), of e now] by simp
qed

lemma slot_repo: "uploadSlot u = sl \<Longrightarrow> up_repo u = sk_repo sl" "entrySlot e = sl \<Longrightarrow> en_repo e = sk_repo sl"
  by (auto simp: uploadSlot_def entrySlot_def)

lemma dropUpload_others:
  assumes "storeOk st" "u \<in> set (st_uploads st)"
  shows "filter (\<lambda>w. up_repo w \<noteq> up_repo u) (filter (\<lambda>w. up_id w \<noteq> up_id u) (st_uploads st))
    = filter (\<lambda>w. up_repo w \<noteq> up_repo u) (st_uploads st)"
proof -
  have "w = u" if "w \<in> set (st_uploads st)" "up_id w = up_id u" for w
    using assms that by (auto simp: storeOk_def distinct_map dest: inj_onD)
  then show ?thesis by (auto intro!: filter_cong)
qed

lemma repoint_repo [simp]: "en_repo (repoint sl f n t e) = en_repo e"
  by (simp add: repoint_def)

lemma promote_others:
  assumes "promote st now sl f n = Inr st1"
  shows "filter (\<lambda>e. en_repo e \<noteq> sk_repo sl) (st_entries st1) = filter (\<lambda>e. en_repo e \<noteq> sk_repo sl) (st_entries st)"
proof -
  have "repoint sl f n now e = e" if "en_repo e \<noteq> sk_repo sl" for e
    using that slot_repo(2)[of e sl] by (auto simp: repoint_def)
  then have "filter (\<lambda>e. en_repo e \<noteq> sk_repo sl) (map (repoint sl f n now) (st_entries st))
      = filter (\<lambda>e. en_repo e \<noteq> sk_repo sl) (st_entries st)"
    by (intro filter_map_fixed) simp_all
  then show ?thesis using assms
    by (auto simp: promote_def Let_def split: if_splits option.splits)
qed

lemma completeUpload_others:
  assumes ok: "storeOk st" and c: "completeUpload st now sl = (res, st')"
  shows "othersKept (sk_repo sl) st st'"
proof (cases "List.find (\<lambda>u. uploadSlot u = sl) (st_uploads st)")
  case None
  then show ?thesis using c by (simp add: completeUpload_def)
next
  case (Some u)
  then have u: "u \<in> set (st_uploads st)" "uploadSlot u = sl" using find_Some_mem[OF Some] by auto
  have drop: "filter (\<lambda>w. up_repo w \<noteq> sk_repo sl) (filter (\<lambda>w. up_id w \<noteq> up_id u) (st_uploads st))
      = filter (\<lambda>w. up_repo w \<noteq> sk_repo sl) (st_uploads st)"
    using dropUpload_others[OF ok u(1)] slot_repo(1)[OF u(2)] by simp
  show ?thesis
  proof (cases "checkParts st u")
    case chk: (Some e)
    then have "st' = dropUpload (up_id u) st" using c Some by (simp add: completeUpload_def)
    then show ?thesis using drop by (simp add: othersKept_def)
  next
    case None
    let ?f = "folderName (up_id u)"
    have "?f \<notin> en_id ` set (st_entries st)" "distinct (map entrySlot (st_entries st))" "distinct (map en_id (st_entries st))"
      using ok u by (auto simp: storeOk_def)
    then obtain st1 where p: "promote st now sl ?f (countParts st ?f) = Inr st1"
      "promoted st now sl ?f (countParts st ?f) st1" using promote_spec by blast
    have st': "st' = dropUpload (up_id u) st1" using c Some None p(1) by (simp add: completeUpload_def)
    have es: "filter (\<lambda>e. en_repo e \<noteq> sk_repo sl) (st_entries st1) = filter (\<lambda>e. en_repo e \<noteq> sk_repo sl) (st_entries st)"
      using promote_others[OF p(1)] .
    have "partsOf st1 (en_id e) = partsOf st (en_id e)" if "e \<in> set (st_entries st)" "en_repo e \<noteq> sk_repo sl" for e
    proof -
      have "e \<in> set (filter (\<lambda>e. en_repo e \<noteq> sk_repo sl) (st_entries st1))" using that es by simp
      moreover have "entrySlot e \<noteq> sl" using that slot_repo(2) by blast
      ultimately show ?thesis using p(2) by (simp add: promoted_def)
    qed
    moreover have "st_uploads st1 = st_uploads st" using p(2) by (simp add: promoted_def)
    ultimately show ?thesis using drop es st' by (simp add: othersKept_def)
  qed
qed

lemma bearerHandle_others:
  assumes "storeOk st" "bearerHandle mac s r t sc h st = (resp, st')"
  shows "othersKept (si_repoID sc) st st'"
proof (cases "rq_json r")
  case (Inl e)
  then show ?thesis using assms(2)
    by (auto simp: bearerHandle_def handleCreateCacheEntry_def handleGetDownloadURL_def handleFinalize_def split: handler.splits)
next
  case (Inr body)
  let ?sl = "\<lparr>sk_key = cb_Key body, sk_version = cb_Version body, sk_scope = writeScope (si_scopes sc), sk_repo = si_repoID sc\<rparr>"
  have cr: "othersKept (si_repoID sc) st (snd (createUpload st (mo_id t) ?sl))"
    using createUpload_others[of ?sl st "mo_id t"] by simp
  have fin: "othersKept (si_repoID sc) st (snd (completeUpload st (mo_ms t) ?sl))"
    using completeUpload_others[OF assms(1), of "mo_ms t" ?sl] by (metis prod.collapse slot.select_convs(4))
  have get: "othersKept (si_repoID sc) st (snd (matchEntry st n ks v scs (si_repoID sc)))" for n ks v scs
    using matchEntry_others[OF assms(1)] by (metis prod.collapse)
  consider "h = HCreate" | "h = HGetURL" | "h = HFinalize" | "st' = st"
    using assms(2) by (cases h) (auto simp: bearerHandle_def)
  then show ?thesis
  proof cases
    case 1
    then show ?thesis using assms(2) Inr cr
      by (auto simp: bearerHandle_def handleCreateCacheEntry_def Let_def split: if_splits prod.splits sum.splits option.splits)
  next
    case 2
    have "st' = snd (matchEntry st (mo_ms t) (cb_Key body # cb_RestoreKeys body) (cb_Version body)
        (scopeStringsByPermission (si_scopes sc)) (si_repoID sc))"
      using assms(2) Inr 2 by (auto simp: bearerHandle_def handleGetDownloadURL_def split: prod.splits option.splits)
    then show ?thesis using get by simp
  next
    case 3
    then show ?thesis using assms(2) Inr fin
      by (auto simp: bearerHandle_def handleFinalize_def Let_def split: if_splits prod.splits sum.splits)
  qed simp
qed

text \<open>A block changes the counts of its own upload and the folder of that upload only.\<close>

definition onlyUpload :: "int \<Rightarrow> store \<Rightarrow> store \<Rightarrow> bool" where
  "onlyUpload i st st' \<longleftrightarrow>
     st_entries st' = st_entries st
     \<and> filter (\<lambda>u. up_id u \<noteq> i) (st_uploads st') = filter (\<lambda>u. up_id u \<noteq> i) (st_uploads st)
     \<and> (\<forall>e \<in> set (st_entries st). partsOf st' (en_id e) = partsOf st (en_id e))"

lemma uploadPart_only:
  assumes "storeOk st"
  shows "onlyUpload i st (snd (uploadPart st i idx b))"
proof (cases "list_ex (\<lambda>u. up_id u = i) (st_uploads st)")
  case True
  then obtain u where u: "u \<in> set (st_uploads st)" "up_id u = i" by (auto simp: list_ex_iff)
  have "en_id e \<noteq> folderName i" if "e \<in> set (st_entries st)" for e
    using storeOk_apart[OF assms u(1) that] u(2) by simp
  then show ?thesis using True
    by (auto simp: uploadPart_def onlyUpload_def partBegin_def partFinish_def Let_def split: option.splits
        intro!: filter_map_fixed)
qed (simp add: uploadPart_def onlyUpload_def)

lemma handleUploadPut_effect:
  assumes "storeOk st" "handleUploadPut mac s r t signed st = (resp, st')" "st' \<noteq> st"
  shows "\<exists>idStr i. verifySignedID mac (cs_accessToken s) (mo_sec t) ''upload'' signed = Some idStr
    \<and> parseInt64 idStr = Some i \<and> onlyUpload i st st'"
proof -
  obtain idStr i where v: "verifySignedID mac (cs_accessToken s) (mo_sec t) ''upload'' signed = Some idStr"
    "parseInt64 idStr = Some i"
    using assms(2,3) by (auto simp: handleUploadPut_def split: option.splits)
  then obtain idx where "st' = snd (uploadPart st i idx (rq_data r))"
    using assms(2,3) by (auto simp: handleUploadPut_def split: option.splits if_splits prod.splits) (metis snd_conv)+
  then show ?thesis using v uploadPart_only[OF assms(1)] by blast
qed

lemma svcRoute_upload [simp]: "svcRoute m ops \<noteq> HUpload x" "svcRoute m ops \<noteq> HNotFound"
  by (auto simp: svcRoute_def)

lemma routes_upload: "routes m p = (tk, HUpload x) \<Longrightarrow> tk \<noteq> None \<and> take 2 p = [''_mr'', the tk]"
proof (cases p)
  case (Cons a rest)
  assume "routes m p = (tk, HUpload x)"
  then show ?thesis using Cons by (cases rest) (auto simp: routes_def split: if_splits)
qed (auto simp: routes_def)

lemma handle_cases:
  assumes "storeOk st" "handle mac j up s r t h st = (resp, st')" "st' \<noteq> st"
  shows "(\<exists>sc. requireCacheBearer j up s (rq_auth r) = Inr sc \<and> othersKept (si_repoID sc) st st')
    \<or> (\<exists>signed idStr i. h = HUpload signed \<and> verifySignedID mac (cs_accessToken s) (mo_sec t) ''upload'' signed = Some idStr
        \<and> parseInt64 idStr = Some i \<and> onlyUpload i st st')"
proof (cases "bearerHandler h")
  case True
  then obtain sc where "requireCacheBearer j up s (rq_auth r) = Inr sc" "bearerHandle mac s r t sc h st = (resp, st')"
    using assms(2,3) by (auto simp: handle_def split: sum.splits)
  then show ?thesis using bearerHandle_others[OF assms(1)] by blast
next
  case False
  then obtain signed where h: "h = HUpload signed" "handleUploadPut mac s r t signed st = (resp, st')"
    using assms(2,3) by (cases h) (auto simp: handle_def)
  then show ?thesis using handleUploadPut_effect[OF assms(1) h(2) assms(3)] by blast
qed

lemma handle_download_url:
  assumes "handle mac j up s r t h st = (DownloadURL url key, st')"
  shows "\<exists>sc e. requireCacheBearer j up s (rq_auth r) = Inr sc \<and> e \<in> set (st_entries st) \<and> en_repo e = si_repoID sc
    \<and> en_scope e \<in> se_Scope ` set (si_scopes sc) \<and> en_key e = key
    \<and> url = baseURL s r @ ''/download/'' @ signID mac (cs_accessToken s) (mo_sec t) ''download'' (en_id e)"
proof -
  have "bearerHandler h"
    using assms by (cases h) (auto simp: handle_def bearerHandler_def handleUploadPut_def handleDownload_def handleGitBundle_def
        handleCatchAll_def notFound_def internalError_def Let_def split: option.splits sum.splits if_splits prod.splits list.splits)
  then obtain sc where sc: "requireCacheBearer j up s (rq_auth r) = Inr sc"
    "bearerHandle mac s r t sc h st = (DownloadURL url key, st')"
    using assms by (auto simp: handle_def requireCacheBearer_def Let_def split: sum.splits if_splits)
  then have "handleGetDownloadURL mac s r t sc st = (DownloadURL url key, st')"
    by (auto simp: bearerHandle_def handleCreateCacheEntry_def handleFinalize_def internalError_def Let_def
        split: handler.splits sum.splits if_splits prod.splits option.splits)
  moreover obtain body where "rq_json r = Inr body"
    using calculation by (auto simp: handleGetDownloadURL_def split: sum.splits)
  ultimately obtain e where m: "matchEntry st (mo_ms t) (cb_Key body # cb_RestoreKeys body) (cb_Version body)
      (scopeStringsByPermission (si_scopes sc)) (si_repoID sc) = (Some e, st')"
    "url = baseURL s r @ ''/download/'' @ signID mac (cs_accessToken s) (mo_sec t) ''download'' (en_id e)" "key = en_key e"
    by (auto simp: handleGetDownloadURL_def split: prod.splits option.splits)
  obtain pre c post where f: "scopeStringsByPermission (si_scopes sc) = pre @ c # post"
    "firstKey st (cb_Key body # cb_RestoreKeys body) (cb_Version body) c (si_repoID sc) = Some e"
  proof -
    have "firstScope st (cb_Key body # cb_RestoreKeys body) (cb_Version body) (scopeStringsByPermission (si_scopes sc)) (si_repoID sc) = Some e"
      using m(1) by (simp add: matchEntry_def split: option.splits)
    from firstScope_Some[OF this] that show thesis by blast
  qed
  have "c \<in> set (scopeStringsByPermission (si_scopes sc))" using f(1) by simp
  then have "c \<in> se_Scope ` set (si_scopes sc)" by (simp add: scopeStringsByPermission_def)
  then show ?thesis using sc(1) m firstKey_Some[OF f(2)] by blast
qed


definition sampleJSON :: jwt_json where
  "sampleJSON = \<lparr>jw_claims = (\<lambda>p. Some (''ac'', ''42'')),
     jw_scopes = (\<lambda>p. [\<lparr>se_Scope = ''refs/heads/main'', se_Permission = 3\<rparr>]),
     jw_scp = (\<lambda>p. Some ''Actions.Results:run:job'')\<rparr>"

definition sampleUpstream :: upstream_call where
  "sampleUpstream u ids tok = UpstreamReply 200 (Some ''application/protobuf'')"

definition sampleServer :: cache_server where
  "sampleServer = \<lparr>cs_advertiseURL = ''http://h:3000'', cs_accessToken = ''tok'',
     cs_upstream = Some \<lparr>ur_scheme = ''https'', ur_user = [], ur_host = ''up'', ur_rest = []\<rparr>,
     cs_gitRepo = [], cs_gitBundler = False, cs_gcInterval = 0, cs_gcMaxAge = 0, cs_gcMaxBytes = 0\<rparr>"

definition sampleRequest :: "string \<Rightarrow> string list \<Rightarrow> cache_request" where
  "sampleRequest m p = \<lparr>rq_method = m, rq_path = p, rq_auth = ''Bearer x.YQ.z'', rq_host = ''h'', rq_tls = False,
     rq_proto = [], rq_comp = ''block'', rq_blockid = [],
     rq_json = Inr \<lparr>cb_Key = ''npm-'', cb_Version = ''v1'', cb_RestoreKeys = []\<rparr>, rq_data = (''data'', None)\<rparr>"

definition sampleMoment :: moment where
  "sampleMoment = \<lparr>mo_sec = 100, mo_ms = 100000, mo_id = Inr 9\<rparr>"


section \<open>From the signed URL to the upload\<close>

lemma formatInt_not_Nil [simp]: "formatInt i \<noteq> []"
  by (simp add: formatInt_def)

lemma handleUploadPut_signed:
  assumes "- (2 ^ 63) \<le> i" "i < 2 ^ 63" "- (2 ^ 63) \<le> t0 + 7200" "t0 + 7200 < 2 ^ 63"
    and "mo_sec t \<le> t0 + 7200" "rq_comp r \<noteq> ''blocklist''"
  shows "handleUploadPut mac s r t (signID mac (cs_accessToken s) t0 ''upload'' (formatInt i)) st
    = (case (if rq_blockid r \<noteq> [] then chunkIndexFromBlockID (rq_blockid r) else Some 0) of
         None \<Rightarrow> (Text 400 ''invalid block id'', st)
       | Some idx \<Rightarrow> (case uploadPart st i idx (rq_data r) of
             (Some e, st1) \<Rightarrow> (internalError, st1) | (None, st1) \<Rightarrow> (PartCreated, st1)))"
  using verify_signed[OF formatInt_no_dot assms(3,4), of mac "cs_accessToken s" "mo_sec t" "''upload''" "''upload''" i]
    parseInt64_formatInt[OF assms(1,2)] assms(5,6)
  by (simp add: handleUploadPut_def)

lemma handle_upload_url:
  assumes "handle mac j up s r t h st = (UploadURL url, st1)"
  shows "\<exists>i sl. mo_id t = Inr i \<and> createUpload st (Inr i) sl = (Inr (Some i), st1)
    \<and> url = baseURL s r @ ''/devstoreaccount1/upload/'' @ signID mac (cs_accessToken s) (mo_sec t) ''upload'' (formatInt i)"
proof -
  have "bearerHandler h"
    using assms by (cases h) (auto simp: handle_def bearerHandler_def handleUploadPut_def handleDownload_def handleGitBundle_def
        handleCatchAll_def notFound_def internalError_def Let_def split: option.splits sum.splits if_splits prod.splits list.splits)
  then obtain sc where sc: "bearerHandle mac s r t sc h st = (UploadURL url, st1)"
    using assms by (auto simp: handle_def requireCacheBearer_def Let_def split: sum.splits if_splits)
  then have h: "handleCreateCacheEntry mac s r t sc st = (UploadURL url, st1)"
    by (auto simp: bearerHandle_def handleGetDownloadURL_def handleFinalize_def internalError_def Let_def
        split: handler.splits sum.splits if_splits prod.splits option.splits)
  then obtain body where b: "rq_json r = Inr body" by (auto simp: handleCreateCacheEntry_def split: sum.splits)
  let ?sl = "\<lparr>sk_key = cb_Key body, sk_version = cb_Version body, sk_scope = writeScope (si_scopes sc), sk_repo = si_repoID sc\<rparr>"
  obtain k where k: "createUpload st (mo_id t) ?sl = (Inr (Some k), st1)"
    "url = baseURL s r @ ''/devstoreaccount1/upload/'' @ signID mac (cs_accessToken s) (mo_sec t) ''upload'' (formatInt k)"
    using h b by (auto simp: handleCreateCacheEntry_def internalError_def Let_def split: if_splits prod.splits sum.splits option.splits)
  have "mo_id t = Inr k" using k(1) by (auto simp: createUpload_def split: if_splits sum.splits)
  then show ?thesis using k by auto
qed

text \<open>
  the upload URL that CreateCacheEntry hands out leads to that upload: for two hours, a PUT of
  a block to its path on the same server stores the block under the reserved identifier (or names
  the block identifier as malformed), whatever the store and the server's other requests did since.
\<close>

theorem upload_url_reaches_upload:
  assumes "serve mac j up s r t st = (UploadURL url, st1)"
    and "\<forall>i. mo_id t = Inr i \<longrightarrow> 1 \<le> i \<and> i \<le> 2 ^ 62"
    and "0 \<le> mo_sec t" and "mo_sec t < 2 ^ 62" and "cs_accessToken s \<noteq> []"
  shows "\<exists>i seg. mo_id t = Inr i \<and> url = baseURL s r @ ''/devstoreaccount1/upload/'' @ seg
    \<and> i \<in> up_id ` set (st_uploads st1)
    \<and> (\<forall>r2 t2 st2.
         rq_method r2 = ''PUT'' \<and> rq_path r2 = [''_mr'', cs_accessToken s, ''devstoreaccount1'', ''upload'', seg]
         \<and> rq_comp r2 \<noteq> ''blocklist'' \<and> mo_sec t2 \<le> mo_sec t + 7200
         \<longrightarrow> serve mac j up s r2 t2 st2
             = (case (if rq_blockid r2 \<noteq> [] then chunkIndexFromBlockID (rq_blockid r2) else Some 0) of
                  None \<Rightarrow> (Text 400 ''invalid block id'', st2)
                | Some idx \<Rightarrow> (case uploadPart st2 i idx (rq_data r2) of
                      (Some e, st3) \<Rightarrow> (internalError, st3) | (None, st3) \<Rightarrow> (PartCreated, st3))))"
proof -
  obtain h where "handle mac j up s r t h st = (UploadURL url, st1)"
    using assms(1) by (auto simp: serve_def notFound_def split: prod.splits option.splits if_splits)
  from handle_upload_url[OF this] obtain i sl where i: "mo_id t = Inr i" "createUpload st (Inr i) sl = (Inr (Some i), st1)"
    and url: "url = baseURL s r @ ''/devstoreaccount1/upload/'' @ signID mac (cs_accessToken s) (mo_sec t) ''upload'' (formatInt i)"
    by blast
  have rng: "- (2 ^ 63) \<le> i" "i < 2 ^ 63" "- (2 ^ 63) \<le> mo_sec t + 7200" "mo_sec t + 7200 < 2 ^ 63"
    using assms(2,3,4) i(1) by auto
  let ?seg = "signID mac (cs_accessToken s) (mo_sec t) ''upload'' (formatInt i)"
  have seg: "?seg \<noteq> []" by (simp add: signID_def Let_def)
  have row: "i \<in> up_id ` set (st_uploads st1)" using i(2) by (auto simp: createUpload_def split: if_splits)
  have "serve mac j up s r2 t2 st2 = handleUploadPut mac s r2 t2 ?seg st2"
    if "rq_method r2 = ''PUT''" "rq_path r2 = [''_mr'', cs_accessToken s, ''devstoreaccount1'', ''upload'', ?seg]" for r2 t2 st2
    using that seg assms(5)
    by (simp add: serve_def routes_def protectedRoute_def handle_def bearerHandler_def cacheService_def)
  then show ?thesis
    using i(1) url row handleUploadPut_signed[OF rng, where mac = mac and s = s]
    by (intro exI[of _ i] exI[of _ ?seg]) simp
qed

theorem upload_url_reaches_upload_witness:
  "\<exists>url st1 seg. serve (\<lambda>k m. ''mac'') sampleJSON sampleUpstream sampleServer
       (sampleRequest ''POST'' [''twirp'', cacheService, ''CreateCacheEntry'']) sampleMoment emptyStore = (UploadURL url, st1)
     \<and> serve (\<lambda>k m. ''mac'') sampleJSON sampleUpstream sampleServer
         (sampleRequest ''PUT'' [''_mr'', ''tok'', ''devstoreaccount1'', ''upload'', seg]) (sampleMoment\<lparr>mo_sec := 7000\<rparr>) st1
       = (PartCreated, snd (uploadPart st1 9 0 (''data'', None)))"
proof -
  let ?r = "sampleRequest ''POST'' [''twirp'', cacheService, ''CreateCacheEntry'']"
  let ?sc = "\<lparr>si_scopes = [\<lparr>se_Scope = ''refs/heads/main'', se_Permission = 3\<rparr>], si_repoID = ''42''\<rparr>"
  have auth: "requireCacheBearer sampleJSON sampleUpstream sampleServer ''Bearer x.YQ.z'' = Inr ?sc" by code_simp
  have rt: "routes ''POST'' [''twirp'', cacheService, ''CreateCacheEntry''] = (None, HCreate)" by code_simp
  obtain url st1 where p: "serve (\<lambda>k m. ''mac'') sampleJSON sampleUpstream sampleServer ?r sampleMoment emptyStore = (UploadURL url, st1)"
    using auth rt
    by (simp add: serve_def sampleRequest_def handle_def bearerHandler_def bearerHandle_def handleCreateCacheEntry_def
        sampleMoment_def createUpload_def emptyStore_def)
  have "fst (uploadPart st1 9 0 (''data'', None)) = None" by (simp add: uploadPart_def Let_def)
  then obtain st3 where st3: "uploadPart st1 9 0 (''data'', None) = (None, st3)" by (metis prod.collapse)
  let ?Q = "\<lambda>seg. serve (\<lambda>k m. ''mac'') sampleJSON sampleUpstream sampleServer
         (sampleRequest ''PUT'' [''_mr'', ''tok'', ''devstoreaccount1'', ''upload'', seg]) (sampleMoment\<lparr>mo_sec := 7000\<rparr>) st1
       = (PartCreated, st3)"
  have h: "\<forall>i. mo_id sampleMoment = Inr i \<longrightarrow> 1 \<le> i \<and> i \<le> 2 ^ 62" "0 \<le> mo_sec sampleMoment" "mo_sec sampleMoment < 2 ^ 62"
    "cs_accessToken sampleServer \<noteq> []" by (simp_all add: sampleMoment_def sampleServer_def)
  from upload_url_reaches_upload[OF p h] obtain i seg where i: "mo_id sampleMoment = Inr i"
    and put: "\<And>r2 t2 st2. rq_method r2 = ''PUT'' \<and> rq_path r2 = [''_mr'', cs_accessToken sampleServer, ''devstoreaccount1'', ''upload'', seg]
         \<and> rq_comp r2 \<noteq> ''blocklist'' \<and> mo_sec t2 \<le> mo_sec sampleMoment + 7200
         \<Longrightarrow> serve (\<lambda>k m. ''mac'') sampleJSON sampleUpstream sampleServer r2 t2 st2
             = (case (if rq_blockid r2 \<noteq> [] then chunkIndexFromBlockID (rq_blockid r2) else Some 0) of
                  None \<Rightarrow> (Text 400 ''invalid block id'', st2)
                | Some idx \<Rightarrow> (case uploadPart st2 i idx (rq_data r2) of
                      (Some e, st3) \<Rightarrow> (internalError, st3) | (None, st3) \<Rightarrow> (PartCreated, st3)))"
    by blast
  have nine: "i = 9" using i by (simp add: sampleMoment_def)
  have "?Q seg"
    by (subst put) (simp_all add: sampleRequest_def sampleMoment_def sampleServer_def nine st3)
  then show ?thesis using p st3 by auto
qed

end
