(* ===== verification/Webhook_Metrics.thy ===== *)
theory Webhook_Metrics
  imports Autoscale Scaleset_Supervisor
begin

text \<open>
  The webhook receiver (\<open>internal/webhook/webhook.go\<close>) in front of the autoscaler, and the metrics
  and health state (\<open>internal/metrics/metrics.go\<close>) fed by the hooks of the pools and by the
  scale-set sessions (\<open>newScaleSetHealthReporter\<close> of \<open>cmd/multirunner/scaleset.go\<close>). HMAC-SHA256
  and the JSON decoder of the payload are parameters.
\<close>

section \<open>Webhook\<close>

record hook_payload =
  hp_Action :: string
  hp_Labels :: "string list"
  hp_RunID :: int
  hp_FullName :: string

text \<open>A request: what reading its body gave, and the two headers the receiver looks at.\<close>

record hook_request =
  hr_body :: "gerr + string"
  hr_signature :: string
  hr_event :: string

definition maxHookBody :: nat where
  "maxHookBody = 1048576"

definition sigPrefix :: string where
  "sigPrefix = ''sha256=''"

definition validSignature :: "(string \<Rightarrow> string \<Rightarrow> string) \<Rightarrow> string \<Rightarrow> string \<Rightarrow> string \<Rightarrow> bool" where
  "validSignature mac secret header body =
     (if length header \<le> length sigPrefix \<or> take (length sigPrefix) header \<noteq> sigPrefix then False
      else case hexDecode (drop (length sigPrefix) header) of
             None \<Rightarrow> False
           | Some got \<Rightarrow> mac secret body = got)"

definition hookHandle ::
  "(string \<Rightarrow> string \<Rightarrow> string) \<Rightarrow> (string \<Rightarrow> hook_payload option) \<Rightarrow> (string \<Rightarrow> client option) \<Rightarrow> string
     \<Rightarrow> hook_request \<Rightarrow> scaler \<Rightarrow> nat \<times> scaler" where
  "hookHandle mac unmarshal forRepo secret r s =
     (case hr_body r of
        Inl e \<Rightarrow> (400, s)
      | Inr whole \<Rightarrow>
          (let body = take maxHookBody whole
           in if secret \<noteq> [] \<and> \<not> validSignature mac secret (hr_signature r) body then (401, s)
              else if hr_event r = ''ping'' then (200, s)
              else if hr_event r \<noteq> ''workflow_job'' then (204, s)
              else case unmarshal body of
                     None \<Rightarrow> (400, s)
                   | Some p \<Rightarrow>
                       (200, if hp_Action p = ''queued'' then OnQueued forRepo s (hp_FullName p) (hp_RunID p) (hp_Labels p) else s)))"

lemma validSignature_iff:
  "validSignature mac secret header body \<longleftrightarrow>
     (\<exists>tag. header = sigPrefix @ tag \<and> tag \<noteq> [] \<and> hexDecode tag = Some (mac secret body))"
proof
  assume v: "validSignature mac secret header body"
  then have "header = sigPrefix @ drop (length sigPrefix) header" "drop (length sigPrefix) header \<noteq> []"
    "hexDecode (drop (length sigPrefix) header) = Some (mac secret body)"
    by (auto simp: validSignature_def split: if_splits option.splits) (metis append_take_drop_id)
  then show "\<exists>tag. header = sigPrefix @ tag \<and> tag \<noteq> [] \<and> hexDecode tag = Some (mac secret body)" by blast
next
  assume "\<exists>tag. header = sigPrefix @ tag \<and> tag \<noteq> [] \<and> hexDecode tag = Some (mac secret body)"
  then obtain tag where "header = sigPrefix @ tag" "tag \<noteq> []" "hexDecode tag = Some (mac secret body)" by blast
  then show "validSignature mac secret header body" by (simp add: validSignature_def)
qed



section \<open>Metrics\<close>

record metrics =
  me_active :: "(string \<times> int) list"
  me_jobs :: "((string \<times> string) \<times> nat) list"
  me_reprov :: "(string \<times> nat) list"
  me_sessions :: "(string \<times> bool) list"

definition newMetrics :: metrics where
  "newMetrics = \<lparr>me_active = [], me_jobs = [], me_reprov = [], me_sessions = []\<rparr>"

definition valOf :: "('k \<times> 'v::zero) list \<Rightarrow> 'k \<Rightarrow> 'v" where
  "valOf xs k = (case map_of xs k of None \<Rightarrow> 0 | Some v \<Rightarrow> v)"

definition bump :: "'k \<Rightarrow> ('v::zero \<Rightarrow> 'v) \<Rightarrow> ('k \<times> 'v) list \<Rightarrow> ('k \<times> 'v) list" where
  "bump k f xs = AList.update k (f (valOf xs k)) xs"

text \<open>The hooks of \<open>Hooks\<close>: \<open>OnStart\<close> and \<open>OnStop\<close> of one pool.\<close>

fun metricsHook :: "metrics \<Rightarrow> pool_hook \<Rightarrow> metrics" where
  "metricsHook m (PoolStart p) = m\<lparr>me_active := bump p (\<lambda>n. n + 1) (me_active m)\<rparr>"
| "metricsHook m (PoolStop p code err) =
     (let m1 = m\<lparr>me_active := bump p (\<lambda>n. n - 1) (me_active m)\<rparr>;
          m2 = (if err \<noteq> None then m1\<lparr>me_reprov := bump p Suc (me_reprov m1)\<rparr> else m1)
      in m2\<lparr>me_jobs := bump (p, if err \<noteq> None then ''error'' else ''success'') Suc (me_jobs m2)\<rparr>)"

definition SetRequiredSessionAvailable :: "metrics \<Rightarrow> string \<Rightarrow> bool \<Rightarrow> metrics" where
  "SetRequiredSessionAvailable m name available = m\<lparr>me_sessions := AList.update name available (me_sessions m)\<rparr>"

definition healthy :: "metrics \<Rightarrow> bool" where
  "healthy m = list_all snd (me_sessions m)"

definition healthStatus :: "metrics \<Rightarrow> nat \<times> string" where
  "healthStatus m = (if \<not> healthy m then (503, ''degraded'') else (200, ''ok''))"

text \<open>\<open>newScaleSetHealthReporter\<close> and the reports of the sessions.\<close>

definition newScaleSetHealthReporter :: "metrics \<Rightarrow> string list \<Rightarrow> metrics" where
  "newScaleSetHealthReporter m names = foldl (\<lambda>m n. SetRequiredSessionAvailable m n False) m names"

definition reportState :: "metrics \<Rightarrow> string \<times> availability \<Rightarrow> metrics" where
  "reportState m ev = SetRequiredSessionAvailable m (fst ev) (snd ev = SessionAvailable)"

lemma valOf_bump [simp]: "valOf (bump k f xs) k' = (if k' = k then f (valOf xs k) else valOf xs k')"
  by (simp add: valOf_def bump_def)

lemma valOf_Nil [simp]: "valOf [] k = 0"
  by (simp add: valOf_def)

fun isStart :: "string \<Rightarrow> pool_hook \<Rightarrow> bool" where
  "isStart p (PoolStart q) = (q = p)"
| "isStart p _ = False"

fun isStop :: "string \<Rightarrow> bool \<Rightarrow> pool_hook \<Rightarrow> bool" where
  "isStop p failed (PoolStop q code err) = (q = p \<and> (err \<noteq> None) = failed)"
| "isStop p failed _ = False"

lemma metricsHook_counts:
  "valOf (me_active (metricsHook m h)) p = valOf (me_active m) p + (if isStart p h then 1 else 0)
     - (if isStop p True h then 1 else 0) - (if isStop p False h then 1 else 0)"
  "valOf (me_jobs (metricsHook m h)) (p, ''error'') = valOf (me_jobs m) (p, ''error'') + (if isStop p True h then 1 else 0)"
  "valOf (me_jobs (metricsHook m h)) (p, ''success'') = valOf (me_jobs m) (p, ''success'') + (if isStop p False h then 1 else 0)"
  "valOf (me_reprov (metricsHook m h)) p = valOf (me_reprov m) p + (if isStop p True h then 1 else 0)"
  by (cases h; auto simp: Let_def)+

lemma metrics_fold:
  "valOf (me_active (foldl metricsHook m hs)) p = valOf (me_active m) p + int (countOf (isStart p) hs)
     - int (countOf (isStop p True) hs) - int (countOf (isStop p False) hs)
   \<and> valOf (me_jobs (foldl metricsHook m hs)) (p, ''error'') = valOf (me_jobs m) (p, ''error'') + countOf (isStop p True) hs
   \<and> valOf (me_jobs (foldl metricsHook m hs)) (p, ''success'') = valOf (me_jobs m) (p, ''success'') + countOf (isStop p False) hs
   \<and> valOf (me_reprov (foldl metricsHook m hs)) p = valOf (me_reprov m) p + countOf (isStop p True) hs"
proof (induction hs arbitrary: m)
  case (Cons h hs)
  show ?case using Cons[of "metricsHook m h"] by (simp add: metricsHook_counts)
qed simp

text \<open>The gauge of a pool returns to its value over a run of a job with both hooks.\<close>

lemma runJob_gauge:
  assumes "RunJob env l job w = (res, hooks, w')" "pl_hasOnStart l" "pl_hasOnStop l"
  shows "valOf (me_active (foldl metricsHook m hooks)) p = valOf (me_active m) p"
  using assms by (auto simp: RunJob_def Let_def split: option.splits if_splits prod.splits)

lemma sessions_report [simp]:
  "map_of (me_sessions (SetRequiredSessionAvailable m n a)) = (map_of (me_sessions m))(n \<mapsto> a)"
  by (simp add: SetRequiredSessionAvailable_def)

definition sessionsOk :: "metrics \<Rightarrow> bool" where
  "sessionsOk m \<longleftrightarrow> distinct (map fst (me_sessions m))"

lemma sessionsOk_report [simp]: "sessionsOk m \<Longrightarrow> sessionsOk (SetRequiredSessionAvailable m n a)"
  by (simp add: sessionsOk_def SetRequiredSessionAvailable_def)

lemma healthy_iff: "sessionsOk m \<Longrightarrow> healthy m \<longleftrightarrow> (\<forall>n. map_of (me_sessions m) n \<noteq> Some False)"
proof -
  assume d: "sessionsOk m"
  have "healthy m \<longleftrightarrow> (\<forall>n a. (n, a) \<in> set (me_sessions m) \<longrightarrow> a)"
    unfolding healthy_def list_all_iff by fastforce
  also have "\<dots> \<longleftrightarrow> (\<forall>n. map_of (me_sessions m) n \<noteq> Some False)"
    using d unfolding sessionsOk_def by (metis map_of_eq_Some_iff)
  finally show ?thesis .
qed

lemma reporter_sessions:
  "sessionsOk m \<Longrightarrow> sessionsOk (newScaleSetHealthReporter m names)
     \<and> map_of (me_sessions (newScaleSetHealthReporter m names))
       = (\<lambda>n. if n \<in> set names then Some False else map_of (me_sessions m) n)"
proof (induction names arbitrary: m)
  case (Cons a names)
  show ?case using Cons.IH[of "SetRequiredSessionAvailable m a False"] Cons.prems
    by (auto simp: newScaleSetHealthReporter_def fun_eq_iff)
qed (simp add: newScaleSetHealthReporter_def)

lemma reports_sessions:
  "sessionsOk m \<Longrightarrow> sessionsOk (foldl reportState m evs)
     \<and> map_of (me_sessions (foldl reportState m evs))
       = (\<lambda>n. case map_of (rev evs) n of Some st \<Rightarrow> Some (st = SessionAvailable) | None \<Rightarrow> map_of (me_sessions m) n)"
proof (induction evs arbitrary: m)
  case (Cons e evs)
  show ?case using Cons.IH[of "reportState m e"] Cons.prems
    by (auto simp: reportState_def fun_eq_iff map_add_def split: option.splits)
qed simp

text \<open>
  The health endpoint answers 200 exactly when the last report of every pool was that its
  session is available: a pool that has not reported yet, is backing off or is permanently
  unavailable makes it 503, whatever the others report. The gauge of a pool is the number of
  started minus the number of stopped runners, its job counters count the stops by result.
\<close>

theorem health_and_gauges_are_exact:
  "(healthStatus (foldl reportState (newScaleSetHealthReporter newMetrics names) evs) = (200, ''ok'')
      \<longleftrightarrow> (\<forall>n \<in> set names \<union> fst ` set evs. map_of (rev evs) n = Some SessionAvailable))
   \<and> valOf (me_active (foldl metricsHook newMetrics hs)) p
       = int (countOf (isStart p) hs) - int (countOf (isStop p True) hs) - int (countOf (isStop p False) hs)
   \<and> valOf (me_jobs (foldl metricsHook newMetrics hs)) (p, ''success'') = countOf (isStop p False) hs
   \<and> valOf (me_jobs (foldl metricsHook newMetrics hs)) (p, ''error'') = countOf (isStop p True) hs"
proof -
  let ?m = "newScaleSetHealthReporter newMetrics names"
  have ok: "sessionsOk newMetrics" by (simp add: newMetrics_def sessionsOk_def)
  note r = reporter_sessions[OF ok, of names]
  note e = reports_sessions[OF r[THEN conjunct1], of evs]
  have "healthy (foldl reportState ?m evs) \<longleftrightarrow>
      (\<forall>n. (case map_of (rev evs) n of Some st \<Rightarrow> st = SessionAvailable | None \<Rightarrow> n \<notin> set names))"
    using healthy_iff[OF e[THEN conjunct1]] e r
    by (auto simp: newMetrics_def split: option.splits if_splits)
  also have "\<dots> \<longleftrightarrow> (\<forall>n \<in> set names \<union> fst ` set evs. map_of (rev evs) n = Some SessionAvailable)"
  proof -
    have none: "map_of (rev evs) n = None \<longleftrightarrow> n \<notin> fst ` set evs" for n by (simp add: map_of_eq_None_iff)
    have "(case map_of (rev evs) n of Some st \<Rightarrow> st = SessionAvailable | None \<Rightarrow> n \<notin> set names)
        \<longleftrightarrow> (n \<in> set names \<union> fst ` set evs \<longrightarrow> map_of (rev evs) n = Some SessionAvailable)" for n
      using none[of n] by (cases "map_of (rev evs) n") auto
    then show ?thesis by (simp only: Ball_def)
  qed
  finally show ?thesis using metrics_fold[of newMetrics hs p] by (simp add: healthStatus_def newMetrics_def)
qed

theorem health_and_gauges_are_exact_witness:
  "healthStatus (foldl reportState (newScaleSetHealthReporter newMetrics [''a'', ''b'']) [(''a'', SessionAvailable)]) = (503, ''degraded'')
   \<and> healthStatus (foldl reportState (newScaleSetHealthReporter newMetrics [''a'']) [(''a'', SessionAvailable)]) = (200, ''ok'')"
  using health_and_gauges_are_exact[of "[''a'']" "[(''a'', SessionAvailable)]" "[]" "''a''"]
    health_and_gauges_are_exact[of "[''a'', ''b'']" "[(''a'', SessionAvailable)]" "[]" "''a''"]
  by (auto simp: healthStatus_def split: if_splits)

end
