(* ===== verification/Device_Token.thy ===== *)
theory Device_Token
  imports Net_IP Scaleset_Supervisor
begin

text \<open>
  The device-flow user token (\<open>internal/ghapp/device.go\<close>, \<open>refresher.go\<close>): the device and token
  requests, the polling loop, the base URL check, the shared refreshers and \<open>AccessToken\<close> with its
  rotation of the token pair. The OAuth endpoint is a parameter, given as the decoded reply of
  \<open>postForm\<close>; times are nanoseconds, the zero time is \<open>None\<close>. The sidecar file is its content.
\<close>

section \<open>Tokens and replies\<close>

record user_token =
  ut_Access :: string
  ut_Refresh :: string
  ut_Expiry :: "int option"
  ut_RefreshExpiry :: "int option"

record token_response =
  tr_Access :: string
  tr_Refresh :: string
  tr_ExpiresIn :: int
  tr_RefreshExpiresIn :: int
  tr_Error :: string
  tr_Description :: string
  tr_Interval :: int

definition orDefault :: "string \<Rightarrow> string \<Rightarrow> string" where
  "orDefault v def = (if v = [] then def else v)"

definition DefaultClientID :: string where
  "DefaultClientID = ''Iv23liZGKUct4sAKjq2m''"

definition DefaultBaseURL :: string where
  "DefaultBaseURL = ''https://github.com''"

definition describeError :: "string \<Rightarrow> string \<Rightarrow> string" where
  "describeError code desc = (if desc \<noteq> [] then code @ '': '' @ desc else code)"

definition deviceFlowError :: "string \<Rightarrow> string \<Rightarrow> gerr" where
  "deviceFlowError code desc =
     (if code = ''device_flow_disabled''
      then Leaf (''GitHub reports device flow is not enabled for this App (device_flow_disabled); ''
             @ ''enable device flow on the shared multirunner App, or use `multirunner connect --own-app`'')
      else Leaf (''device flow error: '' @ describeError code desc))"

definition tokenFromResponse :: "token_response \<Rightarrow> int \<Rightarrow> user_token" where
  "tokenFromResponse r now =
     \<lparr>ut_Access = tr_Access r, ut_Refresh = tr_Refresh r,
      ut_Expiry = (if tr_ExpiresIn r > 0 then Some (now + wrap64 (tr_ExpiresIn r * second)) else None),
      ut_RefreshExpiry = (if tr_RefreshExpiresIn r > 0 then Some (now + wrap64 (tr_RefreshExpiresIn r * second)) else None)\<rparr>"

section \<open>The device flow\<close>

record device_code =
  dc_DeviceCode :: string
  dc_UserCode :: string
  dc_VerificationURI :: string
  dc_ExpiresIn :: int
  dc_Interval :: int

text \<open>\<open>RequestDeviceCode\<close>: the reply is the code fields with an error code and description.\<close>

definition RequestDeviceCode :: "gerr + device_code \<times> string \<times> string \<Rightarrow> gerr + device_code" where
  "RequestDeviceCode reply =
     (case reply of
        Inl e \<Rightarrow> Inl e
      | Inr (dc, err, desc) \<Rightarrow>
          if err \<noteq> [] then Inl (deviceFlowError err desc)
          else if dc_DeviceCode dc = [] \<or> dc_UserCode dc = []
          then Inl (Leaf ''device code request returned no code'')
          else Inr dc)"

text \<open>
  What the polling loop sees of the world: waiting an interval (\<open>False\<close> when the context ended
  first), the clock, and one request to the token endpoint.
\<close>

record 'w poll_env =
  pe_wait :: "int \<Rightarrow> 'w \<Rightarrow> bool \<times> 'w"
  pe_now :: "'w \<Rightarrow> int"
  pe_post :: "'w \<Rightarrow> (gerr + token_response) \<times> 'w"

datatype poll_answer = PollDone "gerr + user_token" | PollAgain int

definition pollAnswer :: "int \<Rightarrow> token_response \<Rightarrow> int \<Rightarrow> poll_answer" where
  "pollAnswer interval out now =
     (if tr_Error out = [] then
        (if tr_Access out = [] then PollDone (Inl (Leaf ''device token exchange returned no access token''))
         else PollDone (Inr (tokenFromResponse out now)))
      else if tr_Error out = ''authorization_pending'' then PollAgain interval
      else if tr_Error out = ''slow_down'' then PollAgain (if tr_Interval out > interval then tr_Interval out else interval + 5)
      else if tr_Error out = ''expired_token''
      then PollDone (Inl (Leaf ''device code expired before you authorized it; re-run `multirunner connect`''))
      else if tr_Error out = ''access_denied'' then PollDone (Inl (Leaf ''authorization was denied''))
      else PollDone (Inl (deviceFlowError (tr_Error out) (tr_Description out))))"

text \<open>The text of the time-out error leaves out the printed duration.\<close>

fun pollLoop :: "nat \<Rightarrow> 'w poll_env \<Rightarrow> int \<Rightarrow> int \<Rightarrow> 'w \<Rightarrow> ((gerr + user_token) \<times> 'w) option" where
  "pollLoop 0 env interval deadline w = None"
| "pollLoop (Suc n) env interval deadline w =
     (let (waited, w1) = pe_wait env (wrap64 (interval * second)) w
      in if \<not> waited then Some (Inl (Sent ContextCanceled ''context canceled''), w1)
         else if pe_now env w1 > deadline
         then Some (Inl (Leaf ''device authorization timed out; re-run `multirunner connect`''), w1)
         else case pe_post env w1 of
                (Inl e, w2) \<Rightarrow> Some (Inl e, w2)
              | (Inr out, w2) \<Rightarrow>
                  (case pollAnswer interval out (pe_now env w2) of
                     PollDone r \<Rightarrow> Some (r, w2)
                   | PollAgain i \<Rightarrow> pollLoop n env i deadline w2))"

definition pollInterval :: "device_code \<Rightarrow> int" where
  "pollInterval dc = (if dc_Interval dc < 1 then 5 else dc_Interval dc)"

definition pollLifetime :: "device_code \<Rightarrow> int" where
  "pollLifetime dc =
     (let l = wrap64 (dc_ExpiresIn dc * second) in if l \<le> 0 then 900 * second else l)"

definition PollDeviceToken :: "nat \<Rightarrow> 'w poll_env \<Rightarrow> device_code \<Rightarrow> 'w \<Rightarrow> ((gerr + user_token) \<times> 'w) option" where
  "PollDeviceToken fuel env dc w =
     pollLoop fuel env (pollInterval dc) (pe_now env w + pollLifetime dc) w"

definition RefreshUserToken :: "gerr + token_response \<Rightarrow> int \<Rightarrow> gerr + user_token" where
  "RefreshUserToken reply now =
     (case reply of
        Inl e \<Rightarrow> Inl (Wrap ''refreshing the GitHub user token failed ('' e ''); re-run `multirunner connect` to re-authorize'')
      | Inr out \<Rightarrow>
          if tr_Error out \<noteq> []
          then Inl (Leaf (''refreshing the GitHub user token was rejected ('' @ describeError (tr_Error out) (tr_Description out)
                 @ ''); re-run `multirunner connect` to re-authorize''))
          else if tr_Access out = []
          then Inl (Leaf ''token refresh returned no access token; re-run `multirunner connect` to re-authorize'')
          else Inr (tokenFromResponse out now))"

section \<open>Installations\<close>

record installation =
  is_ID :: int
  is_Account :: string
  is_IsOrg :: bool
  is_AppSlug :: string

definition DefaultAppSlug :: string where
  "DefaultAppSlug = ''multirunner-connect''"

fun matchFrom :: "string \<Rightarrow> installation list \<Rightarrow> string \<Rightarrow> (installation \<times> string) + string" where
  "matchFrom slug [] account = Inr (orDefault slug DefaultAppSlug)"
| "matchFrom slug (x # xs) account =
     (let slug1 = (if is_AppSlug x \<noteq> [] then is_AppSlug x else slug)
      in if equalFold (is_Account x) account then Inl (x, orDefault (is_AppSlug x) slug1)
         else matchFrom slug1 xs account)"

text \<open>\<open>MatchInstallation\<close>: the installation and slug (\<open>Inl\<close>), or only a slug (\<open>Inr\<close>).\<close>

definition MatchInstallation :: "installation list \<Rightarrow> string \<Rightarrow> (installation \<times> string) + string" where
  "MatchInstallation installs account = matchFrom [] installs account"

text \<open>The paginated listings: a page shorter than 100 is the last; \<open>fetch\<close> gives one page.\<close>

fun installationPages :: "nat \<Rightarrow> (nat \<Rightarrow> gerr + installation list) \<Rightarrow> nat \<Rightarrow> (gerr + installation list) option" where
  "installationPages 0 fetch page = None"
| "installationPages (Suc n) fetch page =
     (case fetch page of
        Inl e \<Rightarrow> Some (Inl e)
      | Inr xs \<Rightarrow>
          if length xs < 100 then Some (Inr xs)
          else (case installationPages n fetch (Suc page) of
                  None \<Rightarrow> None | Some (Inl e) \<Rightarrow> Some (Inl e) | Some (Inr ys) \<Rightarrow> Some (Inr (xs @ ys))))"

definition UserInstallations :: "nat \<Rightarrow> (nat \<Rightarrow> gerr + installation list) \<Rightarrow> (gerr + installation list) option" where
  "UserInstallations fuel fetch = installationPages fuel fetch 1"

fun repositoryPages :: "nat \<Rightarrow> (nat \<Rightarrow> gerr + string list) \<Rightarrow> string \<Rightarrow> nat \<Rightarrow> (gerr + bool) option" where
  "repositoryPages 0 fetch full_name page = None"
| "repositoryPages (Suc n) fetch full_name page =
     (case fetch page of
        Inl e \<Rightarrow> Some (Inl e)
      | Inr xs \<Rightarrow>
          if list_ex (\<lambda>x. equalFold x full_name) xs then Some (Inr True)
          else if length xs < 100 then Some (Inr False)
          else repositoryPages n fetch full_name (Suc page))"

definition CheckInstallationRepository ::
  "nat \<Rightarrow> (nat \<Rightarrow> gerr + string list) \<Rightarrow> int \<Rightarrow> string \<Rightarrow> string \<Rightarrow> gerr option option" where
  "CheckInstallationRepository fuel fetch inst owner repo =
     (case repositoryPages fuel fetch (owner @ ''/'' @ repo) 1 of
        None \<Rightarrow> None
      | Some (Inl e) \<Rightarrow> Some (Some e)
      | Some (Inr True) \<Rightarrow> Some None
      | Some (Inr False) \<Rightarrow>
          Some (Some (Leaf (owner @ ''/'' @ repo @ '' is not accessible through installation '' @ formatInt inst
            @ ''; include the repository in the App installation and authorize a user with repository admin access''))))"

text \<open>
  A page that fails or is short ends a listing, so any number of rounds above its position is
  enough for the listing to return.
\<close>

abbreviation lastPage :: "(gerr + 'a list) \<Rightarrow> bool" where
  "lastPage r \<equiv> (case r of Inl _ \<Rightarrow> True | Inr xs \<Rightarrow> length xs < 100)"

lemma installationPages_returns:
  assumes "lastPage (fetch (page + k))" and "k < n"
  shows "installationPages n fetch page \<noteq> None"
  using assms
proof (induction k arbitrary: n page)
  case 0
  then show ?case by (cases n) (auto split: sum.splits)
next
  case (Suc k)
  then obtain m where "n = Suc m" "k < m" by (cases n) auto
  with Suc.IH[of "Suc page" m] Suc.prems show ?case by (auto split: sum.splits option.splits)
qed

lemma repositoryPages_returns:
  assumes "lastPage (fetch (page + k))" and "k < n"
  shows "repositoryPages n fetch full_name page \<noteq> None"
  using assms
proof (induction k arbitrary: n page)
  case 0
  then show ?case by (cases n) (auto split: sum.splits)
next
  case (Suc k)
  then obtain m where "n = Suc m" "k < m" by (cases n) auto
  with Suc.IH[of "Suc page" m] Suc.prems show ?case by (auto split: sum.splits)
qed

lemma listings_return:
  assumes "k < n"
  shows "lastPage (installs (Suc k)) \<Longrightarrow> \<exists>r. UserInstallations n installs = Some r"
    and "lastPage (repos (Suc k)) \<Longrightarrow> \<exists>r. CheckInstallationRepository n repos inst owner repo = Some r"
proof -
  assume "lastPage (installs (Suc k))"
  with assms show "\<exists>r. UserInstallations n installs = Some r"
    using installationPages_returns[of installs 1 k n] by (auto simp: UserInstallations_def)
next
  assume "lastPage (repos (Suc k))"
  with assms show "\<exists>r. CheckInstallationRepository n repos inst owner repo = Some r"
    using repositoryPages_returns[of repos 1 k n "owner @ ''/'' @ repo"]
    by (auto simp: CheckInstallationRepository_def split: option.splits sum.splits bool.splits)
qed

section \<open>The base URL\<close>

definition isLoopbackIP :: "string \<Rightarrow> bool" where
  "isLoopbackIP host =
     (case parseGroups host of
        None \<Rightarrow> False
      | Some gs \<Rightarrow>
          if take 6 gs = [0, 0, 0, 0, 0, 65535] then gs ! 6 div 256 = 127
          else gs = [0, 0, 0, 0, 0, 0, 0, 1])"

definition DeviceBaseURL :: "string \<Rightarrow> gerr + string" where
  "DeviceBaseURL raw =
     (let bad = Inl (Leaf (''invalid device authentication base URL '' @ goQuote raw))
      in case parseURL (trimRight (orDefault raw DefaultBaseURL) ''/'') of
           None \<Rightarrow> bad
         | Some u \<Rightarrow>
             (let (before, frag, hasFrag) = cutAt (ur_rest u) (CHR ''#'');
                  (path, query, hasQuery) = cutAt before (CHR ''?'')
              in if ur_host u = [] \<or> ur_user u \<noteq> [] \<or> query \<noteq> [] \<or> frag \<noteq> [] then bad
                 else if equalFold (ur_host u) ''github.com'' \<or> equalFold (ur_host u) ''www.github.com'' then Inr DefaultBaseURL
                 else if ur_scheme u \<noteq> ''https'' \<and> \<not> (ur_scheme u = ''http'' \<and> isLoopbackIP (urlHostname u))
                 then Inl (Leaf (''device authentication requires an HTTPS base URL, got '' @ goQuote raw))
                 else Inr (ur_scheme u @ ''://'' @ ur_host u @ path @ (if hasQuery then ''?'' else []))))"

section \<open>The refresher\<close>

record refresher =
  rf_clientID :: string
  rf_baseURL :: string
  rf_tokenPath :: string
  rf_tok :: user_token
  rf_unsaved :: bool

definition TokenSkew :: int where
  "TokenSkew = 300 * second"

definition needsRefresh :: "user_token \<Rightarrow> int \<Rightarrow> bool" where
  "needsRefresh tok now = (case ut_Expiry tok of None \<Rightarrow> False | Some e \<Rightarrow> now > e - TokenSkew)"

definition loadValidToken :: "string \<Rightarrow> gerr + user_token \<Rightarrow> gerr + user_token" where
  "loadValidToken path loaded =
     (case loaded of
        Inl e \<Rightarrow> Inl (Wrap (''read user token '' @ path @ '': '') e '' (re-run `multirunner connect`)'')
      | Inr tok \<Rightarrow>
          if ut_Access tok = [] then Inl (Leaf (''user token '' @ path @ '' has no access token; re-run `multirunner connect`''))
          else Inr tok)"

text \<open>
  \<open>NewTokenRefresher\<close> over the registry of refreshers, with the outcomes of
  \<open>canonicalTokenPath\<close> and of loading the sidecar: a known key gives the refresher that is there.
\<close>

definition refresherKey :: "string \<Rightarrow> string \<Rightarrow> string \<Rightarrow> string" where
  "refresherKey clientID base path = clientID @ [CHR 0x00] @ base @ [CHR 0x00] @ path"

definition NewTokenRefresher ::
  "(string \<times> refresher) list \<Rightarrow> string \<Rightarrow> string \<Rightarrow> string \<Rightarrow> gerr + string \<Rightarrow> (string \<Rightarrow> gerr + user_token)
     \<Rightarrow> (gerr + refresher) \<times> (string \<times> refresher) list" where
  "NewTokenRefresher reg clientID base tokenPath canonical load =
     (let cid = orDefault clientID DefaultClientID
      in case DeviceBaseURL base of
           Inl e \<Rightarrow> (Inl e, reg)
         | Inr b \<Rightarrow>
             (case canonical of
                Inl e \<Rightarrow> (Inl (errorf (''resolve token store '' @ tokenPath @ '': '') e), reg)
              | Inr path \<Rightarrow>
                  (case map_of reg (refresherKey cid b path) of
                     Some r \<Rightarrow> (Inr r, reg)
                   | None \<Rightarrow>
                       (case loadValidToken path (load path) of
                          Inl e \<Rightarrow> (Inl e, reg)
                        | Inr tok \<Rightarrow>
                            (let r = \<lparr>rf_clientID = cid, rf_baseURL = b, rf_tokenPath = path, rf_tok = tok, rf_unsaved = False\<rparr>
                             in (Inr r, AList.update (refresherKey cid b path) r reg))))))"

text \<open>
  The world of one \<open>AccessToken\<close> call: the clock, the sidecar (read and replaced), the lock file
  and the rotation request, which sends a refresh token.
\<close>

record 'w token_env =
  te_now :: "'w \<Rightarrow> int"
  te_load :: "'w \<Rightarrow> (gerr + user_token) \<times> 'w"
  te_save :: "user_token \<Rightarrow> 'w \<Rightarrow> gerr option \<times> 'w"
  te_lock :: "'w \<Rightarrow> gerr option \<times> 'w"
  te_unlock :: "'w \<Rightarrow> 'w"
  te_rotate :: "string \<Rightarrow> 'w \<Rightarrow> (gerr + user_token) \<times> 'w"

definition retrySave :: "'w token_env \<Rightarrow> refresher \<Rightarrow> 'w \<Rightarrow> refresher \<times> 'w" where
  "retrySave env r w =
     (if \<not> rf_unsaved r then (r, w)
      else case te_save env (rf_tok r) w of
             (None, w1) \<Rightarrow> (r\<lparr>rf_unsaved := False\<rparr>, w1)
           | (Some e, w1) \<Rightarrow> (r, w1))"

text \<open>The part of \<open>AccessToken\<close> under the lock file, which is released on every way out.\<close>

definition lockedRefresh :: "'w token_env \<Rightarrow> refresher \<Rightarrow> 'w \<Rightarrow> (gerr + string) \<times> refresher \<times> 'w" where
  "lockedRefresh env r w =
     (let (stored, w1) = te_load env w;
          adopt = (case stored of
             Inr tok \<Rightarrow> if ut_Access tok \<noteq> [] \<and> \<not> needsRefresh tok (te_now env w1) then Some tok else None
           | Inl e \<Rightarrow> None)
      in case adopt of
           Some tok \<Rightarrow> (Inr (ut_Access tok), r\<lparr>rf_tok := tok, rf_unsaved := False\<rparr>, te_unlock env w1)
         | None \<Rightarrow>
             (case te_rotate env (ut_Refresh (rf_tok r)) w1 of
                (Inl e, w2) \<Rightarrow> (Inl e, r, te_unlock env w2)
              | (Inr tok, w2) \<Rightarrow>
                  (case te_save env tok w2 of
                     (None, w3) \<Rightarrow> (Inr (ut_Access tok), r\<lparr>rf_tok := tok, rf_unsaved := False\<rparr>, te_unlock env w3)
                   | (Some e, w3) \<Rightarrow> (Inr (ut_Access tok), r\<lparr>rf_tok := tok, rf_unsaved := True\<rparr>, te_unlock env w3))))"

definition AccessToken :: "'w token_env \<Rightarrow> refresher \<Rightarrow> 'w \<Rightarrow> (gerr + string) \<times> refresher \<times> 'w" where
  "AccessToken env r w =
     (let (r1, w1) = retrySave env r w
      in if \<not> needsRefresh (rf_tok r1) (te_now env w1) then (Inr (ut_Access (rf_tok r1)), r1, w1)
         else if ut_Refresh (rf_tok r1) = [] then (Inr (ut_Access (rf_tok r1)), r1, w1)
         else case te_lock env w1 of
                (Some e, w2) \<Rightarrow> (Inl e, r1, w2)
              | (None, w2) \<Rightarrow> lockedRefresh env r1 w2)"

section \<open>The polling loop ends\<close>

lemma second_pos: "0 < second"
  by (simp add: second_def)

text \<open>An interval of at most \<open>2 ^ 33\<close> seconds, some 272 years, is a \<open>Duration\<close>.\<close>

lemma wrap64_interval: "1 \<le> interval \<Longrightarrow> interval \<le> 2 ^ 33 \<Longrightarrow> wrap64 (interval * second) = interval * second"
  by (intro wrap64_id) (simp_all add: second_def)

lemma pollLoop_returns:
  assumes wait: "\<And>d w w1. pe_wait env d w = (True, w1) \<Longrightarrow> pe_now env w + d \<le> pe_now env w1"
    and post: "\<And>w r w1. pe_post env w = (r, w1) \<Longrightarrow> pe_now env w \<le> pe_now env w1"
    and reply: "\<And>w out w1. pe_post env w = (Inr out, w1) \<Longrightarrow> tr_Interval out \<le> 2 ^ 32"
  shows "1 \<le> interval \<Longrightarrow> interval + 5 * int n \<le> 2 ^ 33 \<Longrightarrow> int n \<le> 2 ^ 29 \<Longrightarrow> deadline - pe_now env w < int n * second
    \<Longrightarrow> \<exists>res w'. pollLoop (Suc n) env interval deadline w = Some (res, w')"
proof (induction n arbitrary: interval w)
  case 0
  note [simp] = wrap64_interval[OF 0(1)]
  have small: "interval \<le> 2 ^ 33" using 0(2) by simp
  obtain b w1 where w1: "pe_wait env (interval * second) w = (b, w1)" by (rule prod.exhaust)
  have "0 \<le> interval * second" using 0(1) second_pos by simp
  then have "deadline < pe_now env w1" if b using wait[of "interval * second" w w1] w1 that 0(4) by simp
  then show ?case using w1 small by (cases b) auto
next
  case (Suc n)
  have small: "interval \<le> 2 ^ 33" using Suc.prems(2) by simp
  note [simp] = wrap64_interval[OF Suc.prems(1) small]
  obtain b w1 where w1: "pe_wait env (interval * second) w = (b, w1)" by (rule prod.exhaust)
  show ?case
  proof (cases "\<not> b \<or> pe_now env w1 > deadline")
    case True
    then show ?thesis using w1 by auto
  next
    case False
    obtain r w2 where w2: "pe_post env w1 = (r, w2)" by (rule prod.exhaust)
    have "second \<le> interval * second" using Suc.prems(1) second_pos by simp
    then have "pe_now env w + second \<le> pe_now env w2" using wait[of "interval * second" w w1] w1 False post[OF w2] by simp
    then have left: "deadline - pe_now env w2 < int n * second" using Suc.prems(4) by (simp add: algebra_simps)
    show ?thesis
    proof (cases r)
      case (Inl e)
      then show ?thesis using w1 w2 False by simp
    next
      case (Inr out)
      show ?thesis
      proof (cases "pollAnswer interval out (pe_now env w2)")
        case (PollDone x)
        then show ?thesis using w1 w2 False Inr by simp
      next
        case (PollAgain i)
        then have "1 \<le> i" using Suc.prems(1) by (auto simp: pollAnswer_def split: if_splits)
        moreover have "int n \<le> 2 ^ 29" using Suc.prems(3) by simp
        moreover have "i + 5 * int n \<le> 2 ^ 33"
          using PollAgain Suc.prems(2,3) reply[OF w2[unfolded Inr]] by (auto simp: pollAnswer_def split: if_splits)
        ultimately obtain res w' where "pollLoop (Suc n) env i deadline w2 = Some (res, w')" using Suc.IH left by blast
        moreover have "pollLoop (Suc (Suc n)) env interval deadline w = pollLoop (Suc n) env i deadline w2"
          using w1 w2 False Inr PollAgain by (subst pollLoop.simps) simp
        ultimately show ?thesis by simp
      qed
    qed
  qed
qed

lemma pollLoop_token:
  "pollLoop n env interval deadline w = Some (Inr tok, w') \<Longrightarrow> ut_Access tok \<noteq> []"
proof (induction n arbitrary: interval w)
  case (Suc n)
  obtain b w1 where w1: "pe_wait env (wrap64 (interval * second)) w = (b, w1)" by (rule prod.exhaust)
  obtain r w2 where w2: "pe_post env w1 = (r, w2)" by (rule prod.exhaust)
  show ?case
  proof (cases r)
    case (Inl e)
    then show ?thesis using Suc.prems w1 w2 by (auto split: if_splits)
  next
    case (Inr out)
    show ?thesis
    proof (cases "pollAnswer interval out (pe_now env w2)")
      case (PollDone x)
      then have "x = Inr tok" using Suc.prems w1 w2 Inr by (auto split: if_splits)
      then show ?thesis using PollDone by (auto simp: pollAnswer_def tokenFromResponse_def split: if_splits)
    next
      case (PollAgain i)
      then show ?thesis using Suc w1 w2 Inr by (auto split: if_splits)
    qed
  qed
qed simp

text \<open>
  Waiting for the user's authorisation ends. When a wait lasts at least the asked interval, the
  clock never runs back and no interval exceeds a century, the loop returns within one round more
  than the life of the code in seconds, however often it is told to go on or to slow down; and what
  it returns as a token has an access token.
\<close>

theorem device_poll_returns:
  assumes "\<And>d w w1. pe_wait env d w = (True, w1) \<Longrightarrow> pe_now env w + d \<le> pe_now env w1"
    and "\<And>w r w1. pe_post env w = (r, w1) \<Longrightarrow> pe_now env w \<le> pe_now env w1"
    and "\<And>w out w1. pe_post env w = (Inr out, w1) \<Longrightarrow> tr_Interval out \<le> 2 ^ 32"
    and "dc_Interval dc \<le> 2 ^ 32" and "pollLifetime dc < int n * second" and "int n \<le> 2 ^ 29"
  shows "\<exists>res w'. PollDeviceToken (Suc n) env dc w = Some (res, w') \<and> (\<forall>tok. res = Inr tok \<longrightarrow> ut_Access tok \<noteq> [])"
proof -
  have "1 \<le> pollInterval dc" "pollInterval dc + 5 * int n \<le> 2 ^ 33" using assms(4,6) by (simp_all add: pollInterval_def)
  moreover have "pe_now env w + pollLifetime dc - pe_now env w < int n * second" using assms(5) by simp
  ultimately have "\<exists>res w'. pollLoop (Suc n) env (pollInterval dc) (pe_now env w + pollLifetime dc) w = Some (res, w')"
    by (intro pollLoop_returns; use assms in blast)
  then obtain res w' where "PollDeviceToken (Suc n) env dc w = Some (res, w')" unfolding PollDeviceToken_def by blast
  then show ?thesis using pollLoop_token unfolding PollDeviceToken_def by fastforce
qed

definition slowWorld :: "int poll_env" where
  "slowWorld = \<lparr>pe_wait = (\<lambda>d w. (True, w + d)), pe_now = (\<lambda>w. w),
     pe_post = (\<lambda>w. (Inr \<lparr>tr_Access = [], tr_Refresh = [], tr_ExpiresIn = 0, tr_RefreshExpiresIn = 0,
                          tr_Error = ''slow_down'', tr_Description = [], tr_Interval = 0\<rparr>, w))\<rparr>"

definition shortCode :: device_code where
  "shortCode = \<lparr>dc_DeviceCode = ''d'', dc_UserCode = ''u'', dc_VerificationURI = [], dc_ExpiresIn = 3, dc_Interval = 1\<rparr>"

theorem device_poll_returns_witness:
  "\<exists>res w'. PollDeviceToken (Suc 4) slowWorld shortCode 0 = Some (res, w') \<and> (\<forall>tok. res = Inr tok \<longrightarrow> ut_Access tok \<noteq> [])"
proof (rule device_poll_returns)
  show "\<And>d w w1. pe_wait slowWorld d w = (True, w1) \<Longrightarrow> pe_now slowWorld w + d \<le> pe_now slowWorld w1"
    by (simp add: slowWorld_def)
  show "\<And>w r w1. pe_post slowWorld w = (r, w1) \<Longrightarrow> pe_now slowWorld w \<le> pe_now slowWorld w1"
    by (simp add: slowWorld_def)
  show "\<And>w out w1. pe_post slowWorld w = (Inr out, w1) \<Longrightarrow> tr_Interval out \<le> 2 ^ 32"
    by (auto simp: slowWorld_def)
  show "dc_Interval shortCode \<le> 2 ^ 32" "pollLifetime shortCode < int 4 * second" "int 4 \<le> 2 ^ 29"
    by (simp_all add: pollLifetime_def shortCode_def second_def)
qed

section \<open>Rotation loses no token\<close>

text \<open>
  Several processes share one sidecar. The world is the clock, the only pair GitHub accepts, the
  sidecar, and the outcomes of the coming saves. A call may find the lock or the sidecar
  unavailable and the endpoint down; the endpoint rotates when it is sent the live refresh token
  and answers with an error otherwise.
\<close>

record token_world =
  tw_clock :: int
  tw_live :: user_token
  tw_disk :: user_token
  tw_saves :: "gerr option list"

definition worldSave :: "user_token \<Rightarrow> token_world \<Rightarrow> gerr option \<times> token_world" where
  "worldSave tok w =
     (case tw_saves w of
        Some e # es \<Rightarrow> (Some e, w\<lparr>tw_saves := es\<rparr>)
      | es \<Rightarrow> (None, w\<lparr>tw_disk := tok, tw_saves := tl es\<rparr>))"

definition worldRotate :: "gerr option \<Rightarrow> user_token \<Rightarrow> string \<Rightarrow> token_world \<Rightarrow> (gerr + user_token) \<times> token_world" where
  "worldRotate down new rt w =
     (case down of
        Some e \<Rightarrow> (Inl e, w)
      | None \<Rightarrow> if rt = ut_Refresh (tw_live w) then (Inr new, w\<lparr>tw_live := new\<rparr>) else (Inl (Leaf ''bad_refresh_token''), w))"

definition callEnv :: "gerr option \<Rightarrow> gerr option \<Rightarrow> gerr option \<Rightarrow> user_token \<Rightarrow> token_world token_env" where
  "callEnv lockErr loadErr down new =
     \<lparr>te_now = tw_clock,
      te_load = (\<lambda>w. (case loadErr of Some e \<Rightarrow> Inl e | None \<Rightarrow> Inr (tw_disk w), w)),
      te_save = worldSave, te_lock = (\<lambda>w. (lockErr, w)), te_unlock = (\<lambda>w. w), te_rotate = worldRotate down new\<rparr>"

type_synonym token_state = "token_world \<times> refresher list"

definition refreshTokens :: "token_state \<Rightarrow> string set" where
  "refreshTokens s = {ut_Refresh (tw_live (fst s)), ut_Refresh (tw_disk (fst s))} \<union> (\<lambda>r. ut_Refresh (rf_tok r)) ` set (snd s)"

inductive token_step :: "token_state \<Rightarrow> token_state \<Rightarrow> bool" where
  access: "i < length rs \<Longrightarrow> tw_clock w \<le> now \<Longrightarrow> ut_Refresh new \<notin> refreshTokens (w, rs) \<Longrightarrow>
     AccessToken (callEnv lockErr loadErr down new) (rs ! i) (w\<lparr>tw_clock := now, tw_saves := saves\<rparr>) = (res, r', w') \<Longrightarrow>
     token_step (w, rs) (w', rs[i := r'])"
| join: "rf_tok r = tw_disk w \<Longrightarrow> \<not> rf_unsaved r \<Longrightarrow> token_step (w, rs) (w, rs @ [r])"
| leave: "i < length rs \<Longrightarrow> \<not> rf_unsaved (rs ! i) \<Longrightarrow> token_step (w, rs) (w, take i rs @ drop (Suc i) rs)"

definition token_init :: "token_state \<Rightarrow> bool" where
  "token_init s \<longleftrightarrow> tw_live (fst s) = tw_disk (fst s) \<and> snd s = []"

text \<open>
  Who holds the live pair. An unsaved pair is the live one, its holder is the only one to know it,
  and the sidecar still names an older pair that is due for a refresh.
\<close>

definition pairOk :: "token_world \<Rightarrow> user_token \<Rightarrow> bool" where
  "pairOk w tok \<longleftrightarrow> (ut_Refresh tok = ut_Refresh (tw_live w) \<longrightarrow> tok = tw_live w)"

definition unsavedOk :: "token_world \<Rightarrow> refresher list \<Rightarrow> nat \<Rightarrow> bool" where
  "unsavedOk w rs i \<longleftrightarrow>
     (rf_unsaved (rs ! i) \<longrightarrow>
        rf_tok (rs ! i) = tw_live w \<and> ut_Refresh (tw_disk w) \<noteq> ut_Refresh (tw_live w)
        \<and> needsRefresh (tw_disk w) (tw_clock w)
        \<and> (\<forall>j < length rs. j \<noteq> i \<longrightarrow> ut_Refresh (rf_tok (rs ! j)) \<noteq> ut_Refresh (tw_live w)))"

definition token_inv :: "token_state \<Rightarrow> bool" where
  "token_inv s \<longleftrightarrow> (case s of (w, rs) \<Rightarrow>
     pairOk w (tw_disk w) \<and> (\<forall>r \<in> set rs. pairOk w (rf_tok r))
     \<and> (tw_disk w = tw_live w \<or> (\<exists>i < length rs. rf_unsaved (rs ! i)))
     \<and> (\<forall>i < length rs. unsavedOk w rs i))"

lemma needsRefresh_later: "needsRefresh tok t \<Longrightarrow> t \<le> t' \<Longrightarrow> needsRefresh tok t'"
  by (auto simp: needsRefresh_def split: option.splits)

text \<open>What one call of process \<open>i\<close> can have done, in terms of the sidecar and the live pair.\<close>

datatype call_effect = Unchanged | SavedMine | Adopted | RotatedSaved | RotatedUnsaved

definition callEffect :: "user_token \<Rightarrow> refresher \<Rightarrow> token_world \<Rightarrow> refresher \<Rightarrow> token_world \<Rightarrow> call_effect \<Rightarrow> bool" where
  "callEffect new r w r' w' c \<longleftrightarrow>
     tw_clock w' = tw_clock w \<and>
     (case c of
        Unchanged \<Rightarrow> rf_tok r' = rf_tok r \<and> rf_unsaved r' = rf_unsaved r \<and> tw_live w' = tw_live w \<and> tw_disk w' = tw_disk w
      | SavedMine \<Rightarrow> rf_unsaved r \<and> rf_tok r' = rf_tok r \<and> \<not> rf_unsaved r' \<and> tw_live w' = tw_live w \<and> tw_disk w' = rf_tok r
      | Adopted \<Rightarrow> rf_tok r' = tw_disk w' \<and> \<not> rf_unsaved r' \<and> tw_live w' = tw_live w
          \<and> (tw_disk w' = tw_disk w \<and> \<not> needsRefresh (tw_disk w) (tw_clock w) \<or> rf_unsaved r \<and> tw_disk w' = rf_tok r)
      | RotatedSaved \<Rightarrow> ut_Refresh (rf_tok r) = ut_Refresh (tw_live w) \<and> tw_live w' = new \<and> rf_tok r' = new
          \<and> tw_disk w' = new \<and> \<not> rf_unsaved r'
      | RotatedUnsaved \<Rightarrow> ut_Refresh (rf_tok r) = ut_Refresh (tw_live w) \<and> tw_live w' = new \<and> rf_tok r' = new \<and> rf_unsaved r'
          \<and> needsRefresh (rf_tok r) (tw_clock w)
          \<and> (tw_disk w' = tw_disk w \<or> rf_unsaved r \<and> tw_disk w' = rf_tok r))"

lemma worldSave_cases:
  obtains (failed) e es where "worldSave tok w = (Some e, w\<lparr>tw_saves := es\<rparr>)"
    | (saved) es where "worldSave tok w = (None, w\<lparr>tw_disk := tok, tw_saves := es\<rparr>)"
proof (cases "tw_saves w")
  case Nil
  then show thesis using saved[of "[]"] by (simp add: worldSave_def)
next
  case (Cons x es)
  then show thesis using saved[of es] failed[of _ es] by (cases x) (auto simp: worldSave_def)
qed

lemma callEnv_sel [simp]:
  "te_now (callEnv a b c d) = tw_clock" "te_save (callEnv a b c d) = worldSave"
  "te_lock (callEnv a b c d) w = (a, w)" "te_unlock (callEnv a b c d) w = w" "te_rotate (callEnv a b c d) = worldRotate c d"
  "te_load (callEnv a b c d) w = (case b of Some e \<Rightarrow> Inl e | None \<Rightarrow> Inr (tw_disk w), w)"
  by (simp_all add: callEnv_def)

text \<open>The call after \<open>retrySave\<close>: on the sidecar as it then is.\<close>

lemma lockedRefresh_effect:
  assumes "lockedRefresh (callEnv lockErr loadErr down new) r w = (res, r', w')" "needsRefresh (rf_tok r) (tw_clock w)"
  shows "\<exists>c. c \<noteq> SavedMine \<and> callEffect new r w r' w' c"
proof (cases "loadErr = None \<and> ut_Access (tw_disk w) \<noteq> [] \<and> \<not> needsRefresh (tw_disk w) (tw_clock w)")
  case True
  then show ?thesis using assms(1)
    by (intro exI[of _ Adopted]) (auto simp: lockedRefresh_def callEffect_def)
next
  case False
  let ?rot = "worldRotate down new (ut_Refresh (rf_tok r)) w"
  have l: "lockedRefresh (callEnv lockErr loadErr down new) r w =
    (case ?rot of
       (Inl e, w2) \<Rightarrow> (Inl e, r, w2)
     | (Inr tok, w2) \<Rightarrow>
         (case worldSave tok w2 of
            (None, w3) \<Rightarrow> (Inr (ut_Access tok), r\<lparr>rf_tok := tok, rf_unsaved := False\<rparr>, w3)
          | (Some e, w3) \<Rightarrow> (Inr (ut_Access tok), r\<lparr>rf_tok := tok, rf_unsaved := True\<rparr>, w3)))"
    using False by (cases loadErr) (auto simp: lockedRefresh_def split: prod.splits sum.splits option.splits)
  show ?thesis
  proof (cases "down = None \<and> ut_Refresh (rf_tok r) = ut_Refresh (tw_live w)")
    case True
    then have rot: "?rot = (Inr new, w\<lparr>tw_live := new\<rparr>)" by (simp add: worldRotate_def)
    show ?thesis
    proof (cases new "w\<lparr>tw_live := new\<rparr>" rule: worldSave_cases)
      case (failed e es)
      then show ?thesis using assms l rot True
        by (intro exI[of _ RotatedUnsaved]) (auto simp: callEffect_def)
    next
      case (saved es)
      then show ?thesis using assms l rot True
        by (intro exI[of _ RotatedSaved]) (auto simp: callEffect_def)
    qed
  next
    case False
    then obtain e where "?rot = (Inl e, w)" by (cases down) (auto simp: worldRotate_def)
    then show ?thesis using assms(1) l by (intro exI[of _ Unchanged]) (auto simp: callEffect_def)
  qed
qed

lemma retrySave_effect:
  assumes "retrySave (callEnv lockErr loadErr down new) r w = (r1, w1)"
  shows "rf_tok r1 = rf_tok r \<and> tw_live w1 = tw_live w \<and> tw_clock w1 = tw_clock w
    \<and> (rf_unsaved r1 = rf_unsaved r \<and> tw_disk w1 = tw_disk w
        \<or> rf_unsaved r \<and> \<not> rf_unsaved r1 \<and> tw_disk w1 = rf_tok r)"
proof (cases "rf_unsaved r")
  case True
  then show ?thesis using assms
    by (cases "rf_tok r" w rule: worldSave_cases) (auto simp: retrySave_def)
qed (use assms in \<open>auto simp: retrySave_def\<close>)

lemma retryOnly_effect:
  assumes "rf_tok r' = rf_tok r" "tw_live w' = tw_live w" "tw_clock w' = tw_clock w"
    "rf_unsaved r' = rf_unsaved r \<and> tw_disk w' = tw_disk w \<or> rf_unsaved r \<and> \<not> rf_unsaved r' \<and> tw_disk w' = rf_tok r"
  shows "\<exists>c. callEffect new r w r' w' c"
  using assms(4)
proof
  assume "rf_unsaved r' = rf_unsaved r \<and> tw_disk w' = tw_disk w"
  then show ?thesis using assms(1-3) by (intro exI[of _ Unchanged]) (simp add: callEffect_def)
next
  assume "rf_unsaved r \<and> \<not> rf_unsaved r' \<and> tw_disk w' = rf_tok r"
  then show ?thesis using assms(1-3) by (intro exI[of _ SavedMine]) (simp add: callEffect_def)
qed

lemma AccessToken_effect:
  assumes "AccessToken (callEnv lockErr loadErr down new) r w = (res, r', w')"
  shows "\<exists>c. callEffect new r w r' w' c"
proof -
  let ?env = "callEnv lockErr loadErr down new"
  obtain r1 w1 where rs: "retrySave ?env r w = (r1, w1)" by (rule prod.exhaust)
  have same: "rf_tok r1 = rf_tok r" "tw_live w1 = tw_live w" "tw_clock w1 = tw_clock w"
    and disk: "rf_unsaved r1 = rf_unsaved r \<and> tw_disk w1 = tw_disk w
        \<or> rf_unsaved r \<and> \<not> rf_unsaved r1 \<and> tw_disk w1 = rf_tok r"
    using retrySave_effect[OF rs] by blast+
  show ?thesis
  proof (cases "needsRefresh (rf_tok r1) (tw_clock w1) \<and> ut_Refresh (rf_tok r1) \<noteq> [] \<and> lockErr = None")
    case False
    then have "r' = r1" "w' = w1"
      using assms rs by (auto simp: AccessToken_def split: if_splits option.splits)
    then show ?thesis using retryOnly_effect[OF same disk] by simp
  next
    case True
    then have "lockedRefresh ?env r1 w1 = (res, r', w')" using assms rs by (simp add: AccessToken_def)
    then obtain c where c: "c \<noteq> SavedMine" "callEffect new r1 w1 r' w' c" using lockedRefresh_effect True by blast
    show ?thesis
    proof (cases c)
      case Unchanged
      then show ?thesis using c(2) same disk by (intro retryOnly_effect) (auto simp: callEffect_def)
    next
      case Adopted
      then show ?thesis using c(2) same disk by (intro exI[of _ call_effect.Adopted]) (auto simp: callEffect_def)
    next
      case RotatedSaved
      then show ?thesis using c(2) same by (intro exI[of _ call_effect.RotatedSaved]) (auto simp: callEffect_def)
    next
      case RotatedUnsaved
      then show ?thesis using c(2) same disk by (intro exI[of _ call_effect.RotatedUnsaved]) (auto simp: callEffect_def)
    qed (use c(1) in simp)
  qed
qed

lemma token_inv_later:
  "token_inv (w, rs) \<Longrightarrow> tw_clock w \<le> now \<Longrightarrow> token_inv (w\<lparr>tw_clock := now, tw_saves := saves\<rparr>, rs)"
  by (auto simp: token_inv_def pairOk_def unsavedOk_def intro: needsRefresh_later)

text \<open>A process that holds the live pair is the only one that can have it unsaved.\<close>

lemma others_saved:
  assumes "token_inv (w, rs)" "i < length rs" "ut_Refresh (rf_tok (rs ! i)) = ut_Refresh (tw_live w)"
    and "j < length rs" "j \<noteq> i"
  shows "\<not> rf_unsaved (rs ! j)"
  using assms by (auto simp: token_inv_def unsavedOk_def)

lemma all_saved_inv:
  assumes "pairOk w (tw_disk w)" "\<forall>r \<in> set rs. pairOk w (rf_tok r)" "tw_disk w = tw_live w"
    "\<forall>k < length rs. \<not> rf_unsaved (rs ! k)"
  shows "token_inv (w, rs)"
  using assms by (auto simp: token_inv_def unsavedOk_def)

lemma pairOk_update:
  assumes "\<forall>r \<in> set rs. P (rf_tok r)" "P (rf_tok r')"
  shows "\<forall>r \<in> set (rs[i := r']). P (rf_tok r)"
  using assms set_update_subset_insert[of rs i r'] by blast

lemma pairOk_live: "tw_live w' = tw_live w \<Longrightarrow> pairOk w' tok = pairOk w tok"
  by (simp add: pairOk_def)

lemma pairOk_fresh:
  "\<forall>r \<in> set rs. ut_Refresh (rf_tok r) \<noteq> ut_Refresh new \<Longrightarrow> tw_live w' = new \<Longrightarrow> \<forall>r \<in> set rs. pairOk w' (rf_tok r)"
  by (simp add: pairOk_def)

lemma effect_keeps_inv:
  assumes inv: "token_inv (w, rs)" and i: "i < length rs" and new: "ut_Refresh new \<notin> refreshTokens (w, rs)"
    and c: "callEffect new (rs ! i) w r' w' c"
  shows "token_inv (w', rs[i := r'])"
proof -
  let ?rs = "rs[i := r']"
  have pd: "pairOk w (tw_disk w)" and pr: "\<forall>r \<in> set rs. pairOk w (rf_tok r)"
    and hold: "tw_disk w = tw_live w \<or> (\<exists>k < length rs. rf_unsaved (rs ! k))"
    and un: "\<forall>k < length rs. unsavedOk w rs k"
    using inv by (auto simp: token_inv_def)
  have ri: "pairOk w (rf_tok (rs ! i))" using pr i by simp
  have fresh: "ut_Refresh new \<noteq> ut_Refresh (tw_disk w)" "\<forall>r \<in> set rs. ut_Refresh (rf_tok r) \<noteq> ut_Refresh new"
    using new unfolding refreshTokens_def by (simp, metis (mono_tags, lifting) UnCI image_eqI snd_conv)
  have mine: "rf_tok (rs ! i) = tw_live w" if "rf_unsaved (rs ! i)" using un i that by (simp add: unsavedOk_def)
  have rest: "\<not> rf_unsaved (?rs ! k)" if "k < length rs" "k \<noteq> i" "ut_Refresh (rf_tok (rs ! i)) = ut_Refresh (tw_live w)" for k
    using others_saved[OF inv i that(3,1,2)] that by simp
  show ?thesis
  proof (cases c)
    case Unchanged
    then have e: "rf_tok r' = rf_tok (rs ! i)" "rf_unsaved r' = rf_unsaved (rs ! i)" "tw_live w' = tw_live w"
      "tw_disk w' = tw_disk w" "tw_clock w' = tw_clock w" using c by (auto simp: callEffect_def)
    have nth: "rf_tok (?rs ! k) = rf_tok (rs ! k)" "rf_unsaved (?rs ! k) = rf_unsaved (rs ! k)" if "k < length rs" for k
      using e that i by (cases "k = i"; simp)+
    have "\<forall>r \<in> set ?rs. pairOk w (rf_tok r)" using pairOk_update[OF pr, of r'] ri e by simp
    moreover have "tw_disk w = tw_live w \<or> (\<exists>k < length rs. rf_unsaved (?rs ! k))" using hold nth(2) by blast
    ultimately show ?thesis using pd un e nth by (simp add: token_inv_def unsavedOk_def pairOk_def)
  next
    case SavedMine
    then have e: "rf_unsaved (rs ! i)" "rf_tok r' = rf_tok (rs ! i)" "\<not> rf_unsaved r'" "tw_live w' = tw_live w"
      "tw_disk w' = tw_live w" using c mine by (auto simp: callEffect_def)
    have "rf_tok (rs ! i) = tw_live w" using mine e(1) by simp
    then have "\<not> rf_unsaved (?rs ! k)" if "k < length ?rs" for k
      using rest[of k] that e(3) i by (cases "k = i") simp_all
    moreover have "\<forall>r \<in> set ?rs. pairOk w' (rf_tok r)"
      using pairOk_update[OF pr, of r' i] ri pairOk_live[OF e(4)] e(2) by simp
    moreover have "pairOk w' (tw_disk w')" "tw_disk w' = tw_live w'" using e by (simp_all add: pairOk_def)
    ultimately show ?thesis by (intro all_saved_inv) simp_all
  next
    case Adopted
    then have e: "rf_tok r' = tw_disk w'" "\<not> rf_unsaved r'" "tw_live w' = tw_live w"
      and d: "tw_disk w' = tw_disk w \<and> \<not> needsRefresh (tw_disk w) (tw_clock w) \<or> rf_unsaved (rs ! i) \<and> tw_disk w' = rf_tok (rs ! i)"
      using c by (auto simp: callEffect_def)
    have none: "\<not> rf_unsaved (rs ! k)" if k: "k < length rs" "k \<noteq> i \<or> \<not> rf_unsaved (rs ! i)" for k
    proof
      assume u: "rf_unsaved (rs ! k)"
      then have n: "needsRefresh (tw_disk w) (tw_clock w)" using un k(1) by (simp add: unsavedOk_def)
      then have ui: "rf_unsaved (rs ! i)" using d by blast
      then have ki: "k \<noteq> i" using k(2) by blast
      have "ut_Refresh (rf_tok (rs ! i)) = ut_Refresh (tw_live w)" using mine[OF ui] by simp
      from others_saved[OF inv i this k(1) ki] u show False by blast
    qed
    have disk: "tw_disk w' = tw_live w"
    proof (cases "rf_unsaved (rs ! i)")
      case True
      then have "needsRefresh (tw_disk w) (tw_clock w)" using un i by (simp add: unsavedOk_def)
      then show ?thesis using d mine[OF True] by simp
    next
      case False
      then have "tw_disk w = tw_live w" using none hold by metis
      then show ?thesis using d False by simp
    qed
    have "\<not> rf_unsaved (?rs ! k)" if "k < length ?rs" for k
      using none[of k] that e(2) by (cases "k = i") simp_all
    moreover have "pairOk w' (tw_disk w')" "tw_disk w' = tw_live w'" using e disk by (simp_all add: pairOk_def)
    moreover have "\<forall>r \<in> set ?rs. pairOk w' (rf_tok r)"
      using pairOk_update[of rs "pairOk w'" r' i] pr pairOk_live[OF e(3)] e(1) calculation(2) by simp
    ultimately show ?thesis by (intro all_saved_inv) simp_all
  next
    case RotatedSaved
    then have e: "ut_Refresh (rf_tok (rs ! i)) = ut_Refresh (tw_live w)" "tw_live w' = new" "rf_tok r' = new"
      "tw_disk w' = new" "\<not> rf_unsaved r'" using c by (auto simp: callEffect_def)
    have "\<not> rf_unsaved (?rs ! k)" if "k < length ?rs" for k
      using rest[of k] that e by (cases "k = i") auto
    moreover have "\<forall>r \<in> set ?rs. pairOk w' (rf_tok r)"
      using pairOk_update[OF pairOk_fresh[OF fresh(2) e(2)], of r' i] e by (simp add: pairOk_def)
    moreover have "pairOk w' (tw_disk w')" "tw_disk w' = tw_live w'" using e by (simp_all add: pairOk_def)
    ultimately show ?thesis by (intro all_saved_inv) simp_all
  next
    case RotatedUnsaved
    then have e: "ut_Refresh (rf_tok (rs ! i)) = ut_Refresh (tw_live w)" "tw_live w' = new" "rf_tok r' = new" "rf_unsaved r'"
      "needsRefresh (rf_tok (rs ! i)) (tw_clock w)" "tw_clock w' = tw_clock w"
      and d: "tw_disk w' = tw_disk w \<or> rf_unsaved (rs ! i) \<and> tw_disk w' = rf_tok (rs ! i)"
      using c by (auto simp: callEffect_def)
    have live: "rf_tok (rs ! i) = tw_live w" using ri e by (simp add: pairOk_def)
    have old: "needsRefresh (tw_disk w) (tw_clock w)" using hold un e live by (auto simp: unsavedOk_def)
    have disk: "needsRefresh (tw_disk w') (tw_clock w')" "ut_Refresh (tw_disk w') \<noteq> ut_Refresh new"
      using d e old fresh i by auto
    have oth: "ut_Refresh (rf_tok (?rs ! j)) \<noteq> ut_Refresh new" if "j < length rs" "j \<noteq> i" for j
      using fresh(2) that by simp
    have un': "unsavedOk w' ?rs k" if "k < length ?rs" for k
      using rest[of k] that e disk oth by (cases "k = i") (auto simp: unsavedOk_def)
    have "\<forall>r \<in> set ?rs. pairOk w' (rf_tok r)"
      using pairOk_update[OF pairOk_fresh[OF fresh(2) e(2)], of r' i] e by (simp add: pairOk_def)
    moreover have "\<exists>k < length ?rs. rf_unsaved (?rs ! k)" using i e by (intro exI[of _ i]) simp
    ultimately show ?thesis using un' disk e by (auto simp: token_inv_def pairOk_def)
  qed
qed

lemma leave_keeps_inv:
  assumes inv: "token_inv (w, rs)" and i: "i < length rs" "\<not> rf_unsaved (rs ! i)"
  shows "token_inv (w, take i rs @ drop (Suc i) rs)"
proof -
  let ?rs = "take i rs @ drop (Suc i) rs"
  let ?f = "\<lambda>k. if k < i then k else Suc k"
  have nth: "?rs ! k = rs ! ?f k" if "k < length ?rs" for k
    using that i(1) by (auto simp: nth_append min_def)
  have bound: "?f k < length rs" "?f k \<noteq> i" if "k < length ?rs" for k using that i(1) by auto
  have inj: "?f j \<noteq> ?f k" if "j \<noteq> k" for j k using that by auto
  have "set ?rs \<subseteq> set rs" using set_take_subset set_drop_subset by fastforce
  moreover have "\<exists>k < length ?rs. rf_unsaved (?rs ! k)" if "k < length rs" "rf_unsaved (rs ! k)" for k
  proof -
    have "k \<noteq> i" using i that by blast
    then have "rf_unsaved (?rs ! (if k < i then k else k - 1))" "(if k < i then k else k - 1) < length ?rs"
      using that i by (auto simp: nth_append min_def)
    then show ?thesis by blast
  qed
  moreover have "unsavedOk w ?rs k" if "k < length ?rs" for k
    using inv bound[OF that] nth[OF that] nth bound inj by (simp add: token_inv_def unsavedOk_def)
  ultimately show ?thesis using inv by (auto simp: token_inv_def)
qed

lemma join_keeps_inv:
  assumes "token_inv (w, rs)" "rf_tok r = tw_disk w" "\<not> rf_unsaved r"
  shows "token_inv (w, rs @ [r])"
  using assms by (auto simp: token_inv_def unsavedOk_def nth_append less_Suc_eq)

interpretation tokens: invariant_machine token_init token_step token_inv
proof
  show "token_inv s" if "token_init s" for s
    using that by (cases s) (simp add: token_init_def token_inv_def pairOk_def)
  show "token_inv t" if "token_step s t" "token_inv s" for s t
    using that
  proof (cases rule: token_step.cases)
    case (access i rs w now new lockErr loadErr down saves res r' w')
    have later: "token_inv (w\<lparr>tw_clock := now, tw_saves := saves\<rparr>, rs)"
      using token_inv_later[OF _ access(4)] that(2) access(1) by simp
    obtain c where "callEffect new (rs ! i) (w\<lparr>tw_clock := now, tw_saves := saves\<rparr>) r' w' c"
      using AccessToken_effect[OF access(6)] by blast
    moreover have "ut_Refresh new \<notin> refreshTokens (w\<lparr>tw_clock := now, tw_saves := saves\<rparr>, rs)"
      using access(5) by (simp add: refreshTokens_def)
    ultimately show ?thesis using effect_keeps_inv[OF later access(3)] access(2) by blast
  next
    case (join r w rs)
    then show ?thesis using join_keeps_inv that(2) by simp
  next
    case (leave i rs w)
    then show ?thesis using leave_keeps_inv that(2) by simp
  qed
qed


definition sampleToken :: "string \<Rightarrow> int \<Rightarrow> user_token" where
  "sampleToken s e = \<lparr>ut_Access = s, ut_Refresh = s, ut_Expiry = Some e, ut_RefreshExpiry = None\<rparr>"

definition sampleWorld :: token_world where
  "sampleWorld = \<lparr>tw_clock = 0, tw_live = sampleToken ''old'' 10, tw_disk = sampleToken ''old'' 10, tw_saves = []\<rparr>"

definition sampleRefresher :: refresher where
  "sampleRefresher = \<lparr>rf_clientID = ''c'', rf_baseURL = DefaultBaseURL, rf_tokenPath = ''t'', rf_tok = sampleToken ''old'' 10,
     rf_unsaved = False\<rparr>"


end
