(* ===== verification/Go_Os.thy ===== *)
theory Go_Os
  imports Go_Prelude
begin

text \<open>
  What the program uses of \<open>os\<close> and \<open>path/filepath\<close> on a Unix host. \<open>Clean\<close>, \<open>Join\<close>, \<open>Dir\<close> and
  \<open>Rel\<close>, with the lemmas that a cleaned path keeps its components and that joining two plain names
  appends them to the components. The environment of a process is the list of its \<open>name=value\<close>
  strings.
\<close>

section \<open>Paths\<close>

text \<open>
  \<open>filepath.Clean\<close> on the components of a path: empty and \<open>.\<close> components go, \<open>..\<close> removes the
  component before it, or stays at the front of a relative path. \<open>acc\<close> is the output reversed.
\<close>

fun cleanParts :: "bool \<Rightarrow> string list \<Rightarrow> string list \<Rightarrow> string list" where
  "cleanParts rooted acc [] = rev acc"
| "cleanParts rooted acc (x # xs) =
     (if x = [] \<or> x = ''.'' then cleanParts rooted acc xs
      else if x = ''..'' then
        (case acc of
           [] \<Rightarrow> cleanParts rooted (if rooted then [] else [''..'']) xs
         | y # ys \<Rightarrow> cleanParts rooted (if y = ''..'' then ''..'' # acc else ys) xs)
      else cleanParts rooted (x # acc) xs)"

definition isAbs :: "string \<Rightarrow> bool" where
  "isAbs p = hasPrefix p ''/''"

definition pathParts :: "string \<Rightarrow> string list" where
  "pathParts p = cleanParts (isAbs p) [] (splitOn (CHR ''/'') p)"

definition pathClean :: "string \<Rightarrow> string" where
  "pathClean p =
     (let s = (if isAbs p then ''/'' else []) @ sepBy ''/'' (pathParts p)
      in if s = [] then ''.'' else s)"

text \<open>\<open>filepath.Join\<close> of two elements: empty elements are left out.\<close>

definition pathJoin :: "string \<Rightarrow> string \<Rightarrow> string" where
  "pathJoin a b =
     (let es = dropEmpty [a, b] in if es = [] then [] else pathClean (sepBy ''/'' es))"

text \<open>\<open>filepath.Dir\<close>: everything up to the last slash, cleaned.\<close>

definition pathDir :: "string \<Rightarrow> string" where
  "pathDir p = pathClean (rev (dropWhile (\<lambda>c. c \<noteq> CHR ''/'') (rev p)))"

text \<open>\<open>filepath.Rel\<close>, over the cleaned components; \<open>None\<close> is its error.\<close>

fun dropCommon :: "string list \<Rightarrow> string list \<Rightarrow> string list \<times> string list" where
  "dropCommon (x # xs) (y # ys) = (if x = y then dropCommon xs ys else (x # xs, y # ys))"
| "dropCommon xs ys = (xs, ys)"

definition pathRel :: "string \<Rightarrow> string \<Rightarrow> string option" where
  "pathRel base targ =
     (if isAbs base \<noteq> isAbs targ then None
      else case dropCommon (pathParts base) (pathParts targ) of
             (bs, ts) \<Rightarrow>
               if bs \<noteq> [] \<and> hd bs = ''..'' then None
               else if bs = [] \<and> ts = [] then Some ''.''
               else Some (sepBy ''/'' (replicate (length bs) ''..'' @ ts)))"

section \<open>The environment\<close>

text \<open>\<open>os.LookupEnv\<close> and \<open>os.Getenv\<close>: the first entry \<open>name=value\<close> with the name.\<close>

fun lookupEnv :: "string list \<Rightarrow> string \<Rightarrow> string option" where
  "lookupEnv [] k = None"
| "lookupEnv (x # xs) k =
     (case cutAt x (CHR ''='') of (n, v, found) \<Rightarrow> if found \<and> n = k then Some v else lookupEnv xs k)"

definition osGetenv :: "string list \<Rightarrow> string \<Rightarrow> string" where
  "osGetenv env k = (case lookupEnv env k of None \<Rightarrow> [] | Some v \<Rightarrow> v)"

definition envName :: "string \<Rightarrow> string" where
  "envName item = fst (cutAt item (CHR ''=''))"

text \<open>What a child process started with an environment sees: \<open>os/exec\<close> keeps the last entry of a name.\<close>

definition childEnv :: "string list \<Rightarrow> string \<Rightarrow> string option" where
  "childEnv env k = lookupEnv (rev env) k"

lemma lookupEnv_append:
  "lookupEnv (xs @ ys) k = (case lookupEnv xs k of None \<Rightarrow> lookupEnv ys k | Some v \<Rightarrow> Some v)"
  by (induction xs) (auto split: prod.splits)

lemma cutAt_pair [simp]: "CHR ''='' \<notin> set n \<Longrightarrow> cutAt (n @ CHR ''='' # v) (CHR ''='') = (n, v, True)"
  by (simp add: cutAt_def indexByte_append)

section \<open>Components\<close>

text \<open>A path component as an owner or a repository name is one.\<close>

definition plainPart :: "string \<Rightarrow> bool" where
  "plainPart x \<longleftrightarrow> x \<noteq> [] \<and> x \<noteq> ''.'' \<and> x \<noteq> ''..'' \<and> CHR ''/'' \<notin> set x"

text \<open>Cleaned components: plain, after some \<open>..\<close> when the path is relative.\<close>

definition cleaned :: "bool \<Rightarrow> string list \<Rightarrow> bool" where
  "cleaned rooted ws \<longleftrightarrow> (\<exists>k us. ws = replicate k ''..'' @ us \<and> (\<forall>u \<in> set us. plainPart u) \<and> (rooted \<longrightarrow> k = 0))"

lemma cleanParts_append:
  "cleanParts rooted acc (xs @ ys) = cleanParts rooted (rev (cleanParts rooted acc xs)) ys"
  by (induction rooted acc xs rule: cleanParts.induct) (auto split: list.splits)

lemma cleanParts_plain: "\<forall>u \<in> set us. plainPart u \<Longrightarrow> cleanParts rooted acc us = rev acc @ us"
  by (induction us arbitrary: acc) (auto simp: plainPart_def)

lemma cleanParts_ups: "cleanParts False (replicate k ''..'') (replicate n ''..'') = replicate (k + n) ''..''"
proof (induction n arbitrary: k)
  case (Suc n)
  show ?case using Suc.IH[of "Suc k"] by (cases k) (auto simp: replicate_append_same)
qed simp

lemma cleanParts_cleaned_id: "cleaned rooted ws \<Longrightarrow> cleanParts rooted [] ws = ws"
proof -
  assume "cleaned rooted ws"
  then obtain k us where w: "ws = replicate k ''..'' @ us" "\<forall>u \<in> set us. plainPart u" "rooted \<longrightarrow> k = 0"
    by (auto simp: cleaned_def)
  have "cleanParts rooted [] (replicate k ''..'') = replicate k ''..''"
    using cleanParts_ups[of 0 k] w(3) by (cases rooted) auto
  then show ?thesis by (simp add: w(1) cleanParts_append cleanParts_plain[OF w(2)])
qed

lemma cleaned_snoc:
  assumes "cleaned rooted (ws @ [y])"
  shows "cleaned rooted ws" and "y = ''..'' \<Longrightarrow> \<not> rooted \<Longrightarrow> cleaned rooted (ws @ [y, ''..''])"
    and "rooted \<Longrightarrow> y \<noteq> ''..''"
proof -
  obtain k us where w: "ws @ [y] = replicate k ''..'' @ us" "\<forall>u \<in> set us. plainPart u" "rooted \<longrightarrow> k = 0"
    using assms by (auto simp: cleaned_def)
  have ups: "ws = replicate (k - 1) ''..'' \<and> y = ''..'' \<and> 0 < k" if "us = []"
  proof (cases k)
    case (Suc n)
    then have "ws @ [y] = replicate n ''..'' @ [''..'']" using w(1) that by (simp add: replicate_append_same)
    then show ?thesis using Suc by simp
  qed (use w(1) that in simp)
  have vs: "\<exists>vs. us = vs @ [y] \<and> ws = replicate k ''..'' @ vs" if "us \<noteq> []"
    using w(1) that by (cases us rule: rev_cases) auto
  show "cleaned rooted ws"
  proof (cases "us = []")
    case True
    then show ?thesis using ups w(3) unfolding cleaned_def by (intro exI[of _ "k - 1"] exI[of _ "[]"]) auto
  next
    case False
    then obtain vs' where "us = vs' @ [y]" "ws = replicate k ''..'' @ vs'" using vs by auto
    then show ?thesis using w(2,3) unfolding cleaned_def
      by (intro exI[of _ k] exI[of _ vs']) simp
  qed
  show "rooted \<Longrightarrow> y \<noteq> ''..''" using ups vs w(2,3) by (cases "us = []") (auto simp: plainPart_def)
  show "cleaned rooted (ws @ [y, ''..''])" if y: "y = ''..''" and r: "\<not> rooted"
  proof -
    have "us = []" using vs w(2) y by (force simp: plainPart_def)
    then have "ws @ [y] = replicate k ''..''" using w(1) by simp
    then have "ws @ [y, ''..''] = replicate k ''..'' @ [''..'']" by simp
    then have "ws @ [y, ''..''] = replicate (Suc k) ''..'' @ []" by (simp add: replicate_append_same)
    then show ?thesis unfolding cleaned_def using r
      by (intro exI[of _ "Suc k"] exI[of _ "[]"]) simp
  qed
qed

lemma cleaned_add: "cleaned rooted ws \<Longrightarrow> plainPart x \<Longrightarrow> cleaned rooted (ws @ [x])"
  by (fastforce simp: cleaned_def)

lemma cleaned_cleanParts:
  "cleaned rooted (rev acc) \<Longrightarrow> \<forall>x \<in> set xs. CHR ''/'' \<notin> set x \<Longrightarrow> cleaned rooted (cleanParts rooted acc xs)"
proof (induction rooted acc xs rule: cleanParts.induct)
  case (2 rooted acc x xs)
  consider "x = [] \<or> x = ''.''" | "x = ''..''" "acc = []" | y ys where "x = ''..''" "acc = y # ys"
    | "plainPart x" using "2.prems"(2) by (cases acc) (auto simp: plainPart_def)
  then show ?case
  proof cases
    case 1
    then show ?thesis using 2 by auto
  next
    case 2
    have "cleaned False [''..'']" unfolding cleaned_def by (intro exI[of _ 1] exI[of _ "[]"]) simp
    then show ?thesis using 2 "2.IH"(2) "2.prems" by (cases rooted) auto
  next
    case 3
    then show ?thesis using "2.IH"(3)[of y ys] "2.prems" cleaned_snoc[of rooted "rev ys" y]
      by (cases rooted) auto
  next
    case 4
    then show ?thesis using "2.IH"(4) "2.prems" cleaned_add[of rooted "rev acc" x]
      by (auto simp: plainPart_def)
  qed
qed simp

lemma splitOn_sepBy: "ws \<noteq> [] \<Longrightarrow> \<forall>w \<in> set ws. c \<notin> set w \<Longrightarrow> splitOn c (sepBy [c] ws) = ws"
proof (induction "[c]" ws rule: sepBy.induct)
  case (3 x y xs)
  then have "splitOn c (x @ c # sepBy [c] (y # xs)) = x # y # xs"
    using splitOn_append[of c x "sepBy [c] (y # xs)"] by auto
  then show ?case by simp
qed auto

lemma cleaned_no_slash: "cleaned rooted ws \<Longrightarrow> \<forall>w \<in> set ws. CHR ''/'' \<notin> set w \<and> w \<noteq> []"
proof -
  assume "cleaned rooted ws"
  then obtain k us where "ws = replicate k ''..'' @ us" "\<forall>u \<in> set us. plainPart u" by (auto simp: cleaned_def)
  then have "w = ''..'' \<or> plainPart w" if "w \<in> set ws" for w using that by auto
  moreover have "CHR ''/'' \<notin> set w \<and> w \<noteq> []" if "w = ''..'' \<or> plainPart w" for w
    using that by (elim disjE) (simp_all add: plainPart_def)
  ultimately show ?thesis by blast
qed

lemma cleaned_Nil [simp]: "cleaned rooted []"
  unfolding cleaned_def by (intro exI[of _ 0] exI[of _ "[]"]) simp

lemma cleaned_pathParts: "cleaned (isAbs p) (pathParts p)"
  unfolding pathParts_def
  by (rule cleaned_cleanParts) (auto dest: splitOn_pieces)

lemma pathParts_clean [simp]: "pathParts (pathClean p) = pathParts p" and isAbs_clean [simp]: "isAbs (pathClean p) = isAbs p"
proof -
  define ws where "ws = pathParts p"
  have c: "cleaned (isAbs p) ws" using cleaned_pathParts by (simp add: ws_def)
  note ns = cleaned_no_slash[OF c]
  show a: "isAbs (pathClean p) = isAbs p"
  proof (cases "isAbs p \<or> ws = []")
    case True
    then show ?thesis by (auto simp: pathClean_def isAbs_def Let_def ws_def[symmetric])
  next
    case False
    then obtain w vs where w: "ws = w # vs" by (cases ws) auto
    with ns obtain d ds where "w = d # ds" "d \<noteq> CHR ''/''" by (cases w) auto
    then have "\<exists>rest. sepBy ''/'' ws = d # rest" using w by (cases vs) auto
    with \<open>d \<noteq> CHR ''/''\<close> False show ?thesis by (auto simp: pathClean_def isAbs_def Let_def ws_def[symmetric])
  qed
  have s: "splitOn (CHR ''/'') (sepBy ''/'' ws) = ws" if "ws \<noteq> []"
    using splitOn_sepBy[OF that] ns by blast
  have i: "cleanParts (isAbs p) [] ws = ws" by (rule cleanParts_cleaned_id[OF c])
  show "pathParts (pathClean p) = pathParts p"
  proof (cases "ws = []")
    case True
    then show ?thesis unfolding pathParts_def[of "pathClean p"] a
      by (auto simp: pathClean_def ws_def[symmetric])
  next
    case False
    then show ?thesis unfolding pathParts_def[of "pathClean p"] a
      using s i by (cases "isAbs p") (auto simp: pathClean_def ws_def[symmetric] Let_def)
  qed
qed

lemma splitOn_join: "splitOn c (xs @ c # ys) = splitOn c xs @ splitOn c ys"
  by (induction xs) (auto split: list.splits)

lemma pathParts_join:
  assumes "plainPart owner" and "plainPart file"
  shows "pathParts (pathJoin root (owner @ ''/'' @ file)) = pathParts root @ [owner, file]"
    and "isAbs (pathJoin root (owner @ ''/'' @ file)) = isAbs root"
proof -
  obtain d ds where o: "owner = d # ds" "d \<noteq> CHR ''/''"
    using assms(1) by (cases owner) (auto simp: plainPart_def)
  have ns: "CHR ''/'' \<notin> set owner" "CHR ''/'' \<notin> set file"
    and pl: "\<forall>u \<in> set [owner, file]. plainPart u"
    using assms by (simp_all add: plainPart_def)
  have sf: "splitOn (CHR ''/'') (owner @ CHR ''/'' # file) = [owner, file]"
    by (simp only: splitOn_append[OF ns(1)] splitOn_no_sep[OF ns(2)])
  have "pathParts (pathJoin root (owner @ ''/'' @ file)) = pathParts root @ [owner, file]
      \<and> isAbs (pathJoin root (owner @ ''/'' @ file)) = isAbs root"
  proof (cases "root = []")
    case True
    then have j: "pathJoin root (owner @ ''/'' @ file) = pathClean (owner @ CHR ''/'' # file)"
      by (simp add: pathJoin_def dropEmpty_def)
    have "\<not> isAbs (owner @ CHR ''/'' # file)" "\<not> isAbs root" using o True by (simp_all add: isAbs_def)
    moreover have "pathParts root = []" by (simp add: True pathParts_def)
    moreover have "pathParts (owner @ CHR ''/'' # file) = [owner, file]"
      by (simp only: pathParts_def sf cleanParts_plain[OF pl] rev.simps append_Nil)
    ultimately show ?thesis using j by simp
  next
    case False
    then have j: "pathJoin root (owner @ ''/'' @ file) = pathClean (root @ CHR ''/'' # owner @ CHR ''/'' # file)"
      by (simp add: pathJoin_def dropEmpty_def)
    have a: "isAbs (root @ CHR ''/'' # owner @ CHR ''/'' # file) = isAbs root"
      using False by (cases root) (simp_all add: isAbs_def)
    have "splitOn (CHR ''/'') (root @ CHR ''/'' # owner @ CHR ''/'' # file) = splitOn (CHR ''/'') root @ [owner, file]"
      using splitOn_join[of "CHR ''/''" root "owner @ CHR ''/'' # file"] by (simp only: sf)
    then have "pathParts (root @ CHR ''/'' # owner @ CHR ''/'' # file) = pathParts root @ [owner, file]"
      by (simp only: pathParts_def a cleanParts_append cleanParts_plain[OF pl] rev_rev_ident)
    then show ?thesis using j a by simp
  qed
  then show "pathParts (pathJoin root (owner @ ''/'' @ file)) = pathParts root @ [owner, file]"
    "isAbs (pathJoin root (owner @ ''/'' @ file)) = isAbs root" by simp_all
qed

lemma dropCommon_append: "dropCommon xs (xs @ ys) = ([], ys)"
  by (induction xs) (cases ys, auto)

end
