(* ===== verification/Go_Text.thy ===== *)
theory Go_Text
  imports Go_Prelude
begin

text \<open>
  What the service log uses of \<open>unicode/utf8\<close>, \<open>strings\<close> and \<open>regexp\<close>: decoding and validity of
  UTF-8, \<open>strings.Map\<close>, \<open>strings.ReplaceAll\<close>, and leftmost-first regular expression matching with
  capturing groups and \<open>ReplaceAllString\<close>. Expressions are matched on bytes; for the patterns of the
  program this is the same as matching on runes, since every class they use contains either all
  or none of the bytes above 127. Case-insensitive letters fold within ASCII.
\<close>

section \<open>UTF-8\<close>

definition byte :: "char \<Rightarrow> int" where
  "byte c = of_char c"

definition isCont :: "int \<Rightarrow> bool" where
  "isCont b = (128 \<le> b \<and> b \<le> 191)"

text \<open>
  \<open>utf8.DecodeRuneInString\<close>: the code point and its width, or \<open>None\<close> when the first byte does not
  start a valid encoding (Go then reports \<open>RuneError\<close> with width 1).
\<close>

definition decodeRune :: "string \<Rightarrow> (int \<times> nat) option" where
  "decodeRune s =
     (case map byte (take 4 s) of
        [] \<Rightarrow> None
      | b0 # bs \<Rightarrow>
          if b0 < 128 then Some (b0, 1)
          else if 194 \<le> b0 \<and> b0 \<le> 223 then
            (case bs of b1 # _ \<Rightarrow> if isCont b1 then Some ((b0 - 192) * 64 + (b1 - 128), 2) else None | _ \<Rightarrow> None)
          else if 224 \<le> b0 \<and> b0 \<le> 239 then
            (case bs of
               b1 # b2 # _ \<Rightarrow>
                 if isCont b1 \<and> isCont b2 \<and> (b0 = 224 \<longrightarrow> 160 \<le> b1) \<and> (b0 = 237 \<longrightarrow> b1 \<le> 159)
                 then Some ((b0 - 224) * 4096 + (b1 - 128) * 64 + (b2 - 128), 3) else None
             | _ \<Rightarrow> None)
          else if 240 \<le> b0 \<and> b0 \<le> 244 then
            (case bs of
               [b1, b2, b3] \<Rightarrow>
                 if isCont b1 \<and> isCont b2 \<and> isCont b3 \<and> (b0 = 240 \<longrightarrow> 144 \<le> b1) \<and> (b0 = 244 \<longrightarrow> b1 \<le> 143)
                 then Some ((b0 - 240) * 262144 + (b1 - 128) * 4096 + (b2 - 128) * 64 + (b3 - 128), 4) else None
             | _ \<Rightarrow> None)
          else None)"

lemma decodeRune_width: "decodeRune s = Some (r, n) \<Longrightarrow> 0 < n \<and> n \<le> length s"
  by (auto simp: decodeRune_def split: list.splits if_splits dest!: arg_cong[where f = length])

lemma decodeRune_Nil [simp]: "decodeRune [] = None"
  by (simp add: decodeRune_def)

function validUTF8 :: "string \<Rightarrow> bool" where
  "validUTF8 s =
     (if s = [] then True
      else case decodeRune s of None \<Rightarrow> False | Some (r, n) \<Rightarrow> validUTF8 (drop n s))"
  by auto
termination
  by (relation "measure length") (auto dest: decodeRune_width)

declare validUTF8.simps [simp del]

text \<open>\<open>U+FFFD\<close>, which \<open>strings.Map\<close> writes for a byte that is no valid encoding.\<close>

definition runeError :: string where
  "runeError = [CHR 0xEF, CHR 0xBF, CHR 0xBD]"

text \<open>
  \<open>strings.Map\<close> with a mapping that keeps a rune or drops it: \<open>keep\<close> decides on code points. A
  byte that starts no rune is mapped as \<open>U+FFFD\<close>.
\<close>

function mapRunes :: "(int \<Rightarrow> bool) \<Rightarrow> string \<Rightarrow> string" where
  "mapRunes keep s =
     (if s = [] then []
      else case decodeRune s of
             None \<Rightarrow> (if keep 65533 then runeError else []) @ mapRunes keep (drop 1 s)
           | Some (r, n) \<Rightarrow> (if keep r then take n s else []) @ mapRunes keep (drop n s))"
  by auto
termination
  by (relation "measure (length \<circ> snd)") (auto dest: decodeRune_width)

declare mapRunes.simps [simp del]

lemma validUTF8_Nil [simp]: "validUTF8 []"
  by (simp add: validUTF8.simps)

section \<open>Replacing substrings\<close>

text \<open>\<open>strings.ReplaceAll\<close> with a non-empty old text.\<close>

function replaceAll :: "string \<Rightarrow> string \<Rightarrow> string \<Rightarrow> string" where
  "replaceAll old new s =
     (if old = [] \<or> s = [] then s
      else if prefix old s then new @ replaceAll old new (drop (length old) s)
      else hd s # replaceAll old new (tl s))"
  by auto
termination
  by (relation "measure (\<lambda>(old, new, s). length s)") auto

declare replaceAll.simps [simp del]

section \<open>Regular expressions\<close>

text \<open>A class of bytes, a word boundary, and the operators; a group is numbered, a star is greedy or lazy.\<close>

datatype regex =
    Cls "char \<Rightarrow> bool"
  | Bound
  | Eps
  | Seq regex regex
  | Alt regex regex
  | Star bool regex
  | Grp nat regex

text \<open>What is before the position (reversed), what is after it, and the text of the groups so far.\<close>

type_synonym rstate = "string \<times> string \<times> (nat \<times> string) list"

definition wordChar :: "char \<Rightarrow> bool" where
  "wordChar c = ((48 \<le> byte c \<and> byte c \<le> 57) \<or> (65 \<le> byte c \<and> byte c \<le> 90) \<or> (97 \<le> byte c \<and> byte c \<le> 122) \<or> c = CHR ''_'')"

definition headWord :: "string \<Rightarrow> bool" where
  "headWord s = (case s of [] \<Rightarrow> False | c # _ \<Rightarrow> wordChar c)"

fun consume :: "(char \<Rightarrow> bool) \<Rightarrow> rstate \<Rightarrow> rstate list" where
  "consume p (before, c # rest, caps) = (if p c then [(c # before, rest, caps)] else [])"
| "consume p (before, [], caps) = []"

definition capture :: "nat \<Rightarrow> rstate \<Rightarrow> rstate \<Rightarrow> rstate" where
  "capture n st st' =
     (fst st', fst (snd st'), (n, take (length (fst (snd st)) - length (fst (snd st'))) (fst (snd st))) # snd (snd st'))"

text \<open>
  All ways to match from a state, in the order of preference of a backtracking matcher, which is the
  order \<open>regexp\<close> promises. An iteration of a star has to consume something.
\<close>

function (sequential) rmatch :: "regex \<Rightarrow> rstate \<Rightarrow> rstate list" where
  "rmatch (Cls p) st = consume p st"
| "rmatch Bound st = (if headWord (fst st) \<noteq> headWord (fst (snd st)) then [st] else [])"
| "rmatch Eps st = [st]"
| "rmatch (Seq r1 r2) st = concat (map (rmatch r2) (rmatch r1 st))"
| "rmatch (Alt r1 r2) st = rmatch r1 st @ rmatch r2 st"
| "rmatch (Grp n r) st = map (capture n st) (rmatch r st)"
| "rmatch (Star greedy r) st =
     (let more = concat (map (rmatch (Star greedy r))
                   (filter (\<lambda>st'. length (fst (snd st')) < length (fst (snd st))) (rmatch r st)))
      in if greedy then more @ [st] else st # more)"
  by pat_completeness auto
termination
  by (relation "inv_image (less_than <*lex*> less_than) (\<lambda>(r, st). (size r, length (fst (snd st))))") auto

declare rmatch.simps(7) [simp del]

text \<open>The preferred match at a position, if any: the matched text, the groups, and the rest.\<close>

definition matchAt :: "regex \<Rightarrow> string \<Rightarrow> string \<Rightarrow> (string \<times> (nat \<times> string) list \<times> string) option" where
  "matchAt r before rest =
     (case rmatch r (before, rest, []) of
        [] \<Rightarrow> None
      | (before', rest', caps) # _ \<Rightarrow> Some (take (length rest - length rest') rest, caps, rest'))"

text \<open>
  \<open>ReplaceAllString\<close>: \<open>repl\<close> gives the replacement from the groups. The patterns of the program match
  at least one byte; a position where the match is empty is copied.
\<close>

function replaceRegex :: "regex \<Rightarrow> ((nat \<times> string) list \<Rightarrow> string) \<Rightarrow> string \<Rightarrow> string \<Rightarrow> string" where
  "replaceRegex r repl before rest =
     (case rest of
        [] \<Rightarrow> []
      | c # cs \<Rightarrow>
          (case matchAt r before rest of
             None \<Rightarrow> c # replaceRegex r repl (c # before) cs
           | Some (m, caps, rest') \<Rightarrow>
               if length rest' < length rest then repl caps @ replaceRegex r repl (rev m @ before) rest'
               else c # replaceRegex r repl (c # before) cs))"
  by auto
termination
  by (relation "measure (\<lambda>(r, repl, before, rest). length rest)") auto

declare replaceRegex.simps [simp del]

definition ReplaceAllString :: "regex \<Rightarrow> ((nat \<times> string) list \<Rightarrow> string) \<Rightarrow> string \<Rightarrow> string" where
  "ReplaceAllString r repl s = replaceRegex r repl [] s"

section \<open>What a match consumes\<close>

definition advances :: "rstate \<Rightarrow> rstate \<Rightarrow> bool" where
  "advances st st' \<longleftrightarrow> (\<exists>m. fst (snd st) = m @ fst (snd st') \<and> fst st' = rev m @ fst st
     \<and> (\<forall>n t. (n, t) \<in> set (snd (snd st')) \<longrightarrow> (n, t) \<in> set (snd (snd st)) \<or> set t \<subseteq> set m))"

lemma advances_refl [simp]: "advances st st"
  by (auto simp: advances_def)

lemma advances_trans: "advances s1 s2 \<Longrightarrow> advances s2 s3 \<Longrightarrow> advances s1 s3"
proof -
  assume "advances s1 s2" and "advances s2 s3"
  then obtain m n where m: "fst (snd s1) = m @ fst (snd s2)" "fst s2 = rev m @ fst s1"
      "\<forall>k t. (k, t) \<in> set (snd (snd s2)) \<longrightarrow> (k, t) \<in> set (snd (snd s1)) \<or> set t \<subseteq> set m"
    and n: "fst (snd s2) = n @ fst (snd s3)" "fst s3 = rev n @ fst s2"
      "\<forall>k t. (k, t) \<in> set (snd (snd s3)) \<longrightarrow> (k, t) \<in> set (snd (snd s2)) \<or> set t \<subseteq> set n"
    by (auto simp: advances_def)
  show ?thesis unfolding advances_def
    by (rule exI[of _ "m @ n"]) (use m n in fastforce)
qed

lemma advances_capture: "advances st st' \<Longrightarrow> advances st (capture n st st')"
  by (auto simp: advances_def capture_def)

lemma rmatch_advances: "st' \<in> set (rmatch r st) \<Longrightarrow> advances st st'"
proof (induction r st arbitrary: st' rule: rmatch.induct)
  case (1 p st)
  then show ?case by (cases "(p, st)" rule: consume.cases) (auto simp: advances_def split: if_splits)
next
  case (4 r1 r2 st)
  then obtain mid where "mid \<in> set (rmatch r1 st)" "st' \<in> set (rmatch r2 mid)"
    by (metis (no_types, lifting) UN_E rmatch.simps(4) set_concat set_map image_iff)
  then show ?case using "4.IH" advances_trans by blast
next
  case (6 n r st)
  then show ?case by (auto intro: advances_capture)
next
  case (7 greedy r st)
  then consider "st' = st"
    | mid where "mid \<in> set (filter (\<lambda>st'. length (fst (snd st')) < length (fst (snd st))) (rmatch r st))"
        "st' \<in> set (rmatch (Star greedy r) mid)"
    by (subst (asm) (3) rmatch.simps(7))
      (auto simp: Let_def simp del: split_paired_Ex split_paired_All split: if_splits)
  then show ?case
  proof cases
    case 2
    then show ?thesis using "7.IH"(1)[of mid] "7.IH"(2)[OF 2] by (auto intro: advances_trans)
  qed simp
qed (auto split: if_splits)

lemma matchAt_Some:
  assumes "matchAt r before rest = Some (m, caps, rest')"
  shows "rest = m @ rest'" and "(rev m @ before, rest', caps) \<in> set (rmatch r (before, rest, []))"
    and "(n, t) \<in> set caps \<Longrightarrow> set t \<subseteq> set m"
proof -
  obtain b st sts where e: "rmatch r (before, rest, []) = (b, rest', caps) # sts" "m = take (length rest - length rest') rest"
    using assms by (auto simp: matchAt_def split: list.splits)
  then have "advances (before, rest, []) (b, rest', caps)" by (intro rmatch_advances[of _ r]) simp
  then obtain m' where m': "rest = m' @ rest'" "b = rev m' @ before"
    and c: "\<forall>n t. (n, t) \<in> set caps \<longrightarrow> set t \<subseteq> set m'" by (auto simp: advances_def)
  then have "m = m'" using e(2) by simp
  with m' c e(1) show "rest = m @ rest'" "(rev m @ before, rest', caps) \<in> set (rmatch r (before, rest, []))"
    "(n, t) \<in> set caps \<Longrightarrow> set t \<subseteq> set m" by auto
qed

section \<open>What a replacement leaves\<close>

lemma replaceAll_chars: "set (replaceAll old new s) \<subseteq> set new \<union> set s"
proof (induction old new s rule: replaceAll.induct)
  case (1 old new s)
  show ?case
  proof (cases "old = [] \<or> s = []")
    case True
    then show ?thesis by (simp add: replaceAll.simps[of old new s])
  next
    case False
    then show ?thesis using 1
      by (subst replaceAll.simps) (auto dest!: set_mp[OF set_drop_subset] split: if_splits dest: list.set_sel)
  qed
qed

text \<open>The two ways a replacement goes on, as an induction rule.\<close>

lemma replaceRegex_induct [case_names Nil copy matched]:
  assumes "\<And>before. P before [] []"
    and "\<And>before c cs out. P (c # before) cs out \<Longrightarrow> P before (c # cs) (c # out)"
    and "\<And>before m caps rest out. matchAt r before (m @ rest) = Some (m, caps, rest) \<Longrightarrow> m \<noteq> []
           \<Longrightarrow> P (rev m @ before) rest out \<Longrightarrow> P before (m @ rest) (repl caps @ out)"
  shows "P before rest (replaceRegex r repl before rest)"
proof (induction "length rest" arbitrary: before rest rule: less_induct)
  case less
  show ?case
  proof (cases rest)
    case Nil
    then show ?thesis using assms(1) by (simp add: replaceRegex.simps)
  next
    case (Cons c cs)
    show ?thesis
    proof (cases "\<exists>m caps rest'. matchAt r before rest = Some (m, caps, rest') \<and> length rest' < length rest")
      case True
      then obtain m caps rest' where m: "matchAt r before rest = Some (m, caps, rest')" "length rest' < length rest" by blast
      have s: "rest = m @ rest'" by (rule matchAt_Some(1)[OF m(1)])
      have "replaceRegex r repl before rest = repl caps @ replaceRegex r repl (rev m @ before) rest'"
        using m Cons by (subst replaceRegex.simps) simp
      moreover have "P before (m @ rest') (repl caps @ replaceRegex r repl (rev m @ before) rest')"
        using m less s by (intro assms(3)) auto
      ultimately show ?thesis using s by simp
    next
      case False
      then have "replaceRegex r repl before rest = c # replaceRegex r repl (c # before) cs"
        using Cons by (subst replaceRegex.simps) (auto split: option.splits)
      then show ?thesis using assms(2) less Cons by simp
    qed
  qed
qed

lemma replaceRegex_chars:
  assumes "\<And>caps. (\<forall>n t. (n, t) \<in> set caps \<longrightarrow> set t \<subseteq> A) \<Longrightarrow> set (repl caps) \<subseteq> A"
  shows "set rest \<subseteq> A \<longrightarrow> set (replaceRegex r repl before rest) \<subseteq> A"
proof (induction rule: replaceRegex_induct[where r = r and repl = repl])
  case (matched before m caps rest out)
  show ?case
  proof
    assume r: "set (m @ rest) \<subseteq> A"
    have "set (repl caps) \<subseteq> A"
    proof (rule assms, intro allI impI)
      fix n t assume "(n, t) \<in> set caps"
      then show "set t \<subseteq> A" using matchAt_Some(3)[OF matched(1), of n t] r by auto
    qed
    then show "set (repl caps @ out) \<subseteq> A" using matched(3) r by simp
  qed
qed auto

text \<open>
  A replacement that writes a text in angle brackets, and keeps a beginning and an end of the
  match around it, creates no occurrence of a word without angle brackets other than in that text.
\<close>

definition bracketed :: "regex \<Rightarrow> ((nat \<times> string) list \<Rightarrow> string) \<Rightarrow> string \<Rightarrow> bool" where
  "bracketed r repl w \<longleftrightarrow>
     (\<forall>before m caps rest. matchAt r before (m @ rest) = Some (m, caps, rest) \<and> m \<noteq> [] \<longrightarrow>
        (\<exists>k x q. m = k @ x @ q \<and> repl caps = k @ ''<'' @ w @ ''>'' @ q))"

lemma sublist_bracket:
  assumes "sublist s (a @ c # b)" and "c \<notin> set s"
  shows "sublist s a \<or> sublist s b"
proof -
  obtain p q where "a @ c # b = p @ s @ q" using assms(1) by (auto simp: sublist_def)
  then consider us where "a = p @ us" "us @ c # b = s @ q" | us where "p = a @ us" "c # b = us @ s @ q"
    by (auto simp: append_eq_append_conv2)
  then show ?thesis
  proof cases
    case 1
    then consider vs where "us = s @ vs" | vs where "s = us @ vs" "c # b = vs @ q"
      by (auto simp: append_eq_append_conv2)
    then show ?thesis
    proof cases
      case 1
      then show ?thesis using \<open>a = p @ us\<close> by (auto simp: sublist_def)
    next
      case 2
      then have "vs = []" using assms(2) by (cases vs) auto
      then show ?thesis using 2 \<open>a = p @ us\<close> by (simp add: sublist_append)
    qed
  next
    case 2
    then show ?thesis
    proof (cases us)
      case Nil
      then show ?thesis using 2 assms(2) by (cases s) auto
    next
      case (Cons d ds)
      then show ?thesis using 2 by (auto simp: sublist_def)
    qed
  qed
qed

lemma bracketed_word:
  assumes "sublist s (a @ ''<'' @ w @ ''>'' @ b)" and "CHR ''<'' \<notin> set s" and "CHR ''>'' \<notin> set s"
  shows "sublist s a \<or> sublist s w \<or> sublist s b"
  using sublist_bracket[of s a "CHR ''<''" "w @ ''>'' @ b"] sublist_bracket[of s w "CHR ''>''" b] assms by auto

lemma sublist_appendI1: "sublist s a \<Longrightarrow> sublist s (a @ b)" and sublist_appendI2: "sublist s b \<Longrightarrow> sublist s (a @ b)"
  by (auto simp: sublist_append)

lemma replaceRegex_no_word:
  assumes "bracketed r repl w" and "CHR ''<'' \<notin> set s" and "CHR ''>'' \<notin> set s"
  shows "sublist s (p @ replaceRegex r repl before rest) \<longrightarrow> sublist s (p @ rest) \<or> sublist s w"
proof -
  have "\<forall>p. sublist s (p @ replaceRegex r repl before rest) \<longrightarrow> sublist s (p @ rest) \<or> sublist s w"
  proof (rule replaceRegex_induct[where r = r and repl = repl
        and P = "\<lambda>_ rest out. \<forall>p. sublist s (p @ out) \<longrightarrow> sublist s (p @ rest) \<or> sublist s w"], goal_cases Nil copy matched)
    case (copy before c cs out)
    show ?case
    proof
      fix p show "sublist s (p @ c # out) \<longrightarrow> sublist s (p @ c # cs) \<or> sublist s w"
        using spec[OF copy, of "p @ [c]"] by simp
    qed
  next
    case (matched before m caps rest out)
    obtain k x q where m: "m = k @ x @ q" "repl caps = k @ ''<'' @ w @ ''>'' @ q"
      using assms(1)[unfolded bracketed_def, rule_format, OF conjI, OF matched(1,2)] by blast
    show ?case
    proof (intro allI impI)
      fix p
      assume "sublist s (p @ repl caps @ out)"
      then have "sublist s ((p @ k) @ ''<'' @ w @ ''>'' @ q @ out)" using m(2) by simp
      then consider "sublist s (p @ k)" | "sublist s w" | "sublist s (q @ out)"
        using bracketed_word[OF _ assms(2,3)] by blast
      then show "sublist s (p @ m @ rest) \<or> sublist s w"
      proof cases
        case 1
        then show ?thesis using m(1) sublist_appendI1[of s "p @ k" "x @ q @ rest"] by simp
      next
        case 3
        then have "sublist s (q @ rest) \<or> sublist s w" using matched(3) by blast
        then show ?thesis using m(1) sublist_appendI2[of s "q @ rest" "p @ k @ x"] by auto
      qed simp
    qed
  qed simp
  then show ?thesis by blast
qed

lemma replaceAll_unfold:
  "s = [] \<Longrightarrow> replaceAll old new s = []"
  "old \<noteq> [] \<Longrightarrow> replaceAll old new (old @ s) = new @ replaceAll old new s"
  "\<not> prefix old (c # s) \<Longrightarrow> replaceAll old new (c # s) = c # replaceAll old new s"
  by (subst replaceAll.simps, simp)+

lemma replaceAll_induct [case_names Nil copy matched]:
  assumes "old \<noteq> []" and "P [] []"
    and "\<And>c s out. \<not> prefix old (c # s) \<Longrightarrow> P s out \<Longrightarrow> P (c # s) (c # out)"
    and "\<And>s out. P s out \<Longrightarrow> P (old @ s) (new @ out)"
  shows "P s (replaceAll old new s)"
proof (induction "length s" arbitrary: s rule: less_induct)
  case less
  consider "s = []" | t where "s = old @ t" | c t where "s = c # t" "\<not> prefix old s"
    by (cases s) (auto simp: prefix_def)
  then show ?case
  proof cases
    case 1
    then show ?thesis using assms(2) replaceAll_unfold(1)[of s] by simp
  next
    case 2
    then show ?thesis using assms(1,4) less by (simp add: replaceAll_unfold(2))
  next
    case 3
    then show ?thesis using assms(3) less by (simp add: replaceAll_unfold(3))
  qed
qed

text \<open>Replacing a text by a bracketed word creates no other word, and leaves no occurrence of the text.\<close>

lemma replaceAll_no_word:
  assumes "CHR ''<'' \<notin> set s" and "CHR ''>'' \<notin> set s" and "old \<noteq> []"
  shows "sublist s (p @ replaceAll old (''<'' @ w @ ''>'') t) \<longrightarrow> sublist s (p @ t) \<or> sublist s w"
proof -
  have "\<forall>p. sublist s (p @ replaceAll old (''<'' @ w @ ''>'') t) \<longrightarrow> sublist s (p @ t) \<or> sublist s w"
  proof (rule replaceAll_induct[where old = old and new = "''<'' @ w @ ''>''"
        and P = "\<lambda>t out. \<forall>p. sublist s (p @ out) \<longrightarrow> sublist s (p @ t) \<or> sublist s w"], goal_cases nonempty Nil copy matched)
    case nonempty
    then show ?case by (rule assms(3))
  next
    case Nil
    then show ?case by simp
  next
    case (copy c t out)
    show ?case
    proof
      fix p show "sublist s (p @ c # out) \<longrightarrow> sublist s (p @ c # t) \<or> sublist s w"
        using spec[OF copy(2), of "p @ [c]"] by simp
    qed
  next
    case (matched t out)
    show ?case
    proof (intro allI impI)
      fix p assume "sublist s (p @ (''<'' @ w @ ''>'') @ out)"
      then consider "sublist s p" | "sublist s w" | "sublist s ([] @ out)"
        using bracketed_word[of s p w out] assms by auto
      then show "sublist s (p @ old @ t) \<or> sublist s w"
      proof cases
        case 3
        then have "sublist s t \<or> sublist s w" using spec[OF matched, of "[]"] by simp
        then show ?thesis using sublist_appendI2[of s t "p @ old"] by auto
      qed (auto intro: sublist_appendI1)
    qed
  qed
  then show ?thesis by blast
qed

lemma sublist_prefix_drop: "sublist s t \<longleftrightarrow> (\<exists>i \<le> length t. prefix s (drop i t))"
proof
  assume "sublist s t"
  then obtain p q where "t = p @ s @ q" by (auto simp: sublist_def)
  then show "\<exists>i \<le> length t. prefix s (drop i t)" by (intro exI[of _ "length p"]) simp
next
  assume "\<exists>i \<le> length t. prefix s (drop i t)"
  then obtain i q where "drop i t = s @ q" by (auto simp: prefix_def)
  then have "t = take i t @ s @ q" by (metis append_take_drop_id)
  then show "sublist s t" unfolding sublist_def by blast
qed

lemma replaceAll_removes:
  assumes "CHR ''<'' \<notin> set s" and "CHR ''>'' \<notin> set s" and "s \<noteq> []" and "\<not> sublist s w"
  shows "\<not> sublist s (replaceAll s (''<'' @ w @ ''>'') t)"
proof -
  have "\<forall>p. (\<forall>i < length p. \<not> prefix s (drop i (p @ t))) \<longrightarrow> \<not> sublist s (p @ replaceAll s (''<'' @ w @ ''>'') t)"
  proof (rule replaceAll_induct[where old = s and new = "''<'' @ w @ ''>''"
        and P = "\<lambda>t out. \<forall>p. (\<forall>i < length p. \<not> prefix s (drop i (p @ t))) \<longrightarrow> \<not> sublist s (p @ out)"], goal_cases nonempty Nil copy matched)
    case nonempty
    then show ?case by (rule assms(3))
  next
    case Nil
    then show ?case using assms(3) by (auto simp: sublist_prefix_drop le_less)
  next
    case (copy c t out)
    show ?case
    proof (intro allI impI)
      fix p assume p: "\<forall>i < length p. \<not> prefix s (drop i (p @ c # t))"
      have "\<forall>i < length (p @ [c]). \<not> prefix s (drop i ((p @ [c]) @ t))"
      proof (intro allI impI)
        fix i assume "i < length (p @ [c])"
        then show "\<not> prefix s (drop i ((p @ [c]) @ t))"
          using p copy(1) by (cases "i = length p") auto
      qed
      then have "\<not> sublist s ((p @ [c]) @ out)" using copy(2) by blast
      then show "\<not> sublist s (p @ c # out)" by simp
    qed
  next
    case (matched t out)
    show ?case
    proof (intro allI impI notI)
      fix p assume p: "\<forall>i < length p. \<not> prefix s (drop i (p @ s @ t))" and "sublist s (p @ (''<'' @ w @ ''>'') @ out)"
      then have "sublist s p \<or> sublist s w \<or> sublist s ([] @ out)" using bracketed_word[of s p w out] assms by auto
      moreover have "\<not> sublist s ([] @ out)" using spec[OF matched, of "[]"] by simp
      moreover have "\<not> sublist s p"
      proof
        assume "sublist s p"
        then obtain i where i: "i \<le> length p" "prefix s (drop i p)" by (auto simp: sublist_prefix_drop)
        then have "i < length p" using assms(3) by (cases "i = length p") auto
        then have "\<not> prefix s (drop i p @ s @ t)" using p by simp
        then show False using i(2) by (simp add: prefix_append)
      qed
      ultimately show False using assms(4) by blast
    qed
  qed
  from spec[OF this, of "[]"] show ?thesis by simp
qed

section \<open>Literals and groups\<close>

definition lit :: "string \<Rightarrow> regex" where
  "lit s = foldr (\<lambda>c r. Seq (Cls (\<lambda>x. x = c)) r) s Eps"

definition litFold :: "string \<Rightarrow> regex" where
  "litFold s = foldr (\<lambda>c r. Seq (Cls (\<lambda>x. lowerChar x = lowerChar c)) r) s Eps"

fun alts :: "regex list \<Rightarrow> regex" where
  "alts [] = Eps"
| "alts [r] = r"
| "alts (r # r' # rs) = Alt r (alts (r' # rs))"

fun seqs :: "regex list \<Rightarrow> regex" where
  "seqs [] = Eps"
| "seqs [r] = r"
| "seqs (r # r' # rs) = Seq r (seqs (r' # rs))"

abbreviation many :: "(char \<Rightarrow> bool) \<Rightarrow> regex" where
  "many p \<equiv> Star True (Cls p)"

text \<open>At least \<open>n\<close> bytes of a class, as many as possible.\<close>

fun atLeast :: "nat \<Rightarrow> (char \<Rightarrow> bool) \<Rightarrow> regex" where
  "atLeast 0 p = many p"
| "atLeast (Suc n) p = Seq (Cls p) (atLeast n p)"

definition groupText :: "(nat \<times> string) list \<Rightarrow> nat \<Rightarrow> string" where
  "groupText caps n = (case map_of caps n of None \<Rightarrow> [] | Some t \<Rightarrow> t)"

fun groupFree :: "regex \<Rightarrow> bool" where
  "groupFree (Cls p) = True"
| "groupFree Bound = True"
| "groupFree Eps = True"
| "groupFree (Seq r1 r2) = (groupFree r1 \<and> groupFree r2)"
| "groupFree (Alt r1 r2) = (groupFree r1 \<and> groupFree r2)"
| "groupFree (Star _ r) = groupFree r"
| "groupFree (Grp _ _) = False"

lemma rmatch_SeqE:
  assumes "st' \<in> set (rmatch (Seq r1 r2) st)"
  obtains mid where "mid \<in> set (rmatch r1 st)" and "st' \<in> set (rmatch r2 mid)"
  using assms by (auto simp del: split_paired_Ex split_paired_All)

lemma rmatch_split:
  assumes "st' \<in> set (rmatch r st)"
  obtains m where "fst (snd st) = m @ fst (snd st')" and "fst st' = rev m @ fst st"
  using rmatch_advances[OF assms] by (auto simp: advances_def)

lemma rmatch_groupFree: "groupFree r \<Longrightarrow> st' \<in> set (rmatch r st) \<Longrightarrow> snd (snd st') = snd (snd st)"
proof (induction r st arbitrary: st' rule: rmatch.induct)
  case (1 p st)
  then show ?case by (cases "(p, st)" rule: consume.cases) (auto split: if_splits)
next
  case (4 r1 r2 st)
  from "4.prems"(2) obtain mid where "mid \<in> set (rmatch r1 st)" "st' \<in> set (rmatch r2 mid)" by (rule rmatch_SeqE)
  then show ?case using "4.IH" "4.prems"(1) by simp
next
  case (7 greedy r st)
  then consider "st' = st"
    | mid where "mid \<in> set (filter (\<lambda>st'. length (fst (snd st')) < length (fst (snd st))) (rmatch r st))"
        "st' \<in> set (rmatch (Star greedy r) mid)"
    by (subst (asm) (3) rmatch.simps(7))
      (auto simp: Let_def simp del: split_paired_Ex split_paired_All split: if_splits)
  then show ?case
  proof cases
    case 2
    then show ?thesis using "7.IH"(1)[of mid] "7.IH"(2)[OF 2(1) _ 2(2)] "7.prems"(1) by auto
  qed simp
qed (auto split: if_splits)

lemma rmatch_lit:
  "st' \<in> set (rmatch (lit s) st) \<Longrightarrow>
     fst (snd st) = s @ fst (snd st') \<and> snd (snd st') = snd (snd st)"
proof (induction s arbitrary: st)
  case (Cons c s)
  then obtain mid where m: "mid \<in> set (rmatch (Cls (\<lambda>x. x = c)) st)" "st' \<in> set (rmatch (lit s) mid)"
    by (auto simp: lit_def simp del: split_paired_Ex split_paired_All)
  then have "fst (snd st) = c # fst (snd mid) \<and> snd (snd mid) = snd (snd st)"
    by (cases "(\<lambda>x. x = c, st)" rule: consume.cases) (auto split: if_splits)
  then show ?case using Cons.IH[OF m(2)] by simp
qed (simp add: lit_def)

lemma rmatch_Grp:
  assumes "st' \<in> set (rmatch (Grp n r) st)" and "groupFree r"
  shows "\<exists>g. fst (snd st) = g @ fst (snd st') \<and> snd (snd st') = (n, g) # snd (snd st)"
proof -
  obtain mid where m: "mid \<in> set (rmatch r st)" "st' = capture n st mid" using assms(1) by auto
  from m(1) obtain g where "fst (snd st) = g @ fst (snd mid)" by (rule rmatch_split)
  moreover have "snd (snd mid) = snd (snd st)" by (rule rmatch_groupFree[OF assms(2) m(1)])
  ultimately show ?thesis using m(2) by (auto simp: capture_def)
qed

lemma bracketed_const: "bracketed r (\<lambda>_. ''<'' @ w @ ''>'') w"
proof -
  have "\<exists>k x q. m = k @ x @ q \<and> ''<'' @ w @ ''>'' = k @ ''<'' @ w @ ''>'' @ q" for m :: string
    by (rule exI[of _ "[]"], rule exI[of _ m], rule exI[of _ "[]"]) simp
  then show ?thesis by (simp add: bracketed_def)
qed

end
