(* ===== verification/Git_Mirror.thy ===== *)
theory Git_Mirror
  imports Go_Os Cache_Server Config Backend
begin

text \<open>
  The bare git mirrors of the host (\<open>internal/gitcache/mirror.go\<close>) and their wiring into the
  pools (\<open>cmd/multirunner/helpers.go\<close>): paths, the environment handed to git, creating and
  refreshing a mirror, bundles, the sweep of stale mirrors, and the audit of git's own
  configuration files. Running git, the file system calls and the contents of the process
  environment are parameters. Paths and environment look-ups are those of a Unix host.
\<close>

section \<open>The manager\<close>

record mirror_manager =
  mm_root :: string
  mm_baseURL :: string
  mm_token :: string

text \<open>\<open>New\<close>: \<open>mkdir\<close> is the outcome of creating the directory.\<close>

definition newMirrorManager ::
  "gerr option \<Rightarrow> string \<Rightarrow> string \<Rightarrow> string \<Rightarrow> gerr + mirror_manager" where
  "newMirrorManager mkdir dir url token =
     (case mkdir of
        Some e \<Rightarrow> Inl (errorf ''create git mirror dir: '' e)
      | None \<Rightarrow>
          Inr \<lparr>mm_root = dir,
               mm_baseURL = trimRight (if url = [] then ''https://github.com'' else url) ''/'',
               mm_token = token\<rparr>)"

definition MirrorPath :: "mirror_manager \<Rightarrow> string \<Rightarrow> string" where
  "MirrorPath m slug = pathJoin (mm_root m) (slug @ ''.git'')"

definition ContainerPath :: "string \<Rightarrow> string \<Rightarrow> string" where
  "ContainerPath slug os =
     (if os = ''windows''
      then ''C:'' @ [CHR 0x5C] @ ''gitcache'' @ [CHR 0x5C]
             @ map (\<lambda>c. if c = CHR ''/'' then CHR 0x5C else c) slug @ ''.git''
      else ''/gitcache/'' @ slug @ ''.git'')"

definition cloneURL :: "mirror_manager \<Rightarrow> string \<Rightarrow> string" where
  "cloneURL m slug = mm_baseURL m @ ''/'' @ slug @ ''.git''"

definition slugFor :: "mirror_manager \<Rightarrow> string \<Rightarrow> string" where
  "slugFor m mirrorPath =
     trimSuffix (case pathRel (mm_root m) mirrorPath of None \<Rightarrow> mirrorPath | Some rel \<Rightarrow> rel) ''.git''"

section \<open>The environment of git\<close>

definition maxInheritedGitConfigEntries :: int where
  "maxInheritedGitConfigEntries = 256"

definition indexedGitConfig :: "string \<Rightarrow> bool" where
  "indexedGitConfig name =
     (let upper = toUpper name
      in upper = ''GIT_CONFIG_COUNT'' \<or> upper = ''GIT_CONFIG_PARAMETERS''
         \<or> hasPrefix upper ''GIT_CONFIG_KEY_'' \<or> hasPrefix upper ''GIT_CONFIG_VALUE_'')"

fun stripIndexedGitConfig :: "string list \<Rightarrow> string list" where
  "stripIndexedGitConfig [] = []"
| "stripIndexedGitConfig (item # env) =
     (if indexedGitConfig (envName item) then stripIndexedGitConfig env
      else item # stripIndexedGitConfig env)"

definition keyVar :: "nat \<Rightarrow> string" where
  "keyVar i = ''GIT_CONFIG_KEY_'' @ natDigits i"

definition valueVar :: "nat \<Rightarrow> string" where
  "valueVar i = ''GIT_CONFIG_VALUE_'' @ natDigits i"

definition inheritedCount :: "string list \<Rightarrow> nat" where
  "inheritedCount env =
     (let raw = osGetenv env ''GIT_CONFIG_COUNT''
      in if raw = [] then 0
         else case parseInt64 raw of
                None \<Rightarrow> 0
              | Some parsed \<Rightarrow>
                  if parsed < 0 then 0
                  else if parsed > maxInheritedGitConfigEntries then nat maxInheritedGitConfigEntries
                  else nat parsed)"

definition isURLRewrite :: "string \<Rightarrow> bool" where
  "isURLRewrite key =
     (let lowerKey = toLower key
      in hasPrefix lowerKey ''url.''
         \<and> (hasSuffix lowerKey ''.insteadof'' \<or> hasSuffix lowerKey ''.pushinsteadof''))"

definition isAuthorizationHeader :: "string \<Rightarrow> string \<Rightarrow> bool" where
  "isAuthorizationHeader key v =
     (let lowerKey = toLower key
      in hasPrefix lowerKey ''http.'' \<and> hasSuffix lowerKey ''.extraheader''
         \<and> hasPrefix (toLower (trimSpace v)) ''authorization:'')"

text \<open>The loop over the inherited entries: \<open>n\<close> rounds are left, from index \<open>i\<close>.\<close>

fun inheritedEntries :: "bool \<Rightarrow> string list \<Rightarrow> nat \<Rightarrow> nat \<Rightarrow> (string \<times> string) list" where
  "inheritedEntries authenticated env i 0 = []"
| "inheritedEntries authenticated env i (Suc n) =
     (case (lookupEnv env (keyVar i), lookupEnv env (valueVar i)) of
        (None, None) \<Rightarrow> []
      | (Some key, Some v) \<Rightarrow>
          if trimSpace key = [] then inheritedEntries authenticated env (Suc i) n
          else if authenticated \<and> isURLRewrite key then inheritedEntries authenticated env (Suc i) n
          else if isAuthorizationHeader key v then inheritedEntries authenticated env (Suc i) n
          else (key, v) # inheritedEntries authenticated env (Suc i) n
      | _ \<Rightarrow> inheritedEntries authenticated env (Suc i) n)"

text \<open>\<open>base64.StdEncoding.EncodeToString\<close>, with the padding of the last group.\<close>

fun b64StdEncode :: "string \<Rightarrow> string" where
  "b64StdEncode (a # b # c # rest) =
     (let n = (of_char a * 256 + of_char b) * 256 + of_char c :: nat
      in [b64Char (n div 262144), b64Char (n div 4096 mod 64), b64Char (n div 64 mod 64), b64Char (n mod 64)])
       @ b64StdEncode rest"
| "b64StdEncode [a, b] =
     (let n = (of_char a * 256 + of_char b) * 256 :: nat
      in [b64Char (n div 262144), b64Char (n div 4096 mod 64), b64Char (n div 64 mod 64), CHR ''=''])"
| "b64StdEncode [a] =
     (let n = of_char a * 65536 :: nat
      in [b64Char (n div 262144), b64Char (n div 4096 mod 64), CHR ''='', CHR ''=''])"
| "b64StdEncode [] = []"

definition authEntry :: "mirror_manager \<Rightarrow> string \<times> string" where
  "authEntry m =
     (''http.'' @ trimRight (mm_baseURL m) ''/'' @ ''/'' @ ''.extraHeader'',
      ''AUTHORIZATION: basic '' @ b64StdEncode (''x-access-token:'' @ mm_token m))"

definition entryVars :: "(string \<times> string) list \<Rightarrow> string list" where
  "entryVars es =
     concat (map (\<lambda>(i, key, v). [keyVar i @ ''='' @ key, valueVar i @ ''='' @ v]) (enumerate 0 es))"

definition gitEntries :: "mirror_manager \<Rightarrow> bool \<Rightarrow> string list \<Rightarrow> (string \<times> string) list" where
  "gitEntries m includeAuth env =
     (let authenticated = includeAuth \<and> mm_token m \<noteq> []
      in inheritedEntries authenticated env 0 (inheritedCount env)
         @ (if authenticated then [authEntry m] else []))"

definition buildGitEnv :: "mirror_manager \<Rightarrow> bool \<Rightarrow> string list \<Rightarrow> string list" where
  "buildGitEnv m includeAuth env =
     (let entries = gitEntries m includeAuth env
      in stripIndexedGitConfig (env @ [''GIT_TERMINAL_PROMPT=0''])
         @ [''GIT_CONFIG_COUNT='' @ natDigits (length entries)] @ entryVars entries)"

definition gitEnv :: "mirror_manager \<Rightarrow> string list \<Rightarrow> string list" where
  "gitEnv m env = buildGitEnv m True env"

definition localGitEnv :: "mirror_manager \<Rightarrow> string list \<Rightarrow> string list" where
  "localGitEnv m env = buildGitEnv m False env"

section \<open>Creating, refreshing and bundling a mirror\<close>

text \<open>
  The calls a mirror operation makes outside: whether \<open>HEAD\<close> exists below a path, making a
  directory, running git with arguments and environment (its combined output and error), writing
  the last-used marker, and streaming a bundle (what reached the writer, standard error, error).
  The lock of the repository is held throughout, so an operation is one step.
\<close>

record 'w mirror_os =
  os_exists :: "string \<Rightarrow> 'w \<Rightarrow> bool"
  os_mkdirAll :: "string \<Rightarrow> 'w \<Rightarrow> gerr option \<times> 'w"
  os_git :: "string list \<Rightarrow> string list \<Rightarrow> 'w \<Rightarrow> string \<times> gerr option \<times> 'w"
  os_marker :: "string \<Rightarrow> 'w \<Rightarrow> 'w"
  os_bundle :: "string list \<Rightarrow> string list \<Rightarrow> 'w \<Rightarrow> string \<times> string \<times> gerr option \<times> 'w"

definition lastUsedFile :: string where
  "lastUsedFile = ''.mr-lastused''"

definition mirrorExists :: "'w mirror_os \<Rightarrow> string \<Rightarrow> 'w \<Rightarrow> bool" where
  "mirrorExists os path w = os_exists os (pathJoin path ''HEAD'') w"

definition touch :: "'w mirror_os \<Rightarrow> string \<Rightarrow> 'w \<Rightarrow> 'w" where
  "touch os mirrorPath w = os_marker os (pathJoin mirrorPath lastUsedFile) w"

definition runGit ::
  "'w mirror_os \<Rightarrow> mirror_manager \<Rightarrow> string list \<Rightarrow> string \<Rightarrow> string list \<Rightarrow> 'w \<Rightarrow> gerr option \<times> 'w" where
  "runGit os m env gitDir args w =
     (case os_git os ((if gitDir \<noteq> [] then [''--git-dir='' @ gitDir] else []) @ args) (gitEnv m env) w of
        (out, None, w1) \<Rightarrow> (None, w1)
      | (out, Some e, w1) \<Rightarrow> (Some (Wrap (''git '' @ sepBy '' '' args @ '': '') e ('': '' @ trimSpace out)), w1))"

definition ensureMirrorLocked ::
  "'w mirror_os \<Rightarrow> mirror_manager \<Rightarrow> string list \<Rightarrow> string \<Rightarrow> 'w \<Rightarrow> (gerr + string) \<times> 'w" where
  "ensureMirrorLocked os m env slug w =
     (let path = MirrorPath m slug; url = cloneURL m slug
      in if mirrorExists os path w then
           (case runGit os m env path [''fetch'', ''--prune'', ''origin''] w of
              (Some e, w1) \<Rightarrow> (Inl (errorf (''mirror fetch '' @ slug @ '': '') e), w1)
            | (None, w1) \<Rightarrow> (Inr path, touch os path w1))
         else
           (case os_mkdirAll os (pathDir path) w of
              (Some e, w1) \<Rightarrow> (Inl e, w1)
            | (None, w1) \<Rightarrow>
                (case runGit os m env [] [''clone'', ''--mirror'', url, path] w1 of
                   (Some e, w2) \<Rightarrow> (Inl (errorf (''mirror clone '' @ slug @ '': '') e), w2)
                 | (None, w2) \<Rightarrow> (Inr path, touch os path w2))))"

definition EnsureMirror ::
  "'w mirror_os \<Rightarrow> mirror_manager \<Rightarrow> string list \<Rightarrow> string \<Rightarrow> 'w \<Rightarrow> (gerr + string) \<times> 'w" where
  "EnsureMirror os m env slug w = ensureMirrorLocked os m env slug w"

text \<open>\<open>Bundle\<close> gives the error, if any, and the bytes that reached the writer.\<close>

definition mirrorBundle ::
  "'w mirror_os \<Rightarrow> mirror_manager \<Rightarrow> string list \<Rightarrow> string \<Rightarrow> 'w \<Rightarrow> (gerr option \<times> string) \<times> 'w" where
  "mirrorBundle os m env slug w =
     (case ensureMirrorLocked os m env slug w of
        (Inl e, w1) \<Rightarrow> ((Some e, []), w1)
      | (Inr path, w1) \<Rightarrow>
          (case os_bundle os [''--git-dir='' @ path, ''bundle'', ''create'', ''-'', ''--all''] (localGitEnv m env) w1 of
             (out, errb, Some e, w2) \<Rightarrow>
               ((Some (Wrap (''git bundle '' @ slug @ '': '') e ('': '' @ trimSpace errb)), out), w2)
           | (out, errb, None, w2) \<Rightarrow> ((None, out), w2)))"

section \<open>Sweeping stale mirrors\<close>

text \<open>
  The directory tree the sweep walks: files and directories with their modification time, and
  directories that cannot be listed. \<open>filepath.Walk\<close> lists a directory before it visits it, in
  name order, and its callback fails on an unlistable one, which ends the walk.
\<close>

datatype fs_node =
    FileNode int
  | DirNode int "(string \<times> fs_node) list"
  | UnlistableDir gerr

fun nodeTime :: "fs_node \<Rightarrow> int" where
  "nodeTime (FileNode t) = t"
| "nodeTime (DirNode t _) = t"
| "nodeTime (UnlistableDir _) = 0"

definition lastUsed :: "(string \<times> fs_node) list \<Rightarrow> int option" where
  "lastUsed es = map_option nodeTime (map_of es lastUsedFile)"

text \<open>\<open>mirrorExists\<close> on a listed directory.\<close>

definition hasHead :: "(string \<times> fs_node) list \<Rightarrow> bool" where
  "hasHead es = (map_of es ''HEAD'' \<noteq> None)"

text \<open>
  The removal of one mirror, with the repository lock held: \<open>again\<close> is what the second look at the
  marker finds (a job may have refreshed or removed the mirror since the walk looked), and \<open>rm\<close> is
  the outcome of \<open>os.RemoveAll\<close>. True when the mirror was removed.
\<close>

definition sweepMirror :: "(string \<Rightarrow> int option) \<Rightarrow> (string \<Rightarrow> gerr option) \<Rightarrow> int \<Rightarrow> string \<Rightarrow> bool" where
  "sweepMirror again rm cutoff path =
     (let stale = (case again path of None \<Rightarrow> False | Some used \<Rightarrow> used < cutoff)
      in if \<not> stale then False else case rm path of Some e \<Rightarrow> False | None \<Rightarrow> True)"

text \<open>The walk: the removed mirrors in order, and the error that ended it.\<close>

fun sweepNode :: "(string \<Rightarrow> int option) \<Rightarrow> (string \<Rightarrow> gerr option) \<Rightarrow> int \<Rightarrow> string \<Rightarrow> fs_node
      \<Rightarrow> string list \<times> gerr option"
  and sweepEntries :: "(string \<Rightarrow> int option) \<Rightarrow> (string \<Rightarrow> gerr option) \<Rightarrow> int \<Rightarrow> string \<Rightarrow> (string \<times> fs_node) list
      \<Rightarrow> string list \<times> gerr option" where
  "sweepNode again rm cutoff path (FileNode t) = ([], None)"
| "sweepNode again rm cutoff path (UnlistableDir e) = ([], Some e)"
| "sweepNode again rm cutoff path (DirNode t es) =
     (if \<not> hasSuffix path ''.git'' \<or> \<not> hasHead es then sweepEntries again rm cutoff path es
      else case lastUsed es of
             None \<Rightarrow> ([], None)
           | Some used \<Rightarrow>
               (if used < cutoff \<and> sweepMirror again rm cutoff path then [path] else [], None))"
| "sweepEntries again rm cutoff path [] = ([], None)"
| "sweepEntries again rm cutoff path ((name, x) # es) =
     (case sweepNode again rm cutoff (pathJoin path name) x of
        (removed, Some e) \<Rightarrow> (removed, Some e)
      | (removed, None) \<Rightarrow>
          (case sweepEntries again rm cutoff path es of (removed', e) \<Rightarrow> (removed @ removed', e)))"

text \<open>\<open>Sweep\<close> at time \<open>now\<close>; \<open>lstat\<close> is the root as the walk finds it.\<close>

definition Sweep ::
  "(string \<Rightarrow> int option) \<Rightarrow> (string \<Rightarrow> gerr option) \<Rightarrow> mirror_manager \<Rightarrow> gerr + fs_node \<Rightarrow> int \<Rightarrow> int
     \<Rightarrow> (string list \<times> gerr option)" where
  "Sweep again rm m lstat now maxAge =
     (if maxAge \<le> 0 then ([], None)
      else case lstat of
             Inl e \<Rightarrow> ([], Some e)
           | Inr tree \<Rightarrow> sweepNode again rm (now - maxAge) (mm_root m) tree)"

section \<open>Auditing git's configuration files\<close>

definition auditArgs :: "string list" where
  "auditArgs = [''config'', ''-z'', ''--show-origin'', ''--get-regexp'',
     ''^(url'' @ [CHR 0x5C] @ ''..*'' @ [CHR 0x5C] @ ''.insteadof|http'' @ [CHR 0x5C] @ ''.(.*'' @ [CHR 0x5C] @ ''.)?extraheader)$'']"

definition auditEnv :: "string list \<Rightarrow> string list" where
  "auditEnv env =
     filter (\<lambda>kv. \<not> (toUpper (envName kv) = ''GIT_DIR'' \<or> toUpper (envName kv) = ''GIT_WORK_TREE''))
       (stripIndexedGitConfig (env @ [''GIT_TERMINAL_PROMPT=0'']))"

definition auditEntry :: "string \<Rightarrow> string \<Rightarrow> string \<Rightarrow> string \<Rightarrow> string list" where
  "auditEntry url origin key v =
     (let base = trimRight url ''/'' @ ''/''; lowerKey = toLower key
      in if hasPrefix lowerKey ''url.'' then
           (let replaced = trimRight v ''/'' @ ''/''
            in if hasPrefix base replaced \<or> hasPrefix replaced base
               then [origin @ '' rewrites '' @ v @ '' ('' @ key @ ''); mirror fetches for '' @ url @ '' would be redirected'']
               else [])
         else if hasPrefix lowerKey ''http.'' then
           (if hasPrefix (toLower (trimSpace v)) ''authorization:''
            then [origin @ '' sets an Authorization header ('' @ key
                    @ '') that git sends alongside multirunner'' @ [CHR 0x27] @ ''s own token for matching URLs'']
            else [])
         else [])"

fun auditFields :: "string \<Rightarrow> string list \<Rightarrow> string list" where
  "auditFields url (origin # kv # rest) =
     (case cutAt kv (CHR 0x0A) of (key, v, _) \<Rightarrow> auditEntry url origin key v) @ auditFields url rest"
| "auditFields url _ = []"

text \<open>
  \<open>AuditFileConfig\<close>: \<open>run args env\<close> is the output of git, or its error with the exit code if it
  was an exit (git exits with 1 when nothing matches).
\<close>

definition AuditFileConfig ::
  "(string list \<Rightarrow> string list \<Rightarrow> (gerr \<times> int option) + string) \<Rightarrow> string list \<Rightarrow> string \<Rightarrow> gerr + string list" where
  "AuditFileConfig run env url =
     (case run auditArgs (auditEnv env) of
        Inl (e, code) \<Rightarrow> if code = Some 1 then Inr [] else Inl (errorf ''git config: '' e)
      | Inr out \<Rightarrow> Inr (auditFields url (splitOn (CHR 0x00) (trimSuffix out [CHR 0x00]))))"

section \<open>Wiring into the cache server and the pools\<close>

abbreviation repoSlug :: "config \<Rightarrow> string" where
  "repoSlug cfg \<equiv> gc_Owner (cf_GitHub cfg) @ ''/'' @ gc_Repo (cf_GitHub cfg)"

text \<open>
  \<open>setupGitCache\<close> up to the goroutines it starts: the manager, and whether the periodic sweep and
  the periodic refresh run. The first refresh only logs its failure.
\<close>

record git_cache_setup =
  gs_manager :: mirror_manager
  gs_sweepAge :: "int option"
  gs_refresh :: "string option"

definition setupGitCache ::
  "'w mirror_os \<Rightarrow> gerr option \<Rightarrow> string list \<Rightarrow> config \<Rightarrow> 'w \<Rightarrow> (gerr + git_cache_setup option) \<times> 'w" where
  "setupGitCache os mkdir env cfg w =
     (if \<not> gitCacheEnabled (cf_GitCache cfg) then (Inr None, w)
      else case newMirrorManager mkdir (gt_Path (cf_GitCache cfg)) (gc_URL (cf_GitHub cfg)) (Config.au_PAT (cf_Auth cfg)) of
             Inl e \<Rightarrow> (Inl (errorf ''git cache: '' e), w)
           | Inr m \<Rightarrow>
               (let sweep = (if gt_MaxAgeDays (cf_GitCache cfg) > 0
                             then Some (wrap64 (gt_MaxAgeDays (cf_GitCache cfg) * 24 * 3600000000000)) else None)
                in if gc_Scope (cf_GitHub cfg) = ''repo''
                   then (Inr (Some \<lparr>gs_manager = m, gs_sweepAge = sweep, gs_refresh = Some (repoSlug cfg)\<rparr>),
                         snd (EnsureMirror os m env (repoSlug cfg) w))
                   else (Inr (Some \<lparr>gs_manager = m, gs_sweepAge = sweep, gs_refresh = None\<rparr>), w)))"

text \<open>
  \<open>startCache\<close> for the embedded server: the server it starts and the URL for the runners. An
  external server has no server record here. \<open>rnd\<close> is the outcome of \<open>randomToken\<close>.
\<close>

definition startCache ::
  "(gerr + string) \<Rightarrow> config \<Rightarrow> mirror_manager option \<Rightarrow> gerr + (cache_server option \<times> string)" where
  "startCache rnd cfg gitMgr =
     (if ca_ExternalURL (cf_Cache cfg) \<noteq> [] then Inr (None, ca_ExternalURL (cf_Cache cfg))
      else case newCacheServer (cf_Cache cfg) rnd of
             Inl e \<Rightarrow> Inl (errorf ''cache server: '' e)
           | Inr srv \<Rightarrow>
               (let srv1 = (if DotGit (cf_GitCache cfg) \<and> gitMgr \<noteq> None \<and> gc_Scope (cf_GitHub cfg) = ''repo''
                            then SetGitBundler srv (repoSlug cfg) else srv)
                in Inr (Some srv1, AdvertiseURL srv1)))"

record tool_cache =
  tc_Mode :: string
  tc_Volume :: string
  tc_ReadOnly :: bool

definition DockerSocketPath :: string where
  "DockerSocketPath = ''/var/run/docker.sock''"

abbreviation mkMount :: "string \<Rightarrow> string \<Rightarrow> bool \<Rightarrow> bool \<Rightarrow> mount" where
  "mkMount src target ro vol \<equiv> \<lparr>mt_Source = src, mt_Target = target, mt_ReadOnly = ro, mt_Volume = vol\<rparr>"

text \<open>\<open>poolEnvAndMounts\<close>; \<open>tc\<close> is the pool's \<open>tool_cache\<close> section.\<close>

definition toolCacheWiring ::
  "pool_config \<Rightarrow> tool_cache \<Rightarrow> (string \<times> string) list \<times> mount list \<Rightarrow> (string \<times> string) list \<times> mount list" where
  "toolCacheWiring pc tc = (\<lambda>(env, mounts).
     if tc_Mode tc = ''shared-volume'' \<and> tc_Volume tc \<noteq> []
     then (AList.update ''RUNNER_TOOL_CACHE'' (ToolCachePath pc) env,
           mounts @ [mkMount (tc_Volume tc) (ToolCachePath pc) (tc_ReadOnly tc) True])
     else (env, mounts))"

definition gitMirrorWiring ::
  "config \<Rightarrow> pool_config \<Rightarrow> (string \<times> string) list \<Rightarrow> mirror_manager \<Rightarrow> (string \<times> string) list \<times> mount list
     \<Rightarrow> (string \<times> string) list \<times> mount list" where
  "gitMirrorWiring cfg pc shared m = (\<lambda>(env, mounts).
     if DotGit (cf_GitCache cfg) then
       (let base = trimRight (case map_of shared ''ACTIONS_RESULTS_URL'' of None \<Rightarrow> [] | Some u \<Rightarrow> u) ''/''
        in if base = [] then (env, mounts)
           else let env1 = AList.update ''MR_GIT_BUNDLE_URL'' (base @ ''/gitmirror/'' @ repoSlug cfg) env
                in (if pc_OS pc = ''windows''
                    then AList.update ''ACTIONS_RUNNER_HOOK_JOB_STARTED'' (''C:'' @ [CHR 0x5C] @ ''mr-githook.ps1'') env1
                    else env1, mounts))
     else
       (let target = ContainerPath (repoSlug cfg) (pc_OS pc)
        in (AList.update ''MULTIRUNNER_GIT_MIRROR'' target env,
            mounts @ [mkMount (MirrorPath m (repoSlug cfg)) target True False])))"

definition poolEnvAndMounts ::
  "config \<Rightarrow> pool_config \<Rightarrow> tool_cache \<Rightarrow> (string \<times> string) list \<Rightarrow> mirror_manager option
     \<Rightarrow> (string \<times> string) list \<times> mount list" where
  "poolEnvAndMounts cfg pc tc shared gitMgr =
     (let (env, mounts) = toolCacheWiring pc tc (shared, []);
          mounts1 = (if do_EnableDinD (pc_Docker pc)
                     then mounts @ [mkMount DockerSocketPath DockerSocketPath False False] else mounts);
          mounts2 = (if do_ShareWorkspace (pc_Docker pc)
                     then mounts1 @ [mkMount (SharedWorkspacePath pc) (SharedWorkspacePath pc) False False] else mounts1)
      in case gitMgr of
           None \<Rightarrow> (env, mounts2)
         | Some m \<Rightarrow> if gc_Scope (cf_GitHub cfg) = ''repo'' then gitMirrorWiring cfg pc shared m (env, mounts2)
                     else (env, mounts2))"

section \<open>What git reads from its environment\<close>

text \<open>Git reads \<open>GIT_CONFIG_COUNT\<close> pairs of variables and fails when one is missing (\<open>None\<close>).\<close>

fun readPairs :: "string list \<Rightarrow> nat \<Rightarrow> nat \<Rightarrow> (string \<times> string) list option" where
  "readPairs env i 0 = Some []"
| "readPairs env i (Suc n) =
     (case (childEnv env (keyVar i), childEnv env (valueVar i)) of
        (Some k, Some v) \<Rightarrow> map_option (Cons (k, v)) (readPairs env (Suc i) n)
      | _ \<Rightarrow> None)"

definition gitReadsConfig :: "string list \<Rightarrow> (string \<times> string) list option" where
  "gitReadsConfig env =
     (case childEnv env ''GIT_CONFIG_COUNT'' of
        None \<Rightarrow> Some []
      | Some raw \<Rightarrow> (case parseDigits raw of None \<Rightarrow> None | Some n \<Rightarrow> readPairs env 0 n))"

lemma digits_no_eq [simp]: "CHR ''='' \<notin> set (natDigits i)"
  using natDigits_isDigit[of i] by (auto simp: list_all_iff isDigit_def)

lemma var_no_eq [simp]: "CHR ''='' \<notin> set (keyVar i)" "CHR ''='' \<notin> set (valueVar i)"
  by (simp_all add: keyVar_def valueVar_def)

lemma var_inj [simp]:
  "keyVar i = keyVar j \<longleftrightarrow> i = j" "valueVar i = valueVar j \<longleftrightarrow> i = j"
  "keyVar i \<noteq> valueVar j" "valueVar i \<noteq> keyVar j"
  "keyVar i \<noteq> ''GIT_CONFIG_COUNT''" "valueVar i \<noteq> ''GIT_CONFIG_COUNT''"
  "''GIT_CONFIG_COUNT'' \<noteq> keyVar i" "''GIT_CONFIG_COUNT'' \<noteq> valueVar i"
  by (simp_all add: keyVar_def valueVar_def)

lemma upper_digits [simp]: "toUpper (natDigits i) = natDigits i"
proof -
  have "upperChar c = c" if "isDigit c" for c
    using that by (auto simp: upperChar_def isDigit_def Let_def)
  then show ?thesis using natDigits_isDigit[of i]
    by (auto simp: toUpper_def list_all_iff intro: map_idI)
qed

lemma toUpper_append [simp]: "toUpper (s @ t) = toUpper s @ toUpper t"
  by (simp add: toUpper_def)

lemma indexed_vars [simp]:
  "indexedGitConfig (keyVar i)" "indexedGitConfig (valueVar i)" "indexedGitConfig ''GIT_CONFIG_COUNT''"
proof -
  have k: "toUpper ''GIT_CONFIG_KEY_'' = ''GIT_CONFIG_KEY_''"
    and v: "toUpper ''GIT_CONFIG_VALUE_'' = ''GIT_CONFIG_VALUE_''"
    and c: "toUpper ''GIT_CONFIG_COUNT'' = ''GIT_CONFIG_COUNT''" by code_simp+
  show "indexedGitConfig (keyVar i)"
    unfolding indexedGitConfig_def keyVar_def toUpper_append k upper_digits Let_def by simp
  show "indexedGitConfig (valueVar i)"
    unfolding indexedGitConfig_def valueVar_def toUpper_append v upper_digits Let_def by simp
  show "indexedGitConfig ''GIT_CONFIG_COUNT''" unfolding indexedGitConfig_def c Let_def by simp
qed

lemma stripIndexed_filter:
  "stripIndexedGitConfig env = filter (\<lambda>x. \<not> indexedGitConfig (envName x)) env"
  by (induction env) auto

lemma stripped_lookup:
  "indexedGitConfig k \<Longrightarrow> lookupEnv (rev (stripIndexedGitConfig env)) k = None"
proof -
  assume k: "indexedGitConfig k"
  have "lookupEnv xs k = None" if "\<forall>x \<in> set xs. \<not> indexedGitConfig (envName x)" for xs
    using that k by (induction xs) (auto simp: envName_def split: prod.splits)
  then show ?thesis by (simp add: stripIndexed_filter)
qed

abbreviation varsFrom :: "nat \<Rightarrow> (string \<times> string) list \<Rightarrow> string list" where
  "varsFrom n es \<equiv>
     concat (map (\<lambda>(i, key, v). [keyVar i @ ''='' @ key, valueVar i @ ''='' @ v]) (enumerate n es))"

lemma lookup_vars:
  "lookupEnv (rev (varsFrom n es)) (keyVar j) =
     (if n \<le> j \<and> j < n + length es then Some (fst (es ! (j - n))) else None)"
  "lookupEnv (rev (varsFrom n es)) (valueVar j) =
     (if n \<le> j \<and> j < n + length es then Some (snd (es ! (j - n))) else None)"
  "lookupEnv (rev (varsFrom n es)) ''GIT_CONFIG_COUNT'' = None"
  by (induction es arbitrary: n)
    (auto simp: lookupEnv_append nth_Cons' le_Suc_eq not_less_eq_eq Suc_diff_le split: prod.splits)

lemma rev_buildGitEnv:
  "rev (buildGitEnv m includeAuth env) =
     rev (varsFrom 0 (gitEntries m includeAuth env))
       @ [''GIT_CONFIG_COUNT'' @ CHR ''='' # natDigits (length (gitEntries m includeAuth env))]
       @ rev (stripIndexedGitConfig (env @ [''GIT_TERMINAL_PROMPT=0'']))"
  by (simp add: buildGitEnv_def entryVars_def Let_def)

lemma cut_count:
  "cutAt (''GIT_CONFIG_COUNT'' @ CHR ''='' # d) (CHR ''='') = (''GIT_CONFIG_COUNT'', d, True)"
  by (rule cutAt_pair) simp

lemmas child_lookup = childEnv_def rev_buildGitEnv lookupEnv_append lookup_vars cut_count stripped_lookup

lemma childEnv_build:
  fixes m includeAuth env
  defines "es \<equiv> gitEntries m includeAuth env"
  shows "childEnv (buildGitEnv m includeAuth env) ''GIT_CONFIG_COUNT'' = Some (natDigits (length es))"
    and "childEnv (buildGitEnv m includeAuth env) (keyVar j) =
           (if j < length es then Some (fst (es ! j)) else None)"
    and "childEnv (buildGitEnv m includeAuth env) (valueVar j) =
           (if j < length es then Some (snd (es ! j)) else None)"
  by (simp_all add: child_lookup es_def del: append.simps)

lemma readPairs_entries:
  assumes "\<forall>j < length es. childEnv env (keyVar j) = Some (fst (es ! j)) \<and> childEnv env (valueVar j) = Some (snd (es ! j))"
    and "i + n = length es"
  shows "readPairs env i n = Some (drop i es)"
  using assms(2)
proof (induction n arbitrary: i)
  case (Suc n)
  then have i: "i < length es" by simp
  with Suc assms(1) show ?case by (simp add: Cons_nth_drop_Suc[symmetric])
qed simp

lemma git_reads_entries: "gitReadsConfig (buildGitEnv m includeAuth env) = Some (gitEntries m includeAuth env)"
  using readPairs_entries[of "gitEntries m includeAuth env" "buildGitEnv m includeAuth env" 0]
  by (simp add: gitReadsConfig_def childEnv_build)

text \<open>The inherited entries that survive: one round of the loop, then what it keeps.\<close>

definition keepEntry :: "bool \<Rightarrow> string \<Rightarrow> string \<Rightarrow> bool" where
  "keepEntry authenticated key v \<longleftrightarrow>
     trimSpace key \<noteq> [] \<and> \<not> (authenticated \<and> isURLRewrite key) \<and> \<not> isAuthorizationHeader key v"

lemma inheritedEntries_Suc:
  "inheritedEntries authenticated env i (Suc n) =
     (if lookupEnv env (keyVar i) = None \<and> lookupEnv env (valueVar i) = None then []
      else (case (lookupEnv env (keyVar i), lookupEnv env (valueVar i)) of
              (Some key, Some v) \<Rightarrow> if keepEntry authenticated key v then [(key, v)] else []
            | _ \<Rightarrow> [])
           @ inheritedEntries authenticated env (Suc i) n)"
  by (auto simp: keepEntry_def split: option.splits)

lemma inheritedEntries_kept:
  "(key, v) \<in> set (inheritedEntries authenticated env i n) \<Longrightarrow>
     keepEntry authenticated key v
       \<and> (\<exists>j < i + n. lookupEnv env (keyVar j) = Some key \<and> lookupEnv env (valueVar j) = Some v)"
proof (induction n arbitrary: i)
  case (Suc n)
  consider "lookupEnv env (keyVar i) = Some key" "lookupEnv env (valueVar i) = Some v" "keepEntry authenticated key v"
    | "(key, v) \<in> set (inheritedEntries authenticated env (Suc i) n)"
    using Suc.prems
    by (auto simp: inheritedEntries_Suc simp del: inheritedEntries.simps split: if_splits option.splits)
  then show ?case
  proof cases
    case 1
    then show ?thesis by (intro conjI exI[of _ i]) simp_all
  next
    case 2
    then show ?thesis using Suc.IH[of "Suc i"] by simp
  qed
qed simp

lemma inheritedEntries_complete:
  assumes "\<forall>k. i \<le> k \<longrightarrow> k \<le> j \<longrightarrow> lookupEnv env (keyVar k) \<noteq> None \<or> lookupEnv env (valueVar k) \<noteq> None"
    and "i \<le> j" and "j < i + n"
    and "lookupEnv env (keyVar j) = Some key" and "lookupEnv env (valueVar j) = Some v"
    and "keepEntry authenticated key v"
  shows "(key, v) \<in> set (inheritedEntries authenticated env i n)"
  using assms
proof (induction n arbitrary: i)
  case (Suc n)
  show ?case
  proof (cases "i = j")
    case True
    then show ?thesis using Suc.prems by (simp add: inheritedEntries_Suc del: inheritedEntries.simps)
  next
    case False
    then have "(key, v) \<in> set (inheritedEntries authenticated env (Suc i) n)"
      using Suc.prems by (intro Suc.IH) auto
    then show ?thesis using Suc.prems(1,2)
      by (auto simp: inheritedEntries_Suc simp del: inheritedEntries.simps)
  qed
qed simp

lemma inheritedCount_le: "inheritedCount env \<le> 256"
  by (auto simp: inheritedCount_def maxInheritedGitConfigEntries_def Let_def split: option.splits)

lemma inheritedEntries_length: "length (inheritedEntries authenticated env i n) \<le> n"
proof (induction n arbitrary: i)
  case (Suc n)
  then show ?case using Suc.IH[of "Suc i"]
    by (auto simp: inheritedEntries_Suc simp del: inheritedEntries.simps split: option.splits intro: le_SucI)
qed simp

lemma cut_prompt: "cutAt ''GIT_TERMINAL_PROMPT=0'' (CHR ''='') = (''GIT_TERMINAL_PROMPT'', ''0'', True)"
  by code_simp

lemma lookup_vars_other:
  "\<not> indexedGitConfig k \<Longrightarrow> lookupEnv (rev (varsFrom n es)) k = None"
  by (induction es arbitrary: n) (auto simp: lookupEnv_append split: prod.splits)

lemma stripped_lookup_other:
  assumes "\<not> indexedGitConfig k"
  shows "lookupEnv (rev (stripIndexedGitConfig env)) k = lookupEnv (rev env) k"
proof -
  have "lookupEnv (filter (\<lambda>x. \<not> indexedGitConfig (envName x)) xs) k = lookupEnv xs k" for xs
    using assms by (induction xs) (auto simp: envName_def split: prod.splits)
  then show ?thesis by (simp add: stripIndexed_filter rev_filter)
qed

lemma lookup_other_names [simp]:
  "\<not> indexedGitConfig ''GIT_TERMINAL_PROMPT''" "indexedGitConfig ''GIT_CONFIG_PARAMETERS''"
  "keyVar i \<noteq> ''GIT_CONFIG_PARAMETERS''" "valueVar i \<noteq> ''GIT_CONFIG_PARAMETERS''"
  by (code_simp, code_simp, simp_all add: keyVar_def valueVar_def)

lemma lookup_vars_parameters: "lookupEnv (rev (varsFrom n es)) ''GIT_CONFIG_PARAMETERS'' = None"
  by (induction es arbitrary: n) (auto simp: lookupEnv_append split: prod.splits)

lemma childEnv_build_other:
  "\<not> indexedGitConfig k \<Longrightarrow> childEnv (buildGitEnv m includeAuth env) k =
     (if k = ''GIT_TERMINAL_PROMPT'' then Some ''0'' else childEnv env k)"
  "childEnv (buildGitEnv m includeAuth env) ''GIT_CONFIG_PARAMETERS'' = None"
proof -
  assume k: "\<not> indexedGitConfig k"
  then have "k \<noteq> ''GIT_CONFIG_COUNT''" by auto
  with k show "childEnv (buildGitEnv m includeAuth env) k =
      (if k = ''GIT_TERMINAL_PROMPT'' then Some ''0'' else childEnv env k)"
    by (simp add: child_lookup lookup_vars_other stripped_lookup_other cut_prompt del: append.simps)
next
  show "childEnv (buildGitEnv m includeAuth env) ''GIT_CONFIG_PARAMETERS'' = None"
    by (simp add: child_lookup lookup_vars_parameters del: append.simps)
qed

lemma gitEntries_inherited:
  defines "kept authenticated env \<equiv> inheritedEntries authenticated env 0 (inheritedCount env)"
  shows "gitEntries m includeAuth env =
      kept (includeAuth \<and> mm_token m \<noteq> []) env
        @ (if includeAuth \<and> mm_token m \<noteq> [] then [authEntry m] else [])"
    and "length (kept a env) \<le> 256"
    and "(key, v) \<in> set (kept a env) \<Longrightarrow> keepEntry a key v \<and> (\<exists>j < 256.
           lookupEnv env (keyVar j) = Some key \<and> lookupEnv env (valueVar j) = Some v)"
proof -
  show "gitEntries m includeAuth env = kept (includeAuth \<and> mm_token m \<noteq> []) env
      @ (if includeAuth \<and> mm_token m \<noteq> [] then [authEntry m] else [])"
    by (simp add: gitEntries_def kept_def Let_def)
  show "length (kept a env) \<le> 256"
    using inheritedEntries_length[of a env 0 "inheritedCount env"] inheritedCount_le[of env]
    by (simp add: kept_def)
  assume "(key, v) \<in> set (kept a env)"
  then show "keepEntry a key v \<and> (\<exists>j < 256.
      lookupEnv env (keyVar j) = Some key \<and> lookupEnv env (valueVar j) = Some v)"
    using inheritedEntries_kept[of key v a env 0 "inheritedCount env"] inheritedCount_le[of env]
    unfolding kept_def by (auto intro: less_le_trans)
qed

text \<open>
  C14: The environment of a git process. Whatever the operator's environment holds, git reads from
  the environment built for it a complete list of settings: at most 256 inherited ones, none of
  which carries an Authorization header or, when a token is attached, rewrites a URL, and then the
  manager's own header for the configured GitHub URL. A local command gets no Authorization header
  at all. Every inherited setting that is not dropped for one of these reasons, is complete and
  comes before the first gap of the numbering reaches git. No other variable through which git
  takes settings is left, and every variable of another name is handed on unchanged.
\<close>

theorem git_environment_is_safe:
  "\<exists>inherited local.
     gitReadsConfig (gitEnv m env) = Some (inherited @ (if mm_token m = [] then [] else [authEntry m]))
     \<and> gitReadsConfig (localGitEnv m env) = Some local
     \<and> length inherited \<le> 256
     \<and> (\<forall>key v. (key, v) \<in> set inherited \<longrightarrow>
           \<not> isAuthorizationHeader key v \<and> (mm_token m \<noteq> [] \<longrightarrow> \<not> isURLRewrite key)
           \<and> (\<exists>j < 256. lookupEnv env (keyVar j) = Some key \<and> lookupEnv env (valueVar j) = Some v))
     \<and> (\<forall>key v. (key, v) \<in> set local \<longrightarrow> \<not> isAuthorizationHeader key v)
     \<and> (\<forall>j key v. j < inheritedCount env
           \<and> (\<forall>k \<le> j. lookupEnv env (keyVar k) \<noteq> None \<or> lookupEnv env (valueVar k) \<noteq> None)
           \<and> lookupEnv env (keyVar j) = Some key \<and> lookupEnv env (valueVar j) = Some v
           \<and> keepEntry (mm_token m \<noteq> []) key v \<longrightarrow> (key, v) \<in> set inherited)
     \<and> (\<forall>e \<in> {gitEnv m env, localGitEnv m env}.
           childEnv e ''GIT_CONFIG_PARAMETERS'' = None
           \<and> (\<forall>k. \<not> indexedGitConfig k \<longrightarrow>
                 childEnv e k = (if k = ''GIT_TERMINAL_PROMPT'' then Some ''0'' else childEnv env k)))
     \<and> (\<forall>j > length inherited. childEnv (gitEnv m env) (keyVar j) = None \<and> childEnv (gitEnv m env) (valueVar j) = None)"
proof -
  note g = gitEntries_inherited(1)[of m True env] gitEntries_inherited(1)[of m False env]
  define kept where "kept a = inheritedEntries a env 0 (inheritedCount env)" for a
  have r: "gitReadsConfig (gitEnv m env) = Some (kept (mm_token m \<noteq> []) @ (if mm_token m = [] then [] else [authEntry m]))"
    "gitReadsConfig (localGitEnv m env) = Some (kept False)"
    by (simp_all add: gitEnv_def localGitEnv_def git_reads_entries g kept_def)
  have k: "keepEntry a key v \<and> (\<exists>j < 256. lookupEnv env (keyVar j) = Some key \<and> lookupEnv env (valueVar j) = Some v)"
    if "(key, v) \<in> set (kept a)" for a key v
    using gitEntries_inherited(3)[of key v a env] that by (simp add: kept_def)
  have n: "\<forall>j > length (kept (mm_token m \<noteq> [])).
      childEnv (gitEnv m env) (keyVar j) = None \<and> childEnv (gitEnv m env) (valueVar j) = None"
    by (auto simp: gitEnv_def childEnv_build g(1) kept_def)
  have other: "\<forall>e \<in> {gitEnv m env, localGitEnv m env}. childEnv e ''GIT_CONFIG_PARAMETERS'' = None
      \<and> (\<forall>k. \<not> indexedGitConfig k \<longrightarrow> childEnv e k = (if k = ''GIT_TERMINAL_PROMPT'' then Some ''0'' else childEnv env k))"
    by (simp add: gitEnv_def localGitEnv_def childEnv_build_other)
  have l: "length (kept a) \<le> 256" for a using gitEntries_inherited(2)[of a env] by (simp add: kept_def)
  have c: "\<forall>j key v. j < inheritedCount env
      \<and> (\<forall>k \<le> j. lookupEnv env (keyVar k) \<noteq> None \<or> lookupEnv env (valueVar k) \<noteq> None)
      \<and> lookupEnv env (keyVar j) = Some key \<and> lookupEnv env (valueVar j) = Some v
      \<and> keepEntry (mm_token m \<noteq> []) key v \<longrightarrow> (key, v) \<in> set (kept (mm_token m \<noteq> []))"
    by (auto simp: kept_def intro: inheritedEntries_complete)
  have h: "\<forall>key v. (key, v) \<in> set (kept (mm_token m \<noteq> [])) \<longrightarrow>
      \<not> isAuthorizationHeader key v \<and> (mm_token m \<noteq> [] \<longrightarrow> \<not> isURLRewrite key)
      \<and> (\<exists>j < 256. lookupEnv env (keyVar j) = Some key \<and> lookupEnv env (valueVar j) = Some v)"
    using k by (simp add: keepEntry_def)
  have h': "\<forall>key v. (key, v) \<in> set (kept False) \<longrightarrow> \<not> isAuthorizationHeader key v"
    using k by (simp add: keepEntry_def)
  from r l h h' c other n show ?thesis by (intro exI conjI)
qed

definition demoMirror :: mirror_manager where
  "demoMirror = \<lparr>mm_root = ''/var/mirrors'', mm_baseURL = ''https://github.com'', mm_token = ''t''\<rparr>"

definition demoGitEnv :: "string list" where
  "demoGitEnv =
     [''PATH=/bin'', ''GIT_CONFIG_COUNT=3'', ''GIT_CONFIG_KEY_0=core.abbrev'', ''GIT_CONFIG_VALUE_0=9'',
      ''GIT_CONFIG_KEY_1=url.https://evil.example/.insteadOf'', ''GIT_CONFIG_VALUE_1=https://github.com/'',
      ''GIT_CONFIG_KEY_2=http.extraHeader'', ''GIT_CONFIG_VALUE_2=Authorization: basic eA=='']"

theorem git_environment_is_safe_witness:
  "gitReadsConfig (gitEnv demoMirror demoGitEnv) = Some [(''core.abbrev'', ''9''), authEntry demoMirror]
   \<and> childEnv (gitEnv demoMirror demoGitEnv) ''PATH'' = Some ''/bin''
   \<and> childEnv (gitEnv demoMirror demoGitEnv) ''GIT_CONFIG_PARAMETERS'' = None"
proof -
  have "osGetenv demoGitEnv ''GIT_CONFIG_COUNT'' = ''3''" by code_simp
  moreover have "parseInt64 ''3'' = Some 3"
    by (simp add: parseInt64_def parseDigits_def isDigit_def digitVal_def)
  ultimately have "inheritedCount demoGitEnv = 3"
    by (simp add: inheritedCount_def maxInheritedGitConfigEntries_def)
  moreover have "inheritedEntries True demoGitEnv 0 3 = [(''core.abbrev'', ''9'')]" by code_simp
  moreover have "mm_token demoMirror \<noteq> []" by code_simp
  ultimately have r: "gitReadsConfig (gitEnv demoMirror demoGitEnv) = Some [(''core.abbrev'', ''9''), authEntry demoMirror]"
    by (simp add: gitEnv_def git_reads_entries gitEntries_def)
  have p: "\<not> indexedGitConfig ''PATH''" "childEnv demoGitEnv ''PATH'' = Some ''/bin''"
    "''PATH'' \<noteq> ''GIT_TERMINAL_PROMPT''" by code_simp+
  obtain inherited local where "\<forall>e \<in> {gitEnv demoMirror demoGitEnv, local}. childEnv e ''GIT_CONFIG_PARAMETERS'' = None
      \<and> (\<forall>k. \<not> indexedGitConfig k \<longrightarrow>
            childEnv e k = (if k = ''GIT_TERMINAL_PROMPT'' then Some ''0'' else childEnv demoGitEnv k))"
    using git_environment_is_safe[of demoMirror demoGitEnv] by (elim exE conjE)
  with p have "childEnv (gitEnv demoMirror demoGitEnv) ''PATH'' = Some ''/bin''"
    "childEnv (gitEnv demoMirror demoGitEnv) ''GIT_CONFIG_PARAMETERS'' = None" by simp_all
  with r show ?thesis by (intro conjI)
qed

section \<open>What a sweep removes\<close>

text \<open>
  The bare repositories below a directory that are not inside another one: directories with a
  \<open>.git\<close> name and a \<open>HEAD\<close>, in walking order, up to the first directory that cannot be listed.
\<close>

fun bareRepos :: "string \<Rightarrow> fs_node \<Rightarrow> (string \<times> (string \<times> fs_node) list) list"
  and bareReposIn :: "string \<Rightarrow> (string \<times> fs_node) list \<Rightarrow> (string \<times> (string \<times> fs_node) list) list" where
  "bareRepos path (FileNode t) = []"
| "bareRepos path (UnlistableDir e) = []"
| "bareRepos path (DirNode t es) =
     (if hasSuffix path ''.git'' \<and> hasHead es then [(path, es)] else bareReposIn path es)"
| "bareReposIn path [] = []"
| "bareReposIn path ((name, x) # es) = bareRepos (pathJoin path name) x @ bareReposIn path es"

definition sweepable ::
  "(string \<Rightarrow> int option) \<Rightarrow> (string \<Rightarrow> gerr option) \<Rightarrow> int \<Rightarrow> string \<times> (string \<times> fs_node) list \<Rightarrow> bool" where
  "sweepable again rm cutoff = (\<lambda>(path, es).
     (\<exists>used. lastUsed es = Some used \<and> used < cutoff) \<and> (\<exists>used. again path = Some used \<and> used < cutoff)
     \<and> rm path = None)"

lemma sweep_walk:
  "\<exists>rest. map fst (filter (sweepable again rm cutoff) (bareRepos path x)) = fst (sweepNode again rm cutoff path x) @ rest
     \<and> (snd (sweepNode again rm cutoff path x) = None \<longrightarrow> rest = [])"
  "\<exists>rest. map fst (filter (sweepable again rm cutoff) (bareReposIn path es)) = fst (sweepEntries again rm cutoff path es) @ rest
     \<and> (snd (sweepEntries again rm cutoff path es) = None \<longrightarrow> rest = [])"
proof (induction path x and path es rule: bareRepos_bareReposIn.induct)
  case (3 path t es)
  show ?case
  proof (cases "hasSuffix path ''.git'' \<and> hasHead es")
    case True
    then show ?thesis
      by (cases "lastUsed es"; cases "again path"; cases "rm path")
        (simp_all add: sweepable_def sweepMirror_def)
  next
    case False
    then have "bareRepos path (DirNode t es) = bareReposIn path es"
      "sweepNode again rm cutoff path (DirNode t es) = sweepEntries again rm cutoff path es" by auto
    then show ?thesis using "3.IH"[OF False] by simp
  qed
next
  case (5 path name x es)
  obtain r1 e1 where n: "sweepNode again rm cutoff (pathJoin path name) x = (r1, e1)" by fastforce
  obtain r2 e2 where s: "sweepEntries again rm cutoff path es = (r2, e2)" by fastforce
  from 5 n s obtain rest1 rest2 where
    "map fst (filter (sweepable again rm cutoff) (bareRepos (pathJoin path name) x)) = r1 @ rest1"
    "e1 = None \<longrightarrow> rest1 = []"
    "map fst (filter (sweepable again rm cutoff) (bareReposIn path es)) = r2 @ rest2"
    "e2 = None \<longrightarrow> rest2 = []" by auto
  with n s show ?case by (cases e1) simp_all
qed auto

text \<open>
  C29: A sweep removes, in walking order, exactly the bare repositories that carry the cache's own
  last-used marker, whose marker was older than the limit when the walk came by and still was when
  it was read again under the repository's lock, and whose removal succeeded. A bare repository
  without the marker is never removed, nor is anything below it; a walk that ends early has removed
  a first part of these. With a limit of zero or less nothing is removed.
\<close>

theorem sweep_removes_only_stale_mirrors:
  assumes "Sweep again rm m (Inr tree) now maxAge = (removed, err)"
  shows "(maxAge \<le> 0 \<longrightarrow> removed = [] \<and> err = None)
    \<and> (0 < maxAge \<longrightarrow> (\<exists>rest.
          map fst (filter (sweepable again rm (now - maxAge)) (bareRepos (mm_root m) tree)) = removed @ rest
          \<and> (err = None \<longrightarrow> rest = [])))"
  using assms sweep_walk(1)[of again rm "now - maxAge" "mm_root m" tree]
  by (auto simp: Sweep_def split: if_splits)

text \<open>An operator's repository, a stale mirror, a fresh one, and one a job refreshes meanwhile.\<close>

definition demoMirrorTree :: fs_node where
  "demoMirrorTree = DirNode 0
     [(''a'', DirNode 0
         [(''fresh.git'', DirNode 0 [(''.mr-lastused'', FileNode 95), (''HEAD'', FileNode 0)]),
          (''raced.git'', DirNode 0 [(''.mr-lastused'', FileNode 10), (''HEAD'', FileNode 0)]),
          (''stale.git'', DirNode 0 [(''.mr-lastused'', FileNode 10), (''HEAD'', FileNode 0)])]),
      (''own.git'', DirNode 0 [(''HEAD'', FileNode 0)])]"

definition demoAgain :: "string \<Rightarrow> int option" where
  "demoAgain path = (if path = ''/m/a/raced.git'' then Some 99 else Some 10)"

theorem sweep_removes_only_stale_mirrors_witness:
  "map fst (filter (sweepable demoAgain (\<lambda>_. None) 90) (bareRepos ''/m'' demoMirrorTree)) = [''/m/a/stale.git'']"
proof -
  have "Sweep demoAgain (\<lambda>_. None) (demoMirror\<lparr>mm_root := ''/m''\<rparr>) (Inr demoMirrorTree) 100 10 = ([''/m/a/stale.git''], None)"
    by code_simp
  from sweep_removes_only_stale_mirrors[OF this] show ?thesis by simp
qed

section \<open>Mirror paths\<close>

lemma slugFor_MirrorPath:
  assumes "plainPart owner" and "CHR ''/'' \<notin> set repo"
  shows "slugFor m (MirrorPath m (owner @ ''/'' @ repo)) = owner @ ''/'' @ repo"
proof -
  have p: "plainPart (repo @ ''.git'')"
    using assms(2) by (cases repo) (auto simp: plainPart_def)
  have "pathRel (mm_root m) (MirrorPath m (owner @ ''/'' @ repo)) = Some (owner @ ''/'' @ repo @ ''.git'')"
    using pathParts_join[OF assms(1) p, of "mm_root m"]
    by (simp add: pathRel_def MirrorPath_def dropCommon_append)
  then show ?thesis
    using trimSuffix_append[of "owner @ ''/'' @ repo" "''.git''"] by (simp add: slugFor_def)
qed

lemma MirrorPath_inj:
  assumes "plainPart owner" "CHR ''/'' \<notin> set repo" "plainPart owner'" "CHR ''/'' \<notin> set repo'"
    and "MirrorPath m (owner @ ''/'' @ repo) = MirrorPath m (owner' @ ''/'' @ repo')"
  shows "owner = owner' \<and> repo = repo'"
proof -
  have ns: "CHR ''/'' \<notin> set owner" "CHR ''/'' \<notin> set owner'" using assms(1,3) by (simp_all add: plainPart_def)
  have "owner @ ''/'' @ repo = owner' @ ''/'' @ repo'"
    by (metis slugFor_MirrorPath[OF assms(1,2), of m] slugFor_MirrorPath[OF assms(3,4), of m] assms(5))
  then have "splitOn (CHR ''/'') (owner @ CHR ''/'' # repo) = splitOn (CHR ''/'') (owner' @ CHR ''/'' # repo')" by simp
  then show ?thesis
    by (simp only: splitOn_append[OF ns(1)] splitOn_append[OF ns(2)] splitOn_no_sep[OF assms(2)]
        splitOn_no_sep[OF assms(4)]) simp
qed

section \<open>From the runner's environment to the bundle\<close>

lemma trimSuffix_slug: "trimSuffix (owner @ ''/'' @ repo) ''.git'' = owner @ ''/'' @ trimSuffix repo ''.git''"
proof (cases "suffix ''.git'' repo")
  case True
  then obtain r where "repo = r @ ''.git''" by (auto elim: suffixE)
  then show ?thesis using trimSuffix_append[of "owner @ ''/'' @ r" "''.git''"] by simp
next
  case False
  have "\<not> suffix ''.git'' (owner @ ''/'' @ repo)"
  proof
    assume "suffix ''.git'' (owner @ ''/'' @ repo)"
    then have "suffix ''.git'' repo \<or> (\<exists>xs. ''.git'' = xs @ repo \<and> suffix xs (owner @ ''/''))"
      using suffix_append[of "''.git''" "owner @ ''/''" repo] by simp
    then obtain xs where x: "''.git'' = xs @ repo" "suffix xs (owner @ ''/'')" using False by blast
    show False
    proof (cases xs rule: rev_cases)
      case Nil
      then show False using x(1) False by simp
    next
      case (snoc ys c)
      then have "c = CHR ''/''" using x(2) by (auto simp: suffix_def)
      moreover have "c \<in> set ''.git''" using x(1) snoc by (metis in_set_conv_decomp append.assoc append_Cons)
      ultimately show False by simp
    qed
  qed
  then show ?thesis using False by (simp add: trimSuffix_def)
qed

lemma trimRight_id: "s = [] \<or> last s \<notin> set cs \<Longrightarrow> trimRight s cs = s"
  by (cases s rule: rev_cases) (auto simp: trimRight_def)

lemma trimRight_snoc: "c \<in> set cs \<Longrightarrow> trimRight (s @ [c]) cs = trimRight s cs"
  by (simp add: trimRight_def)

lemma chooseToken_plain:
  assumes "chooseToken configured rnd = Inr tok" and "\<forall>t. rnd = Inr t \<longrightarrow> t \<noteq> [] \<and> CHR ''/'' \<notin> set t"
  shows "tok \<noteq> [] \<and> CHR ''/'' \<notin> set tok"
  using assms by (auto simp: chooseToken_def containsAny_def list_ex_iff split: if_splits sum.splits)

lemma startCache_server:
  assumes "startCache rnd cfg (Some m) = Inr (Some srv, advertise)"
    and "DotGit (cf_GitCache cfg)" and "gc_Scope (cf_GitHub cfg) = ''repo''"
  shows "cs_gitBundler srv \<and> cs_gitRepo srv = trimSuffix (repoSlug cfg) ''.git'' \<and> advertise = AdvertiseURL srv
    \<and> (\<exists>configured. chooseToken configured rnd = Inr (cs_accessToken srv))"
  using assms
  by (auto simp: startCache_def newCacheServer_def SetGitBundler_def Let_def split: if_splits sum.splits)

lemma bundle_url_of_pool:
  assumes "DotGit (cf_GitCache cfg)" and "gc_Scope (cf_GitHub cfg) = ''repo''"
    and "map_of shared ''ACTIONS_RESULTS_URL'' = Some (base @ ''/'')" and "base \<noteq> []" and "last base \<noteq> CHR ''/''"
  shows "map_of (fst (poolEnvAndMounts cfg pc tc shared (Some m))) ''MR_GIT_BUNDLE_URL''
    = Some (base @ ''/gitmirror/'' @ repoSlug cfg)"
proof -
  have "trimRight (base @ ''/'') ''/'' = base"
    using trimRight_snoc[of "CHR ''/''" "''/''" base] trimRight_id[of base "''/''"] assms(5) by simp
  then have g: "map_of (fst (gitMirrorWiring cfg pc shared m (env, mounts))) ''MR_GIT_BUNDLE_URL''
      = Some (base @ ''/gitmirror/'' @ repoSlug cfg)" for env mounts
    using assms(1,3,4) by (cases "pc_OS pc = ''windows''") (simp_all add: gitMirrorWiring_def)
  obtain env mounts where "poolEnvAndMounts cfg pc tc shared (Some m) = gitMirrorWiring cfg pc shared m (env, mounts)"
    using assms(2) by (cases "toolCacheWiring pc tc (shared, [])") (auto simp: poolEnvAndMounts_def Let_def)
  then show ?thesis using g by simp
qed

text \<open>
  The bundle address a runner is given works. In dotgit mode with the embedded cache server, a
  pool's runners get a bundle address that consists of the server's public address, its secret path
  token and the configured repository; a request for that path is answered with the bundle of this
  repository, and one for any other repository is refused.
\<close>

theorem bundle_url_is_served:
  assumes "startCache rnd cfg (Some m) = Inr (Some srv, advertise)"
    and "\<forall>t. rnd = Inr t \<longrightarrow> t \<noteq> [] \<and> CHR ''/'' \<notin> set t"
    and "DotGit (cf_GitCache cfg)" and "gc_Scope (cf_GitHub cfg) = ''repo''"
    and "advertise \<noteq> []" and "map_of shared ''ACTIONS_RESULTS_URL'' = map_of (RunnerEnv advertise) ''ACTIONS_RESULTS_URL''"
    and "gc_Owner (cf_GitHub cfg) \<noteq> []" and "gc_Repo (cf_GitHub cfg) \<noteq> []"
  shows "\<exists>tok. map_of (fst (poolEnvAndMounts cfg pc tc shared (Some m))) ''MR_GIT_BUNDLE_URL''
      = Some (cs_advertiseURL srv @ ''/'' @ sepBy ''/'' [''_mr'', tok, ''gitmirror'', gc_Owner (cf_GitHub cfg), gc_Repo (cf_GitHub cfg)])
    \<and> (\<forall>mac j up r t st owner repo. rq_method r = ''GET'' \<and> rq_path r = [''_mr'', tok, ''gitmirror'', owner, repo]
          \<and> owner \<noteq> [] \<and> repo \<noteq> [] \<longrightarrow>
         serve mac j up srv r t st =
           (if owner @ ''/'' @ trimSuffix repo ''.git'' = gc_Owner (cf_GitHub cfg) @ ''/'' @ trimSuffix (gc_Repo (cf_GitHub cfg)) ''.git''
            then Bundle (trimSuffix (repoSlug cfg) ''.git'') else notFound, st))"
proof -
  let ?tok = "cs_accessToken srv"
  have s: "cs_gitBundler srv" "cs_gitRepo srv = trimSuffix (repoSlug cfg) ''.git''" "advertise = AdvertiseURL srv"
    and t: "?tok \<noteq> [] \<and> CHR ''/'' \<notin> set ?tok"
    using startCache_server[OF assms(1,3,4)] chooseToken_plain assms(2) by blast+
  have a: "advertise = cs_advertiseURL srv @ ''/_mr/'' @ ?tok"
    using s(3) t assms(5) by (simp add: AdvertiseURL_def accessPrefix_def split: if_splits)
  have l: "last advertise \<noteq> CHR ''/''" using a t by (metis append_is_Nil_conv last_appendR last_in_set)
  have "trimRight advertise ''/'' = advertise" using l by (intro trimRight_id) simp
  then have "map_of shared ''ACTIONS_RESULTS_URL'' = Some (advertise @ ''/'')"
    using assms(6) by (simp add: RunnerEnv_def Let_def)
  from bundle_url_of_pool[OF assms(3,4) this assms(5) l]
  have u: "map_of (fst (poolEnvAndMounts cfg pc tc shared (Some m))) ''MR_GIT_BUNDLE_URL''
      = Some (cs_advertiseURL srv @ ''/'' @ sepBy ''/'' [''_mr'', ?tok, ''gitmirror'', gc_Owner (cf_GitHub cfg), gc_Repo (cf_GitHub cfg)])"
    by (simp add: a)
  have "serve mac j up srv r t st = (handleGitBundle srv owner repo, st)"
    if "rq_method r = ''GET''" "rq_path r = [''_mr'', ?tok, ''gitmirror'', owner, repo]" "owner \<noteq> []" "repo \<noteq> []" for mac j up r t st owner repo
    using that \<open>?tok \<noteq> [] \<and> _\<close>
    by (simp add: serve_def routes_def protectedRoute_def handle_def bearerHandler_def cacheService_def isGet_def)
  moreover have "trimSuffix (repoSlug cfg) ''.git'' = gc_Owner (cf_GitHub cfg) @ ''/'' @ trimSuffix (gc_Repo (cf_GitHub cfg)) ''.git''"
    by (rule trimSuffix_slug)
  ultimately show ?thesis using u s by (intro exI[of _ ?tok]) (auto simp: handleGitBundle_def Let_def)
qed

definition demoBundleConfig :: config where
  "demoBundleConfig =
     demoConfig\<lparr>cf_GitCache := \<lparr>gt_Mode = ''dotgit-cache'', gt_Path = ''/m'', gt_MaxAgeDays = 7\<rparr>,
                cf_Cache := (cf_Cache demoConfig)\<lparr>ca_AdvertiseURL := ''http://h:3000/'', ca_AccessToken := ''tok''\<rparr>\<rparr>"

theorem bundle_url_is_served_witness:
  "\<exists>srv. startCache (Inl (Leaf [])) demoBundleConfig (Some demoMirror) = Inr (Some srv, ''http://h:3000/_mr/tok'')
     \<and> (\<exists>tok. serve (\<lambda>k m. []) sampleJSON sampleUpstream srv (sampleRequest ''GET'' [''_mr'', tok, ''gitmirror'', ''acme'', ''app.git''])
           sampleMoment emptyStore = (Bundle ''acme/app'', emptyStore))"
proof -
  obtain srv where s: "startCache (Inl (Leaf [])) demoBundleConfig (Some demoMirror) = Inr (Some srv, ''http://h:3000/_mr/tok'')"
  proof -
    have "\<exists>srv. newCacheServer (cf_Cache demoBundleConfig) (Inl (Leaf [])) = Inr srv \<and> AdvertiseURL srv = ''http://h:3000/_mr/tok''"
      by (simp add: newCacheServer_def demoBundleConfig_def demoConfig_def chooseToken_def checkUpstream_def AdvertiseURL_def
          accessPrefix_def trimRight_def containsAny_def) code_simp
    moreover have "AdvertiseURL (SetGitBundler srv slug) = AdvertiseURL srv" for srv slug
      by (simp add: AdvertiseURL_def accessPrefix_def SetGitBundler_def)
    moreover have "ca_ExternalURL (cf_Cache demoBundleConfig) = []" by code_simp
    ultimately show ?thesis using that by (auto simp: startCache_def Let_def)
  qed
  have h: "DotGit (cf_GitCache demoBundleConfig)" "gc_Scope (cf_GitHub demoBundleConfig) = ''repo''"
    "gc_Owner (cf_GitHub demoBundleConfig) = ''acme''" "gc_Repo (cf_GitHub demoBundleConfig) = ''app''" by code_simp+
  have t: "trimSuffix ''app.git'' ''.git'' = ''app''" "trimSuffix ''app'' ''.git'' = ''app''"
    "trimSuffix ''acme/app'' ''.git'' = ''acme/app''" by code_simp+
  let ?r = "\<lambda>tok. sampleRequest ''GET'' [''_mr'', tok, ''gitmirror'', ''acme'', ''app.git'']"
  have n: "\<forall>t. (Inl (Leaf []) :: gerr + string) = Inr t \<longrightarrow> t \<noteq> [] \<and> CHR ''/'' \<notin> set t"
    "''http://h:3000/_mr/tok'' \<noteq> []" "gc_Owner (cf_GitHub demoBundleConfig) \<noteq> []" "gc_Repo (cf_GitHub demoBundleConfig) \<noteq> []"
    using h by simp_all
  note served = bundle_url_is_served[OF s n(1) h(1,2) n(2) refl n(3,4), of undefined undefined]
  have "\<exists>tok. serve (\<lambda>k m. []) sampleJSON sampleUpstream srv (?r tok) sampleMoment emptyStore = (Bundle ''acme/app'', emptyStore)"
    using served
    apply (elim exE conjE)
    subgoal for tok
      apply (drule spec[of _ "\<lambda>k m. []"], drule spec[of _ sampleJSON], drule spec[of _ sampleUpstream],
          drule spec[of _ "?r tok"], drule spec[of _ sampleMoment], drule spec[of _ emptyStore],
          drule spec[of _ "''acme''"], drule spec[of _ "''app.git''"])
      by (rule exI[of _ tok]) (simp add: sampleRequest_def h t)
    done
  with s show ?thesis by blast
qed

section \<open>The calls of a bundle\<close>

text \<open>A recorded call: a directory made, git run with an environment, the marker written.\<close>

datatype mirror_call =
    CMkdir string
  | CGit "string list" "string list"
  | CMarker string
  | CBundle "string list" "string list"

definition logMirror :: "'w mirror_os \<Rightarrow> ('w \<times> mirror_call list) mirror_os" where
  "logMirror os =
     \<lparr>os_exists = (\<lambda>p (w, log). os_exists os p w),
      os_mkdirAll = (\<lambda>p (w, log). case os_mkdirAll os p w of (e, w1) \<Rightarrow> (e, (w1, log @ [CMkdir p]))),
      os_git = (\<lambda>args env (w, log). case os_git os args env w of (out, e, w1) \<Rightarrow> (out, e, (w1, log @ [CGit args env]))),
      os_marker = (\<lambda>p (w, log). (os_marker os p w, log @ [CMarker p])),
      os_bundle = (\<lambda>args env (w, log). case os_bundle os args env w of
                     (out, errb, e, w1) \<Rightarrow> (out, errb, e, (w1, log @ [CBundle args env])))\<rparr>"

abbreviation refreshCalls :: "mirror_manager \<Rightarrow> string list \<Rightarrow> string \<Rightarrow> mirror_call list set" where
  "refreshCalls m env slug \<equiv>
     {[CGit [''--git-dir='' @ MirrorPath m slug, ''fetch'', ''--prune'', ''origin''] (gitEnv m env)],
      [CMkdir (pathDir (MirrorPath m slug)),
       CGit [''clone'', ''--mirror'', cloneURL m slug, MirrorPath m slug] (gitEnv m env)]}"

lemma MirrorPath_not_Nil [simp]: "MirrorPath m slug \<noteq> []"
  by (auto simp: MirrorPath_def pathJoin_def pathClean_def dropEmpty_def Let_def)

lemma ensureMirror_calls:
  assumes "ensureMirrorLocked (logMirror os) m env slug (w, []) = (res, w', log)"
  shows "(case res of
            Inr path \<Rightarrow> path = MirrorPath m slug \<and> (\<exists>cs \<in> refreshCalls m env slug. log = cs @ [CMarker (pathJoin path lastUsedFile)])
          | Inl e \<Rightarrow> log \<in> refreshCalls m env slug \<or> log = [CMkdir (pathDir (MirrorPath m slug))])"
  using assms
  by (auto simp: ensureMirrorLocked_def runGit_def mirrorExists_def touch_def logMirror_def Let_def
      split: prod.splits option.splits if_splits)

text \<open>
  A bundle is streamed only after a refresh that succeeded and wrote the last-used marker, and the
  process that streams it gets the environment without the token.
\<close>

theorem bundle_after_refresh:
  assumes "mirrorBundle (logMirror os) m env slug (w, []) = ((err, out), w', log)"
    and "CBundle args benv \<in> set log"
  shows "benv = localGitEnv m env \<and> (\<exists>cs \<in> refreshCalls m env slug.
    log = cs @ [CMarker (pathJoin (MirrorPath m slug) lastUsedFile), CBundle args (localGitEnv m env)])"
proof -
  obtain res w1 log1 where e: "ensureMirrorLocked (logMirror os) m env slug (w, []) = (res, w1, log1)"
    by (metis prod_cases3)
  note c = ensureMirror_calls[OF e]
  then have n: "CBundle args benv \<notin> set log1" by (auto split: sum.splits)
  show ?thesis
  proof (cases res)
    case (Inl a)
    then show ?thesis using assms e n by (simp add: mirrorBundle_def)
  next
    case (Inr path)
    then have "log = log1 @ [CBundle [''--git-dir='' @ path, ''bundle'', ''create'', ''-'', ''--all''] (localGitEnv m env)]"
      using assms(1) e by (auto simp: mirrorBundle_def logMirror_def split: prod.splits option.splits)
    then show ?thesis using c Inr assms(2) n by auto
  qed
qed

section \<open>Reading the audit\<close>

text \<open>The output of git with \<open>-z\<close>: per setting its origin, a zero byte, key, newline, value, a zero byte.\<close>

definition auditOutput :: "(string \<times> string \<times> string) list \<Rightarrow> string" where
  "auditOutput xs = concat (map (\<lambda>(origin, key, v). origin @ [CHR 0x00] @ key @ [CHR 0x0A] @ v @ [CHR 0x00]) xs)"

lemma auditFields_output:
  assumes "\<forall>(origin, key, v) \<in> set xs. CHR 0x00 \<notin> set origin \<union> set key \<union> set v \<and> CHR 0x0A \<notin> set key"
  shows "auditFields url (splitOn (CHR 0x00) (trimSuffix (auditOutput xs) [CHR 0x00]))
    = concat (map (\<lambda>(origin, key, v). auditEntry url origin key v) xs)"
proof -
  have "auditFields url (splitOn (CHR 0x00) (auditOutput xs)) = concat (map (\<lambda>(origin, key, v). auditEntry url origin key v) xs)
      \<and> (xs \<noteq> [] \<longrightarrow> (\<exists>s. auditOutput xs = s @ [CHR 0x00]))"
    using assms
  proof (induction xs)
    case (Cons x xs)
    obtain origin key v where x: "x = (origin, key, v)" by (cases x)
    have n: "CHR 0x00 \<notin> set origin" "CHR 0x00 \<notin> set (key @ CHR 0x0A # v)" "CHR 0x0A \<notin> set key"
      using Cons.prems x by auto
    have o: "auditOutput (x # xs) = origin @ CHR 0x00 # (key @ CHR 0x0A # v) @ CHR 0x00 # auditOutput xs"
      by (simp add: auditOutput_def x)
    have "splitOn (CHR 0x00) (auditOutput (x # xs)) = origin # (key @ CHR 0x0A # v) # splitOn (CHR 0x00) (auditOutput xs)"
      unfolding o splitOn_append[OF n(1)] splitOn_append[OF n(2)] ..
    moreover have "cutAt (key @ CHR 0x0A # v) (CHR 0x0A) = (key, v, True)"
      by (simp add: cutAt_def indexByte_append[OF n(3)])
    moreover have "\<exists>s. auditOutput (x # xs) = s @ [CHR 0x00]"
      using Cons o by (cases xs) (auto simp: auditOutput_def)
    ultimately show ?case using Cons by (auto simp: x)
  qed (simp add: auditOutput_def)
  moreover have "auditFields url (splitOn c (s @ [c])) = auditFields url (splitOn c s)" for c s
  proof -
    have "auditFields url (ys @ [[]]) = auditFields url ys" for ys
      by (induction url ys rule: auditFields.induct) (auto simp: cutAt_def auditEntry_def)
    then show ?thesis using splitOn_join[of c s "[]"] by simp
  qed
  ultimately show ?thesis
    by (cases "xs = []") (auto simp: auditOutput_def trimSuffix_def)
qed

end
