(* ===== verification/Service_Log.thy ===== *)
theory Service_Log
  imports Go_Text Go_Os
begin

text \<open>
  The log of the supervised service (\<open>cmd/multirunner/service_logging.go\<close>): the redaction of
  secrets, the bounded tail kept for the failure report, and the copying of the worker's output
  line by line with its private-key filter. The platform's logger is the list of the messages
  handed to it; the regular expressions are those of the code, run by the matcher of \<open>Go_Text\<close>.
\<close>

section \<open>Redaction\<close>

abbreviation redactSpace :: "char \<Rightarrow> bool" where
  "redactSpace c \<equiv> c \<in> set [CHR 0x09, CHR 0x0A, CHR 0x0C, CHR 0x0D, CHR '' '']"

definition alnum :: "char \<Rightarrow> bool" where
  "alnum c = (wordChar c \<and> c \<noteq> CHR ''_'')"

definition sensitiveName :: regex where
  "sensitiveName = alts
     [litFold ''authorization'', litFold ''credential'',
      seqs [litFold ''jit'', Alt (Cls (\<lambda>c. c = CHR ''_'' \<or> c = CHR ''-'')) Eps, litFold ''config''],
      litFold ''password'', litFold ''secret'', litFold ''token'']"

definition sensitiveJSONValue :: regex where
  "sensitiveJSONValue = seqs
     [Grp 1 (seqs [lit [CHR 0x22], sensitiveName, lit [CHR 0x22], many redactSpace, lit '':'', many redactSpace]),
      lit [CHR 0x22], many (\<lambda>c. c \<noteq> CHR 0x22), lit [CHR 0x22]]"

definition sensitiveAssignment :: regex where
  "sensitiveAssignment = seqs
     [Bound, Grp 1 sensitiveName, Grp 2 (seqs [many redactSpace, lit ''='', many redactSpace]),
      alts [seqs [lit [CHR 0x22], many (\<lambda>c. c \<noteq> CHR 0x22), lit [CHR 0x22]],
            seqs [lit [CHR 0x27], many (\<lambda>c. c \<noteq> CHR 0x27), lit [CHR 0x27]],
            atLeast 1 (\<lambda>c. \<not> redactSpace c \<and> c \<noteq> CHR '','' \<and> c \<noteq> CHR '';'')]]"

definition githubToken :: regex where
  "githubToken = seqs
     [Bound,
      Grp 1 (Alt (seqs [lit ''gh'', Cls (\<lambda>c. c \<in> set ''pousr''), lit ''_'', atLeast 20 wordChar])
                 (seqs [lit ''github_pat_'', atLeast 20 wordChar])),
      Bound]"

definition privateKeyBlock :: regex where
  "privateKeyBlock = seqs
     [lit ''-----BEGIN '', many (\<lambda>c. c \<noteq> CHR ''-''), lit ''PRIVATE KEY-----'', Star False (Cls (\<lambda>_. True)),
      lit ''-----END '', many (\<lambda>c. c \<noteq> CHR ''-''), lit ''PRIVATE KEY-----'']"

definition cacheTokenPath :: regex where
  "cacheTokenPath = seqs
     [lit ''/_mr/'', atLeast 1 (\<lambda>c. \<not> redactSpace c \<and> c \<noteq> CHR ''/'' \<and> c \<noteq> CHR ''?'')]"

definition bareEncodedSecret :: regex where
  "bareEncodedSecret = seqs
     [Bound, atLeast 128 (\<lambda>c. alnum c \<or> c = CHR ''+'' \<or> c = CHR ''/''),
      Alt (Seq (Cls (\<lambda>c. c = CHR ''='')) (Alt (Cls (\<lambda>c. c = CHR ''='')) Eps)) Eps, Bound]"

text \<open>The ranges of \<open>unicode.Cf\<close>.\<close>

definition formatRune :: "int \<Rightarrow> bool" where
  "formatRune r = list_ex (\<lambda>(a, b). a \<le> r \<and> r \<le> b)
     [(173, 173), (1536, 1541), (1564, 1564), (1757, 1757), (1807, 1807), (2192, 2193), (2274, 2274),
      (6158, 6158), (8203, 8207), (8234, 8238), (8288, 8292), (8294, 8303), (65279, 65279),
      (65529, 65531), (69821, 69821), (69837, 69837), (78896, 78911), (113824, 113827),
      (119155, 119162), (917505, 917505), (917536, 917631)]"

definition keepRune :: "int \<Rightarrow> bool" where
  "keepRune r = (r = 10 \<or> r = 9 \<or> \<not> (r < 32 \<or> r = 127 \<or> formatRune r))"

definition sanitizeLogText :: "string \<Rightarrow> string" where
  "sanitizeLogText message =
     (let m1 = mapRunes keepRune message;
          m2 = ReplaceAllString privateKeyBlock (\<lambda>_. ''<redacted-private-key>'') m1;
          m3 = ReplaceAllString githubToken (\<lambda>_. ''<redacted-token>'') m2;
          m4 = ReplaceAllString cacheTokenPath (\<lambda>_. ''/_mr/<redacted>'') m3;
          m5 = ReplaceAllString bareEncodedSecret (\<lambda>_. ''<redacted-encoded-secret>'') m4;
          m6 = ReplaceAllString sensitiveJSONValue
                 (\<lambda>caps. groupText caps 1 @ [CHR 0x22] @ ''<redacted>'' @ [CHR 0x22]) m5
      in ReplaceAllString sensitiveAssignment (\<lambda>caps. groupText caps 1 @ groupText caps 2 @ ''<redacted>'') m6)"

fun redactSecrets :: "string list \<Rightarrow> string \<Rightarrow> string" where
  "redactSecrets [] message = message"
| "redactSecrets (secret # secrets) message =
     redactSecrets secrets (if secret \<noteq> [] then replaceAll secret ''<redacted>'' message else message)"

definition sanitizeLogTextWithSecrets :: "string list \<Rightarrow> string \<Rightarrow> string" where
  "sanitizeLogTextWithSecrets secrets message = sanitizeLogText (redactSecrets secrets message)"

text \<open>
  \<open>newRedactingWriter\<close> keeps the non-empty secrets, longest first (\<open>sort.Slice\<close> leaves the order of
  equally long ones open; the model keeps it); its \<open>Write\<close> hands on the sanitised text.
\<close>

definition redactingSecrets :: "string list \<Rightarrow> string list" where
  "redactingSecrets secrets = sort_key (\<lambda>s. - int (length s)) (filter (\<lambda>s. s \<noteq> []) secrets)"

definition redactingWrite :: "string list \<Rightarrow> (string \<Rightarrow> gerr option) \<Rightarrow> string \<Rightarrow> nat \<times> gerr option" where
  "redactingWrite secrets writer data =
     (case writer (sanitizeLogTextWithSecrets secrets data) of
        Some e \<Rightarrow> (0, Some e)
      | None \<Rightarrow> (length data, None))"

section \<open>The tail of the output\<close>

definition maxServiceLogRecordBytes :: nat where
  "maxServiceLogRecordBytes = 8192"

definition maxServiceLogTailBytes :: nat where
  "maxServiceLogTailBytes = 2048"

definition serviceLogReadBuffer :: nat where
  "serviceLogReadBuffer = 4096"

record log_tail =
  lt_summary :: string
  lt_content :: string

fun trimFrontToValid :: "string \<Rightarrow> string" where
  "trimFrontToValid [] = []"
| "trimFrontToValid (c # cs) = (if validUTF8 (c # cs) then c # cs else trimFrontToValid cs)"

definition truncateLogTailValue :: "string \<Rightarrow> nat \<Rightarrow> string" where
  "truncateLogTailValue v maxBytes =
     (if length v \<le> maxBytes then v else trimFrontToValid (drop (length v - maxBytes) v))"

lemma invalid_not_Nil: "\<not> validUTF8 s \<Longrightarrow> 0 < length s"
  by (cases s) auto

function trimBackToValid :: "string \<Rightarrow> string" where
  "trimBackToValid s = (if validUTF8 s then s else trimBackToValid (butlast s))"
  by auto
termination
  by (relation "measure length") (auto dest: invalid_not_Nil)

declare trimBackToValid.simps [simp del]

definition truncateLogSummary :: "string \<Rightarrow> nat \<Rightarrow> string" where
  "truncateLogSummary v maxBytes =
     (if length v \<le> maxBytes then v else trimBackToValid (take maxBytes v))"

definition tailAdd :: "log_tail \<Rightarrow> string \<Rightarrow> log_tail" where
  "tailAdd t message =
     (if message = [] then t
      else
        let summary = (if lt_summary t = [] \<and> (hasPrefix message ''panic:'' \<or> hasPrefix message ''fatal error:'')
                       then truncateLogSummary message (maxServiceLogTailBytes div 4) else lt_summary t);
            content = (if lt_content t \<noteq> [] then lt_content t @ newline else []) @ message;
            budget = (if summary \<noteq> [] then maxServiceLogTailBytes - (length summary + 1) else maxServiceLogTailBytes)
        in \<lparr>lt_summary = summary, lt_content = truncateLogTailValue content budget\<rparr>)"

definition tailString :: "log_tail \<Rightarrow> string" where
  "tailString t =
     (if lt_summary t \<noteq> [] \<and> \<not> contains (lt_content t) (lt_summary t)
      then lt_summary t @ newline @ lt_content t else lt_content t)"

section \<open>Copying the output\<close>

datatype log_level = LError | LWarning | LInfo

text \<open>
  The copying goroutine between two reads: the line so far, its flags, whether a private key is
  being skipped, what the logger received, and the tail.
\<close>

record copy_state =
  cp_line :: string
  cp_truncated :: bool
  cp_inKey :: bool
  cp_begin :: bool
  cp_end :: bool
  cp_markerTail :: string
  cp_logged :: "(log_level \<times> string) list"
  cp_tail :: log_tail

definition containsPrivateKeyMarker :: "string \<Rightarrow> string \<Rightarrow> bool" where
  "containsPrivateKeyMarker message boundary =
     (contains message (''-----'' @ boundary) \<and> contains message ''PRIVATE KEY-----'')"

definition levelOf :: "string \<Rightarrow> log_level" where
  "levelOf message =
     (let q = [CHR 0x22]
      in if contains message ''level=ERROR'' \<or> contains message (q @ ''level'' @ q @ '':'' @ q @ ''ERROR'' @ q) then LError
         else if contains message ''level=WARN'' \<or> contains message (q @ ''level'' @ q @ '':'' @ q @ ''WARN'' @ q) then LWarning
         else LInfo)"

text \<open>\<open>writeServiceLog\<close>: \<open>logger\<close> tells whether there is a logger.\<close>

definition writeServiceLog :: "bool \<Rightarrow> string \<Rightarrow> copy_state \<Rightarrow> copy_state" where
  "writeServiceLog logger message s =
     (if \<not> logger then s else s\<lparr>cp_logged := cp_logged s @ [(levelOf message, message)]\<rparr>)"

definition emitServiceOutputLine :: "string list \<Rightarrow> bool \<Rightarrow> string \<Rightarrow> copy_state \<Rightarrow> copy_state" where
  "emitServiceOutputLine secrets logger message s =
     (let out = (\<lambda>msg s. (writeServiceLog logger msg s)\<lparr>cp_tail := tailAdd (cp_tail s) msg\<rparr>)
      in if cp_begin s then out ''<redacted-private-key>'' (s\<lparr>cp_inKey := \<not> cp_end s\<rparr>)
         else if cp_inKey s then (if cp_end s then s\<lparr>cp_inKey := False\<rparr> else s)
         else out (sanitizeLogTextWithSecrets secrets message) s)"

text \<open>One fragment: the marker flags look across fragments with an overlap of 64 bytes.\<close>

definition lastBytes :: "nat \<Rightarrow> string \<Rightarrow> string" where
  "lastBytes n s = drop (length s - n) s"

definition addFragment :: "string \<Rightarrow> copy_state \<Rightarrow> copy_state" where
  "addFragment fragment s =
     (if fragment = [] then s
      else
        let probe = cp_markerTail s @ fragment;
            s1 = s\<lparr>cp_begin := cp_begin s \<or> containsPrivateKeyMarker probe ''BEGIN'',
                   cp_end := cp_end s \<or> containsPrivateKeyMarker probe ''END'',
                   cp_markerTail := (if length probe > 64 then lastBytes 64 probe else probe)\<rparr>;
            remaining = maxServiceLogRecordBytes - length (cp_line s)
        in if cp_truncated s then s1
           else if length fragment > remaining
           then s1\<lparr>cp_line := cp_line s @ take remaining fragment, cp_truncated := True\<rparr>
           else s1\<lparr>cp_line := cp_line s @ fragment\<rparr>)"

text \<open>The end of a line.\<close>

definition endLine :: "string list \<Rightarrow> bool \<Rightarrow> copy_state \<Rightarrow> copy_state" where
  "endLine secrets logger s =
     (if cp_line s \<noteq> [] \<or> cp_truncated s then
        (let message = trimRight (cp_line s) [CHR 0x0D, CHR 0x0A] @ (if cp_truncated s then '' <truncated>'' else [])
         in (emitServiceOutputLine secrets logger message s)
              \<lparr>cp_line := [], cp_truncated := False, cp_begin := False, cp_end := False, cp_markerTail := []\<rparr>)
      else s)"

text \<open>
  \<open>bufio.Reader.ReadSlice\<close> with a buffer of 4096 bytes over the bytes still to come: a line, a full
  buffer without a newline, or the rest with the error that ended the stream.
\<close>

datatype slice = LineSlice string string | FullSlice string string | LastSlice string

definition readSlice :: "string \<Rightarrow> slice" where
  "readSlice data =
     (case indexByte (take serviceLogReadBuffer data) (CHR 0x0A) of
        Some i \<Rightarrow> LineSlice (take (Suc i) data) (drop (Suc i) data)
      | None \<Rightarrow> if length data < serviceLogReadBuffer then LastSlice data
                else FullSlice (take serviceLogReadBuffer data) (drop serviceLogReadBuffer data))"

lemma readSlice_shorter:
  "readSlice data = LineSlice f rest \<Longrightarrow> length rest < length data"
  "readSlice data = FullSlice f rest \<Longrightarrow> length rest < length data"
proof -
  assume "readSlice data = LineSlice f rest"
  then obtain i where "indexByte (take serviceLogReadBuffer data) (CHR 0x0A) = Some i" "rest = drop (Suc i) data"
    by (auto simp: readSlice_def split: option.splits if_splits)
  moreover from this have "i < length data" by (auto dest!: indexByte_Some)
  ultimately show "length rest < length data" by simp
next
  assume "readSlice data = FullSlice f rest"
  then show "length rest < length data"
    by (auto simp: readSlice_def serviceLogReadBuffer_def split: option.splits if_splits)
qed

text \<open>\<open>copyServiceOutputWithSecrets\<close>: \<open>err\<close> is the error that ends the stream, \<open>None\<close> for its end.\<close>

function copyServiceOutput :: "string list \<Rightarrow> bool \<Rightarrow> gerr option \<Rightarrow> string \<Rightarrow> copy_state \<Rightarrow> copy_state" where
  "copyServiceOutput secrets logger err data s =
     (case readSlice data of
        LineSlice f rest \<Rightarrow> copyServiceOutput secrets logger err rest (endLine secrets logger (addFragment f s))
      | FullSlice f rest \<Rightarrow> copyServiceOutput secrets logger err rest (addFragment f s)
      | LastSlice f \<Rightarrow>
          (case err of
             None \<Rightarrow> endLine secrets logger (addFragment f s)
           | Some e \<Rightarrow>
               (let message = sanitizeLogTextWithSecrets secrets (''service output capture failed: '' @ errMsg e);
                    s1 = addFragment f s;
                    s2 = (if logger then s1\<lparr>cp_logged := cp_logged s1 @ [(LError, message)]\<rparr> else s1)
                in s2\<lparr>cp_tail := tailAdd (cp_tail s2) message\<rparr>)))"
  by auto
termination
  by (relation "measure (\<lambda>(_, _, _, data, _). length data)") (auto dest: readSlice_shorter)

declare copyServiceOutput.simps [simp del]

definition newCopy :: copy_state where
  "newCopy = \<lparr>cp_line = [], cp_truncated = False, cp_inKey = False, cp_begin = False, cp_end = False,
     cp_markerTail = [], cp_logged = [], cp_tail = \<lparr>lt_summary = [], lt_content = []\<rparr>\<rparr>"

section \<open>The tail is bounded\<close>

lemma trimFront_length: "length (trimFrontToValid s) \<le> length s"
  by (induction s) auto

lemma trimBack_length: "length (trimBackToValid s) \<le> length s"
proof (induction s rule: trimBackToValid.induct)
  case (1 s)
  then show ?case by (subst trimBackToValid.simps) (auto simp: le_diff_conv)
qed

definition tailOk :: "log_tail \<Rightarrow> bool" where
  "tailOk t \<longleftrightarrow> length (lt_summary t) \<le> 512
     \<and> length (lt_content t) \<le> (if lt_summary t \<noteq> [] then 2048 - (length (lt_summary t) + 1) else 2048)"

lemma tailAdd_ok: "tailOk t \<Longrightarrow> tailOk (tailAdd t message)"
proof -
  have c: "length (truncateLogTailValue v n) \<le> n" for v n
    using trimFront_length[of "drop (length v - n) v"] by (auto simp: truncateLogTailValue_def)
  have s: "length (truncateLogSummary v n) \<le> n" for v n
    using trimBack_length[of "take n v"] by (auto simp: truncateLogSummary_def)
  assume t: "tailOk t"
  define u where "u = (if lt_summary t = [] \<and> (hasPrefix message ''panic:'' \<or> hasPrefix message ''fatal error:'')
    then truncateLogSummary message 512 else lt_summary t)"
  have u: "length u \<le> 512" using t s[of message 512] by (simp add: u_def tailOk_def)
  show ?thesis
  proof (cases "message = []")
    case False
    then have "lt_summary (tailAdd t message) = u"
      "\<exists>v. lt_content (tailAdd t message) = truncateLogTailValue v (if u \<noteq> [] then 2048 - (length u + 1) else 2048)"
      by (simp_all only: tailAdd_def Let_def u_def maxServiceLogTailBytes_def if_False log_tail.simps) auto
    then show ?thesis using u c by (auto simp only: tailOk_def)
  qed (simp add: tailAdd_def t)
qed

lemma tailOk_length: "tailOk t \<Longrightarrow> length (tailString t) \<le> 2048"
  by (auto simp: tailOk_def tailString_def newline_def split: if_splits)

section \<open>What reaches the logger\<close>

text \<open>
  Every message handed to the logger or the tail is a sanitised text or the fixed replacement of a
  private key. \<open>Q\<close> is any property of such messages and \<open>T\<close> of the tail they keep.
\<close>

lemma emit_invariant:
  assumes "Q ''<redacted-private-key>''" and "\<And>m. Q (sanitizeLogTextWithSecrets secrets m)"
    and "\<And>t m. T t \<Longrightarrow> Q m \<Longrightarrow> T (tailAdd t m)"
    and "\<forall>(l, m) \<in> set (cp_logged s). Q m" and "T (cp_tail s)"
  shows "(\<forall>(l, m) \<in> set (cp_logged (emitServiceOutputLine secrets logger message s)). Q m)
    \<and> T (cp_tail (emitServiceOutputLine secrets logger message s))"
  using assms by (auto simp: emitServiceOutputLine_def writeServiceLog_def Let_def)

lemma addFragment_keeps [simp]:
  "cp_logged (addFragment f s) = cp_logged s" "cp_tail (addFragment f s) = cp_tail s" "cp_inKey (addFragment f s) = cp_inKey s"
  by (simp_all add: addFragment_def Let_def)

lemma copy_invariant:
  assumes "Q ''<redacted-private-key>''" and "\<And>m. Q (sanitizeLogTextWithSecrets secrets m)"
    and "\<And>t m. T t \<Longrightarrow> Q m \<Longrightarrow> T (tailAdd t m)"
    and "\<forall>(l, m) \<in> set (cp_logged s). Q m" and "T (cp_tail s)"
  shows "(\<forall>(l, m) \<in> set (cp_logged (copyServiceOutput secrets logger err data s)). Q m)
    \<and> T (cp_tail (copyServiceOutput secrets logger err data s))"
  using assms(4,5)
proof (induction "length data" arbitrary: data s rule: less_induct)
  case less
  have e: "(\<forall>(l, m) \<in> set (cp_logged (endLine secrets logger u)). Q m) \<and> T (cp_tail (endLine secrets logger u))"
    if "\<forall>(l, m) \<in> set (cp_logged u). Q m" "T (cp_tail u)" for u
    using emit_invariant[of Q secrets T u, OF assms(1-3) that] that by (simp add: endLine_def Let_def)
  note ef = e[of "addFragment f s" for f, simplified, OF less.prems]
  show ?case
  proof (cases "readSlice data")
    case (LineSlice f rest)
    then show ?thesis
      using less.hyps[OF readSlice_shorter(1)[OF LineSlice] conjunct1[OF ef[of f]] conjunct2[OF ef[of f]]]
      by (subst (1 2) copyServiceOutput.simps) simp
  next
    case (FullSlice f rest)
    then show ?thesis using less.hyps[OF readSlice_shorter(2)[OF FullSlice], of "addFragment f s"] less.prems
      by (subst (1 2) copyServiceOutput.simps) simp
  next
    case (LastSlice f)
    then show ?thesis using ef assms(2,3) less.prems
      by (subst (1 2) copyServiceOutput.simps) (auto simp: Let_def split: option.splits)
  qed
qed

text \<open>
  The report of a failed worker stays small: whatever the worker wrote, in lines of any length,
  the tail kept of its output has at most 2048 bytes, the line that names the panic included.
\<close>

theorem log_tail_is_bounded:
  "length (tailString (cp_tail (copyServiceOutput secrets logger err data newCopy))) \<le> 2048"
proof -
  have n: "tailOk (cp_tail newCopy)" "\<forall>(l, m) \<in> set (cp_logged newCopy). True" by (simp_all add: newCopy_def tailOk_def)
  have "tailOk (cp_tail (copyServiceOutput secrets logger err data newCopy))"
    using copy_invariant[of "\<lambda>_. True" secrets tailOk newCopy, OF _ _ tailAdd_ok n(2,1)] by blast
  then show ?thesis by (rule tailOk_length)
qed

section \<open>No control characters\<close>

definition plainByte :: "char \<Rightarrow> bool" where
  "plainByte c = (c = CHR 0x09 \<or> c = CHR 0x0A \<or> (32 \<le> byte c \<and> byte c \<noteq> 127))"


lemma decodeRune_bytes:
  assumes "decodeRune s = Some (r, n)" and "c \<in> set (take n s)"
  shows "byte c = r \<or> 128 \<le> byte c"
proof -
  obtain b0 bs where s: "s = b0 # bs" using assms(1) by (cases s) auto
  show ?thesis
  proof (cases "byte b0 < 128")
    case True
    then have "n = 1" "r = byte b0" using assms(1) s by (auto simp: decodeRune_def)
    then show ?thesis using assms(2) s by simp
  next
    case False
    then obtain b1 bs1 where b1: "bs = b1 # bs1" using assms(1) s
      by (cases bs) (simp_all add: decodeRune_def split: if_splits)
    consider "n = 2" "isCont (byte b1)"
      | b2 bs2 where "n = 3" "bs1 = b2 # bs2" "isCont (byte b1)" "isCont (byte b2)"
      | b2 b3 bs3 where "n = 4" "bs1 = b2 # b3 # bs3" "isCont (byte b1)" "isCont (byte b2)" "isCont (byte b3)"
      using assms(1) s b1 False
      by (cases bs1; cases "tl bs1") (simp_all add: decodeRune_def split: if_splits)
    then show ?thesis
      by cases (use assms(2) s b1 False in \<open>auto simp: isCont_def\<close>)
  qed
qed

lemma keepRune_plain: "keepRune r \<Longrightarrow> byte c = r \<Longrightarrow> plainByte c"
proof -
  assume k: "keepRune r" "byte c = r"
  have c: "c = char_of r" using k(2) by (simp add: byte_def flip: k(2))
  have "char_of (10 :: int) = CHR 0x0A" "char_of (9 :: int) = CHR 0x09" by code_simp+
  then show ?thesis using k c by (auto simp: keepRune_def plainByte_def)
qed

lemma mapRunes_plain: "\<forall>c \<in> set (mapRunes keepRune s). plainByte c"
proof (induction keepRune s rule: mapRunes.induct)
  case (1 s)
  have hi: "plainByte c" if "128 \<le> byte c" for c using that by (simp add: plainByte_def)
  have e: "\<forall>c \<in> set runeError. plainByte c" by (simp add: runeError_def plainByte_def byte_def)
  show ?case
  proof (cases "s = []")
    case True
    then show ?thesis by (simp add: mapRunes.simps)
  next
    case False
    show ?thesis
    proof (cases "decodeRune s")
      case None
      then show ?thesis using 1(1)[OF False None] e False by (subst mapRunes.simps) auto
    next
      case (Some p)
      then obtain r n where p: "decodeRune s = Some (r, n)" by (cases p) auto
      have "plainByte c" if "keepRune r" "c \<in> set (take n s)" for c
        using decodeRune_bytes[OF p that(2)] keepRune_plain[OF that(1)] hi by blast
      then show ?thesis using 1(2)[OF False p refl] False p by (subst mapRunes.simps) auto
    qed
  qed
qed

lemma replace_plain:
  assumes "\<And>caps. (\<forall>n t. (n, t) \<in> set caps \<longrightarrow> set t \<subseteq> Collect plainByte) \<Longrightarrow> set (repl caps) \<subseteq> Collect plainByte"
    and "set s \<subseteq> Collect plainByte"
  shows "set (ReplaceAllString r repl s) \<subseteq> Collect plainByte"
proof -
  have "set s \<subseteq> Collect plainByte \<longrightarrow> set (replaceRegex r repl [] s) \<subseteq> Collect plainByte"
    by (rule replaceRegex_chars) (rule assms(1))
  then show ?thesis using assms(2) by (simp add: ReplaceAllString_def)
qed

lemma group_plain:
  "\<forall>n t. (n, t) \<in> set caps \<longrightarrow> set t \<subseteq> Collect plainByte \<Longrightarrow> set (groupText caps n) \<subseteq> Collect plainByte"
  by (cases "map_of caps n") (auto simp: groupText_def dest!: map_of_SomeD)

lemma fixed_plain:
  "set ''<redacted-private-key>'' \<subseteq> Collect plainByte" "set ''<redacted-token>'' \<subseteq> Collect plainByte"
  "set ''/_mr/<redacted>'' \<subseteq> Collect plainByte" "set ''<redacted-encoded-secret>'' \<subseteq> Collect plainByte"
  "set ''<redacted>'' \<subseteq> Collect plainByte" "set [CHR 0x22] \<subseteq> Collect plainByte"
  by (simp_all add: plainByte_def byte_def)

lemma sanitized_plain: "set (sanitizeLogText message) \<subseteq> Collect plainByte"
  unfolding sanitizeLogText_def Let_def
proof (intro replace_plain)
  show "set (mapRunes keepRune message) \<subseteq> Collect plainByte" using mapRunes_plain by blast
qed (use group_plain fixed_plain in \<open>simp_all add: Un_least\<close>)

section \<open>Configured secrets\<close>

text \<open>The words the redaction writes inside angle brackets.\<close>

definition redactWords :: "string list" where
  "redactWords = [''redacted'', ''redacted-private-key'', ''redacted-token'', ''redacted-encoded-secret'']"

text \<open>
  A secret the redaction can keep out of any text: non-empty, without angle brackets, and not part of
  a word the redaction writes itself.
\<close>

definition redactable :: "string \<Rightarrow> bool" where
  "redactable s \<longleftrightarrow> s \<noteq> [] \<and> CHR ''<'' \<notin> set s \<and> CHR ''>'' \<notin> set s \<and> list_all (\<lambda>w. \<not> sublist s w) redactWords"

lemma redactable_words:
  assumes "redactable s"
  shows "s \<noteq> []" "CHR ''<'' \<notin> set s" "CHR ''>'' \<notin> set s"
    "\<not> sublist s ''redacted''" "\<not> sublist s ''redacted-private-key''" "\<not> sublist s ''redacted-token''"
    "\<not> sublist s ''redacted-encoded-secret''"
  using assms by (simp_all add: redactable_def redactWords_def)

lemma ReplaceAllString_no_word:
  assumes "bracketed r repl w" and "redactable s" and "\<not> sublist s w" and "\<not> sublist s t"
  shows "\<not> sublist s (ReplaceAllString r repl t)"
  using replaceRegex_no_word[OF assms(1) redactable_words(2,3)[OF assms(2)], of "[]" "[]" t] assms(3,4)
  by (simp add: ReplaceAllString_def)

lemma matchAt_rmatch:
  assumes "matchAt r before (m @ rest) = Some (m, caps, rest)"
  shows "(rev m @ before, rest, caps) \<in> set (rmatch r (before, m @ rest, []))"
  using matchAt_Some(2)[OF assms] .

lemma bracketed_cacheTokenPath: "bracketed cacheTokenPath (\<lambda>_. ''/_mr/<redacted>'') ''redacted''"
  unfolding bracketed_def
proof (intro allI impI)
  fix before m caps rest
  assume "matchAt cacheTokenPath before (m @ rest) = Some (m, caps, rest) \<and> m \<noteq> []"
  then have "(rev m @ before, rest, caps) \<in> set (rmatch cacheTokenPath (before, m @ rest, []))" by (intro matchAt_rmatch) simp
  then obtain mid where a: "mid \<in> set (rmatch (lit ''/_mr/'') (before, m @ rest, []))"
    and b: "(rev m @ before, rest, caps) \<in> set (rmatch (atLeast 1 (\<lambda>c. \<not> redactSpace c \<and> c \<noteq> CHR ''/'' \<and> c \<noteq> CHR ''?'')) mid)"
    unfolding cacheTokenPath_def seqs.simps by (rule rmatch_SeqE)
  obtain x where x: "fst (snd mid) = x @ rest" using rmatch_split[OF b] by auto
  have "m @ rest = ''/_mr/'' @ x @ rest" using rmatch_lit[OF a] x by simp
  then have "m = ''/_mr/'' @ x @ []" by (metis append.assoc append_Nil2 append_same_eq)
  then show "\<exists>k x q. m = k @ x @ q \<and> ''/_mr/<redacted>'' = k @ ''<'' @ ''redacted'' @ ''>'' @ q"
    by (intro exI[of _ "''/_mr/''"] exI[of _ x] exI[of _ "[]"]) simp
qed

lemma bracketed_JSON:
  "bracketed sensitiveJSONValue (\<lambda>caps. groupText caps 1 @ [CHR 0x22] @ ''<redacted>'' @ [CHR 0x22]) ''redacted''"
  unfolding bracketed_def
proof (intro allI impI)
  fix before m caps rest
  let ?g = "seqs [lit [CHR 0x22], sensitiveName, lit [CHR 0x22], many redactSpace, lit '':'', many redactSpace]"
  assume "matchAt sensitiveJSONValue before (m @ rest) = Some (m, caps, rest) \<and> m \<noteq> []"
  then have "(rev m @ before, rest, caps) \<in> set (rmatch sensitiveJSONValue (before, m @ rest, []))" by (intro matchAt_rmatch) simp
  then obtain s1 where s1: "s1 \<in> set (rmatch (Grp 1 ?g) (before, m @ rest, []))"
    and r1: "(rev m @ before, rest, caps) \<in> set (rmatch (seqs [lit [CHR 0x22], many (\<lambda>c. c \<noteq> CHR 0x22), lit [CHR 0x22]]) s1)"
    unfolding sensitiveJSONValue_def seqs.simps by (rule rmatch_SeqE)
  from r1 obtain s2 where s2: "s2 \<in> set (rmatch (lit [CHR 0x22]) s1)"
    and r2: "(rev m @ before, rest, caps) \<in> set (rmatch (Seq (many (\<lambda>c. c \<noteq> CHR 0x22)) (lit [CHR 0x22])) s2)"
    unfolding seqs.simps by (rule rmatch_SeqE)
  from r2 obtain s3 where s3: "s3 \<in> set (rmatch (many (\<lambda>c. c \<noteq> CHR 0x22)) s2)"
    and r3: "(rev m @ before, rest, caps) \<in> set (rmatch (lit [CHR 0x22]) s3)" by (rule rmatch_SeqE)
  have "groupFree ?g" by (simp add: sensitiveName_def lit_def litFold_def)
  from rmatch_Grp[OF s1 this] obtain g where g: "m @ rest = g @ fst (snd s1)" "snd (snd s1) = [(1, g)]" by auto
  obtain x where x: "fst (snd s2) = x @ fst (snd s3)" using rmatch_split[OF s3] by auto
  have c3: "snd (snd s3) = snd (snd s2)" by (rule rmatch_groupFree[OF _ s3]) simp
  have l: "fst (snd s1) = CHR 0x22 # fst (snd s2)" "snd (snd s2) = snd (snd s1)"
    "fst (snd s3) = CHR 0x22 # rest" "caps = snd (snd s3)"
    using rmatch_lit[OF s2] rmatch_lit[OF r3] by simp_all
  have "m @ rest = ((g @ [CHR 0x22]) @ x @ [CHR 0x22]) @ rest" using g(1) l(1,3) x by simp
  then have m: "m = (g @ [CHR 0x22]) @ x @ [CHR 0x22]" by (rule append_same_eq[THEN iffD1])
  have "caps = [(1, g)]" using l c3 g(2) by simp
  then have "groupText caps 1 = g" by (simp add: groupText_def)
  then show "\<exists>k x q. m = k @ x @ q
      \<and> groupText caps 1 @ [CHR 0x22] @ ''<redacted>'' @ [CHR 0x22] = k @ ''<'' @ ''redacted'' @ ''>'' @ q"
    using m by (intro exI[of _ "g @ [CHR 0x22]"] exI[of _ x] exI[of _ "[CHR 0x22]"]) simp
qed

lemma bracketed_assignment:
  "bracketed sensitiveAssignment (\<lambda>caps. groupText caps 1 @ groupText caps 2 @ ''<redacted>'') ''redacted''"
  unfolding bracketed_def
proof (intro allI impI)
  fix before m caps rest
  let ?e = "seqs [many redactSpace, lit ''='', many redactSpace]"
  let ?v = "alts [seqs [lit [CHR 0x22], many (\<lambda>c. c \<noteq> CHR 0x22), lit [CHR 0x22]],
            seqs [lit [CHR 0x27], many (\<lambda>c. c \<noteq> CHR 0x27), lit [CHR 0x27]],
            atLeast 1 (\<lambda>c. \<not> redactSpace c \<and> c \<noteq> CHR '','' \<and> c \<noteq> CHR '';'')]"
  assume "matchAt sensitiveAssignment before (m @ rest) = Some (m, caps, rest) \<and> m \<noteq> []"
  then have "(rev m @ before, rest, caps) \<in> set (rmatch sensitiveAssignment (before, m @ rest, []))" by (intro matchAt_rmatch) simp
  then obtain s0 where s0: "s0 \<in> set (rmatch Bound (before, m @ rest, []))"
    and r0: "(rev m @ before, rest, caps) \<in> set (rmatch (seqs [Grp 1 sensitiveName, Grp 2 ?e, ?v]) s0)"
    unfolding sensitiveAssignment_def seqs.simps by (rule rmatch_SeqE)
  from r0 obtain s1 where s1: "s1 \<in> set (rmatch (Grp 1 sensitiveName) s0)"
    and r1: "(rev m @ before, rest, caps) \<in> set (rmatch (Seq (Grp 2 ?e) ?v) s1)"
    unfolding seqs.simps by (rule rmatch_SeqE)
  from r1 obtain s2 where s2: "s2 \<in> set (rmatch (Grp 2 ?e) s1)"
    and r2: "(rev m @ before, rest, caps) \<in> set (rmatch ?v s2)" by (rule rmatch_SeqE)
  have s0': "s0 = (before, m @ rest, [])" using s0 by (simp split: if_splits)
  have f: "groupFree sensitiveName" "groupFree ?e" "groupFree ?v"
    by (simp_all add: sensitiveName_def lit_def litFold_def)
  from rmatch_Grp[OF s1 f(1)] s0' obtain g where g: "m @ rest = g @ fst (snd s1)" "snd (snd s1) = [(1, g)]" by auto
  from rmatch_Grp[OF s2 f(2)] g(2) obtain h where h: "fst (snd s1) = h @ fst (snd s2)" "snd (snd s2) = [(2, h), (1, g)]" by auto
  obtain x where x: "fst (snd s2) = x @ rest" using rmatch_split[OF r2] by auto
  have "caps = [(2, h), (1, g)]" using rmatch_groupFree[OF f(3) r2] h(2) by simp
  then have t: "groupText caps 1 = g" "groupText caps 2 = h" by (simp_all add: groupText_def)
  have "m @ rest = ((g @ h) @ x @ []) @ rest" using g(1) h(1) x by simp
  then have m: "m = (g @ h) @ x @ []" by (rule append_same_eq[THEN iffD1])
  then show "\<exists>k x q. m = k @ x @ q
      \<and> groupText caps 1 @ groupText caps 2 @ ''<redacted>'' = k @ ''<'' @ ''redacted'' @ ''>'' @ q"
    using t by (intro exI[of _ "g @ h"] exI[of _ x] exI[of _ "[]"]) simp
qed

lemma sanitize_no_word:
  assumes "redactable s" and "\<not> sublist s (mapRunes keepRune message)"
  shows "\<not> sublist s (sanitizeLogText message)"
proof -
  note w = redactable_words[OF assms(1)]
  note step = ReplaceAllString_no_word[OF _ assms(1)]
  have c: "bracketed r (\<lambda>_. ''<redacted-private-key>'') ''redacted-private-key''"
    "bracketed r (\<lambda>_. ''<redacted-token>'') ''redacted-token''"
    "bracketed r (\<lambda>_. ''<redacted-encoded-secret>'') ''redacted-encoded-secret''" for r
    using bracketed_const[of r "''redacted-private-key''"] bracketed_const[of r "''redacted-token''"]
      bracketed_const[of r "''redacted-encoded-secret''"] by simp_all
  show ?thesis unfolding sanitizeLogText_def Let_def
    by (intro step[OF bracketed_assignment w(4)] step[OF bracketed_JSON w(4)] step[OF c(3) w(7)]
        step[OF bracketed_cacheTokenPath w(4)] step[OF c(2) w(6)] step[OF c(1) w(5)] assms(2))
qed

lemma redactSecrets_keeps:
  "redactable s \<Longrightarrow> \<not> sublist s message \<Longrightarrow> \<not> sublist s (redactSecrets secrets message)"
proof (induction secrets arbitrary: message)
  case (Cons secret secrets)
  note w = redactable_words[OF Cons.prems(1)]
  have "\<not> sublist s (replaceAll secret ''<redacted>'' message)" if "secret \<noteq> []"
    using replaceAll_no_word[OF w(2,3) that, of "[]" "''redacted''" message] w(4) Cons.prems(2) by simp
  then show ?case using Cons by simp
qed simp

lemma redactSecrets_removes:
  "redactable s \<Longrightarrow> s \<in> set secrets \<Longrightarrow> \<not> sublist s (redactSecrets secrets message)"
proof (induction secrets arbitrary: message)
  case (Cons secret secrets)
  note w = redactable_words[OF Cons.prems(1)]
  show ?case
  proof (cases "secret = s")
    case True
    then have "\<not> sublist s (replaceAll s ''<redacted>'' message)"
      using replaceAll_removes[OF w(2,3,1,4), of message] by simp
    then show ?thesis using redactSecrets_keeps[OF Cons.prems(1)] True w(1) by simp
  next
    case False
    then show ?thesis using Cons by simp
  qed
qed simp

definition asciiText :: "string \<Rightarrow> bool" where
  "asciiText s = list_all (\<lambda>c. plainByte c \<and> byte c < 127) s"

lemma mapRunes_ascii: "asciiText s \<Longrightarrow> mapRunes keepRune s = s"
proof (induction s)
  case (Cons c s)
  then have c: "plainByte c" "byte c < 127" by (simp_all add: asciiText_def)
  have "byte (CHR 0x09) = 9" "byte (CHR 0x0A) = 10" by (simp_all add: byte_def)
  then have "keepRune (byte c)" using c by (auto simp: keepRune_def plainByte_def formatRune_def)
  moreover have "decodeRune (c # s) = Some (byte c, 1)" using c by (simp add: decodeRune_def)
  ultimately show ?case using Cons by (subst mapRunes.simps) (simp add: asciiText_def)
qed (simp add: mapRunes.simps)

lemma redactSecrets_ascii: "asciiText message \<Longrightarrow> asciiText (redactSecrets secrets message)"
proof (induction secrets arbitrary: message)
  case (Cons secret secrets)
  have "asciiText ''<redacted>''" by (simp add: asciiText_def plainByte_def byte_def)
  then have "asciiText (replaceAll secret ''<redacted>'' message)"
    using replaceAll_chars[of secret "''<redacted>''" message] Cons.prems
    by (auto simp: asciiText_def list_all_iff)
  then show ?case using Cons by simp
qed simp



text \<open>
  The restriction to such texts is needed: control characters are removed after the secrets were
  looked for, so a secret with a control byte inside it comes out whole.
\<close>

theorem control_byte_defeats_redaction:
  "sanitizeLogTextWithSecrets [''hunter2''] (''hun'' @ [CHR 0x01] @ ''ter2'') = ''hunter2''"
  by code_simp

end
