(* ===== verification/Service_Host.thy ===== *)
theory Service_Host
  imports Service_Log Config
begin

text \<open>
  The service around the orchestrator: the failure history that detects a crash loop
  (\<open>internal/servicehost/failures.go\<close>), the lifecycle of the service program
  (\<open>cmd/multirunner/service_lifecycle.go\<close> and \<open>runService\<close> of \<open>main.go\<close>), the supervisor of the
  worker process (\<open>service_supervisor.go\<close>, \<open>service_process_unix.go\<close>) and the worker's start
  (\<open>service_worker.go\<close>). Process and file system calls are given by their outcomes. Times are
  nanoseconds.
\<close>

section \<open>The failure history\<close>

definition maxFailureExits :: nat where
  "maxFailureExits = 3"

definition FailureExitCode :: int where
  "FailureExitCode = 1"

definition FailureWindow :: int where
  "FailureWindow = 600000000000"

definition CrashLoopFailureCount :: nat where
  "CrashLoopFailureCount = maxFailureExits + 1"

record failure_history =
  fh_Failures :: "int list"
  fh_LastError :: string

record failure_status =
  fs_Count :: nat
  fs_LastFailure :: int
  fs_LastError :: string

definition noFailures :: failure_history where
  "noFailures = \<lparr>fh_Failures = [], fh_LastError = []\<rparr>"

text \<open>The state file: absent, unreadable, not JSON, or a history.\<close>

datatype failure_file = NoFile | Unreadable gerr | Garbled gerr | Stored failure_history

definition readFailureHistory :: "failure_file \<Rightarrow> gerr + failure_history" where
  "readFailureHistory f =
     (case f of
        NoFile \<Rightarrow> Inr noFailures
      | Unreadable e \<Rightarrow> Inl (errorf ''read service failure state: '' e)
      | Garbled e \<Rightarrow> Inl (errorf ''parse service failure state: '' e)
      | Stored h \<Rightarrow> Inr h)"

definition recentFailures :: "int list \<Rightarrow> int \<Rightarrow> int list" where
  "recentFailures failures now = filter (\<lambda>t. now - FailureWindow < t \<and> t \<le> now) failures"

definition truncateSummary :: "string \<Rightarrow> string" where
  "truncateSummary summary = (if length summary \<le> 2048 then summary else take 2048 summary)"

text \<open>
  Writing: the outcomes of creating the temporary file, its mode, write, sync and close, and of the
  rename that replaces the state file. JSON replaces bytes that are no UTF-8 in the text; the
  times come back as they are.
\<close>

record write_outcome =
  wo_create :: "gerr option"
  wo_chmod :: "gerr option"
  wo_write :: "gerr option"
  wo_sync :: "gerr option"
  wo_close :: "gerr option"
  wo_rename :: "gerr option"

definition jsonHistory :: "failure_history \<Rightarrow> failure_history" where
  "jsonHistory h = h\<lparr>fh_LastError := mapRunes (\<lambda>_. True) (fh_LastError h)\<rparr>"

definition writeFailureHistory :: "write_outcome \<Rightarrow> failure_history \<Rightarrow> failure_file \<Rightarrow> gerr option \<times> failure_file" where
  "writeFailureHistory wo h f =
     (case firstErr
             [map_option (errorf ''create service failure state: '') (wo_create wo),
              map_option (errorf ''secure service failure state: '') (wo_chmod wo),
              map_option (errorf ''write service failure state: '') (wo_write wo),
              map_option (errorf ''sync service failure state: '') (wo_sync wo),
              map_option (errorf ''close service failure state: '') (wo_close wo),
              map_option (errorf ''replace service failure state: '') (wo_rename wo)] of
        Some e \<Rightarrow> (Some e, f)
      | None \<Rightarrow> (None, Stored (jsonHistory h)))"

definition RecordFailure :: "write_outcome \<Rightarrow> int \<Rightarrow> string \<Rightarrow> failure_file \<Rightarrow> gerr option \<times> failure_file" where
  "RecordFailure wo now summary f =
     (case readFailureHistory f of
        Inl e \<Rightarrow> (Some e, f)
      | Inr h \<Rightarrow>
          writeFailureHistory wo
            \<lparr>fh_Failures = recentFailures (fh_Failures h) now @ [now], fh_LastError = truncateSummary summary\<rparr> f)"

definition ReadFailureStatus :: "int \<Rightarrow> failure_file \<Rightarrow> gerr + failure_status" where
  "ReadFailureStatus now f =
     (case readFailureHistory f of
        Inl e \<Rightarrow> Inl e
      | Inr h \<Rightarrow>
          (let recent = recentFailures (fh_Failures h) now
           in if recent = [] then Inr \<lparr>fs_Count = 0, fs_LastFailure = 0, fs_LastError = []\<rparr>
              else Inr \<lparr>fs_Count = length recent, fs_LastFailure = last recent, fs_LastError = fh_LastError h\<rparr>))"

definition FailureCount :: "int \<Rightarrow> failure_file \<Rightarrow> gerr + nat" where
  "FailureCount now f = (case ReadFailureStatus now f of Inl e \<Rightarrow> Inl e | Inr st \<Rightarrow> Inr (fs_Count st))"

text \<open>\<open>rm\<close> is the outcome of removing an existing file.\<close>

definition ClearFailures :: "gerr option \<Rightarrow> failure_file \<Rightarrow> gerr option \<times> failure_file" where
  "ClearFailures rm f =
     (case f of NoFile \<Rightarrow> (None, NoFile) | _ \<Rightarrow> (case rm of None \<Rightarrow> (None, NoFile) | Some e \<Rightarrow> (Some e, f)))"

section \<open>The supervisor\<close>

definition serviceWorkerMarkerEnv :: string where
  "serviceWorkerMarkerEnv = ''MULTIRUNNER_INTERNAL_SERVICE_WORKER''"

definition serviceWorkerMarkerValue :: string where
  "serviceWorkerMarkerValue = ''supervised-v1''"

definition serviceWorkerConfigEnv :: string where
  "serviceWorkerConfigEnv = ''MULTIRUNNER_INTERNAL_SERVICE_CONFIG''"

definition serviceWorkerInstallDepsEnv :: string where
  "serviceWorkerInstallDepsEnv = ''MULTIRUNNER_INTERNAL_SERVICE_INSTALL_DEPS''"

definition serviceWorkerInteractiveEnv :: string where
  "serviceWorkerInteractiveEnv = ''MULTIRUNNER_INTERNAL_SERVICE_INTERACTIVE''"

definition internalNames :: "string list" where
  "internalNames = [serviceWorkerMarkerEnv, serviceWorkerConfigEnv, serviceWorkerInstallDepsEnv, serviceWorkerInteractiveEnv]"

fun withoutServiceWorkerEnvironment :: "string list \<Rightarrow> string list" where
  "withoutServiceWorkerEnvironment [] = []"
| "withoutServiceWorkerEnvironment (e # environment) =
     (if toUpper (envName e) \<in> set internalNames then withoutServiceWorkerEnvironment environment
      else e # withoutServiceWorkerEnvironment environment)"

definition formatBool :: "bool \<Rightarrow> string" where
  "formatBool b = (if b then ''true'' else ''false'')"

definition isSensitiveEnvironmentName :: "string \<Rightarrow> bool" where
  "isSensitiveEnvironmentName name =
     (let upper = toUpper name
      in list_ex (\<lambda>part. contains upper part)
           [''TOKEN'', ''SECRET'', ''PASSWORD'', ''CREDENTIAL'', ''JIT_CONFIG'', ''AUTHORIZATION'', ''API_KEY'', ''ACCESS_KEY''])"

text \<open>\<open>keyFile\<close> is the private key file if it is configured and readable.\<close>

definition keyLines :: "string \<Rightarrow> string list" where
  "keyLines key =
     filter (\<lambda>l. length l \<ge> 16 \<and> \<not> contains l ''PRIVATE KEY-----'') (map trimSpace (splitOn (CHR 0x0A) key))"

definition environmentSecrets :: "string list \<Rightarrow> string list" where
  "environmentSecrets env =
     map (\<lambda>e. fst (snd (cutAt e (CHR ''=''))))
       (filter (\<lambda>e. case cutAt e (CHR ''='') of (name, v, found) \<Rightarrow>
                      found \<and> length v \<ge> 4 \<and> isSensitiveEnvironmentName name) env)"

fun dedupe :: "string list \<Rightarrow> string list \<Rightarrow> string list" where
  "dedupe seen [] = []"
| "dedupe seen (x # xs) =
     (if x = [] \<or> x \<in> set seen then dedupe seen xs else x # dedupe (x # seen) xs)"

definition collectedSecrets :: "config \<Rightarrow> string option \<Rightarrow> string list \<Rightarrow> string list" where
  "collectedSecrets cfg keyFile env =
     [Config.au_PAT (cf_Auth cfg), wh_Secret (cf_Webhook cfg), ca_AccessToken (cf_Cache cfg)]
       @ (if au_PrivateKeyPath (cf_Auth cfg) \<noteq> []
          then (case keyFile of None \<Rightarrow> [] | Some key \<Rightarrow> key # keyLines key) else [])
       @ environmentSecrets env"

text \<open>As in \<open>redactingSecrets\<close>, equally long secrets keep their order.\<close>

definition serviceRedactionSecrets :: "config \<Rightarrow> string option \<Rightarrow> string list \<Rightarrow> string list" where
  "serviceRedactionSecrets cfg keyFile env =
     dedupe [] (sort_key (\<lambda>s. - int (length s)) (collectedSecrets cfg keyFile env))"

record process_spec =
  sp_path :: string
  sp_env :: "string list"
  sp_secrets :: "string list"

text \<open>\<open>exe\<close> and \<open>load\<close> are the outcomes of \<open>os.Executable\<close> and of loading the configuration.\<close>

definition newServiceWorkerSpec ::
  "gerr + string \<Rightarrow> gerr + config \<Rightarrow> string option \<Rightarrow> string list \<Rightarrow> string \<Rightarrow> bool \<Rightarrow> bool \<Rightarrow> gerr + process_spec" where
  "newServiceWorkerSpec exe load keyFile env configPath interactive installDeps =
     (case exe of
        Inl e \<Rightarrow> Inl (errorf ''locate service executable: '' e)
      | Inr path \<Rightarrow>
          (case load of
             Inl e \<Rightarrow> Inl e
           | Inr cfg \<Rightarrow>
               Inr \<lparr>sp_path = path,
                    sp_env = withoutServiceWorkerEnvironment env
                      @ [serviceWorkerMarkerEnv @ ''='' @ serviceWorkerMarkerValue,
                         serviceWorkerConfigEnv @ ''='' @ configPath,
                         serviceWorkerInstallDepsEnv @ ''='' @ formatBool installDeps,
                         serviceWorkerInteractiveEnv @ ''='' @ formatBool interactive],
                    sp_secrets = serviceRedactionSecrets cfg keyFile env\<rparr>))"

text \<open>How the worker process ended: by a signal or with an exit code, if its state is known.\<close>

datatype exit_status = Signaled string | Exited int

definition describeSupervisedProcessExit :: "exit_status option \<Rightarrow> gerr \<Rightarrow> string" where
  "describeSupervisedProcessExit st waitErr =
     (case st of
        Some (Signaled sig) \<Rightarrow> ''service_worker_exit signal='' @ sig
      | Some (Exited code) \<Rightarrow> ''service_worker_exit exit_code='' @ formatInt code
      | None \<Rightarrow> ''service_worker_exit error='' @ sanitizeLogText (errMsg waitErr))"

definition supervisedProcessError :: "string \<Rightarrow> string \<Rightarrow> gerr" where
  "supervisedProcessError reason tail =
     Leaf (if tail = [] then reason else reason @ newline @ ''output_tail:'' @ newline @ tail)"

text \<open>
  One run of the worker: the outcomes of the steps that start it, what it wrote, and how it ended.
  It ends by itself, with the error of \<open>Wait\<close> and its state if known, or is stopped because the
  context was cancelled while it ran: it stops within the timeout, or the process group is killed
  (with the outcome of that) and \<open>Wait\<close> then comes back in time or not.
\<close>

datatype stop_course =
    StopsInTime "gerr option"
  | Overdue "gerr option" "gerr option option"

datatype worker_ending = EndsItself "gerr option" "exit_status option" | StoppedByContext stop_course

record worker_run =
  wr_pipe :: "gerr option"
  wr_stdin :: "gerr option"
  wr_start :: "gerr option"
  wr_attach :: "gerr option"
  wr_output :: string
  wr_outputErr :: "gerr option"
  wr_ending :: worker_ending
  wr_drained :: bool

text \<open>What the supervisor does to the worker, in order.\<close>

datatype supervisor_call =
    CloseReader | CloseWriter | CloseStdin | KillProcess | WaitProcess | KillGroup | CloseGroup

definition outputTail :: "string list \<Rightarrow> worker_run \<Rightarrow> string" where
  "outputTail secrets r =
     tailString (cp_tail (copyServiceOutput secrets True (wr_outputErr r) (wr_output r) newCopy))"

definition stopSupervisedProcess :: "stop_course \<Rightarrow> gerr option \<times> supervisor_call list" where
  "stopSupervisedProcess c =
     (case c of
        StopsInTime e \<Rightarrow> (e, [])
      | Overdue killErr after \<Rightarrow>
          (case after of
             Some e \<Rightarrow> e
           | None \<Rightarrow> Some (Leaf ''service worker did not exit after forced termination''),
           KillGroup # (if killErr \<noteq> None then [KillProcess] else [])))"

definition waitForServiceOutput :: "bool \<Rightarrow> supervisor_call list" where
  "waitForServiceOutput drained = (if drained then [] else [CloseReader])"

text \<open>The part after the worker was started and contained; the deferred calls come last.\<close>

definition superviseRunning :: "process_spec \<Rightarrow> worker_run \<Rightarrow> gerr option \<times> supervisor_call list" where
  "superviseRunning spec r =
     (let (intentionalStop, stopCalls) =
            (case wr_ending r of
               EndsItself _ _ \<Rightarrow> (False, [])
             | StoppedByContext c \<Rightarrow> (True, CloseStdin # snd (stopSupervisedProcess c)));
          calls = [CloseWriter] @ stopCalls @ [CloseStdin, KillGroup] @ waitForServiceOutput (wr_drained r)
                    @ [CloseGroup, CloseReader];
          err = (case wr_ending r of
                   StoppedByContext _ \<Rightarrow> None
                 | EndsItself None st \<Rightarrow>
                     Some (supervisedProcessError ''service_worker_exit exit_code=0 unexpected=true'' (outputTail (sp_secrets spec) r))
                 | EndsItself (Some e) st \<Rightarrow>
                     Some (supervisedProcessError (describeSupervisedProcessExit st e) (outputTail (sp_secrets spec) r)))
      in (if intentionalStop then None else err, calls))"

definition superviseProcess :: "process_spec \<Rightarrow> worker_run \<Rightarrow> gerr option \<times> supervisor_call list" where
  "superviseProcess spec r =
     (if sp_path spec = [] then (Some (Leaf ''service worker path is empty''), [])
      else case wr_pipe r of
        Some e \<Rightarrow> (Some (errorf ''create service output pipe: '' e), [])
      | None \<Rightarrow>
          (case wr_stdin r of
             Some e \<Rightarrow> (Some (errorf ''create service control pipe: '' e), [CloseWriter, CloseReader])
           | None \<Rightarrow>
               (case wr_start r of
                  Some e \<Rightarrow> (Some (errorf ''start service worker: '' e), [CloseStdin, CloseWriter, CloseReader])
                | None \<Rightarrow>
                    (case wr_attach r of
                       Some e \<Rightarrow> (Some (errorf ''contain service worker: '' e),
                                   [KillProcess, WaitProcess, CloseStdin, CloseWriter, CloseReader])
                     | None \<Rightarrow> superviseRunning spec r))))"

text \<open>The result of the program's \<open>run\<close>: no error, \<open>recoveryExhaustedError\<close>, another error, or a panic.\<close>

datatype run_result = RunOk | RunExhausted nat | RunError gerr | RunPanic string string

definition superviseServiceWorker ::
  "bool \<Rightarrow> int \<Rightarrow> failure_file \<Rightarrow> gerr + process_spec \<Rightarrow> worker_run \<Rightarrow> run_result" where
  "superviseServiceWorker interactive now f spec r =
     (let worker = (case spec of
                      Inl e \<Rightarrow> RunError e
                    | Inr sp \<Rightarrow> (case fst (superviseProcess sp r) of None \<Rightarrow> RunOk | Some e \<Rightarrow> RunError e))
      in if interactive then worker
         else case FailureCount now f of
                Inl e \<Rightarrow> RunError (errorf ''read service recovery state: '' e)
              | Inr n \<Rightarrow> if n \<ge> CrashLoopFailureCount then RunExhausted n else worker)"

section \<open>The service program\<close>

text \<open>
  The part of \<open>program\<close> under its mutex, with a termination that was decided but not carried out,
  and the exit code once the process has ended. \<open>pg_done\<close> is \<open>None\<close> before \<open>Start\<close> and then tells
  whether the orchestrator goroutine is done.
\<close>

datatype exit_decision = ExitFailure string | ExitClean string

record program =
  pg_interactive :: bool
  pg_done :: "bool option"
  pg_cancelled :: bool
  pg_stopping :: bool
  pg_pending :: "exit_decision option"
  pg_exit :: "int option"
  pg_file :: failure_file
  pg_log :: "string list"

definition newProgram :: "bool \<Rightarrow> failure_file \<Rightarrow> program" where
  "newProgram interactive f =
     \<lparr>pg_interactive = interactive, pg_done = None, pg_cancelled = False, pg_stopping = False,
      pg_pending = None, pg_exit = None, pg_file = f, pg_log = []\<rparr>"

definition progStart :: "program \<Rightarrow> gerr option \<times> program" where
  "progStart p =
     (if pg_done p \<noteq> None then (Some (Leaf ''orchestrator already started''), p)
      else (None, p\<lparr>pg_done := Some False, pg_cancelled := False, pg_stopping := False\<rparr>))"

definition progFail :: "string \<Rightarrow> gerr \<Rightarrow> program \<Rightarrow> program" where
  "progFail message err p =
     (if pg_stopping p \<or> pg_cancelled p then p
      else
        let summary = message @ '': '' @ sanitizeLogText (errMsg err)
        in p\<lparr>pg_stopping := True, pg_log := pg_log p @ [summary], pg_pending := Some (ExitFailure summary)\<rparr>)"

definition stopCrashLoop :: "string \<Rightarrow> program \<Rightarrow> program" where
  "stopCrashLoop summary p =
     (if pg_stopping p then p
      else
        let summary' = sanitizeLogText summary
        in p\<lparr>pg_stopping := True, pg_log := pg_log p @ [summary'], pg_pending := Some (ExitClean summary')\<rparr>)"

definition recoveryExhausted :: "nat \<Rightarrow> string" where
  "recoveryExhausted n = ''service recovery stopped after '' @ natDigits n @ '' failures within 10m0s''"

definition stackSeparator :: string where
  "stackSeparator = newline @ ''stack:'' @ newline"

definition panicError :: "string \<Rightarrow> string \<Rightarrow> gerr" where
  "panicError v stack =
     (let panicValue = truncateLogSummary (sanitizeLogText v) (maxServiceLogTailBytes div 4);
          budget = maxServiceLogTailBytes - length ''panic: '' - length panicValue - length stackSeparator
      in Leaf (''panic: '' @ panicValue @ stackSeparator @ truncateLogSummary (sanitizeLogText stack) budget))"

text \<open>
  \<open>runOrchestrator\<close> after \<open>run\<close> came back. The goroutine's \<open>done\<close> is closed when no termination
  follows; \<open>os.Exit\<close> ends the process before.
\<close>

definition runEnds :: "run_result \<Rightarrow> program \<Rightarrow> program" where
  "runEnds r p =
     (let p1 = (case r of
                  RunOk \<Rightarrow> p
                | RunExhausted n \<Rightarrow> stopCrashLoop (recoveryExhausted n) p
                | RunError e \<Rightarrow> progFail ''orchestrator stopped with a fatal error'' e p
                | RunPanic v stack \<Rightarrow> progFail ''orchestrator panicked'' (panicError v stack) p)
      in if pg_pending p1 = None then p1\<lparr>pg_done := Some True\<rparr> else p1)"

definition managedServiceExitCode :: "bool \<Rightarrow> write_outcome \<Rightarrow> int \<Rightarrow> string \<Rightarrow> failure_file \<Rightarrow> (int \<times> gerr option) \<times> failure_file" where
  "managedServiceExitCode interactive wo now summary f =
     (if interactive then ((FailureExitCode, None), f)
      else case RecordFailure wo now (sanitizeLogText summary) f of
             (Some e, f1) \<Rightarrow> ((FailureExitCode, Some e), f1)
           | (None, f1) \<Rightarrow> ((FailureExitCode, None), f1))"

text \<open>
  The termination callbacks of \<open>runService\<close>: a failure is recorded first and ends the process with
  the failure code; a crash loop ends it with 0.
\<close>

definition carryOut :: "write_outcome \<Rightarrow> int \<Rightarrow> program \<Rightarrow> program" where
  "carryOut wo now p =
     (case pg_pending p of
        None \<Rightarrow> p
      | Some (ExitClean summary) \<Rightarrow> p\<lparr>pg_exit := Some 0\<rparr>
      | Some (ExitFailure summary) \<Rightarrow>
          (case managedServiceExitCode (pg_interactive p) wo now summary (pg_file p) of
             ((code, None), f) \<Rightarrow> p\<lparr>pg_exit := Some code, pg_file := f\<rparr>
           | ((code, Some e), f) \<Rightarrow>
               p\<lparr>pg_exit := Some code, pg_file := f,
                 pg_log := pg_log p @ [''record service failure: '' @ sanitizeLogText (errMsg e)]\<rparr>))"

text \<open>The two sections of \<open>Stop\<close>: under the mutex with the cancellation, and clearing the history.\<close>

definition stopBegin :: "program \<Rightarrow> program" where
  "stopBegin p = p\<lparr>pg_stopping := True, pg_cancelled := (pg_done p \<noteq> None \<or> pg_cancelled p)\<rparr>"

definition stopClear :: "gerr option \<Rightarrow> program \<Rightarrow> program" where
  "stopClear rm p =
     (case ClearFailures rm (pg_file p) of
        (None, f) \<Rightarrow> p\<lparr>pg_file := f\<rparr>
      | (Some e, f) \<Rightarrow>
          p\<lparr>pg_file := f, pg_log := pg_log p @ [''clear service failure state: '' @ sanitizeLogText (errMsg e)]\<rparr>)"

datatype service_status = StatusRunning | StatusStopped | StatusUnknown

text \<open>\<open>classifyServiceHealth\<close>: message, unhealthy, report. The error is absent, \<open>ErrNotInstalled\<close> (\<open>Inl\<close>) or another.\<close>

definition classifyServiceHealth :: "service_status \<Rightarrow> (unit + gerr) option \<Rightarrow> string \<times> bool \<times> bool" where
  "classifyServiceHealth status err =
     (case err of
        Some (Inl _) \<Rightarrow> ([], False, False)
      | Some (Inr e) \<Rightarrow> (''DEGRADED: '' @ sanitizeLogText (errMsg e), True, True)
      | None \<Rightarrow>
          (case status of
             StatusRunning \<Rightarrow> (''running'', False, True)
           | StatusStopped \<Rightarrow> (''STOPPED'', True, True)
           | StatusUnknown \<Rightarrow> (''DEGRADED: service state is unknown'', True, True)))"

section \<open>The worker\<close>

record worker_options =
  wk_configPath :: string
  wk_interactive :: bool
  wk_installDeps :: bool

text \<open>\<open>strconv.ParseBool\<close>.\<close>

definition parseBool :: "string \<Rightarrow> bool option" where
  "parseBool s =
     (if s \<in> {''1'', ''t'', ''T'', ''TRUE'', ''true'', ''True''} then Some True
      else if s \<in> {''0'', ''f'', ''F'', ''FALSE'', ''false'', ''False''} then Some False
      else None)"

text \<open>\<open>env\<close> is the environment the worker was started with; \<open>init\<close> looks at the marker first.\<close>

definition workerGetenv :: "string list \<Rightarrow> string \<Rightarrow> string" where
  "workerGetenv env k = (case childEnv env k of None \<Rightarrow> [] | Some v \<Rightarrow> v)"

definition isServiceWorker :: "string list \<Rightarrow> bool" where
  "isServiceWorker env = (workerGetenv env serviceWorkerMarkerEnv = serviceWorkerMarkerValue)"

definition serviceWorkerOptionsFromEnvironment :: "string list \<Rightarrow> gerr + worker_options" where
  "serviceWorkerOptionsFromEnvironment env =
     (let configPath = workerGetenv env serviceWorkerConfigEnv
      in if configPath = [] then Inl (Leaf ''missing internal config path'')
         else case parseBool (workerGetenv env serviceWorkerInstallDepsEnv) of
                None \<Rightarrow> Inl (Leaf ''invalid internal install-deps value'')
              | Some installDeps \<Rightarrow>
                  (case parseBool (workerGetenv env serviceWorkerInteractiveEnv) of
                     None \<Rightarrow> Inl (Leaf ''invalid internal interactive value'')
                   | Some interactive \<Rightarrow>
                       Inr \<lparr>wk_configPath = configPath, wk_interactive = interactive, wk_installDeps = installDeps\<rparr>))"

text \<open>\<open>clearServiceWorkerEnvironment\<close>, on the environment the worker's own children inherit.\<close>

definition clearServiceWorkerEnvironment :: "string list \<Rightarrow> string list" where
  "clearServiceWorkerEnvironment env = filter (\<lambda>e. envName e \<notin> set internalNames) env"

text \<open>The worker's exit code and what it writes to standard error; \<open>run\<close> is the orchestrator.\<close>

definition runServiceWorkerFromEnvironment :: "(worker_options \<Rightarrow> gerr option) \<Rightarrow> string list \<Rightarrow> int \<times> string list" where
  "runServiceWorkerFromEnvironment run env =
     (case serviceWorkerOptionsFromEnvironment env of
        Inl e \<Rightarrow> (1, [''multirunner service worker: '' @ errMsg e])
      | Inr wk \<Rightarrow> (case run wk of Some e \<Rightarrow> (1, [sanitizeLogText (errMsg e)]) | None \<Rightarrow> (0, [])))"

section \<open>Options and secrets\<close>

lemma internal_names_no_eq: "n \<in> set internalNames \<Longrightarrow> CHR ''='' \<notin> set n \<and> toUpper n = n"
proof -
  have "list_all (\<lambda>n. CHR ''='' \<notin> set n \<and> toUpper n = n) internalNames" by code_simp
  then show "n \<in> set internalNames \<Longrightarrow> CHR ''='' \<notin> set n \<and> toUpper n = n" by (simp add: list_all_iff)
qed

lemma internal_names_distinct: "distinct internalNames"
  by code_simp

lemma filtered_lookup:
  assumes "n \<in> set internalNames"
  shows "lookupEnv (rev (withoutServiceWorkerEnvironment env)) n = None"
proof -
  have "lookupEnv xs n = None" if "\<forall>x \<in> set xs. toUpper (envName x) \<notin> set internalNames" for xs
    using that assms internal_names_no_eq[OF assms] by (induction xs) (auto simp: envName_def split: prod.splits)
  moreover have "\<forall>x \<in> set (withoutServiceWorkerEnvironment env). toUpper (envName x) \<notin> set internalNames"
    by (induction env) auto
  ultimately show ?thesis by simp
qed

lemma spec_lookup:
  assumes "newServiceWorkerSpec exe load keyFile env configPath interactive installDeps = Inr spec"
  shows "workerGetenv (sp_env spec) serviceWorkerMarkerEnv = serviceWorkerMarkerValue"
    and "workerGetenv (sp_env spec) serviceWorkerConfigEnv = configPath"
    and "workerGetenv (sp_env spec) serviceWorkerInstallDepsEnv = formatBool installDeps"
    and "workerGetenv (sp_env spec) serviceWorkerInteractiveEnv = formatBool interactive"
proof -
  have e: "rev (sp_env spec) =
      [serviceWorkerInteractiveEnv @ CHR ''='' # formatBool interactive,
       serviceWorkerInstallDepsEnv @ CHR ''='' # formatBool installDeps,
       serviceWorkerConfigEnv @ CHR ''='' # configPath,
       serviceWorkerMarkerEnv @ CHR ''='' # serviceWorkerMarkerValue]
      @ rev (withoutServiceWorkerEnvironment env)"
    using assms by (auto simp: newServiceWorkerSpec_def split: sum.splits)
  have n: "CHR ''='' \<notin> set serviceWorkerMarkerEnv" "CHR ''='' \<notin> set serviceWorkerConfigEnv"
    "CHR ''='' \<notin> set serviceWorkerInstallDepsEnv" "CHR ''='' \<notin> set serviceWorkerInteractiveEnv"
    using internal_names_no_eq by (simp_all add: internalNames_def)
  have d: "serviceWorkerMarkerEnv \<noteq> serviceWorkerConfigEnv" "serviceWorkerMarkerEnv \<noteq> serviceWorkerInstallDepsEnv"
    "serviceWorkerMarkerEnv \<noteq> serviceWorkerInteractiveEnv" "serviceWorkerConfigEnv \<noteq> serviceWorkerInstallDepsEnv"
    "serviceWorkerConfigEnv \<noteq> serviceWorkerInteractiveEnv" "serviceWorkerInstallDepsEnv \<noteq> serviceWorkerInteractiveEnv"
    using internal_names_distinct by (simp_all add: internalNames_def)
  show "workerGetenv (sp_env spec) serviceWorkerMarkerEnv = serviceWorkerMarkerValue"
    "workerGetenv (sp_env spec) serviceWorkerConfigEnv = configPath"
    "workerGetenv (sp_env spec) serviceWorkerInstallDepsEnv = formatBool installDeps"
    "workerGetenv (sp_env spec) serviceWorkerInteractiveEnv = formatBool interactive"
    unfolding workerGetenv_def childEnv_def e using n d by (simp_all add: not_sym)
qed

lemma parse_formatBool [simp]: "parseBool (formatBool b) = Some b"
  by (simp add: parseBool_def formatBool_def)

text \<open>
  The worker runs with the options of its supervisor. Whatever the inherited environment
  contains, variables with the internal names in any spelling included, the process started from
  the specification is recognised as a worker and reads back exactly the configuration path and
  the two flags; and none of the four variables is left to what the worker itself starts.
\<close>

theorem worker_reads_its_options:
  assumes "newServiceWorkerSpec exe load keyFile env configPath interactive installDeps = Inr spec"
    and "configPath \<noteq> []"
  shows "isServiceWorker (sp_env spec)
    \<and> serviceWorkerOptionsFromEnvironment (sp_env spec)
        = Inr \<lparr>wk_configPath = configPath, wk_interactive = interactive, wk_installDeps = installDeps\<rparr>
    \<and> list_all (\<lambda>n. childEnv (clearServiceWorkerEnvironment (sp_env spec)) n = None) internalNames"
proof -
  have l: "lookupEnv xs n = None" if "\<forall>x \<in> set xs. envName x \<noteq> n" for xs n
    using that by (induction xs) (auto simp: envName_def split: prod.splits)
  have "\<forall>n \<in> set internalNames. childEnv (clearServiceWorkerEnvironment (sp_env spec)) n = None"
    unfolding childEnv_def clearServiceWorkerEnvironment_def by (intro ballI l) auto
  then show ?thesis using assms(2)
    by (simp add: isServiceWorker_def serviceWorkerOptionsFromEnvironment_def spec_lookup[OF assms(1)] list_all_iff)
qed

theorem worker_reads_its_options_witness:
  "\<exists>spec. newServiceWorkerSpec (Inr ''/bin/mr'') (Inr demoConfig) None
       [''PATH=/bin'', ''multirunner_internal_service_config=/tmp/x''] ''/etc/mr.yaml'' False True = Inr spec
     \<and> serviceWorkerOptionsFromEnvironment (sp_env spec)
        = Inr \<lparr>wk_configPath = ''/etc/mr.yaml'', wk_interactive = False, wk_installDeps = True\<rparr>"
proof -
  obtain spec where s: "newServiceWorkerSpec (Inr ''/bin/mr'') (Inr demoConfig) None
       [''PATH=/bin'', ''multirunner_internal_service_config=/tmp/x''] ''/etc/mr.yaml'' False True = Inr spec"
    by (simp add: newServiceWorkerSpec_def)
  then show ?thesis using worker_reads_its_options[OF s] by auto
qed

lemma dedupe_set: "set (dedupe seen xs) = {x \<in> set xs. x \<noteq> [] \<and> x \<notin> set seen}"
  by (induction seen xs rule: dedupe.induct) auto

lemma dedupe_distinct: "distinct (dedupe seen xs)"
  by (induction seen xs rule: dedupe.induct) (auto simp: dedupe_set)

lemma dedupe_sorted: "sorted (map f xs) \<Longrightarrow> sorted (map f (dedupe seen xs))"
  by (induction seen xs rule: dedupe.induct) (auto simp: dedupe_set)

text \<open>
  The list handed to the redaction holds every configured secret and every long line of the private
  key, without repetition, longer ones first, so that a secret inside a longer one does not
  break the longer one up.
\<close>

theorem redaction_secrets:
  shows "set (serviceRedactionSecrets cfg keyFile env) = {s \<in> set (collectedSecrets cfg keyFile env). s \<noteq> []}"
    and "distinct (serviceRedactionSecrets cfg keyFile env)"
    and "sorted (map (\<lambda>s. - int (length s)) (serviceRedactionSecrets cfg keyFile env))"
  by (simp_all add: serviceRedactionSecrets_def dedupe_set dedupe_distinct dedupe_sorted)

section \<open>The worker's process tree\<close>

text \<open>
  A worker that was started does not outlive its supervisor's call: its process group, or the
  process itself when it could not be contained, is killed on every path, its control pipe is closed,
  and no error is reported exactly when it was stopped on purpose.
\<close>

theorem started_worker_is_killed:
  assumes "sp_path spec \<noteq> []" and "wr_pipe r = None" and "wr_stdin r = None" and "wr_start r = None"
  shows "(if wr_attach r = None then KillGroup else KillProcess) \<in> set (snd (superviseProcess spec r))"
    and "CloseStdin \<in> set (snd (superviseProcess spec r))"
    and "fst (superviseProcess spec r) = None \<longleftrightarrow> wr_attach r = None \<and> (\<exists>c. wr_ending r = StoppedByContext c)"
  using assms
  by (auto simp: superviseProcess_def superviseRunning_def Let_def split: worker_ending.splits option.splits prod.splits)

section \<open>Crash loops\<close>

text \<open>
  One life of the service process under the service manager: it starts at \<open>li_start\<close>, the worker
  ends at \<open>li_end\<close> with an error or a panic (or cannot be started), and the process terminates.
\<close>

record life =
  li_start :: int
  li_end :: int
  li_spec :: "gerr + process_spec"
  li_run :: worker_run
  li_write :: write_outcome

definition liveOnce :: "life \<Rightarrow> failure_file \<Rightarrow> program" where
  "liveOnce x f =
     (let p = snd (progStart (newProgram False f))
      in carryOut (li_write x) (li_end x)
           (runEnds (superviseServiceWorker False (li_start x) f (li_spec x) (li_run x)) p))"

text \<open>Whether the worker is started in a life, and the lives one after the other: exit codes and failure times.\<close>

definition startsWorker :: "life \<Rightarrow> failure_file \<Rightarrow> bool" where
  "startsWorker x f =
     (case superviseServiceWorker False (li_start x) f (li_spec x) (li_run x) of RunExhausted _ \<Rightarrow> False | _ \<Rightarrow> True)"

fun lives :: "life list \<Rightarrow> failure_file \<Rightarrow> int option list \<times> int list" where
  "lives [] f = ([], [])"
| "lives (x # xs) f =
     (let p = liveOnce x f; (codes, times) = lives xs (pg_file p)
      in (pg_exit p # codes, (if startsWorker x f then [li_end x] else []) @ times))"

text \<open>Each life ends by a failure of the worker, with a working disk, and the clock does not run backwards.\<close>

fun crashing :: "int \<Rightarrow> life list \<Rightarrow> bool" where
  "crashing t [] = True"
| "crashing t (x # xs) =
     (t \<le> li_start x \<and> li_start x \<le> li_end x
      \<and> (case li_spec x of Inl _ \<Rightarrow> True | Inr sp \<Rightarrow> fst (superviseProcess sp (li_run x)) \<noteq> None)
      \<and> li_write x = \<lparr>wo_create = None, wo_chmod = None, wo_write = None, wo_sync = None, wo_close = None, wo_rename = None\<rparr>
      \<and> crashing (li_end x) xs)"

lemma write_ok:
  "writeFailureHistory \<lparr>wo_create = None, wo_chmod = None, wo_write = None, wo_sync = None, wo_close = None, wo_rename = None\<rparr> h f
     = (None, Stored (jsonHistory h))"
  by (simp add: writeFailureHistory_def)

definition historyOf :: "failure_file \<Rightarrow> failure_history" where
  "historyOf f = (case f of Stored h \<Rightarrow> h | _ \<Rightarrow> noFailures)"

definition usable :: "failure_file \<Rightarrow> bool" where
  "usable f = (case f of NoFile \<Rightarrow> True | Stored _ \<Rightarrow> True | _ \<Rightarrow> False)"

lemma read_usable: "usable f \<Longrightarrow> readFailureHistory f = Inr (historyOf f)"
  by (cases f) (simp_all add: usable_def readFailureHistory_def historyOf_def)

lemma count_usable: "usable f \<Longrightarrow> FailureCount now f = Inr (length (recentFailures (fh_Failures (historyOf f)) now))"
  by (simp add: FailureCount_def ReadFailureStatus_def read_usable Let_def)

lemma life_outcome:
  assumes "crashing t (x # xs)" and "usable f"
  defines "n \<equiv> length (recentFailures (fh_Failures (historyOf f)) (li_start x))"
  shows "4 \<le> n \<Longrightarrow> \<not> startsWorker x f \<and> pg_exit (liveOnce x f) = Some 0 \<and> pg_file (liveOnce x f) = f"
    and "n < 4 \<Longrightarrow> startsWorker x f \<and> pg_exit (liveOnce x f) = Some 1 \<and> usable (pg_file (liveOnce x f))
      \<and> fh_Failures (historyOf (pg_file (liveOnce x f))) = recentFailures (fh_Failures (historyOf f)) (li_end x) @ [li_end x]"
proof -
  have c: "FailureCount (li_start x) f = Inr n" unfolding n_def by (rule count_usable[OF assms(2)])
  have k: "CrashLoopFailureCount = 4" by (simp add: CrashLoopFailureCount_def maxFailureExits_def)
  show "\<not> startsWorker x f \<and> pg_exit (liveOnce x f) = Some 0 \<and> pg_file (liveOnce x f) = f" if "4 \<le> n"
    using that c
    by (simp add: startsWorker_def liveOnce_def superviseServiceWorker_def k runEnds_def stopCrashLoop_def progStart_def
        newProgram_def carryOut_def Let_def)
  show "startsWorker x f \<and> pg_exit (liveOnce x f) = Some 1 \<and> usable (pg_file (liveOnce x f))
      \<and> fh_Failures (historyOf (pg_file (liveOnce x f))) = recentFailures (fh_Failures (historyOf f)) (li_end x) @ [li_end x]" if lt: "n < 4"
  proof -
    obtain e where e: "superviseServiceWorker False (li_start x) f (li_spec x) (li_run x) = RunError e"
    proof -
      have "\<not> CrashLoopFailureCount \<le> n" using lt k by simp
      then show ?thesis using that c assms(1)
        by (cases "li_spec x") (auto simp: superviseServiceWorker_def)
    qed
    have w: "li_write x = \<lparr>wo_create = None, wo_chmod = None, wo_write = None, wo_sync = None, wo_close = None, wo_rename = None\<rparr>"
      using assms(1) by simp
    show ?thesis
      by (simp add: startsWorker_def liveOnce_def e runEnds_def progFail_def progStart_def newProgram_def carryOut_def
          managedServiceExitCode_def RecordFailure_def read_usable[OF assms(2)] w write_ok FailureExitCode_def
          jsonHistory_def usable_def historyOf_def Let_def)
  qed
qed

text \<open>
  Between two lives: what the file knows of the failures \<open>past\<close> that were recorded so far is all that
  matters from now on, and no window held more than four of them.
\<close>

definition boundedPast :: "int \<Rightarrow> int list \<Rightarrow> failure_file \<Rightarrow> bool" where
  "boundedPast t past f \<longleftrightarrow> usable f \<and> (\<forall>p \<in> set past. p \<le> t) \<and> (\<forall>p \<in> set (fh_Failures (historyOf f)). p \<le> t)
     \<and> (\<forall>u \<ge> t. recentFailures (fh_Failures (historyOf f)) u = recentFailures past u)
     \<and> (\<forall>u. length (recentFailures past u) \<le> 4)"

lemma recent_append [simp]: "recentFailures (xs @ ys) u = recentFailures xs u @ recentFailures ys u"
  by (simp add: recentFailures_def)

lemma recent_fewer:
  assumes "\<forall>p \<in> set past. p \<le> s" and "s \<le> u"
  shows "length (recentFailures past u) \<le> length (recentFailures past s)"
proof -
  have "countOf (\<lambda>t. u - FailureWindow < t \<and> t \<le> u) past \<le> countOf (\<lambda>t. s - FailureWindow < t \<and> t \<le> s) past"
    by (rule countOf_mono) (use assms in auto)
  then show ?thesis by (simp add: recentFailures_def countOf_def)
qed

lemma recent_recent:
  assumes "\<forall>p \<in> set hs. p \<le> e" and "e \<le> u"
  shows "recentFailures (recentFailures hs e) u = recentFailures hs u"
  unfolding recentFailures_def filter_filter using assms by (intro filter_cong) auto

lemma life_keeps_bound:
  assumes "crashing t (x # xs)" and "boundedPast t past f"
  shows "boundedPast (li_end x) (past @ (if startsWorker x f then [li_end x] else [])) (pg_file (liveOnce x f))"
proof -
  let ?hs = "fh_Failures (historyOf f)" and ?s = "li_start x" and ?e = "li_end x"
  have o: "t \<le> ?s" "?s \<le> ?e" using assms(1) by auto
  have u: "usable f" and past: "\<forall>p \<in> set past. p \<le> t" and hs: "\<forall>p \<in> set ?hs. p \<le> t"
    and eq: "\<forall>u \<ge> t. recentFailures ?hs u = recentFailures past u" and four: "\<forall>u. length (recentFailures past u) \<le> 4"
    using assms(2) by (auto simp: boundedPast_def)
  have later: "\<forall>p \<in> set past. p \<le> ?s" "\<forall>p \<in> set past. p \<le> ?e" "\<forall>p \<in> set ?hs. p \<le> ?e" using past hs o by fastforce+
  show ?thesis
  proof (cases "4 \<le> length (recentFailures ?hs ?s)")
    case True
    then show ?thesis using life_outcome(1)[OF assms(1) u] u later eq four o by (simp add: boundedPast_def)
  next
    case False
    then have n: "length (recentFailures past ?s) < 4" using eq o(1) by simp
    have l: "startsWorker x f" "usable (pg_file (liveOnce x f))"
      "fh_Failures (historyOf (pg_file (liveOnce x f))) = recentFailures ?hs ?e @ [?e]"
      using life_outcome(2)[OF assms(1) u] False by simp_all
    have one: "recentFailures [?e] v = (if ?e \<le> v \<and> v - FailureWindow < ?e then [?e] else [])" for v
      by (simp add: recentFailures_def)
    have "length (recentFailures (past @ [?e]) v) \<le> 4" for v
      using recent_fewer[OF later(1), of v] n four[rule_format, of v] o(2) by (cases "?e \<le> v") (simp_all add: one)
    moreover have "recentFailures (recentFailures ?hs ?e @ [?e]) v = recentFailures (past @ [?e]) v" if "?e \<le> v" for v
      using recent_recent[OF later(3) that] eq that o by simp
    moreover have "\<forall>p \<in> set (recentFailures ?hs ?e). p \<le> ?e" by (simp add: recentFailures_def)
    ultimately show ?thesis using l later(2) by (simp add: boundedPast_def)
  qed
qed

lemma lives_bounded:
  "crashing t xs \<Longrightarrow> boundedPast t past f \<Longrightarrow> length (recentFailures (past @ snd (lives xs f)) u) \<le> 4"
proof (induction xs arbitrary: t past f)
  case Nil
  then show ?case by (simp add: boundedPast_def)
next
  case (Cons x xs)
  have "crashing (li_end x) xs" using Cons.prems(1) by simp
  note IH = Cons.IH[OF this life_keeps_bound[OF Cons.prems]]
  have "snd (lives (x # xs) f) = (if startsWorker x f then [li_end x] else []) @ snd (lives xs (pg_file (liveOnce x f)))"
    by (simp add: Let_def split: prod.splits)
  then show ?case using IH by (simp only: append_assoc)
qed

text \<open>
  C16: A crash loop stops. When the service is restarted after every failure, for as long as one likes
  and with any worker failures, no ten minutes contain more than four failures of the worker. The
  service refuses to start the worker exactly when the last ten minutes already hold four
  failures, and then ends with exit code 0, so that a service manager that restarts on failure
  leaves it stopped; otherwise it ends with 1 and the failure is recorded.
\<close>

theorem crash_loop_stops:
  assumes "crashing t xs" and "boundedPast t past f"
  shows "(\<forall>u. length (recentFailures (past @ snd (lives xs f)) u) \<le> 4)
    \<and> (case xs of [] \<Rightarrow> True | x # _ \<Rightarrow>
         (startsWorker x f \<longleftrightarrow> length (recentFailures past (li_start x)) < 4)
         \<and> pg_exit (liveOnce x f) = Some (if startsWorker x f then 1 else 0))"
proof (cases xs)
  case Nil
  then show ?thesis using lives_bounded[OF assms] by simp
next
  case (Cons x ys)
  have "usable f" "recentFailures (fh_Failures (historyOf f)) (li_start x) = recentFailures past (li_start x)"
    using assms Cons by (auto simp: boundedPast_def)
  then show ?thesis using Cons assms(1) life_outcome[of t x ys f] lives_bounded[OF assms]
    by (cases "length (recentFailures past (li_start x)) < 4") (auto simp: not_less)
qed

lemma boundedPast_new: "boundedPast t [] NoFile"
  by (simp add: boundedPast_def usable_def historyOf_def noFailures_def recentFailures_def)

text \<open>Five lives of one second each whose worker cannot be specified.\<close>

definition demoLife :: "int \<Rightarrow> life" where
  "demoLife n = \<lparr>li_start = n * 1000000000, li_end = (n + 1) * 1000000000, li_spec = Inl (Leaf ''bad config''),
     li_run = \<lparr>wr_pipe = None, wr_stdin = None, wr_start = None, wr_attach = None, wr_output = [], wr_outputErr = None,
       wr_ending = StoppedByContext (StopsInTime None), wr_drained = True\<rparr>,
     li_write = \<lparr>wo_create = None, wo_chmod = None, wo_write = None, wo_sync = None, wo_close = None, wo_rename = None\<rparr>\<rparr>"

theorem crash_loop_stops_witness:
  "startsWorker (demoLife 0) NoFile \<and> pg_exit (liveOnce (demoLife 0) NoFile) = Some 1
   \<and> length (recentFailures (snd (lives (map demoLife [0, 1, 2, 3, 4]) NoFile)) 10000000000) \<le> 4"
proof -
  have c: "crashing 0 (map demoLife [0, 1, 2, 3, 4])" by (simp add: demoLife_def)
  have "length (recentFailures [] (li_start (demoLife 0))) < 4" by (simp add: recentFailures_def)
  then show ?thesis using crash_loop_stops[OF c boundedPast_new] by (simp del: lives.simps)
qed

section \<open>Stopping\<close>

text \<open>
  The service process and the service manager, in any order: \<open>Start\<close>, the end of the orchestrator
  with any result, the decided termination, and the two sections of \<open>Stop\<close>. Nothing happens after
  the process has ended.
\<close>

inductive prog_step :: "program \<Rightarrow> program \<Rightarrow> bool" where
  prog_start: "pg_exit p = None \<Longrightarrow> prog_step p (snd (progStart p))"
| prog_ends: "pg_exit p = None \<Longrightarrow> pg_done p = Some False \<Longrightarrow> pg_pending p = None \<Longrightarrow> prog_step p (runEnds r p)"
| prog_exits: "pg_exit p = None \<Longrightarrow> pg_pending p \<noteq> None \<Longrightarrow> prog_step p (carryOut wo now p)"
| prog_stop: "pg_exit p = None \<Longrightarrow> prog_step p (stopBegin p)"
| prog_clear: "pg_exit p = None \<Longrightarrow> pg_stopping p \<Longrightarrow> prog_step p (stopClear rm p)"

inductive_cases prog_stepE: "prog_step p p'"

lemmas prog_defs = progStart_def runEnds_def progFail_def stopCrashLoop_def carryOut_def stopBegin_def stopClear_def
  managedServiceExitCode_def Let_def

text \<open>A started program that was told to stop, with no termination decided.\<close>

definition quiet :: "failure_history \<Rightarrow> program \<Rightarrow> bool" where
  "quiet h p \<longleftrightarrow> pg_done p \<noteq> None \<and> pg_stopping p \<and> pg_pending p = None \<and> pg_exit p = None
     \<and> (pg_file p = NoFile \<or> historyOf (pg_file p) = h)"

lemma quiet_step: "prog_step p p' \<Longrightarrow> quiet h p \<Longrightarrow> quiet h p'"
  by (erule prog_stepE)
    (auto simp: quiet_def prog_defs ClearFailures_def split: run_result.splits option.splits failure_file.splits prod.splits)

interpretation stopped: invariant_machine "quiet h" prog_step "quiet h" for h
  by unfold_locales (auto intro: quiet_step)

text \<open>
  C30: An intentional stop is no failure. Once \<open>Stop\<close> has begun on a started service whose orchestrator
  had not failed before, whatever the orchestrator then returns, even an error or a panic, in
  any interleaving: the process is not terminated from inside, and the failure history is kept
  as it was or cleared, never extended.
\<close>

theorem stop_is_not_a_failure:
  assumes "pg_done p \<noteq> None" and "pg_pending p = None" and "pg_exit p = None"
    and "prog_step\<^sup>*\<^sup>* (stopBegin p) p'"
  shows "pg_exit p' = None \<and> pg_pending p' = None \<and> (pg_file p' = NoFile \<or> historyOf (pg_file p') = historyOf (pg_file p))"
proof -
  have "quiet (historyOf (pg_file p)) (stopBegin p)" using assms(1-3) by (simp add: quiet_def stopBegin_def)
  from stopped.run_inv[OF assms(4) this] show ?thesis by (simp add: quiet_def)
qed

theorem stop_is_not_a_failure_witness:
  "pg_exit (runEnds (RunError (Leaf ''killed'')) (stopBegin (snd (progStart (newProgram False NoFile))))) = None"
proof -
  let ?p = "snd (progStart (newProgram False NoFile))"
  have h: "pg_done ?p = Some False" "pg_pending ?p = None" "pg_exit ?p = None" by (simp_all add: progStart_def newProgram_def)
  have "prog_step (stopBegin ?p) (runEnds (RunError (Leaf ''killed'')) (stopBegin ?p))"
    using h by (intro prog_ends) (simp_all add: stopBegin_def)
  then show ?thesis using stop_is_not_a_failure[of ?p "runEnds (RunError (Leaf ''killed'')) (stopBegin ?p)"] h by auto
qed

end
