(* ===== verification/Vm_Host.thy ===== *)
theory Vm_Host
  imports Go_Os Backend
begin

text \<open>
  The host as the Windows VM runner (\<open>internal/winvm\<close>) sees it: the files it writes, the processes
  of the machine, the QMP endpoints of QEMU and the outcome of each call that can fail.

  \<^item> A file is found by the components of its absolute path. A file the program encodes as JSON
    is the value it decodes to; every other text does not decode.
  \<^item> \<open>vw_outcomes\<close> lists how the calls to come end, one entry per call that can fail: the call
    succeeds, fails without an effect, or fails after it left a partly written file. A call after
    the end of the list succeeds. A theorem about every world is a theorem about every pattern of
    failures.
  \<^item> A process has its arguments, whether it was told to quit, and how many ticks of 25
    milliseconds it still runs (\<open>None\<close>: until somebody stops it). \<open>vw_deadline\<close> counts the ticks until
    the context of the running call is cancelled.
  \<^item> \<open>vw_says\<close> is what the process with a given id writes on its QMP connection, line by line.

  \<open>filepath.Glob\<close> is modelled with its metacharacters, over bytes.
\<close>

section \<open>Files, processes and outcomes\<close>

record runner_record =
  rr_Name :: string
  rr_Ownership :: ownership
  rr_QMPAddr :: string
  rr_PID :: int
  rr_PIDFile :: string
  rr_Overlay :: string
  rr_ISO :: string
  rr_Vars :: string
  rr_Serial :: string
  rr_Started :: bool

text \<open>The sidecar of a golden image; a time is in nanoseconds.\<close>

record golden_meta =
  gm_CreatedAt :: int
  gm_EvalDays :: int
  gm_RearmsUsed :: int
  gm_MaxRearms :: int
  gm_Licensed :: bool
  gm_WorkflowsHash :: string

datatype vm_file =
    RecordFile runner_record
  | MetaFile golden_meta
  | TextFile string
  | DiskFile "string option"                        \<comment> \<open>a qcow2 disk and its backing file\<close>
  | IsoFile string "(string \<times> string) list"         \<comment> \<open>volume label and files\<close>

datatype outcome = Succeeds | Fails string | FailsPartly string

text \<open>
  A line read from QMP: not JSON, an event, an error, or a reply. A reply carries the \<open>name\<close> it
  decodes to (empty when it has none), or \<open>None\<close> when it does not decode into \<open>qmpName\<close>.
\<close>

datatype qmp_line = QGarbage | QEvent | QError string string | QReturn "string option"

record vm_proc =
  vp_pid :: int
  vp_args :: "string list"
  vp_quit :: bool
  vp_life :: "nat option"

record vm_world =
  vw_cwd :: string
  vw_env :: "string list"
  vw_files :: "(string list \<times> vm_file) list"
  vw_canon :: "string \<Rightarrow> string"
  vw_procs :: "vm_proc list"
  vw_nextPid :: nat
  vw_lag :: nat
  vw_says :: "int \<Rightarrow> qmp_line list"
  vw_deadline :: "nat option"
  vw_outcomes :: "outcome list"

definition takeOutcome :: "vm_world \<Rightarrow> outcome \<times> vm_world" where
  "takeOutcome w =
     (case vw_outcomes w of [] \<Rightarrow> (Succeeds, w) | x # xs \<Rightarrow> (x, w\<lparr>vw_outcomes := xs\<rparr>))"

definition outcomeErr :: "outcome \<Rightarrow> gerr option" where
  "outcomeErr x = (case x of Succeeds \<Rightarrow> None | Fails m \<Rightarrow> Some (Leaf m) | FailsPartly m \<Rightarrow> Some (Leaf m))"

definition leavesFile :: "outcome \<Rightarrow> bool" where
  "leavesFile x = (case x of Fails m \<Rightarrow> False | _ \<Rightarrow> True)"

text \<open>A call that has no effect on the files and processes: it only fails or succeeds.\<close>

definition attempt :: "vm_world \<Rightarrow> gerr option \<times> vm_world" where
  "attempt w = (case takeOutcome w of (x, w1) \<Rightarrow> (outcomeErr x, w1))"

section \<open>The file system\<close>

text \<open>\<open>filepath.Abs\<close> with the working directory \<open>/cwd\<close>, and the key of a path in the store.\<close>

definition absPath :: "vm_world \<Rightarrow> string \<Rightarrow> string" where
  "absPath w p = pathClean (if isAbs p then p else ''/'' @ vw_cwd w @ ''/'' @ p)"

definition locate :: "vm_world \<Rightarrow> string \<Rightarrow> string list" where
  "locate w p = pathParts (absPath w p)"

definition fileAt :: "vm_world \<Rightarrow> string \<Rightarrow> vm_file option" where
  "fileAt w p = map_of (vw_files w) (locate w p)"

definition putFile :: "string \<Rightarrow> vm_file \<Rightarrow> vm_world \<Rightarrow> vm_world" where
  "putFile p f w = w\<lparr>vw_files := AList.update (locate w p) f (vw_files w)\<rparr>"

definition dropFile :: "string \<Rightarrow> vm_world \<Rightarrow> vm_world" where
  "dropFile p w = w\<lparr>vw_files := AList.delete (locate w p) (vw_files w)\<rparr>"

definition notExist :: gerr where
  "notExist = Sent OsErrNotExist ''file does not exist''"

definition osReadFile :: "vm_world \<Rightarrow> string \<Rightarrow> (gerr + vm_file) \<times> vm_world" where
  "osReadFile w p =
     (case attempt w of
        (Some e, w1) \<Rightarrow> (Inl e, w1)
      | (None, w1) \<Rightarrow> (case fileAt w1 p of None \<Rightarrow> Inl notExist | Some f \<Rightarrow> Inr f, w1))"

definition osStat :: "vm_world \<Rightarrow> string \<Rightarrow> gerr option \<times> vm_world" where
  "osStat w p = (case osReadFile w p of (Inl e, w1) \<Rightarrow> (Some e, w1) | (Inr f, w1) \<Rightarrow> (None, w1))"

definition osRemove :: "vm_world \<Rightarrow> string \<Rightarrow> gerr option \<times> vm_world" where
  "osRemove w p =
     (case osStat w p of (Some e, w1) \<Rightarrow> (Some e, w1) | (None, w1) \<Rightarrow> (None, dropFile p w1))"

text \<open>A program or library call that writes the file \<open>p\<close>: a failure may leave it behind.\<close>

definition writeThrough :: "vm_world \<Rightarrow> string \<Rightarrow> vm_file \<Rightarrow> gerr option \<times> vm_world" where
  "writeThrough w p f =
     (case takeOutcome w of
        (x, w1) \<Rightarrow> (outcomeErr x, if leavesFile x then putFile p f w1 else w1))"

definition copyFile :: "vm_world \<Rightarrow> string \<Rightarrow> string \<Rightarrow> gerr option \<times> vm_world" where
  "copyFile w dst src =
     (case osReadFile w src of
        (Inl e, w1) \<Rightarrow> (Some e, w1)
      | (Inr f, w1) \<Rightarrow> writeThrough w1 dst f)"

text \<open>\<open>filepath.Base\<close> of a path that is not empty and not the root.\<close>

definition pathBase :: "string \<Rightarrow> string" where
  "pathBase p = (case pathParts p of [] \<Rightarrow> if isAbs p then ''/'' else ''.'' | xs \<Rightarrow> last xs)"

section \<open>Glob\<close>

datatype glob_atom = GStar | GAny | GClass bool "(char \<times> char) list" | GLit char

text \<open>\<open>getEsc\<close>: one character of a class, possibly escaped.\<close>

fun globEsc :: "string \<Rightarrow> (char \<times> string) option" where
  "globEsc [] = None"
| "globEsc (c # cs) =
     (if c = CHR ''-'' \<or> c = CHR '']'' then None
      else if c = CHR 0x5C then (case cs of [] \<Rightarrow> None | d # [] \<Rightarrow> None | d # ds \<Rightarrow> Some (d, ds))
      else if cs = [] then None else Some (c, cs))"

fun globRanges :: "nat \<Rightarrow> (char \<times> char) list \<Rightarrow> string \<Rightarrow> ((char \<times> char) list \<times> string) option" where
  "globRanges 0 acc s = None"
| "globRanges (Suc k) acc s =
     (if acc \<noteq> [] \<and> s \<noteq> [] \<and> hd s = CHR '']'' then Some (rev acc, tl s)
      else (case globEsc s of
              None \<Rightarrow> None
            | Some (lo, s1) \<Rightarrow>
                if s1 \<noteq> [] \<and> hd s1 = CHR ''-'' then
                  (case globEsc (tl s1) of
                     None \<Rightarrow> None
                   | Some (hi, s2) \<Rightarrow> globRanges k ((lo, hi) # acc) s2)
                else globRanges k ((lo, lo) # acc) s1))"

text \<open>A pattern as a list of atoms; \<open>None\<close> is \<open>ErrBadPattern\<close>. Each round takes at least one character.\<close>

fun globParse :: "nat \<Rightarrow> string \<Rightarrow> glob_atom list option" where
  "globParse 0 s = (if s = [] then Some [] else None)"
| "globParse (Suc k) [] = Some []"
| "globParse (Suc k) (c # cs) =
     (if c = CHR ''*'' then map_option (\<lambda>as. GStar # as) (globParse k cs)
      else if c = CHR ''?'' then map_option (\<lambda>as. GAny # as) (globParse k cs)
      else if c = CHR 0x5C then
        (case cs of [] \<Rightarrow> None | d # ds \<Rightarrow> map_option (\<lambda>as. GLit d # as) (globParse k ds))
      else if c = CHR ''['' then
        (let neg = (cs \<noteq> [] \<and> hd cs = CHR ''^'') in
         case globRanges (Suc (length cs)) [] (if neg then tl cs else cs) of
           None \<Rightarrow> None
         | Some (rs, rest) \<Rightarrow> map_option (\<lambda>as. GClass neg rs # as) (globParse k rest))
      else map_option (\<lambda>as. GLit c # as) (globParse k cs))"

definition inRange :: "char \<Rightarrow> char \<times> char \<Rightarrow> bool" where
  "inRange c r \<longleftrightarrow> (of_char (fst r) :: nat) \<le> of_char c \<and> (of_char c :: nat) \<le> of_char (snd r)"

fun globMatch :: "glob_atom list \<Rightarrow> string \<Rightarrow> bool" where
  "globMatch [] s = (s = [])"
| "globMatch (GStar # as) s =
     (globMatch as s \<or> (case s of [] \<Rightarrow> False | c # cs \<Rightarrow> c \<noteq> CHR ''/'' \<and> globMatch (GStar # as) cs))"
| "globMatch (GAny # as) s = (case s of [] \<Rightarrow> False | c # cs \<Rightarrow> c \<noteq> CHR ''/'' \<and> globMatch as cs)"
| "globMatch (GClass neg rs # as) s =
     (case s of [] \<Rightarrow> False | c # cs \<Rightarrow> list_ex (inRange c) rs \<noteq> neg \<and> globMatch as cs)"
| "globMatch (GLit d # as) s = (case s of [] \<Rightarrow> False | c # cs \<Rightarrow> c = d \<and> globMatch as cs)"

text \<open>The entries of a directory, sorted, and one component of a pattern over a list of directories.\<close>

definition childrenOf :: "vm_world \<Rightarrow> string list \<Rightarrow> string list" where
  "childrenOf w d =
     sort (remdups (List.map_filter
       (\<lambda>(k, f). if length d < length k \<and> take (length d) k = d then Some (k ! length d) else None)
       (vw_files w)))"

definition globStep :: "vm_world \<Rightarrow> string list list \<Rightarrow> string \<Rightarrow> string list list option" where
  "globStep w ds pat =
     (if pat = ''..'' then Some (map butlast ds)
      else case globParse (length pat) pat of
             None \<Rightarrow> None
           | Some as \<Rightarrow> Some (concat (map (\<lambda>d. map (\<lambda>n. d @ [n]) (filter (globMatch as) (childrenOf w d))) ds)))"

fun globSteps :: "vm_world \<Rightarrow> string list list \<Rightarrow> string list \<Rightarrow> string list list option" where
  "globSteps w ds [] = Some ds"
| "globSteps w ds (p # ps) = (case globStep w ds p of None \<Rightarrow> None | Some es \<Rightarrow> globSteps w es ps)"

text \<open>
  \<open>filepath.Glob\<close> on a cleaned pattern, with the matches resolved against the working directory.
  Every component is matched against the entries of the directories found so far: a component
  without metacharacters matches only itself. A match names a file, so directories that merely
  exist do not appear.
\<close>

definition Glob :: "vm_world \<Rightarrow> string \<Rightarrow> gerr + string list" where
  "Glob w pattern =
     (case globSteps w (if isAbs pattern then [[]] else [pathParts (''/'' @ vw_cwd w)]) (pathParts pattern) of
        None \<Rightarrow> Inl (Leaf ''syntax error in pattern'')
      | Some ks \<Rightarrow> Inr (map (\<lambda>k. ''/'' @ sepBy ''/'' k) (filter (\<lambda>k. map_of (vw_files w) k \<noteq> None) ks)))"

section \<open>Processes\<close>

definition tick :: "vm_world \<Rightarrow> vm_world" where
  "tick w = w\<lparr>vw_procs := map (\<lambda>p. p\<lparr>vp_life := map_option (\<lambda>n. n - 1) (vp_life p)\<rparr>)
                             (filter (\<lambda>p. vp_life p \<noteq> Some 0) (vw_procs w)),
             vw_deadline := map_option (\<lambda>n. n - 1) (vw_deadline w)\<rparr>"

definition ctxDone :: "vm_world \<Rightarrow> bool" where
  "ctxDone w \<longleftrightarrow> vw_deadline w = Some 0"

definition ctxErr :: gerr where
  "ctxErr = Sent ContextCanceled ''context canceled''"

text \<open>\<open>processAlive\<close>: signal 0 reaches a running process, also one of another user.\<close>

definition processAlive :: "vm_world \<Rightarrow> int \<Rightarrow> (gerr + bool) \<times> vm_world" where
  "processAlive w pid =
     (case attempt w of
        (Some e, w1) \<Rightarrow> (Inl e, w1)
      | (None, w1) \<Rightarrow> (Inr (pid \<in> set (map vp_pid (vw_procs w1))), w1))"

text \<open>An option of a command line made of option and value pairs.\<close>

fun argOf :: "string \<Rightarrow> string list \<Rightarrow> string option" where
  "argOf k (x # y # xs) = (if x = k then Some y else argOf k xs)"
| "argOf k xs = None"

definition qmpArg :: "string \<Rightarrow> string" where
  "qmpArg addr = ''tcp:'' @ addr @ '',server=on,wait=off''"

text \<open>The kernel gives a new process an id that no process has.\<close>

definition freshPid :: "vm_world \<Rightarrow> int" where
  "freshPid w =
     (let k = int (Suc (vw_nextPid w)); pids = map vp_pid (vw_procs w)
      in if k \<in> set pids then Max (set (k # pids)) + 1 else k)"

text \<open>
  Starting QEMU: the process gets a fresh id. The next outcome tells whether it has written its
  pid file and opened its serial log before the program goes on.
\<close>

definition startProc :: "vm_world \<Rightarrow> string list \<Rightarrow> (gerr + int) \<times> vm_world" where
  "startProc w args =
     (case attempt w of
        (Some e, w1) \<Rightarrow> (Inl e, w1)
      | (None, w1) \<Rightarrow>
          (let pid = freshPid w1;
               w2 = w1\<lparr>vw_procs := vw_procs w1 @ [\<lparr>vp_pid = pid, vp_args = args, vp_quit = False, vp_life = None\<rparr>],
                       vw_nextPid := nat pid\<rparr>
           in case attempt w2 of
                (Some _, w3) \<Rightarrow> (Inr pid, w3)
              | (None, w3) \<Rightarrow>
                  (Inr pid,
                   (case argOf ''-serial'' args of None \<Rightarrow> id | Some s \<Rightarrow> putFile (drop 5 s) (TextFile []))
                   ((case argOf ''-pidfile'' args of None \<Rightarrow> id
                     | Some p \<Rightarrow> putFile p (TextFile (formatInt pid @ newline))) w3))))"

text \<open>\<open>Process.Kill\<close> and \<open>Wait\<close>: when \<open>Wait\<close> returns, the process is gone.\<close>

definition reapProc :: "vm_world \<Rightarrow> int \<Rightarrow> vm_world" where
  "reapProc w pid = w\<lparr>vw_procs := filter (\<lambda>p. vp_pid p \<noteq> pid) (vw_procs w)\<rparr>"

section \<open>Paths below a directory\<close>

lemma isAbs_absPath [simp]: "isAbs (absPath w p)"
  by (simp add: absPath_def) (simp add: isAbs_def)

lemma absPath_abs [simp]: "isAbs p \<Longrightarrow> absPath w p = pathClean p"
  by (simp add: absPath_def)

text \<open>Cleaning a relative path first does not change where it leads.\<close>

lemma cleanParts_relative:
  "\<forall>y \<in> set b. y \<noteq> [] \<and> y \<noteq> ''.'' \<Longrightarrow>
   cleanParts True (rev (cleanParts True acc (rev b))) xs = cleanParts True acc (cleanParts False b xs)"
proof (induction xs arbitrary: b)
  case (Cons x xs)
  consider "x = [] \<or> x = ''.''" | "x = ''..''" "b = []" | ys where "x = ''..''" "b = ''..'' # ys"
    | y ys where "x = ''..''" "b = y # ys" "y \<noteq> ''..''" "y \<noteq> []" "y \<noteq> ''.''"
    | "\<not> (x = [] \<or> x = ''.'')" "x \<noteq> ''..''" using Cons.prems by (cases b) auto
  then show ?case
  proof cases
    case 1
    then show ?thesis using Cons by auto
  next
    case 2
    then show ?thesis using Cons.IH[of "[''..'']"] by (cases acc) auto
  next
    case 3
    have "cleanParts True (rev (cleanParts True acc (rev b))) (''..'' # xs)
        = cleanParts True (rev (cleanParts True acc (rev b @ [''..'']))) xs"
      using cleanParts_append[of True "rev (cleanParts True acc (rev b))" "[''..'']" xs]
      by (simp only: cleanParts_append append_Cons append_Nil)
    then show ?thesis using Cons.IH[of "''..'' # b"] Cons.prems 3 by simp
  next
    case 4
    then have "cleanParts True acc (rev ys @ [y]) = cleanParts True acc (rev ys) @ [y]"
      by (simp add: cleanParts_append)
    then show ?thesis using Cons.IH[of ys] Cons.prems 4 by simp
  next
    case 5
    then have "cleanParts True acc (rev b @ [x]) = cleanParts True acc (rev b) @ [x]"
      by (simp add: cleanParts_append)
    then show ?thesis using Cons.IH[of "x # b"] Cons.prems 5 by simp
  qed
qed simp

lemma pathParts_rel_clean:
  assumes "\<not> isAbs p"
  shows "pathParts (''/'' @ c @ ''/'' @ pathClean p) = pathParts (''/'' @ c @ ''/'' @ p)"
proof -
  let ?a = "rev (cleanParts True [] ([] # splitOn (CHR ''/'') c))"
  have sp: "splitOn (CHR ''/'') (''/'' @ c @ ''/'' @ x) = ([] # splitOn (CHR ''/'') c) @ splitOn (CHR ''/'') x" for x
    by (simp add: splitOn_join)
  have l: "pathParts (''/'' @ c @ ''/'' @ x) = cleanParts True ?a (splitOn (CHR ''/'') x)" for x
    unfolding pathParts_def sp cleanParts_append by (simp add: isAbs_def)
  have r: "cleanParts True ?a (splitOn (CHR ''/'') x) = cleanParts True ?a (pathParts x)" if "\<not> isAbs x" for x
    using cleanParts_relative[of "[]" ?a "splitOn (CHR ''/'') x"] that by (simp add: pathParts_def)
  show ?thesis using l r[OF assms] r[of "pathClean p"] assms by simp
qed

lemma pathParts_join1:
  assumes "plainPart n"
  shows "pathParts (pathJoin root n) = pathParts root @ [n]" and "isAbs (pathJoin root n) = isAbs root"
proof -
  have ns: "CHR ''/'' \<notin> set n" "n \<noteq> []" and pl: "\<forall>u \<in> set [n]. plainPart u"
    using assms by (simp_all add: plainPart_def)
  have "pathParts (pathJoin root n) = pathParts root @ [n] \<and> isAbs (pathJoin root n) = isAbs root"
  proof (cases "root = []")
    case True
    have "\<not> isAbs n" using ns by (cases n) (auto simp: isAbs_def)
    then show ?thesis using True ns pl cleanParts_plain[of "[n]" False "[]"]
      by (simp add: pathJoin_def dropEmpty_def pathParts_def[of n] pathParts_def[of "[]"] splitOn_no_sep)
        (simp add: isAbs_def)
  next
    case False
    then have j: "pathJoin root n = pathClean (root @ CHR ''/'' # n)"
      using ns by (simp add: pathJoin_def dropEmpty_def)
    have a: "isAbs (root @ CHR ''/'' # n) = isAbs root" using False by (cases root) (simp_all add: isAbs_def)
    have "pathParts (root @ CHR ''/'' # n) = pathParts root @ [n]"
      by (simp only: pathParts_def a splitOn_join splitOn_no_sep[OF ns(1)] cleanParts_append
          cleanParts_plain[OF pl] rev_rev_ident)
    then show ?thesis using j a by simp
  qed
  then show "pathParts (pathJoin root n) = pathParts root @ [n]" "isAbs (pathJoin root n) = isAbs root" by simp_all
qed

lemma pathParts_snoc:
  assumes "plainPart n" and "isAbs a"
  shows "pathParts (a @ CHR ''/'' # n) = pathParts a @ [n]"
proof -
  have ns: "CHR ''/'' \<notin> set n" and pl: "\<forall>u \<in> set [n]. plainPart u"
    using assms by (simp_all add: plainPart_def)
  have "isAbs (a @ CHR ''/'' # n) = isAbs a" using assms(2) by (cases a) (simp_all add: isAbs_def)
  then show ?thesis
    by (simp only: pathParts_def splitOn_join splitOn_no_sep[OF ns] cleanParts_append cleanParts_plain[OF pl] rev_rev_ident)
qed

lemma locate_join:
  assumes "plainPart n"
  shows "locate w (pathJoin d n) = locate w d @ [n]"
proof (cases "isAbs d")
  case True
  then show ?thesis using pathParts_join1[OF assms, of d] by (simp add: locate_def)
next
  case False
  let ?r = "''/'' @ vw_cwd w @ ''/'' @ d"
  have d: "\<not> isAbs (pathJoin d n)" using False pathParts_join1[OF assms, of d] by simp
  obtain x where x: "pathJoin d n = pathClean x" "x = (if d = [] then n else d @ ''/'' @ n)"
    using assms by (auto simp: pathJoin_def dropEmpty_def plainPart_def)
  have "\<not> isAbs x" using d x(1) by simp
  then have "locate w (pathJoin d n) = pathParts (''/'' @ vw_cwd w @ ''/'' @ x)"
    using pathParts_rel_clean[of x "vw_cwd w"] d x(1) by (simp add: locate_def absPath_def)
  also have "\<dots> = pathParts ?r @ [n]"
  proof (cases "d = []")
    case True
    have "pathParts (''/'' @ vw_cwd w @ ''/'') = pathParts (''/'' @ vw_cwd w)"
      by (simp add: pathParts_def isAbs_def splitOn_join cleanParts_append)
    then show ?thesis using True x(2) pathParts_snoc[OF assms, of "''/'' @ vw_cwd w"] by (simp add: isAbs_def)
  next
    case False
    then show ?thesis using x(2) pathParts_snoc[OF assms, of ?r] by (simp add: isAbs_def)
  qed
  finally show ?thesis using False by (simp add: locate_def absPath_def)
qed

lemma locate_abs [simp]: "locate w (absPath w d) = locate w d"
  by (simp add: locate_def)

section \<open>Frames\<close>

text \<open>\<open>quiet\<close>: only outcomes were used up. \<open>filesFrame K\<close>: beside that, only the files at \<open>K\<close> changed.\<close>

definition quiet :: "vm_world \<Rightarrow> vm_world \<Rightarrow> bool" where
  "quiet w w' \<longleftrightarrow> w' = w\<lparr>vw_outcomes := vw_outcomes w'\<rparr>"

definition filesFrame :: "string list set \<Rightarrow> vm_world \<Rightarrow> vm_world \<Rightarrow> bool" where
  "filesFrame K w w' \<longleftrightarrow>
     w' = w\<lparr>vw_outcomes := vw_outcomes w', vw_files := vw_files w'\<rparr>
     \<and> (\<forall>k. k \<notin> K \<longrightarrow> map_of (vw_files w') k = map_of (vw_files w) k)"

lemma quiet_refl [simp]: "quiet w w"
  by (simp add: quiet_def)

lemma quiet_trans: "quiet a b \<Longrightarrow> quiet b c \<Longrightarrow> quiet a c"
  unfolding quiet_def by (cases a; cases b; cases c) simp

lemma quiet_frame: "quiet w w' \<Longrightarrow> filesFrame K w w'"
  unfolding quiet_def filesFrame_def by (cases w; cases w') simp

lemma quiet_same:
  assumes "quiet w w'"
  shows "vw_files w' = vw_files w" "vw_procs w' = vw_procs w" "vw_says w' = vw_says w" "vw_lag w' = vw_lag w"
    "vw_env w' = vw_env w" "vw_deadline w' = vw_deadline w" "vw_canon w' = vw_canon w" "absPath w' = absPath w"
    "locate w' = locate w" "fileAt w' = fileAt w"
proof -
  obtain xs where w: "w' = w\<lparr>vw_outcomes := xs\<rparr>" using assms by (auto simp: quiet_def)
  show "vw_files w' = vw_files w" "vw_procs w' = vw_procs w" "vw_says w' = vw_says w" "vw_lag w' = vw_lag w"
    "vw_env w' = vw_env w" "vw_deadline w' = vw_deadline w" "vw_canon w' = vw_canon w" "absPath w' = absPath w"
    "locate w' = locate w" "fileAt w' = fileAt w"
    by (simp_all add: w absPath_def locate_def fileAt_def fun_eq_iff)
qed

lemma frame_same:
  assumes "filesFrame K w w'"
  shows "vw_procs w' = vw_procs w" "vw_says w' = vw_says w" "vw_lag w' = vw_lag w" "vw_env w' = vw_env w"
    "vw_deadline w' = vw_deadline w" "absPath w' = absPath w" "locate w' = locate w" "vw_nextPid w' = vw_nextPid w"
proof -
  obtain xs fs where w: "w' = w\<lparr>vw_outcomes := xs, vw_files := fs\<rparr>" using assms by (auto simp: filesFrame_def)
  show "vw_procs w' = vw_procs w" "vw_says w' = vw_says w" "vw_lag w' = vw_lag w" "vw_env w' = vw_env w"
    "vw_deadline w' = vw_deadline w" "absPath w' = absPath w" "locate w' = locate w" "vw_nextPid w' = vw_nextPid w"
    by (simp_all add: w absPath_def locate_def fun_eq_iff)
qed

lemma frame_file: "filesFrame K w w' \<Longrightarrow> k \<notin> K \<Longrightarrow> map_of (vw_files w') k = map_of (vw_files w) k"
  by (simp add: filesFrame_def)

lemma frame_refl [simp]: "filesFrame K w w"
  by (simp add: filesFrame_def)

lemma frame_mono: "filesFrame K w w' \<Longrightarrow> K \<subseteq> L \<Longrightarrow> filesFrame L w w'"
  by (auto simp: filesFrame_def)

lemma frame_trans: "filesFrame K a b \<Longrightarrow> filesFrame K b c \<Longrightarrow> filesFrame K a c"
  unfolding filesFrame_def by (cases a; cases b; cases c) auto

lemma frame_put [simp]: "filesFrame K w (putFile p f w) \<longleftrightarrow> locate w p \<in> K \<or> fileAt w p = Some f"
  by (auto simp: filesFrame_def putFile_def update_conv' fileAt_def)

lemma frame_drop: "locate w p \<in> K \<Longrightarrow> filesFrame K w (dropFile p w)"
  by (auto simp: filesFrame_def dropFile_def delete_conv')

lemma fileAt_put [simp]: "fileAt (putFile p f w) q = (if locate w q = locate w p then Some f else fileAt w q)"
  and map_of_put: "map_of (vw_files (putFile p f w)) k = (if k = locate w p then Some f else map_of (vw_files w) k)"
  and locate_put [simp]: "locate (putFile p f w) = locate w"
  by (auto simp: putFile_def fileAt_def locate_def absPath_def update_conv' fun_eq_iff)

lemma fileAt_drop [simp]: "fileAt (dropFile p w) q = (if locate w q = locate w p then None else fileAt w q)"
  and map_of_drop: "map_of (vw_files (dropFile p w)) k = (if k = locate w p then None else map_of (vw_files w) k)"
  and locate_drop [simp]: "locate (dropFile p w) = locate w"
  by (auto simp: dropFile_def fileAt_def locate_def absPath_def delete_conv' fun_eq_iff)

lemma takeOutcome_quiet: "takeOutcome w = (x, w') \<Longrightarrow> quiet w w'"
  by (auto simp: takeOutcome_def quiet_def split: list.splits)

lemma attempt_quiet: "attempt w = (e, w') \<Longrightarrow> quiet w w'"
  by (auto simp: attempt_def takeOutcome_quiet split: prod.splits)

lemma attempt_err: "attempt w = (Some e, w') \<Longrightarrow> \<not> errIs s e"
  by (auto simp: attempt_def outcomeErr_def split: prod.splits outcome.splits)

lemma osReadFile_quiet: "osReadFile w p = (r, w') \<Longrightarrow> quiet w w'"
  by (auto simp: osReadFile_def attempt_quiet split: prod.splits option.splits)

lemma osReadFile_Inr: "osReadFile w p = (Inr f, w') \<Longrightarrow> fileAt w p = Some f"
  by (auto simp: osReadFile_def split: prod.splits option.splits dest!: attempt_quiet quiet_same(10))

lemma osReadFile_absent: "osReadFile w p = (Inl e, w') \<Longrightarrow> errIs OsErrNotExist e \<Longrightarrow> fileAt w p = None"
  by (auto simp: osReadFile_def attempt_err split: prod.splits option.splits dest!: attempt_quiet quiet_same(10))

lemma osStat_quiet: "osStat w p = (e, w') \<Longrightarrow> quiet w w'"
  by (auto simp: osStat_def osReadFile_quiet split: prod.splits sum.splits)

lemma osStat_absent: "osStat w p = (Some e, w') \<Longrightarrow> errIs OsErrNotExist e \<Longrightarrow> fileAt w p = None"
  by (auto simp: osStat_def osReadFile_absent split: prod.splits sum.splits)

lemma osRemove_frame: "osRemove w p = (e, w') \<Longrightarrow> filesFrame {locate w p} w w'"
  unfolding osRemove_def
  by (auto split: prod.splits option.splits dest!: osStat_quiet intro: quiet_frame
      intro!: frame_trans[OF quiet_frame frame_drop] simp: quiet_same)

text \<open>A removal that succeeds, or finds nothing, leaves nothing.\<close>

lemma osRemove_gone:
  assumes "osRemove w p = (e, w')" and "e = None \<or> (\<exists>x. e = Some x \<and> errIs OsErrNotExist x)"
  shows "map_of (vw_files w') (locate w p) = None"
proof (cases "fst (osStat w p)")
  case None
  then obtain w1 where s: "osStat w p = (None, w1)" by (cases "osStat w p") auto
  then have "w' = dropFile p w1" using assms(1) by (simp add: osRemove_def)
  then show ?thesis using quiet_same[OF osStat_quiet[OF s]] by (simp add: map_of_drop)
next
  case (Some x)
  then obtain w1 where s: "osStat w p = (Some x, w1)" by (cases "osStat w p") auto
  then have e: "e = Some x" "w' = w1" using assms(1) by (simp_all add: osRemove_def)
  then have "fileAt w p = None" using osStat_absent[OF s] assms(2) by auto
  then show ?thesis using quiet_same[OF osStat_quiet[OF s]] e by (simp add: fileAt_def)
qed

lemma writeThrough_frame: "writeThrough w p f = (e, w') \<Longrightarrow> filesFrame {locate w p} w w'"
proof -
  assume a: "writeThrough w p f = (e, w')"
  obtain x w1 where x: "takeOutcome w = (x, w1)" by (cases "takeOutcome w")
  note q = takeOutcome_quiet[OF x]
  have "filesFrame {locate w p} w1 w'"
    using a x q by (auto simp: writeThrough_def quiet_same split: if_splits)
  then show ?thesis using frame_trans[OF quiet_frame[OF q]] by blast
qed

lemma copyFile_frame: "copyFile w dst src = (e, w') \<Longrightarrow> filesFrame {locate w dst} w w'"
proof -
  assume a: "copyFile w dst src = (e, w')"
  obtain r w1 where r: "osReadFile w src = (r, w1)" by (cases "osReadFile w src")
  note q = osReadFile_quiet[OF r]
  have "filesFrame {locate w dst} w1 w'"
    using a r writeThrough_frame[of w1 dst _ e w'] quiet_same(9)[OF q] by (auto simp: copyFile_def split: sum.splits)
  then show ?thesis using frame_trans[OF quiet_frame[OF q]] by blast
qed

lemma writeThrough_written: "writeThrough w p f = (None, w') \<Longrightarrow> map_of (vw_files w') (locate w p) = Some f"
  by (auto simp: writeThrough_def leavesFile_def outcomeErr_def map_of_put quiet_same
      split: prod.splits outcome.splits dest!: takeOutcome_quiet)

lemma processAlive_quiet: "processAlive w pid = (r, w') \<Longrightarrow> quiet w w'"
  by (auto simp: processAlive_def attempt_quiet split: prod.splits option.splits)

lemma processAlive_Inr: "processAlive w pid = (Inr a, w') \<Longrightarrow> a = (pid \<in> vp_pid ` set (vw_procs w'))"
  by (auto simp: processAlive_def split: prod.splits option.splits)

lemma freshPid_pos: "0 < freshPid w" and freshPid_fresh: "freshPid w \<notin> vp_pid ` set (vw_procs w)"
proof -
  let ?k = "int (Suc (vw_nextPid w))" and ?S = "insert (int (Suc (vw_nextPid w))) (vp_pid ` set (vw_procs w))"
  have m: "x \<le> Max ?S" if "x \<in> ?S" for x using that by (intro Max_ge) auto
  have "0 < ?k" "?k \<le> Max ?S" using m[of ?k] by auto
  then show "0 < freshPid w" unfolding freshPid_def Let_def set_simps set_map by (simp only: split: if_splits) (intro conjI impI TrueI, linarith)
  show "freshPid w \<notin> vp_pid ` set (vw_procs w)"
  proof
    assume a: "freshPid w \<in> vp_pid ` set (vw_procs w)"
    then have k: "?k \<in> vp_pid ` set (vw_procs w)" by (auto simp: freshPid_def Let_def split: if_splits)
    then have "freshPid w = Max ?S + 1" by (auto simp: freshPid_def Let_def)
    then show False using m[of "freshPid w"] a by auto
  qed
qed

end
