(* ===== verification/Vm_Backend.thy ===== *)
theory Vm_Backend
  imports Vm_Host
begin

text \<open>
  The Windows VM runner (\<open>internal/winvm/backend.go\<close>, \<open>qemu.go\<close>, \<open>qmp.go\<close>, \<open>iso.go\<close>): a runner is a QEMU
  process on a copy-on-write overlay of the golden image, with a record beside it that lets a
  restarted process find the VM, stop it by name and clear its files.

  A VM that survives its parent is only stopped through QMP after it has reported the recorded
  name, and its files are only removed once its process is known to be gone. SHA-256 is the
  parameter \<open>sha\<close>. The random port of \<open>net.Listen\<close> is the parameter \<open>addr\<close>.
\<close>

section \<open>QEMU command lines\<close>

record firmware =
  fw_CodeFD :: string
  fw_VarsFD :: string

record launch_opts =
  lo_Overlay :: string
  lo_JITISOPath :: string
  lo_Name :: string
  lo_QMPAddr :: string
  lo_PIDFile :: string
  lo_MemMB :: int
  lo_CPUs :: int
  lo_Accel :: string
  lo_Firmware :: firmware

definition DetectAccel :: "bool \<Rightarrow> string \<Rightarrow> string \<Rightarrow> string" where
  "DetectAccel kvmAvailable goos goarch =
     (if goarch \<noteq> ''amd64'' then ''tcg''
      else if goos = ''linux'' then (if kvmAvailable then ''kvm'' else ''tcg'')
      else if goos = ''windows'' then ''whpx''
      else if goos = ''darwin'' then ''hvf''
      else ''tcg'')"

definition cpuArg :: "string \<Rightarrow> string" where
  "cpuArg accel =
     (if accel = ''whpx'' then ''qemu64,hv-relaxed,hv-vapic,hv-spinlocks=0x1fff,hv-time,hv-synic,hv-stimer,hv-reset''
      else if accel = ''tcg'' \<or> accel = [] then ''max''
      else ''host'')"

fun firstExisting :: "(string \<Rightarrow> bool) \<Rightarrow> string \<Rightarrow> string list \<Rightarrow> string" where
  "firstExisting exists dir [] = []"
| "firstExisting exists dir (n # ns) =
     (if exists (pathJoin dir n) then pathJoin dir n else firstExisting exists dir ns)"

definition ovmfDirs :: "string option \<Rightarrow> string list" where
  "ovmfDirs qemuDir =
     (case qemuDir of None \<Rightarrow> [] | Some p \<Rightarrow> [pathJoin p ''share'', pathJoin p ''../share/qemu''])
     @ [''/usr/share/OVMF'', ''/usr/share/edk2/x64'', ''/usr/share/edk2-ovmf/x64'',
        ''/usr/share/qemu'', ''/usr/share/edk2/ovmf'', ''/usr/share/pve-edk2-firmware'']"

definition ovmfCodes :: "string list" where
  "ovmfCodes = [''edk2-x86_64-code.fd'', ''OVMF_CODE.fd'', ''OVMF_CODE_4M.fd'', ''OVMF_CODE.secboot.fd'']"

definition ovmfVars :: "string list" where
  "ovmfVars = [''edk2-i386-vars.fd'', ''OVMF_VARS.fd'', ''OVMF_VARS_4M.fd'']"

fun searchOVMF :: "(string \<Rightarrow> bool) \<Rightarrow> string list \<Rightarrow> string \<times> string" where
  "searchOVMF exists [] = ([], [])"
| "searchOVMF exists (d # ds) =
     (let c = firstExisting exists d ovmfCodes; v = firstExisting exists d ovmfVars
      in if c \<noteq> [] \<and> v \<noteq> [] then (c, v) else searchOVMF exists ds)"

definition DetectOVMF :: "(string \<Rightarrow> bool) \<Rightarrow> string option \<Rightarrow> string \<times> string" where
  "DetectOVMF exists qemuDir = searchOVMF exists (ovmfDirs qemuDir)"

definition OverlayCreateArgs :: "string \<Rightarrow> string \<Rightarrow> string list" where
  "OverlayCreateArgs golden overlay =
     [''create'', ''-q'', ''-f'', ''qcow2'', ''-F'', ''qcow2'', ''-b'', golden, overlay]"

definition QEMUArgs :: "string list \<Rightarrow> launch_opts \<Rightarrow> string list" where
  "QEMUArgs env x =
     (let accel = (if lo_Accel x = [] then ''tcg'' else lo_Accel x);
          mem = (if lo_MemMB x \<le> 0 then 4096 else lo_MemMB x);
          cpus = (if lo_CPUs x \<le> 0 then 2 else lo_CPUs x);
          vnc = osGetenv env ''MULTIRUNNER_VM_VNC''
      in [''-machine'', ''q35'', ''-accel'', accel, ''-cpu'', cpuArg accel,
          ''-m'', formatInt mem, ''-smp'', formatInt cpus]
         @ (if lo_Name x \<noteq> [] then [''-name'', lo_Name x] else [])
         @ (if lo_PIDFile x \<noteq> [] then [''-pidfile'', lo_PIDFile x] else [])
         @ (if lo_QMPAddr x \<noteq> [] then [''-qmp'', qmpArg (lo_QMPAddr x)] else [])
         @ (if fw_CodeFD (lo_Firmware x) \<noteq> [] then
              [''-drive'', ''if=pflash,format=raw,unit=0,readonly=on,file='' @ fw_CodeFD (lo_Firmware x),
               ''-drive'', ''if=pflash,format=raw,unit=1,file='' @ fw_VarsFD (lo_Firmware x)] else [])
         @ [''-drive'', ''file='' @ lo_Overlay x @ '',if=none,id=osdisk,format=qcow2'',
            ''-device'', ''ahci,id=ahci'', ''-device'', ''ide-hd,drive=osdisk,bus=ahci.0'',
            ''-netdev'', ''user,id=n0'', ''-device'', ''e1000,netdev=n0'',
            ''-serial'', ''file:'' @ lo_Overlay x @ ''.serial.log'']
         @ (if vnc \<noteq> [] then
              [''-vnc'', vnc] @ (if lo_QMPAddr x = [] then [''-qmp'', qmpArg ''127.0.0.1:4457''] else [])
            else [''-display'', ''none''])
         @ (if lo_JITISOPath x \<noteq> [] then
              [''-drive'', ''file='' @ lo_JITISOPath x @ '',media=cdrom,readonly=on''] else []))"

section \<open>The configuration ISO\<close>

definition renderEnv :: "(string \<times> string) list \<Rightarrow> string" where
  "renderEnv env = concat (map (\<lambda>kv. kv @ [CHR 0x0D, CHR 0x0A]) (sortedEnv env))"

definition BuildISO :: "vm_world \<Rightarrow> string \<Rightarrow> string \<Rightarrow> (string \<times> string) list \<Rightarrow> gerr option \<times> vm_world" where
  "BuildISO w path label files = writeThrough w path (IsoFile label files)"

definition jitFiles :: "string \<Rightarrow> (string \<times> string) list \<Rightarrow> (string \<times> string) list" where
  "jitFiles jit env = (''jitconfig.txt'', jit) # (if env \<noteq> [] then [(''runnerenv.txt'', renderEnv env)] else [])"

definition BuildJITISO ::
  "vm_world \<Rightarrow> string \<Rightarrow> string \<Rightarrow> (string \<times> string) list \<Rightarrow> gerr option \<times> vm_world" where
  "BuildJITISO w path jit env = BuildISO w path ''MRJIT'' (jitFiles jit env)"

definition slirpHost :: string where
  "slirpHost = ''10.0.2.2''"

definition vmEnv :: "(string \<times> string) list \<Rightarrow> (string \<times> string) list" where
  "vmEnv env = RewriteCacheHost env slirpHost"

section \<open>QMP\<close>

text \<open>
  One connection: the lines still to be read, the result of each write to come and the commands
  written so far (a command whose write failed may still have arrived).
\<close>

record qmp_conn =
  qc_lines :: "qmp_line list"
  qc_writes :: "gerr option list"
  qc_sent :: "string list"

definition qmpReadErr :: gerr where
  "qmpReadErr = Leaf ''EOF''"

fun qmpReply :: "qmp_line list \<Rightarrow> (gerr + string option) \<times> qmp_line list" where
  "qmpReply [] = (Inl qmpReadErr, [])"
| "qmpReply (QGarbage # ls) = (Inl (Leaf ''invalid character''), ls)"
| "qmpReply (QError cls desc # ls) = (Inl (Leaf (cls @ '': '' @ desc)), ls)"
| "qmpReply (QReturn raw # ls) = (Inr raw, ls)"
| "qmpReply (QEvent # ls) = qmpReply ls"

definition qmpWrite :: "qmp_conn \<Rightarrow> string \<Rightarrow> gerr option \<times> qmp_conn" where
  "qmpWrite c cmd =
     (case qc_writes c of
        [] \<Rightarrow> (None, c\<lparr>qc_sent := qc_sent c @ [cmd]\<rparr>)
      | e # es \<Rightarrow> (e, c\<lparr>qc_sent := qc_sent c @ [cmd], qc_writes := es\<rparr>))"

definition qmpExecute :: "qmp_conn \<Rightarrow> string \<Rightarrow> (gerr + string option) \<times> qmp_conn" where
  "qmpExecute c cmd =
     (case qmpWrite c cmd of
        (Some e, c1) \<Rightarrow> (Inl e, c1)
      | (None, c1) \<Rightarrow> (case qmpReply (qc_lines c1) of (r, ls) \<Rightarrow> (r, c1\<lparr>qc_lines := ls\<rparr>)))"

text \<open>\<open>QMPQuitNamed\<close> once the connection is open.\<close>

definition QMPQuitNamed :: "qmp_conn \<Rightarrow> string \<Rightarrow> gerr option \<times> qmp_conn" where
  "QMPQuitNamed c expectedName =
     (case qc_lines c of
        [] \<Rightarrow> (Some (errorf ''qmp greeting: '' qmpReadErr), c)
      | greeting # ls \<Rightarrow>
         (case qmpExecute (c\<lparr>qc_lines := ls\<rparr>) ''qmp_capabilities'' of
            (Inl e, c1) \<Rightarrow> (Some (errorf ''qmp capabilities: '' e), c1)
          | (Inr _, c1) \<Rightarrow>
             (case qmpExecute c1 ''query-name'' of
                (Inl e, c2) \<Rightarrow> (Some (errorf ''query qemu name: '' e), c2)
              | (Inr None, c2) \<Rightarrow> (Some (errorf ''decode qemu name: '' (Leaf ''json'')), c2)
              | (Inr (Some name), c2) \<Rightarrow>
                  if name \<noteq> expectedName
                  then (Some (Leaf (''qemu identity mismatch: got '' @ goQuote name
                          @ '', want '' @ goQuote expectedName)), c2)
                  else (case qmpExecute c2 ''quit'' of
                          (Inl e, c3) \<Rightarrow> (Some (errorf ''quit qemu: '' e), c3)
                        | (Inr _, c3) \<Rightarrow> (None, c3)))))"

text \<open>
  The \<open>quitNamed\<close> of a backend: dial the endpoint and run \<open>QMPQuitNamed\<close> against the process that
  listens there. A process that received \<open>quit\<close> exits within \<open>vw_lag\<close> ticks.
\<close>

definition listenerAt :: "vm_world \<Rightarrow> string \<Rightarrow> vm_proc option" where
  "listenerAt w addr = find (\<lambda>p. argOf ''-qmp'' (vp_args p) = Some (qmpArg addr)) (vw_procs w)"

definition tellQuit :: "int \<Rightarrow> vm_world \<Rightarrow> vm_world" where
  "tellQuit pid w =
     w\<lparr>vw_procs := map (\<lambda>p. if vp_pid p = pid then p\<lparr>vp_quit := True, vp_life := Some (vw_lag w)\<rparr> else p) (vw_procs w)\<rparr>"

definition quitNamed :: "vm_world \<Rightarrow> string \<Rightarrow> string \<Rightarrow> gerr option \<times> vm_world" where
  "quitNamed w addr name =
     (case attempt w of
        (Some e, w1) \<Rightarrow> (Some (errorf ''dial qmp: '' e), w1)
      | (None, w1) \<Rightarrow>
         (case listenerAt w1 addr of
            None \<Rightarrow> (Some (errorf ''dial qmp: '' (Leaf ''connection refused'')), w1)
          | Some p \<Rightarrow>
             (case takeOutcome w1 of
                (x, w2) \<Rightarrow>
                  (case QMPQuitNamed \<lparr>qc_lines = vw_says w2 (vp_pid p),
                          qc_writes = [None, None, outcomeErr x], qc_sent = []\<rparr> name of
                     (e, c) \<Rightarrow> (e, if ''quit'' \<in> set (qc_sent c) then tellQuit (vp_pid p) w2 else w2)))))"

section \<open>Records\<close>

definition portableBaseName :: "string \<Rightarrow> bool" where
  "portableBaseName name \<longleftrightarrow>
     \<not> (name = [] \<or> name = ''.'' \<or> name = ''..'' \<or> containsAny name [CHR ''/'', CHR 0x5C, CHR '':''] \<or> isAbs name)"

definition ownershipNamespace :: "(string \<Rightarrow> string) \<Rightarrow> ownership \<Rightarrow> string" where
  "ownershipNamespace sha ow =
     hexEncode (take 8 (sha (ow_Instance ow @ [CHR 0x00] @ ow_Target ow @ [CHR 0x00] @ ow_Pool ow)))"

definition ownershipMatches :: "ownership \<Rightarrow> ownership \<Rightarrow> bool" where
  "ownershipMatches actual expected \<longleftrightarrow>
     ow_Instance actual = ow_Instance expected \<and> ow_Target actual = ow_Target expected
     \<and> ow_Pool actual = ow_Pool expected"

definition recordSuffix :: string where
  "recordSuffix = ''.runner.json''"

definition runnerRecordName :: "(string \<Rightarrow> string) \<Rightarrow> string \<Rightarrow> ownership \<Rightarrow> string" where
  "runnerRecordName sha name ow =
     (if ownershipIsZero ow then name @ recordSuffix
      else ownershipNamespace sha ow @ ''.'' @ name @ recordSuffix)"

definition containedRunnerPath :: "vm_world \<Rightarrow> string \<Rightarrow> string \<Rightarrow> (gerr + string) \<times> vm_world" where
  "containedRunnerPath w workDir name =
     (if \<not> portableBaseName name then (Inl (Leaf ''must be a portable basename''), w)
      else (let root = absPath w workDir; candidate = pathJoin root name in
        case osStat w candidate of
          (Some e, w1) \<Rightarrow>
            if errIs OsErrNotExist e then (Inr candidate, w1) else (Inl (errorf ''inspect path: '' e), w1)
        | (None, w1) \<Rightarrow>
            (case attempt w1 of
               (Some e, w2) \<Rightarrow> (Inl (errorf ''resolve work directory links: '' e), w2)
             | (None, w2) \<Rightarrow>
                (case attempt w2 of
                   (Some e, w3) \<Rightarrow> (Inl (errorf ''resolve path links: '' e), w3)
                 | (None, w3) \<Rightarrow>
                    (case pathRel (vw_canon w3 root) (vw_canon w3 candidate) of
                       None \<Rightarrow> (Inl (Leaf ''canonical path escapes work directory''), w3)
                     | Some rel \<Rightarrow>
                         if isAbs rel \<or> rel = ''..'' \<or> hasPrefix rel ''../''
                         then (Inl (Leaf ''canonical path escapes work directory''), w3)
                         else (Inr candidate, w3))))))"

definition runnerArtifactPath :: "vm_world \<Rightarrow> string \<Rightarrow> string \<Rightarrow> (gerr + string) \<times> vm_world" where
  "runnerArtifactPath w workDir name =
     (case containedRunnerPath w workDir name of
        (Inl e, w1) \<Rightarrow> (Inl (errorf (''invalid qemu artifact name '' @ goQuote name @ '': '') e), w1)
      | (Inr p, w1) \<Rightarrow> (Inr p, w1))"

fun attempts :: "nat \<Rightarrow> vm_world \<Rightarrow> gerr option \<times> vm_world" where
  "attempts 0 w = (None, w)"
| "attempts (Suc n) w = (case attempt w of (Some e, w1) \<Rightarrow> (Some e, w1) | (None, w1) \<Rightarrow> attempts n w1)"

text \<open>
  The record is written to a temporary file (create, chmod, write, sync and close can fail) that a
  rename moves over the target; the temporary file itself is not an entry of the store.
\<close>

definition writeRunnerRecord :: "vm_world \<Rightarrow> string \<Rightarrow> runner_record \<Rightarrow> gerr option \<times> vm_world" where
  "writeRunnerRecord w path record =
     (case attempts 6 w of
        (Some e, w1) \<Rightarrow> (Some e, w1)
      | (None, w1) \<Rightarrow> (None, putFile path (RecordFile record) w1))"

definition readRunnerRecord :: "vm_world \<Rightarrow> string \<Rightarrow> (gerr + runner_record) \<times> vm_world" where
  "readRunnerRecord w path =
     (case osReadFile w path of
        (Inl e, w1) \<Rightarrow> (Inl e, w1)
      | (Inr (RecordFile r), w1) \<Rightarrow> (Inr r, w1)
      | (Inr _, w1) \<Rightarrow> (Inl (Leaf ''invalid character''), w1))"

definition textOf :: "vm_file \<Rightarrow> string" where
  "textOf f = (case f of TextFile s \<Rightarrow> s | _ \<Rightarrow> ''binary'')"

definition runnerPID :: "vm_world \<Rightarrow> string \<Rightarrow> runner_record \<Rightarrow> (gerr + int) \<times> vm_world" where
  "runnerPID w workDir r =
     (if rr_PIDFile r = [] then (Inr (rr_PID r), w)
      else case runnerArtifactPath w workDir (rr_PIDFile r) of
        (Inl e, w1) \<Rightarrow> (Inl e, w1)
      | (Inr path, w1) \<Rightarrow>
         (case osReadFile w1 path of
            (Inl e, w2) \<Rightarrow>
              if errIs OsErrNotExist e then (Inr (rr_PID r), w2)
              else (Inl (errorf ''read qemu pid file: '' e), w2)
          | (Inr f, w2) \<Rightarrow>
             (case parseInt64 (trimSpace (textOf f)) of
                None \<Rightarrow> (Inl (Leaf (''invalid qemu pid file '' @ rr_PIDFile r)), w2)
              | Some v \<Rightarrow>
                  if v \<le> 0 then (Inl (Leaf (''invalid qemu pid file '' @ rr_PIDFile r)), w2)
                  else (Inr v, w2))))"

text \<open>\<open>waitForProcessExit\<close>: \<open>None\<close> is a wait that never ends.\<close>

partial_function (option) waitForProcessExit :: "int \<Rightarrow> vm_world \<Rightarrow> (gerr option \<times> vm_world) option" where
  "waitForProcessExit pid w =
     (case processAlive w pid of
        (Inl e, w1) \<Rightarrow> Some (Some e, w1)
      | (Inr running, w1) \<Rightarrow>
          if \<not> running then Some (None, w1)
          else if ctxDone w1 then Some (Some ctxErr, w1)
          else waitForProcessExit pid (tick w1))"

text \<open>One round of the loop of \<open>removeRunnerArtifacts\<close>, and the loop.\<close>

definition removeArtifact :: "string \<Rightarrow> string \<Rightarrow> vm_world \<Rightarrow> gerr list \<times> vm_world" where
  "removeArtifact workDir name w =
     (if name = [] then ([], w)
      else case runnerArtifactPath w workDir name of
        (Inl e, w1) \<Rightarrow> ([e], w1)
      | (Inr path, w1) \<Rightarrow>
         (case osRemove w1 path of
            (None, w2) \<Rightarrow> ([], w2)
          | (Some e, w2) \<Rightarrow>
              if errIs OsErrNotExist e then ([], w2)
              else ([errorf (''remove qemu artifact '' @ name @ '': '') e], w2)))"

fun removeArtifactsLoop :: "string \<Rightarrow> string list \<Rightarrow> vm_world \<Rightarrow> gerr list \<times> vm_world" where
  "removeArtifactsLoop workDir [] w = ([], w)"
| "removeArtifactsLoop workDir (n # ns) w =
     (case removeArtifact workDir n w of
        (es, w1) \<Rightarrow> (case removeArtifactsLoop workDir ns w1 of (fs, w2) \<Rightarrow> (es @ fs, w2)))"

definition artifactsOf :: "runner_record \<Rightarrow> string list" where
  "artifactsOf r = [rr_Overlay r, rr_ISO r, rr_Vars r, rr_Serial r, rr_PIDFile r]"

definition removeRunnerArtifacts :: "vm_world \<Rightarrow> string \<Rightarrow> runner_record \<Rightarrow> gerr option \<times> vm_world" where
  "removeRunnerArtifacts w workDir r =
     (case removeArtifactsLoop workDir (artifactsOf r) w of (es, w1) \<Rightarrow> (joinErrs es, w1))"

definition removeRunnerRecord :: "vm_world \<Rightarrow> string \<Rightarrow> string \<Rightarrow> runner_record \<Rightarrow> gerr option \<times> vm_world" where
  "removeRunnerRecord w workDir recordPath r =
     (case removeRunnerArtifacts w workDir r of
        (Some e, w1) \<Rightarrow> (Some e, w1)
      | (None, w1) \<Rightarrow>
         (case osRemove w1 recordPath of
            (None, w2) \<Rightarrow> (None, w2)
          | (Some e, w2) \<Rightarrow>
              if errIs OsErrNotExist e then (None, w2)
              else (Some (errorf ''remove qemu runner record: '' e), w2)))"

section \<open>The backend\<close>

record vm_options =
  vo_Golden :: string
  vo_WorkDir :: string
  vo_MemMB :: int
  vo_CPUs :: int
  vo_Accel :: string
  vo_QEMUBin :: string
  vo_ImgBin :: string

record vm_backend =
  vb_opt :: vm_options
  vb_accel :: string
  vb_ovmfCode :: string

text \<open>What \<open>NewBackend\<close> asks of the host: \<open>os.TempDir\<close>, the platform, KVM and the firmware files.\<close>

record vm_platform =
  vf_TempDir :: string
  vf_GOOS :: string
  vf_GOARCH :: string
  vf_kvm :: bool
  vf_exists :: "string \<Rightarrow> bool"
  vf_qemuDir :: "string \<Rightarrow> string option"

definition NewBackend :: "vm_platform \<Rightarrow> vm_options \<Rightarrow> gerr + vm_backend" where
  "NewBackend pf opt =
     (if vo_Golden opt = []
      then Inl (Leaf ''qemu backend: golden image path is required (run: multirunner bake)'')
      else (let opt1 = opt\<lparr>vo_WorkDir := (if vo_WorkDir opt = [] then pathJoin (vf_TempDir pf) ''multirunner-vm'' else vo_WorkDir opt),
                           vo_QEMUBin := (if vo_QEMUBin opt = [] then ''qemu-system-x86_64'' else vo_QEMUBin opt),
                           vo_ImgBin := (if vo_ImgBin opt = [] then ''qemu-img'' else vo_ImgBin opt)\<rparr>
            in Inr \<lparr>vb_opt = opt1,
                    vb_accel = (if vo_Accel opt = [] then DetectAccel (vf_kvm pf) (vf_GOOS pf) (vf_GOARCH pf) else vo_Accel opt),
                    vb_ovmfCode = fst (DetectOVMF (vf_exists pf) (vf_qemuDir pf (vo_QEMUBin opt1)))\<rparr>))"

fun removeAll :: "string list \<Rightarrow> vm_world \<Rightarrow> vm_world" where
  "removeAll [] w = w"
| "removeAll (p # ps) w = removeAll ps (snd (osRemove w p))"

definition orphanPatterns :: "string list" where
  "orphanPatterns = [''*.qcow2'', ''*.iso'', ''*.vars.fd'', ''*.serial.log'']"

fun cleanupPatterns :: "string \<Rightarrow> string list \<Rightarrow> vm_world \<Rightarrow> vm_world" where
  "cleanupPatterns workDir [] w = w"
| "cleanupPatterns workDir (pat # pats) w =
     cleanupPatterns workDir pats
       (case Glob w (pathJoin workDir pat) of Inl _ \<Rightarrow> w | Inr ps \<Rightarrow> removeAll ps w)"

definition CleanupOrphans :: "vm_backend \<Rightarrow> vm_world \<Rightarrow> vm_world" where
  "CleanupOrphans b w = cleanupPatterns (vo_WorkDir (vb_opt b)) orphanPatterns w"

definition goldenMissing :: "string \<Rightarrow> gerr \<Rightarrow> gerr" where
  "goldenMissing golden e = errorf (''golden image '' @ golden @ '' missing (run: multirunner bake): '') e"

definition EnsureImage :: "vm_backend \<Rightarrow> vm_world \<Rightarrow> gerr option \<times> vm_world" where
  "EnsureImage b w =
     (case osStat w (vo_Golden (vb_opt b)) of
        (Some e, w1) \<Rightarrow> (Some (goldenMissing (vo_Golden (vb_opt b)) e), w1)
      | (None, w1) \<Rightarrow> (None, w1))"

definition Ping :: "(string \<Rightarrow> gerr option) \<Rightarrow> vm_backend \<Rightarrow> vm_world \<Rightarrow> gerr option \<times> vm_world" where
  "Ping lookPath b w =
     (case lookPath (vo_QEMUBin (vb_opt b)) of
        Some e \<Rightarrow> (Some (errorf (vo_QEMUBin (vb_opt b) @ '' not found on PATH: '') e), w)
      | None \<Rightarrow>
         (case lookPath (vo_ImgBin (vb_opt b)) of
            Some e \<Rightarrow> (Some (errorf (vo_ImgBin (vb_opt b) @ '' not found on PATH: '') e), w)
          | None \<Rightarrow> EnsureImage b w))"

definition GoldenVarsPath :: "string \<Rightarrow> string" where
  "GoldenVarsPath golden = golden @ ''.vars.fd''"

text \<open>The paths and the first record of a launch.\<close>

definition launchRecord :: "string \<Rightarrow> launch_request \<Rightarrow> runner_record" where
  "launchRecord addr req =
     \<lparr>rr_Name = lr_Name req, rr_Ownership = lr_Ownership req, rr_QMPAddr = addr, rr_PID = 0,
      rr_PIDFile = lr_Name req @ ''.pid'', rr_Overlay = lr_Name req @ ''.qcow2'',
      rr_ISO = lr_Name req @ ''.iso'', rr_Vars = lr_Name req @ ''.vars.fd'',
      rr_Serial = lr_Name req @ ''.qcow2.serial.log'', rr_Started = False\<rparr>"

definition recordPathOf :: "(string \<Rightarrow> string) \<Rightarrow> vm_backend \<Rightarrow> launch_request \<Rightarrow> string" where
  "recordPathOf sha b req =
     pathJoin (vo_WorkDir (vb_opt b)) (runnerRecordName sha (lr_Name req) (lr_Ownership req))"

definition vmOpts :: "vm_backend \<Rightarrow> launch_request \<Rightarrow> string \<Rightarrow> firmware \<Rightarrow> launch_opts" where
  "vmOpts b req addr fw =
     (let dir = vo_WorkDir (vb_opt b) in
      \<lparr>lo_Overlay = pathJoin dir (lr_Name req @ ''.qcow2''), lo_JITISOPath = pathJoin dir (lr_Name req @ ''.iso''),
       lo_Name = lr_Name req, lo_QMPAddr = addr, lo_PIDFile = pathJoin dir (lr_Name req @ ''.pid''),
       lo_MemMB = vo_MemMB (vb_opt b), lo_CPUs = vo_CPUs (vb_opt b), lo_Accel = vb_accel b, lo_Firmware = fw\<rparr>)"

text \<open>\<open>errors.Join(err, cleanupFailedLaunch())\<close>.\<close>

definition failLaunch ::
  "vm_backend \<Rightarrow> string \<Rightarrow> runner_record \<Rightarrow> gerr \<Rightarrow> vm_world \<Rightarrow> (string option \<times> gerr option) \<times> vm_world" where
  "failLaunch b recordPath record e w =
     (case removeRunnerRecord w (vo_WorkDir (vb_opt b)) recordPath record of
        (ce, w1) \<Rightarrow> ((None, joinErrs (e # (case ce of None \<Rightarrow> [] | Some c \<Rightarrow> [c]))), w1))"

text \<open>The NVRAM copy of a UEFI golden image.\<close>

definition prepareFirmware :: "vm_backend \<Rightarrow> launch_request \<Rightarrow> vm_world \<Rightarrow> (gerr + firmware) \<times> vm_world" where
  "prepareFirmware b req w =
     (let varsCopy = pathJoin (vo_WorkDir (vb_opt b)) (lr_Name req @ ''.vars.fd'');
          goldenVars = GoldenVarsPath (vo_Golden (vb_opt b))
      in if vb_ovmfCode b = [] then (Inr \<lparr>fw_CodeFD = [], fw_VarsFD = []\<rparr>, w)
         else case osStat w goldenVars of
           (Some _, w1) \<Rightarrow> (Inr \<lparr>fw_CodeFD = [], fw_VarsFD = []\<rparr>, w1)
         | (None, w1) \<Rightarrow>
            (case copyFile w1 varsCopy goldenVars of
               (Some e, w2) \<Rightarrow> (Inl (errorf ''copy nvram: '' e), w2)
             | (None, w2) \<Rightarrow> (Inr \<lparr>fw_CodeFD = vb_ovmfCode b, fw_VarsFD = varsCopy\<rparr>, w2)))"

text \<open>The launch once the VM is prepared: start QEMU and record its process.\<close>

definition startVM ::
  "(string \<Rightarrow> string) \<Rightarrow> vm_backend \<Rightarrow> string \<Rightarrow> launch_request \<Rightarrow> firmware \<Rightarrow> vm_world
   \<Rightarrow> (string option \<times> gerr option) \<times> vm_world" where
  "startVM sha b addr req fw w =
     (let recordPath = recordPathOf sha b req; record = launchRecord addr req in
      case startProc w (QEMUArgs (vw_env w) (vmOpts b req addr fw)) of
        (Inl e, w1) \<Rightarrow> failLaunch b recordPath record (errorf ''start qemu: '' e) w1
      | (Inr pid, w1) \<Rightarrow>
         (let started = record\<lparr>rr_Started := True, rr_PID := pid\<rparr> in
          case writeRunnerRecord w1 recordPath started of
            (Some e, w2) \<Rightarrow> failLaunch b recordPath started (errorf ''record qemu process: '' e) (reapProc w2 pid)
          | (None, w2) \<Rightarrow> ((Some (pathBase recordPath), None), w2)))"

text \<open>The launch once the record is on disk: overlay, configuration ISO and NVRAM.\<close>

definition prepareVM ::
  "(string \<Rightarrow> string) \<Rightarrow> vm_backend \<Rightarrow> string \<Rightarrow> launch_request \<Rightarrow> vm_world
   \<Rightarrow> (string option \<times> gerr option) \<times> vm_world" where
  "prepareVM sha b addr req w =
     (let dir = vo_WorkDir (vb_opt b); recordPath = recordPathOf sha b req; record = launchRecord addr req in
      case writeThrough w (pathJoin dir (lr_Name req @ ''.qcow2'')) (DiskFile (Some (vo_Golden (vb_opt b)))) of
        (Some e, w1) \<Rightarrow> failLaunch b recordPath record (errorf ''create overlay: '' e) w1
      | (None, w1) \<Rightarrow>
         (case BuildJITISO w1 (pathJoin dir (lr_Name req @ ''.iso'')) (lr_EncodedJITConfig req) (vmEnv (lr_Env req)) of
            (Some e, w2) \<Rightarrow> failLaunch b recordPath record (errorf ''build jit iso: '' e) w2
          | (None, w2) \<Rightarrow>
             (case prepareFirmware b req w2 of
                (Inl e, w3) \<Rightarrow> failLaunch b recordPath record e w3
              | (Inr fw, w3) \<Rightarrow> startVM sha b addr req fw w3)))"

definition Launch ::
  "(string \<Rightarrow> string) \<Rightarrow> vm_backend \<Rightarrow> string \<Rightarrow> vm_world \<Rightarrow> launch_request
   \<Rightarrow> (string option \<times> gerr option) \<times> vm_world" where
  "Launch sha b addr w req =
     (case ownershipValidate (lr_Ownership req) of
        Some e \<Rightarrow> ((None, Some (errorf ''qemu: '' e)), w)
      | None \<Rightarrow>
         if \<not> ownershipIsZero (lr_Ownership req) \<and> ow_RunnerID (lr_Ownership req) = 0
         then ((None, Some (Leaf ''qemu: runner ID is required for owned launches'')), w)
         else if \<not> portableBaseName (lr_Name req)
         then ((None, Some (Leaf (''invalid qemu runner name '' @ goQuote (lr_Name req)))), w)
         else (case attempt w of
           (Some e, w1) \<Rightarrow> ((None, Some e), w1)
         | (None, w1) \<Rightarrow>
            (case attempts 2 w1 of
               (Some e, w2) \<Rightarrow> ((None, Some (errorf ''reserve qmp endpoint: '' e)), w2)
             | (None, w2) \<Rightarrow>
                (case writeRunnerRecord w2 (recordPathOf sha b req) (launchRecord addr req) of
                   (Some e, w3) \<Rightarrow> ((None, Some (errorf ''write runner ownership: '' e)), w3)
                 | (None, w3) \<Rightarrow> prepareVM sha b addr req w3))))"

fun collectOwned :: "vm_world \<Rightarrow> ownership \<Rightarrow> string list \<Rightarrow> (gerr + owned_runner list) \<times> vm_world" where
  "collectOwned w ow [] = (Inr [], w)"
| "collectOwned w ow (path # paths) =
     (case readRunnerRecord w path of
        (Inl e, w1) \<Rightarrow> (Inl (errorf (''read qemu runner record '' @ pathBase path @ '': '') e), w1)
      | (Inr r, w1) \<Rightarrow>
         if \<not> ownershipMatches (rr_Ownership r) ow then collectOwned w1 ow paths
         else if rr_Name r = [] \<or> ow_RunnerID (rr_Ownership r) = 0
         then (Inl (Leaf (''qemu runner record '' @ pathBase path @ '' is incomplete'')), w1)
         else (case collectOwned w1 ow paths of
                 (Inl e, w2) \<Rightarrow> (Inl e, w2)
               | (Inr xs, w2) \<Rightarrow>
                   (Inr (\<lparr>or_ResourceID = pathBase path, or_Name = rr_Name r,
                          or_RunnerID = ow_RunnerID (rr_Ownership r)\<rparr> # xs), w2)))"

definition ListOwnedRunners ::
  "(string \<Rightarrow> string) \<Rightarrow> vm_backend \<Rightarrow> vm_world \<Rightarrow> ownership \<Rightarrow> (gerr + owned_runner list) \<times> vm_world" where
  "ListOwnedRunners sha b w ow =
     (if ownershipValidate ow \<noteq> None \<or> ownershipIsZero ow
      then (Inl (Leaf ''qemu: complete runner ownership is required''), w)
      else case Glob w (pathJoin (vo_WorkDir (vb_opt b)) (ownershipNamespace sha ow @ ''.*'' @ recordSuffix)) of
        Inl e \<Rightarrow> (Inl (errorf ''list qemu runner records: '' e), w)
      | Inr paths \<Rightarrow> collectOwned w ow paths)"

text \<open>The middle of \<open>RemoveOwnedRunner\<close>: make sure that the recorded process is gone.\<close>

definition stopRecorded ::
  "vm_backend \<Rightarrow> string \<Rightarrow> runner_record \<Rightarrow> vm_world \<Rightarrow> (gerr option \<times> vm_world) option" where
  "stopRecorded b resourceID r w =
     (case runnerPID w (vo_WorkDir (vb_opt b)) r of
        (Inl e, w1) \<Rightarrow> Some (Some e, w1)
      | (Inr pid, w1) \<Rightarrow>
         if pid \<noteq> 0 then
           (case processAlive w1 pid of
              (Inl e, w2) \<Rightarrow> Some (Some (errorf (''inspect qemu process '' @ formatInt pid @ '': '') e), w2)
            | (Inr alive, w2) \<Rightarrow>
               if \<not> alive then Some (None, w2)
               else (case quitNamed w2 (rr_QMPAddr r) (rr_Name r) of
                       (Some e, w3) \<Rightarrow> Some (Some (errorf (''stop owned qemu '' @ rr_Name r @ '': '') e), w3)
                     | (None, w3) \<Rightarrow>
                        (case waitForProcessExit pid w3 of
                           None \<Rightarrow> None
                         | Some (Some e, w4) \<Rightarrow>
                             Some (Some (errorf (''wait for owned qemu '' @ rr_Name r @ '': '') e), w4)
                         | Some (None, w4) \<Rightarrow> Some (None, w4))))
         else if rr_Started r
         then Some (Some (Leaf (''qemu runner record '' @ resourceID @ '' has no process identity'')), w1)
         else Some (None, w1))"

definition RemoveOwnedRunner :: "vm_backend \<Rightarrow> vm_world \<Rightarrow> string \<Rightarrow> (gerr option \<times> vm_world) option" where
  "RemoveOwnedRunner b w resourceID =
     (if \<not> hasSuffix resourceID recordSuffix
      then Some (Some (Leaf (''invalid qemu runner resource ID '' @ goQuote resourceID)), w)
      else case containedRunnerPath w (vo_WorkDir (vb_opt b)) resourceID of
        (Inl e, w1) \<Rightarrow>
          Some (Some (errorf (''invalid qemu runner resource ID '' @ goQuote resourceID @ '': '') e), w1)
      | (Inr recordPath, w1) \<Rightarrow>
         (case readRunnerRecord w1 recordPath of
            (Inl e, w2) \<Rightarrow>
              if errIs OsErrNotExist e then Some (None, w2)
              else Some (Some (errorf ''read qemu runner record: '' e), w2)
          | (Inr r, w2) \<Rightarrow>
             (case stopRecorded b resourceID r w2 of
                None \<Rightarrow> None
              | Some (Some e, w3) \<Rightarrow> Some (Some e, w3)
              | Some (None, w3) \<Rightarrow> Some (removeRunnerRecord w3 (vo_WorkDir (vb_opt b)) recordPath r))))"

section \<open>Handles\<close>

text \<open>How the process of a handle ended: normally, with an exit code, or \<open>cmd.Wait\<close> failed otherwise.\<close>

datatype wait_end = ExitZero | ExitCode int | WaitFailed gerr

text \<open>
  A closed \<open>done\<close> channel carries how the process ended and the error of the cleanup, which runs
  for launches without an owner only.
\<close>

definition handleDone :: "vm_backend \<Rightarrow> bool \<Rightarrow> string \<Rightarrow> wait_end \<Rightarrow> vm_world
    \<Rightarrow> ((wait_end \<times> gerr option) \<times> vm_world) option" where
  "handleDone b owned resourceID e w =
     (if owned then Some ((e, None), w)
      else case RemoveOwnedRunner b w resourceID of
             None \<Rightarrow> None
           | Some (ce, w1) \<Rightarrow> Some ((e, ce), w1))"

definition joinOpt :: "gerr option list \<Rightarrow> gerr option" where
  "joinOpt es = joinErrs (List.map_filter id es)"

text \<open>\<open>Wait\<close>: \<open>None\<close> stands for a context that ended first.\<close>

definition vmWait :: "(wait_end \<times> gerr option) option \<Rightarrow> int \<times> gerr option" where
  "vmWait d =
     (case d of
        None \<Rightarrow> (-1, Some ctxErr)
      | Some (ExitZero, ce) \<Rightarrow> (0, ce)
      | Some (ExitCode n, ce) \<Rightarrow> (n, ce)
      | Some (WaitFailed e, ce) \<Rightarrow> (-1, joinOpt [Some e, ce]))"

text \<open>\<open>Kill\<close>: \<open>killErr\<close> is the error of \<open>Process.Kill\<close> other than \<open>os.ErrProcessDone\<close>.\<close>

definition vmKill :: "bool \<Rightarrow> gerr option \<Rightarrow> (wait_end \<times> gerr option) option \<Rightarrow> gerr option" where
  "vmKill hasProcess killErr d =
     (if \<not> hasProcess then Some (Leaf ''qemu process is unavailable'')
      else case killErr of
        Some e \<Rightarrow> Some (errorf ''kill qemu: '' e)
      | None \<Rightarrow>
         (case d of
            None \<Rightarrow> Some (errorf ''wait for qemu exit: '' ctxErr)
          | Some (WaitFailed e, ce) \<Rightarrow> joinOpt [Some (errorf ''wait for qemu exit: '' e), ce]
          | Some (_, ce) \<Rightarrow> joinOpt [ce]))"

end
