(* ===== verification/Vm_Runner.thy ===== *)
theory Vm_Runner
  imports Vm_Backend
begin

text \<open>
  What the Windows VM runner of \<open>Vm_Backend\<close> guarantees. Each operation is first given its frame: the
  files and processes it can change. The launch then has three outcomes (\<open>Launch_result\<close>), which makes
  the VM backend an interpretation of the launch contract \<open>runner_backend\<close>; the removal of a recorded
  VM is followed through the QMP conversation and the wait; listing is complete because
  \<open>filepath.Glob\<close> finds every record of an ownership in a directory without metacharacters.
\<close>

section \<open>What the operations leave alone\<close>

lemma portable_plain: "portableBaseName n \<Longrightarrow> plainPart n"
  by (auto simp: portableBaseName_def plainPart_def containsAny_def list_ex_iff)

lemma portable_append: "portableBaseName n \<Longrightarrow> s \<noteq> [] \<Longrightarrow> \<not> containsAny s [CHR ''/'', CHR 0x5C, CHR '':'']
    \<Longrightarrow> n @ s \<noteq> ''..'' \<Longrightarrow> portableBaseName (n @ s)"
  by (cases n) (auto simp: portableBaseName_def containsAny_def list_ex_iff isAbs_def)

lemma containedRunnerPath_quiet: "containedRunnerPath w dir n = (r, w') \<Longrightarrow> quiet w w'"
  unfolding containedRunnerPath_def Let_def
  by (auto split: if_splits prod.splits option.splits dest!: osStat_quiet attempt_quiet
      intro: quiet_trans)

lemma containedRunnerPath_Inr:
  assumes "containedRunnerPath w dir n = (Inr p, w')"
  shows "portableBaseName n" and "p = pathJoin (absPath w dir) n" and "locate w p = locate w dir @ [n]"
proof -
  show 1: "portableBaseName n" and 2: "p = pathJoin (absPath w dir) n"
    using assms unfolding containedRunnerPath_def Let_def
    by (auto split: if_splits prod.splits option.splits)
  show "locate w p = locate w dir @ [n]" using locate_join[OF portable_plain[OF 1], of w "absPath w dir"] 2 by simp
qed

lemma runnerArtifactPath_quiet: "runnerArtifactPath w dir n = (r, w') \<Longrightarrow> quiet w w'"
  by (auto simp: runnerArtifactPath_def containedRunnerPath_quiet split: prod.splits sum.splits)

lemma runnerArtifactPath_Inr:
  "runnerArtifactPath w dir n = (Inr p, w') \<Longrightarrow> portableBaseName n \<and> locate w p = locate w dir @ [n]"
  by (auto simp: runnerArtifactPath_def dest: containedRunnerPath_Inr split: prod.splits sum.splits)

lemma readRunnerRecord_quiet: "readRunnerRecord w p = (r, w') \<Longrightarrow> quiet w w'"
  by (auto simp: readRunnerRecord_def osReadFile_quiet split: prod.splits sum.splits vm_file.splits)

lemma readRunnerRecord_Inr: "readRunnerRecord w p = (Inr r, w') \<Longrightarrow> fileAt w p = Some (RecordFile r)"
  by (auto simp: readRunnerRecord_def osReadFile_Inr split: prod.splits sum.splits vm_file.splits)

lemma attempts_quiet: "attempts n w = (e, w') \<Longrightarrow> quiet w w'"
  by (induction n arbitrary: w)
     (auto split: prod.splits option.splits dest!: attempt_quiet intro: quiet_trans)

lemma writeRunnerRecord_Some: "writeRunnerRecord w p r = (Some e, w') \<Longrightarrow> quiet w w'"
  by (auto simp: writeRunnerRecord_def attempts_quiet split: prod.splits option.splits)

lemma writeRunnerRecord_frame: "writeRunnerRecord w p r = (e, w') \<Longrightarrow> filesFrame {locate w p} w w'"
  and writeRunnerRecord_None: "writeRunnerRecord w p r = (None, w') \<Longrightarrow> map_of (vw_files w') (locate w p) = Some (RecordFile r)"
proof -
  obtain x w1 where x: "attempts 6 w = (x, w1)" by (cases "attempts 6 w")
  note q = attempts_quiet[OF x]
  show "filesFrame {locate w p} w w'" if "writeRunnerRecord w p r = (e, w')"
    using that x frame_trans[OF quiet_frame[OF q], of "{locate w p}" w'] quiet_same[OF q]
    by (auto simp: writeRunnerRecord_def split: option.splits)
  show "map_of (vw_files w') (locate w p) = Some (RecordFile r)" if "writeRunnerRecord w p r = (None, w')"
    using that x quiet_same[OF q] by (auto simp: writeRunnerRecord_def map_of_put split: option.splits)
qed

section \<open>Removing what a record names\<close>

text \<open>The files a record names, and its own.\<close>

definition artifactKeys :: "vm_world \<Rightarrow> string \<Rightarrow> string list \<Rightarrow> string list set" where
  "artifactKeys w dir ns = {locate w dir @ [n] | n. n \<in> set ns \<and> portableBaseName n}"

lemma removeArtifact_frame: "removeArtifact dir n w = (es, w') \<Longrightarrow> filesFrame (artifactKeys w dir [n]) w w'"
proof -
  assume a: "removeArtifact dir n w = (es, w')"
  obtain r w1 where r: "runnerArtifactPath w dir n = (r, w1)" by (cases "runnerArtifactPath w dir n")
  note q = runnerArtifactPath_quiet[OF r]
  show ?thesis
  proof (cases "n = [] \<or> isl r")
    case True
    then show ?thesis using a r quiet_frame[OF q] by (cases r) (auto simp: removeArtifact_def split: if_splits)
  next
    case False
    then obtain p where p: "r = Inr p" by (cases r) auto
    obtain e w2 where e: "osRemove w1 p = (e, w2)" by (cases "osRemove w1 p")
    have "w' = w2" using a r p e False by (auto simp: removeArtifact_def split: option.splits if_splits)
    moreover have "locate w1 p = locate w dir @ [n]" "portableBaseName n"
      using runnerArtifactPath_Inr[of w dir n p w1] r p quiet_same[OF q] by auto
    ultimately have "filesFrame (artifactKeys w dir [n]) w1 w'"
      using osRemove_frame[OF e] by (auto simp: artifactKeys_def intro: frame_mono)
    then show ?thesis using frame_trans[OF quiet_frame[OF q]] by blast
  qed
qed

lemma removeArtifact_gone:
  assumes "removeArtifact dir n w = ([], w')" and "n \<noteq> []"
  shows "map_of (vw_files w') (locate w dir @ [n]) = None"
proof -
  obtain p w1 where r: "runnerArtifactPath w dir n = (Inr p, w1)"
    using assms by (auto simp: removeArtifact_def split: prod.splits sum.splits)
  note q = runnerArtifactPath_quiet[OF r]
  obtain e w2 where e: "osRemove w1 p = (e, w2)" by (cases "osRemove w1 p")
  have "e = None \<or> (\<exists>x. e = Some x \<and> errIs OsErrNotExist x)" "w' = w2"
    using assms r e by (auto simp: removeArtifact_def split: option.splits if_splits)
  then show ?thesis using osRemove_gone[OF e] runnerArtifactPath_Inr[OF r] quiet_same[OF q] by simp
qed

lemma artifactKeys_same: "filesFrame K w w' \<Longrightarrow> artifactKeys w' dir ns = artifactKeys w dir ns"
  using frame_same(7) by (simp add: artifactKeys_def)

lemma removeLoop_frame: "removeArtifactsLoop dir ns w = (es, w') \<Longrightarrow> filesFrame (artifactKeys w dir ns) w w'"
proof (induction ns arbitrary: w es)
  case (Cons n ns)
  obtain e1 w1 where 1: "removeArtifact dir n w = (e1, w1)" by (cases "removeArtifact dir n w")
  obtain e2 where 2: "removeArtifactsLoop dir ns w1 = (e2, w')" using Cons.prems 1 by (auto split: prod.splits)
  note f = removeArtifact_frame[OF 1]
  have s: "artifactKeys w dir [n] \<subseteq> artifactKeys w dir (n # ns)" "artifactKeys w dir ns \<subseteq> artifactKeys w dir (n # ns)"
    by (auto simp: artifactKeys_def)
  show ?case using frame_trans[OF frame_mono[OF f s(1)] frame_mono[OF Cons.IH[OF 2]]] s(2)
    by (simp add: artifactKeys_same[OF f])
qed simp

text \<open>An empty error list: every named file is gone.\<close>

lemma removeLoop_gone:
  "removeArtifactsLoop dir ns w = ([], w') \<Longrightarrow> n \<in> set ns \<Longrightarrow> n \<noteq> [] \<Longrightarrow> map_of (vw_files w') (locate w dir @ [n]) = None"
proof (induction ns arbitrary: w)
  case (Cons m ns)
  obtain w1 where 1: "removeArtifact dir m w = ([], w1)" and 2: "removeArtifactsLoop dir ns w1 = ([], w')"
    using Cons.prems(1) by (auto split: prod.splits)
  note l = frame_same(7)[OF removeArtifact_frame[OF 1]]
  show ?case
  proof (cases "n \<in> set ns")
    case True
    then show ?thesis using Cons.IH[OF 2 True Cons.prems(3)] l by simp
  next
    case False
    then have "n = m" "locate w dir @ [n] \<notin> artifactKeys w1 dir ns"
      using Cons.prems(2) l by (auto simp: artifactKeys_def)
    then show ?thesis using frame_file[OF removeLoop_frame[OF 2]] removeArtifact_gone[OF 1] Cons.prems(3) by simp
  qed
qed simp

definition recordKeys :: "vm_world \<Rightarrow> string \<Rightarrow> string \<Rightarrow> runner_record \<Rightarrow> string list set" where
  "recordKeys w dir recordPath r = insert (locate w recordPath) (artifactKeys w dir (artifactsOf r))"

lemma removeRunnerRecord_frame:
  "removeRunnerRecord w dir rp r = (e, w') \<Longrightarrow> filesFrame (recordKeys w dir rp r) w w'"
proof -
  assume a: "removeRunnerRecord w dir rp r = (e, w')"
  obtain es w1 where 1: "removeArtifactsLoop dir (artifactsOf r) w = (es, w1)"
    by (cases "removeArtifactsLoop dir (artifactsOf r) w")
  have f: "filesFrame (recordKeys w dir rp r) w w1"
    by (rule frame_mono[OF removeLoop_frame[OF 1]]) (auto simp: recordKeys_def)
  obtain x w2 where 2: "osRemove w1 rp = (x, w2)" by (cases "osRemove w1 rp")
  have "filesFrame (recordKeys w dir rp r) w1 w2"
    by (rule frame_mono[OF osRemove_frame[OF 2]]) (auto simp: recordKeys_def frame_same(7)[OF f])
  then have "filesFrame (recordKeys w dir rp r) w w2" by (rule frame_trans[OF f])
  then show ?thesis using a 1 2 f
    by (auto simp: removeRunnerRecord_def removeRunnerArtifacts_def joinErrs_def split: if_splits option.splits)
qed

lemma removeRunnerRecord_gone:
  assumes "removeRunnerRecord w dir rp r = (None, w')"
  shows "map_of (vw_files w') (locate w rp) = None"
    and "n \<in> set (artifactsOf r) \<Longrightarrow> n \<noteq> [] \<Longrightarrow> map_of (vw_files w') (locate w dir @ [n]) = None"
proof -
  obtain w1 where 1: "removeArtifactsLoop dir (artifactsOf r) w = ([], w1)"
    using assms by (auto simp: removeRunnerRecord_def removeRunnerArtifacts_def joinErrs_def split: if_splits prod.splits)
  note l = frame_same(7)[OF removeLoop_frame[OF 1]]
  obtain x where 2: "osRemove w1 rp = (x, w')" "x = None \<or> (\<exists>y. x = Some y \<and> errIs OsErrNotExist y)"
    using assms 1 by (auto simp: removeRunnerRecord_def removeRunnerArtifacts_def joinErrs_def
        split: if_splits prod.splits option.splits)
  show "map_of (vw_files w') (locate w rp) = None" using osRemove_gone[OF 2] l by simp
  then show "map_of (vw_files w') (locate w dir @ [n]) = None" if "n \<in> set (artifactsOf r)" "n \<noteq> []"
    using removeLoop_gone[OF 1 that] frame_file[OF osRemove_frame[OF 2(1)], of "locate w dir @ [n]"] l
    by (cases "locate w dir @ [n] = locate w rp") auto
qed

section \<open>Launching\<close>

text \<open>
  \<open>sameBut K\<close> compares two worlds by their processes and by the files outside \<open>K\<close>; \<open>cleanFailure\<close> says
  that a failed launch has no process and, unless the clean-up failed too, no file at \<open>K\<close>.
\<close>

definition filesBut :: "string list set \<Rightarrow> vm_world \<Rightarrow> vm_world \<Rightarrow> bool" where
  "filesBut K w w' \<longleftrightarrow> locate w' = locate w \<and> (\<forall>k. k \<notin> K \<longrightarrow> map_of (vw_files w') k = map_of (vw_files w) k)"

definition cleanFailure :: "string list set \<Rightarrow> vm_world \<Rightarrow> gerr \<Rightarrow> vm_world \<Rightarrow> bool" where
  "cleanFailure K w e w' \<longleftrightarrow>
     vw_procs w' = vw_procs w \<and> (\<forall>k. k \<notin> K \<longrightarrow> map_of (vw_files w') k = map_of (vw_files w) k)
     \<and> ((\<exists>e1. e = Join [e1] \<and> (\<forall>k \<in> K. map_of (vw_files w') k = None)) \<or> (\<exists>e1 c. e = Join [e1, c]))"

lemma filesBut_frame: "filesFrame K w w' \<Longrightarrow> filesBut K w w'"
  by (auto simp: filesBut_def frame_file frame_same)

lemma filesBut_trans: "filesBut K a b \<Longrightarrow> filesBut K b c \<Longrightarrow> filesBut K a c"
  by (simp add: filesBut_def)

lemma filesBut_mono: "filesBut K a b \<Longrightarrow> K \<subseteq> L \<Longrightarrow> filesBut L a b"
  by (auto simp: filesBut_def)

lemma startProc_Inl: "startProc w args = (Inl e, w') \<Longrightarrow> quiet w w'"
  by (auto simp: startProc_def Let_def attempt_quiet split: prod.splits option.splits)

definition vmProc :: "int \<Rightarrow> string list \<Rightarrow> vm_proc" where
  "vmProc pid args = \<lparr>vp_pid = pid, vp_args = args, vp_quit = False, vp_life = None\<rparr>"

lemma startProc_Inr:
  assumes "startProc w args = (Inr pid, w')"
    and "argOf ''-serial'' args = Some (''file:'' @ s)" and "argOf ''-pidfile'' args = Some p"
  shows "pid = freshPid w" and "vw_procs w' = vw_procs w @ [vmProc pid args]"
    and "filesBut {locate w s, locate w p} w w'"
proof -
  obtain w1 where 1: "attempt w = (None, w1)"
    using assms(1) by (auto simp: startProc_def split: prod.splits option.splits)
  note q1 = attempt_quiet[OF 1]
  have fp: "freshPid w1 = freshPid w"
    using quiet_same(2)[OF q1] frame_same(8)[OF quiet_frame[OF q1]] by (simp add: freshPid_def)
  define w2 where "w2 = w1\<lparr>vw_procs := vw_procs w1 @ [vmProc (freshPid w1) args], vw_nextPid := nat (freshPid w1)\<rparr>"
  obtain x w3 where 3: "attempt w2 = (x, w3)" by (cases "attempt w2")
  note q3 = attempt_quiet[OF 3]
  have l2: "locate w2 = locate w" "vw_files w2 = vw_files w" "vw_procs w2 = vw_procs w @ [vmProc (freshPid w) args]"
  proof -
    have "locate w2 = locate w1" by (simp add: w2_def locate_def absPath_def fun_eq_iff)
    then show "locate w2 = locate w" using quiet_same(9)[OF q1] by simp
    show "vw_files w2 = vw_files w" "vw_procs w2 = vw_procs w @ [vmProc (freshPid w) args]"
      using quiet_same(1,2)[OF q1] by (simp_all add: w2_def fp)
  qed
  have l3: "locate w3 = locate w" "vw_files w3 = vw_files w" "vw_procs w3 = vw_procs w @ [vmProc (freshPid w) args]"
    using quiet_same[OF q3] l2 by simp_all
  have r: "pid = freshPid w1 \<and> (w' = w3 \<or> w' = putFile s (TextFile []) (putFile p (TextFile (formatInt (freshPid w1) @ newline)) w3))"
    using assms 1 3 by (auto simp: startProc_def Let_def w2_def vmProc_def split: option.splits)
  show "pid = freshPid w" using r fp by simp
  show "vw_procs w' = vw_procs w @ [vmProc pid args]" using r l3 fp by (auto simp: putFile_def)
  show "filesBut {locate w s, locate w p} w w'" using r l3 by (auto simp: filesBut_def map_of_put)
qed

lemma argOf_append: "even (length xs) \<Longrightarrow> argOf k (xs @ ys) = (case argOf k xs of None \<Rightarrow> argOf k ys | Some v \<Rightarrow> Some v)"
  by (induction k xs rule: argOf.induct) auto


lemma QEMUArgs_serial: "argOf ''-serial'' (QEMUArgs env x) = Some (''file:'' @ lo_Overlay x @ ''.serial.log'')"
  and QEMUArgs_pidfile: "lo_PIDFile x \<noteq> [] \<Longrightarrow> argOf ''-pidfile'' (QEMUArgs env x) = Some (lo_PIDFile x)"
  and QEMUArgs_name: "lo_Name x \<noteq> [] \<Longrightarrow> argOf ''-name'' (QEMUArgs env x) = Some (lo_Name x)"
  and QEMUArgs_qmp: "lo_QMPAddr x \<noteq> [] \<Longrightarrow> argOf ''-qmp'' (QEMUArgs env x) = Some (qmpArg (lo_QMPAddr x))"
  by (simp_all add: QEMUArgs_def Let_def argOf_append)

text \<open>The files of a launch.\<close>

definition launchNames :: "(string \<Rightarrow> string) \<Rightarrow> launch_request \<Rightarrow> string list" where
  "launchNames sha req =
     runnerRecordName sha (lr_Name req) (lr_Ownership req) # artifactsOf (launchRecord [] req)"

definition launchKeys :: "(string \<Rightarrow> string) \<Rightarrow> vm_backend \<Rightarrow> launch_request \<Rightarrow> vm_world \<Rightarrow> string list set" where
  "launchKeys sha b req w = (\<lambda>n. locate w (vo_WorkDir (vb_opt b)) @ [n]) ` set (launchNames sha req)"

lemma hexDigit_plain: "n < 16 \<Longrightarrow> hexDigit n \<notin> {CHR ''/'', CHR 0x5C, CHR '':'', CHR ''*'', CHR ''?'', CHR ''[''}"
proof -
  assume "n < 16"
  then have "(of_char (hexDigit n) :: nat) \<notin> {47, 92, 58, 42, 63, 91}" by (auto simp: hexDigit_def)
  then show ?thesis by auto
qed

lemma hexEncode_plain: "c \<in> set (hexEncode s) \<Longrightarrow> c \<notin> {CHR ''/'', CHR 0x5C, CHR '':'', CHR ''*'', CHR ''?'', CHR ''[''}"
proof (induction s)
  case (Cons a s)
  have "hexDigit (of_char a div 16) \<notin> {CHR ''/'', CHR 0x5C, CHR '':'', CHR ''*'', CHR ''?'', CHR ''[''}"
    "hexDigit (of_char a mod 16) \<notin> {CHR ''/'', CHR 0x5C, CHR '':'', CHR ''*'', CHR ''?'', CHR ''[''}"
    by (rule hexDigit_plain, simp)+
  then show ?case using Cons by auto
qed simp

lemma portable_chars: "portableBaseName n \<longleftrightarrow> n \<noteq> [] \<and> n \<noteq> ''.'' \<and> n \<noteq> ''..'' \<and> CHR ''/'' \<notin> set n \<and> CHR 0x5C \<notin> set n \<and> CHR '':'' \<notin> set n"
  by (cases n) (auto simp: portableBaseName_def containsAny_def list_ex_iff isAbs_def)

lemma launch_names_portable:
  assumes "portableBaseName (lr_Name req)" and "n \<in> set (launchNames sha req)"
  shows "portableBaseName n"
proof -
  have "\<exists>u v. n = u @ lr_Name req @ v \<and> length v \<ge> 4 \<and> CHR ''/'' \<notin> set (u @ v) \<and> CHR 0x5C \<notin> set (u @ v) \<and> CHR '':'' \<notin> set (u @ v)"
  proof (cases "n = runnerRecordName sha (lr_Name req) (lr_Ownership req)")
    case True
    show ?thesis
    proof (cases "ownershipIsZero (lr_Ownership req)")
      case z: True
      then show ?thesis using True by (intro exI[of _ "[]"] exI[of _ recordSuffix]) (simp add: runnerRecordName_def recordSuffix_def)
    next
      case False
      then show ?thesis using True hexEncode_plain
        by (intro exI[of _ "ownershipNamespace sha (lr_Ownership req) @ ''.''"] exI[of _ recordSuffix])
           (auto simp: runnerRecordName_def recordSuffix_def ownershipNamespace_def)
    qed
  next
    case False
    then have "\<exists>v \<in> {''.qcow2'', ''.iso'', ''.vars.fd'', ''.qcow2.serial.log'', ''.pid''}. n = lr_Name req @ v"
      using assms(2) by (auto simp: launchNames_def artifactsOf_def launchRecord_def)
    then obtain v where v: "v \<in> {''.qcow2'', ''.iso'', ''.vars.fd'', ''.qcow2.serial.log'', ''.pid''}" "n = lr_Name req @ v"
      by blast
    then have "length v \<ge> 4 \<and> CHR ''/'' \<notin> set v \<and> CHR 0x5C \<notin> set v \<and> CHR '':'' \<notin> set v" by auto
    then show ?thesis using v(2) by (intro exI[of _ "[]"] exI[of _ v]) simp
  qed
  then obtain u v where n: "n = u @ lr_Name req @ v" "length v \<ge> 4"
    "CHR ''/'' \<notin> set (u @ v) \<and> CHR 0x5C \<notin> set (u @ v) \<and> CHR '':'' \<notin> set (u @ v)" by auto
  have "length n \<ge> 4" using n by simp
  then have "n \<noteq> []" "n \<noteq> ''.''" "n \<noteq> ''..''" by auto
  then show ?thesis using n assms(1) by (simp add: portable_chars)
qed

lemma launch_keys_eq:
  assumes "portableBaseName (lr_Name req)"
  shows "recordKeys w (vo_WorkDir (vb_opt b)) (recordPathOf sha b req) (launchRecord addr req) = launchKeys sha b req w"
proof -
  have "locate w (recordPathOf sha b req) = locate w (vo_WorkDir (vb_opt b)) @ [runnerRecordName sha (lr_Name req) (lr_Ownership req)]"
    unfolding recordPathOf_def
    by (rule locate_join, rule portable_plain, rule launch_names_portable[OF assms, of _ sha]) (simp add: launchNames_def)
  moreover have "artifactKeys w (vo_WorkDir (vb_opt b)) (artifactsOf (launchRecord addr req))
      = (\<lambda>n. locate w (vo_WorkDir (vb_opt b)) @ [n]) ` set (artifactsOf (launchRecord [] req))"
    using launch_names_portable[OF assms]
    by (auto simp: artifactKeys_def launchNames_def artifactsOf_def launchRecord_def)
  ultimately show ?thesis by (simp add: recordKeys_def launchKeys_def launchNames_def)
qed

lemma launch_path: "portableBaseName (lr_Name req) \<Longrightarrow> n \<in> set (launchNames sha req) \<Longrightarrow>
    locate w (pathJoin (vo_WorkDir (vb_opt b)) n) = locate w (vo_WorkDir (vb_opt b)) @ [n]
    \<and> locate w (vo_WorkDir (vb_opt b)) @ [n] \<in> launchKeys sha b req w"
  using locate_join[OF portable_plain[OF launch_names_portable]] by (simp add: launchKeys_def)

lemma failLaunch_clean:
  assumes "failLaunch b (recordPathOf sha b req) r e w = ((h, e'), w')"
    and "portableBaseName (lr_Name req)"
    and "artifactsOf r = artifactsOf (launchRecord [] req)"
    and "filesBut (launchKeys sha b req w0) w0 w" and "vw_procs w = vw_procs w0"
  shows "h = None \<and> (\<exists>x. e' = Some x \<and> cleanFailure (launchKeys sha b req w0) w0 x w')"
proof -
  let ?d = "vo_WorkDir (vb_opt b)" and ?rp = "recordPathOf sha b req" and ?K = "launchKeys sha b req w0"
  obtain ce w1 where c: "removeRunnerRecord w ?d ?rp r = (ce, w1)" by (cases "removeRunnerRecord w ?d ?rp r")
  have l: "locate w = locate w0" using assms(4) by (simp add: filesBut_def)
  have K: "recordKeys w ?d ?rp r = ?K"
    using launch_keys_eq[OF assms(2), of w b sha "[]"] assms(3) l
    by (simp add: recordKeys_def artifactKeys_def launchKeys_def)
  note f = removeRunnerRecord_frame[OF c, unfolded K]
  have k: "map_of (vw_files w') k = map_of (vw_files w0) k" if "k \<notin> ?K" for k
    using frame_file[OF f that] assms(1,4) that c by (auto simp: failLaunch_def filesBut_def)
  have p: "vw_procs w' = vw_procs w0" using frame_same(1)[OF f] assms(1,5) c by (auto simp: failLaunch_def)
  have g: "map_of (vw_files w') k = None" if "ce = None" "k \<in> ?K" for k
  proof -
    have "k \<in> recordKeys w ?d ?rp r" using that K by simp
    then show ?thesis using removeRunnerRecord_gone[of w ?d ?rp r w1] c that assms(1)
      by (auto simp: recordKeys_def artifactKeys_def failLaunch_def portableBaseName_def)
  qed
  show ?thesis using assms(1) c k p g
    by (cases ce) (auto simp: failLaunch_def cleanFailure_def joinErrs_def)
qed

lemma sepBy_snoc_append: "sepBy sep (xs @ [n @ s]) = sepBy sep (xs @ [n]) @ s"
proof (induction sep xs rule: sepBy.induct)
  case (2 sep x)
  then show ?case by simp
qed auto

lemma pathJoin_eq:
  assumes "plainPart n"
  shows "pathJoin d n = (if isAbs d then ''/'' else []) @ sepBy ''/'' (pathParts d @ [n])"
proof -
  obtain x where x: "pathJoin d n = pathClean x"
    using assms by (cases "d = []") (simp_all add: pathJoin_def dropEmpty_def plainPart_def)
  have p: "pathParts x = pathParts d @ [n]" "isAbs x = isAbs d"
    using pathParts_join1[OF assms, of d] x by simp_all
  have "sepBy ''/'' (pathParts d @ [n]) \<noteq> []"
    using assms by (cases "pathParts d"; cases "tl (pathParts d)") (auto simp: plainPart_def)
  then show ?thesis by (simp add: x pathClean_def p Let_def)
qed

lemma pathJoin_append: "plainPart n \<Longrightarrow> plainPart (n @ s) \<Longrightarrow> pathJoin d n @ s = pathJoin d (n @ s)"
  by (simp add: pathJoin_eq sepBy_snoc_append)

lemma pathBase_join: "plainPart n \<Longrightarrow> pathBase (pathJoin d n) = n"
  by (cases "pathParts d") (auto simp: pathBase_def pathParts_join1)

lemma pathJoin_nonempty: "plainPart n \<Longrightarrow> pathJoin d n \<noteq> []"
  using pathParts_join1(1)[of n d] by (auto simp: pathParts_def)

text \<open>What a launch has set up when it returns a handle.\<close>

definition launchedVM ::
  "(string \<Rightarrow> string) \<Rightarrow> vm_backend \<Rightarrow> string \<Rightarrow> launch_request \<Rightarrow> vm_world \<Rightarrow> string \<Rightarrow> vm_world \<Rightarrow> bool" where
  "launchedVM sha b addr req w h w' \<longleftrightarrow>
     h = runnerRecordName sha (lr_Name req) (lr_Ownership req)
     \<and> filesBut (launchKeys sha b req w) w w'
     \<and> (\<exists>pid fw. 0 < pid \<and> pid \<notin> vp_pid ` set (vw_procs w)
          \<and> vw_procs w' = vw_procs w @ [vmProc pid (QEMUArgs (vw_env w) (vmOpts b req addr fw))]
          \<and> map_of (vw_files w') (locate w (vo_WorkDir (vb_opt b)) @ [h])
              = Some (RecordFile ((launchRecord addr req)\<lparr>rr_Started := True, rr_PID := pid\<rparr>)))
     \<and> map_of (vw_files w') (locate w (vo_WorkDir (vb_opt b)) @ [lr_Name req @ ''.qcow2''])
         = Some (DiskFile (Some (vo_Golden (vb_opt b))))
     \<and> map_of (vw_files w') (locate w (vo_WorkDir (vb_opt b)) @ [lr_Name req @ ''.iso''])
         = Some (IsoFile ''MRJIT'' (jitFiles (lr_EncodedJITConfig req) (vmEnv (lr_Env req))))"

lemma record_name_no_artifact: "runnerRecordName sha n ow \<noteq> m @ ''.qcow2''" "runnerRecordName sha n ow \<noteq> m @ ''.iso''"
proof -
  have "last (runnerRecordName sha n ow) = CHR ''n''" by (simp add: runnerRecordName_def recordSuffix_def)
  moreover have "last (m @ ''.qcow2'') = CHR ''2''" "last (m @ ''.iso'') = CHR ''o''" by simp_all
  ultimately show "runnerRecordName sha n ow \<noteq> m @ ''.qcow2''" "runnerRecordName sha n ow \<noteq> m @ ''.iso''"
    by (auto simp del: last_appendR)
qed

lemma reap_same [simp]: "locate (reapProc w pid) = locate w" "vw_files (reapProc w pid) = vw_files w"
  by (simp_all add: reapProc_def locate_def absPath_def fun_eq_iff)

lemma startVM_result:
  assumes "startVM sha b addr req fw w = ((h, e), w')"
    and "portableBaseName (lr_Name req)"
    and "filesBut (launchKeys sha b req w0) w0 w" and "vw_procs w = vw_procs w0" and "vw_env w = vw_env w0"
    and "map_of (vw_files w) (locate w0 (vo_WorkDir (vb_opt b)) @ [lr_Name req @ ''.qcow2'']) = Some (DiskFile (Some (vo_Golden (vb_opt b))))"
    and "map_of (vw_files w) (locate w0 (vo_WorkDir (vb_opt b)) @ [lr_Name req @ ''.iso''])
         = Some (IsoFile ''MRJIT'' (jitFiles (lr_EncodedJITConfig req) (vmEnv (lr_Env req))))"
  shows "(h = None \<and> (\<exists>x. e = Some x \<and> cleanFailure (launchKeys sha b req w0) w0 x w'))
       \<or> (\<exists>n. h = Some n \<and> e = None \<and> launchedVM sha b addr req w0 n w')"
proof -
  let ?d = "vo_WorkDir (vb_opt b)" and ?rp = "recordPathOf sha b req" and ?K = "launchKeys sha b req w0"
  let ?args = "QEMUArgs (vw_env w) (vmOpts b req addr fw)"
  obtain r w1 where s: "startProc w ?args = (r, w1)" by (cases "startProc w ?args")
  have lw: "locate w = locate w0" using assms(3) by (simp add: filesBut_def)
  have nm: "lr_Name req @ ''.qcow2'' \<in> set (launchNames sha req)" "lr_Name req @ ''.pid'' \<in> set (launchNames sha req)"
    "lr_Name req @ ''.qcow2.serial.log'' \<in> set (launchNames sha req)"
    "runnerRecordName sha (lr_Name req) (lr_Ownership req) \<in> set (launchNames sha req)"
    by (simp_all add: launchNames_def artifactsOf_def launchRecord_def)
  note pl = portable_plain[OF launch_names_portable[OF assms(2)]] and lp = launch_path[OF assms(2)]
  show ?thesis
  proof (cases r)
    case (Inl x)
    then have q: "quiet w w1" using startProc_Inl s by simp
    have "filesBut ?K w0 w1" using filesBut_trans[OF assms(3) filesBut_frame[OF quiet_frame[OF q]]] .
    then show ?thesis using failLaunch_clean[of b sha req "launchRecord addr req" _ w1 h e w' w0] assms(1,2,4) s Inl quiet_same[OF q]
      by (auto simp: startVM_def Let_def artifactsOf_def launchRecord_def)
  next
    case (Inr pid)
    let ?st = "(launchRecord addr req)\<lparr>rr_Started := True, rr_PID := pid\<rparr>"
    have vo: "lo_Overlay (vmOpts b req addr fw) @ ''.serial.log'' = pathJoin ?d (lr_Name req @ ''.qcow2.serial.log'')"
      "lo_PIDFile (vmOpts b req addr fw) = pathJoin ?d (lr_Name req @ ''.pid'')"
      using pathJoin_append[OF pl[OF nm(1)], of "''.serial.log''" ?d] pl[OF nm(3)] by (simp_all add: vmOpts_def Let_def)
    have ar: "argOf ''-serial'' ?args = Some (''file:'' @ pathJoin ?d (lr_Name req @ ''.qcow2.serial.log''))"
      "argOf ''-pidfile'' ?args = Some (pathJoin ?d (lr_Name req @ ''.pid''))"
      using QEMUArgs_serial[of "vw_env w" "vmOpts b req addr fw", unfolded vo]
        QEMUArgs_pidfile[of "vmOpts b req addr fw" "vw_env w"] pathJoin_nonempty[OF pl[OF nm(2)], of ?d]
      by (simp_all add: vo(2))
    note sp = startProc_Inr[OF s[unfolded Inr] ar]
    have k: "filesBut ?K w0 w1"
      by (rule filesBut_trans[OF assms(3)], rule filesBut_mono[OF sp(3)]) (use lp[OF nm(2), of w0 b] lp[OF nm(3), of w0 b] lw in auto)
    obtain x w2 where x: "writeRunnerRecord w1 ?rp ?st = (x, w2)" by (cases "writeRunnerRecord w1 ?rp ?st")
    have l1: "locate w1 = locate w0" using k by (simp add: filesBut_def)
    note fr = writeRunnerRecord_frame[OF x]
    have rk: "locate w1 ?rp = locate w0 ?d @ [runnerRecordName sha (lr_Name req) (lr_Ownership req)]"
      using lp[OF nm(4), of w0 b] l1 by (simp add: recordPathOf_def)
    have k2: "filesBut ?K w0 w2"
      by (rule filesBut_trans[OF k], rule filesBut_mono[OF filesBut_frame[OF fr]]) (use rk nm(4) in \<open>auto simp: launchKeys_def\<close>)
    have pf: "0 < pid" "pid \<notin> vp_pid ` set (vw_procs w)" using freshPid_pos freshPid_fresh sp(1) by auto
    have p2: "vw_procs w2 = vw_procs w @ [vmProc pid ?args]" using frame_same(1)[OF fr] sp(2) by simp
    show ?thesis
    proof (cases x)
      case (Some y)
      let ?w3 = "reapProc w2 pid"
      have "vw_procs ?w3 = vw_procs w0" using p2 pf assms(4)
        by (force simp: reapProc_def vmProc_def filter_id_conv)
      moreover have "filesBut ?K w0 ?w3" using k2 by (simp add: filesBut_def)
      ultimately show ?thesis
        using failLaunch_clean[of b sha req ?st _ ?w3 h e w' w0] assms(1,2) s Inr x Some
        by (auto simp: startVM_def Let_def artifactsOf_def launchRecord_def)
    next
      case None
      have he: "h = Some (runnerRecordName sha (lr_Name req) (lr_Ownership req))" "e = None" "w' = w2"
        using assms(1) s Inr x None pathBase_join[OF pl[OF nm(4)], of ?d]
        by (auto simp: startVM_def Let_def recordPathOf_def)
      have keep: "map_of (vw_files w2) (locate w0 ?d @ [n]) = map_of (vw_files w) (locate w0 ?d @ [n])"
        if "n \<noteq> runnerRecordName sha (lr_Name req) (lr_Ownership req)" "n \<noteq> lr_Name req @ ''.pid''" "n \<noteq> lr_Name req @ ''.qcow2.serial.log''" for n
        using frame_file[OF fr, of "locate w0 ?d @ [n]"] rk sp(3) that lp[OF nm(2), of w b] lp[OF nm(3), of w b] lw
        by (simp add: filesBut_def)
      have "launchedVM sha b addr req w0 (runnerRecordName sha (lr_Name req) (lr_Ownership req)) w2"
        unfolding launchedVM_def
        using k2 pf p2 assms(4,5) writeRunnerRecord_None[OF x[unfolded None]] rk
          keep[of "lr_Name req @ ''.qcow2''"] keep[of "lr_Name req @ ''.iso''"] assms(6,7)
          record_name_no_artifact[of sha "lr_Name req" "lr_Ownership req" "lr_Name req"]
        by auto
      then show ?thesis using he by auto
    qed
  qed
qed

lemma prepareFirmware_frame:
  "prepareFirmware b req w = (r, w') \<Longrightarrow> filesFrame {locate w (pathJoin (vo_WorkDir (vb_opt b)) (lr_Name req @ ''.vars.fd''))} w w'"
proof -
  assume a: "prepareFirmware b req w = (r, w')"
  obtain x w1 where x: "osStat w (GoldenVarsPath (vo_Golden (vb_opt b))) = (x, w1)"
    by (cases "osStat w (GoldenVarsPath (vo_Golden (vb_opt b)))")
  note q = osStat_quiet[OF x]
  let ?K = "{locate w (pathJoin (vo_WorkDir (vb_opt b)) (lr_Name req @ ''.vars.fd''))}"
  consider "w' = w" | "w' = w1" | e where "copyFile w1 (pathJoin (vo_WorkDir (vb_opt b)) (lr_Name req @ ''.vars.fd''))
      (GoldenVarsPath (vo_Golden (vb_opt b))) = (e, w')"
    using a x by (auto simp: prepareFirmware_def Let_def split: if_splits option.splits prod.splits)
  then show ?thesis
  proof cases
    case 3
    then show ?thesis using copyFile_frame[OF 3] frame_trans[OF quiet_frame[OF q]] by (simp add: quiet_same[OF q])
  qed (use quiet_frame[OF q] in simp_all)
qed

lemma prepareVM_result:
  assumes "prepareVM sha b addr req w = ((h, e), w')"
    and "portableBaseName (lr_Name req)"
    and "filesFrame (launchKeys sha b req w0) w0 w"
  shows "(h = None \<and> (\<exists>x. e = Some x \<and> cleanFailure (launchKeys sha b req w0) w0 x w'))
       \<or> (\<exists>n. h = Some n \<and> e = None \<and> launchedVM sha b addr req w0 n w')"
proof -
  let ?d = "vo_WorkDir (vb_opt b)" and ?K = "launchKeys sha b req w0"
  let ?disk = "pathJoin ?d (lr_Name req @ ''.qcow2'')" and ?cd = "pathJoin ?d (lr_Name req @ ''.iso'')"
  let ?vars = "pathJoin ?d (lr_Name req @ ''.vars.fd'')"
  obtain e1 w1 where 1: "writeThrough w ?disk (DiskFile (Some (vo_Golden (vb_opt b)))) = (e1, w1)"
    by (cases "writeThrough w ?disk (DiskFile (Some (vo_Golden (vb_opt b))))")
  obtain e2 w2 where 2: "writeThrough w1 ?cd (IsoFile ''MRJIT'' (jitFiles (lr_EncodedJITConfig req) (vmEnv (lr_Env req)))) = (e2, w2)"
    by (cases "writeThrough w1 ?cd (IsoFile ''MRJIT'' (jitFiles (lr_EncodedJITConfig req) (vmEnv (lr_Env req))))")
  obtain r3 w3 where 3: "prepareFirmware b req w2 = (r3, w3)" by (cases "prepareFirmware b req w2")
  have nm: "lr_Name req @ ''.qcow2'' \<in> set (launchNames sha req)" "lr_Name req @ ''.iso'' \<in> set (launchNames sha req)"
    "lr_Name req @ ''.vars.fd'' \<in> set (launchNames sha req)"
    by (simp_all add: launchNames_def artifactsOf_def launchRecord_def)
  note lp = launch_path[OF assms(2)] and l0 = frame_same(7)[OF assms(3)]
  have f1: "filesFrame ?K w0 w1"
    by (rule frame_trans[OF assms(3)], rule frame_mono[OF writeThrough_frame[OF 1]]) (use lp[OF nm(1), of w0 b] l0 in simp)
  note l1 = frame_same(7)[OF f1]
  have f2: "filesFrame ?K w0 w2"
    by (rule frame_trans[OF f1], rule frame_mono[OF writeThrough_frame[OF 2]]) (use lp[OF nm(2), of w0 b] l1 in simp)
  note l2 = frame_same(7)[OF f2]
  have f3: "filesFrame ?K w0 w3"
    by (rule frame_trans[OF f2], rule frame_mono[OF prepareFirmware_frame[OF 3]]) (use lp[OF nm(3), of w0 b] l2 in simp)
  have clean: "h = None \<and> (\<exists>x. e = Some x \<and> cleanFailure ?K w0 x w')"
    if "failLaunch b (recordPathOf sha b req) (launchRecord addr req) y v = ((h, e), w')" "filesFrame ?K w0 v" for y v
    using failLaunch_clean[OF that(1) assms(2) _ filesBut_frame[OF that(2)]] frame_same(1)[OF that(2)]
    by (simp add: artifactsOf_def launchRecord_def)
  show ?thesis
  proof (cases "e1 = None \<and> e2 = None \<and> \<not> isl r3")
    case False
    then show ?thesis using assms(1) 1 2 3 clean f1 f2 f3
      by (cases r3) (auto simp: prepareVM_def Let_def BuildJITISO_def BuildISO_def split: option.splits)
  next
    case True
    then obtain fw where fw: "r3 = Inr fw" by (cases r3) auto
    have s: "startVM sha b addr req fw w3 = ((h, e), w')"
      using assms(1) 1 2 3 True fw by (simp add: prepareVM_def Let_def BuildJITISO_def BuildISO_def)
    have "map_of (vw_files w3) (locate w0 ?d @ [lr_Name req @ ''.qcow2'']) = Some (DiskFile (Some (vo_Golden (vb_opt b))))"
      using writeThrough_written[OF 1[unfolded conjunct1[OF True]]] frame_file[OF writeThrough_frame[OF 2]]
        frame_file[OF prepareFirmware_frame[OF 3]] lp[OF nm(1), of w0 b] lp[OF nm(2), of w0 b] lp[OF nm(3), of w0 b] l0 l1 l2
      by simp
    moreover have "map_of (vw_files w3) (locate w0 ?d @ [lr_Name req @ ''.iso''])
         = Some (IsoFile ''MRJIT'' (jitFiles (lr_EncodedJITConfig req) (vmEnv (lr_Env req))))"
      using writeThrough_written[of w1 ?cd _ w2] 2 True
        frame_file[OF prepareFirmware_frame[OF 3]] lp[OF nm(2), of w0 b] lp[OF nm(3), of w0 b] l1 l2
      by simp
    ultimately show ?thesis
      using startVM_result[OF s assms(2) filesBut_frame[OF f3]] frame_same[OF f3] by simp
  qed
qed

text \<open>
  Every launch ends in one of three ways: it is refused before anything is written, it fails and
  has cleaned up, or the VM runs.
\<close>

lemma Launch_result:
  assumes "Launch sha b addr w req = ((h, e), w')"
  shows "(h = None \<and> e \<noteq> None \<and> quiet w w')
       \<or> (h = None \<and> (\<exists>x. e = Some x \<and> cleanFailure (launchKeys sha b req w) w x w'))
       \<or> (\<exists>n. h = Some n \<and> e = None \<and> portableBaseName (lr_Name req)
            \<and> (ownershipIsZero (lr_Ownership req) \<or> ow_RunnerID (lr_Ownership req) \<noteq> 0)
            \<and> ownershipValidate (lr_Ownership req) = None \<and> launchedVM sha b addr req w n w')"
proof (cases "ownershipValidate (lr_Ownership req) = None
    \<and> (ownershipIsZero (lr_Ownership req) \<or> ow_RunnerID (lr_Ownership req) \<noteq> 0) \<and> portableBaseName (lr_Name req)")
  case False
  then show ?thesis using assms by (auto simp: Launch_def split: option.splits if_splits)
next
  case ok: True
  obtain e1 w1 where 1: "attempt w = (e1, w1)" by (cases "attempt w")
  obtain e2 w2 where 2: "attempts 2 w1 = (e2, w2)" by (cases "attempts 2 w1")
  obtain e3 w3 where 3: "writeRunnerRecord w2 (recordPathOf sha b req) (launchRecord addr req) = (e3, w3)"
    by (cases "writeRunnerRecord w2 (recordPathOf sha b req) (launchRecord addr req)")
  note q1 = attempt_quiet[OF 1] and q2 = quiet_trans[OF attempt_quiet[OF 1] attempts_quiet[OF 2]]
  have rn: "runnerRecordName sha (lr_Name req) (lr_Ownership req) \<in> set (launchNames sha req)" by (simp add: launchNames_def)
  show ?thesis
  proof (cases "e1 = None \<and> e2 = None \<and> e3 = None")
    case False
    then show ?thesis using assms ok 1 2 3 q1 q2 quiet_trans[OF q2 writeRunnerRecord_Some[of w2 _ _ _ w3]]
      by (auto simp: Launch_def split: option.splits)
  next
    case True
    then have p: "prepareVM sha b addr req w3 = ((h, e), w')" using assms ok 1 2 3 by (auto simp: Launch_def)
    have "filesFrame (launchKeys sha b req w) w w3"
      by (rule frame_trans[OF quiet_frame[OF q2]], rule frame_mono[OF writeRunnerRecord_frame[OF 3]])
         (use launch_path[OF _ rn, of w b] ok quiet_same(9)[OF q2] in \<open>simp add: recordPathOf_def\<close>)
    then show ?thesis using prepareVM_result[OF p] ok by blast
  qed
qed

interpretation vm: runner_backend "Launch sha b addr" vw_procs
  for sha b addr
proof unfold_locales
  fix w req e w'
  assume "Launch sha b addr w req = ((None, e), w')"
  then show "vw_procs w' = vw_procs w \<and> e \<noteq> None"
    using Launch_result[of sha b addr w req None e w'] by (auto simp: cleanFailure_def quiet_same)
qed

section \<open>Stopping a recorded VM\<close>

lemma qmpReply_Inr: "qmpReply ls = (Inr raw, ls') \<Longrightarrow> QReturn raw \<in> set ls \<and> set ls' \<subseteq> set ls"
  by (induction ls rule: qmpReply.induct) auto

lemma qmpReply_subset: "qmpReply ls = (r, ls') \<Longrightarrow> set ls' \<subseteq> set ls"
  by (induction ls rule: qmpReply.induct) auto

lemma qmpExecute_sent:
  assumes "qmpExecute c cmd = (r, c')"
  shows "qc_sent c' = qc_sent c @ [cmd]" and "set (qc_lines c') \<subseteq> set (qc_lines c)"
    and "r = Inr raw \<Longrightarrow> QReturn raw \<in> set (qc_lines c)"
proof -
  show "qc_sent c' = qc_sent c @ [cmd]"
    using assms by (auto simp: qmpExecute_def qmpWrite_def split: list.splits option.splits prod.splits)
  show "set (qc_lines c') \<subseteq> set (qc_lines c)"
    using assms by (auto simp: qmpExecute_def qmpWrite_def split: list.splits option.splits prod.splits
        dest!: qmpReply_subset)
  show "QReturn raw \<in> set (qc_lines c)" if "r = Inr raw"
    using assms that by (auto simp: qmpExecute_def qmpWrite_def split: list.splits option.splits prod.splits
        dest!: qmpReply_Inr)
qed

text \<open>\<open>quit\<close> is written only after a reply that carries the expected name.\<close>

lemma QMPQuitNamed_sent:
  assumes "QMPQuitNamed c name = (e, c')" and "qc_sent c = []" and "''quit'' \<in> set (qc_sent c')"
  shows "QReturn (Some name) \<in> set (qc_lines c)"
proof -
  obtain g ls where g: "qc_lines c = g # ls" using assms by (cases "qc_lines c") (auto simp: QMPQuitNamed_def)
  obtain r1 c1 where 1: "qmpExecute (c\<lparr>qc_lines := ls\<rparr>) ''qmp_capabilities'' = (r1, c1)"
    by (cases "qmpExecute (c\<lparr>qc_lines := ls\<rparr>) ''qmp_capabilities''")
  obtain r2 c2 where 2: "qmpExecute c1 ''query-name'' = (r2, c2)" by (cases "qmpExecute c1 ''query-name''")
  have s: "qc_sent c1 = [''qmp_capabilities'']" "qc_sent c2 = [''qmp_capabilities'', ''query-name'']"
    using qmpExecute_sent(1)[OF 1] qmpExecute_sent(1)[OF 2] assms(2) by auto
  have "r2 = Inr (Some name)"
    using assms(1,3) g 1 2 s
    by (auto simp: QMPQuitNamed_def split: sum.splits option.splits if_splits)
  then show ?thesis using qmpExecute_sent(3)[OF 2] qmpExecute_sent(2)[OF 1] g by auto
qed

lemma QMPQuitNamed_ok: "QMPQuitNamed c name = (None, c') \<Longrightarrow> ''quit'' \<in> set (qc_sent c')"
  by (auto simp: QMPQuitNamed_def split: list.splits prod.splits sum.splits option.splits if_splits
      dest!: qmpExecute_sent(1))

text \<open>The identity of the processes, without their remaining time.\<close>

definition told :: "vm_world \<Rightarrow> (int \<times> string list \<times> bool) set" where
  "told w = (\<lambda>p. (vp_pid p, vp_args p, vp_quit p)) ` set (vw_procs w)"

definition pidsOf :: "vm_world \<Rightarrow> int set" where
  "pidsOf w = vp_pid ` set (vw_procs w)"

text \<open>The processes that were told to quit because they report \<open>name\<close>.\<close>

definition quitters :: "vm_world \<Rightarrow> string \<Rightarrow> (int \<times> string list \<times> bool) set" where
  "quitters w name = {(pid, args, True) | pid args. QReturn (Some name) \<in> set (vw_says w pid) \<and> (\<exists>q. (pid, args, q) \<in> told w)}"

definition sameHost :: "vm_world \<Rightarrow> vm_world \<Rightarrow> bool" where
  "sameHost w w' \<longleftrightarrow> vw_files w' = vw_files w \<and> locate w' = locate w \<and> vw_says w' = vw_says w"

lemma sameHost_quiet: "quiet w w' \<Longrightarrow> sameHost w w' \<and> told w' = told w \<and> pidsOf w' = pidsOf w"
  by (simp add: sameHost_def told_def pidsOf_def quiet_same)

lemma sameHost_trans: "sameHost a b \<Longrightarrow> sameHost b c \<Longrightarrow> sameHost a c"
  by (simp add: sameHost_def)

lemma tick_same: "sameHost w (tick w)" "told (tick w) \<subseteq> told w"
  by (auto simp: sameHost_def tick_def told_def locate_def absPath_def fun_eq_iff image_iff)

lemma wait_result:
  "waitForProcessExit pid w = Some (e, w') \<Longrightarrow>
     sameHost w w' \<and> told w' \<subseteq> told w \<and> (e = None \<longrightarrow> pid \<notin> pidsOf w')"
proof -
  let ?P = "\<lambda>pid w y. sameHost w (snd y) \<and> told (snd y) \<subseteq> told w \<and> (fst y = None \<longrightarrow> pid \<notin> pidsOf (snd y))"
  assume "waitForProcessExit pid w = Some (e, w')"
  then have "?P pid w (e, w')"
  proof (rule waitForProcessExit.raw_induct[of ?P, rotated])
    fix f pid w y
    assume IH: "\<And>pid w y. f pid w = Some y \<Longrightarrow> ?P pid w y"
      and step: "(case processAlive w pid of
        (Inl e, w1) \<Rightarrow> Some (Some e, w1)
      | (Inr running, w1) \<Rightarrow>
          if \<not> running then Some (None, w1)
          else if ctxDone w1 then Some (Some ctxErr, w1)
          else f pid (tick w1)) = Some y"
    obtain r w1 where r: "processAlive w pid = (r, w1)" by (cases "processAlive w pid")
    note q = sameHost_quiet[OF processAlive_quiet[OF r]]
    have "(\<exists>e. y = (Some e, w1)) \<or> (y = (None, w1) \<and> r = Inr False) \<or> f pid (tick w1) = Some y"
    proof (cases r)
      case (Inr running)
      then show ?thesis using step r by (cases running; cases "ctxDone w1") auto
    qed (use step r in auto)
    then consider e where "y = (Some e, w1)" | "y = (None, w1)" "r = Inr False" | "f pid (tick w1) = Some y" by blast
    then show "?P pid w y"
    proof cases
      case 2
      then show ?thesis using q processAlive_Inr[of w pid False w1] r by (auto simp: pidsOf_def)
    next
      case 3
      then show ?thesis using IH[OF 3] q tick_same[of w1] by (auto simp: sameHost_def)
    qed (use q in auto)
  qed
  then show ?thesis by simp
qed

lemma tellQuit_same: "sameHost w (tellQuit pid w)" "pidsOf (tellQuit pid w) = pidsOf w"
    "vw_deadline (tellQuit pid w) = vw_deadline w"
proof -
  show "sameHost w (tellQuit pid w)" "vw_deadline (tellQuit pid w) = vw_deadline w"
    by (auto simp: sameHost_def tellQuit_def locate_def absPath_def fun_eq_iff)
  have "map vp_pid (vw_procs (tellQuit pid w)) = map vp_pid (vw_procs w)" by (simp add: tellQuit_def)
  then show "pidsOf (tellQuit pid w) = pidsOf w" unfolding pidsOf_def by (metis set_map)
qed

lemma tellQuit_told: "told (tellQuit pid w) \<subseteq> told w \<union> {(pid, args, True) | args q. (pid, args, q) \<in> told w}"
proof
  fix t
  assume "t \<in> told (tellQuit pid w)"
  then obtain p where p: "p \<in> set (vw_procs w)"
    "t = (vp_pid p, vp_args p, vp_pid p = pid \<or> vp_quit p)" by (auto simp: told_def tellQuit_def)
  then have "(vp_pid p, vp_args p, vp_quit p) \<in> told w" by (auto simp: told_def)
  then show "t \<in> told w \<union> {(pid, args, True) | args q. (pid, args, q) \<in> told w}"
    using p(2) by (cases "vp_pid p = pid") auto
qed

lemma quitNamed_result:
  assumes "quitNamed w addr name = (e, w')"
  shows "sameHost w w'" and "told w' \<subseteq> told w \<union> quitters w name"
    and "vw_deadline w' = vw_deadline w"
    and "e = None \<Longrightarrow> \<exists>p w2. listenerAt w addr = Some p \<and> quiet w w2 \<and> w' = tellQuit (vp_pid p) w2"
proof -
  obtain e1 w1 where 1: "attempt w = (e1, w1)" by (cases "attempt w")
  obtain x w2 where 2: "takeOutcome w1 = (x, w2)" by (cases "takeOutcome w1")
  note q1 = attempt_quiet[OF 1] and q2 = quiet_trans[OF attempt_quiet[OF 1] takeOutcome_quiet[OF 2]]
  have la: "listenerAt w1 addr = listenerAt w addr" by (simp add: listenerAt_def quiet_same[OF q1])
  let ?c = "\<lambda>p. \<lparr>qc_lines = vw_says w2 (vp_pid p), qc_writes = [None, None, outcomeErr x], qc_sent = []\<rparr>"
  consider "w' = w1" "e \<noteq> None"
    | p where "listenerAt w addr = Some p" "w' = w2" "\<exists>c. QMPQuitNamed (?c p) name = (e, c) \<and> ''quit'' \<notin> set (qc_sent c)"
    | p c where "listenerAt w addr = Some p" "w' = tellQuit (vp_pid p) w2" "QMPQuitNamed (?c p) name = (e, c)" "''quit'' \<in> set (qc_sent c)"
    using assms 1 2 la by (auto simp: quitNamed_def split: option.splits prod.splits if_splits)
  note cases = this
  show "sameHost w w'" "vw_deadline w' = vw_deadline w"
    using cases sameHost_quiet[OF q1] sameHost_quiet[OF q2] tellQuit_same sameHost_trans quiet_same[OF q1] quiet_same[OF q2]
    by metis+
  show "e = None \<Longrightarrow> \<exists>p w2. listenerAt w addr = Some p \<and> quiet w w2 \<and> w' = tellQuit (vp_pid p) w2"
    using cases QMPQuitNamed_ok q2 by metis
  show "told w' \<subseteq> told w \<union> quitters w name"
    using cases
  proof cases
    case (3 p c)
    then have s: "QReturn (Some name) \<in> set (vw_says w (vp_pid p))"
      using QMPQuitNamed_sent[OF 3(3)] quiet_same(3)[OF q2] by simp
    have "{(vp_pid p, args, True) | args q. (vp_pid p, args, q) \<in> told w} \<subseteq> quitters w name"
      using s by (auto simp: quitters_def)
    moreover have "told w2 = told w" using sameHost_quiet[OF q2] by blast
    ultimately show ?thesis unfolding 3(2) using tellQuit_told[of "vp_pid p" w2]
      by (intro subset_trans[OF tellQuit_told]) (simp only: Un_mono order_refl)
  qed (use sameHost_quiet[OF q1] sameHost_quiet[OF q2] in auto)
qed

text \<open>The process a record identifies: the pid file when QEMU wrote it, the recorded id otherwise.\<close>

definition recordedPID :: "vm_world \<Rightarrow> string \<Rightarrow> runner_record \<Rightarrow> int option" where
  "recordedPID w dir r =
     (if rr_PIDFile r = [] then Some (rr_PID r)
      else case map_of (vw_files w) (locate w dir @ [rr_PIDFile r]) of
             None \<Rightarrow> Some (rr_PID r)
           | Some f \<Rightarrow> (case parseInt64 (trimSpace (textOf f)) of
                         None \<Rightarrow> None | Some v \<Rightarrow> if v \<le> 0 then None else Some v))"

lemma runnerPID_quiet: "runnerPID w dir r = (x, w') \<Longrightarrow> quiet w w'"
  unfolding runnerPID_def
  by (auto split: if_splits prod.splits sum.splits option.splits dest!: runnerArtifactPath_quiet osReadFile_quiet
      intro: quiet_trans)

lemma runnerPID_Inr:
  assumes "runnerPID w dir r = (Inr pid, w')"
  shows "recordedPID w dir r = Some pid"
proof (cases "rr_PIDFile r = []")
  case True
  then show ?thesis using assms by (simp add: runnerPID_def recordedPID_def)
next
  case False
  then obtain p w1 where p: "runnerArtifactPath w dir (rr_PIDFile r) = (Inr p, w1)"
    using assms by (auto simp: runnerPID_def split: prod.splits sum.splits)
  obtain x w2 where x: "osReadFile w1 p = (x, w2)" by (cases "osReadFile w1 p")
  have f: "fileAt w1 p = map_of (vw_files w) (locate w dir @ [rr_PIDFile r])"
    using runnerArtifactPath_Inr[OF p] quiet_same[OF runnerArtifactPath_quiet[OF p]] by (simp add: fileAt_def)
  show ?thesis
  proof (cases x)
    case (Inl e)
    then show ?thesis using assms False p x f osReadFile_absent[of w1 p e w2]
      by (auto simp: runnerPID_def recordedPID_def split: if_splits)
  next
    case (Inr f1)
    then show ?thesis using assms False p x f osReadFile_Inr[of w1 p f1 w2]
      by (auto simp: runnerPID_def recordedPID_def split: if_splits option.splits)
  qed
qed

lemma stopRecorded_result:
  assumes "stopRecorded b rid r w = Some (e, w')"
  shows "sameHost w w'" and "told w' \<subseteq> told w \<union> quitters w (rr_Name r)"
    and "e = None \<Longrightarrow> \<exists>pid. recordedPID w (vo_WorkDir (vb_opt b)) r = Some pid
           \<and> (if pid = 0 then \<not> rr_Started r else pid \<notin> pidsOf w')"
proof -
  obtain x w1 where x: "runnerPID w (vo_WorkDir (vb_opt b)) r = (x, w1)"
    by (cases "runnerPID w (vo_WorkDir (vb_opt b)) r")
  note s1 = sameHost_quiet[OF runnerPID_quiet[OF x]]
  have q1: "quitters w1 = quitters w" using s1 by (simp add: quitters_def sameHost_def fun_eq_iff)
  have "sameHost w w' \<and> told w' \<subseteq> told w \<union> quitters w (rr_Name r)
      \<and> (e = None \<longrightarrow> (\<exists>pid. x = Inr pid \<and> (if pid = 0 then \<not> rr_Started r else pid \<notin> pidsOf w')))"
  proof (cases "\<exists>pid. x = Inr pid \<and> pid \<noteq> 0")
    case False
    then show ?thesis using assms x s1 by (auto simp: stopRecorded_def split: sum.splits if_splits)
  next
    case True
    then obtain pid where pid: "x = Inr pid" "pid \<noteq> 0" by auto
    obtain y w2 where y: "processAlive w1 pid = (y, w2)" by (cases "processAlive w1 pid")
    note s2 = sameHost_quiet[OF processAlive_quiet[OF y]]
    have q2: "quitters w2 = quitters w" using s2 q1 by (simp add: quitters_def sameHost_def fun_eq_iff)
    obtain z w3 where z: "quitNamed w2 (rr_QMPAddr r) (rr_Name r) = (z, w3)" by (cases "quitNamed w2 (rr_QMPAddr r) (rr_Name r)")
    note s3 = quitNamed_result[OF z]
    consider "w' = w2" "e \<noteq> None" | "y = Inr False" "w' = w2" | "w' = w3" "e \<noteq> None"
      | v where "waitForProcessExit pid w3 = Some (v, w')" "e = None \<longrightarrow> v = None"
      using assms x y z pid by (auto simp: stopRecorded_def split: sum.splits option.splits if_splits prod.splits)
    then show ?thesis
    proof cases
      case 2
      then show ?thesis using s1 s2 pid processAlive_Inr[of w1 pid False w2] y
        by (auto simp: pidsOf_def sameHost_def)
    next
      case (4 v)
      then show ?thesis using wait_result[OF 4(1)] s1 s2 s3 q2 pid by (auto simp: sameHost_def)
    qed (use s1 s2 s3 q2 in \<open>auto simp: sameHost_def\<close>)
  qed
  then show "sameHost w w'" "told w' \<subseteq> told w \<union> quitters w (rr_Name r)"
    "e = None \<Longrightarrow> \<exists>pid. recordedPID w (vo_WorkDir (vb_opt b)) r = Some pid
           \<and> (if pid = 0 then \<not> rr_Started r else pid \<notin> pidsOf w')"
    using runnerPID_Inr x by blast+
qed

text \<open>How a removal that returns went: nothing to do, or the record was read and its process stopped.\<close>

lemma RemoveOwnedRunner_result:
  assumes "RemoveOwnedRunner b w rid = Some (e, w')"
  shows "quiet w w' \<or>
    (\<exists>r x w2 w3. portableBaseName rid \<and> hasSuffix rid recordSuffix
       \<and> map_of (vw_files w) (locate w (vo_WorkDir (vb_opt b)) @ [rid]) = Some (RecordFile r)
       \<and> quiet w w2 \<and> stopRecorded b rid r w2 = Some (x, w3)
       \<and> (if x = None then removeRunnerRecord w3 (vo_WorkDir (vb_opt b)) (pathJoin (absPath w (vo_WorkDir (vb_opt b))) rid) r = (e, w')
          else e = x \<and> w' = w3))"
proof -
  let ?d = "vo_WorkDir (vb_opt b)"
  obtain c w1 where c: "containedRunnerPath w ?d rid = (c, w1)" by (cases "containedRunnerPath w ?d rid")
  note q1 = containedRunnerPath_quiet[OF c]
  show ?thesis
  proof (cases "\<exists>p. c = Inr p \<and> hasSuffix rid recordSuffix")
    case False
    then show ?thesis using assms c q1 by (cases c) (auto simp: RemoveOwnedRunner_def split: if_splits)
  next
    case True
    then obtain p where p: "c = Inr p" "hasSuffix rid recordSuffix" by auto
    note cp = containedRunnerPath_Inr[OF c[unfolded p]]
    obtain y w2 where y: "readRunnerRecord w1 p = (y, w2)" by (cases "readRunnerRecord w1 p")
    note q2 = quiet_trans[OF q1 readRunnerRecord_quiet[OF y]]
    show ?thesis
    proof (cases y)
      case (Inl z)
      then show ?thesis using assms c p y q2 by (auto simp: RemoveOwnedRunner_def split: if_splits)
    next
      case (Inr r)
      have f: "map_of (vw_files w) (locate w ?d @ [rid]) = Some (RecordFile r)"
        using readRunnerRecord_Inr[of w1 p r w2] y Inr quiet_same[OF q1] cp(3) by (simp add: fileAt_def)
      obtain x w3 where x: "stopRecorded b rid r w2 = Some (x, w3)"
        using assms c p y Inr by (auto simp: RemoveOwnedRunner_def split: option.splits)
      then have "if x = None then removeRunnerRecord w3 ?d p r = (e, w') else e = x \<and> w' = w3"
        using assms c p y Inr by (auto simp: RemoveOwnedRunner_def split: option.splits)
      then show ?thesis using f x q2 cp(1,2) p(2) by blast
    qed
  qed
qed

section \<open>Listing\<close>

text \<open>A pattern without metacharacters matches itself only.\<close>

definition noMeta :: "string \<Rightarrow> bool" where
  "noMeta s \<longleftrightarrow> \<not> containsAny s [CHR ''*'', CHR ''?'', CHR ''['', CHR 0x5C]"

lemma globParse_literal: "noMeta s \<Longrightarrow> length (s @ t) \<le> k \<Longrightarrow>
    globParse k (s @ t) = map_option (\<lambda>as. map GLit s @ as) (globParse (k - length s) t)"
proof (induction s arbitrary: k)
  case Nil
  then show ?case by (simp add: option.map_ident)
next
  case (Cons c s)
  then obtain j where "k = Suc j" by (cases k) auto
  then show ?case using Cons by (auto simp: noMeta_def containsAny_def option.map_comp comp_def)
qed

lemma globMatch_literal: "globMatch (map GLit s @ as) t \<longleftrightarrow> (\<exists>u. t = s @ u \<and> globMatch as u)"
  by (induction s arbitrary: t) (auto split: list.splits)

lemma globMatch_star: "CHR ''/'' \<notin> set u \<Longrightarrow> globMatch as v \<Longrightarrow> globMatch (GStar # as) (u @ v)"
  by (induction u) (auto split: list.splits)

lemma globStep_literal: "noMeta p \<Longrightarrow> p \<noteq> ''..'' \<Longrightarrow>
    globStep w ds p = Some (concat (map (\<lambda>d. map (\<lambda>n. d @ [n]) (filter (\<lambda>n. n = p) (childrenOf w d))) ds))"
proof -
  assume a: "noMeta p" "p \<noteq> ''..''"
  have "globMatch (map GLit p) = (\<lambda>n. n = p)" using globMatch_literal[of p "[]"] by (auto simp: fun_eq_iff)
  then show ?thesis using globParse_literal[of p "[]" "length p"] a by (simp add: globStep_def)
qed

lemma globStep_subset: "globStep w ds p = Some es \<Longrightarrow> p \<noteq> ''..'' \<Longrightarrow> e \<in> set es \<Longrightarrow> \<exists>d \<in> set ds. \<exists>n. e = d @ [n]"
  by (auto simp: globStep_def split: option.splits if_splits)

lemma child_of: "map_of (vw_files w) (d @ n # t) \<noteq> None \<Longrightarrow> n \<in> set (childrenOf w d)"
  by (auto simp: childrenOf_def List.map_filter_def image_iff dest!: map_of_SomeD intro!: bexI)

lemma globSteps_literal:
  "\<forall>p \<in> set ps. noMeta p \<and> p \<noteq> ''..'' \<Longrightarrow> map_of (vw_files w) (d @ ps @ n # t) \<noteq> None \<Longrightarrow>
   d \<in> set ds \<Longrightarrow> \<exists>es. globSteps w ds (ps @ qs) = globSteps w es qs \<and> d @ ps \<in> set es"
proof (induction ps arbitrary: ds d)
  case (Cons p ps)
  have "p \<in> set (childrenOf w d)" using Cons.prems(2) by (intro child_of[of w d p "ps @ n # t"]) simp
  then have "d @ [p] \<in> set (concat (map (\<lambda>d. map (\<lambda>n. d @ [n]) (filter (\<lambda>n. n = p) (childrenOf w d))) ds))"
    using Cons.prems(3) by auto
  from Cons.IH[OF _ _ this] show ?case using Cons.prems(1,2) globStep_literal[of p w ds] by simp
qed auto

lemma Glob_finds:
  assumes "isAbs d" and "\<forall>p \<in> set (pathParts d). noMeta p" and "plainPart (u @ ''*'' @ v)" and "noMeta u" and "noMeta v"
    and "CHR ''/'' \<notin> set n" and "map_of (vw_files w) (pathParts d @ [u @ n @ v]) \<noteq> None"
  shows "\<exists>ps. Glob w (pathJoin d (u @ ''*'' @ v)) = Inr ps \<and> ''/'' @ sepBy ''/'' (pathParts d @ [u @ n @ v]) \<in> set ps"
proof -
  let ?pat = "u @ ''*'' @ v"
  have pp: "pathParts (pathJoin d ?pat) = pathParts d @ [?pat]" "isAbs (pathJoin d ?pat)"
    using pathParts_join1[OF assms(3), of d] assms(1) by simp_all
  have lits: "\<forall>p \<in> set (pathParts d). noMeta p \<and> p \<noteq> ''..''"
    using assms(1,2) cleaned_pathParts[of d] by (auto simp: cleaned_def plainPart_def)
  obtain es where es: "globSteps w [[]] (pathParts d @ [?pat]) = globSteps w es [?pat]" "pathParts d \<in> set es"
    using globSteps_literal[OF lits, of w "[]" "u @ n @ v" "[]" "[[]]" "[?pat]"] assms(7) by auto
  have g: "globParse (length ?pat) ?pat = Some (map GLit u @ GStar # map GLit v)"
    using globParse_literal[OF assms(4), of "''*'' @ v" "length ?pat"] globParse_literal[OF assms(5), of "[]" "length v"]
    by simp
  have m: "globMatch (map GLit u @ GStar # map GLit v) (u @ n @ v)"
    using globMatch_star[OF assms(6), of "map GLit v" v] globMatch_literal[of v "[]" v] globMatch_literal[of u] by auto
  have c: "u @ n @ v \<in> set (childrenOf w (pathParts d))" by (rule child_of) (use assms(7) in simp)
  have nd: "?pat \<noteq> ''..''" by (auto simp: append_eq_Cons_conv)
  let ?es = "concat (map (\<lambda>d. map (\<lambda>n. d @ [n]) (filter (globMatch (map GLit u @ GStar # map GLit v)) (childrenOf w d))) es)"
  have "globStep w es ?pat = Some ?es" using g nd by (simp add: globStep_def)
  moreover have "pathParts d @ [u @ n @ v] \<in> set ?es" using es(2) m c by auto
  ultimately show ?thesis using es(1) pp assms(7) by (auto simp: Glob_def)
qed

lemma collectOwned_member:
  "collectOwned w ow ps = (Inr rs, w') \<Longrightarrow> p \<in> set ps \<Longrightarrow> fileAt w p = Some (RecordFile r) \<Longrightarrow>
   ownershipMatches (rr_Ownership r) ow \<Longrightarrow>
   \<lparr>or_ResourceID = pathBase p, or_Name = rr_Name r, or_RunnerID = ow_RunnerID (rr_Ownership r)\<rparr> \<in> set rs"
proof (induction ps arbitrary: w rs)
  case (Cons q ps)
  obtain y w1 where y: "readRunnerRecord w q = (y, w1)" by (cases "readRunnerRecord w q")
  note sm = quiet_same(10)[OF readRunnerRecord_quiet[OF y]]
  obtain s where s: "y = Inr s" using Cons.prems(1) y by (cases y) auto
  have sq: "fileAt w q = Some (RecordFile s)" using readRunnerRecord_Inr[of w q s w1] y s by simp
  obtain rs1 where rs1: "collectOwned w1 ow ps = (Inr rs1, w')" "set rs1 \<subseteq> set rs"
    using Cons.prems(1) y s by (auto simp: subset_insertI split: if_splits prod.splits sum.splits)
  show ?case
  proof (cases "p = q")
    case True
    then show ?thesis using Cons.prems y s sq by (auto split: if_splits prod.splits sum.splits)
  next
    case False
    then show ?thesis using Cons.IH[OF rs1(1)] Cons.prems(2-4) sm rs1(2) by auto
  qed
qed simp

lemma collectOwned_sound:
  "collectOwned w ow ps = (Inr rs, w') \<Longrightarrow> x \<in> set rs \<Longrightarrow>
   \<exists>p r. p \<in> set ps \<and> fileAt w p = Some (RecordFile r) \<and> ownershipMatches (rr_Ownership r) ow
     \<and> x = \<lparr>or_ResourceID = pathBase p, or_Name = rr_Name r, or_RunnerID = ow_RunnerID (rr_Ownership r)\<rparr>"
proof (induction ps arbitrary: w rs)
  case (Cons q ps)
  obtain y w1 where y: "readRunnerRecord w q = (y, w1)" by (cases "readRunnerRecord w q")
  note sm = quiet_same(10)[OF readRunnerRecord_quiet[OF y]]
  obtain s where s: "y = Inr s" using Cons.prems(1) y by (cases y) auto
  have sq: "fileAt w q = Some (RecordFile s)" using readRunnerRecord_Inr[of w q s w1] y s by simp
  consider rs1 where "collectOwned w1 ow ps = (Inr rs1, w')" "x \<in> set rs1"
    | "ownershipMatches (rr_Ownership s) ow"
      "x = \<lparr>or_ResourceID = pathBase q, or_Name = rr_Name s, or_RunnerID = ow_RunnerID (rr_Ownership s)\<rparr>"
    using Cons.prems y s by (auto split: if_splits prod.splits sum.splits)
  then show ?case
  proof cases
    case (1 rs1)
    then show ?thesis using Cons.IH[OF 1] sm by auto
  next
    case 2
    then show ?thesis using sq by (intro exI[of _ q] exI[of _ s]) simp
  qed
qed simp

lemma namespace_noMeta: "noMeta (ownershipNamespace sha ow @ ''.'')"
  using hexEncode_plain by (auto simp: noMeta_def containsAny_def list_ex_iff ownershipNamespace_def)

lemma namespace_matches: "ownershipMatches a e \<Longrightarrow> ownershipNamespace sha a = ownershipNamespace sha e"
  by (simp add: ownershipMatches_def ownershipNamespace_def)

section \<open>Properties\<close>

text \<open>
  C19: a VM launch that returns no handle has not left a process behind, and it either changed no
  file at all, or cleaned up: no file outside the six of the launch changed and these six are gone,
  unless the clean-up itself failed, in which case its error is joined to the launch error.
\<close>

theorem failed_vm_launch_leaves_nothing:
  assumes "Launch sha b addr w req = ((None, e), w')"
  shows "e \<noteq> None \<and> vw_procs w' = vw_procs w
       \<and> (vw_files w' = vw_files w
          \<or> (\<forall>k. k \<notin> launchKeys sha b req w \<longrightarrow> map_of (vw_files w') k = map_of (vw_files w) k)
            \<and> ((\<forall>k \<in> launchKeys sha b req w. map_of (vw_files w') k = None)
               \<or> (\<exists>launchErr cleanupErr. e = Some (Join [launchErr, cleanupErr]))))"
  using Launch_result[OF assms] vm.no_handle_untouched[OF assms]
  by (auto simp: cleanFailure_def quiet_same)

definition sampleVmBackend :: vm_backend where
  "sampleVmBackend =
     \<lparr>vb_opt = \<lparr>vo_Golden = ''/g.qcow2'', vo_WorkDir = ''/vm'', vo_MemMB = 8, vo_CPUs = 1, vo_Accel = [],
                vo_QEMUBin = ''qemu'', vo_ImgBin = ''qemu-img''\<rparr>,
      vb_accel = ''kvm'', vb_ovmfCode = []\<rparr>"

text \<open>A host on which the ninth call that can fail, creating the overlay, leaves a partial file.\<close>

definition sampleHost :: "outcome list \<Rightarrow> vm_world" where
  "sampleHost xs =
     \<lparr>vw_cwd = ''srv'', vw_env = [], vw_files = [([''g.qcow2''], DiskFile None)], vw_canon = (\<lambda>p. p),
      vw_procs = [], vw_nextPid = 41, vw_lag = 2,
      vw_says = (\<lambda>pid. [QEvent, QReturn (Some []), QEvent, QReturn (Some ''mr-1''), QReturn (Some [])]),
      vw_deadline = None, vw_outcomes = xs\<rparr>"

definition partialOverlay :: "outcome list" where
  "partialOverlay = replicate 9 Succeeds @ [FailsPartly ''disk full'']"

theorem failed_vm_launch_leaves_nothing_witness:
  "vw_files (snd (Launch (\<lambda>s. s) sampleVmBackend ''127.0.0.1:9'' (sampleHost partialOverlay) exampleRequest))
     = [([''g.qcow2''], DiskFile None)]
   \<and> vw_procs (snd (Launch (\<lambda>s. s) sampleVmBackend ''127.0.0.1:9'' (sampleHost partialOverlay) exampleRequest)) = []"
proof -
  let ?l = "Launch (\<lambda>s. s) sampleVmBackend ''127.0.0.1:9'' (sampleHost partialOverlay) exampleRequest"
  have "fst (fst ?l) = None" by code_simp
  then have "?l = ((None, snd (fst ?l)), snd ?l)" by (metis prod.collapse)
  from failed_vm_launch_leaves_nothing[OF this] have "vw_procs (snd ?l) = []" by (simp add: sampleHost_def)
  moreover have "vw_files (snd ?l) = [([''g.qcow2''], DiskFile None)]" by code_simp
  ultimately show ?thesis by simp
qed

text \<open>
  C18: removing an owned VM touches only its record and the files the record names, all directly
  inside the work directory, and touches them only when the recorded process is gone: the pid that
  QEMU wrote (or the recorded one) belongs to no process any more, or the VM was never started.
\<close>

theorem vm_files_go_after_the_process:
  assumes "RemoveOwnedRunner b w rid = Some (e, w')"
    and "map_of (vw_files w') k \<noteq> map_of (vw_files w) k"
  shows "\<exists>r pid n. map_of (vw_files w) (locate w (vo_WorkDir (vb_opt b)) @ [rid]) = Some (RecordFile r)
     \<and> k = locate w (vo_WorkDir (vb_opt b)) @ [n] \<and> n \<in> set (rid # artifactsOf r) \<and> portableBaseName n
     \<and> recordedPID w (vo_WorkDir (vb_opt b)) r = Some pid
     \<and> (if pid = 0 then \<not> rr_Started r else pid \<notin> vp_pid ` set (vw_procs w'))"
proof -
  let ?d = "vo_WorkDir (vb_opt b)"
  have "\<not> quiet w w'" using assms(2) quiet_same(1) by auto
  then obtain r x w2 w3 where r: "portableBaseName rid" "map_of (vw_files w) (locate w ?d @ [rid]) = Some (RecordFile r)"
      "quiet w w2" "stopRecorded b rid r w2 = Some (x, w3)"
      "if x = None then removeRunnerRecord w3 ?d (pathJoin (absPath w ?d) rid) r = (e, w') else e = x \<and> w' = w3"
    using RemoveOwnedRunner_result[OF assms(1)] by auto
  note st = stopRecorded_result[OF r(4)] and q = quiet_same[OF r(3)]
  have h3: "vw_files w3 = vw_files w" "locate w3 = locate w" using st(1) q by (simp_all add: sameHost_def)
  have x: "x = None" using r(5) assms(2) h3 by (auto split: if_splits)
  then have rm: "removeRunnerRecord w3 ?d (pathJoin (absPath w ?d) rid) r = (e, w')" using r(5) by simp
  note f = removeRunnerRecord_frame[OF rm]
  have lp: "locate w3 (pathJoin (absPath w ?d) rid) = locate w ?d @ [rid]"
    using locate_join[OF portable_plain[OF r(1)], of w "absPath w ?d"] h3(2) by simp
  have "k \<in> recordKeys w3 ?d (pathJoin (absPath w ?d) rid) r" using frame_file[OF f, of k] assms(2) h3 by auto
  then obtain n where n: "k = locate w ?d @ [n]" "n \<in> set (rid # artifactsOf r)" "portableBaseName n"
    using lp h3(2) r(1) by (auto simp: recordKeys_def artifactKeys_def)
  obtain pid where p: "recordedPID w2 ?d r = Some pid" "if pid = 0 then \<not> rr_Started r else pid \<notin> pidsOf w3"
    using st(3)[OF x] by blast
  have "recordedPID w ?d r = Some pid" using p(1) unfolding recordedPID_def q(1,9) .
  moreover have "if pid = 0 then \<not> rr_Started r else pid \<notin> vp_pid ` set (vw_procs w')"
    using p(2) frame_same(1)[OF f] by (auto simp: pidsOf_def)
  ultimately show ?thesis using r(2) n by blast
qed

text \<open>The record of a launch of \<open>exampleRequest\<close>, and a restarted host: the files are there, the process is not.\<close>

definition runningRecord :: string where
  "runningRecord = ''686f737400740070.mr-1.runner.json''"

definition restartedRecord :: runner_record where
  "restartedRecord = (launchRecord ''127.0.0.1:9'' exampleRequest)\<lparr>rr_Started := True, rr_PID := 42\<rparr>"

definition restartedHost :: vm_world where
  "restartedHost = (sampleHost [])\<lparr>vw_files :=
     [([''g.qcow2''], DiskFile None), ([''vm'', runningRecord], RecordFile restartedRecord),
      ([''vm'', ''mr-1.qcow2''], DiskFile (Some ''/g.qcow2'')),
      ([''vm'', ''mr-1.qcow2.serial.log''], TextFile [])]\<rparr>"

lemma quiet_plain: "quiet w w' \<Longrightarrow> vw_outcomes w = [] \<Longrightarrow> vw_outcomes w' = [] \<Longrightarrow> w' = w"
  unfolding quiet_def by (cases w; cases w') simp

lemma removal_of_dead:
  assumes "containedRunnerPath w (vo_WorkDir (vb_opt b)) rid = (Inr p, w1)" and "hasSuffix rid recordSuffix"
    and "readRunnerRecord w1 p = (Inr r, w2)" and "runnerPID w2 (vo_WorkDir (vb_opt b)) r = (Inr pid, w3)" and "pid \<noteq> 0"
    and "processAlive w3 pid = (Inr False, w4)"
  shows "RemoveOwnedRunner b w rid = Some (removeRunnerRecord w4 (vo_WorkDir (vb_opt b)) p r)"
  using assms by (simp add: RemoveOwnedRunner_def stopRecorded_def)

lemma calm: "quiet w (snd x) \<Longrightarrow> vw_outcomes w = [] \<Longrightarrow> vw_outcomes (snd x) = [] \<Longrightarrow> fst x = r \<Longrightarrow> x = (r, w)"
  using quiet_plain[of w "snd x"] by (cases x) simp

lemmas calm_contained = calm[OF containedRunnerPath_quiet[OF prod.collapse[symmetric]]]
  and calm_record = calm[OF readRunnerRecord_quiet[OF prod.collapse[symmetric]]]
  and calm_pid = calm[OF runnerPID_quiet[OF prod.collapse[symmetric]]]
  and calm_alive = calm[OF processAlive_quiet[OF prod.collapse[symmetric]]]

lemma restarted_calls:
  "containedRunnerPath restartedHost ''/vm'' runningRecord = (Inr (''/vm/'' @ runningRecord), restartedHost)"
  "readRunnerRecord restartedHost (''/vm/'' @ runningRecord) = (Inr restartedRecord, restartedHost)"
  "runnerPID restartedHost ''/vm'' restartedRecord = (Inr 42, restartedHost)"
  "processAlive restartedHost 42 = (Inr False, restartedHost)"
proof -
  show "containedRunnerPath restartedHost ''/vm'' runningRecord = (Inr (''/vm/'' @ runningRecord), restartedHost)"
    by (rule calm_contained) code_simp+
  show "readRunnerRecord restartedHost (''/vm/'' @ runningRecord) = (Inr restartedRecord, restartedHost)"
    by (rule calm_record) code_simp+
  show "runnerPID restartedHost ''/vm'' restartedRecord = (Inr 42, restartedHost)"
    by (rule calm_pid) code_simp+
  show "processAlive restartedHost 42 = (Inr False, restartedHost)"
    by (rule calm_alive) code_simp+
qed

lemma sampleVm_dir: "vo_WorkDir (vb_opt sampleVmBackend) = ''/vm''"
  by (simp add: sampleVmBackend_def)

lemma running_suffix: "hasSuffix runningRecord recordSuffix"
  by code_simp

lemma restarted_removal:
  "RemoveOwnedRunner sampleVmBackend restartedHost runningRecord
     = Some (removeRunnerRecord restartedHost ''/vm'' (''/vm/'' @ runningRecord) restartedRecord)"
  using removal_of_dead[of restartedHost sampleVmBackend runningRecord] restarted_calls running_suffix
  by (simp add: sampleVm_dir)

theorem vm_files_go_after_the_process_witness:
  "\<exists>w' r pid. RemoveOwnedRunner sampleVmBackend restartedHost runningRecord = Some (None, w')
     \<and> vw_files w' = [([''g.qcow2''], DiskFile None)]
     \<and> map_of (vw_files restartedHost) [''vm'', runningRecord] = Some (RecordFile r)
     \<and> recordedPID restartedHost ''/vm'' r = Some pid \<and> (if pid = 0 then \<not> rr_Started r else pid \<notin> vp_pid ` set (vw_procs w'))"
proof -
  let ?rm = "removeRunnerRecord restartedHost ''/vm'' (''/vm/'' @ runningRecord) restartedRecord"
  have f: "fst ?rm = None" "vw_files (snd ?rm) = [([''g.qcow2''], DiskFile None)]" by code_simp+
  then have w': "RemoveOwnedRunner sampleVmBackend restartedHost runningRecord = Some (None, snd ?rm)"
    using restarted_removal by (metis prod.collapse)
  have l: "locate restartedHost (vo_WorkDir (vb_opt sampleVmBackend)) = [''vm'']" by code_simp
  have "map_of (vw_files restartedHost) [''vm'', ''mr-1.qcow2''] \<noteq> None" by code_simp
  moreover have "map_of (vw_files (snd ?rm)) [''vm'', ''mr-1.qcow2''] = None" using f(2) by simp
  ultimately have "map_of (vw_files (snd ?rm)) [''vm'', ''mr-1.qcow2''] \<noteq> map_of (vw_files restartedHost) [''vm'', ''mr-1.qcow2'']"
    by metis
  from vm_files_go_after_the_process[OF w' this] obtain r pid where
    "map_of (vw_files restartedHost) [''vm'', runningRecord] = Some (RecordFile r)"
    "recordedPID restartedHost ''/vm'' r = Some pid" "if pid = 0 then \<not> rr_Started r else pid \<notin> vp_pid ` set (vw_procs (snd ?rm))"
    unfolding l by (auto simp: sampleVmBackend_def simp del: if_splits)
  then show ?thesis using w' f(2) by blast
qed

text \<open>
  C20: removing an owned VM tells no process to quit but the VM with the recorded name, as long as
  a QEMU process reports the name it was started with: a reused pid, or another VM that now listens
  on the recorded port, is left alone.
\<close>

theorem removal_stops_only_the_named_vm:
  assumes "RemoveOwnedRunner b w rid = Some (e, w')"
    and "\<forall>p \<in> set (vw_procs w). \<forall>n. QReturn (Some n) \<in> set (vw_says w (vp_pid p)) \<longrightarrow> n = [] \<or> argOf ''-name'' (vp_args p) = Some n"
    and "map_of (vw_files w) (locate w (vo_WorkDir (vb_opt b)) @ [rid]) = Some (RecordFile r)" and "rr_Name r \<noteq> []"
    and "p' \<in> set (vw_procs w')" and "vp_quit p'"
  shows "(\<exists>p \<in> set (vw_procs w). vp_pid p = vp_pid p' \<and> vp_args p = vp_args p' \<and> vp_quit p)
       \<or> argOf ''-name'' (vp_args p') = Some (rr_Name r)"
proof -
  have "told w' \<subseteq> told w \<union> quitters w (rr_Name r)"
  proof (cases "quiet w w'")
    case True
    then show ?thesis using sameHost_quiet by blast
  next
    case False
    then obtain x w2 w3 where r: "quiet w w2" "stopRecorded b rid r w2 = Some (x, w3)"
        "if x = None then removeRunnerRecord w3 (vo_WorkDir (vb_opt b)) (pathJoin (absPath w (vo_WorkDir (vb_opt b))) rid) r = (e, w')
         else e = x \<and> w' = w3"
      using RemoveOwnedRunner_result[OF assms(1)] assms(3) by auto
    have "vw_procs w' = vw_procs w3"
      using r(3) frame_same(1)[OF removeRunnerRecord_frame] by (cases "x = None") (metis (full_types))+
    moreover have "quitters w2 = quitters w" "told w2 = told w"
      using sameHost_quiet[OF r(1)] by (auto simp: quitters_def sameHost_def fun_eq_iff)
    ultimately show ?thesis using stopRecorded_result(2)[OF r(2)] by (simp add: told_def)
  qed
  moreover have "(vp_pid p', vp_args p', True) \<in> told w'" using assms(5,6) by (force simp: told_def)
  ultimately consider "(vp_pid p', vp_args p', True) \<in> told w" | "(vp_pid p', vp_args p', True) \<in> quitters w (rr_Name r)" by blast
  then show ?thesis
  proof cases
    case 1
    then show ?thesis by (auto simp: told_def)
  next
    case 2
    then obtain p where "p \<in> set (vw_procs w)" "vp_pid p = vp_pid p'" "vp_args p = vp_args p'"
      "QReturn (Some (rr_Name r)) \<in> set (vw_says w (vp_pid p'))" by (auto simp: quitters_def told_def)
    then show ?thesis using assms(2,4) by metis
  qed
qed

lemma removal_of_running:
  assumes "containedRunnerPath w (vo_WorkDir (vb_opt b)) rid = (Inr p, w1)" and "hasSuffix rid recordSuffix"
    and "readRunnerRecord w1 p = (Inr r, w2)" and "runnerPID w2 (vo_WorkDir (vb_opt b)) r = (Inr pid, w3)" and "pid \<noteq> 0"
    and "processAlive w3 pid = (Inr True, w4)" and "quitNamed w4 (rr_QMPAddr r) (rr_Name r) = (None, w5)"
  shows "RemoveOwnedRunner b w rid =
     (case waitForProcessExit pid w5 of
        None \<Rightarrow> None
      | Some (Some e, w6) \<Rightarrow> Some (Some (errorf (''wait for owned qemu '' @ rr_Name r @ '': '') e), w6)
      | Some (None, w6) \<Rightarrow> Some (removeRunnerRecord w6 (vo_WorkDir (vb_opt b)) p r))"
  using assms by (auto simp: RemoveOwnedRunner_def stopRecorded_def split: option.splits)

text \<open>The VM of the restarted host still runs, beside another one; the context is already cancelled.\<close>

definition survivingHost :: vm_world where
  "survivingHost = restartedHost\<lparr>vw_procs :=
     [vmProc 7 [''-name'', ''mr-2'', ''-qmp'', qmpArg ''127.0.0.1:8''],
      vmProc 42 [''-name'', ''mr-1'', ''-qmp'', qmpArg ''127.0.0.1:9'']],
     vw_says := (\<lambda>pid. [QEvent, QReturn (Some []), QEvent, QReturn (Some (if pid = 7 then ''mr-2'' else ''mr-1'')), QReturn (Some [])]),
     vw_deadline := Some 0\<rparr>"

lemma surviving_calls:
  "containedRunnerPath survivingHost ''/vm'' runningRecord = (Inr (''/vm/'' @ runningRecord), survivingHost)"
  "readRunnerRecord survivingHost (''/vm/'' @ runningRecord) = (Inr restartedRecord, survivingHost)"
  "runnerPID survivingHost ''/vm'' restartedRecord = (Inr 42, survivingHost)"
  "processAlive survivingHost 42 = (Inr True, survivingHost)"
  "quitNamed survivingHost ''127.0.0.1:9'' ''mr-1'' = (None, tellQuit 42 survivingHost)"
proof -
  show "containedRunnerPath survivingHost ''/vm'' runningRecord = (Inr (''/vm/'' @ runningRecord), survivingHost)"
    by (rule calm_contained) code_simp+
  show "readRunnerRecord survivingHost (''/vm/'' @ runningRecord) = (Inr restartedRecord, survivingHost)"
    by (rule calm_record) code_simp+
  show "runnerPID survivingHost ''/vm'' restartedRecord = (Inr 42, survivingHost)"
    by (rule calm_pid) code_simp+
  show "processAlive survivingHost 42 = (Inr True, survivingHost)"
    by (rule calm_alive) code_simp+
  let ?q = "quitNamed survivingHost ''127.0.0.1:9'' ''mr-1''"
  have q: "fst ?q = None" "map_option vp_pid (listenerAt survivingHost ''127.0.0.1:9'') = Some 42"
    "vw_outcomes (snd ?q) = []" "vw_outcomes survivingHost = []" by code_simp+
  obtain p w2 where "listenerAt survivingHost ''127.0.0.1:9'' = Some p" "quiet survivingHost w2" "snd ?q = tellQuit (vp_pid p) w2"
    using quitNamed_result(4)[OF prod.collapse[symmetric] q(1)] by auto
  moreover from this have "w2 = survivingHost" using quiet_plain[of survivingHost w2] q(3,4) by (simp add: tellQuit_def)
  ultimately show "?q = (None, tellQuit 42 survivingHost)" using q(1,2) by (cases ?q) simp
qed

lemma surviving_removal:
  "\<exists>e. RemoveOwnedRunner sampleVmBackend survivingHost runningRecord = Some (Some e, tellQuit 42 survivingHost)"
proof -
  have "processAlive (tellQuit 42 survivingHost) 42 = (Inr True, tellQuit 42 survivingHost)"
    by (rule calm_alive) code_simp+
  moreover have "ctxDone (tellQuit 42 survivingHost)" by code_simp
  ultimately have "waitForProcessExit 42 (tellQuit 42 survivingHost) = Some (Some ctxErr, tellQuit 42 survivingHost)"
    by (subst waitForProcessExit.simps) simp
  moreover have "rr_QMPAddr restartedRecord = ''127.0.0.1:9''" "rr_Name restartedRecord = ''mr-1''" by code_simp+
  ultimately show ?thesis
    using removal_of_running[of survivingHost sampleVmBackend runningRecord] surviving_calls running_suffix
    by (simp add: sampleVm_dir)
qed

theorem removal_stops_only_the_named_vm_witness:
  "\<exists>e w' p'. RemoveOwnedRunner sampleVmBackend survivingHost runningRecord = Some (e, w')
     \<and> map vp_quit (vw_procs w') = [False, True]
     \<and> p' \<in> set (vw_procs w') \<and> vp_quit p' \<and> argOf ''-name'' (vp_args p') = Some ''mr-1''"
proof -
  obtain e where e: "RemoveOwnedRunner sampleVmBackend survivingHost runningRecord = Some (Some e, tellQuit 42 survivingHost)"
    using surviving_removal by auto
  have honest: "\<forall>p \<in> set (vw_procs survivingHost). \<forall>n. QReturn (Some n) \<in> set (vw_says survivingHost (vp_pid p))
      \<longrightarrow> n = [] \<or> argOf ''-name'' (vp_args p) = Some n"
    by (auto simp: survivingHost_def vmProc_def)
  have rec: "map_of (vw_files survivingHost) (locate survivingHost (vo_WorkDir (vb_opt sampleVmBackend)) @ [runningRecord])
      = Some (RecordFile restartedRecord)" "rr_Name restartedRecord = ''mr-1''" by code_simp+
  let ?p = "vw_procs (tellQuit 42 survivingHost) ! 1"
  have p: "vp_quit ?p" "map vp_quit (vw_procs (tellQuit 42 survivingHost)) = [False, True]"
    "list_all (\<lambda>p. \<not> vp_quit p) (vw_procs survivingHost)" "length (vw_procs (tellQuit 42 survivingHost)) = 2" by code_simp+
  then have m: "?p \<in> set (vw_procs (tellQuit 42 survivingHost))" by simp
  have "argOf ''-name'' (vp_args ?p) = Some ''mr-1''"
    using removal_stops_only_the_named_vm[OF e honest rec(1) _ m p(1)] rec(2) p(3) by (auto simp: list_all_iff)
  then show ?thesis using e p(1,2) m
    by (intro exI[of _ "Some e"] exI[of _ "tellQuit 42 survivingHost"] exI[of _ ?p] conjI)
qed

lemma processAlive_deadline: "processAlive w pid = (r, w') \<Longrightarrow> vw_deadline w' = vw_deadline w \<and> vw_procs w' = vw_procs w"
  using quiet_same[OF processAlive_quiet] by simp

lemma wait_step:
  assumes "\<And>w1. processAlive w pid = (Inr True, w1) \<Longrightarrow> \<not> ctxDone w1 \<Longrightarrow> \<exists>y. waitForProcessExit pid (tick w1) = Some y"
  shows "\<exists>y. waitForProcessExit pid w = Some y"
proof -
  obtain r w1 where r: "processAlive w pid = (r, w1)" by (cases "processAlive w pid")
  show ?thesis
    by (subst waitForProcessExit.simps) (use assms r in \<open>cases r; auto\<close>)
qed

lemma wait_deadline: "vw_deadline w = Some d \<Longrightarrow> \<exists>y. waitForProcessExit pid w = Some y"
proof (induction d arbitrary: w)
  case 0
  show ?case
  proof (rule wait_step)
    fix w1
    assume "processAlive w pid = (Inr True, w1)" "\<not> ctxDone w1"
    then show "\<exists>y. waitForProcessExit pid (tick w1) = Some y"
      using processAlive_deadline[of w pid _ w1] 0 by (simp add: ctxDone_def)
  qed
next
  case (Suc d)
  show ?case
  proof (rule wait_step)
    fix w1
    assume "processAlive w pid = (Inr True, w1)"
    then have "vw_deadline (tick w1) = Some d" using processAlive_deadline Suc.prems by (simp add: tick_def)
    then show "\<exists>y. waitForProcessExit pid (tick w1) = Some y" by (rule Suc.IH)
  qed
qed

lemma wait_dying:
  "\<forall>p \<in> set (vw_procs w). vp_pid p = pid \<longrightarrow> (\<exists>n < N. vp_life p = Some n) \<Longrightarrow> \<exists>y. waitForProcessExit pid w = Some y"
proof (induction N arbitrary: w)
  case 0
  show ?case
  proof (rule wait_step)
    fix w1
    assume a: "processAlive w pid = (Inr True, w1)"
    then have "pid \<in> vp_pid ` set (vw_procs w)" using processAlive_Inr[OF a] processAlive_deadline[OF a] by simp
    then show "\<exists>y. waitForProcessExit pid (tick w1) = Some y" using 0 by auto
  qed
next
  case (Suc N)
  show ?case
  proof (rule wait_step)
    fix w1
    assume a: "processAlive w pid = (Inr True, w1)"
    have "\<forall>p \<in> set (vw_procs (tick w1)). vp_pid p = pid \<longrightarrow> (\<exists>n < N. vp_life p = Some n)"
    proof (intro ballI impI)
      fix p
      assume "p \<in> set (vw_procs (tick w1))" "vp_pid p = pid"
      then obtain q where q: "q \<in> set (vw_procs w)" "vp_pid q = pid" "vp_life q \<noteq> Some 0"
        "vp_life p = map_option (\<lambda>n. n - 1) (vp_life q)" using processAlive_deadline[OF a] by (auto simp: tick_def)
      then obtain n where "vp_life q = Some (Suc n)" "Suc n < Suc N" using Suc.prems by (metis not0_implies_Suc)
      then show "\<exists>n < N. vp_life p = Some n" using q(4) by simp
    qed
    then show "\<exists>y. waitForProcessExit pid (tick w1) = Some y" by (rule Suc.IH)
  qed
qed

lemma stopRecorded_returns:
  assumes "vw_deadline w \<noteq> None \<or> (\<forall>p pid. listenerAt w (rr_QMPAddr r) = Some p
      \<longrightarrow> recordedPID w (vo_WorkDir (vb_opt b)) r = Some pid \<longrightarrow> vp_pid p = pid)"
  shows "stopRecorded b rid r w \<noteq> None"
proof -
  obtain x w1 where x: "runnerPID w (vo_WorkDir (vb_opt b)) r = (x, w1)" by (cases "runnerPID w (vo_WorkDir (vb_opt b)) r")
  have wait: "\<exists>y. waitForProcessExit pid w3 = Some y"
    if a: "x = Inr pid" "processAlive w1 pid = (Inr True, w2)" "quitNamed w2 (rr_QMPAddr r) (rr_Name r) = (None, w3)" for pid w2 w3
  proof -
    note q = quiet_trans[OF runnerPID_quiet[OF x] processAlive_quiet[OF a(2)]]
    have la: "listenerAt w2 (rr_QMPAddr r) = listenerAt w (rr_QMPAddr r)" by (simp add: listenerAt_def quiet_same[OF q])
    obtain p w4 where p: "listenerAt w (rr_QMPAddr r) = Some p" "w3 = tellQuit (vp_pid p) w4"
      using quitNamed_result(4)[OF a(3)] la by auto
    show ?thesis
    proof (cases "vw_deadline w")
      case None
      then have "vp_pid p = pid" using assms p(1) runnerPID_Inr x a(1) by blast
      then have "\<forall>p' \<in> set (vw_procs w3). vp_pid p' = pid \<longrightarrow> (\<exists>n < Suc (vw_lag w4). vp_life p' = Some n)"
        using p(2) by (auto simp: tellQuit_def)
      then show ?thesis by (rule wait_dying)
    next
      case (Some d)
      then show ?thesis using quitNamed_result(3)[OF a(3)] quiet_same(6)[OF q] wait_deadline by simp
    qed
  qed
  show ?thesis
    unfolding stopRecorded_def x using wait
    by (auto split: sum.splits prod.splits option.splits if_splits) (metis option.distinct(1))
qed

text \<open>
  C26: the wait of a removal ends. \<open>RemoveOwnedRunner\<close> returns when its context has a deadline, and also
  without one as long as the process that answers on the recorded QMP endpoint is the recorded one.
\<close>

theorem removal_returns:
  assumes "vw_deadline w \<noteq> None
      \<or> (\<forall>r p pid. map_of (vw_files w) (locate w (vo_WorkDir (vb_opt b)) @ [rid]) = Some (RecordFile r)
           \<longrightarrow> listenerAt w (rr_QMPAddr r) = Some p
           \<longrightarrow> recordedPID w (vo_WorkDir (vb_opt b)) r = Some pid \<longrightarrow> vp_pid p = pid)"
  shows "\<exists>e w'. RemoveOwnedRunner b w rid = Some (e, w')"
proof -
  let ?d = "vo_WorkDir (vb_opt b)"
  have "stopRecorded b rid r w2 \<noteq> None"
    if c: "containedRunnerPath w ?d rid = (Inr p, w1)" "readRunnerRecord w1 p = (Inr r, w2)" for p r w1 w2
  proof (rule stopRecorded_returns)
    note q1 = quiet_same[OF containedRunnerPath_quiet[OF c(1)]]
      and q = quiet_same[OF quiet_trans[OF containedRunnerPath_quiet[OF c(1)] readRunnerRecord_quiet[OF c(2)]]]
    have "map_of (vw_files w) (locate w ?d @ [rid]) = Some (RecordFile r)"
      using readRunnerRecord_Inr[OF c(2)] containedRunnerPath_Inr(3)[OF c(1)] q1 by (simp add: fileAt_def)
    then show "vw_deadline w2 \<noteq> None \<or> (\<forall>p pid. listenerAt w2 (rr_QMPAddr r) = Some p
        \<longrightarrow> recordedPID w2 ?d r = Some pid \<longrightarrow> vp_pid p = pid)"
      using assms unfolding listenerAt_def recordedPID_def q by blast
  qed
  then have "RemoveOwnedRunner b w rid \<noteq> None"
    unfolding RemoveOwnedRunner_def by (auto split: sum.splits prod.splits option.splits) (metis option.distinct(1))
  then show ?thesis by auto
qed

theorem removal_returns_witness:
  "\<exists>e w'. RemoveOwnedRunner sampleVmBackend (survivingHost\<lparr>vw_deadline := None\<rparr>) runningRecord = Some (e, w')"
proof (rule removal_returns, rule disjI2, intro allI impI)
  fix r p pid
  let ?w = "survivingHost\<lparr>vw_deadline := None\<rparr>"
  assume a: "map_of (vw_files ?w) (locate ?w (vo_WorkDir (vb_opt sampleVmBackend)) @ [runningRecord]) = Some (RecordFile r)"
    "listenerAt ?w (rr_QMPAddr r) = Some p" "recordedPID ?w (vo_WorkDir (vb_opt sampleVmBackend)) r = Some pid"
  have "map_of (vw_files ?w) (locate ?w (vo_WorkDir (vb_opt sampleVmBackend)) @ [runningRecord]) = Some (RecordFile restartedRecord)"
    by code_simp
  then have r: "r = restartedRecord" using a(1) by simp
  have "map_option vp_pid (listenerAt ?w (rr_QMPAddr restartedRecord)) = Some 42"
    "recordedPID ?w (vo_WorkDir (vb_opt sampleVmBackend)) restartedRecord = Some 42" by code_simp+
  then show "vp_pid p = pid" using a(2,3) r by simp
qed




text \<open>
  \<open>ListOwnedRunners\<close> gives the work directory to \<open>filepath.Glob\<close> unescaped. In a directory whose name
  has brackets it finds no record, so the VMs launched there are not reconciled after a restart.
\<close>

theorem bracketed_work_dir_hides_runners:
  "fst (ListOwnedRunners (\<lambda>s. s) (sampleVmBackend\<lparr>vb_opt := (vb_opt sampleVmBackend)\<lparr>vo_WorkDir := ''/srv/[vm]''\<rparr>\<rparr>)
     ((sampleHost [])\<lparr>vw_files := [([''srv'', ''[vm]'', runningRecord], RecordFile restartedRecord)]\<rparr>)
     (lr_Ownership exampleRequest)) = Inr []"
  by code_simp

end
