(* ===== verification/Vm_Golden.thy ===== *)
theory Vm_Golden
  imports Vm_Backend Image_Manifest Go_Text
begin

text \<open>
  The golden Windows image of the VM runner: how it is built (\<open>internal/winvm/bake.go\<close>), what the
  sidecar beside it records (\<open>meta.go\<close>) and when it is rearmed or rebuilt (\<open>housekeeping.go\<close>,
  \<open>housekeeping_run.go\<close>, and \<open>runQEMUHousekeeping\<close> of \<open>cmd/multirunner/main.go\<close>).

  The files are those of \<open>Vm_Host\<close>. \<open>golden_env\<close> holds what the build takes from outside: the embedded
  manifest and templates, the digests, the bytes of a file on disk, the downloads, the platform and
  the guest, that is, how a QEMU run with given arguments ends and what it wrote to its serial port.
  Times and durations are in nanoseconds. \<open>elapsedDays\<close> is the number of whole days in a duration
  as the float division of \<open>DaysLeft\<close> computes it.
\<close>

section \<open>The sidecar and the housekeeping policy\<close>

datatype action = ActionNone | ActionRearm | ActionRebuild

record policy =
  py_ThresholdDays :: int

definition DefaultPolicy :: policy where
  "DefaultPolicy = \<lparr>py_ThresholdDays = 14\<rparr>"

text \<open>\<open>time.Time.Sub\<close> saturates.\<close>

definition subTime :: "int \<Rightarrow> int \<Rightarrow> int" where
  "subTime t u = max (- (2 ^ 63)) (min maxInt64 (t - u))"

definition DaysLeft :: "(int \<Rightarrow> int) \<Rightarrow> golden_meta \<Rightarrow> int \<Rightarrow> int" where
  "DaysLeft elapsedDays m now =
     (if gm_Licensed m then 2 ^ 30 else wrap64 (gm_EvalDays m - elapsedDays (subTime now (gm_CreatedAt m))))"

definition Decide :: "(int \<Rightarrow> int) \<Rightarrow> policy \<Rightarrow> golden_meta \<Rightarrow> string \<Rightarrow> int \<Rightarrow> action" where
  "Decide elapsedDays p m wantHash now =
     (if wantHash \<noteq> [] \<and> wantHash \<noteq> gm_WorkflowsHash m then ActionRebuild
      else if gm_Licensed m then ActionNone
      else if DaysLeft elapsedDays m now \<ge> py_ThresholdDays p then ActionNone
      else if gm_RearmsUsed m < gm_MaxRearms m then ActionRearm
      else ActionRebuild)"

definition ApplyRearm :: "golden_meta \<Rightarrow> int \<Rightarrow> golden_meta" where
  "ApplyRearm m now = m\<lparr>gm_CreatedAt := now, gm_RearmsUsed := wrap64 (gm_RearmsUsed m + 1)\<rparr>"

definition ApplyRebuild :: "golden_meta \<Rightarrow> int \<Rightarrow> string \<Rightarrow> golden_meta" where
  "ApplyRebuild m now wantHash = m\<lparr>gm_CreatedAt := now, gm_RearmsUsed := 0, gm_WorkflowsHash := wantHash\<rparr>"

definition zeroMeta :: golden_meta where
  "zeroMeta = \<lparr>gm_CreatedAt = 0, gm_EvalDays = 0, gm_RearmsUsed = 0, gm_MaxRearms = 0, gm_Licensed = False, gm_WorkflowsHash = []\<rparr>"

definition metaPath :: "string \<Rightarrow> string" where
  "metaPath golden = golden @ ''.meta.json''"

definition LoadMeta :: "vm_world \<Rightarrow> string \<Rightarrow> (gerr + golden_meta) \<times> vm_world" where
  "LoadMeta w golden =
     (case osReadFile w (metaPath golden) of
        (Inl e, w1) \<Rightarrow> if errIs OsErrNotExist e then (Inr zeroMeta, w1) else (Inl e, w1)
      | (Inr (MetaFile m), w1) \<Rightarrow> (Inr m, w1)
      | (Inr _, w1) \<Rightarrow> (Inl (Leaf ''invalid character''), w1))"

text \<open>\<open>os.WriteFile\<close> truncates first: a failure half way leaves a file that does not decode.\<close>

definition SaveMeta :: "vm_world \<Rightarrow> string \<Rightarrow> golden_meta \<Rightarrow> gerr option \<times> vm_world" where
  "SaveMeta w golden m =
     (case takeOutcome w of
        (Succeeds, w1) \<Rightarrow> (None, putFile (metaPath golden) (MetaFile m) w1)
      | (Fails x, w1) \<Rightarrow> (Some (Leaf x), w1)
      | (FailsPartly x, w1) \<Rightarrow> (Some (Leaf x), putFile (metaPath golden) (TextFile []) w1))"

section \<open>Bake options\<close>

record bake_options =
  bo_WindowsISO :: string
  bo_WindowsISOSHA256 :: string
  bo_Golden :: string
  bo_DiskGB :: int
  bo_MemMB :: int
  bo_CPUs :: int
  bo_Accel :: string
  bo_RunnerVersion :: string
  bo_RunnerSHA256 :: string
  bo_Tools :: "string list"
  bo_AdminPassword :: string
  bo_EvalDays :: int
  bo_MaxRearms :: int
  bo_Licensed :: bool
  bo_WorkflowsHash :: string
  bo_QEMUBin :: string
  bo_ImgBin :: string
  bo_OVMFCode :: string
  bo_OVMFVarsTemplate :: string
  bo_VNC :: string
  bo_VNCWeb :: string
  bo_VNCWebSocket :: string
  bo_Timeout :: int

text \<open>How a run of QEMU ends, with what the guest wrote to its serial port.\<close>

datatype guest_run = PowersOff string | RunFails gerr string | Hangs string

record golden_env =
  ge_manifest :: manifest
  ge_template :: "string \<Rightarrow> string"
  ge_sha256 :: "string \<Rightarrow> string"
  ge_sha512 :: "string \<Rightarrow> string"
  ge_bytes :: "vm_file \<Rightarrow> string"
  ge_fetch :: "string \<Rightarrow> gerr + (int \<times> string)"
  ge_platform :: vm_platform
  ge_guest :: "string list \<Rightarrow> guest_run"
  ge_ports :: "nat \<Rightarrow> int list"

definition minutes :: "int \<Rightarrow> int" where
  "minutes n = n * 60000000000"

definition bakeTimeoutForPlan :: "tool_plan \<Rightarrow> int" where
  "bakeTimeoutForPlan plan =
     (let timeout = minutes 45 + int (length (tp_BuildTools plan)) * minutes 90
      in if list_ex (\<lambda>k. k \<in> {''dotnet'', ''node'', ''go''}) (tp_Kinds plan) then max timeout (minutes 75) else timeout)"

definition defaults :: "golden_env \<Rightarrow> bake_options \<Rightarrow> bake_options" where
  "defaults env bo =
     (let pf = ge_platform env;
          qemu = (if bo_QEMUBin bo = [] then ''qemu-system-x86_64'' else bo_QEMUBin bo);
          ovmf = DetectOVMF (vf_exists pf) (vf_qemuDir pf qemu)
      in bo\<lparr>bo_DiskGB := (if bo_DiskGB bo \<le> 0 then 40 else bo_DiskGB bo),
            bo_MemMB := (if bo_MemMB bo \<le> 0 then 4096 else bo_MemMB bo),
            bo_CPUs := (if bo_CPUs bo \<le> 0 then 2 else bo_CPUs bo),
            bo_RunnerVersion := (if bo_RunnerVersion bo = [] then mf_RunnerVersion (ge_manifest env) else bo_RunnerVersion bo),
            bo_AdminPassword := (if bo_AdminPassword bo = [] then ''Multirunner!1'' else bo_AdminPassword bo),
            bo_EvalDays := (if bo_EvalDays bo \<le> 0 then 180 else bo_EvalDays bo),
            bo_MaxRearms := (if bo_MaxRearms bo \<le> 0 then 5 else bo_MaxRearms bo),
            bo_Timeout := (if bo_Timeout bo \<le> 0
                           then (case resolveToolPlan (ge_manifest env) (bo_Tools bo) of
                                   Inl _ \<Rightarrow> minutes 45 | Inr plan \<Rightarrow> bakeTimeoutForPlan plan)
                           else bo_Timeout bo),
            bo_Accel := (if bo_Accel bo = [] then DetectAccel (vf_kvm pf) (vf_GOOS pf) (vf_GOARCH pf) else bo_Accel bo),
            bo_QEMUBin := qemu,
            bo_ImgBin := (if bo_ImgBin bo = [] then ''qemu-img'' else bo_ImgBin bo),
            bo_OVMFCode := (if bo_OVMFCode bo = [] then fst ovmf else bo_OVMFCode bo),
            bo_OVMFVarsTemplate := (if bo_OVMFCode bo = [] then snd ovmf else bo_OVMFVarsTemplate bo)\<rparr>)"

definition GoldenSerialPath :: "string \<Rightarrow> string" where
  "GoldenSerialPath golden = golden @ ''.serial.log''"

definition goldenOKMarker :: string where
  "goldenOKMarker = ''MR:GOLDEN_OK''"

section \<open>Provisioning scripts\<close>

text \<open>
  A \<open>fmt\<close> template with \<open>%\<close> for the next argument, \<open>~\<close> for a backslash and \<open>^\<close> for a line feed (none of
  the three occurs otherwise).
\<close>

fun render :: "string \<Rightarrow> string list \<Rightarrow> string" where
  "render [] as = []"
| "render (c # cs) as =
     (if c = CHR ''%'' then (case as of [] \<Rightarrow> render cs [] | a # as' \<Rightarrow> a @ render cs as')
      else if c = CHR ''~'' then CHR 0x5C # render cs as
      else if c = CHR ''^'' then CHR 0x0A # render cs as
      else c # render cs as)"

definition indent :: string where
  "indent = replicate 16 (CHR '' '')"

definition fetchLine :: "artifact \<Rightarrow> string" where
  "fetchLine a = indent @ render ''FetchOrStage '%' '%' C:~% % '%'^''
     [ar_Name a, ar_URL a, ar_Name a, ar_Algorithm a, ar_Digest a]"

definition nodeRelease :: "manifest \<Rightarrow> string \<Rightarrow> node_release" where
  "nodeRelease m major =
     (case map_of (mf_NodeReleases m) major of
        Some r \<Rightarrow> r
      | None \<Rightarrow> \<lparr>nd_Version = [], nd_EOL = [], nd_LinuxX64SHA256 = [], nd_LinuxARM64SHA256 = [], nd_WindowsX64SHA256 = []\<rparr>)"

definition buildToolsLine :: "manifest \<Rightarrow> string \<Rightarrow> buildtools_line" where
  "buildToolsLine m line =
     (case map_of (mf_BuildToolsLines m) line of
        Some r \<Rightarrow> r
      | None \<Rightarrow> \<lparr>bt_Channel = [], bt_ReleaseLine = [], bt_Version = [], bt_BootstrapperURL = [],
                 bt_BootstrapperSHA256 = [], bt_ChannelURL = [], bt_ChannelSHA256 = []\<rparr>)"

definition bakeCorepackArtifact :: "manifest \<Rightarrow> artifact" where
  "bakeCorepackArtifact m =
     \<lparr>ar_Name = ''corepack.tgz'', ar_Version = mf_CorepackVersion m, ar_URL = mf_CorepackURL m,
      ar_Algorithm = ''SHA512'', ar_Digest = mf_CorepackSHA512 m\<rparr>"

definition dotNetLines :: "artifact \<Rightarrow> string" where
  "dotNetLines a = fetchLine a
     @ indent @ render ''Expand-Archive C:~% C:~dotnet -Force^'' [ar_Name a]
     @ indent @ render ''Remove-Item C:~%^'' [ar_Name a]"

definition bakeDotNetInstallScript :: "manifest \<Rightarrow> string list \<Rightarrow> string" where
  "bakeDotNetInstallScript m channels =
     trimSuffix (concat (map dotNetLines (bakeDotNetArtifacts m channels))) newline"

definition nodeArtifact :: "manifest \<Rightarrow> string \<Rightarrow> artifact" where
  "nodeArtifact m major =
     \<lparr>ar_Name = ''node-'' @ major @ ''.zip'', ar_Version = nd_Version (nodeRelease m major),
      ar_URL = bakeNodeURLForVersion (nd_Version (nodeRelease m major)), ar_Algorithm = ''SHA256'',
      ar_Digest = nd_WindowsX64SHA256 (nodeRelease m major)\<rparr>"

definition nodeDest :: "manifest \<Rightarrow> string \<Rightarrow> string" where
  "nodeDest m major = render ''C:~hostedtoolcache~windows~node~%~x64'' [nd_Version (nodeRelease m major)]"

definition nodeLines :: "manifest \<Rightarrow> string \<Rightarrow> string" where
  "nodeLines m major =
     (let archive = ''node-'' @ major @ ''.zip''; temp = render ''C:~node-%'' [major]; dest = nodeDest m major in
      fetchLine (nodeArtifact m major)
      @ indent @ render ''Expand-Archive C:~% '%' -Force^'' [archive, temp]
      @ indent @ render ''New-Item -ItemType Directory -Force '%' | Out-Null^'' [dest]
      @ indent @ render ''Copy-Item '%~node-v%-win-x64~*' '%' -Recurse -Force^'' [temp, nd_Version (nodeRelease m major), dest]
      @ indent @ render ''New-Item -ItemType File -Force '%.complete' | Out-Null^'' [dest]
      @ indent @ render ''Remove-Item C:~%, '%' -Recurse -Force^'' [archive, temp])"

text \<open>The loop that picks the default: the first one equal to it, the last one otherwise.\<close>

fun selectDefault :: "string \<Rightarrow> string \<Rightarrow> string list \<Rightarrow> string" where
  "selectDefault d selected [] = selected"
| "selectDefault d selected (x # xs) = (if x = d then x else selectDefault d x xs)"

definition corepackLines :: "manifest \<Rightarrow> string \<Rightarrow> string" where
  "corepackLines m selected =
     (let dest = nodeDest m selected; name = ar_Name (bakeCorepackArtifact m) in
      indent @ render ''[Environment]::SetEnvironmentVariable('AGENT_TOOLSDIRECTORY', 'C:~hostedtoolcache~windows', 'Machine')^'' []
      @ indent @ render ''[Environment]::SetEnvironmentVariable('RUNNER_TOOL_CACHE', 'C:~hostedtoolcache~windows', 'Machine')^'' []
      @ indent @ render ''Add-MachinePath '%'^'' [dest]
      @ indent @ render ''Add-MachinePath '%~node_modules~npm~bin'^'' [dest]
      @ fetchLine (bakeCorepackArtifact m)
      @ indent @ render ''& '%~npm.cmd' install -g --no-audit --no-fund --no-update-notifier C:~%^'' [dest, name]
      @ indent @ render ''if ($LASTEXITCODE -ne 0) { throw 'Corepack install failed' }^'' []
      @ indent @ render ''Remove-Item C:~%^'' [name]
      @ indent @ render ''& '%~corepack.cmd' enable --install-directory '%' 2>$null^'' [dest, dest])"

definition bakeNodeInstallScript :: "manifest \<Rightarrow> string list \<Rightarrow> string" where
  "bakeNodeInstallScript m majors =
     (let selected = selectDefault (formatInt (mf_NodeDefaultMajor m)) [] majors in
      trimSuffix (concat (map (nodeLines m) majors) @ (if selected \<noteq> [] then corepackLines m selected else [])) newline)"

definition buildToolsExe :: "manifest \<Rightarrow> string \<Rightarrow> artifact" where
  "buildToolsExe m line =
     \<lparr>ar_Name = ''vs-'' @ line @ ''.exe'', ar_Version = bt_Version (buildToolsLine m line),
      ar_URL = bt_BootstrapperURL (buildToolsLine m line), ar_Algorithm = ''SHA256'',
      ar_Digest = bt_BootstrapperSHA256 (buildToolsLine m line)\<rparr>"

definition buildToolsChannel :: "manifest \<Rightarrow> string \<Rightarrow> artifact" where
  "buildToolsChannel m line =
     \<lparr>ar_Name = ''vs-'' @ line @ ''.channel'', ar_Version = bt_Version (buildToolsLine m line),
      ar_URL = bt_ChannelURL (buildToolsLine m line), ar_Algorithm = ''SHA256'',
      ar_Digest = bt_ChannelSHA256 (buildToolsLine m line)\<rparr>"

text \<open>The indentation of the continued command; its last blank is in the templates.\<close>

definition wideIndent :: string where
  "wideIndent = replicate 19 (CHR '' '')"

definition buildToolsLines :: "manifest \<Rightarrow> string \<Rightarrow> string" where
  "buildToolsLines m line =
     (let exe = ar_Name (buildToolsExe m line); channel = ar_Name (buildToolsChannel m line);
          installPath = render ''C:~BuildTools~%'' [line] in
      fetchLine (buildToolsExe m line)
      @ fetchLine (buildToolsChannel m line)
      @ indent @ render ''$p = Start-Process -FilePath C:~% -Wait -PassThru -ArgumentList `^'' [exe]
      @ wideIndent @ render '' '--quiet', '--wait', '--norestart', '--nocache', '--installPath', '%', `^'' [installPath]
      @ wideIndent @ render '' '--channelUri', 'file:///C:/%', '--installChannelUri', 'file:///C:/%', '--noUpdateInstaller', `^'' [channel, channel]
      @ wideIndent @ render '' '--add', 'Microsoft.VisualStudio.Workload.VCTools', `^'' []
      @ wideIndent @ render '' '--add', 'Microsoft.VisualStudio.Component.VC.Tools.x86.x64', `^'' []
      @ wideIndent @ render '' '--add', 'Microsoft.VisualStudio.Component.Windows11SDK.26100', `^'' []
      @ wideIndent @ render '' '--add', 'Microsoft.VisualStudio.Component.VC.CMake.Project', `^'' []
      @ wideIndent @ render '' '--add', 'Microsoft.Net.Component.4.8.SDK', `^'' []
      @ wideIndent @ render '' '--add', 'Microsoft.Net.Component.4.8.TargetingPack', `^'' []
      @ wideIndent @ render '' '--add', 'Microsoft.VisualStudio.Component.Roslyn.Compiler', '--includeRecommended'^'' []
      @ indent @ render ''if ($p.ExitCode -ne 0 -and $p.ExitCode -ne 3010) { throw '' []
      @ [CHR 0x22] @ render ''vs_buildtools % failed: $($p.ExitCode)'' [line] @ [CHR 0x22] @ render '' }^'' []
      @ indent @ render ''Remove-Item C:~%, C:~%^'' [exe, channel]
      @ indent @ render ''[Environment]::SetEnvironmentVariable('VSBUILDTOOLS_%', '%', 'Machine')^'' [line, installPath])"

definition bakeBuildToolsInstallScript :: "manifest \<Rightarrow> string list \<Rightarrow> string" where
  "bakeBuildToolsInstallScript m lines =
     (let selected = selectDefault (mf_BuildToolsDefaultLine m) [] lines in
      trimSuffix (concat (map (buildToolsLines m) lines)
        @ (if selected \<noteq> [] then
             indent @ render ''[Environment]::SetEnvironmentVariable('VSBUILDTOOLS', 'C:~BuildTools~%', 'Machine')^'' [selected]
           else [])) newline)"

text \<open>The answer file and the scripts of the provisioning ISO; \<open>strings.ReplaceAll\<close> fills the templates in.\<close>

fun substitute :: "(string \<times> string) list \<Rightarrow> string \<Rightarrow> string" where
  "substitute [] s = s"
| "substitute ((old, new) # xs) s = substitute xs (replaceAll old new s)"

definition installSubstitutions :: "manifest \<Rightarrow> string \<Rightarrow> string \<Rightarrow> tool_plan \<Rightarrow> (string \<times> string) list" where
  "installSubstitutions m runnerVersion runnerSHA plan =
     [(''__RUNNER_VERSION__'', runnerVersion),
      (''__RUNNER_SHA256__'', if runnerSHA = [] \<and> runnerVersion = mf_RunnerVersion m then mf_RunnerWindowsX64SHA256 m else runnerSHA),
      (''__TOOLS__'', sepBy '','' (tp_Kinds plan)),
      (''__NODE_INSTALLS__'', bakeNodeInstallScript m (tp_Node plan)),
      (''__GO_URL__'', bakeGoURL m),
      (''__GO_SHA256__'', mf_GoWindowsAMD64SHA256 m),
      (''__MINGIT_URL__'', mf_MinGitURL m),
      (''__MINGIT_SHA256__'', mf_MinGitSHA256 m),
      (''__DOTNET_INSTALLS__'', bakeDotNetInstallScript m (tp_DotNet plan)),
      (''__BUILDTOOLS_INSTALLS__'', bakeBuildToolsInstallScript m (tp_BuildTools plan))]"

definition AutounattendFiles ::
  "golden_env \<Rightarrow> string \<Rightarrow> string \<Rightarrow> string \<Rightarrow> string list \<Rightarrow> gerr + (string \<times> string) list" where
  "AutounattendFiles env runnerVersion runnerSHA adminPassword tools =
     (case resolveToolPlan (ge_manifest env) tools of
        Inl e \<Rightarrow> Inl e
      | Inr plan \<Rightarrow>
          Inr [(''autounattend.xml'', replaceAll ''__ADMIN_PASSWORD__'' adminPassword (ge_template env ''autounattend.xml'')),
               (''setupcomplete.cmd'', ge_template env ''setupcomplete.cmd''),
               (''githook.ps1'', ge_template env ''githook.ps1''),
               (''install-golden.ps1'', substitute (installSubstitutions (ge_manifest env) runnerVersion runnerSHA plan)
                                          (ge_template env ''install-golden.ps1'')),
               (''startup.ps1'', ge_template env ''startup.ps1'')])"

section \<open>The fingerprint of a golden image\<close>

definition fileDigest :: "golden_env \<Rightarrow> vm_world \<Rightarrow> string \<Rightarrow> string \<Rightarrow> (gerr + string) \<times> vm_world" where
  "fileDigest env w path algorithm =
     (case osReadFile w path of
        (Inl e, w1) \<Rightarrow> (Inl e, w1)
      | (Inr f, w1) \<Rightarrow>
          (if toUpper algorithm = ''SHA256'' then Inr (hexEncode (ge_sha256 env (ge_bytes env f)))
           else if toUpper algorithm = ''SHA512'' then Inr (hexEncode (ge_sha512 env (ge_bytes env f)))
           else Inl (Leaf (''unsupported digest algorithm '' @ goQuote algorithm)), w1))"

definition artifactLine :: "artifact \<Rightarrow> string" where
  "artifactLine a = ''artifact='' @ sepBy ''|'' [ar_Name a, ar_Version a, ar_URL a, ar_Algorithm a, toLower (ar_Digest a)] @ newline"

definition hashInput :: "string list \<Rightarrow> string \<Rightarrow> artifact list \<Rightarrow> (string \<times> string) list \<Rightarrow> string" where
  "hashInput tools isoDigest artifacts files =
     ''golden-inputs:v4'' @ newline
     @ ''windows-iso:sha256='' @ isoDigest @ newline
     @ ''tools='' @ sepBy '','' (normalizeTools tools) @ newline
     @ concat (map artifactLine artifacts)
     @ concat (map (\<lambda>n. n @ [CHR 0x00] @ mapGet files n) (sort (map fst files)))"

definition toolsHashResolved ::
  "golden_env \<Rightarrow> string list \<Rightarrow> string \<Rightarrow> artifact list \<Rightarrow> (string \<times> string) list \<Rightarrow> string" where
  "toolsHashResolved env tools isoDigest artifacts files =
     ''golden:'' @ hexEncode (take 8 (ge_sha256 env (hashInput tools isoDigest artifacts files)))"

definition toolsHashAdminPassword :: string where
  "toolsHashAdminPassword = ''__GOLDEN_FINGERPRINT_PASSWORD__''"

text \<open>The first half of \<open>ToolsHash\<close>: the digest of the Windows ISO.\<close>

definition isoDigestOf :: "golden_env \<Rightarrow> vm_world \<Rightarrow> bake_options \<Rightarrow> (gerr + string) \<times> vm_world" where
  "isoDigestOf env w bo =
     (if bo_WindowsISO bo = [] then (Inr ''none'', w)
      else case (if bo_WindowsISOSHA256 bo = [] then None else validateSHA256 (bo_WindowsISOSHA256 bo)) of
        Some e \<Rightarrow> (Inl (errorf ''windows ISO SHA256: '' e), w)
      | None \<Rightarrow>
         (case fileDigest env w (bo_WindowsISO bo) ''SHA256'' of
            (Inl e, w1) \<Rightarrow> (Inl (errorf ''hash Windows ISO: '' e), w1)
          | (Inr d, w1) \<Rightarrow>
              if bo_WindowsISOSHA256 bo \<noteq> [] \<and> \<not> equalFold d (bo_WindowsISOSHA256 bo)
              then (Inl (Leaf (''windows ISO SHA256 mismatch: got '' @ d @ '', want '' @ bo_WindowsISOSHA256 bo)), w1)
              else (Inr d, w1)))"

definition ToolsHash :: "golden_env \<Rightarrow> vm_world \<Rightarrow> bake_options \<Rightarrow> (gerr + string) \<times> vm_world" where
  "ToolsHash env w bo =
     (case isoDigestOf env w bo of
        (Inl e, w1) \<Rightarrow> (Inl e, w1)
      | (Inr isoDigest, w1) \<Rightarrow>
         (case resolveToolPlan (ge_manifest env) (bo_Tools bo) of
            Inl e \<Rightarrow> (Inl e, w1)
          | Inr plan \<Rightarrow>
             (let runnerVersion = (if bo_RunnerVersion bo = [] then mf_RunnerVersion (ge_manifest env) else bo_RunnerVersion bo) in
              case bakeArtifactsForPlan (ge_manifest env) runnerVersion (bo_RunnerSHA256 bo) plan of
                Inl e \<Rightarrow> (Inl e, w1)
              | Inr artifacts \<Rightarrow>
                 (case AutounattendFiles env runnerVersion (bo_RunnerSHA256 bo) toolsHashAdminPassword (bo_Tools bo) of
                    Inl e \<Rightarrow> (Inl e, w1)
                  | Inr files \<Rightarrow> (Inr (toolsHashResolved env (tp_Canonical plan) isoDigest artifacts files), w1)))))"

section \<open>VNC ports\<close>

text \<open>\<open>net.SplitHostPort\<close>: host and port, or the reason it fails.\<close>

definition netSplitHostPort :: "string \<Rightarrow> string + (string \<times> string)" where
  "netSplitHostPort hp =
     (case lastIndexByte hp (CHR '':'') of
        None \<Rightarrow> Inl ''missing port in address''
      | Some i \<Rightarrow>
         (if hp \<noteq> [] \<and> hd hp = CHR ''['' then
            (case indexByte hp (CHR '']'') of
               None \<Rightarrow> Inl ''missing ']' in address''
             | Some e \<Rightarrow>
                 if Suc e = length hp then Inl ''missing port in address''
                 else if Suc e \<noteq> i then
                   (if hp ! Suc e = CHR '':'' then Inl ''too many colons in address'' else Inl ''missing port in address'')
                 else if CHR ''['' \<in> set (drop 1 hp) then Inl ''unexpected '[' in address''
                 else if CHR '']'' \<in> set (drop (Suc e) hp) then Inl ''unexpected ']' in address''
                 else Inr (take (e - 1) (drop 1 hp), drop (Suc i) hp))
          else if CHR '':'' \<in> set (take i hp) then Inl ''too many colons in address''
          else if CHR ''['' \<in> set hp then Inl ''unexpected '[' in address''
          else if CHR '']'' \<in> set hp then Inl ''unexpected ']' in address''
          else Inr (take i hp, drop (Suc i) hp)))"

definition joinHostPort :: "string \<Rightarrow> string \<Rightarrow> string" where
  "joinHostPort host port = (if CHR '':'' \<in> set host then ''['' @ host @ '']:'' @ port else host @ '':'' @ port)"

definition splitAddress :: "string \<Rightarrow> gerr + (string \<times> int)" where
  "splitAddress address =
     (case netSplitHostPort address of
        Inl _ \<Rightarrow> Inl (Leaf (''invalid host:port '' @ goQuote address))
      | Inr (host, portText) \<Rightarrow>
         if host = [] then Inl (Leaf (''invalid host:port '' @ goQuote address))
         else (case parseInt64 portText of
                 None \<Rightarrow> Inl (Leaf (''invalid port in '' @ goQuote address))
               | Some port \<Rightarrow>
                   if port < 0 \<or> port > 65535 then Inl (Leaf (''invalid port in '' @ goQuote address))
                   else Inr (host, port)))"

text \<open>\<open>freePort\<close>: the ports the kernel offers one after the other; \<open>Listen\<close> fails when they are used up.\<close>

fun freePort :: "int list \<Rightarrow> int list \<Rightarrow> gerr + int" where
  "freePort [] excluded = Inl (Leaf ''listen'')"
| "freePort (port # ports) excluded =
     (if port < 5900 \<or> port \<in> set excluded then freePort ports excluded else Inr port)"

record vnc_config =
  vc_host :: string
  vc_port :: int
  vc_webPort :: int

definition noVNC :: vnc_config where
  "noVNC = \<lparr>vc_host = [], vc_port = 0, vc_webPort = 0\<rparr>"

definition webAddress :: "bake_options \<Rightarrow> gerr + (string \<times> int)" where
  "webAddress bo =
     (if bo_VNCWeb bo = [] then Inr ([], 0)
      else case splitAddress (bo_VNCWeb bo) of
        Inl e \<Rightarrow> Inl (errorf ''bake: --vnc-web: '' e)
      | Inr (h, p) \<Rightarrow> if p = 0 then Inl (Leaf ''bake: --vnc-web port must not be 0'') else Inr (h, p))"

definition parseVNC :: "bake_options \<Rightarrow> gerr + vnc_config" where
  "parseVNC bo =
     (if bo_VNC bo = [] \<and> bo_VNCWeb bo = [] then Inr noVNC
      else case webAddress bo of
        Inl e \<Rightarrow> Inl e
      | Inr (webHost, webPort) \<Rightarrow>
         (case (if bo_VNC bo = [] then Inr (webHost, 0) else splitAddress (bo_VNC bo)) of
            Inl e \<Rightarrow> Inl (errorf ''bake: --vnc: '' e)
          | Inr (host0, port) \<Rightarrow>
             (let host = (if webHost \<noteq> [] then webHost else host0) in
              if port \<noteq> 0 \<and> port < 5900 then Inl (Leaf ''bake: --vnc port must be 0 or at least 5900'')
              else if port = webPort \<and> port \<noteq> 0 then Inl (Leaf ''bake: --vnc and --vnc-web cannot use the same port'')
              else Inr \<lparr>vc_host = host, vc_port = port, vc_webPort = webPort\<rparr>)))"

definition prepareVNC :: "golden_env \<Rightarrow> bake_options \<Rightarrow> gerr + bake_options" where
  "prepareVNC env bo =
     (case parseVNC bo of
        Inl e \<Rightarrow> Inl e
      | Inr cfg \<Rightarrow>
         if vc_host cfg = [] then Inr (bo\<lparr>bo_VNCWebSocket := []\<rparr>)
         else (case (if vc_port cfg = 0 then freePort (ge_ports env 0) [vc_webPort cfg] else Inr (vc_port cfg)) of
                 Inl e \<Rightarrow> Inl (errorf (''bake: allocate VNC port on '' @ vc_host cfg @ '': '') e)
               | Inr port \<Rightarrow>
                  (let bo1 = bo\<lparr>bo_VNC := joinHostPort (vc_host cfg) (formatInt port)\<rparr> in
                   if bo_VNCWeb bo = [] then Inr (bo1\<lparr>bo_VNCWebSocket := []\<rparr>)
                   else (case freePort (ge_ports env 1) [port, vc_webPort cfg] of
                           Inl e \<Rightarrow> Inl (errorf (''bake: allocate VNC WebSocket port on '' @ vc_host cfg @ '': '') e)
                         | Inr ws \<Rightarrow> Inr (bo1\<lparr>bo_VNCWebSocket := joinHostPort (vc_host cfg) (formatInt ws)\<rparr>)))))"

definition addressPort :: "string \<Rightarrow> string \<times> int" where
  "addressPort a = (case splitAddress a of Inl _ \<Rightarrow> ([], 0) | Inr hp \<Rightarrow> hp)"

text \<open>The display is the port less 5900.\<close>

definition vncArg :: "bake_options \<Rightarrow> string" where
  "vncArg bo =
     joinHostPort (fst (addressPort (bo_VNC bo))) (formatInt (snd (addressPort (bo_VNC bo)) - 5900))
     @ (if bo_VNCWebSocket bo \<noteq> [] then '',websocket='' @ formatInt (snd (addressPort (bo_VNCWebSocket bo))) else [])"

definition bakeQEMUArgs :: "bake_options \<Rightarrow> string \<Rightarrow> string \<Rightarrow> string list" where
  "bakeQEMUArgs bo autounattendISO varsFD =
     (let accel = (if bo_Accel bo = [] then ''tcg'' else bo_Accel bo)
      in [''-machine'', ''q35'', ''-accel'', accel, ''-cpu'', cpuArg accel,
          ''-m'', formatInt (bo_MemMB bo), ''-smp'', formatInt (bo_CPUs bo)]
         @ (if bo_OVMFCode bo \<noteq> [] then
              [''-drive'', ''if=pflash,format=raw,unit=0,readonly=on,file='' @ bo_OVMFCode bo,
               ''-drive'', ''if=pflash,format=raw,unit=1,file='' @ varsFD] else [])
         @ [''-drive'', ''file='' @ bo_Golden bo @ '',if=none,id=osdisk,format=qcow2'',
            ''-device'', ''ahci,id=ahci'', ''-device'', ''ide-hd,drive=osdisk,bus=ahci.0'',
            ''-drive'', ''file='' @ bo_WindowsISO bo @ '',media=cdrom,id=instcd'',
            ''-drive'', ''file='' @ autounattendISO @ '',media=cdrom'',
            ''-netdev'', ''user,id=n0'', ''-device'', ''e1000,netdev=n0'',
            ''-qmp'', ''tcp:127.0.0.1:4455,server,nowait'',
            ''-serial'', ''file:'' @ GoldenSerialPath (bo_Golden bo)]
         @ (if bo_VNC bo \<noteq> [] then [''-vnc'', vncArg bo] else [''-display'', ''none'']))"

section \<open>Staging downloads\<close>

definition downloadFile :: "golden_env \<Rightarrow> string \<Rightarrow> gerr + string" where
  "downloadFile env url =
     (case ge_fetch env url of
        Inl e \<Rightarrow> Inl e
      | Inr (status, body) \<Rightarrow>
          if status \<noteq> 200 then Inl (Leaf (''download '' @ url @ '': status '' @ formatInt status)) else Inr body)"

definition bytesDigest :: "golden_env \<Rightarrow> string \<Rightarrow> string \<Rightarrow> gerr + string" where
  "bytesDigest env body algorithm =
     (if toUpper algorithm = ''SHA256'' then Inr (hexEncode (ge_sha256 env body))
      else if toUpper algorithm = ''SHA512'' then Inr (hexEncode (ge_sha512 env body))
      else Inl (Leaf (''unsupported digest algorithm '' @ goQuote algorithm)))"

text \<open>The files staged in the temporary directory, by name; a download that fails or does not match is left out.\<close>

fun stageArtifacts :: "golden_env \<Rightarrow> artifact list \<Rightarrow> (string \<times> string) list \<Rightarrow> (string \<times> string) list" where
  "stageArtifacts env [] refs = refs"
| "stageArtifacts env (a # as) refs =
     stageArtifacts env as
       (case downloadFile env (ar_URL a) of
          Inl _ \<Rightarrow> refs
        | Inr body \<Rightarrow>
            (case bytesDigest env body (ar_Algorithm a) of
               Inl _ \<Rightarrow> refs
             | Inr got \<Rightarrow> if equalFold got (ar_Digest a) then AList.update (ar_Name a) body refs else refs))"

definition stageBakeBinaries :: "golden_env \<Rightarrow> vm_world \<Rightarrow> string \<Rightarrow> string \<Rightarrow> string list \<Rightarrow> (string \<times> string) list \<times> vm_world" where
  "stageBakeBinaries env w runnerVersion runnerSHA tools =
     (case bakeArtifacts (ge_manifest env) runnerVersion runnerSHA tools of
        Inl _ \<Rightarrow> ([], w)
      | Inr artifacts \<Rightarrow>
         (case attempt w of (Some _, w1) \<Rightarrow> ([], w1) | (None, w1) \<Rightarrow> (stageArtifacts env artifacts [], w1)))"

section \<open>Baking\<close>

definition validateBake :: "golden_env \<Rightarrow> vm_world \<Rightarrow> bake_options \<Rightarrow> (gerr + bake_options) \<times> vm_world" where
  "validateBake env w bo0 =
     (let bo = defaults env bo0 in
      if bo_WindowsISO bo = [] \<or> bo_Golden bo = [] then (Inl (Leaf ''bake: WindowsISO and Golden are required''), w)
      else case osStat w (bo_WindowsISO bo) of
        (Some e, w1) \<Rightarrow> (Inl (errorf ''bake: windows iso: '' e), w1)
      | (None, w1) \<Rightarrow>
         (case parseVNC bo of
            Inl e \<Rightarrow> (Inl e, w1)
          | Inr _ \<Rightarrow>
             (case ToolsHash env w1 bo of
                (Inl e, w2) \<Rightarrow> (Inl (errorf ''bake inputs: '' e), w2)
              | (Inr h, w2) \<Rightarrow> (Inr (bo\<lparr>bo_WorkflowsHash := h\<rparr>), w2))))"

text \<open>The NVRAM of a UEFI golden image.\<close>

definition createNVRAM :: "bake_options \<Rightarrow> vm_world \<Rightarrow> gerr option \<times> vm_world" where
  "createNVRAM bo w =
     (if bo_OVMFCode bo = [] then (None, w)
      else if bo_OVMFVarsTemplate bo = [] then (Some (Leaf ''bake: UEFI code found but no vars template; set OVMFVarsTemplate''), w)
      else case copyFile w (GoldenVarsPath (bo_Golden bo)) (bo_OVMFVarsTemplate bo) of
             (Some e, w1) \<Rightarrow> (Some (errorf ''bake: create nvram: '' e), w1)
           | (None, w1) \<Rightarrow> (None, w1))"

definition autoISOPath :: "bake_options \<Rightarrow> string" where
  "autoISOPath bo = bo_Golden bo @ ''.autounattend.iso''"

text \<open>\<open>Prepare\<close>: the completed options and the QEMU arguments.\<close>

definition Prepare :: "golden_env \<Rightarrow> vm_world \<Rightarrow> bake_options \<Rightarrow> (gerr + (bake_options \<times> string list)) \<times> vm_world" where
  "Prepare env w bo0 =
     (case validateBake env w bo0 of
        (Inl e, w1) \<Rightarrow> (Inl e, w1)
      | (Inr bo1, w1) \<Rightarrow>
         (case prepareVNC env bo1 of
            Inl e \<Rightarrow> (Inl e, w1)
          | Inr bo \<Rightarrow>
             (case writeThrough w1 (bo_Golden bo) (DiskFile None) of
                (Some e, w2) \<Rightarrow> (Inl (errorf ''create golden disk: '' e), w2)
              | (None, w2) \<Rightarrow>
                 (let w3 = snd (osRemove w2 (GoldenSerialPath (bo_Golden bo))) in
                  case AutounattendFiles env (bo_RunnerVersion bo) (bo_RunnerSHA256 bo) (bo_AdminPassword bo) (bo_Tools bo) of
                    Inl e \<Rightarrow> (Inl e, w3)
                  | Inr files \<Rightarrow>
                     (case stageBakeBinaries env w3 (bo_RunnerVersion bo) (bo_RunnerSHA256 bo) (bo_Tools bo) of
                        (refs, w4) \<Rightarrow>
                          (case BuildISO w4 (autoISOPath bo) ''AUTOUNATTEND'' (files @ refs) of
                             (Some e, w5) \<Rightarrow> (Inl e, w5)
                           | (None, w5) \<Rightarrow>
                              (case createNVRAM bo w5 of
                                 (Some e, w6) \<Rightarrow> (Inl e, w6)
                               | (None, w6) \<Rightarrow>
                                   (Inr (bo, bakeQEMUArgs bo (autoISOPath bo) (GoldenVarsPath (bo_Golden bo))), w6))))))))"

definition serialTail :: "string \<Rightarrow> nat \<Rightarrow> string" where
  "serialTail b n = drop (length b - n) b"

text \<open>Reading the serial log; an error reads as an empty log.\<close>

definition readSerial :: "vm_world \<Rightarrow> string \<Rightarrow> string \<times> vm_world" where
  "readSerial w golden =
     (case osReadFile w (GoldenSerialPath golden) of
        (Inl _, w1) \<Rightarrow> ([], w1) | (Inr f, w1) \<Rightarrow> (textOf f, w1))"

definition serialOf :: "guest_run \<Rightarrow> string" where
  "serialOf g = (case g of PowersOff s \<Rightarrow> s | RunFails _ s \<Rightarrow> s | Hangs s \<Rightarrow> s)"

definition bakedMeta :: "bake_options \<Rightarrow> int \<Rightarrow> golden_meta" where
  "bakedMeta bo now =
     \<lparr>gm_CreatedAt = now, gm_EvalDays = bo_EvalDays bo, gm_RearmsUsed = 0, gm_MaxRearms = bo_MaxRearms bo,
      gm_Licensed = bo_Licensed bo, gm_WorkflowsHash = bo_WorkflowsHash bo\<rparr>"

text \<open>
  The part of \<open>Bake\<close> after QEMU was started: the guest ran, its serial log is on disk (QEMU truncates
  it when it opens it), and the marker decides.
\<close>

definition finishBake :: "golden_env \<Rightarrow> bake_options \<Rightarrow> string list \<Rightarrow> int \<Rightarrow> vm_world \<Rightarrow> gerr option \<times> vm_world" where
  "finishBake env bo args now w =
     (let run = ge_guest env args;
          w1 = putFile (GoldenSerialPath (bo_Golden bo)) (TextFile (serialOf run)) w
      in case run of
           RunFails e s \<Rightarrow> (Some (errorf ''golden install run: '' e), w1)
         | Hangs s \<Rightarrow>
             (case readSerial w1 (bo_Golden bo) of
                (serial, w2) \<Rightarrow>
                  (Some (Leaf (''golden bake timed out (guest hung); serial tail:'' @ newline @ serialTail serial 2000)), w2))
         | PowersOff s \<Rightarrow>
             (case readSerial w1 (bo_Golden bo) of
                (serial, w2) \<Rightarrow>
                  if \<not> contains serial goldenOKMarker
                  then (Some (Leaf (''golden bake did not complete: '' @ goQuote goldenOKMarker @ '' not found in serial log ''
                          @ GoldenSerialPath (bo_Golden bo) @ newline @ ''--- serial tail ---'' @ newline @ serialTail serial 2000)), w2)
                  else SaveMeta w2 (bo_Golden bo) (bakedMeta bo now)))"

definition Bake :: "golden_env \<Rightarrow> vm_world \<Rightarrow> bake_options \<Rightarrow> int \<Rightarrow> gerr option \<times> vm_world" where
  "Bake env w bo0 now =
     (case Prepare env w bo0 of
        (Inl e, w1) \<Rightarrow> (Some e, w1)
      | (Inr (bo, args), w1) \<Rightarrow>
         (case (case attempt w1 of
                  (Some e, w2) \<Rightarrow> (Some (errorf ''start qemu: '' e), w2)
                | (None, w2) \<Rightarrow> finishBake env bo args now w2) of
            (r, w3) \<Rightarrow> (r, snd (osRemove w3 (autoISOPath bo)))))"

section \<open>Housekeeping\<close>

definition RebuildGolden :: "golden_env \<Rightarrow> vm_world \<Rightarrow> bake_options \<Rightarrow> int \<Rightarrow> gerr option \<times> vm_world" where
  "RebuildGolden env w bo now = Bake env w bo now"

definition rearmArgs :: "string list \<Rightarrow> bake_options \<Rightarrow> string list" where
  "rearmArgs env bo = QEMUArgs env
     \<lparr>lo_Overlay = bo_Golden bo, lo_JITISOPath = bo_Golden bo @ ''.rearm.iso'', lo_Name = [], lo_QMPAddr = [], lo_PIDFile = [],
      lo_MemMB = bo_MemMB bo, lo_CPUs = bo_CPUs bo, lo_Accel = bo_Accel bo, lo_Firmware = \<lparr>fw_CodeFD = [], fw_VarsFD = []\<rparr>\<rparr>"

definition RearmGolden :: "golden_env \<Rightarrow> vm_world \<Rightarrow> bake_options \<Rightarrow> int \<Rightarrow> gerr option \<times> vm_world" where
  "RearmGolden env w bo0 now =
     (let bo = defaults env bo0; iso = bo_Golden bo @ ''.rearm.iso'' in
      case BuildISO w iso ''REARM'' [(''rearm.txt'', ''1'')] of
        (Some e, w1) \<Rightarrow> (Some e, w1)
      | (None, w1) \<Rightarrow>
         (case (case attempt w1 of
                  (Some e, w2) \<Rightarrow> (Some (errorf ''rearm boot: '' e), w2)
                | (None, w2) \<Rightarrow>
                   (let run = ge_guest env (rearmArgs (vw_env w2) bo);
                        w2' = putFile (GoldenSerialPath (bo_Golden bo)) (TextFile (serialOf run)) w2
                    in case run of
                      PowersOff s \<Rightarrow>
                        (case LoadMeta w2' (bo_Golden bo) of
                           (Inl e, w3) \<Rightarrow> (Some e, w3)
                         | (Inr m, w3) \<Rightarrow> SaveMeta w3 (bo_Golden bo) (ApplyRearm m now))
                    | RunFails e s \<Rightarrow> (Some (errorf ''rearm boot: '' e), w2')
                    | Hangs s \<Rightarrow> (Some (errorf ''rearm boot: '' ctxErr), w2'))) of
            (r, w4) \<Rightarrow> (r, snd (osRemove w4 iso))))"

type_synonym golden_action = "vm_world \<Rightarrow> bake_options \<Rightarrow> int \<Rightarrow> gerr option \<times> vm_world"

text \<open>
  One image of \<open>CheckOnce\<close>; \<open>t1\<close> and \<open>t2\<close> are the readings of the clock for the decision and for the
  action. Errors are logged and the loop goes on.
\<close>

definition checkGolden ::
  "golden_action \<Rightarrow> golden_action \<Rightarrow> (int \<Rightarrow> int) \<Rightarrow> policy \<Rightarrow> bake_options \<times> int \<times> int \<Rightarrow> vm_world \<Rightarrow> vm_world" where
  "checkGolden rearm rebuild elapsedDays p ref w =
     (case ref of (bo, t1, t2) \<Rightarrow>
      (case LoadMeta w (bo_Golden bo) of
         (Inl e, w1) \<Rightarrow> w1
       | (Inr m, w1) \<Rightarrow>
          if gm_EvalDays m = 0 then w1
          else (case Decide elapsedDays p m (bo_WorkflowsHash bo) t1 of
                  ActionNone \<Rightarrow> w1
                | ActionRearm \<Rightarrow> snd (rearm w1 bo t2)
                | ActionRebuild \<Rightarrow> if bo_WindowsISO bo = [] then w1 else snd (rebuild w1 bo t2))))"

definition CheckOnce ::
  "golden_action \<Rightarrow> golden_action \<Rightarrow> (int \<Rightarrow> int) \<Rightarrow> policy \<Rightarrow> (bake_options \<times> int \<times> int) list \<Rightarrow> vm_world \<Rightarrow> vm_world" where
  "CheckOnce rearm rebuild elapsedDays p refs w = fold (checkGolden rearm rebuild elapsedDays p) refs w"

section \<open>The files beside a golden image\<close>

definition goldenDir :: "vm_world \<Rightarrow> string \<Rightarrow> string list" where
  "goldenDir w g =
     (let p = (if isAbs g then g else ''/'' @ vw_cwd w @ ''/'' @ g)
      in cleanParts True [] (butlast (splitOn (CHR ''/'') p)))"

definition goldenBase :: "string \<Rightarrow> string" where
  "goldenBase g = last (splitOn (CHR ''/'') g)"

lemma splitOn_append_suffix:
  "CHR ''/'' \<notin> set s \<Longrightarrow> splitOn (CHR ''/'') (g @ s) = butlast (splitOn (CHR ''/'') g) @ [last (splitOn (CHR ''/'') g) @ s]"
proof (induction g)
  case Nil
  then show ?case by (simp add: splitOn_no_sep)
next
  case (Cons c g)
  obtain v vs where v: "splitOn (CHR ''/'') g = v # vs" by (cases "splitOn (CHR ''/'') g") (auto split: list.splits)
  then show ?case using Cons by (auto simp: append_eq_Cons_conv split: list.splits)
qed

text \<open>A sidecar with a proper suffix lies in the directory of the image, under the suffixed name.\<close>

lemma locate_sidecar:
  assumes "g \<noteq> []" and "CHR ''/'' \<notin> set s" and "length s \<ge> 3"
  shows "locate w (g @ s) = goldenDir w g @ [goldenBase g @ s]"
proof -
  define p where "p = (if isAbs g then g else ''/'' @ vw_cwd w @ ''/'' @ g)"
  have a: "isAbs (g @ s) = isAbs g" using assms(1) by (cases g) (simp_all add: isAbs_def)
  have p: "locate w (g @ s) = pathParts (p @ s)" by (simp add: locate_def absPath_def a p_def)
  have ab: "isAbs (p @ s)" "isAbs p" by (auto simp: p_def a) (simp_all add: isAbs_def)
  have "last (splitOn (CHR ''/'') p) = goldenBase g"
  proof (cases "isAbs g")
    case False
    have "splitOn (CHR ''/'') g \<noteq> []" by (cases g) (auto split: list.splits)
    then show ?thesis using False by (simp add: p_def goldenBase_def splitOn_join)
  qed (simp add: p_def goldenBase_def)
  moreover have "CHR ''/'' \<notin> set (goldenBase g)"
  proof -
    have "goldenBase g \<in> set (splitOn (CHR ''/'') g)" unfolding goldenBase_def by (cases g) (auto split: list.splits)
    then show ?thesis using splitOn_pieces by blast
  qed
  moreover have "plainPart (goldenBase g @ s)"
    using assms(2,3) calculation(2) by (auto simp: plainPart_def append_eq_Cons_conv)
  ultimately have "pathParts (p @ s) = cleanParts True [] (butlast (splitOn (CHR ''/'') p)) @ [goldenBase g @ s]"
    using ab splitOn_append_suffix[OF assms(2), of p] cleanParts_plain[of "[goldenBase g @ s]" True]
    by (simp add: pathParts_def cleanParts_append)
  then show ?thesis using p by (simp add: goldenDir_def p_def Let_def)
qed

lemma locate_golden:
  assumes "g \<noteq> []"
  shows "locate w g = goldenDir w g @ [goldenBase g] \<or> length (locate w g) \<le> length (goldenDir w g)"
proof -
  define p where "p = (if isAbs g then g else ''/'' @ vw_cwd w @ ''/'' @ g)"
  have "locate w g = pathParts p" by (simp add: locate_def absPath_def p_def)
  have ab: "isAbs p" by (auto simp: p_def) (simp_all add: isAbs_def)
  have b: "last (splitOn (CHR ''/'') p) = goldenBase g" by (simp add: p_def goldenBase_def splitOn_join)
  have "splitOn (CHR ''/'') p = butlast (splitOn (CHR ''/'') p) @ [goldenBase g]"
    using append_butlast_last_id[OF splitOn_not_Nil, of "CHR ''/''" p] by (simp add: b)
  then have "pathParts p = cleanParts True (rev (goldenDir w g)) [goldenBase g]"
    unfolding pathParts_def goldenDir_def Let_def p_def[symmetric]
    using ab cleanParts_append[of True "[]" "butlast (splitOn (CHR ''/'') p)" "[goldenBase g]"] by simp
  moreover have "cleanParts True (rev d) [x] = d @ [x] \<or> length (cleanParts True (rev d) [x]) \<le> length d" for d x
    by (cases d rule: rev_cases) auto
  ultimately show ?thesis using \<open>locate w g = pathParts p\<close> by simp
qed

lemma sidecars_differ:
  assumes "g \<noteq> []"
  shows "locate w (metaPath g) \<noteq> locate w (GoldenSerialPath g)" "locate w (metaPath g) \<noteq> locate w (GoldenVarsPath g)"
    "locate w (metaPath g) \<noteq> locate w (g @ ''.autounattend.iso'')" "locate w (metaPath g) \<noteq> locate w (g @ ''.rearm.iso'')"
    "locate w (metaPath g) \<noteq> locate w g"
  using locate_golden[OF assms, of w] locate_sidecar[OF assms, of "''.meta.json''" w] locate_sidecar[OF assms, of "''.serial.log''" w]
    locate_sidecar[OF assms, of "''.vars.fd''" w] locate_sidecar[OF assms, of "''.autounattend.iso''" w]
    locate_sidecar[OF assms, of "''.rearm.iso''" w]
  by (auto simp: metaPath_def GoldenSerialPath_def GoldenVarsPath_def dest: sym[of _ "locate w g"])

section \<open>What a bake changes\<close>

definition goldenKeys :: "vm_world \<Rightarrow> string \<Rightarrow> string list set" where
  "goldenKeys w g = {locate w g, locate w (GoldenSerialPath g), locate w (g @ ''.autounattend.iso''), locate w (GoldenVarsPath g)}"

lemma meta_not_golden: "g \<noteq> [] \<Longrightarrow> locate w (metaPath g) \<notin> goldenKeys w g"
  using sidecars_differ[of g w] by (simp add: goldenKeys_def)

lemma fileDigest_quiet: "fileDigest env w p alg = (r, w') \<Longrightarrow> quiet w w'"
  by (auto simp: fileDigest_def osReadFile_quiet split: prod.splits sum.splits)

lemma isoDigestOf_quiet: "isoDigestOf env w bo = (r, w') \<Longrightarrow> quiet w w'"
  by (auto simp: isoDigestOf_def fileDigest_quiet split: if_splits prod.splits sum.splits option.splits)

lemma ToolsHash_quiet: "ToolsHash env w bo = (r, w') \<Longrightarrow> quiet w w'"
  by (auto simp: ToolsHash_def Let_def isoDigestOf_quiet split: prod.splits sum.splits)

lemma defaults_same [simp]: "bo_Golden (defaults env bo) = bo_Golden bo" "bo_WindowsISO (defaults env bo) = bo_WindowsISO bo"
    "bo_Tools (defaults env bo) = bo_Tools bo" "bo_RunnerSHA256 (defaults env bo) = bo_RunnerSHA256 bo"
    "bo_WindowsISOSHA256 (defaults env bo) = bo_WindowsISOSHA256 bo" "bo_Licensed (defaults env bo) = bo_Licensed bo"
  by (simp_all add: defaults_def Let_def)

lemma validateBake_result:
  assumes "validateBake env w bo0 = (r, w')"
  shows "quiet w w'"
    and "r = Inr bo \<Longrightarrow> \<exists>h w1 w2. bo = (defaults env bo0)\<lparr>bo_WorkflowsHash := h\<rparr> \<and> bo_Golden bo0 \<noteq> []
           \<and> quiet w w1 \<and> ToolsHash env w1 (defaults env bo0) = (Inr h, w2)"
proof -
  obtain e1 w1 where 1: "osStat w (bo_WindowsISO bo0) = (e1, w1)" by (cases "osStat w (bo_WindowsISO bo0)")
  obtain h2 w2 where 2: "ToolsHash env w1 (defaults env bo0) = (h2, w2)" by (cases "ToolsHash env w1 (defaults env bo0)")
  note q1 = osStat_quiet[OF 1] and q2 = quiet_trans[OF osStat_quiet[OF 1] ToolsHash_quiet[OF 2]]
  show "quiet w w'" using assms 1 2 q1 q2
    by (auto simp: validateBake_def Let_def split: if_splits option.splits sum.splits)
  show "\<exists>h w1 w2. bo = (defaults env bo0)\<lparr>bo_WorkflowsHash := h\<rparr> \<and> bo_Golden bo0 \<noteq> []
      \<and> quiet w w1 \<and> ToolsHash env w1 (defaults env bo0) = (Inr h, w2)" if "r = Inr bo"
  proof -
    have "bo_Golden bo0 \<noteq> [] \<and> (\<exists>h. h2 = Inr h \<and> bo = (defaults env bo0)\<lparr>bo_WorkflowsHash := h\<rparr>)"
      using assms 1 2 that by (auto simp: validateBake_def Let_def split: if_splits option.splits sum.splits)
    then obtain h where "bo_Golden bo0 \<noteq> []" "h2 = Inr h" "bo = (defaults env bo0)\<lparr>bo_WorkflowsHash := h\<rparr>" by blast
    then show ?thesis using q1 2 by blast
  qed
qed

lemma prepareVNC_same: "prepareVNC env bo = Inr bo' \<Longrightarrow>
    bo_Golden bo' = bo_Golden bo \<and> bakedMeta bo' now = bakedMeta bo now \<and> bo_OVMFCode bo' = bo_OVMFCode bo"
  by (auto simp: prepareVNC_def Let_def bakedMeta_def split: sum.splits if_splits)

lemma createNVRAM_frame: "createNVRAM bo w = (e, w') \<Longrightarrow> filesFrame {locate w (GoldenVarsPath (bo_Golden bo))} w w'"
  by (auto simp: createNVRAM_def copyFile_frame split: if_splits prod.splits option.splits)

lemma stage_quiet: "stageBakeBinaries env w v s t = (r, w') \<Longrightarrow> quiet w w'"
  by (auto simp: stageBakeBinaries_def attempt_quiet split: sum.splits prod.splits option.splits)

text \<open>The options a bake works with, and the hash it records.\<close>

definition bakeReady :: "golden_env \<Rightarrow> vm_world \<Rightarrow> bake_options \<Rightarrow> bake_options \<Rightarrow> bool" where
  "bakeReady env w bo0 bo \<longleftrightarrow> bo_Golden bo0 \<noteq> [] \<and> bo_Golden bo = bo_Golden bo0
     \<and> (\<exists>h w1 w2. quiet w w1 \<and> ToolsHash env w1 (defaults env bo0) = (Inr h, w2)
          \<and> (\<forall>now. bakedMeta bo now = bakedMeta ((defaults env bo0)\<lparr>bo_WorkflowsHash := h\<rparr>) now))"

lemma Prepare_result:
  assumes "Prepare env w bo0 = (r, w')"
  shows "filesFrame (goldenKeys w (bo_Golden bo0)) w w'" and "r = Inr (bo, args) \<Longrightarrow> bakeReady env w bo0 bo"
proof -
  obtain v w1 where v: "validateBake env w bo0 = (v, w1)" by (cases "validateBake env w bo0")
  note q1 = validateBake_result(1)[OF v]
  let ?K = "goldenKeys w (bo_Golden bo0)"
  have "filesFrame ?K w w' \<and> (r = Inr (bo, args) \<longrightarrow> bakeReady env w bo0 bo)"
  proof (cases "\<exists>bo1 bo2. v = Inr bo1 \<and> prepareVNC env bo1 = Inr bo2")
    case False
    then show ?thesis using assms v quiet_frame[OF q1] by (auto simp: Prepare_def split: sum.splits)
  next
    case True
    then obtain bo1 bo2 where bo: "v = Inr bo1" "prepareVNC env bo1 = Inr bo2" by blast
    obtain h wa wb where h: "bo1 = (defaults env bo0)\<lparr>bo_WorkflowsHash := h\<rparr>" "bo_Golden bo0 \<noteq> []" "quiet w wa"
        "ToolsHash env wa (defaults env bo0) = (Inr h, wb)"
      using validateBake_result(2)[OF v bo(1)] by blast
    have g: "bo_Golden bo2 = bo_Golden bo0" using prepareVNC_same[OF bo(2)] h(1) by simp
    have ready: "bakeReady env w bo0 bo2"
      using h g prepareVNC_same[OF bo(2)] by (auto simp: bakeReady_def)
    let ?g = "bo_Golden bo0"
    have step: "filesFrame ?K w y" if "filesFrame ?K w x" "filesFrame {locate x p} x y" "locate w p \<in> ?K" for x y p
      using frame_trans[OF that(1) frame_mono[OF that(2)]] that(3) frame_same(7)[OF that(1)] by simp
    obtain e2 w2 where 2: "writeThrough w1 ?g (DiskFile None) = (e2, w2)" by (cases "writeThrough w1 ?g (DiskFile None)")
    have f2: "filesFrame ?K w w2"
      by (rule step[OF quiet_frame[OF q1] writeThrough_frame[OF 2]]) (simp add: goldenKeys_def)
    define w3 where "w3 = snd (osRemove w2 (GoldenSerialPath ?g))"
    have f3: "filesFrame ?K w w3" unfolding w3_def
      by (rule step[OF f2 osRemove_frame[OF prod.collapse[symmetric]]]) (simp add: goldenKeys_def)
    let ?sb = "stageBakeBinaries env w3 (bo_RunnerVersion bo2) (bo_RunnerSHA256 bo2) (bo_Tools bo2)"
    obtain refs w4 where 4: "?sb = (refs, w4)" by (cases ?sb)
    have f4: "filesFrame ?K w w4" by (rule frame_trans[OF f3 quiet_frame[OF stage_quiet[OF 4]]])
    have f5: "filesFrame ?K w w5" if "BuildISO w4 (autoISOPath bo2) l fs = (e5, w5)" for l fs e5 w5
      by (rule step[OF f4 writeThrough_frame[OF that[unfolded BuildISO_def]]]) (simp add: g autoISOPath_def goldenKeys_def)
    have f6: "filesFrame ?K w w6" if "BuildISO w4 (autoISOPath bo2) l fs = (e5, w5)" "createNVRAM bo2 w5 = (e6, w6)" for l fs e5 w5 e6 w6
      by (rule step[OF f5[OF that(1)] createNVRAM_frame[OF that(2), unfolded g]]) (simp add: goldenKeys_def)
    show ?thesis using assms v bo g 2 4 f2 f3 f5 f6 ready
      by (auto simp: Prepare_def Let_def w3_def[symmetric] split: option.splits sum.splits prod.splits)
  qed
  then show "filesFrame (goldenKeys w (bo_Golden bo0)) w w'" "r = Inr (bo, args) \<Longrightarrow> bakeReady env w bo0 bo" by simp_all
qed

lemma readSerial_result: "readSerial w g = (s, w') \<Longrightarrow> quiet w w' \<and> (s = [] \<or> fileAt w (GoldenSerialPath g) \<noteq> None)"
  by (auto simp: readSerial_def osReadFile_quiet osReadFile_Inr split: prod.splits sum.splits)

lemma readSerial_text:
  assumes "readSerial w g = (s, w')" and "fileAt w (GoldenSerialPath g) = Some (TextFile t)"
  shows "s = [] \<or> s = t"
  using assms osReadFile_Inr[of w "GoldenSerialPath g"]
  by (auto simp: readSerial_def textOf_def split: prod.splits sum.splits)

lemma SaveMeta_frame: "SaveMeta w g m = (e, w') \<Longrightarrow> filesFrame {locate w (metaPath g)} w w'"
  and SaveMeta_None: "SaveMeta w g m = (None, w') \<Longrightarrow> map_of (vw_files w') (locate w (metaPath g)) = Some (MetaFile m)"
proof -
  obtain x w1 where x: "takeOutcome w = (x, w1)" by (cases "takeOutcome w")
  note q = takeOutcome_quiet[OF x]
  show "filesFrame {locate w (metaPath g)} w w'" if "SaveMeta w g m = (e, w')"
    using that x frame_trans[OF quiet_frame[OF q], of "{locate w (metaPath g)}" w'] quiet_same(9)[OF q] quiet_frame[OF q]
    by (cases x) (auto simp: SaveMeta_def)
  show "map_of (vw_files w') (locate w (metaPath g)) = Some (MetaFile m)" if "SaveMeta w g m = (None, w')"
    using that x quiet_same(9)[OF q] by (cases x) (auto simp: SaveMeta_def map_of_put)
qed

lemma contains_marker: "contains s goldenOKMarker \<Longrightarrow> s \<noteq> []"
  by (auto simp: goldenOKMarker_def)

lemma finishBake_result:
  assumes "finishBake env bo args now w = (e, w')" and "bo_Golden bo \<noteq> []"
  shows "filesFrame (insert (locate w (metaPath (bo_Golden bo))) (goldenKeys w (bo_Golden bo))) w w'"
    and "map_of (vw_files w') (locate w (metaPath (bo_Golden bo))) \<noteq> map_of (vw_files w) (locate w (metaPath (bo_Golden bo))) \<or> e = None
         \<Longrightarrow> \<exists>s. ge_guest env args = PowersOff s \<and> contains s goldenOKMarker"
    and "e = None \<Longrightarrow> map_of (vw_files w') (locate w (metaPath (bo_Golden bo))) = Some (MetaFile (bakedMeta bo now))"
proof -
  let ?g = "bo_Golden bo" and ?run = "ge_guest env args"
  let ?w1 = "putFile (GoldenSerialPath ?g) (TextFile (serialOf ?run)) w"
  let ?k = "locate w (metaPath ?g)" and ?K = "insert (locate w (metaPath ?g)) (goldenKeys w ?g)"
  have f1: "filesFrame ?K w ?w1" by (simp add: goldenKeys_def)
  have k1: "map_of (vw_files ?w1) ?k = map_of (vw_files w) ?k" using sidecars_differ(1)[OF assms(2)] by (simp add: map_of_put)
  obtain s w2 where s: "readSerial ?w1 ?g = (s, w2)" by (cases "readSerial ?w1 ?g")
  note q = conjunct1[OF readSerial_result[OF s]] and sm = quiet_same[OF conjunct1[OF readSerial_result[OF s]]]
  have sv: "s = [] \<or> s = serialOf ?run" using readSerial_text[OF s] by simp
  have f2: "filesFrame ?K w w2" by (rule frame_trans[OF f1 quiet_frame[OF q]])
  consider t where "?run = PowersOff t" "contains s goldenOKMarker" "SaveMeta w2 ?g (bakedMeta bo now) = (e, w')"
    | "w' = ?w1" "e \<noteq> None" | "w' = w2" "e \<noteq> None"
    using assms(1) s by (auto simp: finishBake_def Let_def split: guest_run.splits if_splits)
  then have "filesFrame ?K w w'
      \<and> (map_of (vw_files w') ?k \<noteq> map_of (vw_files w) ?k \<or> e = None \<longrightarrow> (\<exists>s. ?run = PowersOff s \<and> contains s goldenOKMarker))
      \<and> (e = None \<longrightarrow> map_of (vw_files w') ?k = Some (MetaFile (bakedMeta bo now)))"
  proof cases
    case (1 t)
    have "t = s" using sv 1 contains_marker by (auto simp: serialOf_def)
    moreover have "filesFrame ?K w w'"
      by (rule frame_trans[OF f2 frame_mono[OF SaveMeta_frame[OF 1(3)]]]) (simp add: sm)
    moreover have "e = None \<longrightarrow> map_of (vw_files w') ?k = Some (MetaFile (bakedMeta bo now))"
      using SaveMeta_None[of w2 ?g "bakedMeta bo now" w'] 1(3) sm by auto
    ultimately show ?thesis using 1 by blast
  qed (use f1 f2 k1 sm in auto)
  then show "filesFrame ?K w w'" "map_of (vw_files w') ?k \<noteq> map_of (vw_files w) ?k \<or> e = None
      \<Longrightarrow> \<exists>s. ?run = PowersOff s \<and> contains s goldenOKMarker"
    "e = None \<Longrightarrow> map_of (vw_files w') ?k = Some (MetaFile (bakedMeta bo now))" by blast+
qed

lemma Bake_result:
  assumes "Bake env w bo0 now = (e, w')"
  shows "filesFrame (insert (locate w (metaPath (bo_Golden bo0))) (goldenKeys w (bo_Golden bo0))) w w'"
    and "map_of (vw_files w') (locate w (metaPath (bo_Golden bo0))) \<noteq> map_of (vw_files w) (locate w (metaPath (bo_Golden bo0))) \<or> e = None
         \<Longrightarrow> bo_Golden bo0 \<noteq> [] \<Longrightarrow> \<exists>args s. ge_guest env args = PowersOff s \<and> contains s goldenOKMarker"
    and "e = None \<Longrightarrow> \<exists>bo. bakeReady env w bo0 bo
           \<and> map_of (vw_files w') (locate w (metaPath (bo_Golden bo0))) = Some (MetaFile (bakedMeta bo now))"
proof -
  let ?g = "bo_Golden bo0"
  let ?k = "locate w (metaPath ?g)" and ?K = "insert (locate w (metaPath ?g)) (goldenKeys w ?g)"
  obtain r w1 where r: "Prepare env w bo0 = (r, w1)" by (cases "Prepare env w bo0")
  note f1 = Prepare_result(1)[OF r]
  have F1: "filesFrame ?K w w1" by (rule frame_mono[OF f1]) auto
  have "filesFrame ?K w w'
      \<and> (bo_Golden bo0 \<noteq> [] \<longrightarrow> map_of (vw_files w') ?k \<noteq> map_of (vw_files w) ?k \<or> e = None \<longrightarrow> (\<exists>args s. ge_guest env args = PowersOff s \<and> contains s goldenOKMarker))
      \<and> (e = None \<longrightarrow> (\<exists>bo. bakeReady env w bo0 bo \<and> map_of (vw_files w') ?k = Some (MetaFile (bakedMeta bo now))))"
  proof (cases r)
    case (Inl x)
    then show ?thesis using assms r F1 frame_file[OF f1 meta_not_golden] by (auto simp: Bake_def)
  next
    case (Inr ba)
    obtain bo args where ba: "ba = (bo, args)" by (cases ba)
    have ready: "bakeReady env w bo0 bo" using Prepare_result(2)[OF r] Inr ba by simp
    then have g: "bo_Golden bo = ?g" "?g \<noteq> []" by (auto simp: bakeReady_def)
    note mk = meta_not_golden[OF g(2), of w]
    obtain x w2 where x: "attempt w1 = (x, w2)" by (cases "attempt w1")
    have f2: "filesFrame (goldenKeys w ?g) w w2" by (rule frame_trans[OF f1 quiet_frame[OF attempt_quiet[OF x]]])
    note l2 = frame_same(7)[OF f2]
    define mid where "mid = (case x of Some e \<Rightarrow> (Some (errorf ''start qemu: '' e), w2) | None \<Rightarrow> finishBake env bo args now w2)"
    obtain y w3 where y: "mid = (y, w3)" by (cases mid)
    have e: "e = y" "w' = snd (osRemove w3 (autoISOPath bo))"
      using assms r Inr ba x y by (auto simp: Bake_def mid_def split: option.splits)
    have m: "filesFrame ?K w w3 \<and> (map_of (vw_files w3) ?k \<noteq> map_of (vw_files w) ?k \<or> y = None \<longrightarrow> (\<exists>s. ge_guest env args = PowersOff s \<and> contains s goldenOKMarker))
        \<and> (y = None \<longrightarrow> map_of (vw_files w3) ?k = Some (MetaFile (bakedMeta bo now)))"
    proof (cases x)
      case None
      then have fb: "finishBake env bo args now w2 = (y, w3)" using y mid_def by simp
      have gk: "goldenKeys w2 ?g = goldenKeys w ?g" by (simp add: goldenKeys_def l2)
      have "filesFrame ?K w w3"
        using frame_trans[OF frame_mono[OF f2] finishBake_result(1)[OF fb, unfolded g l2 gk]] g(2) by auto
      then show ?thesis using finishBake_result(2,3)[OF fb] frame_file[OF f2 mk] g l2 by metis
    next
      case (Some z)
      then show ?thesis using y mid_def frame_file[OF f2 mk] frame_mono[OF f2, of ?K] by auto
    qed
    note l3 = frame_same(7)[OF conjunct1[OF m]]
    note fr = osRemove_frame[of w3 "autoISOPath bo" "fst (osRemove w3 (autoISOPath bo))" w', OF prod.collapse[symmetric, of "osRemove w3 (autoISOPath bo)", folded e(2)]]
    have auto: "locate w3 (autoISOPath bo) = locate w (?g @ ''.autounattend.iso'')" by (simp add: l3 autoISOPath_def g)
    have k3: "map_of (vw_files w') ?k = map_of (vw_files w3) ?k"
      using frame_file[OF fr, of ?k] sidecars_differ(3)[OF g(2), of w] auto by simp
    have "filesFrame ?K w w'" by (rule frame_trans[OF conjunct1[OF m] frame_mono[OF fr]]) (simp add: auto goldenKeys_def)
    then show ?thesis using m e(1) k3 ready by metis
  qed
  then show "filesFrame ?K w w'" "map_of (vw_files w') ?k \<noteq> map_of (vw_files w) ?k \<or> e = None
         \<Longrightarrow> bo_Golden bo0 \<noteq> [] \<Longrightarrow> \<exists>args s. ge_guest env args = PowersOff s \<and> contains s goldenOKMarker"
    "e = None \<Longrightarrow> \<exists>bo. bakeReady env w bo0 bo \<and> map_of (vw_files w') ?k = Some (MetaFile (bakedMeta bo now))"
    by blast+
qed

section \<open>Properties\<close>

text \<open>
  C21: a golden image is recorded only after the guest reported success. When a bake changes the
  metadata sidecar, or returns without an error, the install run ended with a power-off and its
  serial log contains the marker \<open>MR:GOLDEN_OK\<close>; a bake without an error leaves fresh metadata with
  the fingerprint of its inputs, and no bake touches any file but the sidecars of its image.
\<close>

theorem golden_recorded_only_when_verified:
  assumes "Bake env w bo now = (e, w')" and "bo_Golden bo \<noteq> []"
  shows "(map_of (vw_files w') (locate w (metaPath (bo_Golden bo))) \<noteq> map_of (vw_files w) (locate w (metaPath (bo_Golden bo))) \<or> e = None
            \<longrightarrow> (\<exists>args s. ge_guest env args = PowersOff s \<and> contains s goldenOKMarker))
       \<and> (e = None \<longrightarrow> (\<exists>m w1 w2. map_of (vw_files w') (locate w (metaPath (bo_Golden bo))) = Some (MetaFile m)
            \<and> gm_CreatedAt m = now \<and> gm_RearmsUsed m = 0 \<and> 0 < gm_MaxRearms m
            \<and> ToolsHash env w1 (defaults env bo) = (Inr (gm_WorkflowsHash m), w2)))
       \<and> (\<forall>k. k \<notin> insert (locate w (metaPath (bo_Golden bo))) (goldenKeys w (bo_Golden bo))
            \<longrightarrow> map_of (vw_files w') k = map_of (vw_files w) k)"
proof -
  have "\<exists>m w1 w2. map_of (vw_files w') (locate w (metaPath (bo_Golden bo))) = Some (MetaFile m)
      \<and> gm_CreatedAt m = now \<and> gm_RearmsUsed m = 0 \<and> 0 < gm_MaxRearms m
      \<and> ToolsHash env w1 (defaults env bo) = (Inr (gm_WorkflowsHash m), w2)" if ok: "e = None"
  proof -
    obtain b h w1 w2 where b: "map_of (vw_files w') (locate w (metaPath (bo_Golden bo))) = Some (MetaFile (bakedMeta b now))"
        "ToolsHash env w1 (defaults env bo) = (Inr h, w2)" "bakedMeta b now = bakedMeta ((defaults env bo)\<lparr>bo_WorkflowsHash := h\<rparr>) now"
      using Bake_result(3)[OF assms(1) ok] by (auto simp: bakeReady_def)
    then show ?thesis
      by (intro exI[of _ "bakedMeta b now"] exI[of _ w1] exI[of _ w2]) (simp add: bakedMeta_def defaults_def Let_def)
  qed
  then show ?thesis using Bake_result(2)[OF assms(1) _ assms(2)] frame_file[OF Bake_result(1)[OF assms(1)]] by blast
qed

text \<open>The digest of the ISO is a function of the ISO, whatever calls fail around it.\<close>

definition isoValue :: "golden_env \<Rightarrow> vm_world \<Rightarrow> bake_options \<Rightarrow> string" where
  "isoValue env w bo = (if bo_WindowsISO bo = [] then ''none''
     else hexEncode (ge_sha256 env (ge_bytes env (the (fileAt w (bo_WindowsISO bo))))))"

lemma isoDigestOf_value: "isoDigestOf env w bo = (Inr d, w') \<Longrightarrow> d = isoValue env w bo"
  by (auto simp: isoDigestOf_def isoValue_def fileDigest_def toUpper_def upperChar_def dest!: osReadFile_Inr
      split: if_splits option.splits prod.splits sum.splits)

lemma ToolsHash_defaults:
  assumes "ToolsHash env w bo = (Inr h, w')" and "ToolsHash env v (defaults env bo) = (Inr h', v')" and "quiet w v"
  shows "h' = h"
proof -
  have iso: "isoValue env v (defaults env bo) = isoValue env w bo" using quiet_same(10)[OF assms(3)] by (simp add: isoValue_def)
  have rv: "(if bo_RunnerVersion (defaults env bo) = [] then mf_RunnerVersion (ge_manifest env) else bo_RunnerVersion (defaults env bo))
      = (if bo_RunnerVersion bo = [] then mf_RunnerVersion (ge_manifest env) else bo_RunnerVersion bo)"
    by (simp add: defaults_def Let_def)
  show ?thesis using assms(1,2) iso
    unfolding ToolsHash_def Let_def rv defaults_same
    by (auto split: prod.splits sum.splits dest!: isoDigestOf_value)
qed

text \<open>
  C22: a rebuild settles. The fingerprint that housekeeping computes from a pool's options is the one
  the bake records, so right after a successful rebuild, and after a successful rearm as well, the
  policy asks for nothing: no image is rebuilt or rearmed twice for the same reason.
\<close>

theorem housekeeping_settles:
  assumes "elapsedDays 0 = 0" and "- (2 ^ 63) \<le> py_ThresholdDays p"
  shows "(Bake env w bo now = (None, w') \<longrightarrow> ToolsHash env w bo = (Inr h, w2)
            \<longrightarrow> py_ThresholdDays p \<le> bo_EvalDays (defaults env bo) \<longrightarrow> bo_EvalDays (defaults env bo) < 2 ^ 63
            \<longrightarrow> (\<exists>m. map_of (vw_files w') (locate w (metaPath (bo_Golden bo))) = Some (MetaFile m)
                  \<and> Decide elapsedDays p m h now = ActionNone))
       \<and> (Decide elapsedDays p m want now = ActionRearm \<longrightarrow> py_ThresholdDays p \<le> gm_EvalDays m \<longrightarrow> gm_EvalDays m < 2 ^ 63
            \<longrightarrow> Decide elapsedDays p (ApplyRearm m now) want now = ActionNone)"
proof -
  have s: "subTime now now = 0" by (simp add: subTime_def maxInt64_def)
  have d: "DaysLeft elapsedDays x now \<ge> py_ThresholdDays p"
    if "gm_CreatedAt x = now" "py_ThresholdDays p \<le> gm_EvalDays x" "gm_EvalDays x < 2 ^ 63" "\<not> gm_Licensed x" for x
    using that assms s by (simp add: DaysLeft_def)
  have "\<exists>m. map_of (vw_files w') (locate w (metaPath (bo_Golden bo))) = Some (MetaFile m) \<and> Decide elapsedDays p m h now = ActionNone"
    if b: "Bake env w bo now = (None, w')" "ToolsHash env w bo = (Inr h, w2)"
      "py_ThresholdDays p \<le> bo_EvalDays (defaults env bo)" "bo_EvalDays (defaults env bo) < 2 ^ 63"
  proof -
    obtain c k w1 v where c: "map_of (vw_files w') (locate w (metaPath (bo_Golden bo))) = Some (MetaFile (bakedMeta c now))"
        "quiet w w1" "ToolsHash env w1 (defaults env bo) = (Inr k, v)" "bakedMeta c now = bakedMeta ((defaults env bo)\<lparr>bo_WorkflowsHash := k\<rparr>) now"
      using Bake_result(3)[OF b(1) refl] by (auto simp: bakeReady_def)
    have "k = h" by (rule ToolsHash_defaults[OF b(2) c(3,2)])
    then have "Decide elapsedDays p (bakedMeta c now) h now = ActionNone"
      using d[of "bakedMeta c now"] b(3,4) c(4) by (auto simp: Decide_def bakedMeta_def)
    then show ?thesis using c(1) by blast
  qed
  moreover have "Decide elapsedDays p (ApplyRearm m now) want now = ActionNone"
    if "Decide elapsedDays p m want now = ActionRearm" "py_ThresholdDays p \<le> gm_EvalDays m" "gm_EvalDays m < 2 ^ 63"
    using that d[of "ApplyRearm m now"] by (auto simp: Decide_def ApplyRearm_def split: if_splits)
  ultimately show ?thesis by blast
qed

section \<open>The rearm budget\<close>

text \<open>Every sidecar has used between none and all of its rearms.\<close>

definition metaOK :: "vm_file \<Rightarrow> bool" where
  "metaOK f = (case f of MetaFile m \<Rightarrow> 0 \<le> gm_RearmsUsed m \<and> gm_RearmsUsed m \<le> gm_MaxRearms m \<and> gm_MaxRearms m < 2 ^ 63 | _ \<Rightarrow> True)"

definition rearmsBounded :: "vm_world \<Rightarrow> bool" where
  "rearmsBounded w \<longleftrightarrow> (\<forall>k f. map_of (vw_files w) k = Some f \<longrightarrow> metaOK f)"

lemma bounded_quiet: "quiet w w' \<Longrightarrow> rearmsBounded w \<Longrightarrow> rearmsBounded w'"
  by (simp add: rearmsBounded_def quiet_same)

lemma bounded_put: "rearmsBounded w \<Longrightarrow> metaOK f \<Longrightarrow> rearmsBounded (putFile p f w)"
  by (auto simp: rearmsBounded_def map_of_put)

lemma bounded_drop: "rearmsBounded w \<Longrightarrow> rearmsBounded (dropFile p w)"
  by (auto simp: rearmsBounded_def map_of_drop split: if_splits)

lemma bounded_write: "writeThrough w p f = (e, w') \<Longrightarrow> metaOK f \<Longrightarrow> rearmsBounded w \<Longrightarrow> rearmsBounded w'"
  by (auto simp: writeThrough_def split: prod.splits if_splits dest!: takeOutcome_quiet
      intro: bounded_put bounded_quiet)

lemma bounded_iso: "BuildISO w p l fs = (e, w') \<Longrightarrow> rearmsBounded w \<Longrightarrow> rearmsBounded w'"
  unfolding BuildISO_def by (rule bounded_write) (auto simp: metaOK_def)

lemma bounded_copy: "copyFile w d s = (e, w') \<Longrightarrow> rearmsBounded w \<Longrightarrow> rearmsBounded w'"
proof -
  assume a: "copyFile w d s = (e, w')" and b: "rearmsBounded w"
  obtain r w1 where r: "osReadFile w s = (r, w1)" by (cases "osReadFile w s")
  have b1: "rearmsBounded w1" by (rule bounded_quiet[OF osReadFile_quiet[OF r] b])
  show ?thesis
  proof (cases r)
    case (Inl x)
    then show ?thesis using a r b1 by (simp add: copyFile_def)
  next
    case (Inr f)
    then have "metaOK f" using osReadFile_Inr[of w s f w1] r b by (auto simp: rearmsBounded_def fileAt_def)
    then show ?thesis using a r Inr b1 by (auto simp: copyFile_def intro: bounded_write)
  qed
qed

lemma bounded_remove: "rearmsBounded w \<Longrightarrow> rearmsBounded (snd (osRemove w p))"
  by (auto simp: osRemove_def split: prod.splits option.splits dest!: osStat_quiet intro: bounded_drop bounded_quiet)

lemma bounded_save: "SaveMeta w g m = (e, w') \<Longrightarrow> metaOK (MetaFile m) \<Longrightarrow> rearmsBounded w \<Longrightarrow> rearmsBounded w'"
  by (auto simp: SaveMeta_def split: prod.splits outcome.splits dest!: takeOutcome_quiet
      intro!: bounded_put intro: bounded_quiet) (auto simp: metaOK_def)

lemma bounded_nvram: "createNVRAM bo w = (e, w') \<Longrightarrow> rearmsBounded w \<Longrightarrow> rearmsBounded w'"
  by (auto simp: createNVRAM_def split: if_splits prod.splits option.splits intro: bounded_copy)

lemma bounded_prepare: "Prepare env w bo0 = (r, w') \<Longrightarrow> rearmsBounded w \<Longrightarrow> rearmsBounded w'"
proof -
  assume a: "Prepare env w bo0 = (r, w')" and b: "rearmsBounded w"
  obtain v w1 where v: "validateBake env w bo0 = (v, w1)" by (cases "validateBake env w bo0")
  have b1: "rearmsBounded w1" by (rule bounded_quiet[OF validateBake_result(1)[OF v] b])
  show ?thesis
  proof (cases "\<exists>bo1 bo2. v = Inr bo1 \<and> prepareVNC env bo1 = Inr bo2")
    case False
    then show ?thesis using a v b1 by (auto simp: Prepare_def split: sum.splits)
  next
    case True
    then obtain bo1 bo where bo: "v = Inr bo1" "prepareVNC env bo1 = Inr bo" by blast
    obtain e2 w2 where 2: "writeThrough w1 (bo_Golden bo) (DiskFile None) = (e2, w2)" by (cases "writeThrough w1 (bo_Golden bo) (DiskFile None)")
    have b2: "rearmsBounded w2" by (rule bounded_write[OF 2 _ b1]) (simp add: metaOK_def)
    define w3 where "w3 = snd (osRemove w2 (GoldenSerialPath (bo_Golden bo)))"
    have b3: "rearmsBounded w3" unfolding w3_def by (rule bounded_remove[OF b2])
    let ?sb = "stageBakeBinaries env w3 (bo_RunnerVersion bo) (bo_RunnerSHA256 bo) (bo_Tools bo)"
    obtain refs w4 where 4: "?sb = (refs, w4)" by (cases ?sb)
    have b4: "rearmsBounded w4" by (rule bounded_quiet[OF stage_quiet[OF 4] b3])
    show ?thesis using a v bo 2 4 b2 b3 bounded_iso[OF _ b4] bounded_nvram
      by (auto simp: Prepare_def Let_def w3_def[symmetric] split: option.splits sum.splits prod.splits)
  qed
qed

lemma bounded_finish:
  assumes "finishBake env bo args now w = (e, w')" and "rearmsBounded w" and "0 < bo_MaxRearms bo" and "bo_MaxRearms bo < 2 ^ 63"
  shows "rearmsBounded w'"
proof -
  let ?w1 = "putFile (GoldenSerialPath (bo_Golden bo)) (TextFile (serialOf (ge_guest env args))) w"
  obtain s w2 where s: "readSerial ?w1 (bo_Golden bo) = (s, w2)" by (cases "readSerial ?w1 (bo_Golden bo)")
  have b1: "rearmsBounded ?w1" by (rule bounded_put[OF assms(2)]) (simp add: metaOK_def)
  have b2: "rearmsBounded w2" using bounded_quiet[OF conjunct1[OF readSerial_result[OF s]] b1] .
  have "metaOK (MetaFile (bakedMeta bo now))" using assms(3,4) by (simp add: metaOK_def bakedMeta_def)
  then show ?thesis using assms(1) s b1 b2 bounded_save[of w2 _ "bakedMeta bo now" e w']
    by (auto simp: finishBake_def Let_def split: guest_run.splits if_splits)
qed

lemma bounded_bake:
  assumes "rearmsBounded w" and "bo_MaxRearms bo0 < 2 ^ 63"
  shows "rearmsBounded (snd (Bake env w bo0 now))"
proof -
  obtain r w1 where r: "Prepare env w bo0 = (r, w1)" by (cases "Prepare env w bo0")
  have b1: "rearmsBounded w1" by (rule bounded_prepare[OF r assms(1)])
  show ?thesis
  proof (cases r)
    case (Inl x)
    then show ?thesis using r b1 by (simp add: Bake_def)
  next
    case (Inr ba)
    obtain bo args where ba: "ba = (bo, args)" by (cases ba)
    have "bakedMeta bo now = bakedMeta ((defaults env bo0)\<lparr>bo_WorkflowsHash := bo_WorkflowsHash bo\<rparr>) now"
      using Prepare_result(2)[OF r] Inr ba by (auto simp: bakeReady_def bakedMeta_def)
    then have m: "0 < bo_MaxRearms bo" "bo_MaxRearms bo < 2 ^ 63"
      using assms(2) by (auto simp: bakedMeta_def defaults_def Let_def)
    obtain x w2 where x: "attempt w1 = (x, w2)" by (cases "attempt w1")
    have b2: "rearmsBounded w2" by (rule bounded_quiet[OF attempt_quiet[OF x] b1])
    have b3: "rearmsBounded (snd (finishBake env bo args now w2))"
      by (rule bounded_finish[OF prod.collapse[symmetric] b2 m])
    show ?thesis
      using r Inr ba x b2 b3 bounded_remove by (auto simp: Bake_def split: option.splits prod.splits)
  qed
qed

lemma LoadMeta_quiet: "LoadMeta w g = (r, w') \<Longrightarrow> quiet w w'"
  by (auto simp: LoadMeta_def osReadFile_quiet split: prod.splits sum.splits vm_file.splits if_splits)

lemma LoadMeta_Inr: "LoadMeta w g = (Inr m, w') \<Longrightarrow> fileAt w (metaPath g) = Some (MetaFile m) \<or> (fileAt w (metaPath g) = None \<and> m = zeroMeta)"
  by (auto simp: LoadMeta_def osReadFile_Inr osReadFile_absent split: prod.splits sum.splits vm_file.splits if_splits)

lemma bounded_rearm:
  assumes "rearmsBounded w" and "fileAt w (metaPath (bo_Golden bo0)) = Some (MetaFile m)" and "gm_RearmsUsed m < gm_MaxRearms m"
    and "bo_Golden bo0 \<noteq> []"
  shows "rearmsBounded (snd (RearmGolden env w bo0 now))"
proof -
  let ?g = "bo_Golden bo0"
  obtain e1 w1 where 1: "BuildISO w (?g @ ''.rearm.iso'') ''REARM'' [(''rearm.txt'', ''1'')] = (e1, w1)"
    by (cases "BuildISO w (?g @ ''.rearm.iso'') ''REARM'' [(''rearm.txt'', ''1'')]")
  have b1: "rearmsBounded w1" by (rule bounded_iso[OF 1 assms(1)])
  note f1 = writeThrough_frame[OF 1[unfolded BuildISO_def]]
  obtain x w2 where x: "attempt w1 = (x, w2)" by (cases "attempt w1")
  note q2 = attempt_quiet[OF x]
  have b2: "rearmsBounded w2" by (rule bounded_quiet[OF q2 b1])
  let ?run = "ge_guest env (rearmArgs (vw_env w2) (defaults env bo0))"
  define w3 where "w3 = putFile (GoldenSerialPath ?g) (TextFile (serialOf ?run)) w2"
  have b3: "rearmsBounded w3" unfolding w3_def by (rule bounded_put[OF b2]) (simp add: metaOK_def)
  have m3: "fileAt w3 (metaPath ?g) = Some (MetaFile m)"
    using assms(2) frame_file[OF f1, of "locate w (metaPath ?g)"] sidecars_differ[OF assms(4)] frame_same(7)[OF f1] quiet_same[OF q2]
    by (simp add: w3_def fileAt_def map_of_put)
  have "metaOK (MetaFile (ApplyRearm m now))"
  proof -
    have "metaOK (MetaFile m)" using assms(1,2) by (auto simp: rearmsBounded_def fileAt_def)
    then show ?thesis using assms(3) by (auto simp: metaOK_def ApplyRearm_def)
  qed
  then have s: "rearmsBounded v'" if "LoadMeta w3 ?g = (Inr n, v)" "SaveMeta v ?g (ApplyRearm n now) = (e, v')" for n v e v'
    using LoadMeta_Inr[OF that(1)] m3 bounded_save[OF that(2)] bounded_quiet[OF LoadMeta_quiet[OF that(1)] b3] by auto
  have l: "rearmsBounded v" if "LoadMeta w3 ?g = (n, v)" for n v
    using bounded_quiet[OF LoadMeta_quiet[OF that] b3] .
  show ?thesis
  proof (cases ?run)
    case (PowersOff t)
    have fold: "putFile (GoldenSerialPath ?g) (TextFile (serialOf (PowersOff t))) w2 = w3" by (simp add: w3_def PowersOff)
    show ?thesis using 1 x b1 b2 s l PowersOff
      by (auto simp: RearmGolden_def Let_def fold bounded_remove split: option.splits prod.splits sum.splits)
  next
    case (RunFails e t)
    have fold: "putFile (GoldenSerialPath ?g) (TextFile (serialOf (RunFails e t))) w2 = w3" by (simp add: w3_def RunFails)
    show ?thesis using 1 x b1 b2 b3 RunFails by (auto simp: RearmGolden_def Let_def fold bounded_remove split: option.splits)
  next
    case (Hangs t)
    have fold: "putFile (GoldenSerialPath ?g) (TextFile (serialOf (Hangs t))) w2 = w3" by (simp add: w3_def Hangs)
    show ?thesis using 1 x b1 b2 b3 Hangs by (auto simp: RearmGolden_def Let_def fold bounded_remove split: option.splits)
  qed
qed

lemma bounded_check:
  assumes "rearmsBounded w" and "bo_MaxRearms bo < 2 ^ 63" and "bo_Golden bo \<noteq> []"
  shows "rearmsBounded (checkGolden (RearmGolden env) (RebuildGolden env) elapsedDays p (bo, t1, t2) w)"
proof -
  obtain r w1 where r: "LoadMeta w (bo_Golden bo) = (r, w1)" by (cases "LoadMeta w (bo_Golden bo)")
  note q = LoadMeta_quiet[OF r]
  have b1: "rearmsBounded w1" by (rule bounded_quiet[OF q assms(1)])
  have rearm: "rearmsBounded (snd (RearmGolden env w1 bo t2))"
    if m: "r = Inr m" "gm_EvalDays m \<noteq> 0" "Decide elapsedDays p m h t1 = ActionRearm" for m h
  proof (rule bounded_rearm[OF b1 _ _ assms(3)])
    show "fileAt w1 (metaPath (bo_Golden bo)) = Some (MetaFile m)"
      using LoadMeta_Inr[of w "bo_Golden bo" m w1] r m(1,2) quiet_same(10)[OF q] by (auto simp: zeroMeta_def)
    show "gm_RearmsUsed m < gm_MaxRearms m" using m(3) by (auto simp: Decide_def split: if_splits)
  qed
  show ?thesis using r b1 rearm bounded_bake[OF b1 assms(2)]
    by (auto simp: checkGolden_def RebuildGolden_def split: sum.splits action.splits)
qed

text \<open>
  C23: housekeeping never uses more rearms than an image has. If every sidecar has used at most its
  maximum, so it has after any sequence of housekeeping rounds over any images, whatever calls fail.
\<close>

theorem rearm_budget_is_kept:
  assumes "rearmsBounded w" and "\<forall>round \<in> set rounds. \<forall>(bo, t1, t2) \<in> set round. bo_Golden bo \<noteq> [] \<and> bo_MaxRearms bo < 2 ^ 63"
  shows "rearmsBounded (fold (CheckOnce (RearmGolden env) (RebuildGolden env) elapsedDays p) rounds w)"
proof -
  have "rearmsBounded (CheckOnce (RearmGolden env) (RebuildGolden env) elapsedDays p refs v)"
    if "rearmsBounded v" "\<forall>(bo, t1, t2) \<in> set refs. bo_Golden bo \<noteq> [] \<and> bo_MaxRearms bo < 2 ^ 63" for refs v
    using that unfolding CheckOnce_def
  proof (induction refs arbitrary: v)
    case (Cons ref refs)
    obtain bo t1 t2 where "ref = (bo, t1, t2)" by (cases ref)
    then show ?case using Cons bounded_check[of v bo] by auto
  qed simp
  then show ?thesis using assms by (induction rounds arbitrary: w) auto
qed

section \<open>Ports and downloads\<close>

lemma lastIndexByte_append: "c \<notin> set b \<Longrightarrow> lastIndexByte (a @ c # b) c = Some (length a)"
  using indexByte_append[of c "rev b" "rev a"] by (simp add: lastIndexByte_def)

lemma netSplit_join:
  assumes "CHR ''['' \<notin> set h" "CHR '']'' \<notin> set h" "CHR ''['' \<notin> set p" "CHR '']'' \<notin> set p" "CHR '':'' \<notin> set p"
  shows "netSplitHostPort (joinHostPort h p) = Inr (h, p)"
proof (cases "CHR '':'' \<in> set h")
  case True
  have j: "joinHostPort h p = (CHR ''['' # h @ '']'') @ CHR '':'' # p" using True by (simp add: joinHostPort_def)
  have i: "lastIndexByte (joinHostPort h p) (CHR '':'') = Some (length h + 2)"
    unfolding j using lastIndexByte_append[OF assms(5), of "CHR ''['' # h @ '']''"] by simp
  have e: "indexByte (joinHostPort h p) (CHR '']'') = Some (Suc (length h))"
    using indexByte_append[of "CHR '']''" "CHR ''['' # h" "CHR '':'' # p"] assms(2) by (simp add: j)
  have d: "drop (Suc (length h)) (h @ CHR '']'' # CHR '':'' # p) = CHR '':'' # p" by simp
  show ?thesis unfolding netSplitHostPort_def i e using assms by (simp add: j)
next
  case False
  have j: "joinHostPort h p = h @ CHR '':'' # p" using False by (simp add: joinHostPort_def)
  have "lastIndexByte (joinHostPort h p) (CHR '':'') = Some (length h)" unfolding j by (rule lastIndexByte_append[OF assms(5)])
  moreover have "joinHostPort h p \<noteq> [] \<and> hd (joinHostPort h p) \<noteq> CHR ''[''" unfolding j using assms(1) by (cases h) auto
  ultimately show ?thesis using assms False by (simp add: netSplitHostPort_def j)
qed

lemma netSplit_host: "netSplitHostPort hp = Inr (h, p) \<Longrightarrow> CHR ''['' \<notin> set h \<and> CHR '']'' \<notin> set h"
proof -
  have ix: "indexByte s c = Some e \<Longrightarrow> c \<notin> set (take e s)" for s c e
    by (induction s arbitrary: e) (auto split: if_splits)
  assume a: "netSplitHostPort hp = Inr (h, p)"
  then show ?thesis
  proof (cases "hp \<noteq> [] \<and> hd hp = CHR ''[''")
    case True
    then obtain t where t: "hp = CHR ''['' # t" by (cases hp) auto
    obtain e where "indexByte hp (CHR '']'') = Some e" "h = take (e - 1) (drop 1 hp)" "CHR ''['' \<notin> set (drop 1 hp)"
      using a True by (auto simp: netSplitHostPort_def split: option.splits if_splits)
    moreover from this obtain k where "e = Suc k" "indexByte t (CHR '']'') = Some k" by (auto simp: t)
    ultimately show ?thesis using ix[of t] by (auto simp: t dest: in_set_takeD)
  next
    case False
    then show ?thesis using a
      by (auto simp: netSplitHostPort_def split: option.splits if_splits dest: in_set_takeD)
  qed
qed

text \<open>A formatted port reads back.\<close>

lemma formatInt_pos: "0 \<le> n \<Longrightarrow> c \<in> set (formatInt n) \<Longrightarrow> isDigit c"
  using natDigits_isDigit by (auto simp: formatInt_def list_all_iff)

lemma splitAddress_join:
  assumes "CHR ''['' \<notin> set h" "CHR '']'' \<notin> set h" "h \<noteq> []" "0 \<le> n" "n \<le> 65535"
  shows "splitAddress (joinHostPort h (formatInt n)) = Inr (h, n)"
proof -
  have "CHR ''['' \<notin> set (formatInt n)" "CHR '']'' \<notin> set (formatInt n)" "CHR '':'' \<notin> set (formatInt n)"
    using formatInt_pos[OF assms(4), of "CHR ''[''"] formatInt_pos[OF assms(4), of "CHR '']''"]
      formatInt_pos[OF assms(4), of "CHR '':''"] by (auto simp: isDigit_def Let_def)
  moreover have "parseInt64 (formatInt n) = Some n" using assms(4,5) by (intro parseInt64_formatInt) auto
  ultimately show ?thesis using netSplit_join[of h "formatInt n"] assms by (simp add: splitAddress_def)
qed

lemma splitAddress_Inr:
  "splitAddress a = Inr (h, p) \<Longrightarrow> h \<noteq> [] \<and> CHR ''['' \<notin> set h \<and> CHR '']'' \<notin> set h \<and> 0 \<le> p \<and> p \<le> 65535"
  using netSplit_host[of a] by (auto simp: splitAddress_def split: sum.splits prod.splits option.splits if_splits)

lemma freePort_Inr: "freePort ports ex = Inr p \<Longrightarrow> p \<in> set ports \<and> 5900 \<le> p \<and> p \<notin> set ex"
  by (induction ports ex rule: freePort.induct) (auto split: if_splits)

lemma parseVNC_result:
  assumes "parseVNC bo = Inr cfg" and "bo_VNC bo \<noteq> [] \<or> bo_VNCWeb bo \<noteq> []"
  shows "vc_host cfg \<noteq> [] \<and> CHR ''['' \<notin> set (vc_host cfg) \<and> CHR '']'' \<notin> set (vc_host cfg)"
    and "vc_port cfg = 0 \<or> (5900 \<le> vc_port cfg \<and> vc_port cfg \<le> 65535 \<and> vc_port cfg \<noteq> vc_webPort cfg)"
    and "bo_VNCWeb bo \<noteq> [] \<Longrightarrow> \<exists>h. splitAddress (bo_VNCWeb bo) = Inr (h, vc_webPort cfg)"
proof -
  obtain wh wp where w: "webAddress bo = Inr (wh, wp)" using assms by (auto simp: parseVNC_def split: sum.splits if_splits)
  have ws: "bo_VNCWeb bo \<noteq> [] \<Longrightarrow> splitAddress (bo_VNCWeb bo) = Inr (wh, wp)" "bo_VNCWeb bo = [] \<Longrightarrow> wh = []"
    using w by (auto simp: webAddress_def split: sum.splits if_splits)
  obtain h0 pt where p: "(if bo_VNC bo = [] then Inr (wh, 0) else splitAddress (bo_VNC bo)) = Inr (h0, pt)"
      "pt = 0 \<or> 5900 \<le> pt" "pt = wp \<longrightarrow> pt = 0" "cfg = \<lparr>vc_host = if wh \<noteq> [] then wh else h0, vc_port = pt, vc_webPort = wp\<rparr>"
    using assms w by (auto simp: parseVNC_def Let_def split: sum.splits if_splits)
  show "vc_host cfg \<noteq> [] \<and> CHR ''['' \<notin> set (vc_host cfg) \<and> CHR '']'' \<notin> set (vc_host cfg)"
    using ws p(1,4) assms(2) splitAddress_Inr by (cases "bo_VNCWeb bo = []") (auto split: if_splits)
  show "vc_port cfg = 0 \<or> (5900 \<le> vc_port cfg \<and> vc_port cfg \<le> 65535 \<and> vc_port cfg \<noteq> vc_webPort cfg)"
    using p splitAddress_Inr[of "bo_VNC bo" h0 pt] by (auto split: if_splits)
  show "bo_VNCWeb bo \<noteq> [] \<Longrightarrow> \<exists>h. splitAddress (bo_VNCWeb bo) = Inr (h, vc_webPort cfg)" using ws(1) p(4) by auto
qed

text \<open>
  The ports of the install viewer fit QEMU. When a bake asks for VNC, the address it passes
  parses back to a port between 5900 and 65535, so the display number is never negative, and the
  VNC port, the WebSocket port and the port of the web viewer are pairwise different.
\<close>

theorem vnc_ports_are_usable:
  assumes "prepareVNC env bo = Inr bo'" and "bo_VNC bo \<noteq> [] \<or> bo_VNCWeb bo \<noteq> []"
    and "\<forall>q \<in> set (ge_ports env 0). q \<le> 65535" and "\<forall>q \<in> set (ge_ports env 1). q \<le> 65535"
  shows "\<exists>host port. addressPort (bo_VNC bo') = (host, port) \<and> 5900 \<le> port \<and> port \<le> 65535
     \<and> (bo_VNCWeb bo \<noteq> [] \<longrightarrow>
          (\<exists>ws h web. addressPort (bo_VNCWebSocket bo') = (host, ws) \<and> splitAddress (bo_VNCWeb bo) = Inr (h, web)
             \<and> 5900 \<le> ws \<and> ws \<le> 65535 \<and> ws \<noteq> port \<and> ws \<noteq> web \<and> port \<noteq> web))"
proof -
  obtain cfg where c: "parseVNC bo = Inr cfg" using assms(1) by (auto simp: prepareVNC_def split: sum.splits)
  note v = parseVNC_result[OF c assms(2)]
  obtain port where p: "(if vc_port cfg = 0 then freePort (ge_ports env 0) [vc_webPort cfg] else Inr (vc_port cfg)) = Inr port"
    using assms(1) c v(1) by (auto simp: prepareVNC_def split: sum.splits)
  have pr: "5900 \<le> port" "port \<le> 65535" "port \<noteq> vc_webPort cfg"
    using p v(2) freePort_Inr[of "ge_ports env 0" "[vc_webPort cfg]" port] assms(3) by (auto split: if_splits)
  let ?bo1 = "bo\<lparr>bo_VNC := joinHostPort (vc_host cfg) (formatInt port)\<rparr>"
  have ap: "addressPort (joinHostPort (vc_host cfg) (formatInt port)) = (vc_host cfg, port)"
    using splitAddress_join[of "vc_host cfg" port] v(1) pr by (simp add: addressPort_def)
  show ?thesis
  proof (cases "bo_VNCWeb bo = []")
    case True
    then have "bo' = ?bo1\<lparr>bo_VNCWebSocket := []\<rparr>" using assms(1) c v(1) p by (simp add: prepareVNC_def Let_def)
    then show ?thesis using True ap pr by simp
  next
    case False
    then obtain ws where ws: "freePort (ge_ports env 1) [port, vc_webPort cfg] = Inr ws"
        "bo' = ?bo1\<lparr>bo_VNCWebSocket := joinHostPort (vc_host cfg) (formatInt ws)\<rparr>"
      using assms(1) c v(1) p by (auto simp: prepareVNC_def Let_def split: sum.splits)
    have wr: "5900 \<le> ws" "ws \<le> 65535" "ws \<noteq> port" "ws \<noteq> vc_webPort cfg" using freePort_Inr[OF ws(1)] assms(4) by auto
    have "addressPort (joinHostPort (vc_host cfg) (formatInt ws)) = (vc_host cfg, ws)"
      using splitAddress_join[of "vc_host cfg" ws] v(1) wr by (simp add: addressPort_def)
    then show ?thesis using ap pr wr ws(2) v(3)[OF False] by auto
  qed
qed

definition sampleGoldenEnv :: golden_env where
  "sampleGoldenEnv =
     \<lparr>ge_manifest = demoManifest, ge_template = (\<lambda>n. n), ge_sha256 = (\<lambda>s. take 8 s), ge_sha512 = (\<lambda>s. take 8 s),
      ge_bytes = textOf, ge_fetch = (\<lambda>u. Inr (404, [])),
      ge_platform = \<lparr>vf_TempDir = ''/tmp'', vf_GOOS = ''linux'', vf_GOARCH = ''amd64'', vf_kvm = True,
        vf_exists = (\<lambda>p. False), vf_qemuDir = (\<lambda>q. None)\<rparr>,
      ge_guest = (\<lambda>as. PowersOff ''MR:START MR:GOLDEN_OK''), ge_ports = (\<lambda>i. [80, 5901, 5902])\<rparr>"

definition sampleBake :: bake_options where
  "sampleBake =
     \<lparr>bo_WindowsISO = ''/w.iso'', bo_WindowsISOSHA256 = [], bo_Golden = ''/g'', bo_DiskGB = 8, bo_MemMB = 8, bo_CPUs = 1,
      bo_Accel = ''tcg'', bo_RunnerVersion = [], bo_RunnerSHA256 = [], bo_Tools = [], bo_AdminPassword = ''p'',
      bo_EvalDays = 0, bo_MaxRearms = 0, bo_Licensed = False, bo_WorkflowsHash = [], bo_QEMUBin = ''q'', bo_ImgBin = ''i'',
      bo_OVMFCode = [], bo_OVMFVarsTemplate = [], bo_VNC = [], bo_VNCWeb = [], bo_VNCWebSocket = [], bo_Timeout = 1\<rparr>"

definition sampleBakeHost :: vm_world where
  "sampleBakeHost =
     \<lparr>vw_cwd = ''srv'', vw_env = [], vw_files = [([''w.iso''], TextFile ''iso'')], vw_canon = (\<lambda>p. p),
      vw_procs = [], vw_nextPid = 41, vw_lag = 2, vw_says = (\<lambda>pid. []), vw_deadline = None, vw_outcomes = []\<rparr>"

theorem vnc_ports_are_usable_witness:
  "\<exists>bo' host port. prepareVNC sampleGoldenEnv (sampleBake\<lparr>bo_VNC := ''h:0''\<rparr>) = Inr bo'
     \<and> addressPort (bo_VNC bo') = (host, port) \<and> 5900 \<le> port"
proof -
  let ?bo = "sampleBake\<lparr>bo_VNC := ''h:0''\<rparr>"
  have "splitAddress ''h:0'' = Inr (''h'', 0)"
  proof -
    have "formatInt 0 = ''0''" by code_simp
    then show ?thesis using splitAddress_join[of "''h''" 0] by (simp add: joinHostPort_def)
  qed
  then have "\<exists>bo'. prepareVNC sampleGoldenEnv ?bo = Inr bo'"
    by (simp add: prepareVNC_def parseVNC_def webAddress_def sampleBake_def sampleGoldenEnv_def Let_def)
  then obtain bo' where b: "prepareVNC sampleGoldenEnv ?bo = Inr bo'" by blast
  from vnc_ports_are_usable[OF b] obtain host port where "addressPort (bo_VNC bo') = (host, port)" "5900 \<le> port"
    by (auto simp: sampleGoldenEnv_def)
  then show ?thesis using b by blast
qed

lemma sample_bake: "fst (Bake sampleGoldenEnv sampleBakeHost sampleBake 7) = None"
  by code_simp

theorem golden_recorded_only_when_verified_witness:
  "\<exists>w' m. Bake sampleGoldenEnv sampleBakeHost sampleBake 7 = (None, w')
     \<and> map_of (vw_files w') (locate sampleBakeHost (metaPath ''/g'')) = Some (MetaFile m)
     \<and> gm_CreatedAt m = 7 \<and> gm_RearmsUsed m = 0 \<and> 0 < gm_MaxRearms m"
proof -
  let ?b = "Bake sampleGoldenEnv sampleBakeHost sampleBake 7"
  have b: "?b = (None, snd ?b)" using sample_bake by (metis prod.collapse)
  have g: "bo_Golden sampleBake = ''/g''" by (simp add: sampleBake_def)
  show ?thesis using golden_recorded_only_when_verified[OF b] b by (auto simp: g)
qed

theorem housekeeping_settles_witness:
  "\<exists>w' h m. Bake sampleGoldenEnv sampleBakeHost sampleBake 7 = (None, w')
     \<and> fst (ToolsHash sampleGoldenEnv sampleBakeHost sampleBake) = Inr h
     \<and> map_of (vw_files w') (locate sampleBakeHost (metaPath ''/g'')) = Some (MetaFile m)
     \<and> Decide (\<lambda>d. d div 86400000000000) DefaultPolicy m h 7 = ActionNone
     \<and> Decide (\<lambda>d. d div 86400000000000) DefaultPolicy m h (170 * 86400000000000 + 7) = ActionRearm"
proof -
  let ?b = "Bake sampleGoldenEnv sampleBakeHost sampleBake 7" and ?t = "ToolsHash sampleGoldenEnv sampleBakeHost sampleBake"
  have b: "?b = (None, snd ?b)" using sample_bake by (metis prod.collapse)
  have "\<not> isl (fst ?t)" by code_simp
  then obtain h where t: "?t = (Inr h, snd ?t)" by (metis isl_def prod.collapse sum.exhaust_sel)
  have ev: "bo_EvalDays (defaults sampleGoldenEnv sampleBake) = 180" by (simp add: defaults_def sampleBake_def Let_def)
  have g: "bo_Golden sampleBake = ''/g''" by (simp add: sampleBake_def)
  obtain m where m: "map_of (vw_files (snd ?b)) (locate sampleBakeHost (metaPath ''/g'')) = Some (MetaFile m)"
      "Decide (\<lambda>d. d div 86400000000000) DefaultPolicy m h 7 = ActionNone"
    using housekeeping_settles[of "\<lambda>d. d div 86400000000000" DefaultPolicy sampleGoldenEnv sampleBakeHost sampleBake 7 "snd ?b" h "snd ?t"]
      b t ev by (auto simp: DefaultPolicy_def g)
  obtain c k where "m = bakedMeta c 7" "bakedMeta c 7 = bakedMeta ((defaults sampleGoldenEnv sampleBake)\<lparr>bo_WorkflowsHash := k\<rparr>) 7"
    using Bake_result(3)[OF b refl] m(1) by (auto simp: bakeReady_def g)
  then have f: "gm_CreatedAt m = 7" "gm_EvalDays m = 180" "gm_RearmsUsed m = 0" "gm_MaxRearms m = 5" "\<not> gm_Licensed m"
    by (simp_all add: bakedMeta_def defaults_def sampleBake_def Let_def)
  have "h = [] \<or> h = gm_WorkflowsHash m" using m(2) by (auto simp: Decide_def split: if_splits)
  then have "Decide (\<lambda>d. d div 86400000000000) DefaultPolicy m h (170 * 86400000000000 + 7) = ActionRearm"
    using f by (simp add: Decide_def DaysLeft_def subTime_def maxInt64_def DefaultPolicy_def wrap64_def)
  then show ?thesis using b t m by (metis fst_conv)
qed

theorem rearm_budget_is_kept_witness:
  "rearmsBounded (fold (CheckOnce (RearmGolden sampleGoldenEnv) (RebuildGolden sampleGoldenEnv) (\<lambda>d. 170) DefaultPolicy)
     [[(sampleBake, 1, 2)], [(sampleBake, 3, 4)]]
     (sampleBakeHost\<lparr>vw_files := [([''g.meta.json''], MetaFile (bakedMeta (defaults sampleGoldenEnv sampleBake) 0))]\<rparr>))"
  by (rule rearm_budget_is_kept)
     (auto simp: rearmsBounded_def metaOK_def bakedMeta_def defaults_def sampleBake_def Let_def split: if_splits)



text \<open>
  A golden image that was baked with UEFI firmware is booted by \<open>RearmGolden\<close> without it: the arguments
  of the rearm do not depend on the firmware of the image, those of the bake do.
\<close>

theorem rearm_boots_without_firmware:
  "rearmArgs env (bo\<lparr>bo_OVMFCode := code, bo_OVMFVarsTemplate := vars\<rparr>) = rearmArgs env bo
   \<and> (''if=pflash,format=raw,unit=0,readonly=on,file='' @ ''/c.fd'') \<in> set (bakeQEMUArgs (bo\<lparr>bo_OVMFCode := ''/c.fd''\<rparr>) cd varsFD)"
  by (simp add: rearmArgs_def bakeQEMUArgs_def Let_def)

end
