(* ===== verification/Image_Update.thy ===== *)
theory Image_Update
  imports Image_Manifest Github Cache_Blockid Go_Os
begin

text \<open>
  The maintenance command \<open>cmd/update-image-versions/main.go\<close>, which refreshes the image manifest from
  the release feeds of its dependencies and rewrites the base images of two Dockerfiles. The HTTP
  client and the JSON codec are arguments (\<open>updater_env\<close>): a request is answered by a function of
  method, URL and headers, since a run asks for nothing twice. Files are an association list over
  cleaned paths, and every system call takes its result from a list of faults. Iteration over a map is
  in the order of its list. Shown: a run writes nothing but a validated manifest and Dockerfiles with
  exactly one line changed, and a second run against the same feeds changes nothing.
\<close>

section \<open>Feeds\<close>

text \<open>A body is the bytes that arrive and the error that cuts them off, if one does.\<close>

type_synonym body = "string \<times> gerr option"

record http_answer =
  ha_code :: int
  ha_status :: string
  ha_contentDigest :: string                        \<comment> \<open>header \<open>Docker-Content-Digest\<close>\<close>
  ha_url :: string                                  \<comment> \<open>the URL after redirects\<close>
  ha_body :: body

record github_asset =
  ga_Name :: string
  ga_BrowserDownloadURL :: string
  ga_Digest :: string

record github_release =
  gr_TagName :: string
  gr_Assets :: "github_asset list"

record node_lifecycle =
  nl_LTS :: string
  nl_End :: string

record npm_version =
  np_Version :: string
  np_Tarball :: string
  np_Integrity :: string

record dotnet_index_channel =
  di_Channel :: string
  di_ReleaseType :: string
  di_EOL :: string
  di_SupportPhase :: string
  di_ReleasesURL :: string
  di_LatestSDK :: string

record dotnet_file =
  df_RID :: string
  df_URL :: string
  df_Hash :: string

record dotnet_releases =
  dr_LatestSDK :: string
  dr_Releases :: "(string \<times> dotnet_file list) list"  \<comment> \<open>SDK version and files\<close>

record go_file =
  gf_OS :: string
  gf_Arch :: string
  gf_Kind :: string
  gf_SHA256 :: string

record go_release =
  go_Version :: string
  go_Stable :: bool
  go_Files :: "go_file list"

text \<open>The updater with the client, the decoders of the feeds and the codec of the manifest.\<close>

record updater_env =
  ue_do :: "string \<Rightarrow> string \<Rightarrow> (string \<times> string) list \<Rightarrow> gerr + http_answer"
  ue_today :: string
  ue_token :: string
  ue_sha256 :: "string \<Rightarrow> string"
  ue_nodeIndex :: "body \<Rightarrow> gerr + string list"
  ue_schedule :: "body \<Rightarrow> gerr + (string \<times> node_lifecycle) list"
  ue_npm :: "body \<Rightarrow> gerr + npm_version"
  ue_dotnetIndex :: "body \<Rightarrow> gerr + dotnet_index_channel list"
  ue_dotnetReleases :: "body \<Rightarrow> gerr + dotnet_releases"
  ue_goReleases :: "body \<Rightarrow> gerr + go_release list"
  ue_release :: "body \<Rightarrow> gerr + github_release"
  ue_vsChannel :: "string \<Rightarrow> gerr + string"
  ue_decode :: "string \<Rightarrow> gerr + manifest"
  ue_encode :: "manifest \<Rightarrow> gerr + string"

definition bodyLimit :: int where
  "bodyLimit = 134217728"

definition limited :: "body \<Rightarrow> body" where
  "limited b = (if int (length (fst b)) < bodyLimit then b else (take (nat bodyLimit) (fst b), None))"

definition readAll :: "body \<Rightarrow> gerr + string" where
  "readAll b = (case snd b of Some e \<Rightarrow> Inl e | None \<Rightarrow> Inr (fst b))"

definition statusErr :: "string \<Rightarrow> http_answer \<Rightarrow> gerr option" where
  "statusErr endpoint r =
     failIf (ha_code r < 200 \<or> 300 \<le> ha_code r) (Leaf (endpoint @ '' returned '' @ ha_status r))"

definition doJSON :: "updater_env \<Rightarrow> (body \<Rightarrow> gerr + 'a) \<Rightarrow> string \<Rightarrow> (string \<times> string) list \<Rightarrow> gerr + 'a" where
  "doJSON u dec endpoint headers =
     (case ue_do u ''GET'' endpoint headers of
        Inl e \<Rightarrow> Inl e
      | Inr r \<Rightarrow> (case statusErr endpoint r of Some e \<Rightarrow> Inl e | None \<Rightarrow> dec (limited (ha_body r))))"

definition getJSON :: "updater_env \<Rightarrow> (body \<Rightarrow> gerr + 'a) \<Rightarrow> string \<Rightarrow> gerr + 'a" where
  "getJSON u dec endpoint = doJSON u dec endpoint []"

definition download :: "updater_env \<Rightarrow> string \<Rightarrow> gerr + string" where
  "download u endpoint =
     (case ue_do u ''GET'' endpoint [] of
        Inl e \<Rightarrow> Inl e
      | Inr r \<Rightarrow> (case statusErr endpoint r of Some e \<Rightarrow> Inl e | None \<Rightarrow> readAll (limited (ha_body r))))"

text \<open>The digest in hexadecimal, the final URL and the body; \<open>keepBody\<close> only saves memory.\<close>

definition downloadSHA256 :: "updater_env \<Rightarrow> string \<Rightarrow> bool \<Rightarrow> gerr + string \<times> string \<times> string" where
  "downloadSHA256 u endpoint keepBody =
     (case ue_do u ''GET'' endpoint [] of
        Inl e \<Rightarrow> Inl e
      | Inr r \<Rightarrow>
         (case statusErr endpoint r of
            Some e \<Rightarrow> Inl e
          | None \<Rightarrow>
             (case readAll (ha_body r) of
                Inl e \<Rightarrow> Inl e
              | Inr b \<Rightarrow> Inr (hexEncode (ue_sha256 u b), ha_url r, if keepBody then b else []))))"

section \<open>Text of the feeds\<close>

text \<open>
  \<open>bufio.Scanner\<close> with \<open>ScanLines\<close>: lines without their ending; a line that does not fit the
  buffer of 64 KiB ends the scan.
\<close>

definition dropCR :: "string \<Rightarrow> string" where
  "dropCR l = trimSuffix l [CHR 0x0D]"

definition scanLines :: "string \<Rightarrow> string list" where
  "scanLines b =
     (let ls = splitOn (CHR 0x0A) b; raw = (if last ls = [] then butlast ls else ls)
      in map dropCR (takeWhile (\<lambda>l. int (length l) < 65536) raw))"

fun checksumLines :: "(string \<times> string) list \<Rightarrow> string list \<Rightarrow> (string \<times> string) list" where
  "checksumLines acc [] = acc"
| "checksumLines acc (l # ls) =
     checksumLines (case fieldsOf l of [a, b] \<Rightarrow> AList.update b (toLower a) acc | _ \<Rightarrow> acc) ls"

definition checksumManifest :: "string \<Rightarrow> (string \<times> string) list" where
  "checksumManifest b = checksumLines [] (scanLines b)"

definition trimChars :: "string \<Rightarrow> string \<Rightarrow> string" where
  "trimChars s cs = trimRight (dropWhile (\<lambda>c. c \<in> set cs) s) cs"

definition versionKey :: string where
  "versionKey = ''version = '' @ [CHR 0x22]"

fun rustLines :: "bool \<Rightarrow> string list \<Rightarrow> string" where
  "rustLines inRust [] = []"
| "rustLines inRust (l # ls) =
     (if l = ''[pkg.rust]'' then rustLines True ls
      else if inRust \<and> prefix ''['' l then []
      else if inRust \<and> prefix versionKey l
      then trimChars (fst (cutAt (trimPrefix l versionKey) (CHR '' ''))) [CHR 0x22]
      else rustLines inRust ls)"

definition rustVersion :: "string \<Rightarrow> string" where
  "rustVersion b = rustLines False (scanLines b)"

fun rustupLines :: "string list \<Rightarrow> string" where
  "rustupLines [] = []"
| "rustupLines (l0 # ls) =
     (let l = trimSpace l0 in
      if prefix ''['' l then []
      else case cutAt l (CHR ''='') of (key, v, ok) \<Rightarrow>
        if \<not> ok \<or> trimSpace key \<noteq> ''version'' then rustupLines ls
        else trimChars (trimSpace v) [CHR 0x27, CHR 0x22])"

definition rustupReleaseVersion :: "string \<Rightarrow> string" where
  "rustupReleaseVersion b = rustupLines (scanLines b)"

definition validHex :: "string \<Rightarrow> nat \<Rightarrow> gerr option" where
  "validHex v n =
     (if length v \<noteq> n then Some (Leaf (''must contain '' @ natDigits n @ '' hexadecimal characters''))
      else if hexDecode v = None then Some (errorf ''must be hexadecimal: '' (hexError v))
      else None)"

definition validAll :: "string \<Rightarrow> nat \<Rightarrow> (string \<times> string) list \<Rightarrow> gerr option" where
  "validAll pre n xs =
     firstErr (map (\<lambda>(name, v). map_option (errorf (pre @ '' '' @ name @ '' checksum: '')) (validHex v n)) xs)"

definition integritySHA512Hex :: "string \<Rightarrow> gerr + string" where
  "integritySHA512Hex integrity =
     (let t = trimSpace integrity in
      if \<not> prefix ''sha512-'' t then Inl (Leaf (''unsupported integrity '' @ goQuote integrity))
      else case b64Decode stdVal True (drop 7 t) of
        None \<Rightarrow> Inl (errorf (''decode integrity '' @ goQuote integrity @ '': '') (Leaf ''illegal base64 data''))
      | Some raw \<Rightarrow>
          if length raw \<noteq> 64
          then Inl (Leaf (''integrity '' @ goQuote integrity @ '' decodes to '' @ natDigits (length raw) @ '' bytes, want 64''))
          else Inr (hexEncode raw))"

section \<open>Releases of GitHub and the registry\<close>

definition assetSHA256 :: "github_asset \<Rightarrow> gerr + string" where
  "assetSHA256 a =
     (let v = trimPrefix (ga_Digest a) ''sha256:'' in
      if ga_Digest a = v then Inl (Leaf (''asset '' @ goQuote (ga_Name a) @ '' has no SHA256 digest''))
      else case validHex v 64 of
        Some e \<Rightarrow> Inl (errorf (''asset '' @ goQuote (ga_Name a) @ '' digest: '') e)
      | None \<Rightarrow> Inr (toLower v))"

definition releaseDigest :: "github_release \<Rightarrow> string \<Rightarrow> gerr + string" where
  "releaseDigest r name =
     (case find (\<lambda>a. ga_Name a = name) (gr_Assets r) of
        None \<Rightarrow> Inl (Leaf (''release asset '' @ goQuote name @ '' not found''))
      | Some a \<Rightarrow> assetSHA256 a)"

definition githubRelease :: "updater_env \<Rightarrow> string \<Rightarrow> gerr + github_release" where
  "githubRelease u repo =
     (case doJSON u (ue_release u) (''https://api.github.com/repos/'' @ repo @ ''/releases/latest'')
             ((''Accept'', ''application/vnd.github+json'')
              # (if ue_token u = [] then [] else [(''Authorization'', ''Bearer '' @ ue_token u)])) of
        Inl e \<Rightarrow> Inl e
      | Inr r \<Rightarrow> if gr_TagName r = [] then Inl (Leaf ''latest release has no tag'') else Inr r)"

definition registryDigest :: "updater_env \<Rightarrow> base_image \<Rightarrow> gerr + string" where
  "registryDigest u b =
     (case cutAt (bi_Repository b) (CHR ''/'') of (host, name, ok) \<Rightarrow>
      if \<not> ok then Inl (Leaf (''invalid repository '' @ goQuote (bi_Repository b)))
      else
        (let endpoint = ''https://'' @ host @ ''/v2/'' @ name @ ''/manifests/'' @ pathEscape (bi_Tag b) in
         case ue_do u ''HEAD'' endpoint
                [(''Accept'', ''application/vnd.oci.image.index.v1+json, application/vnd.docker.distribution.manifest.list.v2+json'')] of
           Inl e \<Rightarrow> Inl e
         | Inr r \<Rightarrow>
            (case statusErr endpoint r of
               Some e \<Rightarrow> Inl e
             | None \<Rightarrow>
                (let d = toLower (ha_contentDigest r) in
                 if \<not> prefix ''sha256:'' d then Inl (Leaf (''invalid Docker-Content-Digest '' @ goQuote d))
                 else case validHex (trimPrefix d ''sha256:'') 64 of Some e \<Rightarrow> Inl e | None \<Rightarrow> Inr d))))"

section \<open>Refreshing\<close>

definition refreshBases :: "updater_env \<Rightarrow> manifest \<Rightarrow> gerr + manifest" where
  "refreshBases u m =
     (case registryDigest u (mf_LinuxBase m) of
        Inl e \<Rightarrow> Inl (errorf ''Linux base image: '' e)
      | Inr l \<Rightarrow>
         (case registryDigest u (mf_WindowsBase m) of
            Inl e \<Rightarrow> Inl (errorf ''Windows base image: '' e)
          | Inr w \<Rightarrow> Inr (m\<lparr>mf_LinuxBase := (mf_LinuxBase m)\<lparr>bi_Digest := l\<rparr>,
                          mf_WindowsBase := (mf_WindowsBase m)\<lparr>bi_Digest := w\<rparr>\<rparr>)))"

definition refreshRunner :: "updater_env \<Rightarrow> manifest \<Rightarrow> gerr + manifest" where
  "refreshRunner u m =
     (case githubRelease u ''actions/runner'' of
        Inl e \<Rightarrow> Inl (errorf ''actions/runner: '' e)
      | Inr r \<Rightarrow>
         (let version = trimPrefix (gr_TagName r) ''v'' in
          case releaseDigest r (''actions-runner-linux-x64-'' @ version @ ''.tar.gz'') of
            Inl e \<Rightarrow> Inl e
          | Inr x64 \<Rightarrow>
             (case releaseDigest r (''actions-runner-linux-arm64-'' @ version @ ''.tar.gz'') of
                Inl e \<Rightarrow> Inl e
              | Inr arm64 \<Rightarrow>
                 (case releaseDigest r (''actions-runner-win-x64-'' @ version @ ''.zip'') of
                    Inl e \<Rightarrow> Inl e
                  | Inr win \<Rightarrow> Inr (m\<lparr>mf_RunnerVersion := version, mf_RunnerLinuxX64SHA256 := x64,
                                    mf_RunnerLinuxARM64SHA256 := arm64, mf_RunnerWindowsX64SHA256 := win\<rparr>)))))"

definition isMinGit :: "github_asset \<Rightarrow> bool" where
  "isMinGit a \<longleftrightarrow> hasPrefix (ga_Name a) ''MinGit-'' \<and> hasSuffix (ga_Name a) ''-64-bit.zip''
     \<and> \<not> contains (ga_Name a) ''busybox''"

definition refreshPowerShell :: "updater_env \<Rightarrow> manifest \<Rightarrow> gerr + manifest" where
  "refreshPowerShell u m =
     (case githubRelease u ''PowerShell/PowerShell'' of
        Inl e \<Rightarrow> Inl (errorf ''PowerShell: '' e)
      | Inr r \<Rightarrow>
         (let version = trimPrefix (gr_TagName r) ''v'' in
          case releaseDigest r (''PowerShell-'' @ version @ ''-win-x64.zip'') of
            Inl e \<Rightarrow> Inl (errorf ''PowerShell: '' e)
          | Inr d \<Rightarrow> Inr (m\<lparr>mf_PowerShellVersion := version, mf_PowerShellSHA256 := d\<rparr>)))"

definition refreshMinGit :: "updater_env \<Rightarrow> manifest \<Rightarrow> gerr + manifest" where
  "refreshMinGit u m =
     (case githubRelease u ''git-for-windows/git'' of
        Inl e \<Rightarrow> Inl (errorf ''Git for Windows: '' e)
      | Inr r \<Rightarrow>
         (case filter isMinGit (gr_Assets r) of
            [] \<Rightarrow> Inl (Leaf ''Git for Windows release has no MinGit x64 asset'')
          | a # b # _ \<Rightarrow> Inl (Leaf ''Git for Windows release has multiple matching MinGit x64 assets'')
          | [a] \<Rightarrow>
             (case assetSHA256 a of
                Inl e \<Rightarrow> Inl (errorf ''MinGit: '' e)
              | Inr d \<Rightarrow> Inr (m\<lparr>mf_MinGitVersion := trimPrefix (gr_TagName r) ''v'',
                              mf_MinGitURL := ga_BrowserDownloadURL a, mf_MinGitSHA256 := d\<rparr>))))"

definition refreshWindowsMinimal :: "updater_env \<Rightarrow> manifest \<Rightarrow> gerr + manifest" where
  "refreshWindowsMinimal u m = (case refreshPowerShell u m of Inl e \<Rightarrow> Inl e | Inr m1 \<Rightarrow> refreshMinGit u m1)"

section \<open>Node\<close>

text \<open>The loop over the schedule inserts every major that is in its LTS phase.\<close>

definition isLTS :: "string \<Rightarrow> node_lifecycle \<Rightarrow> bool" where
  "isLTS today l \<longleftrightarrow> nl_LTS l \<noteq> [] \<and> nl_LTS l \<le> today \<and> today \<le> nl_End l"

definition emptyNodeRelease :: node_release where
  "emptyNodeRelease = \<lparr>nd_Version = [], nd_EOL = [], nd_LinuxX64SHA256 = [], nd_LinuxARM64SHA256 = [], nd_WindowsX64SHA256 = []\<rparr>"

fun declareLTS :: "string \<Rightarrow> (string \<times> node_lifecycle) list \<Rightarrow> (string \<times> node_release) list \<Rightarrow> (string \<times> node_release) list" where
  "declareLTS today [] rs = rs"
| "declareLTS today ((version, l) # xs) rs =
     (let major = trimPrefix version ''v'' in
      declareLTS today xs
        (if isLTS today l \<and> map_of rs major = None then AList.update major emptyNodeRelease rs else rs))"

definition discoverNodeLTS :: "manifest \<Rightarrow> (string \<times> node_lifecycle) list \<Rightarrow> string \<Rightarrow> gerr + manifest" where
  "discoverNodeLTS m schedule today =
     (if mf_NodeTrack m \<noteq> supportedLTS
      then Inl (Leaf (''unsupported Node tracking policy '' @ goQuote (mf_NodeTrack m)))
      else Inr (m\<lparr>mf_NodeReleases := declareLTS today schedule (mf_NodeReleases m)\<rparr>))"

text \<open>An end-of-life date in the past is only announced.\<close>

definition supported :: "string \<Rightarrow> string \<Rightarrow> gerr option" where
  "supported name eol = failIf (eol = []) (Leaf (name @ '' has no EOL date''))"

definition lookupText :: "(string \<times> string) list \<Rightarrow> string \<Rightarrow> string" where
  "lookupText xs k = (case map_of xs k of None \<Rightarrow> [] | Some v \<Rightarrow> v)"

definition nodeEOL :: "(string \<times> node_lifecycle) list \<Rightarrow> string \<Rightarrow> string" where
  "nodeEOL schedule key = (case map_of schedule (''v'' @ key) of None \<Rightarrow> [] | Some l \<Rightarrow> nl_End l)"

definition newestNode :: "string list \<Rightarrow> string \<Rightarrow> string" where
  "newestNode index key =
     (case find (\<lambda>v. hasPrefix v (''v'' @ key @ ''.'')) index of None \<Rightarrow> [] | Some v \<Rightarrow> trimPrefix v ''v'')"

definition refreshNodeMajor ::
  "updater_env \<Rightarrow> string list \<Rightarrow> (string \<times> node_lifecycle) list \<Rightarrow> string \<Rightarrow> gerr + node_release" where
  "refreshNodeMajor u index schedule key =
     (let eol = nodeEOL schedule key; version = newestNode index key in
      case supported (''Node '' @ key) eol of
        Some e \<Rightarrow> Inl e
      | None \<Rightarrow>
         if version = [] then Inl (Leaf (''Node '' @ key @ '' has no release''))
         else case download u (''https://nodejs.org/dist/v'' @ version @ ''/SHASUMS256.txt'') of
           Inl e \<Rightarrow> Inl (errorf (''Node '' @ version @ '' checksums: '') e)
         | Inr b \<Rightarrow>
            (let sums = checksumManifest b;
                 r = \<lparr>nd_Version = version, nd_EOL = eol,
                      nd_LinuxX64SHA256 = lookupText sums (''node-v'' @ version @ ''-linux-x64.tar.xz''),
                      nd_LinuxARM64SHA256 = lookupText sums (''node-v'' @ version @ ''-linux-arm64.tar.xz''),
                      nd_WindowsX64SHA256 = lookupText sums (''node-v'' @ version @ ''-win-x64.zip'')\<rparr>
             in case validAll (''Node '' @ version) 64
                       [(''linux x64'', nd_LinuxX64SHA256 r), (''linux arm64'', nd_LinuxARM64SHA256 r),
                        (''windows x64'', nd_WindowsX64SHA256 r)] of
                  Some e \<Rightarrow> Inl e
                | None \<Rightarrow> Inr r))"

text \<open>A loop that resolves the keys of a map one after the other and stops at the first error.\<close>

fun eachKey :: "('k \<Rightarrow> gerr + 'v) \<Rightarrow> 'k list \<Rightarrow> gerr + ('k \<times> 'v) list" where
  "eachKey f [] = Inr []"
| "eachKey f (k # ks) =
     (case f k of
        Inl e \<Rightarrow> Inl e
      | Inr v \<Rightarrow> (case eachKey f ks of Inl e \<Rightarrow> Inl e | Inr xs \<Rightarrow> Inr ((k, v) # xs)))"

definition refreshNode :: "updater_env \<Rightarrow> manifest \<Rightarrow> gerr + manifest" where
  "refreshNode u m =
     (case getJSON u (ue_nodeIndex u) ''https://nodejs.org/dist/index.json'' of
        Inl e \<Rightarrow> Inl (errorf ''Node release index: '' e)
      | Inr index \<Rightarrow>
         (case getJSON u (ue_schedule u) ''https://raw.githubusercontent.com/nodejs/Release/main/schedule.json'' of
            Inl e \<Rightarrow> Inl (errorf ''Node release schedule: '' e)
          | Inr schedule \<Rightarrow>
             (case discoverNodeLTS m schedule (ue_today u) of
                Inl e \<Rightarrow> Inl e
              | Inr m1 \<Rightarrow>
                 (case eachKey (refreshNodeMajor u index schedule) (map fst (mf_NodeReleases m1)) of
                    Inl e \<Rightarrow> Inl e
                  | Inr rs \<Rightarrow>
                     (let m2 = m1\<lparr>mf_NodeReleases := rs\<rparr> in
                      if nodeDefaultRelease m2 = None
                      then Inl (Leaf (''Node default major '' @ formatInt (mf_NodeDefaultMajor m2) @ '' is not supported''))
                      else Inr m2)))))"

definition npmCorepack :: "npm_version \<Rightarrow> manifest \<Rightarrow> gerr + manifest" where
  "npmCorepack p m =
     (if np_Version p = [] \<or> np_Tarball p = [] then Inl (Leaf ''registry metadata has no version or tarball'')
      else case integritySHA512Hex (np_Integrity p) of
        Inl e \<Rightarrow> Inl e
      | Inr h \<Rightarrow> Inr (m\<lparr>mf_CorepackVersion := np_Version p, mf_CorepackURL := np_Tarball p, mf_CorepackSHA512 := h\<rparr>))"

definition refreshCorepack :: "updater_env \<Rightarrow> manifest \<Rightarrow> gerr + manifest" where
  "refreshCorepack u m =
     (case getJSON u (ue_npm u) ''https://registry.npmjs.org/corepack/latest'' of
        Inl e \<Rightarrow> Inl (errorf ''Corepack release: '' e)
      | Inr p \<Rightarrow> (case npmCorepack p m of Inl e \<Rightarrow> Inl (errorf ''Corepack release: '' e) | Inr m1 \<Rightarrow> Inr m1))"

section \<open>.NET\<close>

definition isDiscovery :: "manifest \<Rightarrow> string \<Rightarrow> dotnet_index_channel \<Rightarrow> bool" where
  "isDiscovery m today c \<longleftrightarrow>
     map_of (mf_Channels m) (di_Channel c) = None \<and> di_ReleaseType c \<in> set (mf_TrackReleaseTypes m)
     \<and> (di_SupportPhase c = ''active'' \<or> di_SupportPhase c = ''maintenance'') \<and> today \<le> di_EOL c"

definition discoverDotNetChannels :: "manifest \<Rightarrow> dotnet_index_channel list \<Rightarrow> string \<Rightarrow> manifest" where
  "discoverDotNetChannels m candidates today =
     m\<lparr>mf_Unassigned := sort_key dd_Channel
        (map (\<lambda>c. \<lparr>dd_Channel = di_Channel c, dd_ReleaseType = di_ReleaseType c, dd_SupportPhase = di_SupportPhase c,
                   dd_EOL = di_EOL c, dd_LatestSDK = di_LatestSDK c\<rparr>)
          (filter (isDiscovery m today) candidates))\<rparr>"

text \<open>The archives of the latest SDK; a later file overrides an earlier one.\<close>

fun dotnetFiles :: "dotnet_file list \<Rightarrow> dotnet_channel \<Rightarrow> dotnet_channel" where
  "dotnetFiles [] r = r"
| "dotnetFiles (f # fs) r = dotnetFiles fs
     (if df_RID f = ''linux-x64'' \<and> hasSuffix (df_URL f) ''.tar.gz'' then r\<lparr>dn_LinuxX64SHA512 := toLower (df_Hash f)\<rparr>
      else if df_RID f = ''linux-arm64'' \<and> hasSuffix (df_URL f) ''.tar.gz'' then r\<lparr>dn_LinuxARM64SHA512 := toLower (df_Hash f)\<rparr>
      else if df_RID f = ''win-x64'' \<and> hasSuffix (df_URL f) ''.zip'' then r\<lparr>dn_WindowsX64SHA512 := toLower (df_Hash f)\<rparr>
      else r)"

definition resolvedChannel :: "string list \<Rightarrow> dotnet_index_channel \<Rightarrow> dotnet_releases \<Rightarrow> dotnet_channel" where
  "resolvedChannel targets meta rel =
     dotnetFiles (concat (map snd (filter (\<lambda>(v, fs). v = dr_LatestSDK rel) (dr_Releases rel))))
       \<lparr>dn_Targets = targets, dn_ReleaseType = di_ReleaseType meta, dn_Version = dr_LatestSDK rel, dn_EOL = di_EOL meta,
        dn_SupportPhase = di_SupportPhase meta, dn_LinuxX64SHA512 = [], dn_LinuxARM64SHA512 = [], dn_WindowsX64SHA512 = []\<rparr>"

definition channelTargets :: "manifest \<Rightarrow> string \<Rightarrow> string list" where
  "channelTargets m channel = (case map_of (mf_Channels m) channel of None \<Rightarrow> [] | Some r \<Rightarrow> dn_Targets r)"

definition refreshDotNetChannel ::
  "updater_env \<Rightarrow> dotnet_index_channel list \<Rightarrow> (string \<Rightarrow> string list) \<Rightarrow> string \<Rightarrow> gerr + dotnet_channel" where
  "refreshDotNetChannel u index targets channel =
     (case find (\<lambda>c. di_Channel c = channel) (rev index) of
        None \<Rightarrow> Inl (Leaf (''.NET channel '' @ channel @ '' is absent from the release index''))
      | Some meta \<Rightarrow>
         (case supported (''.NET '' @ channel) (di_EOL meta) of
            Some e \<Rightarrow> Inl e
          | None \<Rightarrow>
             (case getJSON u (ue_dotnetReleases u) (di_ReleasesURL meta) of
                Inl e \<Rightarrow> Inl (errorf (''.NET '' @ channel @ '' releases: '') e)
              | Inr rel \<Rightarrow>
                 (let r = resolvedChannel (targets channel) meta rel in
                  case validAll (''.NET '' @ channel) 128
                         [(''linux x64'', dn_LinuxX64SHA512 r), (''linux arm64'', dn_LinuxARM64SHA512 r),
                          (''windows x64'', dn_WindowsX64SHA512 r)] of
                    Some e \<Rightarrow> Inl e
                  | None \<Rightarrow> Inr r))))"

definition refreshDotNet :: "updater_env \<Rightarrow> manifest \<Rightarrow> gerr + manifest" where
  "refreshDotNet u m =
     (case getJSON u (ue_dotnetIndex u) ''https://dotnetcli.blob.core.windows.net/dotnet/release-metadata/releases-index.json'' of
        Inl e \<Rightarrow> Inl (errorf ''.NET release index: '' e)
      | Inr index \<Rightarrow>
         (let m1 = discoverDotNetChannels m index (ue_today u) in
          case eachKey (refreshDotNetChannel u index (channelTargets m1)) (map fst (mf_Channels m1)) of
            Inl e \<Rightarrow> Inl e
          | Inr cs \<Rightarrow> Inr (m1\<lparr>mf_Channels := cs\<rparr>)))"

section \<open>Go, Rust and Build Tools\<close>

text \<open>The archives of a release for Linux on two platforms and for Windows; a later file overrides an earlier one.\<close>

fun goFiles :: "go_file list \<Rightarrow> string \<times> string \<times> string \<Rightarrow> string \<times> string \<times> string" where
  "goFiles [] r = r"
| "goFiles (f # fs) (x64, arm64, win) = goFiles fs
     (let platform = gf_OS f @ ''/'' @ gf_Arch f in
      if gf_Kind f \<noteq> ''archive'' then (x64, arm64, win)
      else if platform = ''linux/amd64'' then (gf_SHA256 f, arm64, win)
      else if platform = ''linux/arm64'' then (x64, gf_SHA256 f, win)
      else if platform = ''windows/amd64'' then (x64, arm64, gf_SHA256 f)
      else (x64, arm64, win))"

definition refreshGo :: "updater_env \<Rightarrow> manifest \<Rightarrow> gerr + manifest" where
  "refreshGo u m =
     (case getJSON u (ue_goReleases u) ''https://go.dev/dl/?mode=json&include=all'' of
        Inl e \<Rightarrow> Inl (errorf ''Go releases: '' e)
      | Inr rs \<Rightarrow>
         (case find go_Stable rs of
            None \<Rightarrow> Inl (Leaf ''Go has no stable release'')
          | Some r \<Rightarrow>
             (let version = trimPrefix (go_Version r) ''go'' in
              case goFiles (go_Files r) ([], [], []) of (x64, arm64, win) \<Rightarrow>
                (case validAll (''Go '' @ version) 64 [(''linux amd64'', x64), (''linux arm64'', arm64), (''windows amd64'', win)] of
                   Some e \<Rightarrow> Inl e
                 | None \<Rightarrow> Inr (m\<lparr>mf_GoVersion := version, mf_GoLinuxAMD64SHA256 := x64,
                                 mf_GoLinuxARM64SHA256 := arm64, mf_GoWindowsAMD64SHA256 := win\<rparr>)))))"

text \<open>Both checksum files are read before either is looked at.\<close>

definition rustupChecksums :: "updater_env \<Rightarrow> string \<Rightarrow> gerr + string \<times> string" where
  "rustupChecksums u version =
     (let archive = ''https://static.rust-lang.org/rustup/archive/'' @ version @ ''/'' in
      case download u (archive @ ''x86_64-unknown-linux-gnu/rustup-init.sha256'') of
        Inl e \<Rightarrow> Inl (errorf ''rustup x64 checksum: '' e)
      | Inr x64 \<Rightarrow>
         (case download u (archive @ ''aarch64-unknown-linux-gnu/rustup-init.sha256'') of
            Inl e \<Rightarrow> Inl (errorf ''rustup arm64 checksum: '' e)
          | Inr arm64 \<Rightarrow>
             (case (fieldsOf x64, fieldsOf arm64) of
                (a # _, b # _) \<Rightarrow> Inr (a, b)
              | _ \<Rightarrow> Inl (Leaf ''rustup checksum response is empty''))))"

definition refreshRust :: "updater_env \<Rightarrow> manifest \<Rightarrow> gerr + manifest" where
  "refreshRust u m =
     (case download u (''https://static.rust-lang.org/dist/channel-rust-'' @ mf_RustChannel m @ ''.toml'') of
        Inl e \<Rightarrow> Inl (errorf ''Rust channel manifest: '' e)
      | Inr b \<Rightarrow>
         if rustVersion b = [] then Inl (Leaf ''Rust channel manifest has no pkg.rust version'')
         else case download u ''https://static.rust-lang.org/rustup/release-stable.toml'' of
           Inl e \<Rightarrow> Inl (errorf ''rustup release channel: '' e)
         | Inr toml \<Rightarrow>
            if rustupReleaseVersion toml = [] then Inl (Leaf ''rustup release channel has no version'')
            else case rustupChecksums u (rustupReleaseVersion toml) of
              Inl e \<Rightarrow> Inl e
            | Inr (x64, arm64) \<Rightarrow>
                Inr (m\<lparr>mf_RustVersion := rustVersion b, mf_RustupVersion := rustupReleaseVersion toml,
                       mf_RustupX64SHA256 := x64, mf_RustupARM64SHA256 := arm64\<rparr>))"

definition refreshBuildToolsLine :: "updater_env \<Rightarrow> string \<Rightarrow> buildtools_line \<Rightarrow> gerr + buildtools_line" where
  "refreshBuildToolsLine u line release =
     (let base = ''https://aka.ms/vs/'' @ bt_Channel release @ ''/''; what = ''Visual Studio Build Tools '' @ line in
      case downloadSHA256 u (base @ ''vs_buildtools.exe'') False of
        Inl e \<Rightarrow> Inl (errorf (what @ '' bootstrapper: '') e)
      | Inr (bootSHA, bootURL, _) \<Rightarrow>
         (case downloadSHA256 u (base @ ''channel'') True of
            Inl e \<Rightarrow> Inl (errorf (what @ '' channel: '') e)
          | Inr (chSHA, chURL, b) \<Rightarrow>
             (case ue_vsChannel u b of
                Inl e \<Rightarrow> Inl (errorf (''decode '' @ what @ '' channel: '') e)
              | Inr display \<Rightarrow>
                 (case fieldsOf display of
                    [] \<Rightarrow> Inl (Leaf (what @ '' channel has unexpected product version '' @ goQuote display))
                  | v # _ \<Rightarrow>
                      if \<not> hasPrefix v (line @ ''.'')
                      then Inl (Leaf (what @ '' channel has unexpected product version '' @ goQuote display))
                      else Inr (release\<lparr>bt_ReleaseLine := line, bt_Version := v, bt_BootstrapperURL := bootURL,
                                  bt_BootstrapperSHA256 := bootSHA, bt_ChannelURL := chURL, bt_ChannelSHA256 := chSHA\<rparr>)))))"

fun refreshLines :: "updater_env \<Rightarrow> string list \<Rightarrow> (string \<times> buildtools_line) list \<Rightarrow> gerr + (string \<times> buildtools_line) list" where
  "refreshLines u [] ls = Inr ls"
| "refreshLines u (line # lines) ls =
     (case map_of ls line of
        None \<Rightarrow> refreshLines u lines ls
      | Some release \<Rightarrow>
         (case refreshBuildToolsLine u line release of
            Inl e \<Rightarrow> Inl e
          | Inr r \<Rightarrow> refreshLines u lines (AList.update line r ls)))"

definition refreshBuildTools :: "updater_env \<Rightarrow> manifest \<Rightarrow> gerr + manifest" where
  "refreshBuildTools u m =
     (case refreshLines u (ReleaseLines m) (mf_BuildToolsLines m) of
        Inl e \<Rightarrow> Inl e
      | Inr ls \<Rightarrow> Inr (m\<lparr>mf_BuildToolsLines := ls\<rparr>))"

fun refreshSteps :: "(manifest \<Rightarrow> gerr + manifest) list \<Rightarrow> manifest \<Rightarrow> gerr + manifest" where
  "refreshSteps [] m = Inr m"
| "refreshSteps (f # fs) m = (case f m of Inl e \<Rightarrow> Inl e | Inr m1 \<Rightarrow> refreshSteps fs m1)"

definition refresh :: "updater_env \<Rightarrow> manifest \<Rightarrow> gerr + manifest" where
  "refresh u = refreshSteps
     [refreshBases u, refreshRunner u, refreshWindowsMinimal u, refreshNode u, refreshCorepack u,
      refreshDotNet u, refreshGo u, refreshRust u, refreshBuildTools u]"

section \<open>Files\<close>

text \<open>Every system call takes its result from the list of faults, and succeeds when it is used up.\<close>

record repo_world =
  rw_files :: "(string \<times> string) list"
  rw_faults :: "gerr option list"

definition sysCall :: "repo_world \<Rightarrow> gerr option \<times> repo_world" where
  "sysCall w = (case rw_faults w of [] \<Rightarrow> (None, w) | e # es \<Rightarrow> (e, w\<lparr>rw_faults := es\<rparr>))"

fun sysCalls :: "nat \<Rightarrow> repo_world \<Rightarrow> gerr option \<times> repo_world" where
  "sysCalls 0 w = (None, w)"
| "sysCalls (Suc n) w = (case sysCall w of (Some e, w1) \<Rightarrow> (Some e, w1) | (None, w1) \<Rightarrow> sysCalls n w1)"

definition readFile :: "repo_world \<Rightarrow> string \<Rightarrow> (gerr + string) \<times> repo_world" where
  "readFile w path =
     (case sysCall w of
        (Some e, w1) \<Rightarrow> (Inl e, w1)
      | (None, w1) \<Rightarrow>
         (case map_of (rw_files w1) (pathClean path) of
            None \<Rightarrow> (Inl (Sent OsErrNotExist ''file does not exist''), w1)
          | Some s \<Rightarrow> (Inr s, w1)))"

definition ReadForUpdate :: "updater_env \<Rightarrow> repo_world \<Rightarrow> string \<Rightarrow> (gerr + manifest) \<times> repo_world" where
  "ReadForUpdate u w path =
     (case readFile w path of
        (Inl e, w1) \<Rightarrow> (Inl e, w1)
      | (Inr b, w1) \<Rightarrow>
         (case ue_decode u b of
            Inl e \<Rightarrow> (Inl e, w1)
          | Inr m \<Rightarrow> (case ValidatePolicy m of Some e \<Rightarrow> (Inl e, w1) | None \<Rightarrow> (Inr m, w1))))"

text \<open>\<open>strings.SplitAfter\<close> of a newline: every piece but the last ends with it.\<close>

fun splitAfter :: "string \<Rightarrow> string list" where
  "splitAfter [] = [[]]"
| "splitAfter (c # cs) =
     (if c = CHR 0x0A then [c] # splitAfter cs
      else (case splitAfter cs of [] \<Rightarrow> [[c]] | l # ls \<Rightarrow> (c # l) # ls))"

definition trimmedLine :: "string \<Rightarrow> string" where
  "trimmedLine line = trimSuffix (trimSuffix line newline) [CHR 0x0D]"

definition isBaseArg :: "string \<Rightarrow> bool" where
  "isBaseArg line = hasPrefix (trimmedLine line) ''ARG BASE=''"

definition rewriteLine :: "string \<Rightarrow> string \<Rightarrow> string" where
  "rewriteLine reference line =
     (if isBaseArg line then ''ARG BASE='' @ reference @ trimPrefix line (trimmedLine line) else line)"

definition replaceBaseArg :: "string \<Rightarrow> string \<Rightarrow> gerr + string" where
  "replaceBaseArg data reference =
     (let ls = splitAfter data; n = countOf isBaseArg ls in
      if n \<noteq> 1 then Inl (Leaf (''expected one ARG BASE line, found '' @ natDigits n))
      else Inr (concat (map (rewriteLine reference) ls)))"

text \<open>
  The new content goes to a temporary file (create, chmod, write, sync and close) that a rename moves
  over the target. The result of \<open>os.Stat\<close> only gives the mode.
\<close>

definition replaceFile :: "repo_world \<Rightarrow> string \<Rightarrow> string \<Rightarrow> gerr option \<times> repo_world" where
  "replaceFile w path data =
     (case sysCall (snd (sysCall w)) of
        (Some e, w1) \<Rightarrow> (Some (errorf (''create temporary file for '' @ path @ '': '') e), w1)
      | (None, w1) \<Rightarrow>
         (case sysCalls 4 w1 of
            (Some e, w2) \<Rightarrow> (Some e, w2)
          | (None, w2) \<Rightarrow>
             (case sysCall w2 of
                (Some e, w3) \<Rightarrow> (Some (errorf (''replace '' @ path @ '': '') e), w3)
              | (None, w3) \<Rightarrow> (None, w3\<lparr>rw_files := AList.update (pathClean path) data (rw_files w3)\<rparr>))))"

definition writeIfChanged :: "repo_world \<Rightarrow> string \<Rightarrow> string \<Rightarrow> gerr option \<times> repo_world" where
  "writeIfChanged w path data =
     (case readFile w path of
        (Inr current, w1) \<Rightarrow> if current = data then (None, w1) else replaceFile w1 path data
      | (Inl e, w1) \<Rightarrow>
          if \<not> errIs OsErrNotExist e then (Some (errorf (''read '' @ path @ '': '') e), w1)
          else replaceFile w1 path data)"

fun dockerUpdates :: "repo_world \<Rightarrow> (string \<times> string) list \<Rightarrow> (gerr + (string \<times> string) list) \<times> repo_world" where
  "dockerUpdates w [] = (Inr [], w)"
| "dockerUpdates w ((path, base) # ds) =
     (case readFile w path of
        (Inl e, w1) \<Rightarrow> (Inl (errorf (''read '' @ path @ '': '') e), w1)
      | (Inr data, w1) \<Rightarrow>
         (case replaceBaseArg data base of
            Inl e \<Rightarrow> (Inl (errorf (''update '' @ path @ '': '') e), w1)
          | Inr data' \<Rightarrow>
             (case dockerUpdates w1 ds of
                (Inl e, w2) \<Rightarrow> (Inl e, w2)
              | (Inr us, w2) \<Rightarrow> (Inr ((path, data') # us), w2))))"

fun writeAll :: "repo_world \<Rightarrow> (string \<times> string) list \<Rightarrow> gerr option \<times> repo_world" where
  "writeAll w [] = (None, w)"
| "writeAll w ((path, data) # us) =
     (case writeIfChanged w path data of (Some e, w1) \<Rightarrow> (Some e, w1) | (None, w1) \<Rightarrow> writeAll w1 us)"

definition dockerfiles :: "string \<Rightarrow> manifest \<Rightarrow> (string \<times> string) list" where
  "dockerfiles path m =
     [(pathJoin (pathDir path) ''linux/Dockerfile'', baseReference (mf_LinuxBase m)),
      (pathJoin (pathDir path) ''windows/Dockerfile'', baseReference (mf_WindowsBase m))]"

text \<open>\<open>run\<close> up to its report; \<open>json.MarshalIndent\<close> is followed by a newline.\<close>

definition run :: "updater_env \<Rightarrow> repo_world \<Rightarrow> string \<Rightarrow> gerr option \<times> repo_world" where
  "run u w path =
     (case ReadForUpdate u w path of
        (Inl e, w1) \<Rightarrow> (Some (errorf (''read '' @ path @ '': '') e), w1)
      | (Inr m0, w1) \<Rightarrow>
         (case refresh u m0 of
            Inl e \<Rightarrow> (Some e, w1)
          | Inr m \<Rightarrow>
             (case manifestValidate m of
                Some e \<Rightarrow> (Some (errorf ''validate refreshed manifest: '' e), w1)
              | None \<Rightarrow>
                 (case ue_encode u m of
                    Inl e \<Rightarrow> (Some (errorf ''encode manifest: '' e), w1)
                  | Inr json \<Rightarrow>
                     (case dockerUpdates w1 (dockerfiles path m) of
                        (Inl e, w2) \<Rightarrow> (Some e, w2)
                      | (Inr us, w2) \<Rightarrow> writeAll w2 ((path, json @ newline) # us))))))"

section \<open>The Dockerfiles\<close>

lemma splitAfter_not_Nil [simp]: "splitAfter s \<noteq> []"
  by (induction s) (auto split: list.splits)

lemma splitAfter_concat [simp]: "concat (splitAfter s) = s"
  by (induction s) (auto split: list.splits)

text \<open>Every piece but the last ends with its only newline; the last has none.\<close>

definition lineShape :: "string list \<Rightarrow> bool" where
  "lineShape ls \<longleftrightarrow> ls \<noteq> [] \<and> CHR 0x0A \<notin> set (last ls)
     \<and> (\<forall>l \<in> set (butlast ls). \<exists>t. l = t @ newline \<and> CHR 0x0A \<notin> set t)"

lemma splitAfter_shape: "lineShape (splitAfter s)"
proof (induction s)
  case (Cons c s)
  obtain l ls where s: "splitAfter s = l # ls" by (cases "splitAfter s") auto
  show ?case
  proof (cases "c = CHR 0x0A")
    case True
    then show ?thesis using Cons s by (auto simp: lineShape_def newline_def)
  next
    case False
    have "\<exists>t. c # l = t @ newline \<and> CHR 0x0A \<notin> set t" if "ls \<noteq> []"
    proof -
      obtain t where "l = t @ newline" "CHR 0x0A \<notin> set t" using Cons s \<open>ls \<noteq> []\<close> by (auto simp: lineShape_def)
      then show ?thesis using False by (intro exI[of _ "c # t"]) simp
    qed
    then show ?thesis using Cons s False by (auto simp: lineShape_def split: if_splits)
  qed
qed (simp add: lineShape_def)

lemma splitAfter_line: "CHR 0x0A \<notin> set t \<Longrightarrow> splitAfter (t @ newline @ s) = (t @ newline) # splitAfter s"
  by (induction t) (auto simp: newline_def)

lemma splitAfter_last: "CHR 0x0A \<notin> set t \<Longrightarrow> splitAfter t = [t]"
  by (induction t) auto

lemma splitAfter_of_shape: "lineShape ls \<Longrightarrow> splitAfter (concat ls) = ls"
proof (induction ls)
  case (Cons l ls)
  show ?case
  proof (cases "ls = []")
    case True
    then show ?thesis using Cons.prems by (simp add: lineShape_def splitAfter_last)
  next
    case False
    then obtain t where t: "l = t @ newline" "CHR 0x0A \<notin> set t" using Cons.prems by (auto simp: lineShape_def)
    have "lineShape ls" using Cons.prems False by (auto simp: lineShape_def)
    then show ?thesis using Cons.IH splitAfter_line[OF t(2), of "concat ls"] t(1) by simp
  qed
qed (simp add: lineShape_def)

lemma trimSuffix_split: "\<exists>e. s = trimSuffix s p @ e \<and> (e = [] \<or> e = p)"
  by (auto simp: trimSuffix_def suffix_def)

lemma trimmed_ending:
  assumes "l = t \<or> l = t @ newline" and "CHR 0x0A \<notin> set t"
  obtains e where "l = trimmedLine l @ e" "e \<in> {[], newline, [CHR 0x0D], CHR 0x0D # newline}" "CHR 0x0A \<notin> set (trimmedLine l)"
proof -
  obtain e1 where e1: "l = trimSuffix l newline @ e1" "e1 = [] \<or> e1 = newline" using trimSuffix_split by blast
  obtain e2 where e2: "trimSuffix l newline = trimmedLine l @ e2" "e2 = [] \<or> e2 = [CHR 0x0D]"
    using trimSuffix_split[of "trimSuffix l newline" "[CHR 0x0D]"] unfolding trimmedLine_def by blast
  have "trimSuffix l newline = t"
    using assms by (auto simp: trimSuffix_def suffix_def newline_def)
  then have "CHR 0x0A \<notin> set (trimmedLine l)" using e2 assms(2) by auto
  then show ?thesis using that[of "e2 @ e1"] e1 e2 by (auto simp: newline_def)
qed

lemma trimmed_append:
  assumes "e \<in> {[], newline, [CHR 0x0D], CHR 0x0D # newline}" and "CHR 0x0A \<notin> set t" and "t = [] \<or> last t \<noteq> CHR 0x0D"
  shows "trimmedLine (t @ e) = t"
proof -
  have nl: "\<not> suffix newline t" using assms(2) by (auto simp: suffix_def newline_def)
  have cr: "\<not> suffix [CHR 0x0D] t" using assms(3) by (auto simp: suffix_def)
  have "\<not> suffix newline (t @ [CHR 0x0D])" by (auto simp: suffix_def newline_def)
  then have a: "trimSuffix (t @ [CHR 0x0D]) newline = t @ [CHR 0x0D]" by (simp only: trimSuffix_def if_False)
  have b: "trimSuffix t newline = t" and c: "trimSuffix t [CHR 0x0D] = t" using nl cr by (simp_all add: trimSuffix_def)
  have d: "trimSuffix (t @ CHR 0x0D # newline) newline = t @ [CHR 0x0D]"
    using trimSuffix_append[of "t @ [CHR 0x0D]" newline] by simp
  show ?thesis using assms(1) by (auto simp: trimmedLine_def a b c d)
qed

text \<open>One line \<open>ARG BASE=\<close> is given the new reference; its ending and everything else stay.\<close>

definition baseReplaced :: "string \<Rightarrow> string \<Rightarrow> string \<Rightarrow> bool" where
  "baseReplaced reference data data' \<longleftrightarrow>
     (\<exists>before old after. data = before @ ''ARG BASE='' @ old @ after \<and> data' = before @ ''ARG BASE='' @ reference @ after
        \<and> (before = [] \<or> last before = CHR 0x0A) \<and> CHR 0x0A \<notin> set old
        \<and> (after = [] \<or> hd after \<in> {CHR 0x0A, CHR 0x0D}))"

lemma countOf_one:
  "countOf p xs = 1 \<Longrightarrow> \<exists>as x bs. xs = as @ x # bs \<and> p x \<and> (\<forall>a \<in> set as. \<not> p a) \<and> (\<forall>b \<in> set bs. \<not> p b)"
proof (induction xs)
  case (Cons y ys)
  show ?case
  proof (cases "p y")
    case True
    then have "countOf p ys = 0" using Cons.prems by simp
    then have "\<forall>b \<in> set ys. \<not> p b" by (auto simp: countOf_def filter_empty_conv)
    then show ?thesis using True by (intro exI[of _ "[]"] exI[of _ y] exI[of _ ys]) simp
  next
    case False
    then obtain as x bs where "ys = as @ x # bs" "p x" "\<forall>a \<in> set as. \<not> p a" "\<forall>b \<in> set bs. \<not> p b"
      using Cons by auto
    then show ?thesis using False by (intro exI[of _ "y # as"] exI[of _ x] exI[of _ bs]) simp
  qed
qed simp

lemma replaceBaseArg_shape:
  assumes "replaceBaseArg data reference = Inr data'"
  obtains as l bs e old where "splitAfter data = as @ l # bs" "l = ''ARG BASE='' @ old @ e" "CHR 0x0A \<notin> set old"
    "e \<in> {[], newline, [CHR 0x0D], CHR 0x0D # newline}" "data' = concat as @ (''ARG BASE='' @ reference @ e) @ concat bs"
    "\<forall>x \<in> set (as @ bs). \<not> isBaseArg x"
proof -
  have n: "countOf isBaseArg (splitAfter data) = 1" and d: "data' = concat (map (rewriteLine reference) (splitAfter data))"
    using assms by (auto simp: replaceBaseArg_def Let_def split: if_splits)
  obtain as l bs where s: "splitAfter data = as @ l # bs" and l: "isBaseArg l"
      and o: "\<forall>a \<in> set as. \<not> isBaseArg a" "\<forall>b \<in> set bs. \<not> isBaseArg b"
    using countOf_one[OF n] by auto
  have "\<exists>t. (l = t \<or> l = t @ newline) \<and> CHR 0x0A \<notin> set t"
    using splitAfter_shape[of data] s by (cases "bs = []") (auto simp: lineShape_def butlast_append)
  then obtain e where e: "l = trimmedLine l @ e" "e \<in> {[], newline, [CHR 0x0D], CHR 0x0D # newline}" "CHR 0x0A \<notin> set (trimmedLine l)"
    using trimmed_ending by blast
  obtain old where old: "trimmedLine l = ''ARG BASE='' @ old" using l by (auto simp: isBaseArg_def prefix_def)
  have "trimPrefix l (trimmedLine l) = e" using e(1) trimPrefix_append[of "trimmedLine l" e] by simp
  then have r: "rewriteLine reference l = ''ARG BASE='' @ reference @ e" using l by (simp add: rewriteLine_def)
  have same: "map (rewriteLine reference) xs = xs" if "\<forall>x \<in> set xs. \<not> isBaseArg x" for xs
    using that by (induction xs) (auto simp: rewriteLine_def)
  show ?thesis
    by (rule that[of as l bs old e])
       (use s e old r d o same in \<open>auto simp: same\<close>)
qed

lemma shape_last: "lineShape (as @ l # bs) \<Longrightarrow> as = [] \<or> concat as \<noteq> [] \<and> last (concat as) = CHR 0x0A"
  by (cases as rule: rev_cases) (auto simp: lineShape_def butlast_append newline_def)

lemma shape_middle:
  "lineShape (as @ l # bs) \<longleftrightarrow>
     (\<forall>x \<in> set as. \<exists>t. x = t @ newline \<and> CHR 0x0A \<notin> set t)
     \<and> (if bs = [] then CHR 0x0A \<notin> set l else (\<exists>t. l = t @ newline \<and> CHR 0x0A \<notin> set t) \<and> lineShape bs)"
  by (cases "bs = []") (auto simp: lineShape_def butlast_append)

lemma line_ending:
  assumes "e \<in> {[], newline, [CHR 0x0D], CHR 0x0D # newline}" and "CHR 0x0A \<notin> set t"
  shows "CHR 0x0A \<notin> set (t @ e) \<longleftrightarrow> e \<in> {[], [CHR 0x0D]}"
    and "(\<exists>s. t @ e = s @ newline \<and> CHR 0x0A \<notin> set s) \<longleftrightarrow> e \<in> {newline, CHR 0x0D # newline}"
proof -
  show "CHR 0x0A \<notin> set (t @ e) \<longleftrightarrow> e \<in> {[], [CHR 0x0D]}" using assms by (auto simp: newline_def)
  have "t @ CHR 0x0D # newline = (t @ [CHR 0x0D]) @ newline" by simp
  then have a: "\<exists>s. t @ e = s @ newline \<and> CHR 0x0A \<notin> set s" if "e = CHR 0x0D # newline"
    using that assms(2) by (intro exI[of _ "t @ [CHR 0x0D]"]) simp
  have "CHR 0x0A \<in> set (s @ newline)" for s by (simp add: newline_def)
  then have "e \<in> {newline, CHR 0x0D # newline}" if "t @ e = s @ newline" for s
    using that assms by (auto dest!: arg_cong[of _ _ "\<lambda>x. CHR 0x0A \<in> set x"])
  then show "(\<exists>s. t @ e = s @ newline \<and> CHR 0x0A \<notin> set s) \<longleftrightarrow> e \<in> {newline, CHR 0x0D # newline}"
    using a assms(2) by auto
qed

lemma shape_replace:
  assumes "lineShape (as @ (t @ e) # bs)" and "e \<in> {[], newline, [CHR 0x0D], CHR 0x0D # newline}"
    and "CHR 0x0A \<notin> set t" and "CHR 0x0A \<notin> set t'"
  shows "lineShape (as @ (t' @ e) # bs)" and "e = [] \<Longrightarrow> bs = []"
  using assms(1) line_ending[OF assms(2,3)] line_ending[OF assms(2,4)]
  by (auto simp only: shape_middle newline_def split: if_splits)

lemma replaceBaseArg_replaced: "replaceBaseArg data reference = Inr data' \<Longrightarrow> baseReplaced reference data data'"
proof (elim replaceBaseArg_shape)
  fix as l bs e old
  assume h: "splitAfter data = as @ l # bs" "l = ''ARG BASE='' @ old @ e" "CHR 0x0A \<notin> set old"
    "e \<in> {[], newline, [CHR 0x0D], CHR 0x0D # newline}" "data' = concat as @ (''ARG BASE='' @ reference @ e) @ concat bs"
  have d: "data = concat as @ ''ARG BASE='' @ old @ e @ concat bs"
    using splitAfter_concat[of data] h(1,2) by simp
  have sh: "lineShape (as @ l # bs)" using splitAfter_shape[of data] h(1) by simp
  have "e @ concat bs = [] \<or> hd (e @ concat bs) \<in> {CHR 0x0A, CHR 0x0D}"
  proof (cases "e = []")
    case True
    then have "bs = []" using shape_replace(2)[of as "''ARG BASE='' @ old" e bs] sh h(2,3,4) by simp
    then show ?thesis using True by simp
  qed (use h(4) in \<open>auto simp: newline_def\<close>)
  then show "baseReplaced reference data data'"
    using d h(3,5) shape_last[OF sh] unfolding baseReplaced_def
    by (intro exI[of _ "concat as"] exI[of _ old] exI[of _ "e @ concat bs"]) auto
qed

lemma replaceBaseArg_again:
  assumes "replaceBaseArg data reference = Inr data'" and "CHR 0x0A \<notin> set reference" and "reference \<noteq> []" and "last reference \<noteq> CHR 0x0D"
  shows "replaceBaseArg data' reference = Inr data'"
  using assms(1)
proof (elim replaceBaseArg_shape)
  fix as l bs e old
  let ?l = "''ARG BASE='' @ reference @ e"
  assume h: "splitAfter data = as @ l # bs" "l = ''ARG BASE='' @ old @ e" "CHR 0x0A \<notin> set old"
    "e \<in> {[], newline, [CHR 0x0D], CHR 0x0D # newline}" "data' = concat as @ ?l @ concat bs" "\<forall>x \<in> set (as @ bs). \<not> isBaseArg x"
  have sh: "lineShape (as @ l # bs)" using splitAfter_shape[of data] h(1) by simp
  have "lineShape (as @ ?l # bs)"
    using shape_replace(1)[of as "''ARG BASE='' @ old" e bs "''ARG BASE='' @ reference"] sh h(2,3,4) assms(2) by simp
  then have s: "splitAfter data' = as @ ?l # bs" using splitAfter_of_shape[of "as @ ?l # bs"] h(5) by simp
  have t: "trimmedLine ?l = ''ARG BASE='' @ reference"
    using trimmed_append[OF h(4), of "''ARG BASE='' @ reference"] assms by simp
  then have b: "isBaseArg ?l" by (simp add: isBaseArg_def)
  have r: "rewriteLine reference ?l = ?l"
    using b t trimPrefix_append[of "''ARG BASE='' @ reference" e] by (simp add: rewriteLine_def)
  have m: "map (rewriteLine reference) xs = xs" if "\<forall>x \<in> set xs. \<not> isBaseArg x" for xs
    using that by (induction xs) (auto simp: rewriteLine_def)
  have c: "countOf isBaseArg xs = 0" if "\<forall>x \<in> set xs. \<not> isBaseArg x" for xs
    using that by (induction xs) auto
  have "\<forall>x \<in> set as. \<not> isBaseArg x" "\<forall>x \<in> set bs. \<not> isBaseArg x" using h(6) by auto
  then have "countOf isBaseArg (splitAfter data') = 1" "map (rewriteLine reference) (splitAfter data') = splitAfter data'"
    using b r by (simp_all only: s countOf_append countOf_Cons c m map_append list.map if_True)
  then show "replaceBaseArg data' reference = Inr data'" by (simp add: replaceBaseArg_def Let_def)
qed

section \<open>What a run writes\<close>

lemma sysCall_files: "sysCall w = (e, w1) \<Longrightarrow> rw_files w1 = rw_files w"
  by (auto simp: sysCall_def split: list.splits)

lemma sysCalls_files: "sysCalls n w = (e, w1) \<Longrightarrow> rw_files w1 = rw_files w"
  by (induction n arbitrary: w) (auto dest: sysCall_files split: prod.splits option.splits)

lemma readFile_files: "readFile w p = (r, w1) \<Longrightarrow> rw_files w1 = rw_files w"
  by (auto simp: readFile_def dest: sysCall_files split: prod.splits option.splits)

lemma readFile_Inr: "readFile w p = (Inr s, w1) \<Longrightarrow> map_of (rw_files w) (pathClean p) = Some s"
  by (auto simp: readFile_def dest: sysCall_files split: prod.splits option.splits)

lemma dockerUpdates_files: "dockerUpdates w ds = (r, w1) \<Longrightarrow> rw_files w1 = rw_files w"
proof (induction ds arbitrary: w r)
  case (Cons x ds)
  obtain path base where x: "x = (path, base)" by fastforce
  obtain d w2 where d: "readFile w path = (d, w2)" by fastforce
  then have f: "rw_files w2 = rw_files w" by (rule readFile_files)
  show ?case
  proof (cases d)
    case (Inr data)
    then show ?thesis using Cons x d f
      by (cases "replaceBaseArg data base"; cases "dockerUpdates w2 ds") (auto split: sum.splits)
  qed (use Cons x d f in simp)
qed simp

lemma dockerUpdates_Inr:
  "dockerUpdates w ds = (Inr us, w1) \<Longrightarrow> map fst us = map fst ds
     \<and> (\<forall>(p, d') \<in> set us. \<exists>d base. (p, base) \<in> set ds \<and> map_of (rw_files w) (pathClean p) = Some d \<and> replaceBaseArg d base = Inr d')"
proof (induction w ds arbitrary: us w1 rule: dockerUpdates.induct)
  case (2 w path base ds)
  obtain d w2 where r: "readFile w path = (Inr d, w2)" using 2(2) by (auto split: prod.splits sum.splits)
  obtain d' where d': "replaceBaseArg d base = Inr d'" using 2(2) r by (auto split: sum.splits)
  obtain us' where us: "dockerUpdates w2 ds = (Inr us', w1)" "us = (path, d') # us'"
    using 2(2) r d' by (auto split: prod.splits sum.splits)
  show ?case using 2(1)[OF r[symmetric] refl d' us(1)] readFile_Inr[OF r] readFile_files[OF r] d' us(2) by fastforce
qed auto

lemma replaceFile_result:
  "replaceFile w p d = (e, w1) \<Longrightarrow> (e = None \<and> rw_files w1 = AList.update (pathClean p) d (rw_files w)) \<or> (e \<noteq> None \<and> rw_files w1 = rw_files w)"
  by (cases "sysCall w") (auto simp: replaceFile_def dest!: sysCall_files sysCalls_files split: prod.splits option.splits)

lemma writeIfChanged_result:
  assumes "writeIfChanged w p d = (e, w1)"
  shows "(e = None \<and> map_of (rw_files w1) = (map_of (rw_files w))(pathClean p \<mapsto> d)) \<or> (e \<noteq> None \<and> rw_files w1 = rw_files w)"
proof (cases "readFile w p")
  case (Pair r w2)
  note f = readFile_files[OF Pair]
  show ?thesis
  proof (cases r)
    case (Inl x)
    then show ?thesis using assms Pair f replaceFile_result[of w2 p d e w1]
      by (auto simp: writeIfChanged_def split: if_splits)
  next
    case (Inr cur)
    then have "map_of (rw_files w) (pathClean p) = Some cur" using Pair readFile_Inr by simp
    then show ?thesis using assms Pair Inr f replaceFile_result[of w2 p d e w1]
      by (auto simp: writeIfChanged_def split: if_splits)
  qed
qed

lemma writeAll_result:
  "writeAll w us = (e, w1) \<Longrightarrow>
     (\<exists>n \<le> length us. map_of (rw_files w1) = map_of (rw_files w) ++ map_of (rev (map (\<lambda>(p, d). (pathClean p, d)) (take n us)))
        \<and> (e = None \<longrightarrow> n = length us))"
proof (induction w us rule: writeAll.induct)
  case (2 w path data us)
  obtain e1 w2 where w2: "writeIfChanged w path data = (e1, w2)" by fastforce
  show ?case
  proof (cases e1)
    case None
    obtain n where n: "n \<le> length us" "e = None \<longrightarrow> n = length us"
        "map_of (rw_files w1) = map_of (rw_files w2) ++ map_of (rev (map (\<lambda>(p, d). (pathClean p, d)) (take n us)))"
      using 2 w2 None by auto
    have "map_of (rw_files w2) = (map_of (rw_files w))(pathClean path \<mapsto> data)"
      using writeIfChanged_result[OF w2] None by simp
    then show ?thesis using n by (intro exI[of _ "Suc n"]) simp
  next
    case (Some x)
    then show ?thesis using 2(2) w2 writeIfChanged_result[OF w2] by (intro exI[of _ 0]) auto
  qed
qed auto

lemma run_stages:
  assumes "run u w path = (e, w')" and "rw_files w' \<noteq> rw_files w \<or> e = None"
  obtains b m0 m json us w2 where "map_of (rw_files w) (pathClean path) = Some b" "ue_decode u b = Inr m0" "ValidatePolicy m0 = None"
    "refresh u m0 = Inr m" "manifestValidate m = None" "ue_encode u m = Inr json" "rw_files w2 = rw_files w"
    "map fst us = map fst (dockerfiles path m)" "writeAll w2 ((path, json @ newline) # us) = (e, w')"
    "\<And>p d'. (p, d') \<in> set us \<Longrightarrow> \<exists>d base. (p, base) \<in> set (dockerfiles path m)
       \<and> map_of (rw_files w) (pathClean p) = Some d \<and> replaceBaseArg d base = Inr d'"
proof -
  obtain r w1 where r: "ReadForUpdate u w path = (r, w1)" by fastforce
  have f1: "rw_files w1 = rw_files w"
    using r by (auto simp: ReadForUpdate_def dest!: readFile_files split: prod.splits sum.splits option.splits)
  obtain m0 where m0: "r = Inr m0" using assms r f1 by (cases r) (auto simp: run_def)
  obtain b where b: "map_of (rw_files w) (pathClean path) = Some b" "ue_decode u b = Inr m0" "ValidatePolicy m0 = None"
    using r m0 by (auto simp: ReadForUpdate_def dest!: readFile_Inr split: prod.splits sum.splits option.splits)
  obtain m where m: "refresh u m0 = Inr m" using assms r f1 m0 by (cases "refresh u m0") (auto simp: run_def)
  have v: "manifestValidate m = None" using assms r f1 m0 m by (cases "manifestValidate m") (auto simp: run_def)
  obtain json where j: "ue_encode u m = Inr json" using assms r f1 m0 m v by (cases "ue_encode u m") (auto simp: run_def)
  obtain d w2 where d: "dockerUpdates w1 (dockerfiles path m) = (d, w2)" by fastforce
  have f2: "rw_files w2 = rw_files w" using dockerUpdates_files[OF d] f1 by simp
  obtain us where us: "d = Inr us" using assms r m0 m v j d f2 by (cases d) (auto simp: run_def)
  have "writeAll w2 ((path, json @ newline) # us) = (e, w')" using assms(1) r m0 m v j d us by (simp add: run_def)
  then show ?thesis using that[OF b m v j f2] dockerUpdates_Inr[OF d[unfolded us]] f1 by fastforce
qed

lemma run_written:
  assumes "writeAll w2 ((path, text) # us) = (e, w')" and "map_of (rw_files w') k \<noteq> map_of (rw_files w2) k"
  shows "(k = pathClean path \<and> map_of (rw_files w') k = Some text)
     \<or> (\<exists>p d. (p, d) \<in> set us \<and> k = pathClean p \<and> map_of (rw_files w') k = Some d)"
proof -
  define ks where "ks n = rev (map (\<lambda>(p, d). (pathClean p, d)) (take n ((path, text) # us)))" for n
  obtain n where n: "map_of (rw_files w') = map_of (rw_files w2) ++ map_of (ks n)"
    using writeAll_result[OF assms(1)] by (auto simp: ks_def)
  then obtain v where v: "map_of (ks n) k = Some v" "map_of (rw_files w') k = Some v"
    using assms(2) by (cases "map_of (ks n) k") (auto simp: map_add_def)
  then have "(k, v) \<in> set (ks n)" by (meson map_of_SomeD)
  then obtain p where "(p, v) \<in> set (take n ((path, text) # us))" "k = pathClean p" by (auto simp: ks_def)
  then have "(p, v) = (path, text) \<or> (p, v) \<in> set us" by (meson in_set_takeD set_ConsD)
  then show ?thesis using v(2) \<open>k = pathClean p\<close> by auto
qed

section \<open>A refreshed manifest is a fixed point\<close>

text \<open>
  Two manifests that differ in the order of their maps only. A Go map has no order of its own, so
  this is the equality of decoded manifests.
\<close>

definition sameMap :: "('k \<times> 'v) list \<Rightarrow> ('k \<times> 'v) list \<Rightarrow> bool" where
  "sameMap xs ys \<longleftrightarrow> set xs = set ys \<and> distinct (map fst xs) \<and> distinct (map fst ys)"

definition sameManifest :: "manifest \<Rightarrow> manifest \<Rightarrow> bool" where
  "sameManifest m n \<longleftrightarrow>
     n = m\<lparr>mf_NodeReleases := mf_NodeReleases n, mf_Channels := mf_Channels n, mf_BuildToolsLines := mf_BuildToolsLines n\<rparr>
     \<and> sameMap (mf_NodeReleases m) (mf_NodeReleases n) \<and> sameMap (mf_Channels m) (mf_Channels n)
     \<and> sameMap (mf_BuildToolsLines m) (mf_BuildToolsLines n)"

lemma sameMap_lookup: "sameMap xs ys \<Longrightarrow> map_of xs = map_of ys"
  unfolding sameMap_def by (metis map_of_inject_set)

lemma sameMap_keys: "sameMap xs ys \<Longrightarrow> fst ` set xs = fst ` set ys"
  by (simp add: sameMap_def)

lemma eachKey_Inr: "eachKey f ks = Inr xs \<Longrightarrow> map fst xs = ks \<and> (\<forall>(k, v) \<in> set xs. f k = Inr v)"
  by (induction ks arbitrary: xs) (auto split: sum.splits)

lemma eachKey_again: "\<forall>(k, v) \<in> set xs. f k = Inr v \<Longrightarrow> eachKey f (map fst xs) = Inr xs"
  by (induction xs) auto

text \<open>The single-valued steps: the same values for every manifest with the same inputs.\<close>

lemma registryDigest_cong:
  "bi_Repository b = bi_Repository c \<Longrightarrow> bi_Tag b = bi_Tag c \<Longrightarrow> registryDigest u b = registryDigest u c"
  unfolding registryDigest_def by (simp only:)

lemma refreshBases_form:
  assumes "refreshBases u m = Inr m'"
  shows "bi_Repository (mf_LinuxBase n) = bi_Repository (mf_LinuxBase m) \<Longrightarrow> bi_Tag (mf_LinuxBase n) = bi_Tag (mf_LinuxBase m)
     \<Longrightarrow> bi_Repository (mf_WindowsBase n) = bi_Repository (mf_WindowsBase m) \<Longrightarrow> bi_Tag (mf_WindowsBase n) = bi_Tag (mf_WindowsBase m)
     \<Longrightarrow> refreshBases u n = Inr (n\<lparr>mf_LinuxBase := (mf_LinuxBase n)\<lparr>bi_Digest := bi_Digest (mf_LinuxBase m')\<rparr>,
           mf_WindowsBase := (mf_WindowsBase n)\<lparr>bi_Digest := bi_Digest (mf_WindowsBase m')\<rparr>\<rparr>)"
  using assms registryDigest_cong[of "mf_LinuxBase n" "mf_LinuxBase m" u] registryDigest_cong[of "mf_WindowsBase n" "mf_WindowsBase m" u]
  by (auto simp: refreshBases_def split: sum.splits)

lemma refreshRunner_form:
  assumes "refreshRunner u m = Inr m'"
  shows "refreshRunner u n = Inr (n\<lparr>mf_RunnerVersion := mf_RunnerVersion m', mf_RunnerLinuxX64SHA256 := mf_RunnerLinuxX64SHA256 m',
     mf_RunnerLinuxARM64SHA256 := mf_RunnerLinuxARM64SHA256 m', mf_RunnerWindowsX64SHA256 := mf_RunnerWindowsX64SHA256 m'\<rparr>)"
  using assms by (auto simp: refreshRunner_def Let_def split: sum.splits)

lemma refreshPowerShell_form:
  assumes "refreshPowerShell u m = Inr m'"
  shows "refreshPowerShell u n = Inr (n\<lparr>mf_PowerShellVersion := mf_PowerShellVersion m', mf_PowerShellSHA256 := mf_PowerShellSHA256 m'\<rparr>)"
  using assms by (auto simp: refreshPowerShell_def Let_def split: sum.splits)

lemma refreshMinGit_form:
  assumes "refreshMinGit u m = Inr m'"
  shows "refreshMinGit u n = Inr (n\<lparr>mf_MinGitVersion := mf_MinGitVersion m', mf_MinGitURL := mf_MinGitURL m', mf_MinGitSHA256 := mf_MinGitSHA256 m'\<rparr>)"
  using assms by (auto simp: refreshMinGit_def split: sum.splits list.splits)

lemma refreshCorepack_form:
  assumes "refreshCorepack u m = Inr m'"
  shows "refreshCorepack u n = Inr (n\<lparr>mf_CorepackVersion := mf_CorepackVersion m', mf_CorepackURL := mf_CorepackURL m', mf_CorepackSHA512 := mf_CorepackSHA512 m'\<rparr>)"
  using assms by (auto simp: refreshCorepack_def npmCorepack_def split: sum.splits if_splits)

lemma refreshGo_form:
  assumes "refreshGo u m = Inr m'"
  shows "refreshGo u n = Inr (n\<lparr>mf_GoVersion := mf_GoVersion m', mf_GoLinuxAMD64SHA256 := mf_GoLinuxAMD64SHA256 m',
     mf_GoLinuxARM64SHA256 := mf_GoLinuxARM64SHA256 m', mf_GoWindowsAMD64SHA256 := mf_GoWindowsAMD64SHA256 m'\<rparr>)"
  using assms by (auto simp: refreshGo_def Let_def split: sum.splits option.splits prod.splits)

lemma refreshRust_form:
  assumes "refreshRust u m = Inr m'" and "mf_RustChannel n = mf_RustChannel m"
  shows "refreshRust u n = Inr (n\<lparr>mf_RustVersion := mf_RustVersion m', mf_RustupVersion := mf_RustupVersion m',
     mf_RustupX64SHA256 := mf_RustupX64SHA256 m', mf_RustupARM64SHA256 := mf_RustupARM64SHA256 m'\<rparr>)"
  using assms by (auto simp: refreshRust_def split: sum.splits if_splits)

text \<open>Node: every major in its LTS phase is a key after the discovery, which then adds nothing.\<close>

lemma declareLTS_keys:
  "fst ` set rs \<subseteq> fst ` set (declareLTS today xs rs)
   \<and> (\<forall>(v, l) \<in> set xs. isLTS today l \<longrightarrow> trimPrefix v ''v'' \<in> fst ` set (declareLTS today xs rs))"
proof (induction xs arbitrary: rs)
  case (Cons x xs)
  obtain v l where x: "x = (v, l)" by fastforce
  define rs' where "rs' = (if isLTS today l \<and> map_of rs (trimPrefix v ''v'') = None
      then AList.update (trimPrefix v ''v'') emptyNodeRelease rs else rs)"
  have "fst ` set rs \<subseteq> fst ` set rs'" by (auto simp: rs'_def dom_update simp flip: dom_map_of_conv_image_fst)
  moreover have "isLTS today l \<longrightarrow> trimPrefix v ''v'' \<in> fst ` set rs'"
    by (auto simp: rs'_def simp flip: dom_map_of_conv_image_fst)
  moreover have "declareLTS today (x # xs) rs = declareLTS today xs rs'" by (simp add: x rs'_def Let_def)
  ultimately show ?case using Cons[of rs'] x by auto
qed simp

lemma declareLTS_settled:
  "\<forall>(v, l) \<in> set xs. isLTS today l \<longrightarrow> trimPrefix v ''v'' \<in> fst ` set rs \<Longrightarrow> declareLTS today xs rs = rs"
  by (induction xs) (auto simp: Let_def simp flip: dom_map_of_conv_image_fst)

lemma refreshNode_form:
  assumes "refreshNode u m = Inr m'"
  shows "m' = m\<lparr>mf_NodeReleases := mf_NodeReleases m'\<rparr>"
    and "mf_NodeTrack n = mf_NodeTrack m \<Longrightarrow> mf_NodeDefaultMajor n = mf_NodeDefaultMajor m
      \<Longrightarrow> sameMap (mf_NodeReleases m') (mf_NodeReleases n) \<Longrightarrow> refreshNode u n = Inr n"
proof -
  obtain index schedule m1 rs where s: "getJSON u (ue_nodeIndex u) ''https://nodejs.org/dist/index.json'' = Inr index"
      "getJSON u (ue_schedule u) ''https://raw.githubusercontent.com/nodejs/Release/main/schedule.json'' = Inr schedule"
      "discoverNodeLTS m schedule (ue_today u) = Inr m1"
      "eachKey (refreshNodeMajor u index schedule) (map fst (mf_NodeReleases m1)) = Inr rs"
      "nodeDefaultRelease m' \<noteq> None" "m' = m1\<lparr>mf_NodeReleases := rs\<rparr>"
    using assms by (auto simp: refreshNode_def Let_def split: sum.splits if_splits)
  have d: "mf_NodeTrack m = supportedLTS" "m1 = m\<lparr>mf_NodeReleases := declareLTS (ue_today u) schedule (mf_NodeReleases m)\<rparr>"
    using s(3) by (auto simp: discoverNodeLTS_def split: if_splits)
  show "m' = m\<lparr>mf_NodeReleases := mf_NodeReleases m'\<rparr>" using s(6) d(2) by simp
  assume n: "mf_NodeTrack n = mf_NodeTrack m" "mf_NodeDefaultMajor n = mf_NodeDefaultMajor m"
    "sameMap (mf_NodeReleases m') (mf_NodeReleases n)"
  have e: "map fst rs = map fst (mf_NodeReleases m1)" "\<forall>(k, v) \<in> set rs. refreshNodeMajor u index schedule k = Inr v"
    using eachKey_Inr[OF s(4)] by auto
  have rs: "mf_NodeReleases m' = rs" using s(6) by simp
  have "fst ` set (mf_NodeReleases n) = fst ` set (mf_NodeReleases m1)"
    using sameMap_keys[OF n(3)] rs arg_cong[OF e(1), of set] by simp
  then have "declareLTS (ue_today u) schedule (mf_NodeReleases n) = mf_NodeReleases n"
    using declareLTS_keys[of "mf_NodeReleases m" "ue_today u" schedule] d(2) by (intro declareLTS_settled) auto
  then have "discoverNodeLTS n schedule (ue_today u) = Inr n" using n(1) d(1) by (simp add: discoverNodeLTS_def)
  moreover have "eachKey (refreshNodeMajor u index schedule) (map fst (mf_NodeReleases n)) = Inr (mf_NodeReleases n)"
    using e(2) n(3) rs by (intro eachKey_again) (simp add: sameMap_def)
  moreover have "nodeDefaultRelease n \<noteq> None"
    using s(5) n(2) sameMap_lookup[OF n(3)] s(6) d(2) by (simp add: nodeDefaultRelease_def)
  ultimately show "refreshNode u n = Inr n" using s(1,2) by (auto simp: refreshNode_def)
qed

text \<open>.NET: the discoveries depend on the keys, the targets are kept.\<close>

lemma dotnetFiles_targets [simp]: "dn_Targets (dotnetFiles fs r) = dn_Targets r"
  by (induction fs arbitrary: r) simp_all

lemma refreshDotNetChannel_targets: "refreshDotNetChannel u index targets c = Inr r \<Longrightarrow> dn_Targets r = targets c"
  by (auto simp: refreshDotNetChannel_def resolvedChannel_def Let_def split: option.splits sum.splits)

lemma refreshDotNetChannel_cong: "targets c = targets' c \<Longrightarrow> refreshDotNetChannel u index targets c = refreshDotNetChannel u index targets' c"
  unfolding refreshDotNetChannel_def by (simp only:)

lemma discoverDotNet_cong:
  assumes "fst ` set (mf_Channels n) = fst ` set (mf_Channels m)" and "mf_TrackReleaseTypes n = mf_TrackReleaseTypes m"
  shows "mf_Unassigned (discoverDotNetChannels n index today) = mf_Unassigned (discoverDotNetChannels m index today)"
proof -
  have "map_of (mf_Channels n) k = None \<longleftrightarrow> map_of (mf_Channels m) k = None" for k
    using assms(1) by (simp add: map_of_eq_None_iff)
  then have "isDiscovery n today = isDiscovery m today" using assms(2) by (simp add: isDiscovery_def fun_eq_iff)
  then show ?thesis by (simp add: discoverDotNetChannels_def)
qed

lemma refreshDotNet_form:
  assumes "refreshDotNet u m = Inr m'"
  shows "m' = m\<lparr>mf_Unassigned := mf_Unassigned m', mf_Channels := mf_Channels m'\<rparr>"
    and "mf_TrackReleaseTypes n = mf_TrackReleaseTypes m \<Longrightarrow> mf_Unassigned n = mf_Unassigned m'
      \<Longrightarrow> sameMap (mf_Channels m') (mf_Channels n) \<Longrightarrow> refreshDotNet u n = Inr n"
proof -
  obtain index cs where s: "getJSON u (ue_dotnetIndex u) ''https://dotnetcli.blob.core.windows.net/dotnet/release-metadata/releases-index.json'' = Inr index"
      and e0: "eachKey (refreshDotNetChannel u index (channelTargets (discoverDotNetChannels m index (ue_today u))))
        (map fst (mf_Channels (discoverDotNetChannels m index (ue_today u)))) = Inr cs"
      and m': "m' = (discoverDotNetChannels m index (ue_today u))\<lparr>mf_Channels := cs\<rparr>"
    using assms by (auto simp: refreshDotNet_def Let_def split: sum.splits)
  define m1 where "m1 = discoverDotNetChannels m index (ue_today u)"
  have m1: "m1 = m\<lparr>mf_Unassigned := mf_Unassigned m1\<rparr>" by (simp add: m1_def discoverDotNetChannels_def)
  show "m' = m\<lparr>mf_Unassigned := mf_Unassigned m', mf_Channels := mf_Channels m'\<rparr>"
    using m' by (simp add: discoverDotNetChannels_def)
  assume n: "mf_TrackReleaseTypes n = mf_TrackReleaseTypes m" "mf_Unassigned n = mf_Unassigned m'" "sameMap (mf_Channels m') (mf_Channels n)"
  have e: "map fst cs = map fst (mf_Channels m)" "\<forall>(k, v) \<in> set cs. refreshDotNetChannel u index (channelTargets m1) k = Inr v"
    using eachKey_Inr[OF e0] m1 by (auto simp: m1_def discoverDotNetChannels_def)
  have cs: "mf_Channels m' = cs" using m' by simp
  have "fst ` set (mf_Channels n) = fst ` set (mf_Channels m)"
    using sameMap_keys[OF n(3)] cs arg_cong[OF e(1), of set] by simp
  then have "mf_Unassigned (discoverDotNetChannels n index (ue_today u)) = mf_Unassigned n"
    using discoverDotNet_cong[of n m] n(1,2) m' by simp
  then have dn: "discoverDotNetChannels n index (ue_today u) = n" by (simp add: discoverDotNetChannels_def)
  have "refreshDotNetChannel u index (channelTargets n) k = Inr v" if "(k, v) \<in> set (mf_Channels n)" for k v
  proof -
    have "(k, v) \<in> set cs" using that n(3) cs by (simp add: sameMap_def)
    then have f: "refreshDotNetChannel u index (channelTargets m1) k = Inr v" using e(2) by auto
    have "map_of (mf_Channels n) k = Some v" using that n(3) by (simp add: sameMap_def)
    then have "channelTargets n k = channelTargets m1 k"
      using refreshDotNetChannel_targets[OF f] by (simp add: channelTargets_def)
    then show ?thesis using f refreshDotNetChannel_cong by metis
  qed
  then have "eachKey (refreshDotNetChannel u index (channelTargets n)) (map fst (mf_Channels n)) = Inr (mf_Channels n)"
    by (intro eachKey_again) auto
  then show "refreshDotNet u n = Inr n" using s dn by (simp add: refreshDotNet_def)
qed

text \<open>Build Tools: a line is rewritten in place, and its channel, which it is resolved from, stays.\<close>

lemma refreshLine_again:
  assumes "refreshBuildToolsLine u line r = Inr r'"
  shows "refreshBuildToolsLine u line r' = Inr r'"
proof -
  have "bt_Channel r' = bt_Channel r"
    using assms by (auto simp: refreshBuildToolsLine_def Let_def split: sum.splits prod.splits list.splits if_splits)
  then show ?thesis
    using assms by (auto simp: refreshBuildToolsLine_def Let_def split: sum.splits prod.splits list.splits if_splits)
qed

lemma refreshLines_lookup:
  "refreshLines u lines ls = Inr ls' \<Longrightarrow> distinct lines \<Longrightarrow> map_of ls' k = (case map_of ls k of None \<Rightarrow> None
     | Some r \<Rightarrow> if k \<in> set lines then (case refreshBuildToolsLine u k r of Inl e \<Rightarrow> None | Inr r' \<Rightarrow> Some r') else Some r)"
  by (induction u lines ls rule: refreshLines.induct) (auto split: option.splits sum.splits if_splits)

lemma update_same: "map_of xs k = Some v \<Longrightarrow> AList.update k v xs = xs"
  by (induction xs) (auto split: if_splits)

lemma refreshLines_settled:
  assumes "\<forall>(k, r) \<in> set ls. refreshBuildToolsLine u k r = Inr r"
  shows "refreshLines u lines ls = Inr ls"
proof (induction lines)
  case (Cons line lines)
  show ?case
  proof (cases "map_of ls line")
    case (Some r)
    then have "refreshBuildToolsLine u line r = Inr r" using assms map_of_SomeD[OF Some] by auto
    then show ?thesis using Cons Some by (simp add: update_same)
  qed (use Cons in simp)
qed simp

lemma refreshBuildTools_form:
  assumes "refreshBuildTools u m = Inr m'" and "distinct (map fst (mf_BuildToolsLines m))"
  shows "m' = m\<lparr>mf_BuildToolsLines := mf_BuildToolsLines m'\<rparr>"
    and "sameMap (mf_BuildToolsLines m') (mf_BuildToolsLines n) \<Longrightarrow> refreshBuildTools u n = Inr n"
proof -
  obtain ls where ls: "refreshLines u (ReleaseLines m) (mf_BuildToolsLines m) = Inr ls" "m' = m\<lparr>mf_BuildToolsLines := ls\<rparr>"
    using assms by (auto simp: refreshBuildTools_def split: sum.splits)
  show "m' = m\<lparr>mf_BuildToolsLines := mf_BuildToolsLines m'\<rparr>" using ls(2) by simp
  have d: "distinct (ReleaseLines m)" "set (ReleaseLines m) = fst ` set (mf_BuildToolsLines m)"
    using assms(2) by (simp_all add: ReleaseLines_def)
  assume n: "sameMap (mf_BuildToolsLines m') (mf_BuildToolsLines n)"
  have "refreshBuildToolsLine u k r = Inr r" if "(k, r) \<in> set (mf_BuildToolsLines n)" for k r
  proof -
    have "map_of ls k = Some r" using that n ls(2) by (simp add: sameMap_def)
    then obtain r0 where "map_of (mf_BuildToolsLines m) k = Some r0" "refreshBuildToolsLine u k r0 = Inr r"
      using refreshLines_lookup[OF ls(1) d(1), of k] d(2) map_of_SomeD[of "mf_BuildToolsLines m" k]
      by (force split: option.splits sum.splits if_splits)
    then show ?thesis using refreshLine_again by blast
  qed
  then have "refreshLines u (ReleaseLines n) (mf_BuildToolsLines n) = Inr (mf_BuildToolsLines n)"
    by (intro refreshLines_settled) auto
  then show "refreshBuildTools u n = Inr n" by (simp add: refreshBuildTools_def)
qed

text \<open>A step that finds its values in place leaves the manifest as it is.\<close>

lemma refreshBases_settles:
  assumes "refreshBases u m = Inr m'" and "mf_LinuxBase n = mf_LinuxBase m'" and "mf_WindowsBase n = mf_WindowsBase m'"
  shows "refreshBases u n = Inr n"
proof -
  have "bi_Repository (mf_LinuxBase m') = bi_Repository (mf_LinuxBase m)" "bi_Tag (mf_LinuxBase m') = bi_Tag (mf_LinuxBase m)"
      "bi_Repository (mf_WindowsBase m') = bi_Repository (mf_WindowsBase m)" "bi_Tag (mf_WindowsBase m') = bi_Tag (mf_WindowsBase m)"
    using assms(1) by (auto simp: refreshBases_def split: sum.splits)
  then show ?thesis using refreshBases_form[OF assms(1), of n] assms(2,3) by simp
qed

lemma refreshRunner_settles:
  assumes "refreshRunner u m = Inr m'" and "mf_RunnerVersion n = mf_RunnerVersion m'" and "mf_RunnerLinuxX64SHA256 n = mf_RunnerLinuxX64SHA256 m'"
    and "mf_RunnerLinuxARM64SHA256 n = mf_RunnerLinuxARM64SHA256 m'" and "mf_RunnerWindowsX64SHA256 n = mf_RunnerWindowsX64SHA256 m'"
  shows "refreshRunner u n = Inr n"
  using refreshRunner_form[OF assms(1), of n] by (simp flip: assms(2-))

lemma refreshPowerShell_settles:
  assumes "refreshPowerShell u m = Inr m'" and "mf_PowerShellVersion n = mf_PowerShellVersion m'" and "mf_PowerShellSHA256 n = mf_PowerShellSHA256 m'"
  shows "refreshPowerShell u n = Inr n"
  using refreshPowerShell_form[OF assms(1), of n] by (simp flip: assms(2-))

lemma refreshMinGit_settles:
  assumes "refreshMinGit u m = Inr m'" and "mf_MinGitVersion n = mf_MinGitVersion m'" and "mf_MinGitURL n = mf_MinGitURL m'"
    and "mf_MinGitSHA256 n = mf_MinGitSHA256 m'"
  shows "refreshMinGit u n = Inr n"
  using refreshMinGit_form[OF assms(1), of n] by (simp flip: assms(2-))

lemma refreshCorepack_settles:
  assumes "refreshCorepack u m = Inr m'" and "mf_CorepackVersion n = mf_CorepackVersion m'" and "mf_CorepackURL n = mf_CorepackURL m'"
    and "mf_CorepackSHA512 n = mf_CorepackSHA512 m'"
  shows "refreshCorepack u n = Inr n"
  using refreshCorepack_form[OF assms(1), of n] by (simp flip: assms(2-))

lemma refreshGo_settles:
  assumes "refreshGo u m = Inr m'" and "mf_GoVersion n = mf_GoVersion m'" and "mf_GoLinuxAMD64SHA256 n = mf_GoLinuxAMD64SHA256 m'"
    and "mf_GoLinuxARM64SHA256 n = mf_GoLinuxARM64SHA256 m'" and "mf_GoWindowsAMD64SHA256 n = mf_GoWindowsAMD64SHA256 m'"
  shows "refreshGo u n = Inr n"
  using refreshGo_form[OF assms(1), of n] by (simp flip: assms(2-))

lemma refreshRust_settles:
  assumes "refreshRust u m = Inr m'" and "mf_RustChannel n = mf_RustChannel m" and "mf_RustVersion n = mf_RustVersion m'"
    and "mf_RustupVersion n = mf_RustupVersion m'" and "mf_RustupX64SHA256 n = mf_RustupX64SHA256 m'" and "mf_RustupARM64SHA256 n = mf_RustupARM64SHA256 m'"
  shows "refreshRust u n = Inr n"
  using refreshRust_form[OF assms(1,2)] by (simp flip: assms(3-))

lemma refresh_stages:
  assumes "refresh u m0 = Inr m" and "distinct (map fst (mf_BuildToolsLines m0))"
  obtains m1 m2 m3 m4 m5 m6 m7 m8 m9 where "refreshBases u m0 = Inr m1" "refreshRunner u m1 = Inr m2" "refreshPowerShell u m2 = Inr m3"
    "refreshMinGit u m3 = Inr m4" "refreshNode u m4 = Inr m5" "refreshCorepack u m5 = Inr m6" "refreshDotNet u m6 = Inr m7"
    "refreshGo u m7 = Inr m8" "refreshRust u m8 = Inr m9" "refreshBuildTools u m9 = Inr m"
    "\<exists>a b. m1 = m0\<lparr>mf_LinuxBase := a, mf_WindowsBase := b\<rparr>"
    "\<exists>a b c d. m2 = m1\<lparr>mf_RunnerVersion := a, mf_RunnerLinuxX64SHA256 := b, mf_RunnerLinuxARM64SHA256 := c, mf_RunnerWindowsX64SHA256 := d\<rparr>"
    "\<exists>a b. m3 = m2\<lparr>mf_PowerShellVersion := a, mf_PowerShellSHA256 := b\<rparr>"
    "\<exists>a b c. m4 = m3\<lparr>mf_MinGitVersion := a, mf_MinGitURL := b, mf_MinGitSHA256 := c\<rparr>"
    "\<exists>a. m5 = m4\<lparr>mf_NodeReleases := a\<rparr>"
    "\<exists>a b c. m6 = m5\<lparr>mf_CorepackVersion := a, mf_CorepackURL := b, mf_CorepackSHA512 := c\<rparr>"
    "\<exists>a b. m7 = m6\<lparr>mf_Unassigned := a, mf_Channels := b\<rparr>"
    "\<exists>a b c d. m8 = m7\<lparr>mf_GoVersion := a, mf_GoLinuxAMD64SHA256 := b, mf_GoLinuxARM64SHA256 := c, mf_GoWindowsAMD64SHA256 := d\<rparr>"
    "\<exists>a b c d. m9 = m8\<lparr>mf_RustVersion := a, mf_RustupVersion := b, mf_RustupX64SHA256 := c, mf_RustupARM64SHA256 := d\<rparr>"
    "\<exists>a. m = m9\<lparr>mf_BuildToolsLines := a\<rparr>" "distinct (map fst (mf_BuildToolsLines m9))"
proof -
  obtain m1 m2 m3 m4 m5 m6 m7 m8 m9 where s: "refreshBases u m0 = Inr m1" "refreshRunner u m1 = Inr m2" "refreshPowerShell u m2 = Inr m3"
      "refreshMinGit u m3 = Inr m4" "refreshNode u m4 = Inr m5" "refreshCorepack u m5 = Inr m6" "refreshDotNet u m6 = Inr m7"
      "refreshGo u m7 = Inr m8" "refreshRust u m8 = Inr m9" "refreshBuildTools u m9 = Inr m"
    using assms(1) by (auto simp: refresh_def refreshWindowsMinimal_def split: sum.splits)
  have e1: "\<exists>a b. m1 = m0\<lparr>mf_LinuxBase := a, mf_WindowsBase := b\<rparr>" using s(1) by (auto simp: refreshBases_def split: sum.splits)
  have e2: "\<exists>a b c d. m2 = m1\<lparr>mf_RunnerVersion := a, mf_RunnerLinuxX64SHA256 := b, mf_RunnerLinuxARM64SHA256 := c, mf_RunnerWindowsX64SHA256 := d\<rparr>"
    using refreshRunner_form[OF s(2), of m1] s(2) by auto
  have e3: "\<exists>a b. m3 = m2\<lparr>mf_PowerShellVersion := a, mf_PowerShellSHA256 := b\<rparr>"
    using refreshPowerShell_form[OF s(3), of m2] s(3) by auto
  have e4: "\<exists>a b c. m4 = m3\<lparr>mf_MinGitVersion := a, mf_MinGitURL := b, mf_MinGitSHA256 := c\<rparr>"
    using refreshMinGit_form[OF s(4), of m3] s(4) by auto
  have e5: "\<exists>a. m5 = m4\<lparr>mf_NodeReleases := a\<rparr>" using refreshNode_form(1)[OF s(5)] by blast
  have e6: "\<exists>a b c. m6 = m5\<lparr>mf_CorepackVersion := a, mf_CorepackURL := b, mf_CorepackSHA512 := c\<rparr>"
    using refreshCorepack_form[OF s(6), of m5] s(6) by auto
  have e7: "\<exists>a b. m7 = m6\<lparr>mf_Unassigned := a, mf_Channels := b\<rparr>" using refreshDotNet_form(1)[OF s(7)] by blast
  have e8: "\<exists>a b c d. m8 = m7\<lparr>mf_GoVersion := a, mf_GoLinuxAMD64SHA256 := b, mf_GoLinuxARM64SHA256 := c, mf_GoWindowsAMD64SHA256 := d\<rparr>"
    using refreshGo_form[OF s(8), of m7] s(8) by auto
  have e9: "\<exists>a b c d. m9 = m8\<lparr>mf_RustVersion := a, mf_RustupVersion := b, mf_RustupX64SHA256 := c, mf_RustupARM64SHA256 := d\<rparr>"
    using refreshRust_form[OF s(9), of m8] s(9) by auto
  have "mf_BuildToolsLines m9 = mf_BuildToolsLines m0" using e1 e2 e3 e4 e5 e6 e7 e8 e9 by auto
  then have d: "distinct (map fst (mf_BuildToolsLines m9))" using assms(2) by simp
  have "\<exists>a. m = m9\<lparr>mf_BuildToolsLines := a\<rparr>" using refreshBuildTools_form(1)[OF s(10) d] by blast
  then show ?thesis using that[OF s e1 e2 e3 e4 e5 e6 e7 e8 e9] d by blast
qed

lemma refreshed_is_settled:
  assumes "refresh u m0 = Inr m" and "sameManifest m n" and "distinct (map fst (mf_BuildToolsLines m0))"
  shows "refresh u n = Inr n"
  using assms(1,3)
proof (rule refresh_stages, goal_cases)
  case (1 m1 m2 m3 m4 m5 m6 m7 m8 m9)
  note s = 1(1-10) and e = 1(12-20)
  have e11: "\<exists>a b c. n = m\<lparr>mf_NodeReleases := a, mf_Channels := b, mf_BuildToolsLines := c\<rparr>"
    using assms(2) unfolding sameManifest_def by blast
  have same: "sameMap (mf_NodeReleases m) (mf_NodeReleases n)" "sameMap (mf_Channels m) (mf_Channels n)"
      "sameMap (mf_BuildToolsLines m) (mf_BuildToolsLines n)"
    using assms(2) by (simp_all add: sameManifest_def)
  have nodes: "mf_NodeReleases m = mf_NodeReleases m5" using e(5-9) by auto
  have chans: "mf_Channels m = mf_Channels m7" using e(7-9) by auto
  have "refreshBases u n = Inr n" by (rule refreshBases_settles[OF s(1)]) (use e e11 in auto)
  moreover have "refreshRunner u n = Inr n" by (rule refreshRunner_settles[OF s(2)]) (use e(2-) e11 in auto)
  moreover have "refreshPowerShell u n = Inr n" by (rule refreshPowerShell_settles[OF s(3)]) (use e(3-) e11 in auto)
  moreover have "refreshMinGit u n = Inr n" by (rule refreshMinGit_settles[OF s(4)]) (use e(4-) e11 in auto)
  moreover have "refreshNode u n = Inr n" by (rule refreshNode_form(2)[OF s(5)]) (use e(4-) e11 same(1) nodes in auto)
  moreover have "refreshCorepack u n = Inr n" by (rule refreshCorepack_settles[OF s(6)]) (use e(6-) e11 in auto)
  moreover have "refreshDotNet u n = Inr n" by (rule refreshDotNet_form(2)[OF s(7)]) (use e(6-) e11 same(2) chans in auto)
  moreover have "refreshGo u n = Inr n" by (rule refreshGo_settles[OF s(8)]) (use e(8-) e11 in auto)
  moreover have "refreshRust u n = Inr n" by (rule refreshRust_settles[OF s(9)]) (use e(8-) e11 in auto)
  moreover have "refreshBuildTools u n = Inr n" by (rule refreshBuildTools_form(2)[OF s(10) 1(21) same(3)])
  ultimately show ?case by (simp add: refresh_def refreshWindowsMinimal_def)
qed

text \<open>Validation looks at the elements of the maps, not at their order.\<close>

lemma sameMap_Nil: "sameMap xs ys \<Longrightarrow> xs = [] \<longleftrightarrow> ys = []"
  by (auto simp: sameMap_def)

lemma firstErr_map_cong: "set xs = set ys \<Longrightarrow> firstErr (map f xs) = None \<longleftrightarrow> firstErr (map f ys) = None"
  by simp

lemma ValidatePolicy_None:
  "ValidatePolicy m = None \<longleftrightarrow> mf_Schema m = 1
     \<and> bi_Repository (mf_LinuxBase m) \<noteq> [] \<and> bi_Tag (mf_LinuxBase m) \<noteq> [] \<and> bi_Repository (mf_WindowsBase m) \<noteq> [] \<and> bi_Tag (mf_WindowsBase m) \<noteq> []
     \<and> mf_NodeReleases m \<noteq> [] \<and> mf_NodeTrack m = supportedLTS \<and> nodeDefaultRelease m \<noteq> None
     \<and> (\<forall>(k, r) \<in> set (mf_NodeReleases m). numericKey 1 k) \<and> (\<forall>e \<in> set (policyDotNet m). e = None)
     \<and> (\<forall>e \<in> set (policyDiscoveries m). e = None) \<and> mf_RustChannel m \<noteq> [] \<and> (\<forall>e \<in> set (policyBuildTools m). e = None)"
  unfolding ValidatePolicy_def firstErr_None set_append ball_Un by (auto split: if_splits)

lemma validate_same:
  assumes "sameManifest m n" and "manifestValidate m = None"
  shows "manifestValidate n = None"
proof -
  obtain a b c where n: "n = m\<lparr>mf_NodeReleases := a, mf_Channels := b, mf_BuildToolsLines := c\<rparr>"
    using assms(1) unfolding sameManifest_def by blast
  have same: "sameMap (mf_NodeReleases m) a" "sameMap (mf_Channels m) b" "sameMap (mf_BuildToolsLines m) c"
    using assms(1) n by (simp_all add: sameManifest_def)
  have sets: "set a = set (mf_NodeReleases m)" "set b = set (mf_Channels m)" "set c = set (mf_BuildToolsLines m)"
    using same by (simp_all add: sameMap_def)
  have maps: "map_of a = map_of (mf_NodeReleases m)" "map_of b = map_of (mf_Channels m)" "map_of c = map_of (mf_BuildToolsLines m)"
    using same sameMap_lookup by metis+
  have nils: "a = [] \<longleftrightarrow> mf_NodeReleases m = []" "b = [] \<longleftrightarrow> mf_Channels m = []" "c = [] \<longleftrightarrow> mf_BuildToolsLines m = []"
    using same sameMap_Nil by metis+
  have targets: "set (ChannelsForTarget n t) = set (ChannelsForTarget m t)" for t
    using sets(2) by (simp add: ChannelsForTarget_def n)
  have all: "list_all p b = list_all p (mf_Channels m)" for p using sets(2) by (simp add: list_all_iff)
  have def: "nodeDefaultRelease n = nodeDefaultRelease m" using maps(1) by (simp add: nodeDefaultRelease_def n)
  note congs = firstErr_map_cong[OF sets(1)] firstErr_map_cong[OF sets(2)] firstErr_map_cong[OF sets(3)]
  have v: "ValidatePolicy m = None" using assms(2) by (simp add: manifestValidate_def manifestChecks_def)
  have "(\<forall>e \<in> set (policyDotNet m). e = None) \<longrightarrow> (\<forall>e \<in> set (policyDotNet n). e = None)"
    by (simp add: policyDotNet_def n nils all congs del: firstErr_None)
  moreover have "policyDiscoveries n = policyDiscoveries m" by (simp add: policyDiscoveries_def n)
  moreover have "(\<forall>e \<in> set (policyBuildTools m). e = None) \<longrightarrow> (\<forall>e \<in> set (policyBuildTools n). e = None)"
    by (simp add: policyBuildTools_def n nils maps congs del: firstErr_None)
  moreover have sel: "mf_Schema n = mf_Schema m" "mf_LinuxBase n = mf_LinuxBase m" "mf_WindowsBase n = mf_WindowsBase m"
      "mf_NodeTrack n = mf_NodeTrack m" "mf_NodeDefaultMajor n = mf_NodeDefaultMajor m" "mf_RustChannel n = mf_RustChannel m" "mf_NodeReleases n = a"
    by (simp_all add: n)
  ultimately have "ValidatePolicy n = None"
    using v def nils(1) sets(1) unfolding ValidatePolicy_None by simp
  moreover have "firstErr (nodeChecks n) = None"
    using assms(2) sets by (simp add: manifestValidate_def manifestChecks_def nodeChecks_def n)
  moreover have "firstErr (dotnetChecks n) = None"
    using assms(2) sets targets maps by (simp add: manifestValidate_def manifestChecks_def dotnetChecks_def n)
  moreover have "firstErr (buildToolsChecks n) = None"
    using assms(2) sets by (simp add: manifestValidate_def manifestChecks_def buildToolsChecks_def n)
  moreover have "fixedDigests n = fixedDigests m" by (simp add: fixedDigests_def n)
  ultimately show ?thesis using assms(2) by (simp add: manifestValidate_def manifestChecks_def n ball_Un)
qed

text \<open>The three files of a run are different ones.\<close>

lemma pathParts_dir: "length (pathParts p) \<le> Suc (length (pathParts (pathDir p)))"
proof -
  define d where "d = rev (dropWhile (\<lambda>c. c \<noteq> CHR ''/'') (rev p))"
  define b where "b = rev (takeWhile (\<lambda>c. c \<noteq> CHR ''/'') (rev p))"
  have p: "p = d @ b" unfolding d_def b_def by (metis rev_append rev_rev_ident takeWhile_dropWhile_id)
  have nb: "CHR ''/'' \<notin> set b" unfolding b_def by (auto dest: set_takeWhileD)
  have one: "length (cleanParts r acc [x]) \<le> Suc (length acc)" for r acc x by (auto split: list.splits)
  have "length (pathParts (d @ b)) \<le> Suc (length (pathParts d))"
  proof (cases "d = []")
    case True
    then show ?thesis using nb one[of _ "[]" b] by (auto simp: pathParts_def)
  next
    case False
    have rd: "rev d = dropWhile (\<lambda>c. c \<noteq> CHR ''/'') (rev p)" by (simp add: d_def)
    then have "dropWhile (\<lambda>c. c \<noteq> CHR ''/'') (rev p) \<noteq> []" using False by (metis rev_is_Nil_conv)
    then have "hd (rev d) = CHR ''/''" using hd_dropWhile[of "\<lambda>c. c \<noteq> CHR ''/''" "rev p"] rd by simp
    then obtain d0 where d0: "d = d0 @ [CHR ''/'']" using False by (metis append_butlast_last_id hd_rev)
    have a: "isAbs (d @ b) = isAbs d" using False by (cases d) (simp_all add: isAbs_def)
    have s1: "splitOn (CHR ''/'') (d @ b) = splitOn (CHR ''/'') d0 @ [b]" using d0 nb splitOn_join[of "CHR ''/''" d0 b] by simp
    have s2: "splitOn (CHR ''/'') d = splitOn (CHR ''/'') d0 @ [[]]" using d0 splitOn_join[of "CHR ''/''" d0 "[]"] by simp
    show ?thesis unfolding pathParts_def a s1 s2 cleanParts_append
      using one[of "isAbs d" "rev (cleanParts (isAbs d) [] (splitOn (CHR ''/'') d0))" b] by simp
  qed
  moreover have "pathParts (pathDir p) = pathParts d" unfolding pathDir_def d_def by simp
  ultimately show ?thesis using p by metis
qed

lemma run_paths_differ:
  "distinct (pathClean path # map (pathClean \<circ> fst) (dockerfiles path m))"
proof -
  let ?p = "\<lambda>x. pathJoin (pathDir path) (x @ ''/'' @ ''Dockerfile'')"
  have pl: "plainPart ''linux''" "plainPart ''windows''" "plainPart ''Dockerfile''" by (simp_all add: plainPart_def)
  have l: "pathParts (pathClean (?p ''linux'')) = pathParts (pathDir path) @ [''linux'', ''Dockerfile'']"
    and w: "pathParts (pathClean (?p ''windows'')) = pathParts (pathDir path) @ [''windows'', ''Dockerfile'']"
    using pathParts_join(1)[OF pl(1,3)] pathParts_join(1)[OF pl(2,3)] by simp_all
  have m: "length (pathParts (pathClean path)) \<le> Suc (length (pathParts (pathDir path)))" using pathParts_dir by simp
  have "pathClean path \<noteq> pathClean (?p ''linux'')"
  proof
    assume "pathClean path = pathClean (?p ''linux'')"
    with m l show False by simp
  qed
  moreover have "pathClean path \<noteq> pathClean (?p ''windows'')"
  proof
    assume "pathClean path = pathClean (?p ''windows'')"
    with m w show False by simp
  qed
  moreover have "pathClean (?p ''linux'') \<noteq> pathClean (?p ''windows'')"
  proof
    assume "pathClean (?p ''linux'') = pathClean (?p ''windows'')"
    then have "pathParts (pathDir path) @ [''linux'', ''Dockerfile''] = pathParts (pathDir path) @ [''windows'', ''Dockerfile'']"
      using l w by (metis (no_types))
    then show False by simp
  qed
  ultimately show ?thesis by (simp add: dockerfiles_def)
qed

lemma readFile_calm: "rw_faults w = [] \<Longrightarrow> map_of (rw_files w) (pathClean p) = Some s \<Longrightarrow> readFile w p = (Inr s, w)"
  by (simp add: readFile_def sysCall_def)

lemma writeAll_calm:
  "rw_faults w = [] \<Longrightarrow> \<forall>(p, d) \<in> set us. map_of (rw_files w) (pathClean p) = Some d \<Longrightarrow> writeAll w us = (None, w)"
  by (induction us) (auto simp: writeIfChanged_def readFile_calm)

lemma dockerUpdates_calm:
  "rw_faults w = [] \<Longrightarrow> \<forall>(p, base) \<in> set ds. map_of (rw_files w) (pathClean p) = Some (f p base) \<and> replaceBaseArg (f p base) base = Inr (f p base)
   \<Longrightarrow> dockerUpdates w ds = (Inr (map (\<lambda>(p, base). (p, f p base)) ds), w)"
  by (induction ds) (auto simp: readFile_calm)

lemma hexDecode_last: "hexDecode v \<noteq> None \<Longrightarrow> v \<noteq> [] \<Longrightarrow> hexVal (last v) \<noteq> None"
  by (induction v rule: hexDecode.induct) (auto split: option.splits if_splits)

text \<open>A reference ends with a hexadecimal digit.\<close>

lemma reference_end:
  assumes "digest (bi_Digest b) ''sha256:'' 64 = None"
  shows "baseReference b \<noteq> []" and "last (baseReference b) \<noteq> CHR 0x0D"
proof -
  obtain v where v: "bi_Digest b = ''sha256:'' @ v" "length v = 64" "hexDecode v \<noteq> None"
    using assms by (auto simp: digest_def Let_def prefix_def split: if_splits)
  have "v \<noteq> []" using v(2) by auto
  then have "last (baseReference b) = last v" "hexVal (last v) \<noteq> None"
    using v hexDecode_last by (simp_all add: baseReference_def)
  moreover have "hexVal (CHR 0x0D) = None" by code_simp
  ultimately show "baseReference b \<noteq> []" "last (baseReference b) \<noteq> CHR 0x0D" by (auto simp: baseReference_def)
qed

lemma digest_no_newline:
  assumes "digest d ''sha256:'' n = None" shows "CHR 0x0A \<notin> set d"
proof -
  obtain v where v: "d = ''sha256:'' @ v" "hexDecode v \<noteq> None"
    using assms by (auto simp: digest_def Let_def prefix_def split: if_splits)
  have "hexVal (CHR 0x0A) = None" by code_simp
  then have "hexDecode v \<noteq> None \<Longrightarrow> CHR 0x0A \<notin> set v" for v
    by (induction v rule: hexDecode.induct) (auto split: option.splits)
  then show ?thesis using v by simp
qed

text \<open>A run without an error leaves every file with its new content.\<close>

lemma run_complete:
  assumes "writeAll w2 ((path, text) # us) = (None, w')" and "map fst us = map fst (dockerfiles path m)"
  shows "map_of (rw_files w') (pathClean path) = Some text" and "(p, d) \<in> set us \<Longrightarrow> map_of (rw_files w') (pathClean p) = Some d"
proof -
  let ?ks = "map (\<lambda>(p, d). (pathClean p, d)) ((path, text) # us)"
  have "map fst ?ks = map pathClean (path # map fst us)" by (simp add: case_prod_beta comp_def)
  also have "\<dots> = pathClean path # map (pathClean \<circ> fst) (dockerfiles path m)" using assms(2) by simp
  finally have dk: "distinct (map fst ?ks)" using run_paths_differ[of path m] by simp
  then have d: "distinct (map fst (rev ?ks))" by (simp only: rev_map[symmetric] distinct_rev)
  have f: "map_of (rw_files w') = map_of (rw_files w2) ++ map_of (rev ?ks)" using writeAll_result[OF assms(1)] by auto
  have "map_of (rw_files w') k = Some v" if "(k, v) \<in> set ?ks" for k v
  proof -
    have "map_of (rev ?ks) k = Some v" using that d by (simp only: map_of_eq_Some_iff set_rev)
    then show ?thesis unfolding f by (rule map_add_find_right)
  qed
  note put = this
  show "map_of (rw_files w') (pathClean path) = Some text" by (rule put) simp
  show "map_of (rw_files w') (pathClean p) = Some d" if "(p, d) \<in> set us"
  proof (rule put)
    show "(pathClean p, d) \<in> set ?ks" using imageI[OF that, of "\<lambda>(p, d). (pathClean p, d)"] by simp
  qed
qed

lemma sameManifest_bases:
  assumes "sameManifest m n"
  shows "mf_LinuxBase n = mf_LinuxBase m" and "mf_WindowsBase n = mf_WindowsBase m" and "dockerfiles path n = dockerfiles path m"
proof -
  obtain a b c where "n = m\<lparr>mf_NodeReleases := a, mf_Channels := b, mf_BuildToolsLines := c\<rparr>"
    using assms unfolding sameManifest_def by blast
  then show "mf_LinuxBase n = mf_LinuxBase m" "mf_WindowsBase n = mf_WindowsBase m" "dockerfiles path n = dockerfiles path m"
    by (simp_all add: dockerfiles_def)
qed

text \<open>The Dockerfiles of a complete run are settled as well.\<close>

lemma rewritten_settled:
  assumes "manifestValidate m = None" and "map fst us = map fst (dockerfiles path m)"
    and "\<forall>b \<in> {mf_LinuxBase m, mf_WindowsBase m}. CHR 0x0A \<notin> set (bi_Repository b) \<union> set (bi_Tag b)"
    and "\<And>p d'. (p, d') \<in> set us \<Longrightarrow> \<exists>d base. (p, base) \<in> set (dockerfiles path m) \<and> map_of files (pathClean p) = Some d \<and> replaceBaseArg d base = Inr d'"
    and "(p, base) \<in> set (dockerfiles path m)"
  shows "\<exists>d'. (p, d') \<in> set us \<and> replaceBaseArg d' base = Inr d'"
proof -
  have "p \<in> set (map fst us)" using assms(2,5) by force
  then obtain d' where d': "(p, d') \<in> set us" by auto
  then obtain d base' where b': "(p, base') \<in> set (dockerfiles path m)" "replaceBaseArg d base' = Inr d'" using assms(4) by blast
  have "distinct (map pathClean (map fst (dockerfiles path m)))" using run_paths_differ[of path m] by (simp add: comp_def)
  then have "distinct (map fst (dockerfiles path m))" unfolding distinct_map[of pathClean] by (rule conjunct1)
  then have "base' = base" using eq_key_imp_eq_value[OF _ b'(1) assms(5)] by simp
  obtain b where b: "b \<in> {mf_LinuxBase m, mf_WindowsBase m}" "base = baseReference b" using assms(5) by (auto simp: dockerfiles_def)
  have "checkDigests ''sha256:'' [] 64 [(''linux base'', bi_Digest (mf_LinuxBase m)), (''windows base'', bi_Digest (mf_WindowsBase m))] = None"
    by (rule manifestValidateD[OF assms(1)]) (simp only: manifestChecks_def set_append list.set Un_iff insert_iff simp_thms)
  then have dg: "digest (bi_Digest b) ''sha256:'' 64 = None" using b(1) unfolding checkDigests_None by auto
  have "CHR 0x0A \<notin> set base" using digest_no_newline[OF dg] assms(3) b by (auto simp: baseReference_def)
  then have "replaceBaseArg d' base = Inr d'"
    using replaceBaseArg_again[of d base d'] reference_end[OF dg] b'(2) \<open>base' = base\<close> b(2) by simp
  then show ?thesis using d' by auto
qed

section \<open>Properties\<close>

text \<open>
  C27: a refresh of the image versions writes nothing unchecked. Whatever fails on the way, a file that
  differs after a run is the manifest, and then it is the refreshed manifest that passed the whole
  validation, or one of the two Dockerfiles, and then exactly its \<open>ARG BASE=\<close> line names the validated
  base image with its digest; line endings and all other lines are kept.
\<close>

theorem update_writes_only_validated:
  assumes "run u w path = (e, w')" and "map_of (rw_files w') k \<noteq> map_of (rw_files w) k"
  shows "\<exists>b m0 m json. map_of (rw_files w) (pathClean path) = Some b \<and> ue_decode u b = Inr m0 \<and> refresh u m0 = Inr m
     \<and> manifestValidate m = None \<and> ue_encode u m = Inr json
     \<and> (k = pathClean path \<and> map_of (rw_files w') k = Some (json @ newline)
        \<or> (\<exists>p base d d'. (p, base) \<in> set (dockerfiles path m) \<and> k = pathClean p \<and> map_of (rw_files w) k = Some d
             \<and> map_of (rw_files w') k = Some d' \<and> baseReplaced base d d'))"
proof -
  have "rw_files w' \<noteq> rw_files w \<or> e = None" using assms(2) by auto
  with assms(1) show ?thesis
  proof (rule run_stages, goal_cases)
    case (1 b m0 m json us w2)
    have "(k = pathClean path \<and> map_of (rw_files w') k = Some (json @ newline))
       \<or> (\<exists>p d. (p, d) \<in> set us \<and> k = pathClean p \<and> map_of (rw_files w') k = Some d)"
      using run_written[OF 1(9)] assms(2) 1(7) by simp
    moreover have "\<exists>p base d d'. (p, base) \<in> set (dockerfiles path m) \<and> k = pathClean p \<and> map_of (rw_files w) k = Some d
        \<and> map_of (rw_files w') k = Some d' \<and> baseReplaced base d d'"
      if "(p, d') \<in> set us" "k = pathClean p" "map_of (rw_files w') k = Some d'" for p d'
      using 1(10)[OF that(1)] that(2,3) replaceBaseArg_replaced by blast
    ultimately show ?case using 1(1,2,4,5,6) by blast
  qed
qed

text \<open>
  C28: refreshing settles. After a run without an error, a second run against the same feeds on the same
  day succeeds and changes no file, provided that the JSON codec gives the refreshed manifest back (up
  to the order of its maps) and that no base image name contains a line break.
\<close>

theorem second_update_changes_nothing:
  assumes "run u w path = (None, w1)" and "rw_faults w1 = []"
    and codec: "\<forall>b m0 m json. map_of (rw_files w) (pathClean path) = Some b \<longrightarrow> ue_decode u b = Inr m0 \<longrightarrow> refresh u m0 = Inr m
      \<longrightarrow> ue_encode u m = Inr json \<longrightarrow> distinct (map fst (mf_BuildToolsLines m0))
        \<and> (\<exists>n. ue_decode u (json @ newline) = Inr n \<and> sameManifest m n \<and> ue_encode u n = Inr json)
        \<and> (\<forall>base \<in> {mf_LinuxBase m, mf_WindowsBase m}. CHR 0x0A \<notin> set (bi_Repository base) \<union> set (bi_Tag base))"
  shows "run u w1 path = (None, w1)"
  using assms(1) disjI2[OF refl]
proof (rule run_stages, goal_cases)
  case (1 b m0 m json us w2)
  have cd: "distinct (map fst (mf_BuildToolsLines m0))"
      "\<forall>base \<in> {mf_LinuxBase m, mf_WindowsBase m}. CHR 0x0A \<notin> set (bi_Repository base) \<union> set (bi_Tag base)"
      "\<exists>n. ue_decode u (json @ newline) = Inr n \<and> sameManifest m n \<and> ue_encode u n = Inr json"
    using codec 1(1,2,4,6) by blast+
  then obtain n where n: "ue_decode u (json @ newline) = Inr n" "sameManifest m n" "ue_encode u n = Inr json" by blast
  have v: "manifestValidate n = None" using validate_same[OF n(2) 1(5)] .
  then have vp: "ValidatePolicy n = None" by (simp add: manifestValidate_def manifestChecks_def)
  have r: "refresh u n = Inr n" using refreshed_is_settled[OF 1(4) n(2) cd(1)] .
  have j: "map_of (rw_files w1) (pathClean path) = Some (json @ newline)" using run_complete(1)[OF 1(9,8)] .
  have "\<forall>p base. \<exists>d. (p, base) \<in> set (dockerfiles path m) \<longrightarrow> map_of (rw_files w1) (pathClean p) = Some d \<and> replaceBaseArg d base = Inr d"
    using rewritten_settled[OF 1(5,8) cd(2) 1(10)] run_complete(2)[OF 1(9,8)] by meson
  then obtain f where f: "\<And>p base. (p, base) \<in> set (dockerfiles path m) \<Longrightarrow> map_of (rw_files w1) (pathClean p) = Some (f p base) \<and> replaceBaseArg (f p base) base = Inr (f p base)"
    by metis
  have du: "dockerUpdates w1 (dockerfiles path m) = (Inr (map (\<lambda>(p, base). (p, f p base)) (dockerfiles path m)), w1)"
    using dockerUpdates_calm[OF assms(2), of "dockerfiles path m" f] f by auto
  have "writeAll w1 ((path, json @ newline) # map (\<lambda>(p, base). (p, f p base)) (dockerfiles path m)) = (None, w1)"
    using j f by (intro writeAll_calm[OF assms(2)]) auto
  moreover have "ReadForUpdate u w1 path = (Inr n, w1)"
    using readFile_calm[OF assms(2) j] n(1) vp by (simp add: ReadForUpdate_def)
  ultimately show ?case using r v n(3) du sameManifest_bases(3)[OF n(2)] by (simp add: run_def)
qed

section \<open>A sample run\<close>

definition sampleSums :: string where
  "sampleSums = demoHex 64 @ ''  node-v22.1-linux-x64.tar.xz'' @ newline @ demoHex 64 @ ''  node-v22.1-linux-arm64.tar.xz'' @ newline
     @ demoHex 64 @ ''  node-v22.1-win-x64.zip'' @ newline"

definition sampleBody :: "string \<Rightarrow> string" where
  "sampleBody url =
     (if hasSuffix url ''SHASUMS256.txt'' then sampleSums
      else if hasSuffix url ''channel-rust-stable.toml'' then ''[pkg.rust]'' @ newline @ versionKey @ ''1 (date)'' @ [CHR 0x22] @ newline
      else if hasSuffix url ''release-stable.toml'' then ''version = '' @ [CHR 0x27] @ ''1'' @ [CHR 0x27]
      else if hasSuffix url ''.sha256'' then demoHex 64 @ ''  rustup-init''
      else url)"

definition sampleDo :: "string \<Rightarrow> string \<Rightarrow> (string \<times> string) list \<Rightarrow> gerr + http_answer" where
  "sampleDo how url headers =
     Inr \<lparr>ha_code = 200, ha_status = ''200 OK'', ha_contentDigest = ''sha256:'' @ demoHex 64,
          ha_url = (if hasSuffix url ''.exe'' then ''b'' else ''d''), ha_body = (sampleBody url, None)\<rparr>"

definition sampleAsset :: "string \<Rightarrow> github_asset" where
  "sampleAsset name = \<lparr>ga_Name = name, ga_BrowserDownloadURL = ''u'', ga_Digest = ''sha256:'' @ demoHex 64\<rparr>"

definition sampleRelease :: "body \<Rightarrow> gerr + github_release" where
  "sampleRelease b =
     Inr (if hasSuffix (fst b) ''actions/runner/releases/latest'' then
            \<lparr>gr_TagName = ''v2.1'', gr_Assets = map sampleAsset [''actions-runner-linux-x64-2.1.tar.gz'', ''actions-runner-linux-arm64-2.1.tar.gz'', ''actions-runner-win-x64-2.1.zip'']\<rparr>
          else if hasSuffix (fst b) ''PowerShell/PowerShell/releases/latest'' then
            \<lparr>gr_TagName = ''v7'', gr_Assets = [sampleAsset ''PowerShell-7-win-x64.zip'']\<rparr>
          else \<lparr>gr_TagName = ''v2'', gr_Assets = map sampleAsset [''MinGit-2-busybox-64-bit.zip'', ''MinGit-2-64-bit.zip'']\<rparr>)"

definition sampleUpdater :: updater_env where
  "sampleUpdater =
     \<lparr>ue_do = sampleDo, ue_today = ''2025'', ue_token = [], ue_sha256 = (\<lambda>s. replicate 32 (CHR 0xAA)),
      ue_nodeIndex = (\<lambda>b. Inr [''v23.0'', ''v22.1'', ''v22.0'']),
      ue_schedule = (\<lambda>b. Inr [(''v22'', \<lparr>nl_LTS = ''2024'', nl_End = ''2027''\<rparr>), (''v23'', \<lparr>nl_LTS = [], nl_End = ''2025''\<rparr>)]),
      ue_npm = (\<lambda>b. Inr \<lparr>np_Version = ''1'', np_Tarball = ''c'', np_Integrity = ''sha512-'' @ concat (replicate 21 ''qqqq'') @ ''qg==''\<rparr>),
      ue_dotnetIndex = (\<lambda>b. Inr [\<lparr>di_Channel = ''8.0'', di_ReleaseType = ''lts'', di_EOL = ''2026'', di_SupportPhase = ''active'',
         di_ReleasesURL = ''r'', di_LatestSDK = ''8.0.1''\<rparr>]),
      ue_dotnetReleases = (\<lambda>b. Inr \<lparr>dr_LatestSDK = ''8.0.1'', dr_Releases = [(''8.0.1'',
         [\<lparr>df_RID = ''linux-x64'', df_URL = ''a.tar.gz'', df_Hash = demoHex 128\<rparr>, \<lparr>df_RID = ''linux-arm64'', df_URL = ''a.tar.gz'', df_Hash = demoHex 128\<rparr>,
          \<lparr>df_RID = ''win-x64'', df_URL = ''a.zip'', df_Hash = demoHex 128\<rparr>])]\<rparr>),
      ue_goReleases = (\<lambda>b. Inr [\<lparr>go_Version = ''go1.2'', go_Stable = True, go_Files =
         [\<lparr>gf_OS = ''linux'', gf_Arch = ''amd64'', gf_Kind = ''archive'', gf_SHA256 = demoHex 64\<rparr>,
          \<lparr>gf_OS = ''linux'', gf_Arch = ''arm64'', gf_Kind = ''archive'', gf_SHA256 = demoHex 64\<rparr>,
          \<lparr>gf_OS = ''windows'', gf_Arch = ''amd64'', gf_Kind = ''archive'', gf_SHA256 = demoHex 64\<rparr>]\<rparr>]),
      ue_release = sampleRelease, ue_vsChannel = (\<lambda>b. Inr ''17.1 (LTSC)''),
      ue_decode = (\<lambda>s. Inr demoManifest), ue_encode = (\<lambda>m. Inr ''{}'')\<rparr>"

lemma sample_npm: "ue_npm sampleUpdater b = Inr \<lparr>np_Version = ''1'', np_Tarball = ''c'', np_Integrity = ''sha512-'' @ concat (replicate 21 ''qqqq'') @ ''qg==''\<rparr>"
  by (simp add: sampleUpdater_def)

lemma sample_bases: "refreshBases sampleUpdater demoManifest = Inr demoManifest" by code_simp

lemma sample_runner: "refreshRunner sampleUpdater demoManifest = Inr demoManifest" by code_simp

lemma sample_windows: "refreshWindowsMinimal sampleUpdater demoManifest = Inr demoManifest" by code_simp

lemma sample_node: "refreshNode sampleUpdater demoManifest = Inr demoManifest" by code_simp

lemma lower_demoHex: "toLower (demoHex n) = demoHex n"
proof -
  have "lowerChar (CHR ''a'') = CHR ''a''" by code_simp
  then show ?thesis by (simp add: demoHex_def toLower_def)
qed

lemma valid_demoHex: "validHex (demoHex 128) 128 = None"
  using digest_demoHex(2) by (simp add: validHex_def digest_def Let_def split: if_splits)

lemma sample_dotnet: "refreshDotNet sampleUpdater demoManifest = Inr demoManifest"
proof -
  have g: "getJSON sampleUpdater dec url = dec (limited (sampleBody url, None))" for dec url
    by (simp add: getJSON_def doJSON_def sampleUpdater_def sampleDo_def statusErr_def)
  have ix: "ue_dotnetIndex sampleUpdater b = Inr [\<lparr>di_Channel = ''8.0'', di_ReleaseType = ''lts'', di_EOL = ''2026'', di_SupportPhase = ''active'',
         di_ReleasesURL = ''r'', di_LatestSDK = ''8.0.1''\<rparr>]" for b by (simp add: sampleUpdater_def)
  have "discoverDotNetChannels demoManifest [\<lparr>di_Channel = ''8.0'', di_ReleaseType = ''lts'', di_EOL = ''2026'', di_SupportPhase = ''active'',
         di_ReleasesURL = ''r'', di_LatestSDK = ''8.0.1''\<rparr>] t = demoManifest" for t
    by (simp add: discoverDotNetChannels_def isDiscovery_def)
  moreover have "refreshDotNetChannel sampleUpdater [\<lparr>di_Channel = ''8.0'', di_ReleaseType = ''lts'', di_EOL = ''2026'', di_SupportPhase = ''active'',
         di_ReleasesURL = ''r'', di_LatestSDK = ''8.0.1''\<rparr>] (channelTargets demoManifest) ''8.0''
       = Inr \<lparr>dn_Targets = [''linux'', ''windows-container'', ''qemu-windows''], dn_ReleaseType = ''lts'', dn_Version = ''8.0.1'', dn_EOL = ''2026'',
           dn_SupportPhase = ''active'', dn_LinuxX64SHA512 = demoHex 128, dn_LinuxARM64SHA512 = demoHex 128, dn_WindowsX64SHA512 = demoHex 128\<rparr>"
    unfolding refreshDotNetChannel_def g
    by (simp add: sampleUpdater_def supported_def resolvedChannel_def channelTargets_def validAll_def suffix_def lower_demoHex valid_demoHex)
  ultimately show ?thesis unfolding refreshDotNet_def g ix by simp
qed

text \<open>The integrity value of 64 bytes 0xAA: 21 groups and a padded one.\<close>

lemma groups_AA:
  "b64Groups stdVal True (concat (replicate n ''qqqq'') @ ''qg=='') = Some (replicate (3 * n + 1) (CHR 0xAA))"
proof (induction n)
  case 0
  have "char_of (170::nat) = CHR 0xAA" by code_simp
  then show ?case by (simp add: b64Val_def bytesOf2_def Let_def)
next
  case (Suc n)
  have "stdVal (CHR ''q'') = Some 42" by (simp add: b64Val_def)
  moreover have a: "char_of (170::nat) = CHR 0xAA" by code_simp
  have "char_of x = CHR 0xAA" if "x mod 256 = 170" for x :: nat using that a char_of_mod_256[of x] by metis
  then have "bytesOf4 42 42 42 42 = [CHR 0xAA, CHR 0xAA, CHR 0xAA]" by (simp add: bytesOf4_def)
  ultimately show ?case using Suc by (simp add: eval_nat_numeral)
qed

lemma sample_integrity: "integritySHA512Hex (''sha512-'' @ concat (replicate 21 ''qqqq'') @ ''qg=='') = Inr (demoHex 128)"
proof -
  let ?t = "''sha512-'' @ concat (replicate 21 ''qqqq'') @ ''qg==''"
  have t: "trimSpace ?t = ?t" by code_simp
  have "filter (\<lambda>c. c \<noteq> CHR 0x0A \<and> c \<noteq> CHR 0x0D) (concat (replicate 21 ''qqqq'') @ ''qg=='') = concat (replicate 21 ''qqqq'') @ ''qg==''" by code_simp
  then have d: "b64Decode stdVal True (concat (replicate 21 ''qqqq'') @ ''qg=='') = Some (replicate 64 (CHR 0xAA))"
    using groups_AA[of 21] by (simp only: b64Decode_def) simp
  have "hexEncode [CHR 0xAA] = ''aa''" by code_simp
  then have "hexEncode (replicate n (CHR 0xAA)) = replicate (2 * n) (CHR ''a'')" for n by (induction n) auto
  then have h: "hexEncode (replicate 64 (CHR 0xAA)) = demoHex 128" by (simp add: demoHex_def)
  have "drop 7 (''sha512-'' @ x) = x" for x :: string by simp
  then have "drop 7 ?t = concat (replicate 21 ''qqqq'') @ ''qg==''" by (rule meta_spec)
  moreover have "prefix ''sha512-'' ?t" by simp
  ultimately show ?thesis unfolding integritySHA512Hex_def t Let_def using d h by (simp only: option.case not_True_eq_False if_False length_replicate refl simp_thms)
qed

lemma sample_go: "refreshGo sampleUpdater demoManifest = Inr demoManifest" by code_simp

lemma sample_rust: "refreshRust sampleUpdater demoManifest = Inr demoManifest" by code_simp

lemma sample_buildtools: "refreshBuildTools sampleUpdater demoManifest = Inr demoManifest" by code_simp

lemma sample_corepack: "refreshCorepack sampleUpdater demoManifest = Inr demoManifest"
proof -
  have "getJSON sampleUpdater (ue_npm sampleUpdater) url
      = Inr \<lparr>np_Version = ''1'', np_Tarball = ''c'', np_Integrity = ''sha512-'' @ concat (replicate 21 ''qqqq'') @ ''qg==''\<rparr>" for url
    unfolding getJSON_def doJSON_def sample_npm by (simp add: sampleUpdater_def sampleDo_def statusErr_def)
  then show ?thesis unfolding refreshCorepack_def npmCorepack_def by (simp only: sum.case npm_version.select_convs sample_integrity) (simp add: demoManifest_def)
qed

lemma sample_refresh: "refresh sampleUpdater demoManifest = Inr demoManifest"
  unfolding refresh_def
  by (simp add: sample_bases sample_runner sample_windows sample_node sample_corepack sample_dotnet sample_go sample_rust sample_buildtools)

text \<open>A repository whose Dockerfiles name an old base image, one with Windows line ends.\<close>

definition sampleRepo :: repo_world where
  "sampleRepo =
     \<lparr>rw_files = [(''m.json'', ''{}''), (''linux/Dockerfile'', ''ARG BASE=old'' @ newline @ ''FROM x'' @ newline),
         (''windows/Dockerfile'', ''FROM y'' @ newline @ ''ARG BASE=old'' @ [CHR 0x0D] @ newline)],
      rw_faults = []\<rparr>"

definition updatedRepo :: repo_world where
  "updatedRepo =
     \<lparr>rw_files = [(''m.json'', ''{}'' @ newline),
         (''linux/Dockerfile'', ''ARG BASE=docker.io/ubuntu:24.04@sha256:'' @ demoHex 64 @ newline @ ''FROM x'' @ newline),
         (''windows/Dockerfile'', ''FROM y'' @ newline @ ''ARG BASE=mcr.io/nano:ltsc@sha256:'' @ demoHex 64 @ [CHR 0x0D] @ newline)],
      rw_faults = []\<rparr>"

lemma sample_run: "run sampleUpdater sampleRepo ''m.json'' = (None, updatedRepo)"
proof -
  have "readFile sampleRepo ''m.json'' = (Inr ''{}'', sampleRepo)" by code_simp
  moreover have "ue_decode sampleUpdater b = Inr demoManifest" "ue_encode sampleUpdater m = Inr ''{}''" for b m
    by (simp_all add: sampleUpdater_def)
  moreover have "(case dockerUpdates sampleRepo (dockerfiles ''m.json'' demoManifest) of
       (Inl e, w2) \<Rightarrow> (Some e, w2) | (Inr us, w2) \<Rightarrow> writeAll w2 ((''m.json'', ''{}'' @ newline) # us)) = (None, updatedRepo)"
    by code_simp
  ultimately show ?thesis
    by (simp add: run_def ReadForUpdate_def demoManifest_policy demoManifest_valid sample_refresh)
qed

theorem update_writes_only_validated_witness:
  "\<exists>m p base d d'. refresh sampleUpdater demoManifest = Inr m \<and> manifestValidate m = None \<and> (p, base) \<in> set (dockerfiles ''m.json'' m)
     \<and> pathClean p = ''windows/Dockerfile'' \<and> map_of (rw_files updatedRepo) ''windows/Dockerfile'' = Some d' \<and> baseReplaced base d d'"
proof -
  have ne: "map_of (rw_files updatedRepo) ''windows/Dockerfile'' \<noteq> map_of (rw_files sampleRepo) ''windows/Dockerfile''" by code_simp
  have k: "''windows/Dockerfile'' \<noteq> pathClean ''m.json''" by code_simp
  have "ue_decode sampleUpdater b = Inr demoManifest" for b by (simp add: sampleUpdater_def)
  then show ?thesis using update_writes_only_validated[OF sample_run ne] k by fastforce
qed

theorem second_update_changes_nothing_witness:
  "run sampleUpdater sampleRepo ''m.json'' = (None, updatedRepo) \<and> run sampleUpdater updatedRepo ''m.json'' = (None, updatedRepo)"
proof -
  have c: "ue_decode sampleUpdater b = Inr demoManifest" "ue_encode sampleUpdater m = Inr ''{}''" for b m
    by (simp_all add: sampleUpdater_def)
  have s: "sameManifest demoManifest demoManifest" by (simp add: sameManifest_def sameMap_def)
  have "run sampleUpdater updatedRepo ''m.json'' = (None, updatedRepo)"
    by (rule second_update_changes_nothing[OF sample_run])
       (auto simp: c s sample_refresh updatedRepo_def)
  then show ?thesis using sample_run by blast
qed

end
