(* ===== verification/Spec2Isabelle.thy ===== *)
theory Spec2Isabelle
  imports Go_Prelude Net_IP Backend Image_Manifest Config Github
    Scaleset_Supervisor Scaleset_Launcher Scaleset_Refinement Scaleset_Calls Scaleset_Session
    Runner_Lifecycle Pool Autoscale
    Cache_Store Cache_Lifecycle Cache_Blockid Cache_Server
    Webhook_Metrics Device_Token
    Go_Os Go_Text Git_Mirror Service_Log Service_Key Service_Host
    Vm_Host Vm_Backend Vm_Runner Vm_Golden Image_Update
begin

text \<open>
  \<^bold>\<open>multirunner\<close> runs ephemeral self-hosted GitHub Actions runners on one host. It reads a
  configuration of pools, registers runners with GitHub, starts one container or virtual machine per
  job and removes it afterwards. Three modes drive the launches: fixed pools keep a number of warm
  slots, the autoscaler reacts to webhooks and polls, and scale-set sessions are told by GitHub how
  many runners to keep. Beside them run a cache server for \<open>actions/cache\<close>, host-resident git mirrors,
  the webhook receiver and the metrics and health endpoints. As a service, all of this runs in a
  worker process under a supervisor that redacts its output and stops a crash loop.

  \<^bold>\<open>Reading the model.\<close> Every theory translates Go files under \<open>src/\<close>; definitions keep the names of
  the Go functions and types, with a prefix on record fields (\<open>rf_tok\<close> is field \<open>tok\<close> of the
  refresher). Strings are byte strings, errors are values of \<open>gerr\<close>, a fallible result is a sum with
  the error on the left, times and durations are nanoseconds with \<open>wrap64\<close> where a product can leave
  the range of \<open>int64\<close>. Mutexes and goroutines become explicit steps: a handler is a function from
  state to state, and the concurrent parts are \<open>inductive\<close> step relations over these functions,
  explored with \<open>reach\<close> of \<open>Go_Prelude\<close>. Services outside the repository (the container daemon,
  GitHub's REST and OAuth endpoints, the upstream cache service, JSON and YAML decoding, HMAC) are
  arguments of the definitions, usually a record of functions over an abstract world.

  \<^bold>\<open>Shared layers.\<close>
  \<^item> \<open>Go_Prelude\<close>: strings, decimal and hexadecimal text, errors, 64-bit wrap-around, \<open>reach\<close>, and
    the interfaces \<open>invariant_machine\<close> (an invariant of a step relation) and \<open>backoff_schedule\<close> (a
    retry schedule). The first is interpreted for the launcher, the autoscaler, the cache store
    (twice), the device token and the stopping service, the second for both retry schedules.
  \<^item> \<open>Net_IP\<close>: what the program uses of \<open>net/url\<close> and \<open>net.ParseIP\<close>.
  \<^item> \<open>Go_Os\<close>: \<open>path/filepath\<close> and the process environment. \<open>Go_Text\<close>: UTF-8, \<open>strings.ReplaceAll\<close> and a
    leftmost-first regular expression matcher, with the lemma that a replacement in angle brackets
    creates no new occurrence of a word.

  \<^bold>\<open>Configuration and images.\<close>
  \<^item> \<open>Config\<close> (\<open>internal/config/config.go\<close>, \<open>dotenv.go\<close>): schema, secrets, defaults, \<open>Validate\<close>,
    image references, job authorisation. Loaded configurations have distinct pools and limits that
    do not overflow, restricted pools serve only listed jobs, and the automaton for image tiers
    accepts the language of the regular expression of the code.
  \<^item> \<open>Image_Manifest\<close> (\<open>images/versions.go\<close>, tool plan of \<open>internal/winvm/bake.go\<close>): every archive
    of a golden image carries a digest of the declared kind.
  \<^item> \<open>Image_Update\<close> (\<open>cmd/update-image-versions/main.go\<close>): the refresh of the manifest from the release feeds
    and of the base images in the Dockerfiles. Only validated content is written, and a second refresh
    against the same feeds changes nothing.

  \<^bold>\<open>GitHub and backends.\<close>
  \<^item> \<open>Github\<close> (\<open>internal/github\<close>): origins and credentials, REST paths, paginated searches, providers
    over one or many repositories. Credentials stay on their origin; a poll asks every repository.
  \<^item> \<open>Backend\<close> (\<open>internal/backend\<close>): ownership labels and the two container backends.
  \<^item> \<open>Device_Token\<close> (\<open>internal/ghapp/device.go\<close>, \<open>refresher.go\<close>): the device flow and the rotation
    of its token pair, which loses no live pair among processes that share a token file.

  \<^bold>\<open>Launching.\<close>
  \<^item> \<open>Scaleset_Supervisor\<close>, \<open>Scaleset_Launcher\<close>, \<open>Scaleset_Refinement\<close>, \<open>Scaleset_Calls\<close>,
    \<open>Scaleset_Session\<close> (\<open>internal/scaleset\<close>): the retry loop, the launcher's handlers and cleanup, the
    refinement of every interleaving of them to an abstract machine of capacity and ownership, the
    order of outside calls, and one session from runner group to listener.
  \<^item> \<open>Runner_Lifecycle\<close> (\<open>internal/runner\<close>), \<open>Pool\<close> (\<open>internal/pool\<close>), \<open>Autoscale\<close>
    (\<open>internal/autoscale\<close>): one runner from registration to cleanup, warm pools, and the scaler.

  \<^bold>\<open>Servers.\<close>
  \<^item> \<open>Cache_Store\<close>, \<open>Cache_Lifecycle\<close> (\<open>internal/cache/store.go\<close>): tables and blobs, lookups, uploads,
    downloads and eviction; the invariant of the store, the upload round trip, and that sweeps are
    least-recently-used.
  \<^item> \<open>Cache_Blockid\<close>, \<open>Cache_Server\<close> (\<open>internal/cache/blockid.go\<close>, \<open>server.go\<close>, \<open>env.go\<close>): block
    identifiers, signed URLs, tokens, routes and handlers; repositories are isolated from each other.
  \<^item> \<open>Webhook_Metrics\<close> (\<open>internal/webhook\<close>, \<open>internal/metrics\<close>): the signed entry to the autoscaler and
    the exactness of gauges and health.

  \<^bold>\<open>Git mirrors and the service.\<close>
  \<^item> \<open>Git_Mirror\<close> (\<open>internal/gitcache/mirror.go\<close>, \<open>cmd/multirunner/helpers.go\<close>): the environment of git,
    refresh, bundle, sweep and audit, and the wiring of mirrors into the cache server and the pools.
    Git reads no foreign credential or URL rewrite, a sweep removes only stale mirrors of the cache's
    own, and the bundle address of a runner is served.
  \<^item> \<open>Service_Log\<close>, \<open>Service_Key\<close> (\<open>service_logging.go\<close>): redaction, bounded tail and the copying of the
    worker's output; configured secrets and private keys stay out of the log.
  \<^item> \<open>Service_Host\<close> (\<open>internal/servicehost/failures.go\<close>, \<open>service_lifecycle.go\<close>, \<open>service_supervisor.go\<close>,
    \<open>service_worker.go\<close>): failure history, service program, supervisor and worker start; a crash loop
    stops after four failures in ten minutes, and a stop is no failure.

  \<^bold>\<open>Windows virtual machines.\<close> These theories run on a host with files, processes and a clock, in which
  every system call takes its outcome from a list and so may fail, also half way.
  \<^item> \<open>Vm_Host\<close>: that host, with \<open>filepath.Glob\<close> and \<open>processAlive\<close> of \<open>process_unix.go\<close>.
  \<^item> \<open>Vm_Backend\<close> (\<open>internal/winvm/backend.go\<close>, \<open>qemu.go\<close>, \<open>qmp.go\<close>, \<open>iso.go\<close>): QEMU's arguments, the QMP
    dialogue, runner records, launch, listing and removal. \<open>Vm_Runner\<close> interprets \<open>runner_backend\<close> of
    \<open>Backend\<close> for it: a failed launch leaves nothing, files go only after their process, a removal stops
    only the VM with the recorded name and returns, and a launched VM is listed again.
  \<^item> \<open>Vm_Golden\<close> (\<open>internal/winvm/bake.go\<close>, \<open>housekeeping.go\<close>, \<open>housekeeping_run.go\<close>, \<open>meta.go\<close>): the bake
    from validation to metadata, the fingerprint of its inputs, rearm, rebuild and the policy. An image
    is recorded only when the guest reported success, the policy settles after its own actions, the
    budget of rearms is kept, and staged files have their pinned digests.

  \<^bold>\<open>Loops and bounds.\<close> Structural loops are structural recursion. Loops that may go on take a number
  of rounds, and it is proved that enough rounds give the result: 20 attempts of opening a session (the
  constant of the code); the slot and supervisor loops for every number of rounds, since they are
  meant to run for ever; paginated searches, for any count above the number of pages; \<open>copyAll\<close>, one
  round more than there are bytes, which is also what \<open>handleDownload\<close> uses; \<open>PollDeviceToken\<close>, one
  round more than the life of the code in seconds. \<open>waitForProcessExit\<close> polls without a bound and is a
  \<open>partial_function\<close>, with the theorem that a removal returns; \<open>freePort\<close> runs over the ports that the host
  offers; the glob parser gets the length of the pattern.

  \<^bold>\<open>Not modelled.\<close> What a guest does inside QEMU (its run is an argument of the bake), host detection and set-up, service-manager
  templates and the native service managers, prompts and command-line wiring, image builds are input and
  output around the logic above. Faults of the SQLite database and of the disk are left out of the
  cache store, except an upload cut off while it is copied. Operations of the cache store are taken
  one at a time, as its single database connection serialises their statements. The temporary files
  of record writes and downloads are outside the modelled store, and the division of a duration into
  days, a floating-point one, is an argument.
\<close>

end
